(* ===== verification/Mesh_Prelude.thy ===== *)
theory Mesh_Prelude
  imports
    Complex_Main
    "HOL-Library.AList"
    "HOL-Library.Sublist"
    "HOL-Library.Char_ord"
    "HOL-Library.List_Lexorder"
    "HOL-Library.Code_Target_Nat"
begin

text \<open>
  Shared base of the development: the collections its proofs draw on, generic facts on
  association lists, sorted duplicate-free lists and sums, and the interface
  \<open>keyed_store\<close> of anything that stores values under keys (a directory tree, an SQL
  table with a primary key). Every component theory imports this one.
\<close>

section \<open>Collections\<close>

named_theorems fs_simps \<open>equations of the file system operations\<close>
named_theorems py_simps \<open>equations of the Python library functions the code calls\<close>
named_theorems path_simps \<open>equations of the mailbox path builders\<close>

section \<open>Instants\<close>

text \<open>
  A clock reading (\<open>time.time()\<close>, \<open>datetime.now(timezone.utc).timestamp()\<close>) is a
  rational number of seconds since the epoch.
\<close>

type_synonym instant = rat

section \<open>Keyed stores\<close>

text \<open>
  What a client may rely on of a store that maps keys to values. Nothing else of the
  representation is visible to the lemmas proved here; the file system and the SQL tables of
  the program each provide an interpretation.
\<close>

locale keyed_store =
  fixes get :: "'s \<Rightarrow> 'k \<Rightarrow> 'v option"
    and put :: "'k \<Rightarrow> 'v \<Rightarrow> 's \<Rightarrow> 's"
    and del :: "'k \<Rightarrow> 's \<Rightarrow> 's"
  assumes get_put: "get (put k v s) x = (if x = k then Some v else get s x)"
    and get_del: "get (del k s) x = (if x = k then None else get s x)"
begin

lemma get_put_same: "get (put k v s) k = Some v"
  by (simp add: get_put)

lemma get_put_other: "x \<noteq> k \<Longrightarrow> get (put k v s) x = get s x"
  by (simp add: get_put)

lemma get_del_same: "get (del k s) k = None"
  by (simp add: get_del)

lemma get_del_other: "x \<noteq> k \<Longrightarrow> get (del k s) x = get s x"
  by (simp add: get_del)

text \<open>Moving a value from one key to another, the shape of a rename.\<close>

lemma get_move:
  "get (put k' v (del k s)) x = (if x = k' then Some v else if x = k then None else get s x)"
  by (simp add: get_put get_del)

text \<open>Writing the same value under many keys.\<close>

lemma get_put_fold:
  "get (fold (\<lambda>k. put k v) ks s) x = (if x \<in> set ks then Some v else get s x)"
  by (induction ks arbitrary: s) (auto simp: get_put)

lemma get_del_fold: "get (fold del ks s) x = (if x \<in> set ks then None else get s x)"
  by (induction ks arbitrary: s) (auto simp: get_del)

end

text \<open>Association lists are such a store; every concrete store below is one.\<close>

interpretation al: keyed_store map_of AList.update AList.delete
  by unfold_locales (auto simp: update_conv' delete_conv')

lemma keys_update: "fst ` set (AList.update k v al) = insert k (fst ` set al)"
  by (simp add: dom_update [symmetric] flip: dom_map_of_conv_image_fst)
     (auto simp: update_conv' dom_map_of_conv_image_fst split: if_splits)

section \<open>Sorted duplicate-free lists\<close>

text \<open>Python's \<open>sorted(set(xs))\<close>.\<close>

definition sorted_set :: "'a::linorder list \<Rightarrow> 'a list" where
  "sorted_set xs = sort (remdups xs)"

lemma set_sorted_set [simp]: "set (sorted_set xs) = set xs"
  by (simp add: sorted_set_def)

lemma distinct_sorted_set [simp]: "distinct (sorted_set xs)"
  by (simp add: sorted_set_def)

lemma sorted_sorted_set [simp]: "sorted (sorted_set xs)"
  by (simp add: sorted_set_def)

lemma sorted_set_cong: "set xs = set ys \<Longrightarrow> sorted_set xs = sorted_set ys"
  by (metis distinct_sorted_set set_sorted_set sorted_distinct_set_unique sorted_sorted_set)

lemma sorted_set_idem [simp]: "sorted_set (sorted_set xs) = sorted_set xs"
  by (rule sorted_set_cong) simp

section \<open>Option and list helpers\<close>

lemma find_SomeD: "find P xs = Some x \<Longrightarrow> P x \<and> x \<in> set xs"
  by (auto simp: find_Some_iff)

lemma find_None_all: "find P xs = None \<longleftrightarrow> (\<forall>x \<in> set xs. \<not> P x)"
  by (auto simp: find_None_iff)

lemma length_filter_lt: "x \<in> set xs \<Longrightarrow> \<not> P x \<Longrightarrow> length (filter P xs) < length xs"
  by (rule length_filter_less)

end
