(* ===== verification/Py_Values.thy ===== *)
theory Py_Values
  imports Mesh_Prelude
begin

text \<open>
  The Python values the mailbox code handles: strings with the library functions it calls on
  them, decoded JSON documents, and dictionaries.

  A Python \<open>str\<close> is a list of characters whose code points are below 256 (one \<^typ>\<open>char\<close>
  each). On such strings every function below computes what Python computes; the white space
  of \<open>str.strip\<close> is the Latin-1 part of Python's table.
\<close>

section \<open>Strings\<close>

definition code :: "char \<Rightarrow> nat" where
  "code c = of_char c"

definition is_alnum :: "char \<Rightarrow> bool" where
  "is_alnum c \<longleftrightarrow> (48 \<le> code c \<and> code c \<le> 57) \<or> (65 \<le> code c \<and> code c \<le> 90) \<or>
     (97 \<le> code c \<and> code c \<le> 122)"

definition is_space :: "char \<Rightarrow> bool" where
  "is_space c \<longleftrightarrow> (9 \<le> code c \<and> code c \<le> 13) \<or> (28 \<le> code c \<and> code c \<le> 32) \<or>
     code c = 133 \<or> code c = 160"

definition newline :: char where
  "newline = CHR 0x0A"

text \<open>The character class \<open>[a-zA-Z0-9_.-]\<close> of the identifier patterns.\<close>

definition is_id_char :: "char \<Rightarrow> bool" where
  "is_id_char c \<longleftrightarrow> is_alnum c \<or> c = CHR ''_'' \<or> c = CHR ''.'' \<or> c = CHR ''-''"

definition is_hex :: "char \<Rightarrow> bool" where
  "is_hex c \<longleftrightarrow> (48 \<le> code c \<and> code c \<le> 57) \<or> (97 \<le> code c \<and> code c \<le> 102) \<or>
     (65 \<le> code c \<and> code c \<le> 70)"

definition strip :: "string \<Rightarrow> string" where
  "strip s = rev (dropWhile is_space (rev (dropWhile is_space s)))"

text \<open>
  \<open>re.match\<close> of a pattern that ends in \<open>$\<close>: without \<open>re.MULTILINE\<close> the dollar matches at the
  end of the string and also just before a line feed that ends it.
\<close>

definition match_dollar :: "(string \<Rightarrow> bool) \<Rightarrow> string \<Rightarrow> bool" where
  "match_dollar P s \<longleftrightarrow> P s \<or> (s \<noteq> [] \<and> last s = newline \<and> P (butlast s))"

text \<open>The length of \<open>s.encode("utf-8")\<close>.\<close>

definition utf8_length :: "string \<Rightarrow> nat" where
  "utf8_length s = sum_list (map (\<lambda>c. if code c < 128 then 1 else 2) s)"

definition contains :: "string \<Rightarrow> string \<Rightarrow> bool" where
  "contains needle s \<longleftrightarrow> sublist needle s"

lemma strip_eq_Nil: "strip s = [] \<longleftrightarrow> (\<forall>c \<in> set s. is_space c)"
proof
  assume "strip s = []"
  then have all: "\<forall>c \<in> set (dropWhile is_space s). is_space c"
    by (simp add: strip_def)
  have "dropWhile is_space s = []"
  proof (rule ccontr)
    assume ne: "dropWhile is_space s \<noteq> []"
    then have "\<not> is_space (hd (dropWhile is_space s))" by (rule hd_dropWhile)
    with all ne show False by (meson list.set_sel(1))
  qed
  then show "\<forall>c \<in> set s. is_space c" by simp
next
  assume "\<forall>c \<in> set s. is_space c"
  then show "strip s = []" by (auto simp: strip_def dest: set_dropWhileD)
qed

lemma newline_not_id_char [simp]: "\<not> is_id_char newline"
  by (simp add: is_id_char_def is_alnum_def newline_def code_def)

lemma slash_not_id_char [simp]: "\<not> is_id_char (CHR ''/'')"
  by (simp add: is_id_char_def is_alnum_def code_def)

lemma is_alnum_id_char: "is_alnum c \<Longrightarrow> is_id_char c"
  by (simp add: is_id_char_def)

lemma is_alnum_not_dot: "is_alnum c \<Longrightarrow> c \<noteq> CHR ''.''"
  by (auto simp: is_alnum_def code_def)

section \<open>Decimal numerals\<close>

definition digit :: "nat \<Rightarrow> char" where
  "digit n = char_of (48 + n)"

fun digits :: "nat \<Rightarrow> string" where
  "digits n = (if n < 10 then [digit n] else digits (n div 10) @ [digit (n mod 10)])"

declare digits.simps [simp del]

text \<open>\<open>f"{n:0{w}d}"\<close> for a natural number: padded on the left with zeros to the width.\<close>

definition zfill :: "nat \<Rightarrow> nat \<Rightarrow> string" where
  "zfill w n = replicate (w - length (digits n)) (CHR ''0'') @ digits n"

definition is_digit :: "char \<Rightarrow> bool" where
  "is_digit c \<longleftrightarrow> 48 \<le> code c \<and> code c \<le> 57"

text \<open>\<open>int(s)\<close> on a string of ASCII digits.\<close>

definition nat_of_digits :: "string \<Rightarrow> nat" where
  "nat_of_digits s = foldl (\<lambda>n c. 10 * n + (code c - 48)) 0 s"

lemma code_digit: "n < 10 \<Longrightarrow> code (digit n) = 48 + n"
  by (simp add: code_def digit_def)

lemma is_digit_digit: "n < 10 \<Longrightarrow> is_digit (digit n)"
  by (simp add: is_digit_def code_digit)

lemma nat_of_digits_snoc: "nat_of_digits (s @ [c]) = 10 * nat_of_digits s + (code c - 48)"
  by (simp add: nat_of_digits_def)

lemma nat_of_digits_zeros: "nat_of_digits (replicate k (CHR ''0'') @ s) = nat_of_digits s"
  by (induction k) (simp_all add: nat_of_digits_def code_def)

lemma nat_of_digits_digits: "nat_of_digits (digits n) = n"
proof (induction n rule: digits.induct)
  case (1 n)
  show ?case
  proof (cases "n < 10")
    case True
    then show ?thesis by (simp add: digits.simps [of n] nat_of_digits_def code_digit)
  next
    case False
    with "1" have "nat_of_digits (digits (n div 10)) = n div 10" by simp
    with False show ?thesis
      by (simp add: digits.simps [of n] nat_of_digits_snoc code_digit)
  qed
qed

lemma nat_of_digits_zfill [simp]: "nat_of_digits (zfill w n) = n"
  by (simp add: zfill_def nat_of_digits_zeros nat_of_digits_digits)

lemma digits_is_digit: "\<forall>c \<in> set (digits n). is_digit c"
proof (induction n rule: digits.induct)
  case (1 n)
  then show ?case
    by (cases "n < 10") (auto simp: digits.simps [of n] is_digit_digit)
qed

lemma zfill_is_digit: "\<forall>c \<in> set (zfill w n). is_digit c"
  using digits_is_digit by (auto simp: zfill_def is_digit_def code_def)

lemma length_digits_le: "n < 10 ^ k \<Longrightarrow> 0 < k \<Longrightarrow> length (digits n) \<le> k"
proof (induction k arbitrary: n)
  case 0
  then show ?case by simp
next
  case (Suc k)
  show ?case
  proof (cases "n < 10")
    case True
    then show ?thesis by (simp add: digits.simps [of n])
  next
    case False
    with Suc.prems have "n div 10 < 10 ^ k" "0 < k"
      by (auto simp: less_mult_imp_div_less) (metis False gr0I power_0 mult.right_neutral power_Suc)
    then have "length (digits (n div 10)) \<le> k" by (rule Suc.IH)
    with False show ?thesis by (simp add: digits.simps [of n])
  qed
qed

lemma length_zfill: "n < 10 ^ w \<Longrightarrow> 0 < w \<Longrightarrow> length (zfill w n) = w"
  using length_digits_le [of n w] by (simp add: zfill_def)

section \<open>JSON documents and dictionaries\<close>

datatype json =
    JNull
  | JBool bool
  | JInt int
  | JFloat rat
  | JStr string
  | JArr "json list"
  | JObj "(string \<times> json) list"

type_synonym dict = "(string \<times> json) list"

text \<open>Python's truth value of a decoded document.\<close>

fun truthy :: "json \<Rightarrow> bool" where
  "truthy JNull = False"
| "truthy (JBool b) = b"
| "truthy (JInt i) = (i \<noteq> 0)"
| "truthy (JFloat r) = (r \<noteq> 0)"
| "truthy (JStr s) = (s \<noteq> [])"
| "truthy (JArr xs) = (xs \<noteq> [])"
| "truthy (JObj d) = (d \<noteq> [])"

text \<open>Lists and dictionaries are not hashable: testing them for membership in a set raises.\<close>

fun hashable :: "json \<Rightarrow> bool" where
  "hashable (JArr _) = False"
| "hashable (JObj _) = False"
| "hashable _ = True"

fun is_str :: "json \<Rightarrow> bool" where
  "is_str (JStr _) = True"
| "is_str _ = False"

text \<open>\<open>isinstance(v, int) and not isinstance(v, bool)\<close>.\<close>

fun int_not_bool :: "json \<Rightarrow> int option" where
  "int_not_bool (JInt i) = Some i"
| "int_not_bool _ = None"

fun the_str :: "json \<Rightarrow> string" where
  "the_str (JStr s) = s"
| "the_str _ = []"

text \<open>\<open>d.get(k)\<close>, \<open>d.get(k, default)\<close>, \<open>d[k] = v\<close>.\<close>

definition dget :: "dict \<Rightarrow> string \<Rightarrow> json option" where
  "dget d k = map_of d k"

definition dget_or :: "dict \<Rightarrow> string \<Rightarrow> json \<Rightarrow> json" where
  "dget_or d k v = (case map_of d k of None \<Rightarrow> v | Some x \<Rightarrow> x)"

definition dset :: "dict \<Rightarrow> string \<Rightarrow> json \<Rightarrow> dict" where
  "dset d k v = AList.update k v d"

definition has_key :: "dict \<Rightarrow> string \<Rightarrow> bool" where
  "has_key d k \<longleftrightarrow> map_of d k \<noteq> None"

text \<open>The string under a key, the empty string when the key is absent.\<close>

definition sget :: "dict \<Rightarrow> string \<Rightarrow> string" where
  "sget d k = the_str (dget_or d k (JStr []))"

lemma dget_dset [simp]: "dget (dset d k v) x = (if x = k then Some v else dget d x)"
  by (simp add: dget_def dset_def al.get_put)

lemma dget_or_dset [simp]: "dget_or (dset d k v) x w = (if x = k then v else dget_or d x w)"
  by (simp add: dget_or_def dset_def al.get_put)

lemma has_key_dset [simp]: "has_key (dset d k v) x \<longleftrightarrow> x = k \<or> has_key d x"
  by (simp add: has_key_def dset_def al.get_put)

lemma sget_dset [simp]: "sget (dset d k v) x = (if x = k then the_str v else sget d x)"
  by (simp add: sget_def)

end
