(* ===== verification/Py_Time.thy ===== *)
theory Py_Time
  imports Py_Values
begin

text \<open>
  Timestamps as the code writes and reads them: \<open>strftime("%Y-%m-%dT%H:%M:%SZ")\<close> of an instant
  in UTC, and \<open>datetime.fromisoformat(s).timestamp()\<close> on strings of that form, as Python 3.11
  computes it. A string of any other form is read as \<open>ValueError\<close> (here \<^term>\<open>None\<close>); the program
  writes no other form.
\<close>

section \<open>Calendar\<close>

definition is_leap :: "nat \<Rightarrow> bool" where
  "is_leap y \<longleftrightarrow> y mod 4 = 0 \<and> (y mod 100 \<noteq> 0 \<or> y mod 400 = 0)"

definition year_days :: "nat \<Rightarrow> nat" where
  "year_days y = (if is_leap y then 366 else 365)"

definition month_lengths :: "nat \<Rightarrow> nat list" where
  "month_lengths y = [31, if is_leap y then 29 else 28, 31, 30, 31, 30, 31, 31, 30, 31, 30, 31]"

function civil_year :: "nat \<Rightarrow> nat \<Rightarrow> nat \<times> nat" where
  "civil_year y d = (if d < year_days y then (y, d) else civil_year (Suc y) (d - year_days y))"
  by pat_completeness auto
termination
  by (relation "measure snd") (auto simp: year_days_def)

declare civil_year.simps [simp del]

fun civil_month :: "nat \<Rightarrow> nat list \<Rightarrow> nat \<Rightarrow> nat \<times> nat" where
  "civil_month m [] d = (m, d)"
| "civil_month m (l # ls) d = (if d < l then (m, d) else civil_month (Suc m) ls (d - l))"

definition year_start :: "nat \<Rightarrow> nat" where
  "year_start y = sum_list (map year_days [1970..<y])"

definition month_start :: "nat \<Rightarrow> nat \<Rightarrow> nat" where
  "month_start y m = sum_list (take (m - 1) (month_lengths y))"

definition iso_format :: "instant \<Rightarrow> string" where
  "iso_format t =
     (let s = nat \<lfloor>t\<rfloor>;
          (y, yd) = civil_year 1970 (s div 86400);
          (m, md) = civil_month 1 (month_lengths y) yd;
          r = s mod 86400
      in zfill 4 y @ ''-'' @ zfill 2 m @ ''-'' @ zfill 2 (Suc md) @ ''T'' @
         zfill 2 (r div 3600) @ '':'' @ zfill 2 (r mod 3600 div 60) @ '':'' @ zfill 2 (r mod 60) @ ''Z'')"

definition valid_fields :: "nat \<Rightarrow> nat \<Rightarrow> nat \<Rightarrow> nat \<Rightarrow> nat \<Rightarrow> nat \<Rightarrow> bool" where
  "valid_fields y m d h mi s \<longleftrightarrow> 1 \<le> m \<and> m \<le> 12 \<and> 1 \<le> d \<and> d \<le> month_lengths y ! (m - 1) \<and>
     h < 24 \<and> mi < 60 \<and> s < 60 \<and> 1970 \<le> y"

definition timestamp_of_fields :: "nat \<Rightarrow> nat \<Rightarrow> nat \<Rightarrow> nat \<Rightarrow> nat \<Rightarrow> nat \<Rightarrow> instant" where
  "timestamp_of_fields y m d h mi s =
     of_nat ((year_start y + month_start y m + (d - 1)) * 86400 + h * 3600 + mi * 60 + s)"

definition fromisoformat :: "string \<Rightarrow> instant option" where
  "fromisoformat s =
     (let y = take 4 s; m = take 2 (drop 5 s); d = take 2 (drop 8 s); h = take 2 (drop 11 s);
          mi = take 2 (drop 14 s); sec = take 2 (drop 17 s)
      in if length s = 20 \<and> s ! 4 = CHR ''-'' \<and> s ! 7 = CHR ''-'' \<and> s ! 10 = CHR ''T'' \<and>
            s ! 13 = CHR '':'' \<and> s ! 16 = CHR '':'' \<and> s ! 19 = CHR ''Z'' \<and>
            list_all is_digit (y @ m @ d @ h @ mi @ sec) \<and>
            valid_fields (nat_of_digits y) (nat_of_digits m) (nat_of_digits d)
              (nat_of_digits h) (nat_of_digits mi) (nat_of_digits sec)
         then Some (timestamp_of_fields (nat_of_digits y) (nat_of_digits m) (nat_of_digits d)
                (nat_of_digits h) (nat_of_digits mi) (nat_of_digits sec))
         else None)"

text \<open>The instants whose year has four digits: what the format can express.\<close>

definition iso_range :: "instant \<Rightarrow> bool" where
  "iso_range t \<longleftrightarrow> 0 \<le> t \<and> fst (civil_year 1970 (nat \<lfloor>t\<rfloor> div 86400)) < 10000"

section \<open>Reading back a written timestamp\<close>

lemma civil_year_inv:
  "1970 \<le> y \<Longrightarrow> civil_year y d = (y', d') \<Longrightarrow>
     year_start y' + d' = year_start y + d \<and> d' < year_days y' \<and> y \<le> y'"
proof (induction y d rule: civil_year.induct)
  case (1 y d)
  show ?case
  proof (cases "d < year_days y")
    case True
    with "1.prems" show ?thesis by (simp add: civil_year.simps [of y d])
  next
    case False
    with "1.prems" have "civil_year (Suc y) (d - year_days y) = (y', d')"
      by (simp add: civil_year.simps [of y d])
    with False "1.IH" "1.prems" show ?thesis
      by (auto simp: year_start_def)
  qed
qed

lemma civil_month_inv:
  "d < sum_list ls \<Longrightarrow> civil_month m ls d = (m', d') \<Longrightarrow>
     m \<le> m' \<and> m' < m + length ls \<and> d' < ls ! (m' - m) \<and> sum_list (take (m' - m) ls) + d' = d"
proof (induction m ls d rule: civil_month.induct)
  case (2 m l ls d)
  show ?case
  proof (cases "d < l")
    case True
    with "2.prems" show ?thesis by simp
  next
    case False
    with "2" have h: "Suc m \<le> m' \<and> m' < Suc m + length ls \<and> d' < ls ! (m' - Suc m) \<and>
        sum_list (take (m' - Suc m) ls) + d' = d - l"
      by simp
    then have "m' - m = Suc (m' - Suc m)" by arith
    with h False show ?thesis by (auto simp: add.assoc)
  qed
qed simp

lemma sum_month_lengths: "sum_list (month_lengths y) = year_days y"
  by (simp add: month_lengths_def year_days_def)

lemma month_length_bound: "i < 12 \<Longrightarrow> month_lengths y ! i \<le> 31"
  by (auto simp: month_lengths_def nth_Cons split: nat.splits)

lemma length_month_lengths [simp]: "length (month_lengths y) = 12"
  by (simp add: month_lengths_def)

lemma fromisoformat_fields:
  assumes "y < 10000" "m < 100" "d < 100" "h < 100" "mi < 100" "s < 100"
    and "valid_fields y m d h mi s"
  shows "fromisoformat (zfill 4 y @ ''-'' @ zfill 2 m @ ''-'' @ zfill 2 d @ ''T'' @
           zfill 2 h @ '':'' @ zfill 2 mi @ '':'' @ zfill 2 s @ ''Z'') =
         Some (timestamp_of_fields y m d h mi s)"
  using assms
  by (simp add: fromisoformat_def length_zfill nth_append Let_def list_all_iff zfill_is_digit ball_Un)

lemma split_seconds: "r div 3600 * 3600 + r mod 3600 div 60 * 60 + r mod 60 = (r::nat)"
proof -
  have "r mod 3600 div 60 * 60 + r mod 60 = r mod 3600"
    using div_mult_mod_eq [of "r mod 3600" 60] by (simp add: mod_mod_cancel)
  then show ?thesis using div_mult_mod_eq [of r 3600] by linarith
qed

lemma fromisoformat_iso_format:
  assumes "iso_range t"
  shows "fromisoformat (iso_format t) = Some (of_int \<lfloor>t\<rfloor>)"
proof -
  let ?s = "nat \<lfloor>t\<rfloor>"
  obtain y yd where y: "civil_year 1970 (?s div 86400) = (y, yd)" by fastforce
  obtain m md where m: "civil_month 1 (month_lengths y) yd = (m, md)" by fastforce
  let ?r = "?s mod 86400"
  from civil_year_inv [OF _ y]
  have yi: "year_start y + yd = ?s div 86400" "yd < year_days y" "1970 \<le> y"
    by (auto simp: year_start_def)
  from civil_month_inv [OF _ m] yi(2)
  have mi: "1 \<le> m" "m < 13" "md < month_lengths y ! (m - 1)" "month_start y m + md = yd"
    by (auto simp: sum_month_lengths month_start_def)
  have y4: "y < 10000" using assms y by (simp add: iso_range_def)
  have md: "md < 31" using mi month_length_bound [of "m - 1" y] by linarith
  have r: "?r < 86400" by simp
  have vf: "valid_fields y m (Suc md) (?r div 3600) (?r mod 3600 div 60) (?r mod 60)"
    using mi yi(3) r by (auto simp: valid_fields_def less_mult_imp_div_less)
  have "fromisoformat (iso_format t) =
      Some (timestamp_of_fields y m (Suc md) (?r div 3600) (?r mod 3600 div 60) (?r mod 60))"
    unfolding iso_format_def Let_def y m prod.case
    by (rule fromisoformat_fields) (use y4 mi md vf in \<open>auto simp: valid_fields_def\<close>)
  also have "(year_start y + month_start y m + (Suc md - 1)) * 86400 +
      ?r div 3600 * 3600 + ?r mod 3600 div 60 * 60 + ?r mod 60 = ?s"
  proof -
    have "?r div 3600 * 3600 + ?r mod 3600 div 60 * 60 + ?r mod 60 = ?r" by (rule split_seconds)
    moreover have "year_start y + month_start y m + md = ?s div 86400" using yi(1) mi(4) by simp
    ultimately show ?thesis
      using div_mult_mod_eq [of ?s 86400] by (simp add: add.assoc)
  qed
  then have "timestamp_of_fields y m (Suc md) (?r div 3600) (?r mod 3600 div 60) (?r mod 60) =
      of_nat ?s"
    by (simp add: timestamp_of_fields_def)
  finally show ?thesis using assms by (simp add: iso_range_def)
qed

lemma fromisoformat_Nil [simp]: "fromisoformat [] = None"
  by (simp add: fromisoformat_def)

end
