(* ===== verification/File_System.thy ===== *)
theory File_System
  imports Py_Time
begin

text \<open>
  The directory tree under the mailbox root. A path is the list of its components below the
  root; a file holds a decoded JSON document or a text that is not one, and its modification
  time. The tree is an association list from paths to nodes: its order is the order in which
  a directory scan yields the entries, which no lemma depends on.

  Permission bits, \<open>fsync\<close> and symbolic links are not part of the tree. The operations are the
  ones the code calls: \<open>exists\<close>, \<open>is_file\<close>, \<open>mkdir(parents=True, exist_ok=True)\<close>, writing a
  file through a temporary name and \<open>os.replace\<close>, \<open>os.replace\<close>, \<open>unlink(missing_ok=True)\<close>,
  \<open>shutil.rmtree\<close> and directory scans.
\<close>

section \<open>Trees\<close>

datatype content = Doc json | Text string

datatype node = Dir | File content instant

type_synonym path = "string list"
type_synonym fs = "(path \<times> node) list"

definition node_at :: "fs \<Rightarrow> path \<Rightarrow> node option" where
  "node_at s p = map_of s p"

definition put_node :: "path \<Rightarrow> node \<Rightarrow> fs \<Rightarrow> fs" where
  "put_node p n s = AList.update p n s"

definition del_node :: "path \<Rightarrow> fs \<Rightarrow> fs" where
  "del_node p s = AList.delete p s"

interpretation tree: keyed_store node_at put_node del_node
  by unfold_locales (simp_all add: node_at_def put_node_def del_node_def al.get_put al.get_del)

declare tree.get_put [fs_simps] tree.get_del [fs_simps]

definition exists_at :: "fs \<Rightarrow> path \<Rightarrow> bool" where
  "exists_at s p \<longleftrightarrow> node_at s p \<noteq> None"

definition is_file_at :: "fs \<Rightarrow> path \<Rightarrow> bool" where
  "is_file_at s p \<longleftrightarrow> (case node_at s p of Some (File _ _) \<Rightarrow> True | _ \<Rightarrow> False)"

definition is_dir_at :: "fs \<Rightarrow> path \<Rightarrow> bool" where
  "is_dir_at s p \<longleftrightarrow> node_at s p = Some Dir"

definition mtime_at :: "fs \<Rightarrow> path \<Rightarrow> instant" where
  "mtime_at s p = (case node_at s p of Some (File _ t) \<Rightarrow> t | _ \<Rightarrow> 0)"

text \<open>\<open>json.loads(p.read_bytes())\<close> and the ways it fails.\<close>

datatype loaded = Missing | Undecodable | Loaded json

definition load_at :: "fs \<Rightarrow> path \<Rightarrow> loaded" where
  "load_at s p = (case node_at s p of
       Some (File (Doc j) _) \<Rightarrow> Loaded j
     | Some (File (Text _) _) \<Rightarrow> Undecodable
     | _ \<Rightarrow> Missing)"

text \<open>
  Writing a document: the code writes a temporary file in the same directory, flushes it and
  renames it over the destination, so the destination holds either its old or its new content.
\<close>

definition write_doc :: "instant \<Rightarrow> path \<Rightarrow> json \<Rightarrow> fs \<Rightarrow> fs" where
  "write_doc t p j s = put_node p (File (Doc j) t) s"

definition write_text :: "instant \<Rightarrow> path \<Rightarrow> string \<Rightarrow> fs \<Rightarrow> fs" where
  "write_text t p x s = put_node p (File (Text x) t) s"

text \<open>\<open>os.replace(src, dst)\<close>; \<^term>\<open>None\<close> is \<open>OSError\<close>. The file keeps its modification time.\<close>

definition os_replace :: "path \<Rightarrow> path \<Rightarrow> fs \<Rightarrow> fs option" where
  "os_replace src dst s = (case node_at s src of
       None \<Rightarrow> None
     | Some n \<Rightarrow> Some (put_node dst n (del_node src s)))"

definition unlink :: "path \<Rightarrow> fs \<Rightarrow> fs" where
  "unlink p s = del_node p s"

definition mkdir_one :: "path \<Rightarrow> fs \<Rightarrow> fs" where
  "mkdir_one p s = (if exists_at s p then s else put_node p Dir s)"

definition mkdirs :: "path \<Rightarrow> fs \<Rightarrow> fs" where
  "mkdirs p s = fold mkdir_one (prefixes p) s"

definition rmtree :: "path \<Rightarrow> fs \<Rightarrow> fs" where
  "rmtree p s = filter (\<lambda>(q, _). \<not> prefix p q) s"

text \<open>\<open>d.iterdir()\<close>: the names of the entries of a directory.\<close>

definition children :: "fs \<Rightarrow> path \<Rightarrow> string list" where
  "children s d = map last (filter (\<lambda>p. p \<noteq> [] \<and> butlast p = d) (map fst s))"

text \<open>
  \<open>d.glob(pre + "*" + suf)\<close>. The wildcard of \<open>pathlib\<close> also matches names that start with a dot.
\<close>

definition glob_match :: "string \<Rightarrow> string \<Rightarrow> string \<Rightarrow> bool" where
  "glob_match pre suf n \<longleftrightarrow> prefix pre n \<and> suffix suf n \<and> length pre + length suf \<le> length n"

definition dot_json :: string where
  "dot_json = ''.json''"

text \<open>\<open>Path(name).stem\<close> of a name that matches \<open>*.json\<close>.\<close>

definition stem :: "string \<Rightarrow> string" where
  "stem n = (if suffix dot_json n \<and> 5 < length n then take (length n - 5) n else n)"

text \<open>Well-formed trees name no path twice.\<close>

definition fs_ok :: "fs \<Rightarrow> bool" where
  "fs_ok s \<longleftrightarrow> distinct (map fst s)"

section \<open>Equations\<close>

lemma fs_ok_put [simp]: "fs_ok s \<Longrightarrow> fs_ok (put_node p n s)"
  by (simp add: fs_ok_def put_node_def distinct_update)

lemma fs_ok_del [simp]: "fs_ok s \<Longrightarrow> fs_ok (del_node p s)"
  by (simp add: fs_ok_def del_node_def distinct_delete)

lemma fs_ok_write_doc [simp]: "fs_ok s \<Longrightarrow> fs_ok (write_doc t p j s)"
  by (simp add: write_doc_def)

lemma fs_ok_write_text [simp]: "fs_ok s \<Longrightarrow> fs_ok (write_text t p x s)"
  by (simp add: write_text_def)

lemma fs_ok_unlink [simp]: "fs_ok s \<Longrightarrow> fs_ok (unlink p s)"
  by (simp add: unlink_def)

lemma fs_ok_os_replace [simp]: "fs_ok s \<Longrightarrow> os_replace src dst s = Some s' \<Longrightarrow> fs_ok s'"
  by (auto simp: os_replace_def split: option.splits)

lemma fs_ok_mkdir_one [simp]: "fs_ok s \<Longrightarrow> fs_ok (mkdir_one p s)"
  by (simp add: mkdir_one_def)

lemma fs_ok_fold_mkdir: "fs_ok s \<Longrightarrow> fs_ok (fold mkdir_one ps s)"
  by (induction ps arbitrary: s) auto

lemma fs_ok_mkdirs [simp]: "fs_ok s \<Longrightarrow> fs_ok (mkdirs p s)"
  by (simp add: mkdirs_def fs_ok_fold_mkdir)

lemma fs_ok_rmtree [simp]: "fs_ok s \<Longrightarrow> fs_ok (rmtree p s)"
  by (simp add: fs_ok_def rmtree_def distinct_map_filter)

lemma node_at_write_doc [fs_simps]:
  "node_at (write_doc t p j s) x = (if x = p then Some (File (Doc j) t) else node_at s x)"
  by (simp add: write_doc_def tree.get_put)

lemma node_at_write_text [fs_simps]:
  "node_at (write_text t p c s) x = (if x = p then Some (File (Text c) t) else node_at s x)"
  by (simp add: write_text_def tree.get_put)

lemma node_at_unlink [fs_simps]: "node_at (unlink p s) x = (if x = p then None else node_at s x)"
  by (simp add: unlink_def tree.get_del)

lemma os_replace_None_iff [simp]: "os_replace src dst s = None \<longleftrightarrow> \<not> exists_at s src"
  by (auto simp: os_replace_def exists_at_def split: option.splits)

lemma os_replace_SomeD:
  assumes "os_replace src dst s = Some s'"
  shows "\<exists>n. node_at s src = Some n \<and>
    (\<forall>x. node_at s' x = (if x = dst then Some n else if x = src then None else node_at s x))"
  using assms by (auto simp: os_replace_def tree.get_move split: option.splits)

lemma os_replace_Some:
  "node_at s src = Some n \<Longrightarrow>
     \<exists>s'. os_replace src dst s = Some s' \<and>
       (\<forall>x. node_at s' x = (if x = dst then Some n else if x = src then None else node_at s x))"
  by (auto simp: os_replace_def tree.get_move)

lemma node_at_mkdir_one:
  "node_at (mkdir_one p s) x = (if x = p \<and> node_at s p = None then Some Dir else node_at s x)"
  by (auto simp: mkdir_one_def exists_at_def tree.get_put)

lemma node_at_fold_mkdir:
  "node_at (fold mkdir_one ps s) x =
     (if x \<in> set ps \<and> node_at s x = None then Some Dir else node_at s x)"
  by (induction ps arbitrary: s) (auto simp: node_at_mkdir_one)

lemma node_at_mkdirs [fs_simps]:
  "node_at (mkdirs p s) x = (if prefix x p \<and> node_at s x = None then Some Dir else node_at s x)"
  by (simp add: mkdirs_def node_at_fold_mkdir)

lemma node_at_rmtree [fs_simps]:
  "node_at (rmtree p s) x = (if prefix p x then None else node_at s x)"
proof -
  have "map_of (filter (\<lambda>(q, _). \<not> prefix p q) s) x = (if prefix p x then None else map_of s x)"
    by (induction s) auto
  then show ?thesis by (simp add: node_at_def rmtree_def)
qed

lemma load_at_File: "load_at s p = Loaded j \<longleftrightarrow> (\<exists>t. node_at s p = Some (File (Doc j) t))"
  by (auto simp: load_at_def split: option.splits node.splits content.splits)

lemma load_at_Missing: "load_at s p = Missing \<longleftrightarrow> \<not> is_file_at s p"
  by (auto simp: load_at_def is_file_at_def split: option.splits node.splits content.splits)

lemma load_at_cong: "node_at s p = node_at s' p' \<Longrightarrow> load_at s p = load_at s' p'"
  by (simp add: load_at_def)

lemma is_file_exists: "is_file_at s p \<Longrightarrow> exists_at s p"
  by (auto simp: is_file_at_def exists_at_def split: option.splits)

lemma in_children: "n \<in> set (children s d) \<longleftrightarrow> exists_at s (d @ [n])"
proof
  assume "n \<in> set (children s d)"
  then obtain p where "p \<in> fst ` set s" "p \<noteq> []" "butlast p = d" "last p = n"
    by (auto simp: children_def)
  then have "d @ [n] \<in> fst ` set s" by (metis append_butlast_last_id)
  then show "exists_at s (d @ [n])"
    by (simp add: exists_at_def node_at_def map_of_eq_None_iff)
next
  assume "exists_at s (d @ [n])"
  then have "d @ [n] \<in> fst ` set s"
    by (simp add: exists_at_def node_at_def map_of_eq_None_iff)
  then show "n \<in> set (children s d)"
    by (force simp: children_def)
qed

lemma distinct_children: "fs_ok s \<Longrightarrow> distinct (children s d)"
proof -
  assume "fs_ok s"
  then have "distinct (filter (\<lambda>p. p \<noteq> [] \<and> butlast p = d) (map fst s))"
    by (simp add: fs_ok_def)
  moreover have "inj_on last (set (filter (\<lambda>p. p \<noteq> [] \<and> butlast p = d) (map fst s)))"
    by (auto simp: inj_on_def) (metis append_butlast_last_id)
  ultimately show ?thesis by (simp add: children_def distinct_map)
qed

lemma stem_json [simp]: "m \<noteq> [] \<Longrightarrow> stem (m @ dot_json) = m"
  by (simp add: stem_def dot_json_def suffix_def)

lemma stem_append: "suffix dot_json n \<Longrightarrow> 5 < length n \<Longrightarrow> stem n @ dot_json = n"
  by (auto simp: stem_def dot_json_def suffix_def)

lemma append_json_inject [simp]: "m @ dot_json = m' @ dot_json \<longleftrightarrow> m = m'"
  by simp

lemma glob_match_self: "glob_match pre suf (pre @ x @ suf)"
  by (simp add: glob_match_def suffix_def)

end
