(* ===== verification/Mailbox_Protocol.thy ===== *)
theory Mailbox_Protocol
  imports File_System
begin

text \<open>
  \<open>mailbox/protocol.py\<close>: message, attachment and status records with their dictionary forms,
  the identifier patterns, and the schema check every message passes before it is written or
  consumed. Fields of a record read from a dictionary hold whatever the dictionary held, so
  they are documents (\<^typ>\<open>json\<close>), as in the source.

  The texts of error messages are not modelled; each rejection is a constructor.
\<close>

section \<open>Constants\<close>

definition PROTOCOL_VERSION :: int where
  "PROTOCOL_VERSION = 2"

definition VALID_KINDS :: "string list" where
  "VALID_KINDS = [''TASK'', ''REPORT'', ''PROGRESS'', ''EVIDENCE'', ''QUESTION'', ''RESPONSE'',
     ''NOTICE'', ''RECEIPT'']"

definition VALID_STATES :: "string list" where
  "VALID_STATES = [''IDLE'', ''BUSY'', ''DONE'', ''BLOCKED'']"

text \<open>In the order \<open>sorted\<close> gives them.\<close>

definition REQUIRED_FIELDS :: "string list" where
  "REQUIRED_FIELDS = [''body'', ''created_at'', ''from'', ''kind'', ''msg_id'', ''session_id'',
     ''subject'', ''to'']"

definition KIND_CONDITIONAL_REQUIRED :: "string \<Rightarrow> string list" where
  "KIND_CONDITIONAL_REQUIRED kind =
     (if kind = ''TASK'' then [''request_id'', ''run_id'']
      else if kind = ''REPORT'' then [''reply_to'', ''request_id'', ''run_id'']
      else if kind = ''RECEIPT'' then [''receipt_type'', ''reply_to'', ''request_id'', ''run_id'']
      else [])"

definition BROADCAST_TO :: string where
  "BROADCAST_TO = ''*''"

definition DEFAULT_MEDIA_TYPE :: string where
  "DEFAULT_MEDIA_TYPE = ''application/octet-stream''"

definition LEASE_TIMEOUT_S :: instant where
  "LEASE_TIMEOUT_S = 3600"

definition LEASE_CLOCK_TOLERANCE_S :: instant where
  "LEASE_CLOCK_TOLERANCE_S = 30"

definition MAX_MAILBOX_BODY :: nat where
  "MAX_MAILBOX_BODY = 100000"

definition MAX_ATTACHMENT_SIZE :: int where
  "MAX_ATTACHMENT_SIZE = 100000"

section \<open>Identifier patterns\<close>

text \<open>\<open>[a-zA-Z0-9][a-zA-Z0-9_.-]{0,k}\<close>, the whole string.\<close>

fun id_pattern :: "nat \<Rightarrow> string \<Rightarrow> bool" where
  "id_pattern k [] = False"
| "id_pattern k (c # cs) = (is_alnum c \<and> list_all is_id_char cs \<and> length cs \<le> k)"

definition path_safe_pattern :: "string \<Rightarrow> bool" where
  "path_safe_pattern s \<longleftrightarrow> list_all is_id_char s \<and> 1 \<le> length s \<and> length s \<le> 64"

definition sha256_pattern :: "string \<Rightarrow> bool" where
  "sha256_pattern s \<longleftrightarrow> list_all is_hex s \<and> length s = 64"

definition AGENT_ID_RE :: "string \<Rightarrow> bool" where
  "AGENT_ID_RE s = match_dollar (id_pattern 31) s"

definition SHA256_RE :: "string \<Rightarrow> bool" where
  "SHA256_RE s = match_dollar sha256_pattern s"

definition PATH_SAFE_RE :: "string \<Rightarrow> bool" where
  "PATH_SAFE_RE s = match_dollar path_safe_pattern s"

text \<open>\<open>validate_agent_id\<close> and \<open>validate_path_component\<close>: \<^term>\<open>False\<close> is the raised \<open>ValueError\<close>.\<close>

definition validate_agent_id :: "string \<Rightarrow> bool" where
  "validate_agent_id aid = AGENT_ID_RE aid"

definition validate_path_component :: "json \<Rightarrow> bool" where
  "validate_path_component v = (case v of
       JStr s \<Rightarrow> s \<noteq> ''.'' \<and> s \<noteq> ''..'' \<and> PATH_SAFE_RE s
     | _ \<Rightarrow> False)"

section \<open>Records\<close>

datatype py_error = KeyError string | TypeError

record attachment_ref =
  artifact_id :: json
  source_host :: json
  remote_root :: json
  relative_path :: json
  att_size :: json
  sha256 :: json
  media_type :: json

definition attachment_to_dict :: "attachment_ref \<Rightarrow> dict" where
  "attachment_to_dict a =
     [(''artifact_id'', artifact_id a), (''source_host'', source_host a),
      (''remote_root'', remote_root a), (''relative_path'', relative_path a),
      (''size'', att_size a), (''sha256'', sha256 a), (''media_type'', media_type a)]"

text \<open>\<open>d[k]\<close> for each key in turn: the first missing one raises.\<close>

fun require_keys :: "dict \<Rightarrow> string list \<Rightarrow> py_error option" where
  "require_keys d [] = None"
| "require_keys d (k # ks) = (if has_key d k then require_keys d ks else Some (KeyError k))"

definition attachment_from_dict :: "dict \<Rightarrow> py_error + attachment_ref" where
  "attachment_from_dict d =
     (case require_keys d [''artifact_id'', ''source_host'', ''remote_root'', ''relative_path'',
             ''size'', ''sha256''] of
        Some e \<Rightarrow> Inl e
      | None \<Rightarrow> Inr \<lparr>artifact_id = dget_or d ''artifact_id'' JNull,
            source_host = dget_or d ''source_host'' JNull,
            remote_root = dget_or d ''remote_root'' JNull,
            relative_path = dget_or d ''relative_path'' JNull,
            att_size = dget_or d ''size'' JNull,
            sha256 = dget_or d ''sha256'' JNull,
            media_type = dget_or d ''media_type'' (JStr DEFAULT_MEDIA_TYPE)\<rparr>)"

record message =
  session_id :: json
  from_id :: json
  to_id :: json
  subject :: json
  body :: json
  kind :: json
  msg_id :: json
  created_at :: json
  reply_to :: json
  run_id :: json
  request_id :: json
  command_id :: json
  trace_id :: json
  causation_id :: json
  attachments :: "attachment_ref list"
  protocol_version :: json
  require_ack :: json
  receipt_type :: json

text \<open>\<open>if v: d[k] = v\<close>\<close>

definition set_if_truthy :: "string \<Rightarrow> json \<Rightarrow> dict \<Rightarrow> dict" where
  "set_if_truthy k v d = (if truthy v then dset d k v else d)"

definition message_to_dict :: "message \<Rightarrow> dict" where
  "message_to_dict m =
     (let d = [(''session_id'', session_id m), (''from'', from_id m), (''to'', to_id m),
               (''subject'', subject m), (''body'', body m), (''kind'', kind m),
               (''msg_id'', msg_id m), (''created_at'', created_at m),
               (''protocol_version'', protocol_version m), (''require_ack'', require_ack m)];
          d = set_if_truthy ''receipt_type'' (receipt_type m) d;
          d = set_if_truthy ''reply_to'' (reply_to m) d;
          d = set_if_truthy ''run_id'' (run_id m) d;
          d = set_if_truthy ''request_id'' (request_id m) d;
          d = set_if_truthy ''command_id'' (command_id m) d;
          d = set_if_truthy ''trace_id'' (trace_id m) d;
          d = set_if_truthy ''causation_id'' (causation_id m) d
      in set_if_truthy ''attachments''
           (JArr (map (\<lambda>a. JObj (attachment_to_dict a)) (attachments m))) d)"

text \<open>
  The comprehension over \<open>d.get("attachments", [])\<close>: elements that are not objects are dropped,
  and iterating a value that is no container raises.
\<close>

fun attachments_of :: "json list \<Rightarrow> py_error + attachment_ref list" where
  "attachments_of [] = Inr []"
| "attachments_of (JObj d # xs) =
     (case attachment_from_dict d of
        Inl e \<Rightarrow> Inl e
      | Inr a \<Rightarrow> (case attachments_of xs of Inl e \<Rightarrow> Inl e | Inr as \<Rightarrow> Inr (a # as)))"
| "attachments_of (_ # xs) = attachments_of xs"

fun attachments_field :: "json \<Rightarrow> py_error + attachment_ref list" where
  "attachments_field (JArr xs) = attachments_of xs"
| "attachments_field (JStr _) = Inr []"
| "attachments_field (JObj _) = Inr []"
| "attachments_field _ = Inl TypeError"

definition message_from_dict :: "dict \<Rightarrow> py_error + message" where
  "message_from_dict d =
     (case require_keys d [''session_id'', ''from'', ''to'', ''subject'', ''body'', ''kind'',
             ''msg_id'', ''created_at''] of
        Some e \<Rightarrow> Inl e
      | None \<Rightarrow> (case attachments_field (dget_or d ''attachments'' (JArr [])) of
            Inl e \<Rightarrow> Inl e
          | Inr atts \<Rightarrow> Inr \<lparr>session_id = dget_or d ''session_id'' JNull,
              from_id = dget_or d ''from'' JNull,
              to_id = dget_or d ''to'' JNull,
              subject = dget_or d ''subject'' JNull,
              body = dget_or d ''body'' JNull,
              kind = dget_or d ''kind'' JNull,
              msg_id = dget_or d ''msg_id'' JNull,
              created_at = dget_or d ''created_at'' JNull,
              reply_to = dget_or d ''reply_to'' (JStr []),
              run_id = dget_or d ''run_id'' (JStr []),
              request_id = dget_or d ''request_id'' (JStr []),
              command_id = dget_or d ''command_id'' (JStr []),
              trace_id = dget_or d ''trace_id'' (JStr []),
              causation_id = dget_or d ''causation_id'' (JStr []),
              attachments = atts,
              protocol_version = dget_or d ''protocol_version'' (JInt 1),
              require_ack = JBool (truthy (dget_or d ''require_ack'' (JBool False))),
              receipt_type = dget_or d ''receipt_type'' (JStr [])\<rparr>))"

record status_snapshot =
  st_session_id :: json
  st_state :: json
  st_current_task :: json
  st_last_conclusion :: json
  st_updated_at :: json

definition status_to_dict :: "status_snapshot \<Rightarrow> dict" where
  "status_to_dict s =
     [(''session_id'', st_session_id s), (''state'', st_state s),
      (''current_task'', st_current_task s), (''last_conclusion'', st_last_conclusion s),
      (''updated_at'', st_updated_at s)]"

definition status_from_dict :: "dict \<Rightarrow> status_snapshot" where
  "status_from_dict d =
     \<lparr>st_session_id = dget_or d ''session_id'' (JStr []),
      st_state = dget_or d ''state'' (JStr []),
      st_current_task = dget_or d ''current_task'' (JStr []),
      st_last_conclusion = dget_or d ''last_conclusion'' (JStr []),
      st_updated_at = dget_or d ''updated_at'' (JStr [])\<rparr>"

section \<open>Schema validation\<close>

datatype att_reason =
    AttNotObject | AttFieldEmpty string | AttBadSize | AttBadSha | AttUnsafePath | AttBadMediaType

text \<open>\<open>not isinstance(v, str) or not v.strip()\<close>\<close>

definition blank :: "json \<Rightarrow> bool" where
  "blank v \<longleftrightarrow> (case v of JStr s \<Rightarrow> strip s = [] | _ \<Rightarrow> True)"

text \<open>The reason of the first check that fires, in the order of the source.\<close>

definition first_failure :: "(bool \<times> 'r) list \<Rightarrow> 'r option" where
  "first_failure cs = map_option snd (find fst cs)"

definition attachment_error :: "json \<Rightarrow> att_reason option" where
  "attachment_error att = (case att of
       JObj d \<Rightarrow>
         (let sha = dget_or d ''sha256'' JNull; rp = sget d ''relative_path'' in
          first_failure
           (map (\<lambda>k. (blank (dget_or d k JNull), AttFieldEmpty k))
              [''artifact_id'', ''source_host'', ''remote_root'', ''relative_path''] @
            [(case int_not_bool (dget_or d ''size'' JNull) of None \<Rightarrow> True | Some n \<Rightarrow> n < 0,
              AttBadSize),
             (\<not> is_str sha \<or> \<not> SHA256_RE (the_str sha), AttBadSha),
             (prefix ''/'' rp \<or> CHR 0x5C \<in> set rp \<or> contains ''..'' rp, AttUnsafePath),
             (blank (dget_or d ''media_type'' (JStr DEFAULT_MEDIA_TYPE)), AttBadMediaType)]))
     | _ \<Rightarrow> Some AttNotObject)"

datatype reason =
    NotObject
  | MissingFields "string list"
  | InvalidKind json
  | FieldNotString string
  | BadProtocolVersion
  | RequireAckNotBool
  | ReceiptTypeNotString
  | InvalidReceiptType string
  | SubjectEmpty
  | BodyEmpty
  | KindRequiresFields string "string list"
  | KindRequiresNonEmpty string string
  | ReceiptRequiresAck
  | ReceiptNotRead
  | ReceiptNoReplyTo
  | SessionMismatch string string
  | RecipientMismatch string string
  | MsgIdMismatch string string
  | MsgIdSeparator string
  | PathFieldNotString string
  | UnsafePathField string
  | AttachmentsNotList
  | InvalidAttachment att_reason

text \<open>
  \<open>validate_message\<close> returns \<open>(True, "")\<close> or \<open>(False, reason)\<close>; it raises \<open>TypeError\<close> when the
  value of \<open>kind\<close> cannot be hashed, because it is looked up in a frozen set first.
\<close>

datatype verdict = Valid | Invalid reason | RaisesTypeError

definition kind_checks :: "dict \<Rightarrow> (bool \<times> reason) list" where
  "kind_checks d =
     (let k = sget d ''kind''; extras = KIND_CONDITIONAL_REQUIRED k;
          missing = filter (\<lambda>f. \<not> has_key d f) extras in
      (missing \<noteq> [], KindRequiresFields k missing) #
      map (\<lambda>f. (blank (dget_or d f (JStr [])), KindRequiresNonEmpty k f)) extras @
      (if k = ''RECEIPT'' then
         [(truthy (dget_or d ''require_ack'' (JBool False)), ReceiptRequiresAck),
          (dget_or d ''receipt_type'' (JStr []) \<noteq> JStr ''READ'', ReceiptNotRead),
          (strip (sget d ''reply_to'') = [], ReceiptNoReplyTo)]
       else []))"

definition expectation_checks ::
  "dict \<Rightarrow> string option \<Rightarrow> string option \<Rightarrow> string option \<Rightarrow> (bool \<times> reason) list" where
  "expectation_checks d esid eagent fname =
     (let sid = sget d ''session_id''; to = sget d ''to''; mid = sget d ''msg_id'' in
      [(case esid of None \<Rightarrow> False | Some e \<Rightarrow> sid \<noteq> e, SessionMismatch sid (the esid)),
       (case eagent of None \<Rightarrow> False | Some e \<Rightarrow> to \<noteq> e \<and> to \<noteq> BROADCAST_TO,
        RecipientMismatch to (the eagent)),
       (case fname of None \<Rightarrow> False | Some f \<Rightarrow> mid @ dot_json \<noteq> f, MsgIdMismatch mid (the fname)),
       (CHR ''/'' \<in> set mid \<or> CHR 0x5C \<in> set mid, MsgIdSeparator mid)])"

definition path_field_checks :: "dict \<Rightarrow> (bool \<times> reason) list" where
  "path_field_checks d = concat (map (\<lambda>f.
      (let v = dget_or d f (JStr []) in
       [(truthy v \<and> \<not> is_str v, PathFieldNotString f),
        (truthy v \<and> (the_str v = ''.'' \<or> the_str v = ''..'' \<or> \<not> PATH_SAFE_RE (the_str v)),
         UnsafePathField f)])) [''request_id'', ''run_id'', ''reply_to''])"

definition attachment_checks :: "dict \<Rightarrow> (bool \<times> reason) list" where
  "attachment_checks d = (case dget d ''attachments'' of
       None \<Rightarrow> []
     | Some (JArr atts) \<Rightarrow>
         map (\<lambda>a. (attachment_error a \<noteq> None, InvalidAttachment (the (attachment_error a)))) atts
     | Some _ \<Rightarrow> [(True, AttachmentsNotList)])"

definition string_fields :: "string list" where
  "string_fields =
     [''subject'', ''body'', ''session_id'', ''from'', ''to'', ''msg_id'', ''created_at'']"

definition message_checks ::
  "dict \<Rightarrow> string option \<Rightarrow> string option \<Rightarrow> string option \<Rightarrow> (bool \<times> reason) list" where
  "message_checks d esid eagent fname =
     (let k = dget_or d ''kind'' JNull; rt = dget_or d ''receipt_type'' (JStr []) in
      (\<not> is_str k \<or> the_str k \<notin> set VALID_KINDS, InvalidKind k) #
      map (\<lambda>f. (\<not> is_str (dget_or d f JNull), FieldNotString f)) string_fields @
      [(case int_not_bool (dget_or d ''protocol_version'' (JInt 1)) of
          None \<Rightarrow> True | Some v \<Rightarrow> v < 1, BadProtocolVersion),
       (case dget_or d ''require_ack'' (JBool False) of JBool _ \<Rightarrow> False | _ \<Rightarrow> True,
        RequireAckNotBool),
       (\<not> is_str rt, ReceiptTypeNotString),
       (truthy rt \<and> the_str rt \<noteq> ''READ'', InvalidReceiptType (the_str rt)),
       (strip (sget d ''subject'') = [], SubjectEmpty),
       (strip (sget d ''body'') = [], BodyEmpty)] @
      kind_checks d @ expectation_checks d esid eagent fname @ path_field_checks d @
      attachment_checks d)"

definition validate_message ::
  "json \<Rightarrow> string option \<Rightarrow> string option \<Rightarrow> string option \<Rightarrow> verdict" where
  "validate_message msg esid eagent fname = (case msg of
       JObj d \<Rightarrow>
         (let missing = filter (\<lambda>f. \<not> has_key d f) REQUIRED_FIELDS in
          if missing \<noteq> [] then Invalid (MissingFields missing)
          else if \<not> hashable (dget_or d ''kind'' JNull) then RaisesTypeError
          else (case first_failure (message_checks d esid eagent fname) of
              None \<Rightarrow> Valid
            | Some r \<Rightarrow> Invalid r))
     | _ \<Rightarrow> Invalid NotObject)"

section \<open>What a valid message satisfies\<close>

lemma first_failure_None: "first_failure cs = None \<longleftrightarrow> (\<forall>c \<in> set cs. \<not> fst c)"
  by (simp add: first_failure_def find_None_all)

lemma validate_message_ValidE:
  assumes "validate_message msg esid eagent fname = Valid"
  obtains d where "msg = JObj d" "\<forall>f \<in> set REQUIRED_FIELDS. has_key d f"
    "\<forall>c \<in> set (message_checks d esid eagent fname). \<not> fst c"
  using assms
  by (auto simp: validate_message_def Let_def first_failure_None filter_empty_conv
      split: json.splits if_splits option.splits)

lemma valid_message_check:
  assumes "validate_message (JObj d) esid eagent fname = Valid"
    and "c \<in> set (message_checks d esid eagent fname)"
  shows "\<not> fst c"
  using assms by (auto elim!: validate_message_ValidE)

lemma message_checks_members:
  "set (kind_checks d) \<subseteq> set (message_checks d esid eagent fname)"
  "set (expectation_checks d esid eagent fname) \<subseteq> set (message_checks d esid eagent fname)"
  "set (path_field_checks d) \<subseteq> set (message_checks d esid eagent fname)"
  "set (attachment_checks d) \<subseteq> set (message_checks d esid eagent fname)"
  by (auto simp: message_checks_def Let_def)

lemma is_str_conv: "is_str v \<longleftrightarrow> v = JStr (the_str v)"
  by (cases v) auto

text \<open>The fields every valid message has are strings.\<close>

lemma message_checks_str:
  "f \<in> set string_fields \<Longrightarrow>
   (\<not> is_str (dget_or d f JNull), FieldNotString f) \<in> set (message_checks d esid eagent fname)"
  by (simp add: message_checks_def Let_def)

lemma required_fields_cases:
  assumes "f \<in> set REQUIRED_FIELDS"
  shows "f = ''kind'' \<or> f \<in> set string_fields"
proof -
  have "list_all (\<lambda>f. f = ''kind'' \<or> f \<in> set string_fields) REQUIRED_FIELDS" by code_simp
  with assms show ?thesis by (simp add: list_all_iff)
qed

lemma valid_message_str:
  assumes "validate_message (JObj d) esid eagent fname = Valid"
    and "f \<in> set REQUIRED_FIELDS"
  shows "map_of d f = Some (JStr (sget d f))"
proof -
  have "has_key d f"
    using assms by (auto elim!: validate_message_ValidE)
  then obtain v where v: "map_of d f = Some v" by (auto simp: has_key_def)
  have "is_str (dget_or d f JNull)"
    using required_fields_cases [OF assms(2)]
  proof
    assume "f = ''kind''"
    then show ?thesis
      using valid_message_check [OF assms(1), of "(\<not> is_str (dget_or d ''kind'' JNull) \<or>
        the_str (dget_or d ''kind'' JNull) \<notin> set VALID_KINDS, InvalidKind (dget_or d ''kind'' JNull))"]
      by (simp add: message_checks_def Let_def)
  next
    assume "f \<in> set string_fields"
    from valid_message_check [OF assms(1) message_checks_str [OF this]] show ?thesis by simp
  qed
  with v show ?thesis by (simp add: dget_or_def sget_def is_str_conv [symmetric])
qed

lemma valid_message_required:
  assumes "validate_message (JObj d) esid eagent fname = Valid"
  shows "require_keys d [''session_id'', ''from'', ''to'', ''subject'', ''body'', ''kind'',
             ''msg_id'', ''created_at''] = None"
  using assms by (auto elim!: validate_message_ValidE simp: REQUIRED_FIELDS_def)

lemma PATH_SAFE_RE_noslash: "PATH_SAFE_RE s \<Longrightarrow> CHR ''/'' \<notin> set s \<and> s \<noteq> [] \<and> length s \<le> 65"
proof -
  have clean: "path_safe_pattern x \<Longrightarrow> CHR ''/'' \<notin> set x \<and> x \<noteq> [] \<and> length x \<le> 64" for x
    by (auto simp: path_safe_pattern_def list_all_iff)
  assume "PATH_SAFE_RE s"
  then consider "path_safe_pattern s"
    | t where "s = t @ [newline]" "path_safe_pattern t"
    by (auto simp: PATH_SAFE_RE_def match_dollar_def) (metis append_butlast_last_id)
  then show ?thesis
    by cases (use clean in \<open>force simp: newline_def\<close>)+
qed

lemma AGENT_ID_RE_clean:
  assumes "AGENT_ID_RE s"
  shows "CHR ''/'' \<notin> set s \<and> s \<noteq> [] \<and> s \<noteq> ''.'' \<and> s \<noteq> ''..'' \<and> length s \<le> 33"
proof -
  have clean: "id_pattern 31 x \<Longrightarrow>
      CHR ''/'' \<notin> set x \<and> x \<noteq> [] \<and> hd x \<noteq> CHR ''.'' \<and> length x \<le> 32" for x
    by (cases x) (auto simp: list_all_iff is_alnum_not_dot dest: is_alnum_id_char)
  consider "id_pattern 31 s" | t where "s = t @ [newline]" "id_pattern 31 t"
    using assms by (auto simp: AGENT_ID_RE_def match_dollar_def) (metis append_butlast_last_id)
  then show ?thesis
  proof cases
    case 1
    then show ?thesis using clean [of s] by auto
  next
    case 2
    then show ?thesis using clean [of t] by (cases t) (auto simp: newline_def)
  qed
qed

text \<open>
  The three fields of a valid message that become directory names
  (\<open>request_id\<close>, \<open>run_id\<close>, \<open>reply_to\<close>) are, when they are present and not falsy, strings that
  pass \<open>validate_path_component\<close> and contain no path separator, so joining one of them to a
  directory names an entry of that directory.
\<close>

theorem valid_message_path_fields_safe:
  assumes "validate_message (JObj d) esid eagent fname = Valid"
    and "f \<in> {''request_id'', ''run_id'', ''reply_to''}"
    and "truthy (dget_or d f (JStr []))"
  shows "validate_path_component (dget_or d f (JStr [])) \<and> CHR ''/'' \<notin> set (sget d f) \<and>
    sget d f \<noteq> [] \<and> sget d f \<noteq> ''.'' \<and> sget d f \<noteq> ''..'' \<and> length (sget d f) \<le> 65"
proof -
  let ?v = "dget_or d f (JStr [])"
  have "(truthy ?v \<and> \<not> is_str ?v, PathFieldNotString f) \<in> set (path_field_checks d)"
    and "(truthy ?v \<and> (the_str ?v = ''.'' \<or> the_str ?v = ''..'' \<or> \<not> PATH_SAFE_RE (the_str ?v)),
         UnsafePathField f) \<in> set (path_field_checks d)"
    using assms(2) by (auto simp: path_field_checks_def Let_def)
  then have ok: "is_str ?v" "the_str ?v \<noteq> ''.''" "the_str ?v \<noteq> ''..''" "PATH_SAFE_RE (the_str ?v)"
    using valid_message_check [OF assms(1)] message_checks_members(3) assms(3) by fastforce+
  then show ?thesis
    using PATH_SAFE_RE_noslash [OF ok(4)]
    by (cases ?v) (auto simp: validate_path_component_def sget_def)
qed

text \<open>
  No receipt loops: a valid message of kind \<open>RECEIPT\<close> does not ask for an acknowledgement,
  is a \<open>READ\<close> receipt, and names the message it acknowledges by a non-blank \<open>reply_to\<close>.
\<close>

theorem valid_receipt_no_loop:
  assumes "validate_message (JObj d) esid eagent fname = Valid"
    and "dget d ''kind'' = Some (JStr ''RECEIPT'')"
  shows "dget_or d ''require_ack'' (JBool False) = JBool False \<and>
    dget d ''receipt_type'' = Some (JStr ''READ'') \<and> strip (sget d ''reply_to'') \<noteq> []"
proof -
  have k: "sget d ''kind'' = ''RECEIPT''"
    using assms(2) by (simp add: sget_def dget_or_def dget_def)
  have m: "\<not> fst c" if "c \<in> set (kind_checks d)" for c
    using that valid_message_check [OF assms(1)] message_checks_members(1) by blast
  have "\<not> fst (truthy (dget_or d ''require_ack'' (JBool False)), ReceiptRequiresAck)"
    and rt: "\<not> fst (dget_or d ''receipt_type'' (JStr []) \<noteq> JStr ''READ'', ReceiptNotRead)"
    and rp: "\<not> fst (strip (sget d ''reply_to'') = [], ReceiptNoReplyTo)"
    by (rule m, simp add: kind_checks_def k Let_def)+
  moreover have "\<not> fst (case dget_or d ''require_ack'' (JBool False) of JBool _ \<Rightarrow> False | _ \<Rightarrow> True,
        RequireAckNotBool)"
    by (rule valid_message_check [OF assms(1)]) (simp add: message_checks_def Let_def)
  ultimately show ?thesis
    by (auto simp: dget_or_def dget_def split: option.splits json.splits)
qed

text \<open>A receipt that the checks accept.\<close>

definition example_receipt :: dict where
  "example_receipt =
     [(''session_id'', JStr ''s1''), (''from'', JStr ''w1''), (''to'', JStr ''boss''),
      (''subject'', JStr ''read''), (''body'', JStr ''ok''), (''kind'', JStr ''RECEIPT''),
      (''msg_id'', JStr ''m2''), (''created_at'', JStr ''2026-01-01T00:00:00Z''),
      (''reply_to'', JStr ''m1''), (''run_id'', JStr ''r1''), (''request_id'', JStr ''q1''),
      (''receipt_type'', JStr ''READ'')]"

lemma example_receipt_valid:
  "validate_message (JObj example_receipt) (Some ''s1'') (Some ''boss'') (Some ''m2.json'') = Valid"
  by code_simp

theorem valid_message_path_fields_safe_witness:
  "validate_message (JObj example_receipt) (Some ''s1'') (Some ''boss'') (Some ''m2.json'') = Valid \<and>
   CHR ''/'' \<notin> set (sget example_receipt ''reply_to'')"
proof -
  have "truthy (dget_or example_receipt ''reply_to'' (JStr []))" by code_simp
  from valid_message_path_fields_safe [OF example_receipt_valid _ this] show ?thesis
    using example_receipt_valid by simp
qed

theorem valid_receipt_no_loop_witness:
  "dget example_receipt ''kind'' = Some (JStr ''RECEIPT'') \<and>
   strip (sget example_receipt ''reply_to'') \<noteq> []"
proof -
  have "dget example_receipt ''kind'' = Some (JStr ''RECEIPT'')" by code_simp
  from valid_receipt_no_loop [OF example_receipt_valid this] this show ?thesis by simp
qed

section \<open>Round trip of messages\<close>

text \<open>
  What the constructor of \<open>Message\<close> guarantees for values of its declared types: an optional
  field is either truthy or the empty string, and \<open>require_ack\<close> is a Boolean.
\<close>

definition optional_fields :: "message \<Rightarrow> json list" where
  "optional_fields m = [reply_to m, run_id m, request_id m, command_id m, trace_id m,
     causation_id m, receipt_type m]"

definition message_typed :: "message \<Rightarrow> bool" where
  "message_typed m \<longleftrightarrow> (\<forall>v \<in> set (optional_fields m). truthy v \<or> v = JStr []) \<and>
     (case require_ack m of JBool _ \<Rightarrow> True | _ \<Rightarrow> False)"

lemma dget_or_set_if_truthy:
  "dget_or (set_if_truthy k v d) x w =
     (if x = k \<and> truthy v then v else dget_or d x w)"
  by (simp add: set_if_truthy_def)

lemma dget_set_if_truthy:
  "dget (set_if_truthy k v d) x = (if x = k \<and> truthy v then Some v else dget d x)"
  by (simp add: set_if_truthy_def)

lemma dget_base: "dget ((a, v) # d) x = (if x = a then Some v else dget d x)"
  by (simp add: dget_def)

lemma attachment_round_trip: "attachment_from_dict (attachment_to_dict a) = Inr a"
  by (simp add: attachment_from_dict_def attachment_to_dict_def has_key_def dget_or_def)

lemma attachments_round_trip:
  "attachments_of (map (\<lambda>a. JObj (attachment_to_dict a)) as) = Inr as"
  by (induction as) (simp_all add: attachment_round_trip)

lemma dget_or_base: "dget_or ((a, v) # d) x w = (if x = a then v else dget_or d x w)"
  by (simp add: dget_or_def)

lemma dget_or_Nil: "dget_or [] x w = w"
  by (simp add: dget_or_def)

text \<open>What the dictionary of a message holds under each key.\<close>

lemma message_to_dict_required:
  "dget (message_to_dict m) ''session_id'' = Some (session_id m)"
  "dget (message_to_dict m) ''from'' = Some (from_id m)"
  "dget (message_to_dict m) ''to'' = Some (to_id m)"
  "dget (message_to_dict m) ''subject'' = Some (subject m)"
  "dget (message_to_dict m) ''body'' = Some (body m)"
  "dget (message_to_dict m) ''kind'' = Some (kind m)"
  "dget (message_to_dict m) ''msg_id'' = Some (msg_id m)"
  "dget (message_to_dict m) ''created_at'' = Some (created_at m)"
  "dget (message_to_dict m) ''protocol_version'' = Some (protocol_version m)"
  "dget (message_to_dict m) ''require_ack'' = Some (require_ack m)"
  by (simp_all add: message_to_dict_def Let_def dget_set_if_truthy dget_base)

lemma message_to_dict_optional:
  assumes "message_typed m"
  shows "dget_or (message_to_dict m) ''reply_to'' (JStr []) = reply_to m"
    "dget_or (message_to_dict m) ''run_id'' (JStr []) = run_id m"
    "dget_or (message_to_dict m) ''request_id'' (JStr []) = request_id m"
    "dget_or (message_to_dict m) ''command_id'' (JStr []) = command_id m"
    "dget_or (message_to_dict m) ''trace_id'' (JStr []) = trace_id m"
    "dget_or (message_to_dict m) ''causation_id'' (JStr []) = causation_id m"
    "dget_or (message_to_dict m) ''receipt_type'' (JStr []) = receipt_type m"
proof -
  have opt: "\<And>v. v \<in> set (optional_fields m) \<Longrightarrow> \<not> truthy v \<Longrightarrow> v = JStr []"
    using assms by (auto simp: message_typed_def)
  show "dget_or (message_to_dict m) ''reply_to'' (JStr []) = reply_to m"
    "dget_or (message_to_dict m) ''run_id'' (JStr []) = run_id m"
    "dget_or (message_to_dict m) ''request_id'' (JStr []) = request_id m"
    "dget_or (message_to_dict m) ''command_id'' (JStr []) = command_id m"
    "dget_or (message_to_dict m) ''trace_id'' (JStr []) = trace_id m"
    "dget_or (message_to_dict m) ''causation_id'' (JStr []) = causation_id m"
    "dget_or (message_to_dict m) ''receipt_type'' (JStr []) = receipt_type m"
    by (simp_all add: message_to_dict_def Let_def dget_or_set_if_truthy dget_or_base dget_or_Nil
        opt [symmetric] optional_fields_def)
qed

lemma message_to_dict_attachments:
  "dget_or (message_to_dict m) ''attachments'' (JArr []) =
     JArr (map (\<lambda>a. JObj (attachment_to_dict a)) (attachments m))"
  by (simp add: message_to_dict_def Let_def dget_or_set_if_truthy dget_or_base dget_or_Nil)

lemma has_key_dget: "has_key d k \<longleftrightarrow> dget d k \<noteq> None"
  by (simp add: has_key_def dget_def)

lemma dget_or_dget: "dget d k = Some v \<Longrightarrow> dget_or d k w = v"
  by (simp add: dget_def dget_or_def)

lemma message_from_to_dict:
  assumes "message_typed m"
  shows "message_from_dict (message_to_dict m) = Inr m"
proof -
  let ?d = "message_to_dict m"
  have ack: "JBool (truthy (require_ack m)) = require_ack m"
    using assms by (auto simp: message_typed_def split: json.splits)
  have keys: "require_keys ?d [''session_id'', ''from'', ''to'', ''subject'', ''body'', ''kind'',
             ''msg_id'', ''created_at''] = None"
    by (simp add: has_key_dget message_to_dict_required)
  show ?thesis
    unfolding message_from_dict_def keys message_to_dict_attachments
    by (simp add: attachments_round_trip message_to_dict_required [THEN dget_or_dget]
        message_to_dict_optional [OF assms] ack)
qed

text \<open>
  A message written to disk with \<open>to_dict\<close> and read back with \<open>from_dict\<close> is the message that
  was written, attachments included.
\<close>

theorem message_round_trip:
  assumes "message_typed m"
  shows "message_from_dict (message_to_dict m) = Inr m"
  using assms by (rule message_from_to_dict)

definition example_message :: message where
  "example_message =
     \<lparr>session_id = JStr ''s1'', from_id = JStr ''boss'', to_id = JStr ''w1'',
      subject = JStr ''build'', body = JStr ''make it'', kind = JStr ''TASK'',
      msg_id = JStr ''m1'', created_at = JStr ''2026-01-01T00:00:00Z'', reply_to = JStr [],
      run_id = JStr ''r1'', request_id = JStr ''q1'', command_id = JStr [], trace_id = JStr [],
      causation_id = JStr [],
      attachments = [\<lparr>artifact_id = JStr ''a'', source_host = JStr ''h'', remote_root = JStr ''/r'',
        relative_path = JStr ''p'', att_size = JInt 3, sha256 = JStr ''0'',
        media_type = JStr DEFAULT_MEDIA_TYPE\<rparr>],
      protocol_version = JInt 2, require_ack = JBool True, receipt_type = JStr []\<rparr>"

theorem message_round_trip_witness:
  "message_typed example_message \<and>
   message_from_dict (message_to_dict example_message) = Inr example_message"
proof -
  have "message_typed example_message" by code_simp
  from message_round_trip [OF this] this show ?thesis by simp
qed

section \<open>Two ways the check departs from its comment\<close>

text \<open>
  The identifier patterns are matched with a dollar, so a line feed at the end of an identifier
  that matches is accepted as part of a directory name.
\<close>

lemma agent_id_trailing_newline: "id_pattern 31 s \<Longrightarrow> validate_agent_id (s @ [newline])"
  by (simp add: validate_agent_id_def AGENT_ID_RE_def match_dollar_def)

text \<open>A message whose kind is a list or an object makes the check raise instead of rejecting it.\<close>

lemma unhashable_kind_raises:
  assumes "\<forall>f \<in> set REQUIRED_FIELDS. has_key d f"
    and "\<not> hashable (dget_or d ''kind'' JNull)"
  shows "validate_message (JObj d) esid eagent fname = RaisesTypeError"
  using assms by (simp add: validate_message_def Let_def filter_empty_conv)

end
