(* ===== verification/Store_Session.thy ===== *)
theory Store_Session
  imports Mailbox_Protocol
begin

text \<open>
  \<open>mailbox/store.py\<close>, first part: the layout of the mailbox directory, message listings, session
  creation and merging, the stream cursor and the status file.

  Conventions of all store theories. An operation takes the clock reading \<open>now\<close> (taken once per
  call unless it loops) and the tree, and returns a value or an error with the new tree. A raised
  exception is a value of \<open>store_error\<close>. The empty lock files the operations leave behind
  (\<open>.session.lock\<close>, \<open>.claimlock-*\<close>) are not part of the tree: no operation reads them and no
  scan matches them. Permission changes and directory syncs have no effect on the tree.
\<close>

section \<open>Errors\<close>

datatype store_error =
    BadAgentId string
  | BadMsgId string
  | BadPathComponent json
  | BadKind string
  | BadState string
  | BadLimit
  | BadDays
  | ManagerConflict string
  | SessionNotFound
  | SessionMetaMissing
  | SenderNotInRoster string
  | RecipientNotInRoster string
  | AgentNotInSession string
  | BadAttachment att_reason
  | AttachmentTooLarge
  | BodyTooLarge
  | ConflictingPayload
  | SendInvalid reason
  | HistoryInvalid reason
  | HistoryExists
  | NoClaim
  | MultipleClaims
  | NotInProcessing
  | NotInInboxOrProcessing
  | OwnerMismatch
  | ForeignClaim
  | StatusCorrupt
  | ParkLeaseActive
  | JsonError
  | PyTypeError
  | PyOSError

section \<open>Paths\<close>

definition session_dir :: "string \<Rightarrow> path" where
  "session_dir sid = [sid]"

definition agent_dir :: "string \<Rightarrow> string \<Rightarrow> path" where
  "agent_dir sid aid = [sid, aid]"

definition agent_subdir :: "string \<Rightarrow> string \<Rightarrow> string \<Rightarrow> path" where
  "agent_subdir sid aid sub = [sid, aid, sub]"

text \<open>The validation the path builders perform: the agent id first, then the session id.\<close>

definition check_session :: "string \<Rightarrow> store_error option" where
  "check_session sid = (if validate_agent_id sid then None else Some (BadAgentId sid))"

definition check_agent :: "string \<Rightarrow> string \<Rightarrow> store_error option" where
  "check_agent sid aid =
     (if \<not> validate_agent_id aid then Some (BadAgentId aid) else check_session sid)"

definition session_file :: "string \<Rightarrow> path" where
  "session_file sid = session_dir sid @ [''session.json'']"

definition inbox_dir :: "string \<Rightarrow> string \<Rightarrow> path" where
  "inbox_dir sid aid = agent_subdir sid aid ''inbox''"

definition processing_dir :: "string \<Rightarrow> string \<Rightarrow> path" where
  "processing_dir sid aid = agent_subdir sid aid ''processing''"

definition archive_dir :: "string \<Rightarrow> string \<Rightarrow> path" where
  "archive_dir sid aid = agent_subdir sid aid ''archive''"

definition corrupt_dir :: "string \<Rightarrow> string \<Rightarrow> path" where
  "corrupt_dir sid aid = agent_subdir sid aid ''_corrupt''"

definition history_dir :: "string \<Rightarrow> path" where
  "history_dir sid = session_dir sid @ [''history'']"

definition json_name :: "string \<Rightarrow> string" where
  "json_name m = m @ dot_json"

definition tmp_name :: "string \<Rightarrow> string" where
  "tmp_name m = ''.tmp-'' @ m @ dot_json"

lemmas dir_defs = session_dir_def agent_dir_def agent_subdir_def session_file_def inbox_dir_def
  processing_dir_def archive_dir_def corrupt_dir_def history_dir_def

definition ensure_agent_dirs :: "string \<Rightarrow> string \<Rightarrow> fs \<Rightarrow> fs" where
  "ensure_agent_dirs sid aid s =
     fold (\<lambda>sub. mkdirs (agent_subdir sid aid sub))
       [''inbox'', ''processing'', ''archive'', ''_corrupt''] (mkdirs (agent_dir sid aid) s)"

text \<open>
  Every document is written to a temporary name in the directory of its destination and renamed
  over it, which removes the temporary name.
\<close>

definition atomic_write :: "instant \<Rightarrow> path \<Rightarrow> path \<Rightarrow> json \<Rightarrow> fs \<Rightarrow> fs" where
  "atomic_write t tmp dest j s = write_doc t dest j (unlink tmp s)"

section \<open>Message listings\<close>

definition is_message_name :: "string \<Rightarrow> bool" where
  "is_message_name n \<longleftrightarrow> glob_match [] dot_json n \<and> \<not> prefix ''.sync-conflict-'' n \<and>
     \<not> prefix ''.tmp-'' n"

text \<open>The names of the message files of a directory, oldest modification first.\<close>

definition list_messages :: "path \<Rightarrow> fs \<Rightarrow> string list" where
  "list_messages inbox s =
     (if \<not> exists_at s inbox then []
      else sort_key (\<lambda>n. mtime_at s (inbox @ [n]))
        (filter (\<lambda>n. is_message_name n \<and> is_file_at s (inbox @ [n])) (children s inbox)))"

section \<open>Session metadata\<close>

text \<open>
  Iterating a decoded document that should be a list of strings. \<^term>\<open>None\<close> covers what cannot be
  iterated and lists with other elements: no session file the store writes contains them, and
  using such a list as a roster raises \<open>TypeError\<close>.
\<close>

definition str_elems :: "json \<Rightarrow> string list option" where
  "str_elems v = (case v of
       JArr xs \<Rightarrow> if list_all is_str xs then Some (map the_str xs) else None
     | JStr s \<Rightarrow> Some (map (\<lambda>c. [c]) s)
     | JObj d \<Rightarrow> Some (map fst d)
     | _ \<Rightarrow> None)"

definition meta_agents :: "dict \<Rightarrow> string list option" where
  "meta_agents d = str_elems (dget_or d ''agents'' (JArr []))"

definition meta_manager :: "dict \<Rightarrow> string option" where
  "meta_manager d = (case dget_or d ''manager'' (JStr []) of JStr m \<Rightarrow> Some m | _ \<Rightarrow> None)"

text \<open>\<open>{meta.get("manager", "")} | set(meta.get("agents", []))\<close>\<close>

definition meta_roster :: "json \<Rightarrow> string list option" where
  "meta_roster meta = (case meta of
       JObj d \<Rightarrow> (case (meta_manager d, meta_agents d) of
           (Some m, Some as) \<Rightarrow> Some (sorted_set (m # as))
         | _ \<Rightarrow> None)
     | _ \<Rightarrow> None)"

text \<open>
  \<open>read_session\<close>: a missing, unreadable or undecodable file and a file holding \<open>null\<close> all yield
  \<open>None\<close>.
\<close>

definition read_session :: "string \<Rightarrow> fs \<Rightarrow> store_error + json option" where
  "read_session sid s = (case check_session sid of
       Some e \<Rightarrow> Inl e
     | None \<Rightarrow> (case load_at s (session_file sid) of
           Loaded JNull \<Rightarrow> Inr None
         | Loaded j \<Rightarrow> Inr (Some j)
         | _ \<Rightarrow> Inr None))"

text \<open>\<open>int(s)\<close>: surrounding white space, a sign, digits with single underscores between them.\<close>

fun int_body :: "bool \<Rightarrow> string \<Rightarrow> bool" where
  "int_body prev [] = prev"
| "int_body prev (c # cs) =
     (if is_digit c then int_body True cs else c = CHR ''_'' \<and> prev \<and> int_body False cs)"

definition int_of_str :: "string \<Rightarrow> int option" where
  "int_of_str s =
     (let t = strip s; neg = prefix ''-'' t;
          b = (if prefix ''-'' t \<or> prefix ''+'' t then tl t else t) in
      if int_body False b
      then Some ((if neg then -1 else 1) * int (nat_of_digits (filter is_digit b)))
      else None)"

fun py_int :: "json \<Rightarrow> int option" where
  "py_int (JInt i) = Some i"
| "py_int (JBool b) = Some (if b then 1 else 0)"
| "py_int (JFloat r) = Some (if 0 \<le> r then \<lfloor>r\<rfloor> else \<lceil>r\<rceil>)"
| "py_int (JStr s) = int_of_str s"
| "py_int _ = None"

text \<open>\<open>d.update(e)\<close>\<close>

definition dict_update :: "dict \<Rightarrow> dict \<Rightarrow> dict" where
  "dict_update d e = foldl (\<lambda>d (k, v). dset d k v) d e"

text \<open>\<open>x = meta.get(k, {}); x.update(modes); meta[k] = x\<close> when \<open>modes\<close> is given.\<close>

definition merge_modes :: "string \<Rightarrow> dict option \<Rightarrow> dict \<Rightarrow> dict option" where
  "merge_modes k modes meta = (case modes of
       None \<Rightarrow> Some meta
     | Some e \<Rightarrow> (case dget_or meta k (JObj []) of
           JObj old \<Rightarrow> Some (dset meta k (JObj (dict_update old e)))
         | _ \<Rightarrow> None))"

definition set_opt :: "string \<Rightarrow> json option \<Rightarrow> dict \<Rightarrow> dict" where
  "set_opt k v d = (case v of None \<Rightarrow> d | Some x \<Rightarrow> dset d k x)"

datatype session_result = SessionMerged nat | SessionAclUpdated | SessionCreated

record session_args =
  sa_manager :: string
  sa_agents :: "string list"
  sa_acl :: "json option"
  sa_execution_modes :: "dict option"
  sa_return_modes :: "dict option"

definition tmp_session :: "string \<Rightarrow> path" where
  "tmp_session sid = session_dir sid @ [''.tmp-session.json'']"

text \<open>The branch of \<open>session_init\<close> that merges into an existing session.\<close>

definition session_merge ::
  "instant \<Rightarrow> string \<Rightarrow> session_args \<Rightarrow> dict \<Rightarrow> fs \<Rightarrow> (store_error + session_result) \<times> fs" where
  "session_merge now sid a existing s =
     (let old_manager = dget_or existing ''manager'' (JStr []) in
      if truthy old_manager \<and> old_manager \<noteq> JStr (sa_manager a)
      then (Inl (ManagerConflict (the_str old_manager)), s)
      else case (meta_agents existing, py_int (dget_or existing ''manifest_revision'' (JInt 0))) of
        (Some old, Some revision) \<Rightarrow>
          (let merged = sorted_set (old @ sa_agents a);
               added = filter (\<lambda>x. x \<notin> set old) (sorted_set (sa_agents a)) in
           if added = [] \<and> sa_acl a = None \<and> sa_execution_modes a = None \<and> sa_return_modes a = None
           then (Inr (SessionMerged 0), s)
           else
             (let s1 = fold (ensure_agent_dirs sid) added s;
                  m1 = dset existing ''agents'' (JArr (map JStr merged));
                  m2 = dset m1 ''manifest_revision'' (JInt (revision + 1));
                  m3 = set_opt ''acl'' (sa_acl a) m2 in
              case merge_modes ''execution_modes'' (sa_execution_modes a) m3 of
                None \<Rightarrow> (Inl PyTypeError, s1)
              | Some m4 \<Rightarrow> (case merge_modes ''return_modes'' (sa_return_modes a) m4 of
                    None \<Rightarrow> (Inl PyTypeError, s1)
                  | Some m5 \<Rightarrow>
                      (Inr (if added \<noteq> [] then SessionMerged (length added) else SessionAclUpdated),
                       atomic_write now (tmp_session sid) (session_file sid) (JObj m5) s1))))
      | _ \<Rightarrow> (Inl PyTypeError, s))"

text \<open>The branch of \<open>session_init\<close> that creates the session.\<close>

definition session_fresh_meta :: "instant \<Rightarrow> string \<Rightarrow> session_args \<Rightarrow> dict" where
  "session_fresh_meta now sid a =
     (let m = [(''protocol_version'', JStr ''2''), (''session_id'', JStr sid),
               (''manager'', JStr (sa_manager a)),
               (''agents'', JArr (map JStr (sorted_set (sa_agents a)))),
               (''manifest_revision'', JInt 1), (''created_at'', JStr (iso_format now))] in
      set_opt ''return_modes'' (map_option JObj (sa_return_modes a))
        (set_opt ''execution_modes'' (map_option JObj (sa_execution_modes a))
          (set_opt ''acl'' (sa_acl a) m)))"

definition session_fresh ::
  "instant \<Rightarrow> string \<Rightarrow> session_args \<Rightarrow> fs \<Rightarrow> (store_error + session_result) \<times> fs" where
  "session_fresh now sid a s =
     (let s1 = atomic_write now (tmp_session sid) (session_file sid)
                 (JObj (session_fresh_meta now sid a)) s;
          s2 = fold (ensure_agent_dirs sid) (sorted_set (sa_agents a)) s1 in
      (Inr SessionCreated, ensure_agent_dirs sid (sa_manager a) s2))"

definition session_init ::
  "instant \<Rightarrow> string \<Rightarrow> session_args \<Rightarrow> fs \<Rightarrow> (store_error + session_result) \<times> fs" where
  "session_init now sid a s =
     (case find (\<lambda>x. \<not> validate_agent_id x) (sid # sa_manager a # sa_agents a) of
        Some x \<Rightarrow> (Inl (BadAgentId x), s)
      | None \<Rightarrow>
          (let s1 = mkdirs (session_dir sid) s in
           case read_session sid s1 of
             Inl e \<Rightarrow> (Inl e, s1)
           | Inr None \<Rightarrow> session_fresh now sid a s1
           | Inr (Some (JObj existing)) \<Rightarrow> session_merge now sid a existing s1
           | Inr (Some _) \<Rightarrow> (Inl PyTypeError, s1)))"

section \<open>Stream cursor\<close>

definition SEQ_WIDTH :: nat where
  "SEQ_WIDTH = 6"

definition STREAM_CURSOR_INITIAL :: string where
  "STREAM_CURSOR_INITIAL = ''0''"

definition cursor_file :: "string \<Rightarrow> path" where
  "cursor_file sid = session_dir sid @ [''.stream-cursor'']"

text \<open>The decimal text of an integer, and the same padded to a width with its sign first.\<close>

definition int_str :: "int \<Rightarrow> string" where
  "int_str i = (if i < 0 then ''-'' @ digits (nat (- i)) else digits (nat i))"

definition int_zfill :: "nat \<Rightarrow> int \<Rightarrow> string" where
  "int_zfill w i = (if i < 0 then ''-'' @ zfill (w - 1) (nat (- i)) else zfill w (nat i))"

definition cursor_text :: "int \<Rightarrow> int \<Rightarrow> string" where
  "cursor_text epoch_ms seq = int_str epoch_ms @ ''/'' @ int_zfill SEQ_WIDTH seq"

text \<open>
  The stored cursor. A file that is no object raises \<open>AttributeError\<close>; numbers other than
  integers are not written by the store and count as the same error.
\<close>

definition stored_cursor :: "string \<Rightarrow> fs \<Rightarrow> (int \<times> int) option option" where
  "stored_cursor sid s = (case load_at s (cursor_file sid) of
       Loaded (JObj d) \<Rightarrow>
         (case (dget_or d ''epoch_ms'' (JInt 0), dget_or d ''seq'' (JInt 0)) of
            (JInt e, JInt q) \<Rightarrow> Some (Some (e, q))
          | _ \<Rightarrow> None)
     | Loaded _ \<Rightarrow> None
     | _ \<Rightarrow> Some None)"

definition advance_cursor :: "instant \<Rightarrow> string \<Rightarrow> fs \<Rightarrow> (store_error + string) \<times> fs" where
  "advance_cursor now sid s = (case check_session sid of
       Some e \<Rightarrow> (Inl e, s)
     | None \<Rightarrow>
         (let s1 = mkdirs (session_dir sid) s; now_ms = \<lfloor>now * 1000\<rfloor> in
          case stored_cursor sid s1 of
            None \<Rightarrow> (Inl PyTypeError, s1)
          | Some prev \<Rightarrow>
              (let (prev_epoch, prev_seq) = (case prev of None \<Rightarrow> (0, 0) | Some p \<Rightarrow> p);
                   new_seq = (if now_ms = prev_epoch then prev_seq + 1 else 0) in
               (Inr (cursor_text now_ms new_seq),
                atomic_write now (session_dir sid @ [''.tmp-stream-cursor'']) (cursor_file sid)
                  (JObj [(''epoch_ms'', JInt now_ms), (''seq'', JInt new_seq)]) s1))))"

definition read_cursor :: "string \<Rightarrow> fs \<Rightarrow> store_error + string" where
  "read_cursor sid s = (case check_session sid of
       Some e \<Rightarrow> Inl e
     | None \<Rightarrow> (case stored_cursor sid s of
           None \<Rightarrow> Inl PyTypeError
         | Some None \<Rightarrow> Inr STREAM_CURSOR_INITIAL
         | Some (Some (e, q)) \<Rightarrow> Inr (cursor_text e q)))"

section \<open>Status file\<close>

definition status_file :: "string \<Rightarrow> string \<Rightarrow> path" where
  "status_file sid aid = agent_dir sid aid @ [''status.json'']"

text \<open>The temporary name is unique to the writer and gone after the rename.\<close>

definition write_status ::
  "instant \<Rightarrow> string \<Rightarrow> string \<Rightarrow> string \<Rightarrow> string \<Rightarrow> string \<Rightarrow> fs \<Rightarrow> (store_error + unit) \<times> fs" where
  "write_status now sid aid state current_task last_conclusion s =
     (if state \<notin> set VALID_STATES then (Inl (BadState state), s)
      else case check_session sid of
        Some e \<Rightarrow> (Inl e, s)
      | None \<Rightarrow>
          if \<not> exists_at s (session_dir sid) then (Inl SessionNotFound, s)
          else case check_agent sid aid of
            Some e \<Rightarrow> (Inl e, s)
          | None \<Rightarrow>
              if \<not> exists_at s (agent_dir sid aid) then (Inl (AgentNotInSession aid), s)
              else (Inr (), write_doc now (status_file sid aid)
                (JObj (status_to_dict \<lparr>st_session_id = JStr sid, st_state = JStr state,
                   st_current_task = JStr current_task, st_last_conclusion = JStr last_conclusion,
                   st_updated_at = JStr (iso_format now)\<rparr>)) s))"

definition STATUS_KEYS :: "string list" where
  "STATUS_KEYS = [''session_id'', ''state'', ''current_task'', ''last_conclusion'', ''updated_at'']"

definition status_ok :: "string \<Rightarrow> json \<Rightarrow> bool" where
  "status_ok sid j = (case j of
       JObj d \<Rightarrow> set (map fst d) = set STATUS_KEYS \<and>
         list_all (\<lambda>k. is_str (dget_or d k JNull)) STATUS_KEYS \<and>
         sget d ''state'' \<in> set VALID_STATES \<and> sget d ''session_id'' = sid
     | _ \<Rightarrow> False)"

definition read_status ::
  "bool \<Rightarrow> string \<Rightarrow> string \<Rightarrow> fs \<Rightarrow> store_error + status_snapshot option" where
  "read_status strict sid aid s = (case check_agent sid aid of
       Some e \<Rightarrow> Inl e
     | None \<Rightarrow>
         (let bad = (if strict then Inl StatusCorrupt else Inr None) in
          case load_at s (status_file sid aid) of
            Missing \<Rightarrow> Inr None
          | Undecodable \<Rightarrow> bad
          | Loaded (JObj d) \<Rightarrow>
              (if status_ok sid (JObj d) then Inr (Some (status_from_dict d)) else bad)
          | Loaded _ \<Rightarrow> bad))"

section \<open>Facts on trees and listings\<close>

lemma node_at_atomic_write [fs_simps]:
  "node_at (atomic_write t tmp dest j s) x =
     (if x = dest then Some (File (Doc j) t) else if x = tmp then None else node_at s x)"
  by (simp add: atomic_write_def fs_simps)

lemma fs_ok_atomic_write [simp]: "fs_ok s \<Longrightarrow> fs_ok (atomic_write t tmp dest j s)"
  by (simp add: atomic_write_def)

lemma load_at_atomic_write [simp]: "load_at (atomic_write t tmp dest j s) dest = Loaded j"
  by (simp add: load_at_def fs_simps)

lemma node_at_mkdirs_keep: "node_at s x = Some n \<Longrightarrow> node_at (mkdirs p s) x = Some n"
  by (simp add: fs_simps)

lemma node_at_mkdirs_fold_keep:
  "node_at s x = Some n \<Longrightarrow> node_at (fold (\<lambda>sub. mkdirs (f sub)) subs s) x = Some n"
  by (induction subs arbitrary: s) (auto simp: node_at_mkdirs_keep)

lemma node_at_ensure_keep:
  "node_at s x = Some n \<Longrightarrow> node_at (ensure_agent_dirs sid aid s) x = Some n"
  unfolding ensure_agent_dirs_def
  by (rule node_at_mkdirs_fold_keep, rule node_at_mkdirs_keep)

lemma node_at_ensure_fold_keep:
  "node_at s x = Some n \<Longrightarrow> node_at (fold (ensure_agent_dirs sid) as s) x = Some n"
  by (induction as arbitrary: s) (auto simp: node_at_ensure_keep)

lemma exists_ensure_keep:
  "exists_at s x \<Longrightarrow> exists_at (fold (ensure_agent_dirs sid) as s) x"
  by (auto simp: exists_at_def node_at_ensure_fold_keep)

lemma exists_ensure:
  "exists_at (ensure_agent_dirs sid aid s) (inbox_dir sid aid)"
  by (simp add: ensure_agent_dirs_def dir_defs exists_at_def fs_simps)

lemma exists_ensure_fold:
  "a \<in> set as \<Longrightarrow> exists_at (fold (ensure_agent_dirs sid) as s) (inbox_dir sid a)"
proof (induction as arbitrary: s)
  case (Cons b as)
  show ?case
  proof (cases "a = b")
    case True
    then show ?thesis by (simp add: exists_ensure exists_ensure_keep)
  next
    case False
    with Cons show ?thesis by simp
  qed
qed simp

lemma fs_ok_ensure [simp]: "fs_ok s \<Longrightarrow> fs_ok (ensure_agent_dirs sid aid s)"
  by (simp add: ensure_agent_dirs_def)

lemma fs_ok_ensure_fold [simp]: "fs_ok s \<Longrightarrow> fs_ok (fold (ensure_agent_dirs sid) as s)"
  by (induction as arbitrary: s) auto

lemma set_list_messages:
  "set (list_messages d s) =
     (if exists_at s d then {n. is_message_name n \<and> is_file_at s (d @ [n])} else {})"
  by (auto simp: list_messages_def in_children is_file_exists)

lemma distinct_list_messages: "fs_ok s \<Longrightarrow> distinct (list_messages d s)"
  by (simp add: list_messages_def distinct_children)

lemma sorted_list_messages:
  "sorted (map (\<lambda>n. mtime_at s (d @ [n])) (list_messages d s))"
  by (simp add: list_messages_def)

section \<open>Sessions\<close>

lemma meta_agents_JArr: "meta_agents (dset d ''agents'' (JArr (map JStr as))) = Some as"
  by (simp add: meta_agents_def str_elems_def list_all_iff comp_def)

lemma dget_or_set_opt: "dget_or (set_opt k v d) x w =
    (case v of None \<Rightarrow> dget_or d x w | Some y \<Rightarrow> if x = k then y else dget_or d x w)"
  by (simp add: set_opt_def split: option.splits)

lemma merge_modes_other:
  "merge_modes k modes d = Some d' \<Longrightarrow> x \<noteq> k \<Longrightarrow> dget_or d' x w = dget_or d x w"
  by (auto simp: merge_modes_def split: option.splits json.splits)

lemma read_session_Inr:
  "validate_agent_id sid \<Longrightarrow> load_at s (session_file sid) = Loaded (JObj d) \<Longrightarrow>
   read_session sid s = Inr (Some (JObj d))"
  by (simp add: read_session_def check_session_def)

lemma read_session_load:
  "read_session sid s = Inr (Some (JObj d)) \<Longrightarrow> load_at s (session_file sid) = Loaded (JObj d)"
  by (auto simp: read_session_def split: option.splits loaded.splits json.splits)

lemma load_at_mkdirs_session:
  "load_at (mkdirs (session_dir sid) s) (session_file sid) = load_at s (session_file sid)"
  by (rule load_at_cong) (auto simp: fs_simps dir_defs dest: prefix_length_le)

lemma read_session_mkdirs: "read_session sid (mkdirs (session_dir sid) s) = read_session sid s"
  unfolding read_session_def load_at_mkdirs_session ..

text \<open>What a session directory holds once \<open>session_init\<close> has returned.\<close>

definition session_holds :: "string \<Rightarrow> session_args \<Rightarrow> dict \<Rightarrow> fs \<Rightarrow> bool" where
  "session_holds sid a d s \<longleftrightarrow> load_at s (session_file sid) = Loaded (JObj d) \<and>
     (\<exists>m as. meta_manager d = Some m \<and> (m = sa_manager a \<or> m = []) \<and> meta_agents d = Some as \<and>
        set (sa_agents a) \<subseteq> set as)"

lemma session_fresh_holds:
  assumes "session_fresh now sid a s = (Inr r, s')"
  shows "session_holds sid a (session_fresh_meta now sid a) s'"
proof -
  have s': "s' = ensure_agent_dirs sid (sa_manager a) (fold (ensure_agent_dirs sid)
      (sorted_set (sa_agents a)) (atomic_write now (tmp_session sid) (session_file sid)
        (JObj (session_fresh_meta now sid a)) s))"
    using assms by (simp add: session_fresh_def Let_def)
  have "node_at s' (session_file sid) = Some (File (Doc (JObj (session_fresh_meta now sid a))) now)"
    unfolding s' by (intro node_at_ensure_keep node_at_ensure_fold_keep) (simp add: fs_simps)
  then have "load_at s' (session_file sid) = Loaded (JObj (session_fresh_meta now sid a))"
    by (auto simp: load_at_File)
  moreover have "meta_manager (session_fresh_meta now sid a) = Some (sa_manager a)"
    by (simp add: meta_manager_def session_fresh_meta_def dget_or_set_opt Let_def dget_or_base
        split: option.splits)
  moreover have "meta_agents (session_fresh_meta now sid a) = Some (sorted_set (sa_agents a))"
    by (simp add: meta_agents_def session_fresh_meta_def dget_or_set_opt Let_def dget_or_base
        str_elems_def list_all_iff comp_def split: option.splits)
  ultimately show ?thesis by (auto simp: session_holds_def)
qed

lemma merge_modes_keeps:
  assumes "merge_modes ''execution_modes'' em d = Some d1" "merge_modes ''return_modes'' rm d1 = Some d2"
    and "x \<noteq> ''execution_modes''" "x \<noteq> ''return_modes''"
  shows "dget_or d2 x w = dget_or d x w"
  using merge_modes_other [OF assms(1,3)] merge_modes_other [OF assms(2,4)] by simp

text \<open>
  A merge that returns kept the manager, bumped the revision by one unless nothing was to do, and
  left the union of the old and the requested agents.
\<close>

lemma session_merge_cases:
  assumes "session_merge now sid a d s = (Inr r, s')"
  obtains old revision where "meta_agents d = Some old"
    "py_int (dget_or d ''manifest_revision'' (JInt 0)) = Some revision"
    "s' = s" "set (sa_agents a) \<subseteq> set old" "r = SessionMerged 0"
    "\<not> truthy (dget_or d ''manager'' (JStr [])) \<or>
       dget_or d ''manager'' (JStr []) = JStr (sa_manager a)"
  | old revision d' where "meta_agents d = Some old"
    "py_int (dget_or d ''manifest_revision'' (JInt 0)) = Some revision"
    "load_at s' (session_file sid) = Loaded (JObj d')"
    "dget_or d' ''manager'' (JStr []) = dget_or d ''manager'' (JStr [])"
    "meta_agents d' = Some (sorted_set (old @ sa_agents a))"
    "dget_or d' ''manifest_revision'' (JInt 0) = JInt (revision + 1)"
    "\<not> truthy (dget_or d ''manager'' (JStr [])) \<or>
       dget_or d ''manager'' (JStr []) = JStr (sa_manager a)"
    "\<forall>x \<in> set (sa_agents a) - set old. exists_at s' (inbox_dir sid x)"
proof -
  let ?m = "dget_or d ''manager'' (JStr [])"
  have mgr: "\<not> truthy ?m \<or> ?m = JStr (sa_manager a)"
    using assms by (auto simp: session_merge_def Let_def split: if_splits)
  then obtain old revision where or: "meta_agents d = Some old"
      "py_int (dget_or d ''manifest_revision'' (JInt 0)) = Some revision"
    using assms by (auto simp: session_merge_def Let_def split: if_splits option.splits)
  let ?added = "filter (\<lambda>x. x \<notin> set old) (sorted_set (sa_agents a))"
  show thesis
  proof (cases "?added = [] \<and> sa_acl a = None \<and> sa_execution_modes a = None \<and> sa_return_modes a = None")
    case True
    then have "s' = s" "r = SessionMerged 0"
      using assms mgr or by (auto simp: session_merge_def Let_def split: if_splits)
    moreover have "set (sa_agents a) \<subseteq> set old"
      using True by (auto simp: filter_empty_conv)
    ultimately show thesis using that(1) or mgr by blast
  next
    case False
    define m3 where "m3 = set_opt ''acl'' (sa_acl a) (dset (dset d ''agents''
        (JArr (map JStr (sorted_set (old @ sa_agents a))))) ''manifest_revision'' (JInt (revision + 1)))"
    obtain m4 m5 where m: "merge_modes ''execution_modes'' (sa_execution_modes a) m3 = Some m4"
        "merge_modes ''return_modes'' (sa_return_modes a) m4 = Some m5"
      and s': "s' = atomic_write now (tmp_session sid) (session_file sid) (JObj m5)
          (fold (ensure_agent_dirs sid) ?added s)"
      using assms mgr or False
      by (auto simp: session_merge_def Let_def m3_def split: if_splits option.splits)
    note keep = merge_modes_keeps [OF m]
    show thesis
    proof (rule that(2) [OF or _ _ _ _ mgr])
      show "load_at s' (session_file sid) = Loaded (JObj m5)" by (simp add: s')
      show "dget_or m5 ''manager'' (JStr []) = dget_or d ''manager'' (JStr [])"
        and "dget_or m5 ''manifest_revision'' (JInt 0) = JInt (revision + 1)"
        by (simp_all add: keep m3_def dget_or_set_opt split: option.splits)
      show "meta_agents m5 = Some (sorted_set (old @ sa_agents a))"
        by (simp add: meta_agents_def keep m3_def dget_or_set_opt str_elems_def list_all_iff comp_def
            split: option.splits)
      show "\<forall>x \<in> set (sa_agents a) - set old. exists_at s' (inbox_dir sid x)"
      proof
        fix x
        assume "x \<in> set (sa_agents a) - set old"
        then have "exists_at (fold (ensure_agent_dirs sid) ?added s) (inbox_dir sid x)"
          by (intro exists_ensure_fold) auto
        then show "exists_at s' (inbox_dir sid x)"
          by (auto simp: s' exists_at_def fs_simps dir_defs tmp_session_def)
      qed
    qed
  qed
qed

lemma session_init_cases:
  assumes "session_init now sid a s = (Inr r, s')"
  obtains "validate_agent_id sid" "read_session sid s = Inr None"
    "session_fresh now sid a (mkdirs (session_dir sid) s) = (Inr r, s')"
  | d where "validate_agent_id sid" "read_session sid s = Inr (Some (JObj d))"
    "session_merge now sid a d (mkdirs (session_dir sid) s) = (Inr r, s')"
  using assms
  by (auto simp: session_init_def Let_def read_session_mkdirs
      split: option.splits if_splits sum.splits json.splits)

lemma meta_manager_merge:
  "meta_manager d' = Some m \<Longrightarrow> \<not> truthy (dget_or d' ''manager'' (JStr [])) \<or>
     dget_or d' ''manager'' (JStr []) = JStr x \<Longrightarrow> m = x \<or> m = []"
  by (auto simp: meta_manager_def split: json.splits)

text \<open>
  \<open>session_init\<close> never loses a member and never replaces the manager. Whenever it returns, the
  session file lists exactly the agents it listed before together with the requested ones; an
  existing manager is kept, and the revision of an existing session does not go down. On a fresh
  session the manager is the requested one and every member has an inbox.
\<close>

theorem session_init_merges_roster:
  assumes "session_init now sid a s = (Inr r, s')"
  shows "\<exists>d as. read_session sid s' = Inr (Some (JObj d)) \<and> meta_agents d = Some as \<and>
    (case read_session sid s of
       Inr (Some (JObj d0)) \<Rightarrow>
         set as = set (the (meta_agents d0)) \<union> set (sa_agents a) \<and>
         dget_or d ''manager'' (JStr []) = dget_or d0 ''manager'' (JStr []) \<and>
         the (py_int (dget_or d0 ''manifest_revision'' (JInt 0)))
           \<le> the (py_int (dget_or d ''manifest_revision'' (JInt 0)))
     | _ \<Rightarrow> set as = set (sa_agents a) \<and> meta_manager d = Some (sa_manager a) \<and>
         (\<forall>x \<in> set (sa_manager a # sa_agents a). exists_at s' (inbox_dir sid x)))"
  using assms
proof (cases rule: session_init_cases)
  case 1
  let ?d = "session_fresh_meta now sid a"
  from session_fresh_holds [OF "1"(3)] have load: "load_at s' (session_file sid) = Loaded (JObj ?d)"
    by (simp add: session_holds_def)
  have "meta_manager ?d = Some (sa_manager a)" "meta_agents ?d = Some (sorted_set (sa_agents a))"
    by (simp_all add: meta_manager_def meta_agents_def session_fresh_meta_def dget_or_set_opt Let_def
        dget_or_base str_elems_def list_all_iff comp_def split: option.splits)
  moreover have "\<forall>x \<in> set (sa_manager a # sa_agents a). exists_at s' (inbox_dir sid x)"
  proof
    fix x
    assume "x \<in> set (sa_manager a # sa_agents a)"
    then have "x \<in> set (sorted_set (sa_agents a) @ [sa_manager a])" by auto
    from exists_ensure_fold [OF this] show "exists_at s' (inbox_dir sid x)"
      using "1"(3) by (auto simp: session_fresh_def Let_def)
  qed
  ultimately show ?thesis using "1"(1,2) read_session_Inr [OF _ load] by auto
next
  case (2 d0)
  have load0: "load_at (mkdirs (session_dir sid) s) (session_file sid) = Loaded (JObj d0)"
    using read_session_load "2"(2) load_at_mkdirs_session by metis
  from "2"(3) show ?thesis
  proof (cases rule: session_merge_cases)
    case (1 old revision)
    then have "read_session sid s' = Inr (Some (JObj d0))"
      using read_session_Inr [OF "2"(1)] load0 by simp
    with 1 show ?thesis using "2"(2) by auto
  next
    case (2 old revision d')
    then show ?thesis
      using read_session_Inr [OF \<open>validate_agent_id sid\<close>] \<open>read_session sid s = Inr (Some (JObj d0))\<close>
      by auto
  qed
qed

lemma mkdirs_id: "(\<And>x. prefix x p \<Longrightarrow> exists_at s x) \<Longrightarrow> mkdirs p s = s"
proof -
  assume *: "\<And>x. prefix x p \<Longrightarrow> exists_at s x"
  have "fold mkdir_one ps s = s" if "\<forall>x \<in> set ps. exists_at s x" for ps
    using that by (induction ps) (auto simp: mkdir_one_def)
  with * show ?thesis by (simp add: mkdirs_def)
qed

lemma session_root_exists:
  assumes "session_init now sid a s = (Inr r, s')" and "prefix x (session_dir sid)"
  shows "exists_at s' x"
proof -
  have pre: "exists_at (mkdirs (session_dir sid) s) x"
    using assms(2) by (auto simp: exists_at_def fs_simps)
  have x: "x \<noteq> tmp_session sid" "x \<noteq> session_file sid"
    using assms(2) by (auto simp: tmp_session_def dir_defs dest: prefix_length_le)
  have merged: "exists_at (fold (ensure_agent_dirs sid) as (mkdirs (session_dir sid) s)) x" for as
    by (rule exists_ensure_keep [OF pre])
  have "exists_at (fold (ensure_agent_dirs sid) as (atomic_write now (tmp_session sid)
      (session_file sid) j (mkdirs (session_dir sid) s))) x" for as j
    by (rule exists_ensure_keep) (use pre x in \<open>simp add: exists_at_def fs_simps\<close>)
  from this [of "sorted_set (sa_agents a) @ [sa_manager a]"]
  have fresh: "exists_at (ensure_agent_dirs sid (sa_manager a) (fold (ensure_agent_dirs sid)
      (sorted_set (sa_agents a)) (atomic_write now (tmp_session sid)
      (session_file sid) j (mkdirs (session_dir sid) s)))) x" for j
    by simp
  from assms(1) show ?thesis
  proof (cases rule: session_init_cases)
    case 1
    with fresh show ?thesis by (auto simp: session_fresh_def Let_def)
  next
    case (2 d)
    have w: "exists_at (atomic_write now (tmp_session sid) (session_file sid) j
        (fold (ensure_agent_dirs sid) as (mkdirs (session_dir sid) s))) x" for j as
      using merged [of as] x by (simp add: exists_at_def fs_simps)
    from 2(3) pre w w [of _ "[]"] show ?thesis
      by (auto simp: session_merge_def Let_def split: if_splits option.splits)
  qed
qed

lemma session_init_ids:
  "session_init now sid a s = (Inr r, s') \<Longrightarrow>
   find (\<lambda>x. \<not> validate_agent_id x) (sid # sa_manager a # sa_agents a) = None"
  by (auto simp: session_init_def simp del: find.simps split: option.splits)

text \<open>
  \<open>session_init\<close> is idempotent: repeating a call that returned, with no access list and no modes
  to write, merges no agent and leaves the directory tree exactly as it was.
\<close>

theorem session_init_idempotent:
  assumes "session_init now sid a s = (Inr r, s')"
    and "sa_acl a = None" "sa_execution_modes a = None" "sa_return_modes a = None"
  shows "session_init now' sid a s' = (Inr (SessionMerged 0), s')"
proof -
  have root: "mkdirs (session_dir sid) s' = s'"
    by (rule mkdirs_id, rule session_root_exists [OF assms(1)])
  have "\<exists>d as revision. read_session sid s' = Inr (Some (JObj d)) \<and> meta_agents d = Some as \<and>
      set (sa_agents a) \<subseteq> set as \<and>
      py_int (dget_or d ''manifest_revision'' (JInt 0)) = Some revision \<and>
      (\<not> truthy (dget_or d ''manager'' (JStr [])) \<or>
         dget_or d ''manager'' (JStr []) = JStr (sa_manager a))"
    using assms(1)
  proof (cases rule: session_init_cases)
    case 1
    from session_fresh_holds [OF "1"(3)]
    have load: "load_at s' (session_file sid) = Loaded (JObj (session_fresh_meta now sid a))"
      by (simp add: session_holds_def)
    show ?thesis
      using read_session_Inr [OF "1"(1) load]
      by (auto simp: meta_agents_def session_fresh_meta_def dget_or_set_opt Let_def
          dget_or_base str_elems_def list_all_iff comp_def split: option.splits)
  next
    case (2 d0)
    have load0: "load_at (mkdirs (session_dir sid) s) (session_file sid) = Loaded (JObj d0)"
      using read_session_load "2"(2) load_at_mkdirs_session by metis
    from "2"(3) show ?thesis
    proof (cases rule: session_merge_cases)
      case (1 old revision)
      with read_session_Inr [OF \<open>validate_agent_id sid\<close>] load0 show ?thesis by auto
    next
      case (2 old revision d')
      with read_session_Inr [OF \<open>validate_agent_id sid\<close>, of s' d'] show ?thesis by auto
    qed
  qed
  then show ?thesis
    using session_init_ids [OF assms(1)] assms(2-4)
    by (auto simp: session_init_def root session_merge_def Let_def filter_empty_conv)
qed

definition example_args :: session_args where
  "example_args = \<lparr>sa_manager = ''boss'', sa_agents = [''w1'', ''w2''], sa_acl = None,
     sa_execution_modes = None, sa_return_modes = None\<rparr>"

definition example_session :: fs where
  "example_session = snd (session_init 1000 ''s1'' example_args [])"

lemma example_session_init:
  "session_init 1000 ''s1'' example_args [] = (Inr SessionCreated, example_session)"
  by code_simp

theorem session_init_merges_roster_witness:
  "read_session ''s1'' [] = Inr None \<and>
   (\<exists>d as. read_session ''s1'' example_session = Inr (Some (JObj d)) \<and> meta_agents d = Some as \<and>
      set as = {''w1'', ''w2''})"
proof -
  have r: "read_session ''s1'' [] = Inr None" by code_simp
  show ?thesis
    using session_init_merges_roster [OF example_session_init] r by (auto simp: example_args_def)
qed

theorem session_init_idempotent_witness:
  "session_init 2000 ''s1'' example_args example_session = (Inr (SessionMerged 0), example_session)"
  by (rule session_init_idempotent [OF example_session_init]) (simp_all add: example_args_def)

section \<open>The stream cursor\<close>

text \<open>Digit strings of equal length compare like the numbers they denote.\<close>

lemma nat_of_digits_append: "nat_of_digits (a @ b) = nat_of_digits a * 10 ^ length b + nat_of_digits b"
  by (induction b rule: rev_induct)
     (simp_all add: nat_of_digits_snoc flip: append_assoc, simp add: nat_of_digits_def)

lemma nat_of_digits_Cons:
  "nat_of_digits (c # cs) = (code c - 48) * 10 ^ length cs + nat_of_digits cs"
  using nat_of_digits_append [of "[c]" cs] by (simp add: nat_of_digits_def)

lemma nat_of_digits_less: "\<forall>c \<in> set s. is_digit c \<Longrightarrow> nat_of_digits s < 10 ^ length s"
proof (induction s)
  case (Cons c cs)
  then have "code c - 48 \<le> 9" "nat_of_digits cs < 10 ^ length cs" by (auto simp: is_digit_def)
  then have "(code c - 48) * 10 ^ length cs \<le> 9 * 10 ^ length cs" by (intro mult_le_mono1)
  with \<open>nat_of_digits cs < 10 ^ length cs\<close> show ?case
    unfolding nat_of_digits_Cons length_Cons power_Suc by linarith
qed (simp add: nat_of_digits_def)

lemma digit_strings_less:
  assumes "length a = length b" "\<forall>c \<in> set a. is_digit c" "\<forall>c \<in> set b. is_digit c"
    and "nat_of_digits a < nat_of_digits b"
  shows "a < b"
  using assms
proof (induction a b rule: list_induct2)
  case (Cons x xs y ys)
  have bx: "nat_of_digits xs < 10 ^ length xs" and b_y: "nat_of_digits ys < 10 ^ length ys"
    using Cons.prems by (simp_all add: nat_of_digits_less)
  show ?case
  proof (rule linorder_cases [of "code x" "code y"])
    assume "code x < code y"
    then show ?thesis by (simp add: less_char_def code_def)
  next
    assume "code x = code y"
    then have "x = y" by (simp add: code_def)
    with Cons show ?thesis by (simp add: nat_of_digits_Cons)
  next
    assume "code y < code x"
    then have "Suc (code y - 48) \<le> code x - 48" using Cons.prems by (auto simp: is_digit_def)
    then have "Suc (code y - 48) * 10 ^ length ys \<le> (code x - 48) * 10 ^ length ys"
      by (rule mult_le_mono1)
    with b_y Cons.hyps Cons.prems(3) show ?thesis by (simp add: nat_of_digits_Cons)
  qed
qed (simp add: nat_of_digits_def)

lemma append_less_append: "length a = length b \<Longrightarrow> a < (b :: string) \<Longrightarrow> a @ x < b @ y"
  by (induction a b rule: list_induct2) auto

lemma append_less_same: "x < (y :: string) \<Longrightarrow> a @ x < a @ y"
  by (induction a) auto

lemma length_digits_eq:
  assumes "10 ^ k \<le> n" "n < 10 ^ Suc k"
  shows "length (digits n) = Suc k"
proof (rule antisym)
  show "length (digits n) \<le> Suc k" using assms(2) by (rule length_digits_le) simp
  have "n < 10 ^ length (digits n)"
    using nat_of_digits_less [OF digits_is_digit, of n] by (simp add: nat_of_digits_digits)
  with assms(1) have "(10::nat) ^ k < 10 ^ length (digits n)" by (rule le_less_trans)
  then have "k < length (digits n)" by simp
  then show "Suc k \<le> length (digits n)" by simp
qed

lemma cursor_text_less:
  assumes "10 ^ k \<le> e" "e' < 10 ^ Suc k" and "0 \<le> q" "q' < 10 ^ SEQ_WIDTH"
    and "e < e' \<or> (e = e' \<and> q < q')"
  shows "cursor_text e q < cursor_text e' q'"
proof -
  have pos: "0 < e" using assms(1) by (rule order.strict_trans2 [rotated]) simp
  have bnd: "10 ^ k \<le> nat e" "nat e < 10 ^ Suc k" "10 ^ k \<le> nat e'" "nat e' < 10 ^ Suc k"
    using assms pos by (auto simp: nat_less_iff le_nat_iff)
  note len = length_digits_eq [OF bnd(1,2)] length_digits_eq [OF bnd(3,4)]
  show ?thesis
  proof (cases "e < e'")
    case True
    then have "digits (nat e) < digits (nat e')"
      using pos by (intro digit_strings_less)
        (auto simp: len nat_of_digits_digits digits_is_digit)
    then show ?thesis
      using True pos len
      by (simp add: cursor_text_def int_str_def append_less_append del: append_Cons)
  next
    case False
    with assms have "e = e'" "q < q'" by auto
    then have "zfill SEQ_WIDTH (nat q) < zfill SEQ_WIDTH (nat q')"
      using assms by (intro digit_strings_less)
        (auto simp: length_zfill zfill_is_digit nat_less_iff SEQ_WIDTH_def)
    with \<open>e = e'\<close> \<open>q < q'\<close> assms(3) show ?thesis
      by (simp add: cursor_text_def int_zfill_def append_less_same)
  qed
qed

lemma stored_cursor_mkdirs: "stored_cursor sid (mkdirs (session_dir sid) s) = stored_cursor sid s"
proof -
  have "load_at (mkdirs (session_dir sid) s) (cursor_file sid) = load_at s (cursor_file sid)"
    by (rule load_at_cong) (auto simp: fs_simps dir_defs cursor_file_def dest: prefix_length_le)
  then show ?thesis by (simp add: stored_cursor_def)
qed

lemma advance_cursor_stored:
  assumes "advance_cursor now sid s = (Inr c, s')"
  obtains e q where "stored_cursor sid s' = Some (Some (e, q))" "c = cursor_text e q"
    "e = \<lfloor>now * 1000\<rfloor>" "validate_agent_id sid"
    "q = (case stored_cursor sid s of Some (Some (e0, q0)) \<Rightarrow> if e0 = e then q0 + 1 else 0
          | _ \<Rightarrow> if e = 0 then 1 else 0)"
proof -
  have v: "validate_agent_id sid"
    using assms by (auto simp: advance_cursor_def check_session_def split: if_splits)
  obtain prev where prev: "stored_cursor sid s = Some prev"
    using assms v by (auto simp: advance_cursor_def check_session_def Let_def stored_cursor_mkdirs
        split: option.splits)
  let ?q = "case prev of None \<Rightarrow> if \<lfloor>now * 1000\<rfloor> = 0 then 1 else 0
     | Some (e0, q0) \<Rightarrow> if e0 = \<lfloor>now * 1000\<rfloor> then q0 + 1 else (0 :: int)"
  have "load_at s' (cursor_file sid) = Loaded (JObj [(''epoch_ms'', JInt \<lfloor>now * 1000\<rfloor>),
      (''seq'', JInt ?q)])" and c: "c = cursor_text \<lfloor>now * 1000\<rfloor> ?q"
    using assms v prev
    by (auto simp: advance_cursor_def check_session_def Let_def stored_cursor_mkdirs
        split: option.splits prod.splits)
  then have "stored_cursor sid s' = Some (Some (\<lfloor>now * 1000\<rfloor>, ?q))"
    by (simp add: stored_cursor_def dget_or_def)
  from that [OF this c refl v] show thesis by (auto simp: prev split: option.splits)
qed

text \<open>
  A stored cursor that leaves room for the next message of its millisecond in the fixed width.
\<close>

definition cursor_ok :: "string \<Rightarrow> fs \<Rightarrow> bool" where
  "cursor_ok sid s = (case stored_cursor sid s of
       Some (Some (e, q)) \<Rightarrow> 0 \<le> q \<and> q < 10 ^ SEQ_WIDTH
     | Some None \<Rightarrow> True
     | None \<Rightarrow> False)"

text \<open>
  Stream cursors increase. Two consecutive sends whose clock does not go backwards get cursors
  that are strictly increasing as strings, in any year whose millisecond count has thirteen
  digits (2001 to 2286) and as long as fewer than a million messages share one millisecond; the
  second cursor is what \<open>read_cursor\<close> then reports.
\<close>

theorem advance_cursor_increases:
  assumes "advance_cursor t1 sid s = (Inr c1, s1)" and "advance_cursor t2 sid s1 = (Inr c2, s2)"
    and "10 ^ 9 \<le> t1" "t1 \<le> t2" "t2 < 10 ^ 10"
    and "cursor_ok sid s" "cursor_ok sid s2"
  shows "c1 < c2 \<and> read_cursor sid s2 = Inr c2"
proof -
  obtain e1 q1 where 1: "stored_cursor sid s1 = Some (Some (e1, q1))" "c1 = cursor_text e1 q1"
      "e1 = \<lfloor>t1 * 1000\<rfloor>"
      "q1 = (case stored_cursor sid s of Some (Some (e0, q0)) \<Rightarrow> if e0 = e1 then q0 + 1 else 0
          | _ \<Rightarrow> if e1 = 0 then 1 else 0)"
    by (rule advance_cursor_stored [OF assms(1)])
  obtain e2 q2 where 2: "stored_cursor sid s2 = Some (Some (e2, q2))" "c2 = cursor_text e2 q2"
      "e2 = \<lfloor>t2 * 1000\<rfloor>" "validate_agent_id sid"
      "q2 = (case stored_cursor sid s1 of Some (Some (e0, q0)) \<Rightarrow> if e0 = e2 then q0 + 1 else 0
          | _ \<Rightarrow> if e2 = 0 then 1 else 0)"
    by (rule advance_cursor_stored [OF assms(2)])
  have q2: "q2 = (if e1 = e2 then q1 + 1 else 0)" using "2"(5) "1"(1) by simp
  have "10 ^ 12 \<le> t1 * 1000" "t2 * 1000 < 10 ^ Suc 12"
    using assms(3,5) by simp_all
  then have e: "10 ^ 12 \<le> e1" "e2 < 10 ^ Suc 12"
    by (simp_all add: "1"(3) "2"(3) le_floor_iff floor_less_iff)
  have e12: "e1 \<le> e2" unfolding "1"(3) "2"(3) using assms(4) by (intro floor_mono) simp
  have "0 \<le> q1"
    using "1"(4) assms(6) by (auto simp: cursor_ok_def split: option.splits if_splits)
  moreover have "q2 < 10 ^ SEQ_WIDTH" using assms(7) 2 by (simp add: cursor_ok_def)
  moreover have "e1 < e2 \<or> e1 = e2 \<and> q1 < q2" using e12 q2 by auto
  ultimately have "c1 < c2" unfolding "1"(2) "2"(2) using e by (intro cursor_text_less)
  then show ?thesis using 2 by (simp add: read_cursor_def check_session_def)
qed

definition example_cursor_fs :: "int \<Rightarrow> fs" where
  "example_cursor_fs q = [([], Dir), ([''s1''], Dir), ([''s1'', ''.stream-cursor''],
     File (Doc (JObj [(''epoch_ms'', JInt 1767225600000), (''seq'', JInt q)])) 1767225600)]"

theorem advance_cursor_increases_witness:
  "\<exists>c1 c2 s1 s2. advance_cursor 1767225600 ''s1'' [] = (Inr c1, s1) \<and>
     advance_cursor 1767225600 ''s1'' s1 = (Inr c2, s2) \<and> c1 < c2 \<and>
     c2 = ''1767225600000/000001''"
proof -
  have 1: "advance_cursor 1767225600 ''s1'' [] =
      (Inr ''1767225600000/000000'', example_cursor_fs 0)" by code_simp
  have 2: "advance_cursor 1767225600 ''s1'' (example_cursor_fs 0) =
      (Inr ''1767225600000/000001'', example_cursor_fs 1)" by code_simp
  have "cursor_ok ''s1'' []" "cursor_ok ''s1'' (example_cursor_fs 1)" by code_simp+
  then have "''1767225600000/000000'' < ''1767225600000/000001''"
    using advance_cursor_increases [OF 1 2] by simp
  with 1 2 show ?thesis by blast
qed

section \<open>The status file\<close>

lemma status_round_trip: "status_from_dict (status_to_dict st) = st"
  by (simp add: status_from_dict_def status_to_dict_def dget_or_def)

text \<open>
  Status round trip: a status that \<open>write_status\<close> accepted is what \<open>read_status\<close> returns, in
  strict mode too, so the strict reader never reports a file the store wrote as corrupt.
\<close>

theorem write_status_read_back:
  assumes "write_status now sid aid state task concl s = (Inr (), s')"
  shows "read_status strict sid aid s' = Inr (Some
    \<lparr>st_session_id = JStr sid, st_state = JStr state, st_current_task = JStr task,
     st_last_conclusion = JStr concl, st_updated_at = JStr (iso_format now)\<rparr>)"
proof -
  let ?st = "\<lparr>st_session_id = JStr sid, st_state = JStr state, st_current_task = JStr task,
     st_last_conclusion = JStr concl, st_updated_at = JStr (iso_format now)\<rparr>"
  have ok: "state \<in> set VALID_STATES" "check_agent sid aid = None"
    and s': "s' = write_doc now (status_file sid aid) (JObj (status_to_dict ?st)) s"
    using assms by (auto simp: write_status_def split: if_splits option.splits)
  have "load_at s' (status_file sid aid) = Loaded (JObj (status_to_dict ?st))"
    by (simp add: s' load_at_def fs_simps)
  moreover have "status_ok sid (JObj (status_to_dict ?st))"
    using ok(1) by (simp add: status_ok_def status_to_dict_def STATUS_KEYS_def sget_def dget_or_def
        insert_commute)
  ultimately show ?thesis
    using ok(2) by (simp add: read_status_def Let_def status_round_trip)
qed

theorem write_status_read_back_witness:
  "\<exists>s'. write_status 1000 ''s1'' ''w1'' ''BUSY'' ''t'' ''c'' example_session = (Inr (), s') \<and>
     read_status True ''s1'' ''w1'' s' \<noteq> Inr None"
proof -
  have "write_status 1000 ''s1'' ''w1'' ''BUSY'' ''t'' ''c'' example_session =
      (Inr (), snd (write_status 1000 ''s1'' ''w1'' ''BUSY'' ''t'' ''c'' example_session))"
    by code_simp
  from write_status_read_back [OF this, of True] this show ?thesis by auto
qed

end
