(* ===== verification/Store_Send.thy ===== *)
theory Store_Send
  imports Store_Session
begin

text \<open>
  \<open>mailbox/store.py\<close>, second part: the canonical history, sending with idempotent replay, and
  reading the history back.
\<close>

section \<open>Message ids\<close>

definition validate_msg_id :: "string \<Rightarrow> bool" where
  "validate_msg_id m = id_pattern 63 m"

text \<open>
  \<open>gen_msg_id\<close>: the sender, the compact time stamp (\<open>%Y%m%dT%H%M%S\<close>, the canonical one without its
  separators) and six random characters, here an argument.
\<close>

definition compact_stamp :: "instant \<Rightarrow> string" where
  "compact_stamp now = filter (\<lambda>c. c \<notin> {CHR ''-'', CHR '':'', CHR ''Z''}) (iso_format now)"

definition gen_msg_id :: "instant \<Rightarrow> string \<Rightarrow> string \<Rightarrow> string" where
  "gen_msg_id now sender suf = sender @ ''_'' @ compact_stamp now @ ''_'' @ suf"

section \<open>Comparing attachments\<close>

text \<open>
  \<open>str(v)\<close> of an attachment field. Fields of valid attachments are strings and integers; the
  text of a float, list or object is not modelled and such a value only equals itself.
\<close>

datatype norm_val = NText string | NOther json

fun norm_str :: "json \<Rightarrow> norm_val" where
  "norm_str (JStr s) = NText s"
| "norm_str (JInt i) = NText (int_str i)"
| "norm_str (JBool b) = NText (if b then ''True'' else ''False'')"
| "norm_str JNull = NText ''None''"
| "norm_str v = NOther v"

text \<open>An object becomes its items sorted by key; anything else is no object and equals none.\<close>

definition norm_ref :: "json \<Rightarrow> (string \<times> norm_val) list option" where
  "norm_ref ref = (case ref of
       JObj d \<Rightarrow> Some (sort_key fst (map (\<lambda>(k, v). (k, norm_str v)) d))
     | _ \<Rightarrow> None)"

text \<open>
  \<open>_attachments_eq(existing, refs)\<close>; \<^term>\<open>None\<close> is the \<open>TypeError\<close> of \<open>len\<close> on a value that has
  none. The elements of a string or an object are strings, which equal no reference.
\<close>

definition attachments_eq :: "json \<Rightarrow> attachment_ref list \<Rightarrow> bool option" where
  "attachments_eq a refs =
     (let b = map (\<lambda>r. JObj (attachment_to_dict r)) refs in
      case a of
        JArr xs \<Rightarrow> Some (length xs = length b \<and> set (map norm_ref xs) = set (map norm_ref b))
      | JStr s \<Rightarrow> Some (s = [] \<and> b = [])
      | JObj d \<Rightarrow> Some (d = [] \<and> b = [])
      | _ \<Rightarrow> None)"

section \<open>History\<close>

definition append_history :: "instant \<Rightarrow> string \<Rightarrow> dict \<Rightarrow> fs \<Rightarrow> (store_error + unit) \<times> fs" where
  "append_history now sid msg s = (case check_session sid of
       Some e \<Rightarrow> (Inl e, s)
     | None \<Rightarrow>
         if \<not> exists_at s (session_dir sid) then (Inl SessionNotFound, s)
         else case validate_message (JObj msg) (Some sid) None None of
           Invalid r \<Rightarrow> (Inl (HistoryInvalid r), s)
         | RaisesTypeError \<Rightarrow> (Inl PyTypeError, s)
         | Valid \<Rightarrow>
             (let m = sget msg ''msg_id'' in
              if \<not> validate_msg_id m then (Inl (BadMsgId m), s)
              else
                (let hd = history_dir sid; s1 = mkdirs hd s;
                     dest = hd @ [json_name m]; tmp = hd @ [tmp_name m] in
                 if exists_at s1 dest \<or> exists_at s1 tmp then (Inl HistoryExists, s1)
                 else (Inr (), atomic_write now tmp dest (JObj msg) s1))))"

record history_filter =
  hf_since :: "string option"
  hf_before :: "string option"
  hf_limit :: "int option"
  hf_from :: "string option"
  hf_kind :: "string option"

definition history_match :: "history_filter \<Rightarrow> dict \<Rightarrow> bool" where
  "history_match f m \<longleftrightarrow>
     (case hf_since f of None \<Rightarrow> True | Some t \<Rightarrow> t \<le> sget m ''created_at'') \<and>
     (case hf_before f of None \<Rightarrow> True | Some t \<Rightarrow> sget m ''created_at'' < t) \<and>
     (case hf_from f of None \<Rightarrow> True | Some x \<Rightarrow> sget m ''from'' = x) \<and>
     (case hf_kind f of None \<Rightarrow> True | Some k \<Rightarrow> sget m ''kind'' = k)"

text \<open>The scan of the history files: undecodable and invalid ones are skipped.\<close>

fun history_scan :: "string \<Rightarrow> history_filter \<Rightarrow> fs \<Rightarrow> string list \<Rightarrow> store_error + dict list" where
  "history_scan sid f s [] = Inr []"
| "history_scan sid f s (n # ns) =
     (case load_at s (history_dir sid @ [n]) of
        Loaded (JObj m) \<Rightarrow>
          (case validate_message (JObj m) (Some sid) None (Some n) of
             RaisesTypeError \<Rightarrow> Inl PyTypeError
           | Invalid _ \<Rightarrow> history_scan sid f s ns
           | Valid \<Rightarrow> (case history_scan sid f s ns of
                 Inl e \<Rightarrow> Inl e
               | Inr ms \<Rightarrow> Inr (if history_match f m then m # ms else ms)))
      | _ \<Rightarrow> history_scan sid f s ns)"

text \<open>\<open>out.sort(key=..., reverse=True)\<close>, which keeps the order of equal elements.\<close>

definition history_key :: "dict \<Rightarrow> string list" where
  "history_key m = [sget m ''created_at'', sget m ''msg_id'']"

definition sort_desc :: "('a \<Rightarrow> 'k::linorder) \<Rightarrow> 'a list \<Rightarrow> 'a list" where
  "sort_desc k xs = rev (sort_key k (rev xs))"

definition read_history :: "string \<Rightarrow> history_filter \<Rightarrow> fs \<Rightarrow> store_error + dict list" where
  "read_history sid f s =
     (if hf_kind f \<noteq> None \<and> the (hf_kind f) \<notin> set VALID_KINDS
      then Inl (BadKind (the (hf_kind f)))
      else if hf_limit f \<noteq> None \<and> the (hf_limit f) < 0 then Inl BadLimit
      else case check_session sid of
        Some e \<Rightarrow> Inl e
      | None \<Rightarrow> (case history_scan sid f s (list_messages (history_dir sid) s) of
            Inl e \<Rightarrow> Inl e
          | Inr ms \<Rightarrow>
              (let out = sort_desc history_key ms in
               Inr (case hf_limit f of None \<Rightarrow> out | Some l \<Rightarrow> take (nat l) out))))"

section \<open>Send\<close>

record send_args =
  sn_from :: string
  sn_to :: string
  sn_subject :: string
  sn_body :: string
  sn_kind :: string
  sn_reply_to :: string
  sn_run_id :: string
  sn_request_id :: string
  sn_command_id :: string
  sn_trace_id :: string
  sn_causation_id :: string
  sn_attachments :: "json list"
  sn_msg_id :: "string option"
  sn_require_ack :: bool
  sn_receipt_type :: string

datatype send_result = Sent string | Broadcast nat | Replayed nat

text \<open>The loop that validates the attachments; no argument and the empty list are the same.\<close>

fun attachment_refs :: "json list \<Rightarrow> store_error + attachment_ref list" where
  "attachment_refs [] = Inr []"
| "attachment_refs (a # as) = (case a of
       JObj d \<Rightarrow> (case attachment_error a of
           Some r \<Rightarrow> Inl (BadAttachment r)
         | None \<Rightarrow>
             if (case dget_or d ''size'' JNull of JInt n \<Rightarrow> MAX_ATTACHMENT_SIZE < n | _ \<Rightarrow> False)
             then Inl AttachmentTooLarge
             else (case attachment_from_dict d of
                 Inl _ \<Rightarrow> Inl PyTypeError
               | Inr r \<Rightarrow> (case attachment_refs as of Inl e \<Rightarrow> Inl e | Inr rs \<Rightarrow> Inr (r # rs))))
     | _ \<Rightarrow> Inl (BadAttachment AttNotObject))"

text \<open>Who receives the message, or why it has no valid recipient.\<close>

definition send_recipients :: "string list \<Rightarrow> send_args \<Rightarrow> store_error + string list" where
  "send_recipients roster a =
     (if sn_to a = BROADCAST_TO then Inr (filter (\<lambda>x. x \<noteq> sn_from a) roster)
      else if sn_to a \<notin> set roster then Inl (RecipientNotInRoster (sn_to a))
      else Inr [sn_to a])"

text \<open>The loop over the recipients: every inbox must exist before anything is written.\<close>

fun check_inboxes :: "string \<Rightarrow> fs \<Rightarrow> string list \<Rightarrow> store_error option" where
  "check_inboxes sid s [] = None"
| "check_inboxes sid s (r # rs) = (case check_agent sid r of
       Some e \<Rightarrow> Some e
     | None \<Rightarrow>
         if \<not> exists_at s (inbox_dir sid r) then Some (AgentNotInSession r)
         else check_inboxes sid s rs)"

text \<open>All checks that precede the lookup of the message id, in the order of the source.\<close>

definition send_checks ::
  "string \<Rightarrow> send_args \<Rightarrow> fs \<Rightarrow> store_error + string list \<times> attachment_ref list" where
  "send_checks sid a s = (case check_session sid of
       Some e \<Rightarrow> Inl e
     | None \<Rightarrow>
         if \<not> exists_at s (session_dir sid) then Inl SessionNotFound
         else case read_session sid s of
           Inl e \<Rightarrow> Inl e
         | Inr None \<Rightarrow> Inl SessionMetaMissing
         | Inr (Some meta) \<Rightarrow> (case meta_roster meta of
               None \<Rightarrow> Inl PyTypeError
             | Some roster \<Rightarrow>
                 if sn_from a \<notin> set roster then Inl (SenderNotInRoster (sn_from a))
                 else case attachment_refs (sn_attachments a) of
                   Inl e \<Rightarrow> Inl e
                 | Inr refs \<Rightarrow> (case send_recipients roster a of
                       Inl e \<Rightarrow> Inl e
                     | Inr rs \<Rightarrow> (case check_inboxes sid s rs of
                           Some e \<Rightarrow> Inl e
                         | None \<Rightarrow>
                             if sn_kind a \<notin> set VALID_KINDS then Inl (BadKind (sn_kind a))
                             else if MAX_MAILBOX_BODY < utf8_length (sn_body a) then Inl BodyTooLarge
                             else Inr (rs, refs)))))"

definition inbox_file :: "string \<Rightarrow> string \<Rightarrow> string \<Rightarrow> path" where
  "inbox_file sid rid m = inbox_dir sid rid @ [json_name m]"

definition history_file :: "string \<Rightarrow> string \<Rightarrow> path" where
  "history_file sid m = history_dir sid @ [json_name m]"

text \<open>
  The record of a message id that was already written: the first inbox that has it, else the
  history. An unreadable file counts as an empty object, and \<open>null\<close> as absent.
\<close>

fun find_existing :: "fs \<Rightarrow> path list \<Rightarrow> json option" where
  "find_existing s [] = None"
| "find_existing s (p # ps) =
     (if exists_at s p then
        (case load_at s p of
           Loaded JNull \<Rightarrow> find_existing s ps
         | Loaded j \<Rightarrow> Some j
         | _ \<Rightarrow> Some (JObj []))
      else find_existing s ps)"

text \<open>The comparison of a stored record with the arguments of a replay; \<^term>\<open>None\<close> raises.\<close>

definition same_payload :: "string \<Rightarrow> send_args \<Rightarrow> attachment_ref list \<Rightarrow> dict \<Rightarrow> bool option" where
  "same_payload sid a refs d =
     (let req = (\<lambda>k v. dget d k = Some (JStr v)); opt = (\<lambda>k v. dget_or d k (JStr []) = JStr v) in
      if req ''session_id'' sid \<and> req ''from'' (sn_from a) \<and> req ''to'' (sn_to a) \<and>
         req ''subject'' (sn_subject a) \<and> req ''body'' (sn_body a) \<and> req ''kind'' (sn_kind a) \<and>
         opt ''reply_to'' (sn_reply_to a) \<and> opt ''run_id'' (sn_run_id a) \<and>
         opt ''request_id'' (sn_request_id a) \<and> opt ''command_id'' (sn_command_id a) \<and>
         opt ''trace_id'' (sn_trace_id a) \<and> opt ''causation_id'' (sn_causation_id a) \<and>
         truthy (dget_or d ''require_ack'' (JBool False)) = sn_require_ack a \<and>
         opt ''receipt_type'' (sn_receipt_type a)
      then attachments_eq (dget_or d ''attachments'' (JArr [])) refs
      else Some False)"

definition write_envelope :: "instant \<Rightarrow> string \<Rightarrow> string \<Rightarrow> dict \<Rightarrow> string \<Rightarrow> fs \<Rightarrow> fs" where
  "write_envelope now sid m d rid s =
     atomic_write now (inbox_dir sid rid @ [tmp_name m]) (inbox_file sid rid m) (JObj d) s"

text \<open>A replay with the same payload writes the envelopes that are missing.\<close>

fun backfill :: "instant \<Rightarrow> string \<Rightarrow> string \<Rightarrow> dict \<Rightarrow> string list \<Rightarrow> fs \<Rightarrow> nat \<times> fs" where
  "backfill now sid m d [] s = (0, s)"
| "backfill now sid m d (r # rs) s =
     (if exists_at s (inbox_file sid r m) then backfill now sid m d rs s
      else (case backfill now sid m d rs (write_envelope now sid m d r s) of
          (n, s') \<Rightarrow> (Suc n, s')))"

definition send_replay ::
  "instant \<Rightarrow> string \<Rightarrow> send_args \<Rightarrow> string \<Rightarrow> string list \<Rightarrow> attachment_ref list \<Rightarrow> json \<Rightarrow> fs \<Rightarrow>
   (store_error + send_result) \<times> fs" where
  "send_replay now sid a m rs refs existing s = (case existing of
       JObj d \<Rightarrow> (case same_payload sid a refs d of
           None \<Rightarrow> (Inl PyTypeError, s)
         | Some False \<Rightarrow> (Inl ConflictingPayload, s)
         | Some True \<Rightarrow> (case backfill now sid m d rs s of
             (n, s1) \<Rightarrow>
               if exists_at s1 (history_file sid m) then (Inr (Replayed n), s1)
               else (case append_history now sid d s1 of
                   (Inl e, s2) \<Rightarrow> (Inl e, s2)
                 | (Inr _, s2) \<Rightarrow> (Inr (Replayed n), s2))))
     | _ \<Rightarrow> (Inl PyTypeError, s))"

definition send_message :: "instant \<Rightarrow> string \<Rightarrow> send_args \<Rightarrow> string \<Rightarrow> attachment_ref list \<Rightarrow> message" where
  "send_message now sid a m refs =
     \<lparr>session_id = JStr sid, from_id = JStr (sn_from a), to_id = JStr (sn_to a),
      subject = JStr (sn_subject a), body = JStr (sn_body a), kind = JStr (sn_kind a),
      msg_id = JStr m, created_at = JStr (iso_format now), reply_to = JStr (sn_reply_to a),
      run_id = JStr (sn_run_id a), request_id = JStr (sn_request_id a),
      command_id = JStr (sn_command_id a), trace_id = JStr (sn_trace_id a),
      causation_id = JStr (sn_causation_id a), attachments = refs,
      protocol_version = JInt PROTOCOL_VERSION, require_ack = JBool (sn_require_ack a),
      receipt_type = JStr (sn_receipt_type a)\<rparr>"

text \<open>
  Writing a new message: envelopes without the cursor, the cursor, the envelopes again with it,
  and one history record.
\<close>

definition send_new ::
  "instant \<Rightarrow> string \<Rightarrow> send_args \<Rightarrow> string \<Rightarrow> string list \<Rightarrow> attachment_ref list \<Rightarrow> fs \<Rightarrow>
   (store_error + send_result) \<times> fs" where
  "send_new now sid a m rs refs s =
     (let payload = message_to_dict (send_message now sid a m refs) in
      case validate_message (JObj payload) (Some sid) None None of
        Invalid r \<Rightarrow> (Inl (SendInvalid r), s)
      | RaisesTypeError \<Rightarrow> (Inl PyTypeError, s)
      | Valid \<Rightarrow>
          (let s1 = fold (write_envelope now sid m payload) rs s in
           case advance_cursor now sid s1 of
             (Inl e, s2) \<Rightarrow> (Inl e, s2)
           | (Inr c, s2) \<Rightarrow>
               (let stamped = dset payload ''_cursor'' (JStr c);
                    s3 = fold (write_envelope now sid m stamped) rs s2 in
                case append_history now sid stamped s3 of
                  (Inl e, s4) \<Rightarrow> (Inl e, s4)
                | (Inr _, s4) \<Rightarrow>
                    (Inr (if sn_to a = BROADCAST_TO then Broadcast (length rs) else Sent m), s4))))"

text \<open>
  The draws of \<open>gen_msg_id\<close> until one is free, from the given successive random suffixes;
  \<^term>\<open>None\<close> when they are used up.
\<close>

fun fresh_id :: "instant \<Rightarrow> string \<Rightarrow> string \<Rightarrow> string list \<Rightarrow> fs \<Rightarrow> string list \<Rightarrow> string option" where
  "fresh_id now sid sender rs s [] = None"
| "fresh_id now sid sender rs s (suf # sufs) =
     (let m = gen_msg_id now sender suf in
      if list_ex (\<lambda>r. exists_at s (inbox_file sid r m)) rs \<or> exists_at s (history_file sid m)
      then fresh_id now sid sender rs s sufs
      else Some m)"

text \<open>\<open>send\<close>; \<^term>\<open>None\<close> only when every given random suffix collides.\<close>

definition send ::
  "instant \<Rightarrow> string list \<Rightarrow> string \<Rightarrow> send_args \<Rightarrow> fs \<Rightarrow> ((store_error + send_result) \<times> fs) option" where
  "send now sufs sid a s = (case send_checks sid a s of
       Inl e \<Rightarrow> Some (Inl e, s)
     | Inr (rs, refs) \<Rightarrow> (case sn_msg_id a of
           Some m \<Rightarrow>
             if \<not> validate_msg_id m then Some (Inl (BadMsgId m), s)
             else (case find_existing s (map (\<lambda>r. inbox_file sid r m) rs @ [history_file sid m]) of
                 Some existing \<Rightarrow> Some (send_replay now sid a m rs refs existing s)
               | None \<Rightarrow> Some (send_new now sid a m rs refs s))
         | None \<Rightarrow> (case fresh_id now sid (sn_from a) rs s sufs of
               None \<Rightarrow> None
             | Some m \<Rightarrow> Some (send_new now sid a m rs refs s))))"

section \<open>Effects on the tree\<close>

lemma tmp_json_neq [simp]: "tmp_name m \<noteq> json_name m" "json_name m \<noteq> tmp_name m"
proof -
  have "length (tmp_name m) \<noteq> length (json_name m)" by (simp add: tmp_name_def json_name_def)
  then show "tmp_name m \<noteq> json_name m" "json_name m \<noteq> tmp_name m" by auto
qed

lemma json_name_inject [simp]: "json_name m = json_name m' \<longleftrightarrow> m = m'"
  by (simp add: json_name_def)

lemma inbox_dir_inject [simp]: "inbox_dir sid r = inbox_dir sid r' \<longleftrightarrow> r = r'"
  by (simp add: dir_defs)

lemma node_at_write_envelope:
  "node_at (write_envelope now sid m d r s) x =
     (if x = inbox_file sid r m then Some (File (Doc (JObj d)) now)
      else if x = inbox_dir sid r @ [tmp_name m] then None else node_at s x)"
  by (simp add: write_envelope_def fs_simps)

lemma node_at_write_envelopes:
  "node_at (fold (write_envelope now sid m d) rs s) x =
     (if \<exists>r \<in> set rs. x = inbox_file sid r m then Some (File (Doc (JObj d)) now)
      else if \<exists>r \<in> set rs. x = inbox_dir sid r @ [tmp_name m] then None else node_at s x)"
  by (induction rs arbitrary: s)
     (auto simp: node_at_write_envelope inbox_file_def)

lemma advance_cursor_keep:
  assumes "advance_cursor now sid s = (r, s')" and "node_at s x = Some n"
    and "x \<noteq> cursor_file sid" "x \<noteq> session_dir sid @ [''.tmp-stream-cursor'']"
  shows "node_at s' x = Some n"
  using assms
  by (auto simp: advance_cursor_def Let_def fs_simps split: option.splits prod.splits if_splits)

lemma append_history_Inr:
  assumes "append_history now sid d s = (Inr u, s')"
  shows "validate_message (JObj d) (Some sid) None None = Valid \<and> validate_msg_id (sget d ''msg_id'') \<and>
    (\<forall>x. node_at s' x =
       (if x = history_file sid (sget d ''msg_id'') then Some (File (Doc (JObj d)) now)
        else if x = history_dir sid @ [tmp_name (sget d ''msg_id'')] then None
        else node_at (mkdirs (history_dir sid) s) x))"
  using assms
  by (auto simp: append_history_def Let_def fs_simps history_file_def
      split: option.splits if_splits verdict.splits)

lemma append_history_long_path:
  assumes "append_history now sid d s = (r, s')" and "3 < length x"
  shows "node_at s' x = node_at s x"
proof -
  have "\<not> prefix x (history_dir sid)" "x \<noteq> history_dir sid @ [n]" for n
    using assms(2) by (auto simp: dir_defs dest: prefix_length_le)
  with assms(1) show ?thesis
    by (auto simp: append_history_def Let_def fs_simps
      split: option.splits if_splits verdict.splits)
qed

lemma advance_cursor_long_path:
  assumes "advance_cursor now sid s = (r, s')" and "2 < length x"
  shows "node_at s' x = node_at s x"
proof -
  have "\<not> prefix x (session_dir sid)" "x \<noteq> session_dir sid @ [n]" for n
    using assms(2) by (auto simp: dir_defs dest: prefix_length_le)
  with assms(1) show ?thesis
    by (auto simp: advance_cursor_def Let_def fs_simps cursor_file_def
      split: option.splits prod.splits)
qed

lemma length_inbox_file [simp]: "length (inbox_file sid r m) = 4" "length (inbox_dir sid r) = 3"
  by (simp_all add: inbox_file_def dir_defs)

text \<open>A message the store builds has values of the declared types.\<close>

lemma message_typed_send: "message_typed (send_message now sid a m refs)"
  by (auto simp: message_typed_def optional_fields_def send_message_def)

lemma message_from_dict_cursor:
  "message_from_dict (dset d ''_cursor'' c) = message_from_dict d"
  by (simp add: message_from_dict_def split: sum.splits)

lemma send_new_cases:
  assumes "send_new now sid a m rs refs s = (Inr r, s')"
  obtains c s2 where
    "advance_cursor now sid (fold (write_envelope now sid m
       (message_to_dict (send_message now sid a m refs))) rs s) = (Inr c, s2)"
    "append_history now sid (dset (message_to_dict (send_message now sid a m refs)) ''_cursor'' (JStr c))
       (fold (write_envelope now sid m
         (dset (message_to_dict (send_message now sid a m refs)) ''_cursor'' (JStr c))) rs s2) =
       (Inr (), s')"
    "r = (if sn_to a = BROADCAST_TO then Broadcast (length rs) else Sent m)"
  using assms
  by (auto simp: send_new_def Let_def split: verdict.splits prod.splits sum.splits)

text \<open>The record a new message leaves in every inbox and in the history.\<close>

lemma send_new_record:
  assumes "send_new now sid a m rs refs s = (Inr r, s')"
  obtains c where
    "\<And>rid. rid \<in> set rs \<Longrightarrow> load_at s' (inbox_file sid rid m) =
       Loaded (JObj (dset (message_to_dict (send_message now sid a m refs)) ''_cursor'' (JStr c)))"
    "load_at s' (history_file sid m) =
       Loaded (JObj (dset (message_to_dict (send_message now sid a m refs)) ''_cursor'' (JStr c)))"
    "validate_message (JObj (dset (message_to_dict (send_message now sid a m refs)) ''_cursor''
       (JStr c))) (Some sid) None None = Valid" "validate_msg_id m"
    "r = (if sn_to a = BROADCAST_TO then Broadcast (length rs) else Sent m)"
proof -
  let ?p = "message_to_dict (send_message now sid a m refs)"
  obtain c s2 where c: "append_history now sid (dset ?p ''_cursor'' (JStr c))
      (fold (write_envelope now sid m (dset ?p ''_cursor'' (JStr c))) rs s2) = (Inr (), s')"
    and r: "r = (if sn_to a = BROADCAST_TO then Broadcast (length rs) else Sent m)"
    by (rule send_new_cases [OF assms]) blast
  let ?d = "dset ?p ''_cursor'' (JStr c)"
  have mid: "sget ?d ''msg_id'' = m"
    by (simp add: sget_def message_to_dict_required [THEN dget_or_dget] send_message_def)
  note h = append_history_Inr [OF c, unfolded mid]
  show thesis
  proof (rule that [of c])
    fix rid
    assume "rid \<in> set rs"
    then have "node_at s' (inbox_file sid rid m) = Some (File (Doc (JObj ?d)) now)"
      by (subst append_history_long_path [OF c]) (auto simp: node_at_write_envelopes)
    then show "load_at s' (inbox_file sid rid m) = Loaded (JObj ?d)" by (auto simp: load_at_File)
  next
    show "load_at s' (history_file sid m) = Loaded (JObj ?d)"
      using h by (auto simp: load_at_File)
  qed (use h r in blast)+
qed

lemma send_new_frame:
  assumes "send_new now sid a m rs refs s = (r, s')" and "3 < length x"
    and "\<And>rid. rid \<in> set rs \<Longrightarrow> x \<noteq> inbox_file sid rid m \<and> x \<noteq> inbox_dir sid rid @ [tmp_name m]"
  shows "node_at s' x = node_at s x"
proof -
  let ?p = "message_to_dict (send_message now sid a m refs)"
  have env: "node_at (fold (write_envelope now sid m d) rs s0) x = node_at s0 x" for d s0
    using assms(3) by (auto simp: node_at_write_envelopes)
  show ?thesis
  proof (cases "validate_message (JObj ?p) (Some sid) None None")
    case Valid
    obtain rc s2 where adv: "advance_cursor now sid (fold (write_envelope now sid m ?p) rs s) = (rc, s2)"
      by fastforce
    have 2: "node_at s2 x = node_at s x"
      using advance_cursor_long_path [OF adv] assms(2) env by simp
    show ?thesis
    proof (cases rc)
      case (Inl e)
      with assms(1) Valid adv 2 show ?thesis by (simp add: send_new_def Let_def)
    next
      case (Inr c)
      let ?s3 = "fold (write_envelope now sid m (dset ?p ''_cursor'' (JStr c))) rs s2"
      obtain rh s4 where hist: "append_history now sid (dset ?p ''_cursor'' (JStr c)) ?s3 = (rh, s4)"
        by fastforce
      have "node_at s4 x = node_at s x"
        using append_history_long_path [OF hist assms(2)] env 2 by simp
      with assms(1) Valid adv Inr hist show ?thesis
        by (auto simp: send_new_def Let_def split: sum.splits)
    qed
  qed (use assms(1) in \<open>simp_all add: send_new_def Let_def\<close>)
qed

section \<open>Delivery\<close>

lemma send_cases:
  assumes "send now sufs sid a s = Some (Inr r, s')"
  obtains (new) rs refs m where "send_checks sid a s = Inr (rs, refs)"
      "send_new now sid a m rs refs s = (Inr r, s')" "sn_msg_id a \<noteq> None \<Longrightarrow> sn_msg_id a = Some m"
  | (replay) rs refs m d where "send_checks sid a s = Inr (rs, refs)" "sn_msg_id a = Some m"
      "validate_msg_id m"
      "find_existing s (map (\<lambda>r. inbox_file sid r m) rs @ [history_file sid m]) = Some (JObj d)"
      "send_replay now sid a m rs refs (JObj d) s = (Inr r, s')"
proof -
  obtain rs refs where ck: "send_checks sid a s = Inr (rs, refs)"
    using assms by (auto simp: send_def split: sum.splits)
  show thesis
  proof (cases "sn_msg_id a")
    case None
    with assms ck show thesis
      by (auto simp: send_def split: option.splits intro: new)
  next
    case (Some m)
    let ?f = "find_existing s (map (\<lambda>r. inbox_file sid r m) rs @ [history_file sid m])"
    have v: "validate_msg_id m" using assms ck Some by (auto simp: send_def split: if_splits)
    show thesis
    proof (cases ?f)
      case None
      with assms ck Some v show thesis by (auto simp: send_def intro: new)
    next
      case (Some j)
      then have rep: "send_replay now sid a m rs refs j s = (Inr r, s')"
        using assms ck \<open>sn_msg_id a = Some m\<close> v by (simp add: send_def)
      then obtain d where "j = JObj d" by (auto simp: send_replay_def split: json.splits)
      with rep Some show thesis using replay [OF ck \<open>sn_msg_id a = Some m\<close> v] by simp
    qed
  qed
qed

lemma send_new_not_replayed: "send_new now sid a m rs refs s \<noteq> (Inr (Replayed n), s')"
  by (auto simp: send_new_def Let_def split: verdict.splits prod.splits sum.splits)

lemma send_replay_is_replayed:
  "send_replay now sid a m rs refs j s = (Inr r, s') \<Longrightarrow> \<exists>n. r = Replayed n"
  by (auto simp: send_replay_def split: json.splits option.splits bool.splits prod.splits sum.splits
      if_splits)

lemma send_checks_roster:
  assumes "send_checks sid a s = Inr (rs, refs)"
  shows "\<exists>meta roster. read_session sid s = Inr (Some meta) \<and> meta_roster meta = Some roster \<and>
    sn_from a \<in> set roster \<and>
    set rs = (if sn_to a = BROADCAST_TO then set roster - {sn_from a} else {sn_to a}) \<and>
    set rs \<subseteq> set roster"
  using assms
  by (auto simp: send_checks_def send_recipients_def split: option.splits if_splits sum.splits)

text \<open>
  C1. A new message reaches every recipient. When \<open>send\<close> reports a new delivery, every recipient's
  inbox and the history hold the same record under one message id, that record is valid for the
  session and decodes to exactly the message that was sent; and no other file of any inbox of the
  session has changed. The recipients of a broadcast are the roster without the sender.
\<close>

theorem send_delivers_to_all:
  assumes "send now sufs sid a s = Some (Inr r, s')" and "\<forall>n. r \<noteq> Replayed n"
  shows "\<exists>m rs refs d meta roster. send_checks sid a s = Inr (rs, refs) \<and>
    read_session sid s = Inr (Some meta) \<and> meta_roster meta = Some roster \<and>
    sn_from a \<in> set roster \<and>
    set rs = (if sn_to a = BROADCAST_TO then set roster - {sn_from a} else {sn_to a}) \<and>
    set rs \<subseteq> set roster \<and>
    (\<forall>rid \<in> set rs. load_at s' (inbox_file sid rid m) = Loaded (JObj d)) \<and>
    load_at s' (history_file sid m) = Loaded (JObj d) \<and>
    validate_message (JObj d) (Some sid) None None = Valid \<and>
    message_from_dict d = Inr (send_message now sid a m refs) \<and>
    (\<forall>aid n. aid \<notin> set rs \<or> n \<notin> {json_name m, tmp_name m} \<longrightarrow>
       node_at s' (inbox_dir sid aid @ [n]) = node_at s (inbox_dir sid aid @ [n])) \<and>
    (case r of Broadcast k \<Rightarrow> k = length rs | Sent m' \<Rightarrow> m' = m | Replayed _ \<Rightarrow> False)"
  using assms(1)
proof (cases rule: send_cases)
  case (new rs refs m)
  let ?p = "message_to_dict (send_message now sid a m refs)"
  obtain c where c: "\<And>rid. rid \<in> set rs \<Longrightarrow>
        load_at s' (inbox_file sid rid m) = Loaded (JObj (dset ?p ''_cursor'' (JStr c)))"
      "load_at s' (history_file sid m) = Loaded (JObj (dset ?p ''_cursor'' (JStr c)))"
      "validate_message (JObj (dset ?p ''_cursor'' (JStr c))) (Some sid) None None = Valid"
      "r = (if sn_to a = BROADCAST_TO then Broadcast (length rs) else Sent m)"
    by (rule send_new_record [OF new(2)]) blast
  have "message_from_dict (dset ?p ''_cursor'' (JStr c)) = Inr (send_message now sid a m refs)"
    by (simp add: message_from_dict_cursor message_from_to_dict message_typed_send)
  moreover have "node_at s' (inbox_dir sid aid @ [n]) = node_at s (inbox_dir sid aid @ [n])"
    if "aid \<notin> set rs \<or> n \<notin> {json_name m, tmp_name m}" for aid n
    by (rule send_new_frame [OF new(2)]) (use that in \<open>auto simp: inbox_file_def\<close>)
  ultimately show ?thesis
    using new(1) c send_checks_roster [OF new(1)]
    by (intro exI [of _ m] exI [of _ rs] exI [of _ refs] exI [of _ "dset ?p ''_cursor'' (JStr c)"]) auto
next
  case replay
  with assms(2) show ?thesis by (auto dest: send_replay_is_replayed)
qed

text \<open>The errors that the checks before the first write raise.\<close>

fun pre_write_error :: "store_error \<Rightarrow> bool" where
  "pre_write_error (HistoryInvalid _) = False"
| "pre_write_error HistoryExists = False"
| "pre_write_error (BadMsgId _) = False"
| "pre_write_error PyTypeError = False"
| "pre_write_error _ = True"

lemma append_history_error:
  assumes "append_history now sid d s = (Inl e, s')"
    and "check_session sid = None" "exists_at s (session_dir sid)"
  shows "\<not> pre_write_error e"
  using assms
  by (auto simp: append_history_def Let_def split: if_splits verdict.splits)

lemma advance_cursor_error:
  "advance_cursor now sid s = (Inl e, s') \<Longrightarrow> check_session sid = None \<Longrightarrow> e = PyTypeError"
  by (auto simp: advance_cursor_def Let_def split: option.splits prod.splits)

lemma send_checks_session:
  assumes "send_checks sid a s = Inr x"
  shows "check_session sid = None \<and> exists_at s (session_dir sid)"
  using assms by (auto simp: send_checks_def split: option.splits if_splits)

lemma session_dir_write_envelopes:
  "exists_at (fold (write_envelope now sid m d) rs s) (session_dir sid) = exists_at s (session_dir sid)"
  by (auto simp: exists_at_def node_at_write_envelopes inbox_file_def dir_defs)

lemma session_dir_backfill:
  "exists_at (snd (backfill now sid m d rs s)) (session_dir sid) = exists_at s (session_dir sid)"
proof (induction rs arbitrary: s)
  case (Cons r rs)
  have "exists_at (write_envelope now sid m d r s) (session_dir sid) = exists_at s (session_dir sid)"
    using session_dir_write_envelopes [of now sid m d "[r]" s] by simp
  with Cons show ?case by (simp add: case_prod_beta)
qed simp

lemma send_new_error:
  assumes "send_new now sid a m rs refs s = (Inl e, s')" "pre_write_error e"
    and "check_session sid = None" "exists_at s (session_dir sid)"
  shows "s' = s"
proof -
  let ?p = "message_to_dict (send_message now sid a m refs)"
  show ?thesis
  proof (cases "validate_message (JObj ?p) (Some sid) None None")
    case Valid
    obtain rc s2 where adv: "advance_cursor now sid (fold (write_envelope now sid m ?p) rs s) = (rc, s2)"
      by fastforce
    show ?thesis
    proof (cases rc)
      case (Inl e')
      with assms(1) Valid adv have "e' = e" by (simp add: send_new_def Let_def)
      with advance_cursor_error [OF adv [unfolded Inl] assms(3)] assms(2) show ?thesis by simp
    next
      case (Inr c)
      have "exists_at s2 (session_dir sid)"
        using advance_cursor_keep [OF adv, of "session_dir sid"] assms(4)
          session_dir_write_envelopes [of now sid m ?p rs s]
        by (auto simp: exists_at_def cursor_file_def dir_defs)
      then have ex: "exists_at (fold (write_envelope now sid m (dset ?p ''_cursor'' (JStr c))) rs s2)
          (session_dir sid)"
        by (simp add: session_dir_write_envelopes)
      from assms(1) Valid adv Inr
      have "append_history now sid (dset ?p ''_cursor'' (JStr c))
         (fold (write_envelope now sid m (dset ?p ''_cursor'' (JStr c))) rs s2) = (Inl e, s')"
        by (auto simp: send_new_def Let_def split: prod.splits sum.splits)
      with append_history_error [OF this assms(3) ex] assms(2) show ?thesis by simp
    qed
  qed (use assms(1) in \<open>simp_all add: send_new_def Let_def\<close>)
qed

lemma send_replay_error:
  assumes "send_replay now sid a m rs refs j s = (Inl e, s')" "pre_write_error e"
    and "check_session sid = None" "exists_at s (session_dir sid)"
  shows "s' = s"
proof (cases j)
  case (JObj d)
  show ?thesis
  proof (cases "same_payload sid a refs d = Some True")
    case True
    obtain n s1 where b: "backfill now sid m d rs s = (n, s1)" by fastforce
    have ex: "exists_at s1 (session_dir sid)"
      using session_dir_backfill [of now sid m d rs s] b assms(4) by simp
    from assms(1) JObj True b
    have "append_history now sid d s1 = (Inl e, s')"
      by (auto simp: send_replay_def split: if_splits prod.splits sum.splits)
    with append_history_error [OF this assms(3) ex] assms(2) show ?thesis by simp
  next
    case False
    then have "same_payload sid a refs d = None \<or> same_payload sid a refs d = Some False"
      by (cases "same_payload sid a refs d") auto
    with assms(1) JObj show ?thesis by (auto simp: send_replay_def)
  qed
qed (use assms(1) in \<open>simp_all add: send_replay_def\<close>)

text \<open>
  A rejected send writes nothing. Every error of the checks before the first write (unknown
  session, sender or recipient outside the roster, attachments, missing inbox, kind, size, schema,
  payload conflict) leaves the tree exactly as it was.
\<close>

theorem send_rejected_no_effect:
  assumes "send now sufs sid a s = Some (Inl e, s')" and "pre_write_error e"
  shows "s' = s"
proof (cases "send_checks sid a s")
  case (Inl e')
  with assms(1) show ?thesis by (simp add: send_def)
next
  case (Inr x)
  then obtain rs refs where ck: "send_checks sid a s = Inr (rs, refs)" by (cases x) simp
  note ses = send_checks_session [OF ck]
  show ?thesis
    using assms ck ses
    by (auto simp: send_def split: option.splits if_splits
        dest: send_new_error send_replay_error)
qed

section \<open>Replay\<close>

lemma json_name_last: "last (json_name m) = CHR ''n''" "last (tmp_name m) = CHR ''n''"
  by (simp_all add: json_name_def tmp_name_def dot_json_def)

lemma json_name_not_inbox: "json_name m \<noteq> ''inbox''" "tmp_name m \<noteq> ''inbox''"
proof -
  have "last ''inbox'' \<noteq> CHR ''n''" by simp
  with json_name_last show "json_name m \<noteq> ''inbox''" "tmp_name m \<noteq> ''inbox''" by metis+
qed

lemma inbox_dir_not_history: "inbox_dir sid r \<noteq> history_file sid m"
  "inbox_dir sid r \<noteq> history_dir sid @ [tmp_name m]"
  using json_name_not_inbox [of m] by (auto simp: dir_defs history_file_def)

lemma check_inboxes_mono:
  "check_inboxes sid s rs = None \<Longrightarrow> (\<And>r. exists_at s (inbox_dir sid r) \<Longrightarrow> exists_at s' (inbox_dir sid r)) \<Longrightarrow>
   check_inboxes sid s' rs = None"
  by (induction rs) (auto split: option.splits if_splits)

text \<open>The checks of \<open>send\<close> still pass in a tree that keeps the session file and the directories.\<close>

lemma send_checks_mono:
  assumes "send_checks sid a s = Inr x"
    and "load_at s' (session_file sid) = load_at s (session_file sid)"
    and "exists_at s' (session_dir sid)"
    and "\<And>r. exists_at s (inbox_dir sid r) \<Longrightarrow> exists_at s' (inbox_dir sid r)"
  shows "send_checks sid a s' = Inr x"
proof -
  have rd: "read_session sid s' = read_session sid s"
    unfolding read_session_def assms(2) ..
  show ?thesis
    using assms(1,3) check_inboxes_mono [OF _ assms(4)]
    by (auto simp: send_checks_def rd split: option.splits if_splits sum.splits)
qed

lemma send_new_keep:
  assumes "send_new now sid a m rs refs s = (Inr r, s')" and "node_at s x = Some n"
    and "length x \<le> 3" "x \<noteq> cursor_file sid" "x \<noteq> session_dir sid @ [''.tmp-stream-cursor'']"
      "x \<noteq> history_file sid m" "x \<noteq> history_dir sid @ [tmp_name m]"
  shows "node_at s' x = Some n"
proof -
  let ?p = "message_to_dict (send_message now sid a m refs)"
  obtain c s2 where adv: "advance_cursor now sid (fold (write_envelope now sid m ?p) rs s) = (Inr c, s2)"
    and h: "append_history now sid (dset ?p ''_cursor'' (JStr c))
      (fold (write_envelope now sid m (dset ?p ''_cursor'' (JStr c))) rs s2) = (Inr (), s')"
    by (rule send_new_cases [OF assms(1)]) blast
  have env: "node_at (fold (write_envelope now sid m d) rs s0) x = node_at s0 x" for d s0
    using assms(3) by (auto simp: node_at_write_envelopes dest: arg_cong [of _ _ length])
  have mid: "sget (dset ?p ''_cursor'' (JStr c)) ''msg_id'' = m"
    by (simp add: sget_def message_to_dict_required [THEN dget_or_dget] send_message_def)
  have "node_at s2 x = Some n"
    by (rule advance_cursor_keep [OF adv]) (use assms env in auto)
  then show ?thesis
    using append_history_Inr [OF h, unfolded mid] assms(6,7) env by (simp add: fs_simps)
qed

lemma send_checks_after_new:
  assumes "send_new now sid a m rs refs s = (Inr r, s')" and "send_checks sid a' s = Inr x"
  shows "send_checks sid a' s' = Inr x"
proof (rule send_checks_mono [OF assms(2)])
  note keep = send_new_keep [OF assms(1)]
  have paths: "session_file sid \<noteq> cursor_file sid"
      "session_file sid \<noteq> session_dir sid @ [''.tmp-stream-cursor'']"
    by (simp_all add: dir_defs cursor_file_def)
  have "\<exists>j. load_at s (session_file sid) = Loaded j"
    using assms(2)
    by (auto simp: send_checks_def read_session_def split: option.splits if_splits loaded.splits json.splits)
  then obtain n where n: "node_at s (session_file sid) = Some n" by (auto simp: load_at_File)
  have "node_at s' (session_file sid) = Some n"
    by (rule keep [OF n]) (use paths in \<open>auto simp: dir_defs history_file_def\<close>)
  with n show "load_at s' (session_file sid) = load_at s (session_file sid)"
    by (intro load_at_cong) simp
  show "exists_at s' (session_dir sid)"
    using send_checks_session [OF assms(2)] keep [of "session_dir sid"]
    by (auto simp: exists_at_def dir_defs cursor_file_def history_file_def)
  show "exists_at s' (inbox_dir sid r)" if "exists_at s (inbox_dir sid r)" for r
  proof -
    from that obtain n where "node_at s (inbox_dir sid r) = Some n" by (auto simp: exists_at_def)
    then have "node_at s' (inbox_dir sid r) = Some n"
      by (rule keep) (use inbox_dir_not_history in \<open>auto simp: dir_defs cursor_file_def\<close>)
    then show ?thesis by (simp add: exists_at_def)
  qed
qed

text \<open>The fields a replay must repeat, besides sender, recipient and attachments.\<close>

definition payload_fields :: "send_args \<Rightarrow> bool \<times> string list" where
  "payload_fields a = (sn_require_ack a, [sn_subject a, sn_body a, sn_kind a, sn_reply_to a,
     sn_run_id a, sn_request_id a, sn_command_id a, sn_trace_id a, sn_causation_id a,
     sn_receipt_type a])"

lemma same_payload_sent:
  assumes "sn_from a' = sn_from a" "sn_to a' = sn_to a"
  shows "same_payload sid a' refs'
      (dset (message_to_dict (send_message now sid a m refs)) ''_cursor'' (JStr c)) =
    (if payload_fields a' = payload_fields a
     then attachments_eq (JArr (map (\<lambda>r. JObj (attachment_to_dict r)) refs)) refs'
     else Some False)"
proof -
  let ?d = "dset (message_to_dict (send_message now sid a m refs)) ''_cursor'' (JStr c)"
  have req: "dget ?d ''session_id'' = Some (JStr sid)" "dget ?d ''from'' = Some (JStr (sn_from a))"
    "dget ?d ''to'' = Some (JStr (sn_to a))" "dget ?d ''subject'' = Some (JStr (sn_subject a))"
    "dget ?d ''body'' = Some (JStr (sn_body a))" "dget ?d ''kind'' = Some (JStr (sn_kind a))"
    "truthy (dget_or ?d ''require_ack'' (JBool False)) = sn_require_ack a"
    by (simp_all add: message_to_dict_required message_to_dict_required [THEN dget_or_dget]
        send_message_def)
  have opt: "dget_or ?d ''reply_to'' (JStr []) = JStr (sn_reply_to a)"
    "dget_or ?d ''run_id'' (JStr []) = JStr (sn_run_id a)"
    "dget_or ?d ''request_id'' (JStr []) = JStr (sn_request_id a)"
    "dget_or ?d ''command_id'' (JStr []) = JStr (sn_command_id a)"
    "dget_or ?d ''trace_id'' (JStr []) = JStr (sn_trace_id a)"
    "dget_or ?d ''causation_id'' (JStr []) = JStr (sn_causation_id a)"
    "dget_or ?d ''receipt_type'' (JStr []) = JStr (sn_receipt_type a)"
    by (simp_all add: message_to_dict_optional [OF message_typed_send])
       (simp_all add: send_message_def)
  have att: "dget_or ?d ''attachments'' (JArr []) = JArr (map (\<lambda>r. JObj (attachment_to_dict r)) refs)"
    by (simp add: message_to_dict_attachments send_message_def)
  show ?thesis
    unfolding same_payload_def Let_def req opt att payload_fields_def using assms
    by (intro if_cong) auto
qed

lemma attachments_eq_refl:
  "attachments_eq (JArr (map (\<lambda>r. JObj (attachment_to_dict r)) refs)) refs = Some True"
  by (simp add: attachments_eq_def image_image)

lemma loaded_exists: "load_at s p = Loaded j \<Longrightarrow> exists_at s p"
  by (auto simp: load_at_File exists_at_def)

lemma find_existing_hit:
  "(\<And>p. p \<in> set ps \<Longrightarrow> load_at s p = Loaded (JObj d)) \<Longrightarrow> ps \<noteq> [] \<Longrightarrow>
   find_existing s ps = Some (JObj d)"
  by (cases ps) (simp_all add: loaded_exists)

lemma backfill_complete:
  "(\<And>r. r \<in> set rs \<Longrightarrow> exists_at s (inbox_file sid r m)) \<Longrightarrow> backfill now sid m d rs s = (0, s)"
  by (induction rs) auto

text \<open>The record a caller-named message left behind, with the checks that still pass.\<close>

lemma sent_record:
  assumes "send now sufs sid a s = Some (Inr r, s')" "sn_msg_id a = Some m" "\<forall>n. r \<noteq> Replayed n"
  obtains rs refs c where "send_checks sid a s' = Inr (rs, refs)" "validate_msg_id m"
    "\<forall>rid \<in> set rs. load_at s' (inbox_file sid rid m) =
       Loaded (JObj (dset (message_to_dict (send_message now sid a m refs)) ''_cursor'' (JStr c)))"
    "load_at s' (history_file sid m) =
       Loaded (JObj (dset (message_to_dict (send_message now sid a m refs)) ''_cursor'' (JStr c)))"
  using assms(1)
proof (cases rule: send_cases)
  case (new rs refs m')
  then have m: "m' = m" using assms(2) by simp
  note sn = new(2) [unfolded m]
  show thesis
    by (rule send_new_record [OF sn]) (rule that [OF send_checks_after_new [OF sn new(1)]], blast+)
next
  case replay
  with assms(3) show thesis by (auto dest: send_replay_is_replayed)
qed

lemma send_again_noop:
  assumes "send now sufs sid a s = Some (Inr r, s')" "sn_msg_id a = Some m" "\<forall>n. r \<noteq> Replayed n"
  shows "send now' sufs' sid a s' = Some (Inr (Replayed 0), s')"
proof -
  obtain rs refs c where rec: "send_checks sid a s' = Inr (rs, refs)" "validate_msg_id m"
    "\<forall>rid \<in> set rs. load_at s' (inbox_file sid rid m) =
       Loaded (JObj (dset (message_to_dict (send_message now sid a m refs)) ''_cursor'' (JStr c)))"
    "load_at s' (history_file sid m) =
       Loaded (JObj (dset (message_to_dict (send_message now sid a m refs)) ''_cursor'' (JStr c)))"
    by (rule sent_record [OF assms])
  let ?d = "dset (message_to_dict (send_message now sid a m refs)) ''_cursor'' (JStr c)"
  have "find_existing s' (map (\<lambda>r. inbox_file sid r m) rs @ [history_file sid m]) = Some (JObj ?d)"
    by (rule find_existing_hit) (use rec in auto)
  moreover have "same_payload sid a refs ?d = Some True"
    by (simp add: same_payload_sent attachments_eq_refl)
  moreover have "backfill now' sid m ?d rs s' = (0, s')"
    by (rule backfill_complete) (use rec(3) loaded_exists in blast)
  ultimately show ?thesis
    using rec(1,2,4) assms(2) by (simp add: send_def send_replay_def loaded_exists)
qed



text \<open>
  A replay looks for the message in the inboxes only, so it cannot tell an envelope that was never
  written from one that the recipient has already consumed.
\<close>

lemma replay_redelivers:
  assumes "send_checks sid a t = Inr ([to], refs)" "sn_msg_id a = Some m" "validate_msg_id m"
    and "\<not> exists_at t (inbox_file sid to m)"
    and "load_at t (history_file sid m) = Loaded (JObj d)"
    and "same_payload sid a refs d = Some True"
  shows "\<exists>t'. send now sufs sid a t = Some (Inr (Replayed 1), t') \<and>
    load_at t' (inbox_file sid to m) = Loaded (JObj d)"
proof -
  have hist: "exists_at (write_envelope now sid m d to t) (history_file sid m)"
    using loaded_exists [OF assms(5)]
    by (auto simp: exists_at_def node_at_write_envelope inbox_file_def dir_defs history_file_def)
  have "load_at (write_envelope now sid m d to t) (inbox_file sid to m) = Loaded (JObj d)"
    by (auto simp: load_at_File node_at_write_envelope)
  then show ?thesis
    using assms hist loaded_exists [OF assms(5)] by (simp add: send_def send_replay_def)
qed

section \<open>Reading the history\<close>

lemma set_sort_desc [simp]: "set (sort_desc k xs) = set xs"
  by (simp add: sort_desc_def)

lemma sorted_sort_desc: "sorted (rev (map k (sort_desc k xs)))"
  by (simp add: sort_desc_def rev_map)

lemma history_scan_member:
  "history_scan sid f s ns = Inr ms \<Longrightarrow> m \<in> set ms \<longleftrightarrow>
     (\<exists>n \<in> set ns. load_at s (history_dir sid @ [n]) = Loaded (JObj m) \<and>
        validate_message (JObj m) (Some sid) None (Some n) = Valid \<and> history_match f m)"
  by (induction ns arbitrary: ms)
     (auto split: loaded.splits json.splits verdict.splits sum.splits if_splits)

text \<open>
  \<open>read_history\<close> without a limit returns exactly the valid records of the session that match the
  filters, newest first by creation time and then by message id; a limit keeps a prefix of that
  list.
\<close>

theorem read_history_exact:
  assumes "read_history sid f s = Inr out"
  shows "(\<exists>all. out = (case hf_limit f of None \<Rightarrow> all | Some l \<Rightarrow> take (nat l) all) \<and>
      sorted (rev (map history_key all)) \<and>
      (\<forall>m. m \<in> set all \<longleftrightarrow> (\<exists>n \<in> set (list_messages (history_dir sid) s).
         load_at s (history_dir sid @ [n]) = Loaded (JObj m) \<and>
         validate_message (JObj m) (Some sid) None (Some n) = Valid \<and> history_match f m)))"
proof -
  obtain ms where ms: "history_scan sid f s (list_messages (history_dir sid) s) = Inr ms"
    and out: "out = (case hf_limit f of None \<Rightarrow> sort_desc history_key ms
        | Some l \<Rightarrow> take (nat l) (sort_desc history_key ms))"
    using assms by (auto simp: read_history_def Let_def split: if_splits option.splits sum.splits)
  show ?thesis
    by (intro exI [of _ "sort_desc history_key ms"] conjI)
       (simp_all add: out sorted_sort_desc history_scan_member [OF ms])
qed

section \<open>Witnesses\<close>

definition example_task :: send_args where
  "example_task = \<lparr>sn_from = ''boss'', sn_to = ''w1'', sn_subject = ''build'', sn_body = ''make it'',
     sn_kind = ''TASK'', sn_reply_to = [], sn_run_id = ''r1'', sn_request_id = ''q1'',
     sn_command_id = [], sn_trace_id = [], sn_causation_id = [], sn_attachments = [],
     sn_msg_id = Some ''m1'', sn_require_ack = True, sn_receipt_type = []\<rparr>"

definition example_sent :: fs where
  "example_sent = snd (the (send 1000 [] ''s1'' example_task example_session))"

lemma example_send: "send 1000 [] ''s1'' example_task example_session =
    Some (Inr (Sent ''m1''), example_sent)"
  by code_simp

theorem send_delivers_to_all_witness:
  "\<exists>m d. load_at example_sent (inbox_file ''s1'' ''w1'' m) = Loaded (JObj d) \<and>
     validate_message (JObj d) (Some ''s1'') None None = Valid"
proof -
  have to: "sn_to example_task = ''w1''" "sn_to example_task \<noteq> BROADCAST_TO" by code_simp+
  obtain m rs d where "set rs = {sn_to example_task}"
      "\<forall>rid \<in> set rs. load_at example_sent (inbox_file ''s1'' rid m) = Loaded (JObj d)"
      "validate_message (JObj d) (Some ''s1'') None None = Valid"
    using send_delivers_to_all [OF example_send] to(2) by fastforce
  then show ?thesis unfolding to(1) by blast
qed

theorem send_rejected_no_effect_witness:
  "send 1000 [] ''s1'' (example_task\<lparr>sn_to := ''zed''\<rparr>) example_session =
     Some (Inl (RecipientNotInRoster ''zed''), example_session)"
proof -
  have "\<exists>s'. send 1000 [] ''s1'' (example_task\<lparr>sn_to := ''zed''\<rparr>) example_session =
     Some (Inl (RecipientNotInRoster ''zed''), s')"
    by (rule exI [of _ example_session]) code_simp
  with send_rejected_no_effect show ?thesis by fastforce
qed



theorem read_history_exact_witness:
  "\<exists>out. read_history ''s1'' \<lparr>hf_since = None, hf_before = None, hf_limit = None, hf_from = None,
       hf_kind = None\<rparr> example_sent = Inr out \<and> length out = 1 \<and>
     sorted (rev (map history_key out))"
proof -
  let ?f = "\<lparr>hf_since = None, hf_before = None, hf_limit = None, hf_from = None, hf_kind = None\<rparr>"
  define out where "out = (case read_history ''s1'' ?f example_sent of Inr o' \<Rightarrow> o' | Inl _ \<Rightarrow> [])"
  have 1: "read_history ''s1'' ?f example_sent = Inr out" unfolding out_def by code_simp
  have "length out = 1" unfolding out_def by code_simp
  with 1 read_history_exact [OF 1] show ?thesis by auto
qed

end
