(* ===== verification/Store_Claims.thy ===== *)
theory Store_Claims
  imports Store_Send
begin

text \<open>
  \<open>mailbox/store.py\<close>, third part: two-phase consumption. \<open>read\<close> claims a message and moves it from
  \<open>inbox/\<close> to \<open>processing/\<close>; \<open>finalize\<close> archives it, \<open>release\<close> gives it back, \<open>renew_claim\<close> extends
  the lease, and \<open>recover_stale\<close> returns messages whose lease has run out to the inbox.

  The owner of a claim is part of a file name and is taken to contain no path separator. Each
  operation runs without interference; the theory \<open>Claim_Race\<close> interleaves readers. Under this
  reading the second look at a claim file, taken under the claim lock, sees what the first saw.
\<close>

section \<open>Claim files\<close>

definition claim_name :: "string \<Rightarrow> string \<Rightarrow> string" where
  "claim_name m owner = ''.claim-'' @ m @ ''-'' @ owner @ dot_json"

definition tmp_claim_name :: "string \<Rightarrow> string \<Rightarrow> string \<Rightarrow> string" where
  "tmp_claim_name m owner nonce = ''.tmp-claim-'' @ m @ ''-'' @ owner @ ''-'' @ nonce @ dot_json"

text \<open>\<open>sorted(processing.glob(f".claim-{msg_id}-*.json"))\<close>\<close>

definition claims_of :: "string \<Rightarrow> string \<Rightarrow> string \<Rightarrow> fs \<Rightarrow> string list" where
  "claims_of sid aid m s =
     sort (filter (glob_match (''.claim-'' @ m @ ''-'') dot_json) (children s (processing_dir sid aid)))"

definition claim_meta :: "instant \<Rightarrow> string \<Rightarrow> string \<Rightarrow> dict" where
  "claim_meta now owner m =
     [(''owner'', JStr owner), (''claimed_at'', JStr (iso_format now)), (''msg_id'', JStr m)]"

text \<open>
  The instant a claim was taken or last renewed; \<^term>\<open>None\<close> when it is missing, falsy, not a string
  or not a time stamp, in which case the claim is left alone.
\<close>

definition claimed_ts :: "dict \<Rightarrow> instant option" where
  "claimed_ts c = (case dget_or c ''claimed_at'' (JStr []) of JStr t \<Rightarrow> fromisoformat t | _ \<Rightarrow> None)"

text \<open>
  The message a claim file is for: its \<open>msg_id\<close> field, else what its name says, with the owner it
  records as the known suffix. A truthy \<open>msg_id\<close> that is no string is never written by the store
  and stands for an exception.
\<close>

definition claim_msg_id :: "string \<Rightarrow> dict \<Rightarrow> string option" where
  "claim_msg_id name c =
     (let v = dget_or c ''msg_id'' JNull in
      if truthy v then (if is_str v then Some (the_str v) else None)
      else
        (let st = stem name; ow = sget c ''owner''; suf = (if ow = [] then [] else ''-'' @ ow) in
         Some (if prefix ''.claim-'' st \<and> suf \<noteq> [] \<and> suffix suf st
               then take (length st - 7 - length suf) (drop 7 st) else st)))"

text \<open>The cutoff before which a claim counts as expired.\<close>

definition lease_cutoff :: "instant \<Rightarrow> instant" where
  "lease_cutoff now = now - LEASE_TIMEOUT_S + LEASE_CLOCK_TOLERANCE_S"

text \<open>\<open>os.replace\<close> of a file that exists; when it is missing nothing moves.\<close>

definition move :: "path \<Rightarrow> path \<Rightarrow> fs \<Rightarrow> fs" where
  "move src dst s = (case os_replace src dst s of Some s' \<Rightarrow> s' | None \<Rightarrow> s)"

section \<open>Reading\<close>

definition reap_expired_claim ::
  "instant \<Rightarrow> string \<Rightarrow> string \<Rightarrow> string \<Rightarrow> fs \<Rightarrow> (store_error + bool) \<times> fs" where
  "reap_expired_claim now sid aid name s =
     (case load_at s (processing_dir sid aid @ [name]) of
        Loaded (JObj c) \<Rightarrow> (case claimed_ts c of
            None \<Rightarrow> (Inr False, s)
          | Some ts \<Rightarrow>
              if lease_cutoff now \<le> ts then (Inr False, s)
              else (case claim_msg_id name c of
                  None \<Rightarrow> (Inl PyTypeError, s)
                | Some m \<Rightarrow>
                    (let msg_file = processing_dir sid aid @ [json_name m];
                         s1 = (if exists_at s msg_file
                               then move msg_file (inbox_dir sid aid @ [json_name m]) s else s) in
                     (Inr True, unlink (processing_dir sid aid @ [name]) s1))))
      | Loaded _ \<Rightarrow> (Inl PyTypeError, s)
      | _ \<Rightarrow> (Inr False, s))"

definition quarantine :: "string \<Rightarrow> string \<Rightarrow> string \<Rightarrow> fs \<Rightarrow> fs" where
  "quarantine sid aid n s =
     move (inbox_dir sid aid @ [n]) (corrupt_dir sid aid @ [n]) (mkdirs (corrupt_dir sid aid) s)"

text \<open>
  One turn of the loop of \<open>read\<close>: it returns, raises, or goes round again with the set of messages
  it has found contested.
\<close>

datatype read_outcome =
    ReadNone
  | ReadMsg dict
  | ReadRaise store_error
  | ReadAgain "string list"

definition pick_target ::
  "string list \<Rightarrow> string option \<Rightarrow> string list \<Rightarrow> string list \<Rightarrow> string option" where
  "pick_target files target skip contested = (case target of
       Some t \<Rightarrow> find (\<lambda>f. stem f = t) files
     | None \<Rightarrow> find (\<lambda>f. stem f \<notin> set skip \<and> stem f \<notin> set contested) files)"

text \<open>\<open>roster = ... if meta else set()\<close>\<close>

definition read_roster :: "string \<Rightarrow> fs \<Rightarrow> string list option" where
  "read_roster sid s = (case read_session sid s of
       Inr (Some meta) \<Rightarrow> if truthy meta then meta_roster meta else Some []
     | _ \<Rightarrow> Some [])"

text \<open>
  Publishing the claim and moving the message. The claim is first written to a fresh temporary
  name and then linked to its own name, which fails when that name exists.
\<close>

definition claim_and_move ::
  "instant \<Rightarrow> string \<Rightarrow> string \<Rightarrow> string \<Rightarrow> string \<Rightarrow> string list \<Rightarrow> string \<Rightarrow> dict \<Rightarrow> fs \<Rightarrow>
   read_outcome \<times> fs" where
  "claim_and_move now nonce sid aid owner contested f msg s =
     (let proc = processing_dir sid aid; s1 = mkdirs proc s;
          claim = proc @ [claim_name (stem f) owner];
          tmp = proc @ [tmp_claim_name (stem f) owner nonce] in
      if exists_at s1 tmp then (ReadAgain contested, unlink tmp s1)
      else if exists_at s1 claim then
        (case reap_expired_claim now sid aid (claim_name (stem f) owner) s1 of
           (Inl e, s2) \<Rightarrow> (ReadRaise e, s2)
         | (Inr True, s2) \<Rightarrow> (ReadAgain contested, s2)
         | (Inr False, s2) \<Rightarrow> (ReadAgain (stem f # contested), s2))
      else
        (ReadMsg msg, move (inbox_dir sid aid @ [f]) (proc @ [f])
           (write_doc now claim (JObj (claim_meta now owner (stem f))) s1)))"

definition read_step ::
  "instant \<Rightarrow> string \<Rightarrow> string \<Rightarrow> string \<Rightarrow> string \<Rightarrow> string list \<Rightarrow> string option \<Rightarrow> string list \<Rightarrow> fs \<Rightarrow>
   read_outcome \<times> fs" where
  "read_step now nonce sid aid owner skip target contested s =
     (case pick_target (list_messages (inbox_dir sid aid) s) target skip contested of
        None \<Rightarrow> (ReadNone, s)
      | Some f \<Rightarrow> (case load_at s (inbox_dir sid aid @ [f]) of
            Missing \<Rightarrow> (ReadAgain contested, s)
          | Undecodable \<Rightarrow> (ReadAgain contested, quarantine sid aid f s)
          | Loaded j \<Rightarrow> (case validate_message j (Some sid) (Some aid) (Some f) of
                RaisesTypeError \<Rightarrow> (ReadRaise PyTypeError, s)
              | Invalid _ \<Rightarrow> (ReadAgain contested, quarantine sid aid f s)
              | Valid \<Rightarrow> (case (j, read_roster sid s) of
                    (JObj msg, Some roster) \<Rightarrow>
                      if sget msg ''from'' \<notin> set roster
                      then (ReadAgain contested, quarantine sid aid f s)
                      else claim_and_move now nonce sid aid owner contested f msg s
                  | _ \<Rightarrow> (ReadRaise PyTypeError, s)))))"

text \<open>
  The loop, with the clock readings and nonces of its turns; \<^term>\<open>None\<close> when the given number of
  turns was not enough.
\<close>

fun read_loop ::
  "nat \<Rightarrow> (nat \<Rightarrow> instant) \<Rightarrow> (nat \<Rightarrow> string) \<Rightarrow> nat \<Rightarrow> string \<Rightarrow> string \<Rightarrow> string \<Rightarrow> string list \<Rightarrow>
   string option \<Rightarrow> string list \<Rightarrow> fs \<Rightarrow> ((store_error + dict option) \<times> fs) option" where
  "read_loop 0 clock nonce i sid aid owner skip target contested s = None"
| "read_loop (Suc fuel) clock nonce i sid aid owner skip target contested s =
     (case read_step (clock i) (nonce i) sid aid owner skip target contested s of
        (ReadNone, s') \<Rightarrow> Some (Inr None, s')
      | (ReadMsg m, s') \<Rightarrow> Some (Inr (Some m), s')
      | (ReadRaise e, s') \<Rightarrow> Some (Inl e, s')
      | (ReadAgain contested', s') \<Rightarrow>
          read_loop fuel clock nonce (Suc i) sid aid owner skip target contested' s')"

definition read ::
  "nat \<Rightarrow> (nat \<Rightarrow> instant) \<Rightarrow> (nat \<Rightarrow> string) \<Rightarrow> string \<Rightarrow> string \<Rightarrow> string \<Rightarrow> string list \<Rightarrow>
   string option \<Rightarrow> fs \<Rightarrow> ((store_error + dict option) \<times> fs) option" where
  "read fuel clock nonce sid aid owner skip target s = (case check_agent sid aid of
       Some e \<Rightarrow> Some (Inl e, s)
     | None \<Rightarrow> read_loop fuel clock nonce 0 sid aid owner skip
         (if target = Some [] then None else target) [] s)"

section \<open>Finalizing, releasing, renewing\<close>

text \<open>The checks on the message id and the agent that open each operation.\<close>

definition check_ids :: "string \<Rightarrow> string \<Rightarrow> string \<Rightarrow> store_error option" where
  "check_ids sid aid m =
     (if \<not> validate_msg_id m then Some (BadMsgId m) else check_agent sid aid)"

text \<open>\<open>json.loads(claim).get("owner") != owner\<close>\<close>

definition claim_owner_error :: "fs \<Rightarrow> path \<Rightarrow> string \<Rightarrow> store_error option" where
  "claim_owner_error s p owner = (case load_at s p of
       Loaded (JObj c) \<Rightarrow> if dget c ''owner'' \<noteq> Some (JStr owner) then Some OwnerMismatch else None
     | Loaded _ \<Rightarrow> Some PyTypeError
     | Undecodable \<Rightarrow> Some JsonError
     | Missing \<Rightarrow> Some PyOSError)"

definition processing_file :: "string \<Rightarrow> string \<Rightarrow> string \<Rightarrow> path" where
  "processing_file sid aid m = processing_dir sid aid @ [json_name m]"

definition archive_file :: "string \<Rightarrow> string \<Rightarrow> string \<Rightarrow> path" where
  "archive_file sid aid m = archive_dir sid aid @ [json_name m]"

definition finalize ::
  "string \<Rightarrow> string \<Rightarrow> string \<Rightarrow> string \<Rightarrow> fs \<Rightarrow> (store_error + unit) \<times> fs" where
  "finalize sid aid m owner s = (case check_ids sid aid m of
       Some e \<Rightarrow> (Inl e, s)
     | None \<Rightarrow> (case claims_of sid aid m s of
           [] \<Rightarrow> (Inl NoClaim, s)
         | c # c' # cs \<Rightarrow> (Inl MultipleClaims, s)
         | [c] \<Rightarrow>
             (let claim = processing_dir sid aid @ [c]; target = processing_file sid aid m in
              if \<not> exists_at s target then (Inl NotInProcessing, s)
              else case claim_owner_error s claim owner of
                Some e \<Rightarrow> (Inl e, s)
              | None \<Rightarrow> (Inr (), unlink claim
                  (move target (archive_file sid aid m) (mkdirs (archive_dir sid aid) s))))))"

definition foreign_claim :: "fs \<Rightarrow> path \<Rightarrow> string \<Rightarrow> store_error + bool" where
  "foreign_claim s p owner = (case load_at s p of
       Loaded (JObj c) \<Rightarrow> Inr (dget_or c ''owner'' (JStr []) \<noteq> JStr owner)
     | Loaded _ \<Rightarrow> Inl PyTypeError
     | _ \<Rightarrow> Inr (owner \<noteq> []))"

fun foreign_claims :: "fs \<Rightarrow> path \<Rightarrow> string \<Rightarrow> string list \<Rightarrow> store_error + bool" where
  "foreign_claims s proc owner [] = Inr False"
| "foreign_claims s proc owner (c # cs) = (case foreign_claim s (proc @ [c]) owner of
       Inl e \<Rightarrow> Inl e
     | Inr b \<Rightarrow> (case foreign_claims s proc owner cs of Inl e \<Rightarrow> Inl e | Inr b' \<Rightarrow> Inr (b \<or> b')))"

definition finalize_from_inbox ::
  "string \<Rightarrow> string \<Rightarrow> string \<Rightarrow> string \<Rightarrow> fs \<Rightarrow> (store_error + unit) \<times> fs" where
  "finalize_from_inbox sid aid m owner s = (case check_ids sid aid m of
       Some e \<Rightarrow> (Inl e, s)
     | None \<Rightarrow>
         (let inb = inbox_file sid aid m; proc = processing_file sid aid m;
              fin = (\<lambda>src. move src (archive_file sid aid m) (mkdirs (archive_dir sid aid) s)) in
          if exists_at s inb then (Inr (), fin inb)
          else if \<not> exists_at s proc then (Inl NotInInboxOrProcessing, s)
          else case foreign_claims s (processing_dir sid aid) owner (claims_of sid aid m s) of
            Inl e \<Rightarrow> (Inl e, s)
          | Inr True \<Rightarrow> (Inl ForeignClaim, s)
          | Inr False \<Rightarrow> (Inr (), fin proc)))"

definition release ::
  "string \<Rightarrow> string \<Rightarrow> string \<Rightarrow> string \<Rightarrow> fs \<Rightarrow> (store_error + unit) \<times> fs" where
  "release sid aid m owner s = (case check_ids sid aid m of
       Some e \<Rightarrow> (Inl e, s)
     | None \<Rightarrow>
         (let target = processing_file sid aid m; dst = inbox_file sid aid m in
          if \<not> exists_at s target then (Inl NotInProcessing, s)
          else case claims_of sid aid m s of
            c # c' # cs \<Rightarrow> (Inl MultipleClaims, s)
          | [] \<Rightarrow> (Inr (), move target dst s)
          | [c] \<Rightarrow> (case claim_owner_error s (processing_dir sid aid @ [c]) owner of
                Some e \<Rightarrow> (Inl e, s)
              | None \<Rightarrow> (Inr (), unlink (processing_dir sid aid @ [c]) (move target dst s)))))"

definition renew_claim ::
  "instant \<Rightarrow> string \<Rightarrow> string \<Rightarrow> string \<Rightarrow> string \<Rightarrow> fs \<Rightarrow> (store_error + bool) \<times> fs" where
  "renew_claim now sid aid m owner s = (case check_ids sid aid m of
       Some e \<Rightarrow> (Inl e, s)
     | None \<Rightarrow>
         if \<not> exists_at s (processing_file sid aid m) then (Inr False, s)
         else (case claims_of sid aid m s of
             [c] \<Rightarrow> (case load_at s (processing_dir sid aid @ [c]) of
                 Loaded (JObj d) \<Rightarrow>
                   if dget d ''owner'' \<noteq> Some (JStr owner) then (Inr False, s)
                   else (Inr True, atomic_write now
                     (processing_dir sid aid @ [''.tmp-renew-'' @ m @ ''-'' @ owner @ dot_json])
                     (processing_dir sid aid @ [c])
                     (JObj (dset (dset d ''claimed_at'' (JStr (iso_format now)))
                        ''renewed_at'' (JStr (iso_format now)))) s)
               | Loaded _ \<Rightarrow> (Inl PyTypeError, s)
               | _ \<Rightarrow> (Inr False, s))
           | _ \<Rightarrow> (Inr False, s)))"

section \<open>Recovering stale claims\<close>

definition orphan_age_gate :: "instant \<Rightarrow> instant" where
  "orphan_age_gate now = now - 30"

text \<open>One claim file of the scan: the number of messages it returned to the inbox.\<close>

definition recover_one ::
  "instant \<Rightarrow> string \<Rightarrow> string \<Rightarrow> string \<Rightarrow> fs \<Rightarrow> (store_error + nat) \<times> fs" where
  "recover_one now sid aid name s =
     (let cf = processing_dir sid aid @ [name] in
      case load_at s cf of
        Loaded (JObj c) \<Rightarrow> (case claimed_ts c of
            None \<Rightarrow> (Inr 0, s)
          | Some ts \<Rightarrow> (case claim_msg_id name c of
                None \<Rightarrow> (Inl PyTypeError, s)
              | Some m \<Rightarrow>
                  (let msg_file = processing_file sid aid m in
                   if \<not> exists_at s msg_file then
                     (Inr 0, if orphan_age_gate now \<le> ts then s else unlink cf s)
                   else if lease_cutoff now \<le> ts then (Inr 0, s)
                   else (Inr 1, unlink cf (move msg_file (inbox_file sid aid m) s)))))
      | Loaded _ \<Rightarrow> (Inl PyTypeError, s)
      | _ \<Rightarrow> (Inr 0, s))"

fun recover_claims ::
  "instant \<Rightarrow> string \<Rightarrow> string \<Rightarrow> string list \<Rightarrow> fs \<Rightarrow> (store_error + nat) \<times> fs" where
  "recover_claims now sid aid [] s = (Inr 0, s)"
| "recover_claims now sid aid (c # cs) s = (case recover_one now sid aid c s of
       (Inl e, s') \<Rightarrow> (Inl e, s')
     | (Inr k, s') \<Rightarrow> (case recover_claims now sid aid cs s' of
           (Inl e, s'') \<Rightarrow> (Inl e, s'')
         | (Inr n, s'') \<Rightarrow> (Inr (k + n), s'')))"

definition sweep_tmp_claims :: "instant \<Rightarrow> string \<Rightarrow> string \<Rightarrow> fs \<Rightarrow> fs" where
  "sweep_tmp_claims now sid aid s =
     fold (\<lambda>n s. let p = processing_dir sid aid @ [n] in
         if is_file_at s p \<and> mtime_at s p < orphan_age_gate now then unlink p s else s)
       (sort (filter (glob_match ''.tmp-claim-'' dot_json) (children s (processing_dir sid aid)))) s"

text \<open>\<^term>\<open>Inr None\<close> is the answer that there is no \<open>processing/\<close> directory.\<close>

definition recover_stale ::
  "instant \<Rightarrow> string \<Rightarrow> string \<Rightarrow> fs \<Rightarrow> (store_error + nat option) \<times> fs" where
  "recover_stale now sid aid s = (case check_agent sid aid of
       Some e \<Rightarrow> (Inl e, s)
     | None \<Rightarrow>
         if \<not> exists_at s (processing_dir sid aid) then (Inr None, s)
         else (case recover_claims now sid aid
               (sort (filter (glob_match ''.claim-'' dot_json) (children s (processing_dir sid aid)))) s of
             (Inl e, s1) \<Rightarrow> (Inl e, s1)
           | (Inr n, s1) \<Rightarrow> (Inr (Some n), sweep_tmp_claims now sid aid s1)))"

section \<open>No operation loses a message\<close>

text \<open>Names of message files; the bookkeeping files of the store start with a dot.\<close>

definition visible :: "string \<Rightarrow> bool" where
  "visible n \<longleftrightarrow> n \<noteq> [] \<and> hd n \<noteq> CHR ''.''"

text \<open>A file of that name is in one of the four folders of the agent.\<close>

definition stored :: "string \<Rightarrow> string \<Rightarrow> string \<Rightarrow> fs \<Rightarrow> bool" where
  "stored sid aid n s \<longleftrightarrow> (\<exists>sub \<in> {''inbox'', ''processing'', ''archive'', ''_corrupt''}.
     exists_at s (agent_subdir sid aid sub @ [n]))"

lemmas box_defs = inbox_dir_def processing_dir_def archive_dir_def corrupt_dir_def

lemma box_dirs_distinct [simp]:
  "inbox_dir sid aid \<noteq> processing_dir sid aid" "processing_dir sid aid \<noteq> inbox_dir sid aid"
  "inbox_dir sid aid \<noteq> archive_dir sid aid" "archive_dir sid aid \<noteq> inbox_dir sid aid"
  "inbox_dir sid aid \<noteq> corrupt_dir sid aid" "corrupt_dir sid aid \<noteq> inbox_dir sid aid"
  "processing_dir sid aid \<noteq> archive_dir sid aid" "archive_dir sid aid \<noteq> processing_dir sid aid"
  "processing_dir sid aid \<noteq> corrupt_dir sid aid" "corrupt_dir sid aid \<noteq> processing_dir sid aid"
  by (simp_all add: dir_defs)

lemma not_prefix_box [simp]:
  "\<not> prefix (inbox_dir sid aid @ [n]) (agent_subdir sid aid sub)"
  "\<not> prefix (processing_dir sid aid @ [n]) (agent_subdir sid aid sub)"
  by (auto simp: dir_defs dest: prefix_length_le)

lemma storedI:
  "exists_at s (inbox_dir sid aid @ [n]) \<Longrightarrow> stored sid aid n s"
  "exists_at s (processing_dir sid aid @ [n]) \<Longrightarrow> stored sid aid n s"
  "exists_at s (archive_dir sid aid @ [n]) \<Longrightarrow> stored sid aid n s"
  "exists_at s (corrupt_dir sid aid @ [n]) \<Longrightarrow> stored sid aid n s"
  by (auto simp: stored_def box_defs)

lemma stored_mono:
  assumes "stored sid aid n s" and "\<And>sub. exists_at s (agent_subdir sid aid sub @ [n]) \<Longrightarrow>
    exists_at s' (agent_subdir sid aid sub @ [n])"
  shows "stored sid aid n s'"
  using assms by (auto simp: stored_def)

lemma node_at_move:
  "node_at (move src dst s) x =
     (case node_at s src of None \<Rightarrow> node_at s x
      | Some n \<Rightarrow> if x = dst then Some n else if x = src then None else node_at s x)"
  by (auto simp: move_def os_replace_def tree.get_move split: option.splits)

lemma stored_move:
  assumes "stored sid aid n s"
    and "src = agent_subdir sid aid sub @ [f]" "dst = agent_subdir sid aid sub' @ [f]"
    and "sub' \<in> {''inbox'', ''processing'', ''archive'', ''_corrupt''}"
  shows "stored sid aid n (move src dst s)"
proof (cases "n = f \<and> exists_at s src")
  case True
  then have "exists_at (move src dst s) (agent_subdir sid aid sub' @ [n])"
    using assms(3) by (auto simp: exists_at_def node_at_move)
  with assms(4) show ?thesis by (auto simp: stored_def)
next
  case False
  show ?thesis
    by (rule stored_mono [OF assms(1)])
       (use False assms(2,3) in \<open>auto simp: exists_at_def node_at_move split: option.splits\<close>)
qed

lemma stored_unlink:
  "stored sid aid n s \<Longrightarrow> last p \<noteq> n \<Longrightarrow> stored sid aid n (unlink p s)"
  by (erule stored_mono) (auto simp: exists_at_def fs_simps)

lemma stored_mkdirs: "stored sid aid n s \<Longrightarrow> stored sid aid n (mkdirs p s)"
  by (erule stored_mono) (auto simp: exists_at_def fs_simps)

lemma stored_write_doc: "stored sid aid n s \<Longrightarrow> stored sid aid n (write_doc t p j s)"
  by (erule stored_mono) (auto simp: exists_at_def fs_simps)

lemma stored_atomic_write:
  "stored sid aid n s \<Longrightarrow> last tmp \<noteq> n \<Longrightarrow> stored sid aid n (atomic_write t tmp dst j s)"
  unfolding atomic_write_def by (intro stored_write_doc stored_unlink)

lemma claims_of_dot: "c \<in> set (claims_of sid aid m s) \<Longrightarrow> \<not> visible c"
  by (auto simp: claims_of_def glob_match_def visible_def prefix_def)

lemma claim_name_dot: "\<not> visible (claim_name m owner)" "\<not> visible (tmp_claim_name m owner nonce)"
  by (simp_all add: claim_name_def tmp_claim_name_def visible_def)

lemma not_visible_neq: "\<not> visible c \<Longrightarrow> visible n \<Longrightarrow> c \<noteq> n"
  by auto

lemma stored_quarantine: "stored sid aid n s \<Longrightarrow> stored sid aid n (quarantine sid aid f s)"
  unfolding quarantine_def
  by (rule stored_move [where sub = "''inbox''" and sub' = "''_corrupt''"])
     (auto simp: box_defs stored_mkdirs)

lemma stored_reap:
  assumes "reap_expired_claim now sid aid c s = (r, s')" "stored sid aid n s" "visible n" "\<not> visible c"
  shows "stored sid aid n s'"
proof -
  have "stored sid aid n (unlink (processing_dir sid aid @ [c])
      (move (processing_dir sid aid @ [x]) (inbox_dir sid aid @ [x]) s))" for x
    by (intro stored_unlink stored_move [where sub = "''processing''" and sub' = "''inbox''" and f = x])
       (use assms in \<open>auto simp: box_defs\<close>)
  moreover have "stored sid aid n (unlink (processing_dir sid aid @ [c]) s)"
    by (intro stored_unlink) (use assms in auto)
  ultimately show ?thesis
    using assms(1,2)
    by (auto simp: reap_expired_claim_def Let_def split: loaded.splits json.splits option.splits if_splits)
qed

lemma stored_claim_and_move:
  assumes "claim_and_move now nonce sid aid owner contested f msg s = (r, s')"
    and "stored sid aid n s" "visible n"
  shows "stored sid aid n s'"
proof -
  let ?p = "processing_dir sid aid" and ?s1 = "mkdirs (processing_dir sid aid) s"
  have s1: "stored sid aid n ?s1" using assms(2) by (rule stored_mkdirs)
  have "stored sid aid n (move (inbox_dir sid aid @ [f]) (?p @ [f])
      (write_doc now (?p @ [claim_name (stem f) owner]) j ?s1))" for j
    by (rule stored_move [where sub = "''inbox''" and sub' = "''processing''"])
       (auto simp: box_defs intro: stored_write_doc s1 [unfolded box_defs])
  moreover have "stored sid aid n (unlink (?p @ [tmp_claim_name (stem f) owner nonce]) ?s1)"
    by (rule stored_unlink [OF s1]) (use claim_name_dot assms(3) in auto)
  moreover have "stored sid aid n s2"
    if "reap_expired_claim now sid aid (claim_name (stem f) owner) ?s1 = (r2, s2)" for r2 s2
    by (rule stored_reap [OF that s1 assms(3) claim_name_dot(1)])
  ultimately show ?thesis
    using assms(1)
    by (auto simp: claim_and_move_def Let_def split: if_splits prod.splits sum.splits bool.splits)
qed

lemma stored_read_step:
  assumes "read_step now nonce sid aid owner skip target contested s = (r, s')"
    and "stored sid aid n s" "visible n"
  shows "stored sid aid n s'"
  using assms stored_quarantine [OF assms(2)] stored_claim_and_move [OF _ assms(2,3)]
  by (auto simp: read_step_def split: option.splits loaded.splits verdict.splits json.splits if_splits)

lemma stored_read_loop:
  "read_loop fuel clock nonce i sid aid owner skip target contested s = Some (r, s') \<Longrightarrow>
   stored sid aid n s \<Longrightarrow> visible n \<Longrightarrow> stored sid aid n s'"
proof (induction fuel arbitrary: i contested s)
  case (Suc fuel)
  obtain o1 s1 where st: "read_step (clock i) (nonce i) sid aid owner skip target contested s = (o1, s1)"
    by fastforce
  have "stored sid aid n s1" by (rule stored_read_step [OF st Suc.prems(2,3)])
  with Suc st show ?case by (cases o1) auto
qed simp

lemma stored_finalize:
  assumes "finalize sid aid m owner s = (r, s')" "stored sid aid n s" "visible n"
  shows "stored sid aid n s'"
proof -
  have "stored sid aid n (unlink (processing_dir sid aid @ [c]) (move (processing_file sid aid m)
      (archive_file sid aid m) (mkdirs (archive_dir sid aid) s)))"
    if "c \<in> set (claims_of sid aid m s)" for c
    by (intro stored_unlink stored_move [where sub = "''processing''" and sub' = "''archive''"
          and f = "json_name m"] stored_mkdirs)
       (use assms(2,3) claims_of_dot [OF that] in
          \<open>auto simp: box_defs processing_file_def archive_file_def\<close>)
  with assms(1,2) show ?thesis
    by (auto simp: finalize_def Let_def split: option.splits list.splits if_splits)
qed

lemma stored_finalize_from_inbox:
  assumes "finalize_from_inbox sid aid m owner s = (r, s')" "stored sid aid n s"
  shows "stored sid aid n s'"
proof -
  have "stored sid aid n (move (agent_subdir sid aid sub @ [json_name m])
      (archive_file sid aid m) (mkdirs (archive_dir sid aid) s))" for sub
    by (rule stored_move [where sub = sub and sub' = "''archive''"])
       (use assms(2) in \<open>auto simp: box_defs archive_file_def stored_mkdirs\<close>)
  from this [of "''inbox''"] this [of "''processing''"] assms show ?thesis
    by (auto simp: finalize_from_inbox_def Let_def inbox_file_def processing_file_def box_defs
        split: option.splits if_splits sum.splits bool.splits)
qed

lemma stored_release:
  assumes "release sid aid m owner s = (r, s')" "stored sid aid n s" "visible n"
  shows "stored sid aid n s'"
proof -
  have mv: "stored sid aid n (move (processing_file sid aid m) (inbox_file sid aid m) s)"
    by (rule stored_move [where sub = "''processing''" and sub' = "''inbox''"])
       (use assms(2) in \<open>auto simp: box_defs inbox_file_def processing_file_def\<close>)
  moreover have "stored sid aid n (unlink (processing_dir sid aid @ [c])
      (move (processing_file sid aid m) (inbox_file sid aid m) s))"
    if "c \<in> set (claims_of sid aid m s)" for c
    by (rule stored_unlink [OF mv]) (use assms(3) claims_of_dot [OF that] in auto)
  ultimately show ?thesis
    using assms(1,2) by (auto simp: release_def Let_def split: option.splits list.splits if_splits)
qed

lemma stored_renew:
  assumes "renew_claim now sid aid m owner s = (r, s')" "stored sid aid n s" "visible n"
  shows "stored sid aid n s'"
proof -
  have "stored sid aid n (atomic_write now
      (processing_dir sid aid @ [''.tmp-renew-'' @ m @ ''-'' @ owner @ dot_json]) p j s)" for p j
    by (rule stored_atomic_write [OF assms(2)]) (use assms(3) in \<open>auto simp: visible_def\<close>)
  with assms(1,2) show ?thesis
    by (auto simp: renew_claim_def split: option.splits list.splits loaded.splits json.splits if_splits)
qed

lemma stored_recover_one:
  assumes "recover_one now sid aid c s = (r, s')" "stored sid aid n s" "visible n" "\<not> visible c"
  shows "stored sid aid n s'"
proof -
  have "stored sid aid n (unlink (processing_dir sid aid @ [c])
      (move (processing_file sid aid m) (inbox_file sid aid m) s))" for m
    by (intro stored_unlink stored_move [where sub = "''processing''" and sub' = "''inbox''"
          and f = "json_name m"])
       (use assms in \<open>auto simp: box_defs inbox_file_def processing_file_def\<close>)
  moreover have "stored sid aid n (unlink (processing_dir sid aid @ [c]) s)"
    by (intro stored_unlink) (use assms in auto)
  ultimately show ?thesis
    using assms(1,2)
    by (auto simp: recover_one_def Let_def split: loaded.splits json.splits option.splits if_splits)
qed

lemma stored_recover_claims:
  "recover_claims now sid aid cs s = (r, s') \<Longrightarrow> stored sid aid n s \<Longrightarrow> visible n \<Longrightarrow>
   (\<forall>c \<in> set cs. \<not> visible c) \<Longrightarrow> stored sid aid n s'"
proof (induction cs arbitrary: r s)
  case (Cons c cs)
  obtain r1 s1 where 1: "recover_one now sid aid c s = (r1, s1)" by fastforce
  have "stored sid aid n s1" by (rule stored_recover_one [OF 1]) (use Cons.prems in auto)
  with Cons 1 show ?case by (auto split: sum.splits prod.splits)
qed simp

lemma glob_dot: "glob_match pre suf n \<Longrightarrow> pre = CHR ''.'' # p \<Longrightarrow> \<not> visible n"
  by (auto simp: glob_match_def visible_def prefix_def)

lemma stored_sweep:
  assumes "stored sid aid n s" "visible n"
  shows "stored sid aid n (sweep_tmp_claims now sid aid s)"
proof -
  have "stored sid aid n (fold (\<lambda>c s. let p = processing_dir sid aid @ [c] in
         if is_file_at s p \<and> mtime_at s p < orphan_age_gate now then unlink p s else s) cs s)"
    if "\<forall>c \<in> set cs. \<not> visible c" for cs
    using that assms(1)
  proof (induction cs arbitrary: s)
    case (Cons c cs)
    then have "stored sid aid n (unlink (processing_dir sid aid @ [c]) s)"
      using assms(2) by (intro stored_unlink) auto
    with Cons show ?case by (auto simp: Let_def)
  qed simp
  from this [of "sort (filter (glob_match ''.tmp-claim-'' dot_json) (children s (processing_dir sid aid)))"]
  show ?thesis by (auto simp: sweep_tmp_claims_def dest: glob_dot)
qed

lemma stored_recover_stale:
  assumes "recover_stale now sid aid s = (r, s')" "stored sid aid n s" "visible n"
  shows "stored sid aid n s'"
  using assms
  by (auto simp: recover_stale_def split: option.splits if_splits prod.splits sum.splits
      dest!: stored_recover_claims [OF _ assms(2,3)] dest: glob_dot intro: stored_sweep)

text \<open>Sending and session changes keep every visible file of every folder.\<close>

lemma exists_write_envelopes:
  "exists_at s x \<Longrightarrow> visible (last x) \<Longrightarrow> exists_at (fold (write_envelope now sid m d) rs s) x"
  by (auto simp: exists_at_def node_at_write_envelopes visible_def tmp_name_def)

lemma exists_backfill:
  "exists_at s x \<Longrightarrow> visible (last x) \<Longrightarrow> exists_at (snd (backfill now sid m d rs s)) x"
proof (induction rs arbitrary: s)
  case (Cons r rs)
  have "exists_at (write_envelope now sid m d r s) x"
    using exists_write_envelopes [of s x now sid m d "[r]"] Cons.prems by simp
  with Cons show ?case by (simp add: case_prod_beta)
qed simp

lemma exists_append_history:
  "append_history now sid d s = (r, s') \<Longrightarrow> exists_at s x \<Longrightarrow> 3 < length x \<Longrightarrow> exists_at s' x"
  by (simp add: exists_at_def append_history_long_path)

lemma exists_advance_cursor:
  "advance_cursor now sid s = (r, s') \<Longrightarrow> exists_at s x \<Longrightarrow> 3 < length x \<Longrightarrow> exists_at s' x"
  by (simp add: exists_at_def advance_cursor_long_path)

lemma exists_send_new:
  assumes "send_new now sid a m rs refs s = (r, s')" "exists_at s x" "3 < length x" "visible (last x)"
  shows "exists_at s' x"
proof (cases "validate_message (JObj (message_to_dict (send_message now sid a m refs))) (Some sid) None None")
  case Valid
  with assms(1) show ?thesis
    by (auto simp: send_new_def Let_def split: prod.splits sum.splits
        intro!: assms exists_write_envelopes dest!: exists_advance_cursor exists_append_history)
qed (use assms in \<open>auto simp: send_new_def Let_def\<close>)

lemma exists_send_replay:
  assumes "send_replay now sid a m rs refs j s = (r, s')" "exists_at s x" "3 < length x"
    "visible (last x)"
  shows "exists_at s' x"
proof -
  have "exists_at s1 x" if "backfill now sid m d rs s = (n, s1)" for d n s1
    using exists_backfill [OF assms(2,4), of now sid m d rs] that by simp
  with assms exists_append_history show ?thesis
    by (fastforce simp: send_replay_def split: json.splits option.splits bool.splits prod.splits
        sum.splits if_splits)
qed

lemma exists_send:
  assumes "send now sufs sid a s = Some (r, s')" "exists_at s x" "3 < length x" "visible (last x)"
  shows "exists_at s' x"
  using assms exists_send_new [OF _ assms(2-4)] exists_send_replay [OF _ assms(2-4)]
  by (auto simp: send_def split: sum.splits option.splits if_splits)

text \<open>
  The operations on the folders of one agent, each with arbitrary arguments; \<open>send\<close> may also write
  to other agents of the session.
\<close>

inductive mailbox_step :: "string \<Rightarrow> string \<Rightarrow> fs \<Rightarrow> fs \<Rightarrow> bool" for sid aid where
  step_send: "send now sufs sid a s = Some (r, s') \<Longrightarrow> mailbox_step sid aid s s'"
| step_read: "read fuel clock nonce sid aid owner skip target s = Some (r, s') \<Longrightarrow>
    mailbox_step sid aid s s'"
| step_finalize: "finalize sid aid m owner s = (r, s') \<Longrightarrow> mailbox_step sid aid s s'"
| step_finalize_from_inbox: "finalize_from_inbox sid aid m owner s = (r, s') \<Longrightarrow>
    mailbox_step sid aid s s'"
| step_release: "release sid aid m owner s = (r, s') \<Longrightarrow> mailbox_step sid aid s s'"
| step_renew: "renew_claim now sid aid m owner s = (r, s') \<Longrightarrow> mailbox_step sid aid s s'"
| step_recover: "recover_stale now sid aid s = (r, s') \<Longrightarrow> mailbox_step sid aid s s'"

lemma stored_read:
  "read fuel clock nonce sid aid owner skip target s = Some (r, s') \<Longrightarrow> stored sid aid n s \<Longrightarrow>
   visible n \<Longrightarrow> stored sid aid n s'"
  by (auto simp: read_def split: option.splits dest: stored_read_loop)

lemma stored_step:
  "mailbox_step sid aid s s' \<Longrightarrow> stored sid aid n s \<Longrightarrow> visible n \<Longrightarrow> stored sid aid n s'"
proof (induction rule: mailbox_step.induct)
  case (step_send now sufs a s r s')
  show ?case
    by (rule stored_mono [OF step_send(2)])
       (rule exists_send [OF step_send(1)], use step_send(3) in \<open>auto simp: dir_defs\<close>)
qed (blast intro: stored_read stored_finalize stored_finalize_from_inbox stored_release stored_renew
    stored_recover_stale)+



section \<open>What a successful read leaves behind\<close>

lemma claim_name_longer: "claim_name (stem f) owner \<noteq> f" "tmp_claim_name (stem f) owner nonce \<noteq> f"
proof -
  have "length f \<le> length (stem f) + 5" by (auto simp: stem_def)
  then have "length f < length (claim_name (stem f) owner)"
    "length f < length (tmp_claim_name (stem f) owner nonce)"
    by (simp_all add: claim_name_def tmp_claim_name_def dot_json_def)
  then show "claim_name (stem f) owner \<noteq> f" "tmp_claim_name (stem f) owner nonce \<noteq> f" by auto
qed

lemma valid_filename:
  assumes "validate_message (JObj msg) esid eagent (Some f) = Valid"
  shows "f = json_name (sget msg ''msg_id'')"
proof -
  have "(sget msg ''msg_id'' @ dot_json \<noteq> f, MsgIdMismatch (sget msg ''msg_id'') f)
      \<in> set (expectation_checks msg esid eagent (Some f))"
    by (simp add: expectation_checks_def Let_def)
  from valid_message_check [OF assms] this message_checks_members(2)
  show ?thesis by (fastforce simp: json_name_def)
qed

lemma read_step_msg:
  assumes "read_step now nonce sid aid owner skip target contested s = (ReadMsg msg, s')"
  obtains f roster where
    "pick_target (list_messages (inbox_dir sid aid) s) target skip contested = Some f"
    "load_at s (inbox_dir sid aid @ [f]) = Loaded (JObj msg)"
    "validate_message (JObj msg) (Some sid) (Some aid) (Some f) = Valid"
    "read_roster sid s = Some roster" "sget msg ''from'' \<in> set roster"
    "\<not> exists_at (mkdirs (processing_dir sid aid) s) (processing_dir sid aid @ [claim_name (stem f) owner])"
    "s' = move (inbox_dir sid aid @ [f]) (processing_dir sid aid @ [f])
       (write_doc now (processing_dir sid aid @ [claim_name (stem f) owner])
         (JObj (claim_meta now owner (stem f))) (mkdirs (processing_dir sid aid) s))"
proof -
  obtain f where f: "pick_target (list_messages (inbox_dir sid aid) s) target skip contested = Some f"
    using assms by (auto simp: read_step_def split: option.splits)
  obtain j where j: "load_at s (inbox_dir sid aid @ [f]) = Loaded j"
    using assms f by (auto simp: read_step_def split: loaded.splits)
  have v: "validate_message j (Some sid) (Some aid) (Some f) = Valid"
    using assms f j by (auto simp: read_step_def split: verdict.splits)
  then obtain msg' where msg': "j = JObj msg'" by (auto elim: validate_message_ValidE)
  obtain roster where r: "read_roster sid s = Some roster" "sget msg' ''from'' \<in> set roster"
    and cm: "claim_and_move now nonce sid aid owner contested f msg' s = (ReadMsg msg, s')"
    using assms f j v msg' by (auto simp: read_step_def split: option.splits if_splits)
  from cm have "msg' = msg" and
    "\<not> exists_at (mkdirs (processing_dir sid aid) s) (processing_dir sid aid @ [claim_name (stem f) owner])"
    "s' = move (inbox_dir sid aid @ [f]) (processing_dir sid aid @ [f])
       (write_doc now (processing_dir sid aid @ [claim_name (stem f) owner])
         (JObj (claim_meta now owner (stem f))) (mkdirs (processing_dir sid aid) s))"
    by (auto simp: claim_and_move_def Let_def split: if_splits prod.splits sum.splits bool.splits)
  with that f j v msg' r show thesis by blast
qed

text \<open>The loop returns a message from its last turn.\<close>

lemma read_loop_msg:
  "read_loop fuel clock nonce i sid aid owner skip target contested s = Some (Inr (Some msg), s') \<Longrightarrow>
   \<exists>k contested' s1. read_step (clock k) (nonce k) sid aid owner skip target contested' s1 =
     (ReadMsg msg, s')"
proof (induction fuel arbitrary: i contested s)
  case (Suc fuel)
  obtain o1 s1 where st: "read_step (clock i) (nonce i) sid aid owner skip target contested s = (o1, s1)"
    by fastforce
  show ?case
  proof (cases o1)
    case (ReadMsg m)
    with Suc.prems st show ?thesis by auto
  next
    case (ReadAgain c)
    with Suc.prems st Suc.IH show ?thesis by auto
  qed (use Suc.prems st in auto)
qed simp

lemma read_roster_cong:
  "load_at s' (session_file sid) = load_at s (session_file sid) \<Longrightarrow> read_roster sid s' = read_roster sid s"
  by (simp only: read_roster_def read_session_def)

lemma read_result:
  assumes "read fuel clock nonce sid aid owner skip target s = Some (Inr (Some msg), s')"
  shows "\<exists>k roster. let f = json_name (sget msg ''msg_id'') in
    load_at s' (processing_dir sid aid @ [f]) = Loaded (JObj msg) \<and>
    \<not> exists_at s' (inbox_dir sid aid @ [f]) \<and>
    load_at s' (processing_dir sid aid @ [claim_name (stem f) owner]) =
      Loaded (JObj (claim_meta (clock k) owner (stem f))) \<and>
    validate_message (JObj msg) (Some sid) (Some aid) (Some f) = Valid \<and>
    read_roster sid s' = Some roster \<and> sget msg ''from'' \<in> set roster"
proof -
  obtain k c s1 where
    "read_step (clock k) (nonce k) sid aid owner skip (if target = Some [] then None else target) c s1 =
       (ReadMsg msg, s')"
    using assms by (auto simp: read_def split: option.splits dest: read_loop_msg)
  then show ?thesis
  proof (rule read_step_msg)
    fix f roster
    let ?p = "processing_dir sid aid" and ?i = "inbox_dir sid aid"
    let ?s2 = "write_doc (clock k) (?p @ [claim_name (stem f) owner])
         (JObj (claim_meta (clock k) owner (stem f))) (mkdirs ?p s1)"
    assume j: "load_at s1 (?i @ [f]) = Loaded (JObj msg)"
      and v: "validate_message (JObj msg) (Some sid) (Some aid) (Some f) = Valid"
      and r: "read_roster sid s1 = Some roster" "sget msg ''from'' \<in> set roster"
      and s': "s' = move (?i @ [f]) (?p @ [f]) ?s2"
    have f: "json_name (sget msg ''msg_id'') = f" using valid_filename [OF v] by simp
    obtain t where t: "node_at s1 (?i @ [f]) = Some (File (Doc (JObj msg)) t)"
      using j by (auto simp: load_at_File)
    then have src: "node_at ?s2 (?i @ [f]) = Some (File (Doc (JObj msg)) t)"
      by (simp add: fs_simps)
    have node: "node_at s' x = (if x = ?p @ [f] then Some (File (Doc (JObj msg)) t)
        else if x = ?i @ [f] then None else node_at ?s2 x)" for x
      by (simp add: s' node_at_move src)
    have "node_at s1 (session_file sid) \<noteq> None"
    proof
      assume "node_at s1 (session_file sid) = None"
      then have "load_at s1 (session_file sid) = Missing" by (simp add: load_at_def)
      then have "read_roster sid s1 = Some []"
        by (cases "check_session sid") (simp_all add: read_roster_def read_session_def)
      with r show False by simp
    qed
    moreover have "session_file sid \<noteq> ?p @ [x]" "session_file sid \<noteq> ?i @ [x]" for x
      by (simp_all add: dir_defs)
    ultimately have "load_at s' (session_file sid) = load_at s1 (session_file sid)"
      by (intro load_at_cong) (simp add: node fs_simps)
    from read_roster_cong [OF this] r(1) have "read_roster sid s' = Some roster" by simp
    moreover have "load_at s' (?p @ [claim_name (stem f) owner]) =
        Loaded (JObj (claim_meta (clock k) owner (stem f)))"
      using claim_name_longer(1) by (simp add: load_at_def node fs_simps dir_defs)
    moreover have "load_at s' (?p @ [f]) = Loaded (JObj msg)" by (simp add: load_at_def node)
    moreover have "\<not> exists_at s' (?i @ [f])" by (simp add: exists_at_def node)
    ultimately show ?thesis
      unfolding Let_def f using v r(2) by blast
  qed
qed

text \<open>
  C3. What \<open>read\<close> hands out is claimed, moved and checked. When it returns a message, the message
  file is in \<open>processing/\<close> with that content and no longer in the inbox, a claim file in the
  reader's name records a clock reading of the call as the start of the lease, the message is valid
  for this session, recipient and file name, and its sender is on the session roster.
\<close>

theorem read_claims_message:
  assumes "read fuel clock nonce sid aid owner skip target s = Some (Inr (Some msg), s')"
  shows "\<exists>k roster. let f = json_name (sget msg ''msg_id'') in
    load_at s' (processing_dir sid aid @ [f]) = Loaded (JObj msg) \<and>
    \<not> exists_at s' (inbox_dir sid aid @ [f]) \<and>
    load_at s' (processing_dir sid aid @ [claim_name (stem f) owner]) =
      Loaded (JObj (claim_meta (clock k) owner (stem f))) \<and>
    validate_message (JObj msg) (Some sid) (Some aid) (Some f) = Valid \<and>
    read_roster sid s' = Some roster \<and> sget msg ''from'' \<in> set roster"
  using assms by (rule read_result)

section \<open>The read loop ends\<close>

text \<open>
  Every turn that goes round again either takes a message out of the candidates of the inbox or
  removes an entry from \<open>processing/\<close>; a reaped claim may bring one message back.
\<close>

definition candidates :: "string \<Rightarrow> string \<Rightarrow> string list \<Rightarrow> fs \<Rightarrow> string set" where
  "candidates sid aid contested s =
     {n. is_message_name n \<and> is_file_at s (inbox_dir sid aid @ [n]) \<and> stem n \<notin> set contested}"

definition held :: "string \<Rightarrow> string \<Rightarrow> fs \<Rightarrow> string set" where
  "held sid aid s = {n. exists_at s (processing_dir sid aid @ [n])}"

definition read_work :: "string \<Rightarrow> string \<Rightarrow> string list \<Rightarrow> fs \<Rightarrow> nat" where
  "read_work sid aid contested s =
     card (candidates sid aid contested s) + 2 * card (held sid aid s)"

lemma candidates_children: "candidates sid aid contested s \<subseteq> set (children s (inbox_dir sid aid))"
  by (auto simp: candidates_def in_children is_file_exists)

lemma held_children: "held sid aid s = set (children s (processing_dir sid aid))"
  by (auto simp: held_def in_children)

lemma finite_candidates [simp]: "finite (candidates sid aid contested s)"
  by (rule finite_subset [OF candidates_children]) simp

lemma finite_held [simp]: "finite (held sid aid s)"
  by (simp add: held_children)

lemma read_work_bound:
  "read_work sid aid contested s
     \<le> length (children s (inbox_dir sid aid)) + 2 * length (children s (processing_dir sid aid))"
proof -
  have "card (candidates sid aid contested s) \<le> card (set (children s (inbox_dir sid aid)))"
    by (rule card_mono) (simp_all add: candidates_children)
  also have "\<dots> \<le> length (children s (inbox_dir sid aid))" by (rule card_length)
  finally show ?thesis
    using card_length [of "children s (processing_dir sid aid)"]
    by (simp add: read_work_def held_children)
qed

lemma candidates_cong:
  "(\<And>n. node_at s' (inbox_dir sid aid @ [n]) = node_at s (inbox_dir sid aid @ [n])) \<Longrightarrow>
   candidates sid aid c s' = candidates sid aid c s"
  by (simp add: candidates_def is_file_at_def)

lemma held_cong:
  "(\<And>n. node_at s' (processing_dir sid aid @ [n]) = node_at s (processing_dir sid aid @ [n])) \<Longrightarrow>
   held sid aid s' = held sid aid s"
  by (simp add: held_def exists_at_def)

lemma box_mkdirs [simp]:
  "candidates sid aid c (mkdirs (agent_subdir sid aid sub) s) = candidates sid aid c s"
  "held sid aid (mkdirs (agent_subdir sid aid sub) s) = held sid aid s"
  by (rule candidates_cong held_cong, simp add: fs_simps)+

lemma read_work_quarantine:
  assumes "f \<in> candidates sid aid c s"
  shows "read_work sid aid c (quarantine sid aid f s) < read_work sid aid c s"
proof -
  let ?s1 = "mkdirs (corrupt_dir sid aid) s"
  obtain n where n: "node_at ?s1 (inbox_dir sid aid @ [f]) = Some n"
    using assms by (auto simp: candidates_def is_file_at_def fs_simps split: option.splits)
  have "held sid aid (quarantine sid aid f s) = held sid aid ?s1"
    by (rule held_cong) (simp add: quarantine_def node_at_move n)
  moreover have "candidates sid aid c (quarantine sid aid f s) = candidates sid aid c ?s1 - {f}"
    by (auto simp: candidates_def is_file_at_def quarantine_def node_at_move n)
  ultimately show ?thesis
    using assms card_Diff1_less [OF finite_candidates assms]
    by (simp add: read_work_def corrupt_dir_def)
qed

lemma card_insert_mono: "A \<subseteq> insert x B \<Longrightarrow> finite B \<Longrightarrow> card A \<le> Suc (card B)"
  using card_mono [of "insert x B" A] card_insert_le_m1 [of "Suc (card B)" B x]
  by (simp add: card_insert_if split: if_splits)

lemma exists_unlink: "exists_at (unlink p s) x \<longleftrightarrow> x \<noteq> p \<and> exists_at s x"
  by (simp add: exists_at_def fs_simps)

lemma is_file_unlink: "is_file_at (unlink p s) x \<longleftrightarrow> x \<noteq> p \<and> is_file_at s x"
  by (simp add: is_file_at_def fs_simps)

lemma exists_move: "exists_at (move a b s) x \<Longrightarrow> x = b \<or> exists_at s x"
  by (auto simp: exists_at_def node_at_move split: option.splits if_splits)

lemma is_file_move: "is_file_at (move a b s) x \<Longrightarrow> x = b \<or> is_file_at s x"
  by (auto simp: is_file_at_def node_at_move split: option.splits if_splits)

lemma reap_True:
  assumes "reap_expired_claim now sid aid name s = (Inr True, s')"
  shows "\<exists>m. s' = unlink (processing_dir sid aid @ [name])
      (move (processing_dir sid aid @ [json_name m]) (inbox_dir sid aid @ [json_name m]) s) \<or>
    s' = unlink (processing_dir sid aid @ [name]) s"
  using assms
  by (auto simp: reap_expired_claim_def Let_def split: loaded.splits json.splits option.splits if_splits)

lemma read_work_reap:
  assumes "reap_expired_claim now sid aid name s = (Inr True, s')"
    and "exists_at s (processing_dir sid aid @ [name])"
  shows "read_work sid aid c s' < read_work sid aid c s"
proof -
  let ?p = "processing_dir sid aid" and ?i = "inbox_dir sid aid"
  obtain m where s': "s' = unlink (?p @ [name]) (move (?p @ [json_name m]) (?i @ [json_name m]) s) \<or>
      s' = unlink (?p @ [name]) s"
    using reap_True [OF assms(1)] by blast
  have "held sid aid s' \<subseteq> held sid aid s - {name}"
    using s' by (auto simp: held_def exists_unlink dest!: exists_move)
  then have "card (held sid aid s') \<le> card (held sid aid s - {name})"
    by (rule card_mono [rotated]) simp
  moreover have "card (held sid aid s - {name}) < card (held sid aid s)"
    using assms(2) by (intro card_Diff1_less finite_held) (simp add: held_def)
  moreover have "candidates sid aid c s' \<subseteq> insert (json_name m) (candidates sid aid c s)"
    using s' by (auto simp: candidates_def is_file_unlink dest!: is_file_move)
  then have "card (candidates sid aid c s') \<le> Suc (card (candidates sid aid c s))"
    by (rule card_insert_mono) simp
  ultimately show ?thesis by (simp add: read_work_def)
qed

lemma read_step_again_cases:
  assumes "read_step now nonce sid aid owner skip target c s = (ReadAgain c', s')"
    and "pick_target (list_messages (inbox_dir sid aid) s) target skip c = Some f"
    and "load_at s (inbox_dir sid aid @ [f]) \<noteq> Missing"
  shows "c' = c \<and> s' = quarantine sid aid f s \<or>
    (\<exists>msg. claim_and_move now nonce sid aid owner c f msg s = (ReadAgain c', s'))"
  using assms
  by (auto simp: read_step_def split: loaded.splits verdict.splits json.splits option.splits if_splits)

lemma claim_and_move_again_cases:
  assumes "claim_and_move now nonce sid aid owner c f msg s = (ReadAgain c', s')"
  obtains
    (tmp) "exists_at (mkdirs (processing_dir sid aid) s)
        (processing_dir sid aid @ [tmp_claim_name (stem f) owner nonce])" "c' = c"
      "s' = unlink (processing_dir sid aid @ [tmp_claim_name (stem f) owner nonce])
         (mkdirs (processing_dir sid aid) s)"
  | (reaped) "exists_at (mkdirs (processing_dir sid aid) s)
        (processing_dir sid aid @ [claim_name (stem f) owner])" "c' = c"
      "reap_expired_claim now sid aid (claim_name (stem f) owner) (mkdirs (processing_dir sid aid) s) =
         (Inr True, s')"
  | (contested) "c' = stem f # c"
      "reap_expired_claim now sid aid (claim_name (stem f) owner) (mkdirs (processing_dir sid aid) s) =
         (Inr False, s')"
  using assms
  by (auto simp: claim_and_move_def Let_def split: if_splits prod.splits sum.splits bool.splits)

lemma read_step_again:
  assumes "read_step now nonce sid aid owner skip None c s = (ReadAgain c', s')"
  shows "read_work sid aid c' s' < read_work sid aid c s"
proof -
  let ?p = "processing_dir sid aid" and ?i = "inbox_dir sid aid"
  obtain f where f: "pick_target (list_messages ?i s) None skip c = Some f"
    using assms by (auto simp: read_step_def split: option.splits)
  then have fin: "f \<in> set (list_messages ?i s)" "stem f \<notin> set c"
    by (auto simp: pick_target_def dest: find_SomeD)
  then have cand: "f \<in> candidates sid aid c s"
    by (auto simp: candidates_def set_list_messages split: if_splits)
  then have "load_at s (?i @ [f]) \<noteq> Missing" by (simp add: load_at_Missing candidates_def)
  from read_step_again_cases [OF assms f this]
  consider "c' = c" "s' = quarantine sid aid f s"
    | msg where "claim_and_move now nonce sid aid owner c f msg s = (ReadAgain c', s')"
    by blast
  then show ?thesis
  proof cases
    case 1
    then show ?thesis using read_work_quarantine [OF cand] by simp
  next
    case (2 msg)
    let ?s1 = "mkdirs ?p s" and ?t = "tmp_claim_name (stem f) owner nonce"
      and ?cl = "claim_name (stem f) owner"
    have s1: "read_work sid aid x ?s1 = read_work sid aid x s" for x
      by (simp add: read_work_def processing_dir_def)
    from 2 show ?thesis
    proof (cases rule: claim_and_move_again_cases)
      case tmp
      have "held sid aid s' = held sid aid ?s1 - {?t}"
        by (auto simp: tmp held_def exists_at_def fs_simps)
      moreover have "candidates sid aid c s' = candidates sid aid c ?s1"
        by (rule candidates_cong) (simp add: tmp fs_simps)
      moreover have "card (held sid aid ?s1 - {?t}) < card (held sid aid ?s1)"
        using tmp(1) by (intro card_Diff1_less finite_held) (simp add: held_def)
      ultimately have "read_work sid aid c s' < read_work sid aid c ?s1" by (simp add: read_work_def)
      with s1 tmp show ?thesis by simp
    next
      case reaped
      with read_work_reap [OF reaped(3,1)] s1 show ?thesis by simp
    next
      case contested
      have "s' = ?s1" using contested(2)
        by (auto simp: reap_expired_claim_def Let_def split: loaded.splits json.splits option.splits
            if_splits)
      have "candidates sid aid c' s' \<subseteq> candidates sid aid c ?s1 - {f}"
        using contested(1) \<open>s' = ?s1\<close> by (auto simp: candidates_def)
      then have "card (candidates sid aid c' s') \<le> card (candidates sid aid c ?s1 - {f})"
        by (rule card_mono [rotated]) simp
      also have "\<dots> < card (candidates sid aid c ?s1)"
        using cand by (intro card_Diff1_less) (simp_all add: processing_dir_def)
      finally show ?thesis using \<open>s' = ?s1\<close> s1 by (simp add: read_work_def processing_dir_def)
    qed
  qed
qed

lemma read_loop_terminates:
  "read_work sid aid c s < fuel \<Longrightarrow>
   \<exists>r s'. read_loop fuel clock nonce i sid aid owner skip None c s = Some (r, s')"
proof (induction fuel arbitrary: i c s)
  case (Suc fuel)
  obtain o1 s1 where st: "read_step (clock i) (nonce i) sid aid owner skip None c s = (o1, s1)"
    by fastforce
  show ?case
  proof (cases o1)
    case (ReadAgain c')
    with st have "read_work sid aid c' s1 < read_work sid aid c s" by (auto intro: read_step_again)
    with Suc.prems have "read_work sid aid c' s1 < fuel" by simp
    from Suc.IH [OF this] show ?thesis using st ReadAgain by simp
  qed (use st in auto)
qed simp

text \<open>
  C6. An untargeted \<open>read\<close> always returns. Whatever the clock says and whatever claims, leftovers
  and invalid files it meets, it needs at most one turn more than there are entries in the inbox
  plus twice those in \<open>processing/\<close>.
\<close>

theorem read_terminates:
  assumes "length (children s (inbox_dir sid aid)) + 2 * length (children s (processing_dir sid aid)) < fuel"
  shows "\<exists>r s'. read fuel clock nonce sid aid owner skip None s = Some (r, s')"
proof (cases "check_agent sid aid")
  case None
  have "read_work sid aid [] s < fuel" using assms read_work_bound by (rule le_less_trans [rotated])
  from read_loop_terminates [OF this] None show ?thesis by (simp add: read_def)
qed (simp add: read_def)

text \<open>
  A targeted \<open>read\<close> does not consult the contested set: when the reader's own earlier claim on the
  target is still fresh and the message is still in the inbox, no number of turns is enough until
  the lease runs out, so the call spins for as long as the clock stays within the lease.
\<close>

theorem targeted_read_spins:
  assumes "t \<noteq> []" "check_agent sid aid = None"
    and "find (\<lambda>f. stem f = t) (list_messages (inbox_dir sid aid) s) = Some f"
    and "load_at s (inbox_dir sid aid @ [f]) = Loaded (JObj msg)"
    and "validate_message (JObj msg) (Some sid) (Some aid) (Some f) = Valid"
    and "read_roster sid s = Some roster" "sget msg ''from'' \<in> set roster"
    and "mkdirs (processing_dir sid aid) s = s"
    and "load_at s (processing_dir sid aid @ [claim_name (stem f) owner]) = Loaded (JObj c)"
    and "claimed_ts c = Some ts" "\<forall>i. lease_cutoff (clock i) \<le> ts"
    and "\<forall>i. \<not> exists_at s (processing_dir sid aid @ [tmp_claim_name (stem f) owner (nonce i)])"
  shows "read fuel clock nonce sid aid owner skip (Some t) s = None"
proof -
  have ex: "exists_at s (processing_dir sid aid @ [claim_name (stem f) owner])"
    using assms(9) by (rule loaded_exists)
  have "read_step (clock i) (nonce i) sid aid owner skip (Some t) ct s = (ReadAgain (stem f # ct), s)"
    for i ct
    using assms(3-12) ex
    by (simp add: read_step_def pick_target_def claim_and_move_def Let_def reap_expired_claim_def)
  then have "read_loop fuel clock nonce i sid aid owner skip (Some t) ct s = None" for i ct
    by (induction fuel arbitrary: i ct) simp_all
  with assms(1,2) show ?thesis by (simp add: read_def)
qed

section \<open>Witnesses\<close>

definition example_doc :: dict where
  "example_doc =
     [(''session_id'', JStr ''s1''), (''from'', JStr ''boss''), (''to'', JStr ''w1''),
      (''subject'', JStr ''build''), (''body'', JStr ''make it''), (''kind'', JStr ''NOTICE''),
      (''msg_id'', JStr ''m1''), (''created_at'', JStr ''1970-01-01T00:16:40Z'')]"

text \<open>A session with one agent; the message and a claim by \<open>bob\<close> are placed as asked.\<close>

definition example_box :: "string option \<Rightarrow> bool \<Rightarrow> fs" where
  "example_box sub claimed =
     [([], Dir), ([''s1''], Dir), ([''s1'', ''session.json''],
        File (Doc (JObj [(''manager'', JStr ''boss''), (''agents'', JArr [JStr ''w1''])])) 0),
      ([''s1'', ''w1''], Dir), ([''s1'', ''w1'', ''inbox''], Dir),
      ([''s1'', ''w1'', ''processing''], Dir)] @
     (case sub of None \<Rightarrow> []
      | Some d \<Rightarrow> [([''s1'', ''w1'', d, ''m1.json''], File (Doc (JObj example_doc)) 1000)]) @
     (if claimed then [([''s1'', ''w1'', ''processing'', ''.claim-m1-bob.json''],
        File (Doc (JObj (claim_meta 1000 ''bob'' ''m1''))) 1000)] else [])"

definition example_read :: fs where
  "example_read = snd (the (read 9 (\<lambda>_. 1000) (\<lambda>_. ''7'') ''s1'' ''w1'' ''bob'' [] None
     (example_box (Some ''inbox'') False)))"

lemma example_read_eq:
  "read 9 (\<lambda>_. 1000) (\<lambda>_. ''7'') ''s1'' ''w1'' ''bob'' [] None (example_box (Some ''inbox'') False) =
     Some (Inr (Some example_doc), example_read)"
  by code_simp

lemma example_doc_id: "sget example_doc ''msg_id'' = ''m1''"
  by code_simp

theorem read_claims_message_witness:
  "load_at example_read (processing_dir ''s1'' ''w1'' @ [''m1.json'']) = Loaded (JObj example_doc)"
  using read_claims_message [OF example_read_eq]
  by (auto simp: Let_def example_doc_id json_name_def dot_json_def)

theorem read_terminates_witness:
  "\<exists>r s'. read 9 (\<lambda>_. 1000) (\<lambda>_. ''7'') ''s1'' ''w1'' ''bob'' [] None (example_box (Some ''inbox'') False) = Some (r, s')"
  by (rule read_terminates) code_simp

theorem targeted_read_spins_witness:
  "\<forall>fuel. read fuel (\<lambda>_. 1500) (\<lambda>_. ''7'') ''s1'' ''w1'' ''bob'' [] (Some ''m1'')
     (example_box (Some ''inbox'') True) = None"
proof
  fix fuel
  let ?s = "example_box (Some ''inbox'') True"
  show "read fuel (\<lambda>_. 1500) (\<lambda>_. ''7'') ''s1'' ''w1'' ''bob'' [] (Some ''m1'') ?s = None"
  proof (rule targeted_read_spins [where f = "''m1.json''" and msg = example_doc
        and roster = "[''boss'', ''w1'']" and c = "claim_meta 1000 ''bob'' ''m1''" and ts = 1000])
    show "find (\<lambda>f. stem f = ''m1'') (list_messages (inbox_dir ''s1'' ''w1'') ?s) = Some ''m1.json''"
      by code_simp
    show "\<forall>i. lease_cutoff 1500 \<le> 1000"
      by (simp add: lease_cutoff_def LEASE_TIMEOUT_S_def LEASE_CLOCK_TOLERANCE_S_def)
    show "mkdirs (processing_dir ''s1'' ''w1'') ?s = ?s" by code_simp
    have "\<not> exists_at ?s (processing_dir ''s1'' ''w1'' @ [tmp_claim_name (stem ''m1.json'') ''bob'' ''7''])"
      by code_simp
    then show "\<forall>i. \<not> exists_at ?s (processing_dir ''s1'' ''w1'' @
        [tmp_claim_name (stem ''m1.json'') ''bob'' ''7''])" by simp
  qed code_simp+
qed

end
