(* ===== verification/Claim_Race.thy ===== *)
theory Claim_Race
  imports Store_Claims
begin

text \<open>
  Concurrent readers of one inbox. \<open>read\<close> takes no lock while it claims a message: it lists the inbox
  and reads the file, publishes its claim with \<open>os.link\<close>, and moves the message with \<open>os.replace\<close>,
  each of which is atomic, and other readers run in between. Here those system calls are the
  steps, in any order across readers, together with finalizing, releasing, crashes and arriving
  messages, all within the lease. The last section relates the steps to the sequential
  definitions of \<open>Store_Claims\<close>.
\<close>

section \<open>State and steps\<close>

datatype pc = Idle | Chosen string | Published string | Returned string

record race =
  rc_inbox :: "string set"
  rc_processing :: "string set"
  rc_archive :: "string set"
  rc_claims :: "string set"
  rc_pc :: "nat \<Rightarrow> pc"

text \<open>Readers are numbered; \<open>own\<close> gives the owner name each of them uses, not necessarily distinct.\<close>

definition goto :: "nat \<Rightarrow> pc \<Rightarrow> race \<Rightarrow> race" where
  "goto r p s = s\<lparr>rc_pc := (rc_pc s)(r := p)\<rparr>"

inductive race_step :: "(nat \<Rightarrow> string) \<Rightarrow> race \<Rightarrow> race \<Rightarrow> bool" for own where
  arrive: "m \<notin> rc_inbox s \<union> rc_processing s \<union> rc_archive s \<Longrightarrow>
    race_step own s (s\<lparr>rc_inbox := insert m (rc_inbox s)\<rparr>)"
| choose: "rc_pc s r = Idle \<Longrightarrow> m \<in> rc_inbox s \<Longrightarrow> race_step own s (goto r (Chosen m) s)"
| publish: "rc_pc s r = Chosen m \<Longrightarrow> claim_name m (own r) \<notin> rc_claims s \<Longrightarrow>
    race_step own s (goto r (Published m) (s\<lparr>rc_claims := insert (claim_name m (own r)) (rc_claims s)\<rparr>))"
| contested: "rc_pc s r = Chosen m \<Longrightarrow> claim_name m (own r) \<in> rc_claims s \<Longrightarrow>
    race_step own s (goto r Idle s)"
| moved: "rc_pc s r = Published m \<Longrightarrow> m \<in> rc_inbox s \<Longrightarrow>
    race_step own s (goto r (Returned m) (s\<lparr>rc_inbox := rc_inbox s - {m},
      rc_processing := insert m (rc_processing s)\<rparr>))"
| vanished: "rc_pc s r = Published m \<Longrightarrow> m \<notin> rc_inbox s \<Longrightarrow>
    race_step own s (goto r Idle (s\<lparr>rc_claims := rc_claims s - {claim_name m (own r)}\<rparr>))"
| finalized: "rc_pc s r = Returned m \<Longrightarrow>
    race_step own s (goto r Idle (s\<lparr>rc_processing := rc_processing s - {m},
      rc_archive := insert m (rc_archive s), rc_claims := rc_claims s - {claim_name m (own r)}\<rparr>))"
| released: "rc_pc s r = Returned m \<Longrightarrow>
    race_step own s (goto r Idle (s\<lparr>rc_processing := rc_processing s - {m},
      rc_inbox := insert m (rc_inbox s), rc_claims := rc_claims s - {claim_name m (own r)}\<rparr>))"
| crash: "race_step own s (goto r Idle s)"

inductive_cases race_stepE: "race_step own s s'"

definition race_init :: race where
  "race_init = \<lparr>rc_inbox = {}, rc_processing = {}, rc_archive = {}, rc_claims = {}, rc_pc = (\<lambda>_. Idle)\<rparr>"

definition race_reachable :: "(nat \<Rightarrow> string) \<Rightarrow> race \<Rightarrow> bool" where
  "race_reachable own s \<longleftrightarrow> (race_step own)\<^sup>*\<^sup>* race_init s"

section \<open>Exclusive hand-out\<close>

text \<open>The message a reader has published a claim for.\<close>

fun claiming :: "pc \<Rightarrow> string option" where
  "claiming (Published m) = Some m"
| "claiming (Returned m) = Some m"
| "claiming _ = None"

definition race_inv :: "(nat \<Rightarrow> string) \<Rightarrow> race \<Rightarrow> bool" where
  "race_inv own s \<longleftrightarrow>
     (\<forall>r m. claiming (rc_pc s r) = Some m \<longrightarrow> claim_name m (own r) \<in> rc_claims s) \<and>
     (\<forall>r r' m m'. claiming (rc_pc s r) = Some m \<longrightarrow> claiming (rc_pc s r') = Some m' \<longrightarrow> r \<noteq> r' \<longrightarrow>
        claim_name m (own r) \<noteq> claim_name m' (own r')) \<and>
     (\<forall>r m. rc_pc s r = Returned m \<longrightarrow> m \<in> rc_processing s \<and> m \<notin> rc_inbox s) \<and>
     (\<forall>r r' m. rc_pc s r = Returned m \<longrightarrow> rc_pc s r' = Returned m \<longrightarrow> r = r') \<and>
     rc_inbox s \<inter> rc_processing s = {} \<and> rc_archive s \<inter> rc_processing s = {} \<and>
     rc_inbox s \<inter> rc_archive s = {}"

lemma race_inv_init: "race_inv own race_init"
  by (simp add: race_inv_def race_init_def)

lemma claiming_upd: "claiming ((f(r := p)) r') = (if r' = r then claiming p else claiming (f r'))"
  by simp

lemma race_inv_step:
  assumes "race_step own s s'" "race_inv own s"
  shows "race_inv own s'"
  using assms
proof (cases rule: race_step.cases)
  case (publish r m)
  have "claim_name m' (own r') \<noteq> claim_name m (own r)" if "claiming (rc_pc s r') = Some m'" for r' m'
    using assms(2) publish that unfolding race_inv_def by metis
  then show ?thesis using assms(2) publish
    unfolding race_inv_def goto_def by (auto simp: claiming_upd split: if_splits)
next
  case (moved r m)
  have c: "claiming (rc_pc s r) = Some m" using moved by simp
  have not: "rc_pc s r' \<noteq> Returned m" for r' using assms(2) moved unfolding race_inv_def by blast
  show ?thesis using assms(2) moved c not
    unfolding race_inv_def goto_def by (auto simp: claiming_upd split: if_splits)
next
  case (vanished r m)
  have c: "claiming (rc_pc s r) = Some m" using vanished by simp
  show ?thesis using assms(2) vanished c
    unfolding race_inv_def goto_def by (auto simp: claiming_upd split: if_splits)
next
  case (finalized r m)
  have c: "claiming (rc_pc s r) = Some m" using finalized by simp
  show ?thesis using assms(2) finalized c
    unfolding race_inv_def goto_def by (auto simp: claiming_upd split: if_splits)
next
  case (released r m)
  have c: "claiming (rc_pc s r) = Some m" using released by simp
  show ?thesis using assms(2) released c
    unfolding race_inv_def goto_def by (auto simp: claiming_upd split: if_splits)
qed (use assms(2) in \<open>auto simp: race_inv_def goto_def claiming_upd split: if_splits\<close>)

lemma race_reachable_inv: "race_reachable own s \<Longrightarrow> race_inv own s"
  unfolding race_reachable_def
  by (induction rule: rtranclp_induct) (auto intro: race_inv_init race_inv_step)


section \<open>The sequential definitions take these steps\<close>

text \<open>What an agent's folders look like to the readers.\<close>

definition race_of :: "string \<Rightarrow> string \<Rightarrow> (nat \<Rightarrow> pc) \<Rightarrow> fs \<Rightarrow> race" where
  "race_of sid aid p s = \<lparr>
     rc_inbox = {m. visible m \<and> exists_at s (inbox_file sid aid m)},
     rc_processing = {m. visible m \<and> exists_at s (processing_file sid aid m)},
     rc_archive = {m. visible m \<and> exists_at s (archive_file sid aid m)},
     rc_claims = {c. prefix ''.claim-'' c \<and> exists_at s (processing_dir sid aid @ [c])},
     rc_pc = p\<rparr>"

lemma claim_name_prefix: "prefix ''.claim-'' (claim_name m owner)"
  by (simp add: claim_name_def)

lemma prefix_claim_not_visible: "prefix ''.claim-'' c \<Longrightarrow> \<not> visible c"
  by (auto simp: visible_def prefix_def)

lemma mkdirs_box_node:
  "node_at (mkdirs (processing_dir sid aid) s) (agent_subdir sid aid sub @ [n]) =
     node_at s (agent_subdir sid aid sub @ [n])"
  by (auto simp: fs_simps dir_defs dest: prefix_length_le)

text \<open>
  C11. The sequential \<open>read\<close> implements the protocol: a turn that returns a message is, seen through the
  folders, exactly the two steps of publishing the claim and moving the message, by a reader that
  had chosen it.
\<close>

theorem read_step_refines_race:
  assumes "read_step now nonce sid aid (own r) skip target contested s = (ReadMsg msg, s')"
    and "m = sget msg ''msg_id''" "visible m" "p r = Chosen m"
  shows "\<exists>s1. race_step own (race_of sid aid p s) s1 \<and>
    race_step own s1 (race_of sid aid (p(r := Returned m)) s')"
proof -
  let ?P = "processing_dir sid aid" and ?I = "inbox_dir sid aid" and ?c = "claim_name m (own r)"
  let ?s1 = "mkdirs ?P s"
  from assms(1) show ?thesis
  proof (rule read_step_msg)
    fix f roster
    assume f: "load_at s (?I @ [f]) = Loaded (JObj msg)"
      and v: "validate_message (JObj msg) (Some sid) (Some aid) (Some f) = Valid"
      and nc: "\<not> exists_at ?s1 (?P @ [claim_name (stem f) (own r)])"
      and s': "s' = move (?I @ [f]) (?P @ [f]) (write_doc now (?P @ [claim_name (stem f) (own r)])
         (JObj (claim_meta now (own r) (stem f))) ?s1)"
    have fm: "f = json_name m" using valid_filename [OF v] assms(2) by simp
    have st: "stem f = m" using fm assms(3) by (simp add: json_name_def visible_def)
    let ?s2 = "write_doc now (?P @ [?c]) (JObj (claim_meta now (own r) m)) ?s1"
    have box: "node_at ?s1 (?I @ [n]) = node_at s (?I @ [n])"
      "node_at ?s1 (?P @ [n]) = node_at s (?P @ [n])"
      "node_at ?s1 (archive_dir sid aid @ [n]) = node_at s (archive_dir sid aid @ [n])" for n
      unfolding box_defs by (rule mkdirs_box_node [unfolded box_defs])+
    obtain t where t: "node_at s (?I @ [f]) = Some t" using loaded_exists [OF f] by (auto simp: exists_at_def)
    then have src: "node_at ?s2 (?I @ [f]) = Some t" by (simp add: fs_simps box)
    have cf: "?c \<noteq> f" using claim_name_longer(1) [of f "own r"] st by simp
    have node: "node_at s' x = (if x = ?P @ [f] then Some t else if x = ?I @ [f] then None
        else node_at ?s2 x)" for x
      by (simp add: s' st node_at_move src)
    have s2: "node_at ?s2 x = (if x = ?P @ [?c] then Some (File (Doc (JObj (claim_meta now (own r) m))) now)
        else node_at ?s1 x)" for x by (simp add: fs_simps)
    have "visible f" using assms(3) fm by (simp add: json_name_def visible_def)
    then have notc: "prefix ''.claim-'' c \<Longrightarrow> c \<noteq> f" for c
      using prefix_claim_not_visible by auto
    have notj: "visible x \<Longrightarrow> json_name x \<noteq> ?c" for x
    proof -
      assume "visible x"
      then have "visible (json_name x)" by (simp add: json_name_def visible_def)
      with claim_name_dot(1) show ?thesis by metis
    qed
    let ?a = "race_of sid aid p s"
    let ?b = "goto r (Published m) (?a\<lparr>rc_claims := insert ?c (rc_claims ?a)\<rparr>)"
    have "race_step own ?a ?b"
      by (rule race_step.publish) (use assms(4) nc in \<open>simp_all add: race_of_def st exists_at_def box\<close>)
    moreover have "m \<in> rc_inbox ?b"
      using assms(3) t fm by (simp add: goto_def race_of_def inbox_file_def exists_at_def)
    then have "race_step own ?b (goto r (Returned m) (?b\<lparr>rc_inbox := rc_inbox ?b - {m},
        rc_processing := insert m (rc_processing ?b)\<rparr>))"
      by (intro race_step.moved) (simp_all add: goto_def)
    moreover have "goto r (Returned m) (?b\<lparr>rc_inbox := rc_inbox ?b - {m},
        rc_processing := insert m (rc_processing ?b)\<rparr>) = race_of sid aid (p(r := Returned m)) s'"
      using assms(3) cf notc notj claim_name_prefix
      by (auto simp: goto_def race_of_def inbox_file_def processing_file_def archive_file_def
          exists_at_def node s2 box fm)
    ultimately show ?thesis by (intro exI [of _ ?b]) simp
  qed
qed

section \<open>Witnesses\<close>

definition example_race :: race where
  "example_race = \<lparr>rc_inbox = {}, rc_processing = {''m1''}, rc_archive = {},
     rc_claims = {claim_name ''m1'' ''bob''}, rc_pc = (\<lambda>_. Idle)(0 := Returned ''m1'')\<rparr>"

lemma example_race_reachable: "race_reachable (\<lambda>_. ''bob'') example_race"
proof -
  let ?own = "\<lambda>_::nat. ''bob''"
  let ?s1 = "race_init\<lparr>rc_inbox := {''m1''}\<rparr>"
  let ?s2 = "goto 0 (Chosen ''m1'') ?s1"
  let ?s3 = "goto 0 (Published ''m1'') (?s2\<lparr>rc_claims := {claim_name ''m1'' ''bob''}\<rparr>)"
  have 1: "race_step ?own race_init ?s1"
    using race_step.arrive [of "''m1''" race_init ?own] by (simp add: race_init_def)
  have 2: "race_step ?own ?s1 ?s2" by (rule race_step.choose) (simp_all add: race_init_def)
  have 3: "race_step ?own ?s2 ?s3"
    using race_step.publish [of ?s2 0 "''m1''" ?own] by (simp add: goto_def race_init_def)
  have 4: "race_step ?own ?s3 example_race"
    using race_step.moved [of ?s3 0 "''m1''" ?own]
    by (simp add: goto_def race_init_def example_race_def)
  from 1 2 3 4 show ?thesis unfolding race_reachable_def
    by (meson rtranclp.rtrancl_into_rtrancl rtranclp.rtrancl_refl)
qed


theorem read_step_refines_race_witness:
  "\<exists>s1 s'. race_step (\<lambda>_. ''bob'') (race_of ''s1'' ''w1'' ((\<lambda>_. Idle)(0 := Chosen ''m1''))
       (example_box (Some ''inbox'') False)) s1 \<and>
     race_step (\<lambda>_. ''bob'') s1 (race_of ''s1'' ''w1'' ((\<lambda>_. Idle)(0 := Returned ''m1'')) s')"
proof -
  let ?r = "read_step 1000 ''7'' ''s1'' ''w1'' ''bob'' [] None [] (example_box (Some ''inbox'') False)"
  have "fst ?r = ReadMsg example_doc" by code_simp
  then have r: "?r = (ReadMsg example_doc, snd ?r)" by (simp add: prod_eq_iff)
  have v: "visible ''m1''" by code_simp
  show ?thesis
    using read_step_refines_race [where own = "\<lambda>_. ''bob''" and r = 0 and p = "(\<lambda>_. Idle)(0 := Chosen ''m1'')"
        and m = "''m1''", OF r _ v] example_doc_id by auto
qed

end
