(* ===== verification/Request_Ledger.thy ===== *)
theory Request_Ledger
  imports Store_Session
begin

text \<open>
  \<open>RequestLedger\<close> of \<open>mailbox/store.py\<close>: the append-only event log of each request of one agent, in
  which at most one terminal state per request and run is recorded. The log of a request is the
  list of lines of its \<open>events.jsonl\<close>; a line that does not decode is \<^term>\<open>None\<close> and is skipped.
  The file lock around a check and its append makes each operation atomic.

  The interface \<open>terminal_log\<close> states what callers rely on, a terminal state that is written once,
  and is interpreted on the ledger at the end.
\<close>

section \<open>State and operations\<close>

type_synonym ledger = "(string \<times> json option list) list"

definition TERMINAL_STATES :: "string list" where
  "TERMINAL_STATES = [''DONE'', ''BLOCKED'', ''CANCELLED'', ''EXPIRED'', ''UNKNOWN_STALE'']"

text \<open>The validation of a request id before it becomes a directory name.\<close>

definition events_key :: "json \<Rightarrow> store_error + string" where
  "events_key v = (if validate_path_component v then Inr (the_str v) else Inl (BadPathComponent v))"

definition read_all :: "string \<Rightarrow> ledger \<Rightarrow> json list" where
  "read_all rid l = (case map_of l rid of None \<Rightarrow> [] | Some ls \<Rightarrow> List.map_filter (\<lambda>x. x) ls)"

text \<open>
  The lines whose \<open>run_id\<close> is the given one. A line that is no object raises, as does, further down,
  an entry without \<open>event\<close> or with one that cannot be hashed (\<open>PyTypeError\<close> stands for each).
\<close>

fun entries_of_run :: "json \<Rightarrow> json list \<Rightarrow> store_error + dict list" where
  "entries_of_run run [] = Inr []"
| "entries_of_run run (JObj d # js) = (case entries_of_run run js of
       Inl e \<Rightarrow> Inl e
     | Inr ds \<Rightarrow> Inr (if dget d ''run_id'' = Some run then d # ds else ds))"
| "entries_of_run run (_ # js) = Inl PyTypeError"

definition read_entries :: "json \<Rightarrow> json \<Rightarrow> ledger \<Rightarrow> store_error + dict list" where
  "read_entries rid run l = (case events_key rid of
       Inl e \<Rightarrow> Inl e
     | Inr k \<Rightarrow> entries_of_run run (read_all k l))"

fun first_terminal :: "dict list \<Rightarrow> store_error + string option" where
  "first_terminal [] = Inr None"
| "first_terminal (d # ds) = (case dget d ''event'' of
       None \<Rightarrow> Inl PyTypeError
     | Some v \<Rightarrow>
         if \<not> hashable v then Inl PyTypeError
         else if is_str v \<and> the_str v \<in> set TERMINAL_STATES then Inr (Some (the_str v))
         else first_terminal ds)"

definition get_terminal :: "json \<Rightarrow> json \<Rightarrow> ledger \<Rightarrow> store_error + string option" where
  "get_terminal rid run l = (case read_entries rid run l of
       Inl e \<Rightarrow> Inl e
     | Inr ds \<Rightarrow> first_terminal ds)"

definition ledger_entry :: "instant \<Rightarrow> string \<Rightarrow> json \<Rightarrow> string \<Rightarrow> dict \<Rightarrow> dict" where
  "ledger_entry now rid run event meta =
     [(''request_id'', JStr rid), (''run_id'', run), (''event'', JStr event), (''ts'', JFloat now),
      (''meta'', JObj meta)]"

definition ledger_append :: "instant \<Rightarrow> string \<Rightarrow> json \<Rightarrow> string \<Rightarrow> dict \<Rightarrow> ledger \<Rightarrow> ledger" where
  "ledger_append now rid run event meta l =
     AList.update rid ((case map_of l rid of None \<Rightarrow> [] | Some ls \<Rightarrow> ls) @
       [Some (JObj (ledger_entry now rid run event meta))]) l"

definition record_event ::
  "instant \<Rightarrow> json \<Rightarrow> json \<Rightarrow> string \<Rightarrow> dict \<Rightarrow> ledger \<Rightarrow> (store_error + bool) \<times> ledger" where
  "record_event now rid run event meta l = (case events_key rid of
       Inl e \<Rightarrow> (Inl e, l)
     | Inr k \<Rightarrow>
         if event \<in> set TERMINAL_STATES then
           (case get_terminal rid run l of
              Inl e \<Rightarrow> (Inl e, l)
            | Inr (Some t) \<Rightarrow> (Inr False, ledger_append now k run ''PROTOCOL_CONFLICT''
                [(''frozen_event'', JStr event), (''existing_terminal'', JStr t)] l)
            | Inr None \<Rightarrow> (Inr True, ledger_append now k run event meta l))
         else (Inr True, ledger_append now k run event meta l))"

text \<open>\<open>any(e["event"] == "RUNNING" for e in entries)\<close>, which stops at the first hit.\<close>

fun has_running :: "dict list \<Rightarrow> store_error + bool" where
  "has_running [] = Inr False"
| "has_running (d # ds) = (case dget d ''event'' of
       None \<Rightarrow> Inl PyTypeError
     | Some v \<Rightarrow> if v = JStr ''RUNNING'' then Inr True else has_running ds)"

text \<open>\<open>msg.get(k, "") or ""\<close>\<close>

definition get_or_empty :: "dict \<Rightarrow> string \<Rightarrow> json" where
  "get_or_empty d k = (let v = dget_or d k (JStr []) in if truthy v then v else JStr [])"

definition copy_fields :: "dict \<Rightarrow> string list \<Rightarrow> dict" where
  "copy_fields d ks = map (\<lambda>k. (k, dget_or d k (JStr []))) ks"

text \<open>The name a message is recorded under, \<^term>\<open>[]\<close> when it maps to no transition.\<close>

definition apply_message ::
  "instant \<Rightarrow> dict \<Rightarrow> ledger \<Rightarrow> (store_error + string) \<times> ledger" where
  "apply_message now msg l =
     (let kd = dget_or msg ''kind'' (JStr []); run = get_or_empty msg ''run_id'';
          rid = get_or_empty msg ''request_id'';
          recd = (\<lambda>event meta. case record_event now rid run event meta l of
             (Inl e, l') \<Rightarrow> (Inl e, l') | (Inr _, l') \<Rightarrow> (Inr event, l')) in
      if \<not> truthy rid \<or> \<not> truthy run then (Inr [], l)
      else if kd = JStr ''RECEIPT'' then
        (if dget msg ''receipt_type'' \<noteq> Some (JStr ''READ'') then (Inr [], l)
         else recd ''ACKED'' (copy_fields msg [''msg_id'', ''reply_to'']))
      else if kd = JStr ''TASK'' \<or> kd = JStr ''INIT'' then
        recd ''DISPATCHED'' (copy_fields msg [''msg_id'', ''from''])
      else if kd = JStr ''PROGRESS'' then
        (case get_terminal rid run l of
           Inl e \<Rightarrow> (Inl e, l)
         | Inr (Some _) \<Rightarrow> (Inr [], l)
         | Inr None \<Rightarrow> (case read_entries rid run l of
               Inl e \<Rightarrow> (Inl e, l)
             | Inr ds \<Rightarrow> (case has_running ds of
                   Inl e \<Rightarrow> (Inl e, l)
                 | Inr True \<Rightarrow> (Inr [], l)
                 | Inr False \<Rightarrow> recd ''RUNNING'' (copy_fields msg [''msg_id'']))))
      else if kd = JStr ''REPORT'' then
        recd ''DONE'' (copy_fields msg [''msg_id'', ''from''] @ [(''source'', JStr ''report'')])
      else if kd = JStr ''NOTICE'' then recd ''NOTICE'' (copy_fields msg [''msg_id'', ''from''])
      else (Inr [], l))"

record verdict_result =
  vr_terminal :: string
  vr_cas :: bool

definition record_artifact_verdict ::
  "instant \<Rightarrow> json \<Rightarrow> json \<Rightarrow> bool \<Rightarrow> ledger \<Rightarrow> (store_error + verdict_result) \<times> ledger" where
  "record_artifact_verdict now rid run verified l =
     (let state = (if verified then ''DONE'' else ''BLOCKED'');
          meta = (''source'', JStr ''artifact_verify'') #
            (if verified then [] else [(''reason'', JStr ''sha256_mismatch'')]) in
      case record_event now rid run state meta l of
        (Inl e, l') \<Rightarrow> (Inl e, l')
      | (Inr True, l') \<Rightarrow> (Inr \<lparr>vr_terminal = state, vr_cas = True\<rparr>, l')
      | (Inr False, l') \<Rightarrow> (case get_terminal rid run l' of
            Inl e \<Rightarrow> (Inl e, l')
          | Inr t \<Rightarrow> (Inr \<lparr>vr_terminal = (case t of None \<Rightarrow> state | Some x \<Rightarrow> x), vr_cas = False\<rparr>, l')))"

text \<open>The entries of a request grouped by run, in the order the runs first appear.\<close>

definition run_of :: "dict \<Rightarrow> json" where
  "run_of d = dget_or d ''run_id'' (JStr [])"

fun group_runs :: "(json \<times> dict list) list \<Rightarrow> json list \<Rightarrow> store_error + (json \<times> dict list) list" where
  "group_runs g [] = Inr g"
| "group_runs g (JObj d # js) =
     (if \<not> hashable (run_of d) then Inl PyTypeError
      else group_runs (AList.update (run_of d)
             ((case map_of g (run_of d) of None \<Rightarrow> [] | Some ds \<Rightarrow> ds) @ [d]) g) js)"
| "group_runs g (_ # js) = Inl PyTypeError"

definition read_entries_all_runs ::
  "json \<Rightarrow> ledger \<Rightarrow> store_error + (json \<times> dict list) list" where
  "read_entries_all_runs rid l = (case events_key rid of
       Inl e \<Rightarrow> Inl e
     | Inr k \<Rightarrow> group_runs [] (read_all k l))"

record stale_request =
  sr_request :: string
  sr_run :: json
  sr_acked_ts :: instant

text \<open>The first acknowledgement of a run that is older than the limit.\<close>

fun first_stale_ack :: "instant \<Rightarrow> instant \<Rightarrow> dict list \<Rightarrow> store_error + instant option" where
  "first_stale_ack now sla [] = Inr None"
| "first_stale_ack now sla (d # ds) = (case dget d ''event'' of
       None \<Rightarrow> Inl PyTypeError
     | Some v \<Rightarrow>
         if v = JStr ''ACKED'' then
           (case dget d ''ts'' of
              Some (JFloat ts) \<Rightarrow> if sla < now - ts then Inr (Some ts) else first_stale_ack now sla ds
            | Some (JInt ts) \<Rightarrow>
                if sla < now - of_int ts then Inr (Some (of_int ts)) else first_stale_ack now sla ds
            | _ \<Rightarrow> Inl PyTypeError)
         else first_stale_ack now sla ds)"

fun stale_runs ::
  "instant \<Rightarrow> instant \<Rightarrow> string \<Rightarrow> (json \<times> dict list) list \<Rightarrow> store_error + stale_request list" where
  "stale_runs now sla rid [] = Inr []"
| "stale_runs now sla rid ((run, ds) # g) = (case stale_runs now sla rid g of
       Inl e \<Rightarrow> Inl e
     | Inr rest \<Rightarrow> (case first_terminal ds of
           Inl e \<Rightarrow> Inl e
         | Inr (Some _) \<Rightarrow> Inr rest
         | Inr None \<Rightarrow> (case first_stale_ack now sla ds of
               Inl e \<Rightarrow> Inl e
             | Inr None \<Rightarrow> Inr rest
             | Inr (Some ts) \<Rightarrow>
                 Inr (\<lparr>sr_request = rid, sr_run = run, sr_acked_ts = ts\<rparr> # rest))))"

fun stale_requests ::
  "instant \<Rightarrow> instant \<Rightarrow> ledger \<Rightarrow> string list \<Rightarrow> store_error + stale_request list" where
  "stale_requests now sla l [] = Inr []"
| "stale_requests now sla l (rid # rids) = (case read_entries_all_runs (JStr rid) l of
       Inl e \<Rightarrow> Inl e
     | Inr g \<Rightarrow> (case stale_runs now sla rid g of
           Inl e \<Rightarrow> Inl e
         | Inr xs \<Rightarrow> (case stale_requests now sla l rids of
               Inl e \<Rightarrow> Inl e
             | Inr ys \<Rightarrow> Inr (xs @ ys))))"

definition find_stale :: "instant \<Rightarrow> instant \<Rightarrow> ledger \<Rightarrow> store_error + stale_request list" where
  "find_stale now sla l = stale_requests now sla l (sorted_set (map fst l))"

section \<open>The interface: a terminal state that is written once\<close>

text \<open>
  A log accepts events under keys. \<open>terminal\<close> is the name of the terminal event recorded for a key,
  \<open>put\<close> records an event and says whether it was accepted.
\<close>

locale terminal_log =
  fixes inv :: "'s \<Rightarrow> bool"
    and key :: "'k \<Rightarrow> bool"
    and terminal :: "'s \<Rightarrow> 'k \<Rightarrow> 'n option"
    and put :: "'k \<Rightarrow> 'e \<Rightarrow> 's \<Rightarrow> bool \<times> 's"
    and final :: "'e \<Rightarrow> bool"
    and name :: "'e \<Rightarrow> 'n"
  assumes put_inv: "inv s \<Longrightarrow> key k \<Longrightarrow> inv (snd (put k e s))"
    and put_wins: "inv s \<Longrightarrow> key k \<Longrightarrow> final e \<Longrightarrow> terminal s k = None \<Longrightarrow>
      fst (put k e s) \<and> terminal (snd (put k e s)) k = Some (name e)"
    and put_loses: "inv s \<Longrightarrow> key k \<Longrightarrow> final e \<Longrightarrow> terminal s k = Some t \<Longrightarrow> \<not> fst (put k e s)"
    and put_frozen: "inv s \<Longrightarrow> key k \<Longrightarrow> key k' \<Longrightarrow> terminal s k' = Some t \<Longrightarrow>
      terminal (snd (put k e s)) k' = Some t"
    and put_other: "inv s \<Longrightarrow> key k \<Longrightarrow> key k' \<Longrightarrow> k' \<noteq> k \<or> \<not> final e \<Longrightarrow>
      terminal (snd (put k e s)) k' = terminal s k'"

text \<open>A sequence of events, with what became of each.\<close>

fun run_log :: "('k \<Rightarrow> 'e \<Rightarrow> 's \<Rightarrow> bool \<times> 's) \<Rightarrow> ('k \<times> 'e) list \<Rightarrow> 's \<Rightarrow> bool list \<times> 's" where
  "run_log put [] s = ([], s)"
| "run_log put ((k, e) # ops) s =
     (let (b, s1) = put k e s; (bs, s2) = run_log put ops s1 in (b # bs, s2))"

context terminal_log
begin

lemma run_log_frozen:
  assumes "inv s" "\<forall>(k, e) \<in> set ops. key k" "key k'" "terminal s k' = Some t"
  shows "terminal (snd (run_log put ops s)) k' = Some t"
  using assms
proof (induction ops arbitrary: s)
  case (Cons op ops)
  obtain k e where op: "op = (k, e)" by fastforce
  obtain b s1 where 1: "put k e s = (b, s1)" by fastforce
  have "inv s1" "terminal s1 k' = Some t"
    using put_inv [of s k e] put_frozen [of s k k' t e] Cons.prems 1 op by auto
  with Cons op 1 show ?case by (auto simp: case_prod_beta Let_def)
qed simp

lemma run_log_no_second:
  assumes "inv s" "\<forall>(k, e) \<in> set ops. key k" "key k'" "terminal s k' = Some t"
  shows "filter (\<lambda>x. fst (fst x) = k' \<and> final (snd (fst x)) \<and> snd x) (zip ops (fst (run_log put ops s))) = []"
  using assms
proof (induction ops arbitrary: s)
  case (Cons op ops)
  obtain k e where op: "op = (k, e)" by fastforce
  obtain b s1 where 1: "put k e s = (b, s1)" by fastforce
  have "inv s1" "terminal s1 k' = Some t" "k = k' \<Longrightarrow> final e \<Longrightarrow> \<not> b"
    using put_inv [of s k e] put_frozen [of s k k' t e] put_loses [of s k e t] Cons.prems 1 op by auto
  with Cons op 1 show ?case by (auto simp: case_prod_beta Let_def)
qed simp

lemma run_log_once:
  assumes "inv s" "\<forall>(k, e) \<in> set ops. key k" "key k'"
  shows "length (filter (\<lambda>x. fst (fst x) = k' \<and> final (snd (fst x)) \<and> snd x)
    (zip ops (fst (run_log put ops s)))) \<le> 1"
  using assms
proof (induction ops arbitrary: s)
  case (Cons op ops)
  obtain k e where op: "op = (k, e)" by fastforce
  obtain b s1 where 1: "put k e s = (b, s1)" by fastforce
  have inv1: "inv s1" and keys: "key k" "\<forall>(k, e) \<in> set ops. key k"
    using put_inv [of s k e] Cons.prems 1 op by auto
  show ?case
  proof (cases "k = k' \<and> final e \<and> b")
    case True
    then have "terminal s k' = None" using put_loses [of s k e] Cons.prems(1) keys 1 by fastforce
    with True have "terminal s1 k' = Some (name e)"
      using put_wins [of s k e] Cons.prems(1) keys 1 by auto
    from run_log_no_second [OF inv1 keys(2) Cons.prems(3) this] True op 1 show ?thesis
      by (simp add: case_prod_beta Let_def)
  next
    case False
    with Cons.IH [OF inv1 keys(2) Cons.prems(3)] op 1 show ?thesis
      by (auto simp: case_prod_beta Let_def)
  qed
qed simp

end

section \<open>The ledger keeps its promise\<close>

text \<open>Lines that the ledger itself has written.\<close>

definition entry_ok :: "json \<Rightarrow> bool" where
  "entry_ok j = (case j of
       JObj d \<Rightarrow>
         (case (dget d ''event'', dget d ''run_id'', dget d ''ts'') of
            (Some (JStr _), Some run, Some (JFloat _)) \<Rightarrow> hashable run
          | _ \<Rightarrow> False)
     | _ \<Rightarrow> False)"

definition ledger_ok :: "ledger \<Rightarrow> bool" where
  "ledger_ok l \<longleftrightarrow> list_all (\<lambda>(rid, ls). validate_path_component (JStr rid) \<and>
     list_all (\<lambda>x. case x of None \<Rightarrow> True | Some j \<Rightarrow> entry_ok j) ls) l \<and> distinct (map fst l)"

definition ledger_key :: "string \<times> json \<Rightarrow> bool" where
  "ledger_key k \<longleftrightarrow> validate_path_component (JStr (fst k)) \<and> hashable (snd k)"

definition terminal_of :: "ledger \<Rightarrow> string \<times> json \<Rightarrow> string option" where
  "terminal_of l k = (case get_terminal (JStr (fst k)) (snd k) l of Inr t \<Rightarrow> t | Inl _ \<Rightarrow> None)"

text \<open>An event with the time and the details it is recorded with.\<close>

type_synonym ledger_event = "string \<times> instant \<times> dict"

definition ledger_put :: "string \<times> json \<Rightarrow> ledger_event \<Rightarrow> ledger \<Rightarrow> bool \<times> ledger" where
  "ledger_put k e l = (case record_event (fst (snd e)) (JStr (fst k)) (snd k) (fst e) (snd (snd e)) l of
       (Inr b, l') \<Rightarrow> (b, l')
     | (Inl _, l') \<Rightarrow> (False, l'))"

definition is_terminal :: "ledger_event \<Rightarrow> bool" where
  "is_terminal e \<longleftrightarrow> fst e \<in> set TERMINAL_STATES"

lemma entries_of_run_ok:
  "list_all entry_ok js \<Longrightarrow> entries_of_run run js =
     Inr (filter (\<lambda>d. dget d ''run_id'' = Some run) (map (\<lambda>j. case j of JObj d \<Rightarrow> d | _ \<Rightarrow> []) js))"
proof (induction js)
  case (Cons j js)
  then obtain d where "j = JObj d" by (auto simp: entry_ok_def split: json.splits)
  with Cons show ?case by simp
qed simp

lemma first_terminal_ok:
  "\<forall>d \<in> set ds. \<exists>e. dget d ''event'' = Some (JStr e) \<Longrightarrow> first_terminal ds =
     Inr (map_option (\<lambda>d. the_str (the (dget d ''event'')))
       (find (\<lambda>d. the_str (the (dget d ''event'')) \<in> set TERMINAL_STATES) ds))"
  by (induction ds) auto

lemma read_all_ok:
  assumes "ledger_ok l"
  shows "list_all entry_ok (read_all rid l)"
proof (cases "map_of l rid")
  case (Some ls)
  then have "(rid, ls) \<in> set l" by (rule map_of_SomeD)
  with assms have "list_all (\<lambda>x. case x of None \<Rightarrow> True | Some j \<Rightarrow> entry_ok j) ls"
    by (auto simp: ledger_ok_def list_all_iff)
  with Some show ?thesis
    by (auto simp: read_all_def list_all_iff List.map_filter_def split: option.splits)
qed (simp add: read_all_def)

definition entry_dicts :: "ledger \<Rightarrow> string \<Rightarrow> dict list" where
  "entry_dicts l rid = map (\<lambda>j. case j of JObj d \<Rightarrow> d | _ \<Rightarrow> []) (read_all rid l)"

lemma entry_dicts_ok:
  assumes "ledger_ok l" "d \<in> set (entry_dicts l rid)"
  shows "(\<exists>e. dget d ''event'' = Some (JStr e)) \<and> (\<exists>run. dget d ''run_id'' = Some run \<and> hashable run) \<and>
    (\<exists>t. dget d ''ts'' = Some (JFloat t))"
proof -
  obtain j where "j \<in> set (read_all rid l)" "d = (case j of JObj d \<Rightarrow> d | _ \<Rightarrow> [])"
    using assms(2) by (auto simp: entry_dicts_def)
  moreover have "entry_ok j" using read_all_ok [OF assms(1)] calculation(1) by (simp add: list_all_iff)
  ultimately show ?thesis by (auto simp: entry_ok_def split: json.splits option.splits)
qed

text \<open>On a ledger of its own lines, the terminal state is the first terminal event of the run.\<close>

lemma get_terminal_ok:
  assumes "ledger_ok l" "validate_path_component (JStr rid)"
  shows "get_terminal (JStr rid) run l = Inr (map_option (\<lambda>d. the_str (the (dget d ''event'')))
    (find (\<lambda>d. the_str (the (dget d ''event'')) \<in> set TERMINAL_STATES)
      (filter (\<lambda>d. dget d ''run_id'' = Some run) (entry_dicts l rid))))"
proof -
  have "read_entries (JStr rid) run l = Inr (filter (\<lambda>d. dget d ''run_id'' = Some run) (entry_dicts l rid))"
    using assms(2) entries_of_run_ok [OF read_all_ok [OF assms(1)]]
    by (simp add: read_entries_def events_key_def entry_dicts_def)
  moreover have "first_terminal (filter (\<lambda>d. dget d ''run_id'' = Some run) (entry_dicts l rid)) =
      Inr (map_option (\<lambda>d. the_str (the (dget d ''event'')))
        (find (\<lambda>d. the_str (the (dget d ''event'')) \<in> set TERMINAL_STATES)
          (filter (\<lambda>d. dget d ''run_id'' = Some run) (entry_dicts l rid))))"
    by (rule first_terminal_ok) (use entry_dicts_ok [OF assms(1)] in auto)
  ultimately show ?thesis by (simp add: get_terminal_def)
qed

lemma entry_dicts_append:
  "entry_dicts (ledger_append now rid run event meta l) x =
     (if x = rid then entry_dicts l x @ [ledger_entry now rid run event meta] else entry_dicts l x)"
  by (simp add: entry_dicts_def read_all_def ledger_append_def al.get_put List.map_filter_def
      split: option.splits)

lemma ledger_ok_append:
  assumes "ledger_ok l" "validate_path_component (JStr rid)" "hashable run"
  shows "ledger_ok (ledger_append now rid run event meta l)"
proof -
  have e: "entry_ok (JObj (ledger_entry now rid run event meta))"
    using assms(3) by (simp add: entry_ok_def ledger_entry_def dget_def)
  have old: "list_all (\<lambda>x. case x of None \<Rightarrow> True | Some j \<Rightarrow> entry_ok j)
      (case map_of l rid of None \<Rightarrow> [] | Some ls \<Rightarrow> ls)"
    using assms(1) by (auto simp: ledger_ok_def list_all_iff split: option.splits dest: map_of_SomeD)
  have "set (AList.update rid ls l) \<subseteq> insert (rid, ls) (set l)" for ls
    by (induction l) auto
  with assms(1,2) e old show ?thesis
    unfolding ledger_ok_def ledger_append_def
    by (fastforce simp: list_all_iff distinct_update)
qed

lemma terminal_of_append:
  assumes "ledger_ok l" "ledger_key k" "ledger_key k'"
  shows "terminal_of (ledger_append now (fst k) (snd k) event meta l) k' =
    (case terminal_of l k' of
       Some t \<Rightarrow> Some t
     | None \<Rightarrow> if k' = k \<and> event \<in> set TERMINAL_STATES then Some event else None)"
proof -
  have ok: "ledger_ok (ledger_append now (fst k) (snd k) event meta l)"
    using assms by (simp add: ledger_ok_append ledger_key_def)
  have ev: "dget (ledger_entry now rid run event meta) ''event'' = Some (JStr event)"
    "dget (ledger_entry now rid run event meta) ''run_id'' = Some run" for rid run
    by (simp_all add: ledger_entry_def dget_def)
  have fa: "find P (xs @ ys) = (case find P xs of None \<Rightarrow> find P ys | Some x \<Rightarrow> Some x)"
    for P and xs ys :: "dict list" by (induction xs) auto
  have v: "validate_path_component (JStr (fst k'))" "validate_path_component (JStr (fst k))"
    using assms(2,3) by (simp_all add: ledger_key_def)
  show ?thesis
    by (cases "fst k' = fst k"; cases "snd k' = snd k")
       (simp_all add: terminal_of_def get_terminal_ok [OF ok v(1)] get_terminal_ok [OF assms(1) v(1)]
          get_terminal_ok [OF ok v(2)] get_terminal_ok [OF assms(1) v(2)]
          entry_dicts_append fa ev prod_eq_iff split: option.split)
qed

lemma record_event_ok:
  assumes "ledger_ok l" "ledger_key k"
  shows "record_event now (JStr (fst k)) (snd k) event meta l =
    (if event \<in> set TERMINAL_STATES \<and> terminal_of l k \<noteq> None
     then (Inr False, ledger_append now (fst k) (snd k) ''PROTOCOL_CONFLICT''
        [(''frozen_event'', JStr event), (''existing_terminal'', JStr (the (terminal_of l k)))] l)
     else (Inr True, ledger_append now (fst k) (snd k) event meta l))"
proof -
  have "get_terminal (JStr (fst k)) (snd k) l = Inr (terminal_of l k)"
    using assms by (simp add: terminal_of_def get_terminal_ok ledger_key_def)
  then show ?thesis
    using assms(2) by (auto simp: record_event_def events_key_def ledger_key_def split: option.splits)
qed

lemma conflict_not_terminal: "''PROTOCOL_CONFLICT'' \<notin> set TERMINAL_STATES"
  by code_simp

interpretation ledger: terminal_log ledger_ok ledger_key terminal_of ledger_put is_terminal fst
proof
  fix s k e
  assume "ledger_ok s" "ledger_key k"
  then show "ledger_ok (snd (ledger_put k e s))"
    by (simp add: ledger_put_def record_event_ok) (auto simp: ledger_ok_append ledger_key_def)
next
  fix s k e
  assume "ledger_ok s" "ledger_key k" "is_terminal e" "terminal_of s k = None"
  then show "fst (ledger_put k e s) \<and> terminal_of (snd (ledger_put k e s)) k = Some (fst e)"
    by (simp add: ledger_put_def record_event_ok terminal_of_append is_terminal_def)
next
  fix s k e t
  assume "ledger_ok s" "ledger_key k" "is_terminal e" "terminal_of s k = Some t"
  then show "\<not> fst (ledger_put k e s)"
    by (simp add: ledger_put_def record_event_ok is_terminal_def)
next
  fix s k k' t e
  assume "ledger_ok s" "ledger_key k" "ledger_key k'" "terminal_of s k' = Some t"
  then show "terminal_of (snd (ledger_put k e s)) k' = Some t"
    by (simp add: ledger_put_def record_event_ok terminal_of_append)
next
  fix s k k' e
  assume "ledger_ok s" "ledger_key k" "ledger_key k'" "k' \<noteq> k \<or> \<not> is_terminal e"
  then show "terminal_of (snd (ledger_put k e s)) k' = terminal_of s k'"
    by (auto simp: ledger_put_def record_event_ok terminal_of_append is_terminal_def
        conflict_not_terminal split: option.splits)
qed


text \<open>The entries of a run are what the grouping yields.\<close>

lemma group_runs_ok:
  assumes "\<forall>d \<in> set ds. hashable (run_of d)"
  shows "\<exists>g'. group_runs g (map JObj ds) = Inr g' \<and>
    (\<forall>run. map_of g' run = (if filter (\<lambda>d. run_of d = run) ds = [] then map_of g run
       else Some ((case map_of g run of None \<Rightarrow> [] | Some ys \<Rightarrow> ys) @ filter (\<lambda>d. run_of d = run) ds))) \<and>
    (distinct (map fst g) \<longrightarrow> distinct (map fst g'))"
  using assms
proof (induction ds arbitrary: g)
  case (Cons d ds)
  let ?g1 = "AList.update (run_of d) ((case map_of g (run_of d) of None \<Rightarrow> [] | Some ys \<Rightarrow> ys) @ [d]) g"
  from Cons.IH [of ?g1] Cons.prems obtain g' where g': "group_runs ?g1 (map JObj ds) = Inr g'"
    "\<forall>run. map_of g' run = (if filter (\<lambda>d. run_of d = run) ds = [] then map_of ?g1 run
       else Some ((case map_of ?g1 run of None \<Rightarrow> [] | Some ys \<Rightarrow> ys) @ filter (\<lambda>d. run_of d = run) ds))"
    "distinct (map fst ?g1) \<longrightarrow> distinct (map fst g')" by auto
  moreover have "distinct (map fst g) \<longrightarrow> distinct (map fst ?g1)" by (simp add: distinct_update)
  ultimately show ?case
    using Cons.prems by (auto simp: al.get_put split: option.splits)
qed (auto split: option.splits)

lemma read_all_dicts:
  assumes "ledger_ok l"
  shows "read_all rid l = map JObj (entry_dicts l rid)"
proof -
  have "map JObj (map (\<lambda>j. case j of JObj d \<Rightarrow> d | _ \<Rightarrow> []) js) = js" if "list_all entry_ok js" for js
    using that by (induction js) (auto simp: entry_ok_def split: json.splits)
  from this [OF read_all_ok [OF assms]] show ?thesis by (simp add: entry_dicts_def)
qed

definition stale_ack :: "instant \<Rightarrow> instant \<Rightarrow> dict \<Rightarrow> bool" where
  "stale_ack now sla d \<longleftrightarrow> dget d ''event'' = Some (JStr ''ACKED'') \<and>
     (case dget d ''ts'' of Some (JFloat t) \<Rightarrow> sla < now - t | _ \<Rightarrow> False)"

definition written_entry :: "dict \<Rightarrow> bool" where
  "written_entry d \<longleftrightarrow> (\<exists>e. dget d ''event'' = Some (JStr e)) \<and> (\<exists>t. dget d ''ts'' = Some (JFloat t))"

lemma first_stale_ack_ok:
  "\<forall>d \<in> set ds. written_entry d \<Longrightarrow> \<exists>r. first_stale_ack now sla ds = Inr r \<and>
     (r = None \<longleftrightarrow> (\<forall>d \<in> set ds. \<not> stale_ack now sla d))"
proof (induction ds)
  case (Cons d ds)
  then obtain r e t where r: "first_stale_ack now sla ds = Inr r"
      "r = None \<longleftrightarrow> (\<forall>d \<in> set ds. \<not> stale_ack now sla d)"
    and d: "dget d ''event'' = Some (JStr e)" "dget d ''ts'' = Some (JFloat t)"
    by (auto simp: written_entry_def)
  show ?case
    by (cases "e = ''ACKED'' \<and> sla < now - t") (use r d in \<open>auto simp: stale_ack_def\<close>)
qed simp

lemma first_terminal_None:
  assumes "\<forall>d \<in> set ds. written_entry d"
  shows "\<exists>r. first_terminal ds = Inr r"
  using first_terminal_ok [of ds] assms by (auto simp: written_entry_def)

lemma stale_runs_ok:
  "\<forall>(run, ds) \<in> set g. \<forall>d \<in> set ds. written_entry d \<Longrightarrow>
   \<exists>rs. stale_runs now sla rid g = Inr rs \<and>
     (\<forall>r \<in> set rs. sr_request r = rid) \<and>
     (\<forall>run. (\<exists>r \<in> set rs. sr_run r = run) \<longleftrightarrow> (\<exists>ds. (run, ds) \<in> set g \<and> first_terminal ds = Inr None \<and>
        (\<exists>d \<in> set ds. stale_ack now sla d)))"
proof (induction g)
  case (Cons p g)
  obtain run ds where p: "p = (run, ds)" by fastforce
  obtain rs where rs: "stale_runs now sla rid g = Inr rs" "\<forall>r \<in> set rs. sr_request r = rid"
    "\<forall>run. (\<exists>r \<in> set rs. sr_run r = run) \<longleftrightarrow> (\<exists>ds. (run, ds) \<in> set g \<and> first_terminal ds = Inr None \<and>
        (\<exists>d \<in> set ds. stale_ack now sla d))"
    using Cons by auto
  have ok: "\<forall>d \<in> set ds. written_entry d" using Cons.prems p by auto
  obtain t where t: "first_terminal ds = Inr t" using first_terminal_None [OF ok] by blast
  obtain a where a: "first_stale_ack now sla ds = Inr a"
    "a = None \<longleftrightarrow> (\<forall>d \<in> set ds. \<not> stale_ack now sla d)"
    using first_stale_ack_ok [OF ok] by blast
  show ?case
  proof (cases "t = None \<and> a \<noteq> None")
    case True
    then obtain ts where "a = Some ts" by blast
    with True rs t a p show ?thesis by auto
  next
    case False
    then have "stale_runs now sla rid (p # g) = Inr rs"
      using rs(1) t a(1) p by (cases t; cases a) auto
    moreover have "\<not> (first_terminal ds = Inr None \<and> (\<exists>d \<in> set ds. stale_ack now sla d))"
      using False t a(2) by auto
    ultimately show ?thesis using rs p by auto
  qed
qed simp

lemma stale_requests_ok:
  assumes "\<And>rid. rid \<in> set rids \<Longrightarrow> \<exists>g. read_entries_all_runs (JStr rid) l = Inr g \<and>
      (\<forall>(run, ds) \<in> set g. \<forall>d \<in> set ds. written_entry d) \<and>
      (\<forall>run. P rid run \<longleftrightarrow> (\<exists>ds. (run, ds) \<in> set g \<and> first_terminal ds = Inr None \<and>
        (\<exists>d \<in> set ds. stale_ack now sla d)))"
  shows "\<exists>rs. stale_requests now sla l rids = Inr rs \<and>
    (\<forall>rid run. (\<exists>r \<in> set rs. sr_request r = rid \<and> sr_run r = run) \<longleftrightarrow> rid \<in> set rids \<and> P rid run)"
  using assms
proof (induction rids)
  case (Cons rid rids)
  obtain g where g: "read_entries_all_runs (JStr rid) l = Inr g"
      "\<forall>(run, ds) \<in> set g. \<forall>d \<in> set ds. written_entry d"
      "\<forall>run. P rid run \<longleftrightarrow> (\<exists>ds. (run, ds) \<in> set g \<and> first_terminal ds = Inr None \<and>
        (\<exists>d \<in> set ds. stale_ack now sla d))"
    using Cons.prems [of rid] by auto
  from stale_runs_ok [OF g(2), of now sla rid] obtain xs where xs: "stale_runs now sla rid g = Inr xs"
      "\<forall>r \<in> set xs. sr_request r = rid" "\<forall>run. (\<exists>r \<in> set xs. sr_run r = run) \<longleftrightarrow> P rid run"
    using g(3) by auto
  obtain ys where ys: "stale_requests now sla l rids = Inr ys"
      "\<forall>rid run. (\<exists>r \<in> set ys. sr_request r = rid \<and> sr_run r = run) \<longleftrightarrow> rid \<in> set rids \<and> P rid run"
    using Cons by auto
  have "(\<exists>r \<in> set (xs @ ys). sr_request r = i \<and> sr_run r = run) \<longleftrightarrow> i \<in> set (rid # rids) \<and> P i run" for i run
  proof -
    have "(\<exists>r \<in> set (xs @ ys). sr_request r = i \<and> sr_run r = run) \<longleftrightarrow>
        (\<exists>r \<in> set xs. sr_request r = i \<and> sr_run r = run) \<or> i \<in> set rids \<and> P i run"
      unfolding ys(2) [rule_format, symmetric] by auto
    also have "(\<exists>r \<in> set xs. sr_request r = i \<and> sr_run r = run) \<longleftrightarrow> i = rid \<and> P rid run"
      unfolding xs(3) [rule_format, symmetric] using xs(2) by auto
    finally show ?thesis by auto
  qed
  with g xs ys show ?case by simp
qed simp

text \<open>
  The watchdog is exact. On a ledger of its own lines \<open>find_stale\<close> never fails, and it reports a
  request and run exactly when no terminal state is recorded for it and some acknowledgement of it
  is older than the limit: finished work is never reported, forgotten work always is.
\<close>

theorem find_stale_exact:
  assumes "ledger_ok l"
  shows "\<exists>rs. find_stale now sla l = Inr rs \<and>
    (\<forall>rid run. (\<exists>r \<in> set rs. sr_request r = rid \<and> sr_run r = run) \<longleftrightarrow>
       rid \<in> fst ` set l \<and> terminal_of l (rid, run) = None \<and>
       (\<exists>d \<in> set (entry_dicts l rid). dget d ''run_id'' = Some run \<and> stale_ack now sla d))"
proof -
  have run: "run_of d = run \<longleftrightarrow> dget d ''run_id'' = Some run" and wr: "written_entry d"
    if "d \<in> set (entry_dicts l rid)" for d rid run
    using entry_dicts_ok [OF assms that] by (auto simp: run_of_def dget_or_dget written_entry_def)
  let ?P = "\<lambda>rid run. terminal_of l (rid, run) = None \<and>
     (\<exists>d \<in> set (entry_dicts l rid). dget d ''run_id'' = Some run \<and> stale_ack now sla d)"
  have "\<exists>g. read_entries_all_runs (JStr rid) l = Inr g \<and>
      (\<forall>(run, ds) \<in> set g. \<forall>d \<in> set ds. written_entry d) \<and>
      (\<forall>run. ?P rid run \<longleftrightarrow> (\<exists>ds. (run, ds) \<in> set g \<and> first_terminal ds = Inr None \<and>
        (\<exists>d \<in> set ds. stale_ack now sla d)))" if "rid \<in> set (sorted_set (map fst l))" for rid
  proof -
    let ?ds = "entry_dicts l rid"
    have v: "validate_path_component (JStr rid)"
      using that assms by (auto simp: ledger_ok_def list_all_iff)
    have "\<forall>d \<in> set ?ds. hashable (run_of d)"
      using entry_dicts_ok [OF assms] by (fastforce simp: run_of_def dget_or_dget)
    from group_runs_ok [OF this, of "[]"] obtain g where g: "group_runs [] (map JObj ?ds) = Inr g"
      "\<forall>run. map_of g run = (if filter (\<lambda>d. run_of d = run) ?ds = [] then None
          else Some (filter (\<lambda>d. run_of d = run) ?ds))"
      "distinct (map fst g)" by auto
    have mem: "(r, ds) \<in> set g \<longleftrightarrow> ds \<noteq> [] \<and> ds = filter (\<lambda>d. dget d ''run_id'' = Some r) ?ds" for r ds
    proof -
      have "filter (\<lambda>d. run_of d = r) ?ds = filter (\<lambda>d. dget d ''run_id'' = Some r) ?ds"
        by (rule filter_cong) (simp_all add: run)
      with g(2) map_of_eq_Some_iff [OF g(3), of r ds] show ?thesis
        by (metis option.inject option.distinct(1))
    qed
    have tm: "terminal_of l (rid, r) = None \<longleftrightarrow>
        first_terminal (filter (\<lambda>d. dget d ''run_id'' = Some r) ?ds) = Inr None" for r
    proof -
      have "get_terminal (JStr rid) r l = first_terminal (filter (\<lambda>d. dget d ''run_id'' = Some r) ?ds)"
        unfolding get_terminal_ok [OF assms v]
        by (rule first_terminal_ok [symmetric]) (use entry_dicts_ok [OF assms] in auto)
      moreover have "\<exists>t. get_terminal (JStr rid) r l = Inr t" by (simp add: get_terminal_ok [OF assms v])
      ultimately show ?thesis by (auto simp: terminal_of_def)
    qed
    have "read_entries_all_runs (JStr rid) l = Inr g"
      using g(1) v by (simp add: read_entries_all_runs_def events_key_def read_all_dicts [OF assms])
    moreover have "\<forall>(run, ds) \<in> set g. \<forall>d \<in> set ds. written_entry d"
      by (auto simp: mem intro: wr)
    moreover have "?P rid r \<longleftrightarrow> (\<exists>ds. (r, ds) \<in> set g \<and> first_terminal ds = Inr None \<and>
        (\<exists>d \<in> set ds. stale_ack now sla d))" for r
      unfolding mem tm by (auto simp: filter_empty_conv)
    ultimately show ?thesis by blast
  qed
  from stale_requests_ok [OF this, of "sorted_set (map fst l)"] show ?thesis
    by (simp add: find_stale_def)
qed

text \<open>
  The compare-and-set answer is truthful: \<open>record_artifact_verdict\<close> reports the terminal state the
  ledger holds afterwards, reports that it set it exactly when none was recorded before, and never
  replaces one.
\<close>

theorem artifact_verdict_truthful:
  assumes "ledger_ok l" "ledger_key (rid, run)"
  shows "\<exists>v l'. record_artifact_verdict now (JStr rid) run verified l = (Inr v, l') \<and>
    terminal_of l' (rid, run) = Some (vr_terminal v) \<and>
    (vr_cas v \<longleftrightarrow> terminal_of l (rid, run) = None) \<and>
    (\<forall>t. terminal_of l (rid, run) = Some t \<longrightarrow> vr_terminal v = t)"
proof -
  let ?st = "if verified then ''DONE'' else ''BLOCKED''"
  have st: "?st \<in> set TERMINAL_STATES" by (simp add: TERMINAL_STATES_def)
  note r = record_event_ok [OF assms, simplified]
  show ?thesis
  proof (cases "terminal_of l (rid, run)")
    case None
    then show ?thesis
      using st terminal_of_append [OF assms(1,2,2), simplified]
      by (simp add: record_artifact_verdict_def Let_def r)
  next
    case (Some t)
    let ?l' = "ledger_append now rid run ''PROTOCOL_CONFLICT''
      [(''frozen_event'', JStr ?st), (''existing_terminal'', JStr t)] l"
    have t': "terminal_of ?l' (rid, run) = Some t"
      using terminal_of_append [OF assms(1,2,2), simplified] Some by simp
    moreover have "get_terminal (JStr rid) run ?l' = Inr (terminal_of ?l' (rid, run))"
      using assms ledger_ok_append [OF assms(1)]
      by (simp add: terminal_of_def get_terminal_ok ledger_key_def)
    ultimately show ?thesis
      using st Some by (simp add: record_artifact_verdict_def Let_def r)
  qed
qed

text \<open>
  A report that comes after another terminal state is answered as if it had completed the request,
  although the recorded state stays what it was.
\<close>

lemma late_report_claims_done:
  assumes "ledger_ok l" "ledger_key (rid, run)" "terminal_of l (rid, run) = Some t"
    and "rid \<noteq> []" "truthy run" "dget msg ''kind'' = Some (JStr ''REPORT'')"
    and "dget msg ''request_id'' = Some (JStr rid)" "dget msg ''run_id'' = Some run"
  shows "\<exists>l'. apply_message now msg l = (Inr ''DONE'', l') \<and> terminal_of l' (rid, run) = Some t"
proof -
  note r = record_event_ok [OF assms(1,2), simplified]
  have "''DONE'' \<in> set TERMINAL_STATES" by (simp add: TERMINAL_STATES_def)
  then show ?thesis
    using assms(3-) terminal_of_append [OF assms(1,2,2), simplified]
    by (simp add: apply_message_def Let_def get_or_empty_def dget_or_dget r)
qed

section \<open>Witnesses\<close>

definition example_ledger :: ledger where
  "example_ledger = ledger_append 100 ''q1'' (JStr ''r1'') ''ACKED'' [] []"

lemma example_ledger_ok: "ledger_ok example_ledger" "ledger_key (''q1'', JStr ''r1'')"
  by code_simp+

definition example_events :: "((string \<times> json) \<times> ledger_event) list" where
  "example_events = [((''q1'', JStr ''r1''), (''DONE'', 1, [])), ((''q1'', JStr ''r1''), (''BLOCKED'', 2, []))]"


theorem find_stale_exact_witness:
  "\<exists>rs. find_stale 1000 300 example_ledger = Inr rs \<and>
     (\<exists>r \<in> set rs. sr_request r = ''q1'' \<and> sr_run r = JStr ''r1'')"
proof -
  have "''q1'' \<in> fst ` set example_ledger" "terminal_of example_ledger (''q1'', JStr ''r1'') = None"
    "\<exists>d \<in> set (entry_dicts example_ledger ''q1''). dget d ''run_id'' = Some (JStr ''r1'') \<and>
       stale_ack 1000 300 d"
    by code_simp+
  with find_stale_exact [OF example_ledger_ok(1), of 1000 300] show ?thesis by meson
qed

theorem artifact_verdict_truthful_witness:
  "\<exists>v l'. record_artifact_verdict 5 (JStr ''q1'') (JStr ''r1'') True example_ledger = (Inr v, l') \<and>
     terminal_of l' (''q1'', JStr ''r1'') = Some (vr_terminal v)"
  using artifact_verdict_truthful [OF example_ledger_ok, of 5 True] by blast

end
