(* ===== verification/Store_Admin.thy ===== *)
theory Store_Admin
  imports Store_Claims
begin

text \<open>
  \<open>mailbox/store.py\<close>, last part: previews, counters, clearing and purging folders, the retention
  cleanup of whole sessions, and the legacy one-phase \<open>check\<close>.

  Whether an agent holds an active park lease is answered by the park registry; here it is the
  argument \<open>parked\<close>, a predicate on mailbox agent ids. A registry that cannot be opened counts as
  holding no lease, as in the source.
\<close>

section \<open>Previews and counters\<close>

definition peek_subject :: "nat \<Rightarrow> json \<Rightarrow> json option" where
  "peek_subject k v = (case v of
       JStr x \<Rightarrow> Some (JStr (take k x))
     | JArr xs \<Rightarrow> Some (JArr (take k xs))
     | _ \<Rightarrow> None)"

definition peek_summary :: "nat \<Rightarrow> string \<Rightarrow> dict \<Rightarrow> dict option" where
  "peek_summary k f m = map_option (\<lambda>sub.
      [(''from'', dget_or m ''from'' (JStr ''?'')), (''kind'', dget_or m ''kind'' (JStr ''?'')),
       (''subject'', sub), (''msg_id'', dget_or m ''msg_id'' (JStr (stem f))),
       (''command_id'', dget_or m ''command_id'' (JStr []))])
     (peek_subject k (dget_or m ''subject'' (JStr [])))"

fun peek_files :: "nat \<Rightarrow> path \<Rightarrow> fs \<Rightarrow> string list \<Rightarrow> store_error + dict list" where
  "peek_files k inbox s [] = Inr []"
| "peek_files k inbox s (f # fs) =
     (let this = (case load_at s (inbox @ [f]) of
           Loaded (JObj m) \<Rightarrow> (case peek_summary k f m of None \<Rightarrow> Inl PyTypeError | Some d \<Rightarrow> Inr d)
         | Loaded _ \<Rightarrow> Inl PyTypeError
         | Undecodable \<Rightarrow> Inr [(''from'', JStr ''?''), (''kind'', JStr ''?''),
             (''subject'', JStr ''(unreadable)''), (''msg_id'', JStr (stem f))]
         | Missing \<Rightarrow> Inl PyOSError) in
      case this of
        Inl e \<Rightarrow> Inl e
      | Inr d \<Rightarrow> (case peek_files k inbox s fs of Inl e \<Rightarrow> Inl e | Inr ds \<Rightarrow> Inr (d # ds)))"

definition peek :: "nat \<Rightarrow> nat \<Rightarrow> string \<Rightarrow> string \<Rightarrow> fs \<Rightarrow> store_error + nat \<times> dict list" where
  "peek max_messages max_subject sid aid s = (case check_agent sid aid of
       Some e \<Rightarrow> Inl e
     | None \<Rightarrow>
         (let files = list_messages (inbox_dir sid aid) s in
          if files = [] then Inr (0, [])
          else case peek_files max_subject (inbox_dir sid aid) s
                 (take (min (length files) max_messages) files) of
            Inl e \<Rightarrow> Inl e
          | Inr ds \<Rightarrow> Inr (length files, ds)))"

definition BOX_DIRS :: "string list" where
  "BOX_DIRS = [''inbox'', ''processing'', ''archive'', ''_corrupt'']"

definition stats :: "string \<Rightarrow> string \<Rightarrow> fs \<Rightarrow> store_error + (string \<times> nat) list" where
  "stats sid aid s = (case check_agent sid aid of
       Some e \<Rightarrow> Inl e
     | None \<Rightarrow> Inr (map (\<lambda>d. (d, length (list_messages (agent_subdir sid aid d) s))) BOX_DIRS))"

section \<open>Clearing folders\<close>

text \<open>Deleting every entry of a folder that matches \<open>*.json\<close>, and how many there were.\<close>

definition delete_json :: "path \<Rightarrow> fs \<Rightarrow> nat \<times> fs" where
  "delete_json d s =
     (if \<not> exists_at s d then (0, s)
      else (let ns = filter (glob_match [] dot_json) (children s d) in
        (length ns, fold (\<lambda>n. unlink (d @ [n])) ns s)))"

definition clear ::
  "(string \<Rightarrow> bool) \<Rightarrow> instant \<Rightarrow> bool \<Rightarrow> string \<Rightarrow> string \<Rightarrow> fs \<Rightarrow> (store_error + nat) \<times> fs" where
  "clear parked now prune_stale sid aid s =
     (if parked aid then (Inl ParkLeaseActive, s)
      else case check_agent sid aid of
        Some e \<Rightarrow> (Inl e, s)
      | None \<Rightarrow> (case delete_json (archive_dir sid aid) s of
          (n, s1) \<Rightarrow>
            if prune_stale then
              (case recover_stale now sid aid s1 of
                 (Inl e, s2) \<Rightarrow> (Inl e, s2) | (Inr _, s2) \<Rightarrow> (Inr n, s2))
            else (Inr n, s1)))"

definition purge :: "string \<Rightarrow> string \<Rightarrow> fs \<Rightarrow> (store_error + nat) \<times> fs" where
  "purge sid aid s = (case check_agent sid aid of
       Some e \<Rightarrow> (Inl e, s)
     | None \<Rightarrow> (case delete_json (corrupt_dir sid aid) s of (n, s1) \<Rightarrow> (Inr n, s1)))"

section \<open>Retention\<close>

text \<open>The roster in the order of the agent names; a missing session file has none.\<close>

definition session_members :: "string \<Rightarrow> fs \<Rightarrow> store_error + string list" where
  "session_members sid s = (case read_session sid s of
       Inl e \<Rightarrow> Inl e
     | Inr None \<Rightarrow> Inr []
     | Inr (Some meta) \<Rightarrow>
         if \<not> truthy meta then Inr []
         else (case meta_roster meta of
             None \<Rightarrow> Inl PyTypeError
           | Some r \<Rightarrow> Inr (filter (\<lambda>a. a \<noteq> []) r)))"

definition has_pending :: "path \<Rightarrow> fs \<Rightarrow> bool" where
  "has_pending d s \<longleftrightarrow> is_dir_at s d \<and>
     list_ex (\<lambda>n. is_file_at s (d @ [n]) \<and> suffix dot_json n \<and> \<not> prefix ''.'' n) (children s d)"

text \<open>Whether one of the claim files is within its lease; one that is no object raises.\<close>

fun any_fresh_claim :: "instant \<Rightarrow> path \<Rightarrow> fs \<Rightarrow> string list \<Rightarrow> store_error + bool" where
  "any_fresh_claim now proc s [] = Inr False"
| "any_fresh_claim now proc s (c # cs) = (case load_at s (proc @ [c]) of
       Loaded (JObj d) \<Rightarrow> (case claimed_ts d of
           None \<Rightarrow> any_fresh_claim now proc s cs
         | Some ts \<Rightarrow> if lease_cutoff now \<le> ts then Inr True else any_fresh_claim now proc s cs)
     | Loaded _ \<Rightarrow> Inl PyTypeError
     | _ \<Rightarrow> any_fresh_claim now proc s cs)"

fun any_member_busy :: "instant \<Rightarrow> string \<Rightarrow> fs \<Rightarrow> string list \<Rightarrow> store_error + bool" where
  "any_member_busy now sid s [] = Inr False"
| "any_member_busy now sid s (aid # aids) = (case check_agent sid aid of
       Some e \<Rightarrow> Inl e
     | None \<Rightarrow>
         (let proc = processing_dir sid aid in
          if has_pending (inbox_dir sid aid) s then Inr True
          else if is_dir_at s proc then
            (if has_pending proc s then Inr True
             else (case any_fresh_claim now proc s
                     (filter (glob_match ''.claim-'' dot_json) (children s proc)) of
                 Inl e \<Rightarrow> Inl e
               | Inr True \<Rightarrow> Inr True
               | Inr False \<Rightarrow> any_member_busy now sid s aids))
          else any_member_busy now sid s aids))"

definition outbox_dir :: "string \<Rightarrow> path" where
  "outbox_dir sid = [''_outbox'', sid]"

definition dead_letter_dir :: "string \<Rightarrow> path" where
  "dead_letter_dir sid = [''_dead_letter'', sid]"

definition session_has_unfinished_work :: "instant \<Rightarrow> string \<Rightarrow> fs \<Rightarrow> store_error + bool" where
  "session_has_unfinished_work now sid s = (case session_members sid s of
       Inl e \<Rightarrow> Inl e
     | Inr aids \<Rightarrow> (case any_member_busy now sid s aids of
           Inl e \<Rightarrow> Inl e
         | Inr True \<Rightarrow> Inr True
         | Inr False \<Rightarrow> Inr (is_dir_at s (outbox_dir sid) \<and>
             list_ex (\<lambda>n. is_file_at s (outbox_dir sid @ [n])) (children s (outbox_dir sid)))))"

definition session_has_active_park_lease :: "(string \<Rightarrow> bool) \<Rightarrow> string \<Rightarrow> fs \<Rightarrow> bool" where
  "session_has_active_park_lease parked sid s = (case session_members sid s of
       Inl _ \<Rightarrow> False
     | Inr aids \<Rightarrow> list_ex parked aids)"

text \<open>
  When a session was created: now, when the file does not say or says it in a form that does not
  parse; a value of another type raises.
\<close>

definition session_created :: "instant \<Rightarrow> json option \<Rightarrow> store_error + instant" where
  "session_created now meta =
     (let created = (\<lambda>v. if \<not> truthy v then Inr now
            else (case v of
                JStr x \<Rightarrow> (case fromisoformat x of None \<Rightarrow> Inr now | Some t \<Rightarrow> Inr t)
              | _ \<Rightarrow> Inl PyTypeError)) in
      case meta of
        None \<Rightarrow> Inr now
      | Some (JObj d) \<Rightarrow> created (dget_or d ''created_at'' (JStr []))
      | Some v \<Rightarrow> if truthy v then Inl PyTypeError else Inr now)"

definition remove_session :: "string \<Rightarrow> fs \<Rightarrow> fs" where
  "remove_session sid s =
     rmtree (dead_letter_dir sid) (rmtree (outbox_dir sid) (rmtree (session_dir sid) s))"

fun clean_loop ::
  "(string \<Rightarrow> bool) \<Rightarrow> instant \<Rightarrow> instant \<Rightarrow> string list \<Rightarrow> fs \<Rightarrow>
   (store_error + string list \<times> string list) \<times> fs" where
  "clean_loop parked now cutoff [] s = (Inr ([], []), s)"
| "clean_loop parked now cutoff (sid # sids) s =
     (let skip = clean_loop parked now cutoff sids s;
          put = (\<lambda>f r. case r of (Inl e, s') \<Rightarrow> (Inl e, s') | (Inr p, s') \<Rightarrow> (Inr (f p), s')) in
      if \<not> is_dir_at s [sid] \<or> prefix ''.'' sid \<or> prefix ''_'' sid then skip
      else case read_session sid s of
        Inl _ \<Rightarrow> skip
      | Inr meta \<Rightarrow> (case session_created now meta of
            Inl e \<Rightarrow> (Inl e, s)
          | Inr ts \<Rightarrow>
              if cutoff \<le> ts then skip
              else case session_has_unfinished_work now sid s of
                Inl e \<Rightarrow> (Inl e, s)
              | Inr busy \<Rightarrow>
                  if busy \<or> session_has_active_park_lease parked sid s
                  then put (\<lambda>(rs, ks). (rs, sid # ks)) skip
                  else put (\<lambda>(rs, ks). (sid # rs, ks))
                    (clean_loop parked now cutoff sids (remove_session sid s))))"

definition clean_older_than ::
  "(string \<Rightarrow> bool) \<Rightarrow> instant \<Rightarrow> int \<Rightarrow> fs \<Rightarrow>
   (store_error + string list \<times> string list) \<times> fs" where
  "clean_older_than parked now days s =
     (if days < 0 then (Inl BadDays, s)
      else if \<not> is_dir_at s [] then (Inr ([], []), s)
      else clean_loop parked now (now - of_int days * 86400) (sort (children s [])) s)"

section \<open>Legacy check\<close>

fun check_loop ::
  "string \<Rightarrow> string \<Rightarrow> string list \<Rightarrow> fs \<Rightarrow> (store_error + dict list) \<times> fs" where
  "check_loop sid aid [] s = (Inr [], s)"
| "check_loop sid aid (f # fs) s =
     (let inb = inbox_dir sid aid @ [f] in
      case load_at s inb of
        Missing \<Rightarrow> (Inl PyOSError, s)
      | Undecodable \<Rightarrow> check_loop sid aid fs (quarantine sid aid f s)
      | Loaded j \<Rightarrow> (case validate_message j None (Some aid) (Some f) of
            RaisesTypeError \<Rightarrow> (Inl PyTypeError, s)
          | Invalid _ \<Rightarrow> check_loop sid aid fs (quarantine sid aid f s)
          | Valid \<Rightarrow> (case check_loop sid aid fs
                (move inb (archive_dir sid aid @ [f]) (mkdirs (archive_dir sid aid) s)) of
              (Inl e, s') \<Rightarrow> (Inl e, s')
            | (Inr ms, s') \<Rightarrow> (Inr ((case j of JObj d \<Rightarrow> d | _ \<Rightarrow> []) # ms), s'))))"

definition check :: "nat \<Rightarrow> string \<Rightarrow> string \<Rightarrow> fs \<Rightarrow> (store_error + dict list) \<times> fs" where
  "check max_messages sid aid s = (case check_agent sid aid of
       Some e \<Rightarrow> (Inl e, s)
     | None \<Rightarrow>
         (let files = list_messages (inbox_dir sid aid) s in
          check_loop sid aid (take (if max_messages = 0 then length files else max_messages) files) s))"

section \<open>Cleanup removes only finished sessions\<close>

text \<open>Two trees that hold the same files of one session and of its outbox.\<close>

definition same_session :: "string \<Rightarrow> fs \<Rightarrow> fs \<Rightarrow> bool" where
  "same_session sid s s' \<longleftrightarrow>
     (\<forall>x. node_at s' (sid # x) = node_at s (sid # x)) \<and>
     (\<forall>x. node_at s' (outbox_dir sid @ x) = node_at s (outbox_dir sid @ x)) \<and>
     (\<forall>x. children s' (sid # x) = children s (sid # x)) \<and>
     children s' (outbox_dir sid) = children s (outbox_dir sid)"

lemma same_session_node:
  assumes "same_session sid s s'"
  shows "load_at s' (sid # x) = load_at s (sid # x)" "is_dir_at s' (sid # x) = is_dir_at s (sid # x)"
    "is_file_at s' (sid # x) = is_file_at s (sid # x)" "children s' (sid # x) = children s (sid # x)"
  using assms by (simp_all add: same_session_def load_at_def is_dir_at_def is_file_at_def)

lemma same_session_outbox:
  assumes "same_session sid s s'"
  shows "is_dir_at s' (outbox_dir sid) = is_dir_at s (outbox_dir sid)"
    "is_file_at s' (outbox_dir sid @ x) = is_file_at s (outbox_dir sid @ x)"
    "children s' (outbox_dir sid) = children s (outbox_dir sid)"
proof -
  have "node_at s' (outbox_dir sid @ []) = node_at s (outbox_dir sid @ [])"
    using assms unfolding same_session_def by blast
  then show "is_dir_at s' (outbox_dir sid) = is_dir_at s (outbox_dir sid)"
    by (simp add: is_dir_at_def)
  show "is_file_at s' (outbox_dir sid @ x) = is_file_at s (outbox_dir sid @ x)"
    "children s' (outbox_dir sid) = children s (outbox_dir sid)"
    using assms by (simp_all add: same_session_def is_file_at_def)
qed

lemma read_session_same:
  assumes "same_session sid s s'"
  shows "read_session sid s' = read_session sid s"
proof -
  have "load_at s' (session_file sid) = load_at s (session_file sid)"
    using same_session_node(1) [OF assms, of "[''session.json'']"] by (simp add: dir_defs)
  then show ?thesis by (simp only: read_session_def)
qed

lemma has_pending_same:
  assumes "same_session sid s s'"
  shows "has_pending (sid # x) s' = has_pending (sid # x) s"
  using same_session_node [OF assms] by (simp add: has_pending_def)

lemma any_fresh_claim_same:
  assumes "same_session sid s s'"
  shows "any_fresh_claim now (sid # x) s' cs = any_fresh_claim now (sid # x) s cs"
proof (induction cs)
  case (Cons c cs)
  then show ?case
    using same_session_node(1) [OF assms, of "x @ [c]"]
    by (simp split: loaded.splits json.splits option.splits)
qed simp

lemma any_member_busy_same:
  assumes "same_session sid s s'"
  shows "any_member_busy now sid s' aids = any_member_busy now sid s aids"
proof (induction aids)
  case (Cons aid aids)
  have "has_pending (inbox_dir sid aid) s' = has_pending (inbox_dir sid aid) s"
    "has_pending (processing_dir sid aid) s' = has_pending (processing_dir sid aid) s"
    "is_dir_at s' (processing_dir sid aid) = is_dir_at s (processing_dir sid aid)"
    "children s' (processing_dir sid aid) = children s (processing_dir sid aid)"
    "any_fresh_claim now (processing_dir sid aid) s' cs = any_fresh_claim now (processing_dir sid aid) s cs" for cs
    unfolding dir_defs
    by (simp_all add: has_pending_same [OF assms] same_session_node [OF assms] any_fresh_claim_same [OF assms])
  with Cons show ?case by (simp only: any_member_busy.simps Let_def)
qed simp

lemma session_members_same:
  "same_session sid s s' \<Longrightarrow> session_members sid s' = session_members sid s"
  by (simp only: session_members_def read_session_same)

lemma unfinished_same:
  assumes "same_session sid s s'"
  shows "session_has_unfinished_work now sid s' = session_has_unfinished_work now sid s"
  using same_session_outbox [OF assms]
  by (simp only: session_has_unfinished_work_def session_members_same [OF assms]
      any_member_busy_same [OF assms])

lemma park_lease_same:
  "same_session sid s s' \<Longrightarrow>
   session_has_active_park_lease parked sid s' = session_has_active_park_lease parked sid s"
  by (simp only: session_has_active_park_lease_def session_members_same)

lemma children_rmtree:
  "(\<And>n. \<not> prefix p (d @ [n])) \<Longrightarrow> children (rmtree p s) d = children s d"
proof -
  assume *: "\<And>n. \<not> prefix p (d @ [n])"
  have "filter (\<lambda>q. q \<noteq> [] \<and> butlast q = d) (map fst (filter (\<lambda>(q, _). \<not> prefix p q) s)) =
      filter (\<lambda>q. q \<noteq> [] \<and> butlast q = d) (map fst s)"
  proof (induction s)
    case (Cons a s)
    have "\<not> prefix p (fst a)" if "fst a \<noteq> []" "butlast (fst a) = d"
      using * [of "last (fst a)"] that by (metis append_butlast_last_id)
    with Cons show ?case by (cases a) auto
  qed simp
  then show ?thesis by (simp add: children_def rmtree_def)
qed

definition plain_name :: "string \<Rightarrow> bool" where
  "plain_name sid \<longleftrightarrow> \<not> prefix ''.'' sid \<and> \<not> prefix ''_'' sid"

lemma plain_name_neq: "plain_name sid \<Longrightarrow> sid \<noteq> ''_outbox'' \<and> sid \<noteq> ''_dead_letter'' \<and>
    ''_outbox'' \<noteq> sid \<and> ''_dead_letter'' \<noteq> sid"
  by (auto simp: plain_name_def)

lemma remove_session_same:
  assumes "plain_name sid" "plain_name h" "sid \<noteq> h"
  shows "same_session sid s (remove_session h s)"
proof -
  note ne = plain_name_neq [OF assms(1)] plain_name_neq [OF assms(2)] assms(3)
  have "node_at (remove_session h s) (sid # x) = node_at s (sid # x)"
    "node_at (remove_session h s) (outbox_dir sid @ x) = node_at s (outbox_dir sid @ x)"
    "children (remove_session h s) (sid # x) = children s (sid # x)"
    "children (remove_session h s) (outbox_dir sid) = children s (outbox_dir sid)" for x
    using ne by (simp_all add: remove_session_def fs_simps dir_defs outbox_dir_def dead_letter_dir_def
        children_rmtree)
  then show ?thesis by (simp add: same_session_def)
qed

lemma clean_loop_step:
  assumes "clean_loop parked now cutoff (h # sids) s = (Inr (rs, ks), s')"
  obtains (skip) rs' ks' where "clean_loop parked now cutoff sids s = (Inr (rs', ks'), s')" "rs = rs'"
  | (remove) rs' ts meta where
      "clean_loop parked now cutoff sids (remove_session h s) = (Inr (rs', ks), s')" "rs = h # rs'"
      "plain_name h" "is_dir_at s [h]" "read_session h s = Inr meta"
      "session_created now meta = Inr ts" "ts < cutoff"
      "session_has_unfinished_work now h s = Inr False"
      "\<not> session_has_active_park_lease parked h s"
  using assms
  by (auto simp: Let_def plain_name_def not_le split: if_splits sum.splits prod.splits)

lemma is_dir_remove: "\<not> is_dir_at (remove_session h s) [h]"
  by (simp add: is_dir_at_def remove_session_def fs_simps dir_defs)

lemma clean_loop_dir:
  "clean_loop parked now cutoff sids s = (Inr (rs, ks), s') \<Longrightarrow> sid \<in> set rs \<Longrightarrow>
   plain_name sid \<and> (\<forall>s0. same_session sid s0 s \<longrightarrow> is_dir_at s0 [sid]) \<and> is_dir_at s [sid]"
proof (induction sids arbitrary: s rs ks)
  case (Cons h sids)
  from Cons.prems(1) show ?case
  proof (cases rule: clean_loop_step)
    case (skip rs' ks')
    with Cons show ?thesis by blast
  next
    case (remove rs' ts meta)
    show ?thesis
    proof (cases "sid = h")
      case True
      with remove show ?thesis
        using same_session_node(2) [of h _ s "[]"] by auto
    next
      case False
      with Cons.prems(2) remove(2) have "sid \<in> set rs'" by simp
      from Cons.IH [OF remove(1) this] have "plain_name sid" "is_dir_at (remove_session h s) [sid]"
        by auto
      then have "is_dir_at s [sid]"
        using same_session_node(2) [OF remove_session_same [OF _ remove(3) False], of _ "[]"] by auto
      then show ?thesis
        using \<open>plain_name sid\<close> same_session_node(2) [of sid _ s "[]"] by auto
    qed
  qed
qed simp

text \<open>What was true of a session that the cleanup removed, before it started.\<close>

definition removable :: "(string \<Rightarrow> bool) \<Rightarrow> instant \<Rightarrow> instant \<Rightarrow> string \<Rightarrow> fs \<Rightarrow> bool" where
  "removable parked now cutoff sid s \<longleftrightarrow>
     session_has_unfinished_work now sid s = Inr False \<and>
     \<not> session_has_active_park_lease parked sid s \<and>
     (\<exists>meta ts. read_session sid s = Inr meta \<and> session_created now meta = Inr ts \<and> ts < cutoff)"

lemma removable_same:
  "same_session sid s s' \<Longrightarrow> removable parked now cutoff sid s' = removable parked now cutoff sid s"
  by (simp only: removable_def unfinished_same park_lease_same read_session_same)

lemma clean_loop_removable:
  "clean_loop parked now cutoff sids s = (Inr (rs, ks), s') \<Longrightarrow> sid \<in> set rs \<Longrightarrow>
   removable parked now cutoff sid s"
proof (induction sids arbitrary: s rs ks)
  case (Cons h sids)
  from Cons.prems(1) show ?case
  proof (cases rule: clean_loop_step)
    case (skip rs' ks')
    with Cons show ?thesis by blast
  next
    case (remove rs' ts meta)
    show ?thesis
    proof (cases "sid = h")
      case True
      with remove show ?thesis by (auto simp: removable_def)
    next
      case False
      with Cons.prems(2) remove(2) have "sid \<in> set rs'" by simp
      with Cons.IH [OF remove(1)] clean_loop_dir [OF remove(1)]
      have "removable parked now cutoff sid (remove_session h s)" "plain_name sid" by auto
      with removable_same [OF remove_session_same [OF _ remove(3) False]] show ?thesis by blast
    qed
  qed
qed simp

lemma clean_loop_kept:
  "clean_loop parked now cutoff sids s = (Inr (rs, ks), s') \<Longrightarrow> sid \<notin> set rs \<Longrightarrow> plain_name sid \<Longrightarrow>
   same_session sid s s'"
proof (induction sids arbitrary: s rs ks)
  case (Cons h sids)
  from Cons.prems(1) show ?case
  proof (cases rule: clean_loop_step)
    case (skip rs' ks')
    with Cons show ?thesis by blast
  next
    case (remove rs' ts meta)
    then have "same_session sid (remove_session h s) s'" "sid \<noteq> h"
      using Cons.IH [OF remove(1)] Cons.prems(2,3) by auto
    with remove_session_same [OF Cons.prems(3) remove(3), of s] show ?thesis
      by (simp add: same_session_def)
  qed
qed (simp add: same_session_def)

text \<open>
  Retention never deletes live work. Every session that \<open>clean_older_than\<close> removes was older than
  the limit, had no message pending or in flight, no claim within its lease and no queued delivery
  for any member, and no member with an active park lease; and every session it did not remove
  still has all its files.
\<close>

theorem cleanup_spares_live_sessions:
  assumes "clean_older_than parked now days s = (Inr (removed, skipped), s')"
  shows "(\<forall>sid \<in> set removed. removable parked now (now - of_int days * 86400) sid s) \<and>
    (\<forall>sid. plain_name sid \<longrightarrow> sid \<notin> set removed \<longrightarrow> same_session sid s s')"
proof (cases "is_dir_at s []")
  case True
  then have c: "clean_loop parked now (now - of_int days * 86400) (sort (children s [])) s =
      (Inr (removed, skipped), s')"
    using assms by (simp add: clean_older_than_def split: if_splits)
  then show ?thesis using clean_loop_removable [OF c] clean_loop_kept [OF c] by blast
next
  case False
  then show ?thesis
    using assms by (auto simp: clean_older_than_def same_session_def split: if_splits)
qed

text \<open>A pending message of a member is unfinished work.\<close>

lemma pending_is_unfinished:
  assumes "session_members sid s = Inr aids" "aid \<in> set aids" "has_pending (inbox_dir sid aid) s"
  shows "session_has_unfinished_work now sid s \<noteq> Inr False"
proof -
  have "any_member_busy now sid s aids \<noteq> Inr False"
    using assms(2,3)
    by (induction aids) (auto simp: Let_def split: option.splits if_splits sum.splits bool.splits)
  with assms(1) show ?thesis
    by (auto simp: session_has_unfinished_work_def split: sum.splits bool.splits)
qed

section \<open>Counters and the legacy check\<close>

text \<open>
  The counter of \<open>processing/\<close> counts every name that ends in \<open>.json\<close>, so a claimed message counts
  twice: once itself and once as its claim file.
\<close>

lemma stats_counts_claims:
  "\<exists>ns. stats ''s1'' ''w1'' (example_box (Some ''processing'') True) = Inr ns \<and>
     map_of ns ''processing'' = Some 2"
  by (rule exI [of _ "[(''inbox'', 0), (''processing'', 2), (''archive'', 0), (''_corrupt'', 0)]"]) code_simp

lemma stored_check_loop:
  "check_loop sid aid fs s = (r, s') \<Longrightarrow> stored sid aid n s \<Longrightarrow> stored sid aid n s'"
proof (induction fs arbitrary: r s)
  case (Cons f fs)
  have "stored sid aid n (move (inbox_dir sid aid @ [f]) (archive_dir sid aid @ [f])
      (mkdirs (archive_dir sid aid) s))"
    by (rule stored_move [where sub = "''inbox''" and sub' = "''archive''"])
       (use Cons.prems(2) in \<open>auto simp: box_defs stored_mkdirs\<close>)
  moreover have "stored sid aid n (quarantine sid aid f s)"
    using Cons.prems(2) by (rule stored_quarantine)
  ultimately show ?case
    using Cons by (auto simp: Let_def split: loaded.splits verdict.splits prod.splits sum.splits)
qed simp

lemma check_loses_nothing:
  "check k sid aid s = (r, s') \<Longrightarrow> stored sid aid n s \<Longrightarrow> stored sid aid n s'"
  by (auto simp: check_def Let_def split: option.splits dest: stored_check_loop)

definition example_old :: fs where
  "example_old = [([], Dir), ([''s9''], Dir), ([''s9'', ''session.json''],
     File (Doc (JObj [(''manager'', JStr ''boss''), (''created_at'', JStr ''1970-01-01T00:16:40Z'')])) 0)]"

theorem cleanup_spares_live_sessions_witness:
  "\<exists>s'. clean_older_than (\<lambda>_. False) 900000 1 example_old = (Inr ([''s9''], []), s') \<and>
     session_has_unfinished_work 900000 ''s9'' example_old = Inr False"
proof -
  let ?r = "clean_older_than (\<lambda>_. False) 900000 1 example_old"
  have "fst ?r = Inr ([''s9''], [])" by code_simp
  then have "?r = (Inr ([''s9''], []), snd ?r)" by (simp add: prod_eq_iff)
  from cleanup_spares_live_sessions [OF this] this show ?thesis by (auto simp: removable_def)
qed

end
