(* ===== verification/Store_Leases.thy ===== *)
theory Store_Leases
  imports Store_Claims
begin

text \<open>
  The life of a claim: who may finalize or release a claimed message, how long a lease lasts, what
  renewal and stale-claim recovery do to it, and what a replayed send does to a message that was
  already consumed. The definitions are those of \<open>Store_Claims\<close> and \<open>Store_Send\<close>.
\<close>

section \<open>The life of a claim\<close>

lemma validate_msg_id_visible: "validate_msg_id m \<Longrightarrow> visible m \<and> m \<noteq> []"
  by (cases m) (auto simp: validate_msg_id_def visible_def is_alnum_not_dot)

lemma visible_json_name: "visible m \<Longrightarrow> visible (json_name m)"
  by (simp add: visible_def json_name_def)

lemma stem_json_name: "m \<noteq> [] \<Longrightarrow> stem (json_name m) = m"
  by (simp add: json_name_def)

lemma read_check: "read fuel clock nonce sid aid owner skip target s = Some (Inr r, s') \<Longrightarrow>
    check_agent sid aid = None"
  by (auto simp: read_def split: option.splits)

lemma claim_owner_ok:
  "load_at s p = Loaded (JObj (claim_meta t owner m)) \<Longrightarrow>
   claim_owner_error s p owner' = (if owner' = owner then None else Some OwnerMismatch)"
  by (simp add: claim_owner_error_def claim_meta_def dget_def)

text \<open>
  C4. Two-phase consumption. After a \<open>read\<close> that is the only claim on its message, the reader can
  finalize it, which moves it unchanged to the archive and drops the claim, or release it, which
  puts it back into the inbox unchanged and drops the claim; anyone else is refused both with
  nothing changed.
\<close>

theorem claim_owner_decides:
  assumes "read fuel clock nonce sid aid owner skip target s = Some (Inr (Some msg), s')"
    and "m = sget msg ''msg_id''" "validate_msg_id m"
    and "claims_of sid aid m s' = [claim_name m owner]"
  shows "(\<exists>s1. finalize sid aid m owner s' = (Inr (), s1) \<and>
      load_at s1 (archive_file sid aid m) = Loaded (JObj msg) \<and>
      \<not> exists_at s1 (processing_file sid aid m) \<and> \<not> exists_at s1 (inbox_file sid aid m) \<and>
      \<not> exists_at s1 (processing_dir sid aid @ [claim_name m owner])) \<and>
    (\<exists>s2. release sid aid m owner s' = (Inr (), s2) \<and>
      load_at s2 (inbox_file sid aid m) = Loaded (JObj msg) \<and>
      \<not> exists_at s2 (processing_file sid aid m) \<and>
      \<not> exists_at s2 (processing_dir sid aid @ [claim_name m owner])) \<and>
    (\<forall>owner'. owner' \<noteq> owner \<longrightarrow> finalize sid aid m owner' s' = (Inl OwnerMismatch, s') \<and>
      release sid aid m owner' s' = (Inl OwnerMismatch, s'))"
proof -
  let ?p = "processing_dir sid aid" and ?i = "inbox_dir sid aid" and ?a = "archive_dir sid aid"
  let ?c = "claim_name m owner" and ?f = "json_name m"
  have m: "stem ?f = m" using validate_msg_id_visible [OF assms(3)] by (simp add: stem_json_name)
  obtain k where pf: "load_at s' (?p @ [?f]) = Loaded (JObj msg)" "\<not> exists_at s' (?i @ [?f])"
    and cf: "load_at s' (?p @ [?c]) = Loaded (JObj (claim_meta (clock k) owner m))"
    using read_result [OF assms(1)] by (auto simp: Let_def m assms(2) [symmetric])
  obtain t where t: "node_at s' (?p @ [?f]) = Some (File (Doc (JObj msg)) t)"
    using pf(1) by (auto simp: load_at_File)
  have ne: "?c \<noteq> ?f" using claim_name_longer(1) [of ?f owner] m by simp
  have ok: "check_ids sid aid m = None"
    using read_check [OF assms(1)] assms(3) by (simp add: check_ids_def)
  have ex: "exists_at s' (?p @ [?f])" using pf(1) by (rule loaded_exists)
  note defs = processing_file_def inbox_file_def archive_file_def
  have fin: "finalize sid aid m o' s' = (if o' = owner then (Inr (), unlink (?p @ [?c])
      (move (?p @ [?f]) (?a @ [?f]) (mkdirs ?a s'))) else (Inl OwnerMismatch, s'))" for o'
    using ok assms(4) ex by (simp add: finalize_def claim_owner_ok [OF cf] defs)
  have rel: "release sid aid m o' s' = (if o' = owner then (Inr (), unlink (?p @ [?c])
      (move (?p @ [?f]) (?i @ [?f]) s')) else (Inl OwnerMismatch, s'))" for o'
    using ok assms(4) ex by (simp add: release_def claim_owner_ok [OF cf] defs)
  have t1: "node_at (mkdirs ?a s') (?p @ [?f]) = Some (File (Doc (JObj msg)) t)"
    by (simp add: fs_simps t)
  have "\<not> exists_at (mkdirs ?a s') (?i @ [?f])"
    using pf(2) by (simp add: exists_at_def fs_simps archive_dir_def)
  then show ?thesis
    unfolding fin rel using t t1 ne
    by (auto simp: defs load_at_def exists_at_def fs_simps node_at_move)
qed

section \<open>Leases\<close>

text \<open>A claim file that says its message was claimed before the cutoff.\<close>

definition claim_stale :: "instant \<Rightarrow> string \<Rightarrow> string \<Rightarrow> fs \<Rightarrow> string \<Rightarrow> string \<Rightarrow> bool" where
  "claim_stale now sid aid s c m \<longleftrightarrow>
     (case load_at s (processing_dir sid aid @ [c]) of
        Loaded (JObj d) \<Rightarrow> (case claimed_ts d of
            Some ts \<Rightarrow> claim_msg_id c d = Some m \<and> ts < lease_cutoff now
          | None \<Rightarrow> False)
      | _ \<Rightarrow> False)"

definition claim_files :: "string \<Rightarrow> string \<Rightarrow> fs \<Rightarrow> string list" where
  "claim_files sid aid s =
     sort (filter (glob_match ''.claim-'' dot_json) (children s (processing_dir sid aid)))"

lemma recover_one_cases:
  assumes "recover_one now sid aid c s = (r, s')"
  shows "s' = s \<or> s' = unlink (processing_dir sid aid @ [c]) s \<or>
    (\<exists>m. claim_stale now sid aid s c m \<and> s' = unlink (processing_dir sid aid @ [c])
       (move (processing_file sid aid m) (inbox_file sid aid m) s))"
  using assms
  by (auto simp: recover_one_def Let_def claim_stale_def not_le
      split: loaded.splits json.splits option.splits if_splits)

lemma recover_one_stale:
  "claim_stale now sid aid s c m \<Longrightarrow> exists_at s (processing_file sid aid m) \<Longrightarrow>
   recover_one now sid aid c s = (Inr 1, unlink (processing_dir sid aid @ [c])
     (move (processing_file sid aid m) (inbox_file sid aid m) s))"
  by (auto simp: recover_one_def Let_def claim_stale_def not_le
      split: loaded.splits json.splits option.splits)

lemma claim_stale_cong:
  "node_at s' (processing_dir sid aid @ [c]) = node_at s (processing_dir sid aid @ [c]) \<Longrightarrow>
   claim_stale now sid aid s' c m = claim_stale now sid aid s c m"
  using load_at_cong [of s' "processing_dir sid aid @ [c]" s "processing_dir sid aid @ [c]"]
  by (simp only: claim_stale_def)

text \<open>
  One claim of the scan touches its own file and, when it is stale, the message it names; claims
  name visible messages here, so no other claim file changes.
\<close>

lemma recover_one_frame:
  assumes "recover_one now sid aid c s = (r, s')"
    and "\<forall>m. claim_stale now sid aid s c m \<longrightarrow> visible m"
    and "\<not> visible x" "x \<noteq> c"
  shows "node_at s' (processing_dir sid aid @ [x]) = node_at s (processing_dir sid aid @ [x])"
proof -
  have "x \<noteq> json_name m" if "visible m" for m
    using visible_json_name [OF that] assms(3) by auto
  with recover_one_cases [OF assms(1)] assms(2,4) show ?thesis
    by (auto simp: fs_simps node_at_move processing_file_def inbox_file_def split: option.splits)
qed

lemma recover_claims_active:
  assumes "recover_claims now sid aid cs s = (r, s')"
    and "distinct cs" "\<forall>c \<in> set cs. \<not> visible c" "visible m"
    and "\<forall>c \<in> set cs. \<forall>m'. claim_stale now sid aid s c m' \<longrightarrow> visible m' \<and> m' \<noteq> m"
  shows "node_at s' (processing_file sid aid m) = node_at s (processing_file sid aid m)"
  using assms
proof (induction cs arbitrary: r s s')
  case (Cons c cs)
  obtain r1 s1 where 1: "recover_one now sid aid c s = (r1, s1)" by fastforce
  have keep: "node_at s1 (processing_file sid aid m) = node_at s (processing_file sid aid m)"
    using recover_one_cases [OF 1] Cons.prems(3-5) visible_json_name [of m]
    by (auto simp: processing_file_def inbox_file_def fs_simps node_at_move split: option.splits)
  show ?case
  proof (cases r1)
    case (Inl e)
    with 1 keep Cons.prems(1) show ?thesis by auto
  next
    case (Inr k)
    obtain r2 s2 where 2: "recover_claims now sid aid cs s1 = (r2, s2)" by fastforce
    have "claim_stale now sid aid s1 x m' = claim_stale now sid aid s x m'" if "x \<in> set cs" for x m'
      by (intro claim_stale_cong recover_one_frame [OF 1]) (use that Cons.prems in auto)
    then have "node_at s2 (processing_file sid aid m) = node_at s1 (processing_file sid aid m)"
      using Cons.prems by (intro Cons.IH [OF 2]) auto
    with 1 2 Inr keep Cons.prems(1) show ?thesis by (auto split: sum.splits)
  qed
qed simp

lemma node_at_sweep:
  assumes "visible (last x)"
  shows "node_at (sweep_tmp_claims now sid aid s) x = node_at s x"
proof -
  have "node_at (fold (\<lambda>c s. let p = processing_dir sid aid @ [c] in
         if is_file_at s p \<and> mtime_at s p < orphan_age_gate now then unlink p s else s) cs s) x = node_at s x"
    if "\<forall>c \<in> set cs. \<not> visible c" for cs
    using that
  proof (induction cs arbitrary: s)
    case (Cons c cs)
    then have "x \<noteq> processing_dir sid aid @ [c]" using assms by auto
    with Cons show ?case by (auto simp: Let_def fs_simps)
  qed simp
  from this [of "sort (filter (glob_match ''.tmp-claim-'' dot_json) (children s (processing_dir sid aid)))"]
  show ?thesis by (auto simp: sweep_tmp_claims_def dest: glob_dot)
qed

lemma recover_stale_cases:
  assumes "recover_stale now sid aid s = (r, s')"
  shows "s' = s \<or> (\<exists>r1 s1. recover_claims now sid aid (claim_files sid aid s) s = (r1, s1) \<and>
    (s' = s1 \<or> s' = sweep_tmp_claims now sid aid s1))"
  using assms
  by (auto simp: recover_stale_def claim_files_def split: option.splits if_splits prod.splits sum.splits)

lemma claim_files_props: "fs_ok s \<Longrightarrow> distinct (claim_files sid aid s)"
  "c \<in> set (claim_files sid aid s) \<Longrightarrow> \<not> visible c"
  by (auto simp: claim_files_def distinct_children dest: glob_dot)

text \<open>
  A running task keeps its message. If every claim on a message in \<open>processing/\<close> was taken or
  renewed less than 3570 seconds ago (the lease minus the tolerance), no call of \<open>recover_stale\<close>
  touches the message, whatever other claims it recovers, as long as stale claims name ordinary
  messages.
\<close>

theorem recover_stale_keeps_active:
  assumes "recover_stale now sid aid s = (r, s')" and "fs_ok s" "visible m"
    and "\<forall>c \<in> set (claim_files sid aid s). \<forall>m'. claim_stale now sid aid s c m' \<longrightarrow> visible m' \<and> m' \<noteq> m"
  shows "node_at s' (processing_file sid aid m) = node_at s (processing_file sid aid m)"
proof -
  have "node_at s1 (processing_file sid aid m) = node_at s (processing_file sid aid m)"
    if "recover_claims now sid aid (claim_files sid aid s) s = (r1, s1)" for r1 s1
    by (rule recover_claims_active [OF that])
       (use assms in \<open>auto simp: claim_files_props(1) dest: claim_files_props(2)\<close>)
  moreover have "visible (last (processing_file sid aid m))"
    using visible_json_name [OF assms(3)] by (simp add: processing_file_def)
  ultimately show ?thesis
    using recover_stale_cases [OF assms(1)] node_at_sweep by metis
qed

text \<open>How a claim that \<open>read\<close> or \<open>renew_claim\<close> wrote at one instant is judged at a later one.\<close>

lemma claimed_ts_stamp:
  "dget_or c ''claimed_at'' (JStr []) = JStr (iso_format t) \<Longrightarrow> iso_range t \<Longrightarrow>
   claimed_ts c = Some (of_int \<lfloor>t\<rfloor>)"
  by (simp add: claimed_ts_def fromisoformat_iso_format)

text \<open>
  The length of a lease. A claim that \<open>read\<close> wrote at time \<open>t\<close> is stale for the recovery at time
  \<open>now\<close> exactly when more than 3570 seconds have passed since the full second of \<open>t\<close>: the clock
  tolerance of 30 seconds shortens the lease of 3600 seconds instead of extending it.
\<close>

theorem lease_length:
  assumes "load_at s (processing_dir sid aid @ [claim_name m owner]) =
      Loaded (JObj (claim_meta t owner m))" and "iso_range t" "m \<noteq> []"
  shows "claim_stale now sid aid s (claim_name m owner) m \<longleftrightarrow>
    of_int \<lfloor>t\<rfloor> + (LEASE_TIMEOUT_S - LEASE_CLOCK_TOLERANCE_S) < now"
proof -
  have "claimed_ts (claim_meta t owner m) = Some (of_int \<lfloor>t\<rfloor>)"
    by (rule claimed_ts_stamp) (simp_all add: claim_meta_def dget_or_def assms(2))
  moreover have "claim_msg_id (claim_name m owner) (claim_meta t owner m) = Some m"
    using assms(3) by (simp add: claim_msg_id_def claim_meta_def dget_or_def)
  ultimately show ?thesis
    using assms(1) by (auto simp: claim_stale_def lease_cutoff_def)
qed

lemma move_node:
  "node_at s a = Some n \<Longrightarrow> node_at (move a b s) b = Some n"
  "node_at s a = Some n \<Longrightarrow> a \<noteq> b \<Longrightarrow> node_at (move a b s) a = None"
  by (simp_all add: node_at_move)

lemma recover_claims_done:
  assumes "recover_claims now sid aid cs s = (r, s')"
    and "\<forall>c \<in> set cs. \<not> visible c" "visible m"
    and "node_at s (processing_file sid aid m) = None" "node_at s (inbox_file sid aid m) = Some n"
  shows "node_at s' (processing_file sid aid m) = None \<and> node_at s' (inbox_file sid aid m) = Some n"
  using assms
proof (induction cs arbitrary: r s s')
  case (Cons c cs)
  obtain r1 s1 where 1: "recover_one now sid aid c s = (r1, s1)" by fastforce
  have c: "json_name m \<noteq> c" using visible_json_name [OF Cons.prems(3)] Cons.prems(2) by auto
  have "node_at s1 (processing_file sid aid m) = None \<and> node_at s1 (inbox_file sid aid m) = Some n"
    using recover_one_cases [OF 1] Cons.prems(4,5) c
    by (auto simp: processing_file_def inbox_file_def fs_simps node_at_move split: option.splits)
  with Cons 1 show ?case by (auto split: sum.splits prod.splits)
qed simp

lemma recover_claims_expired:
  assumes "recover_claims now sid aid cs s = (Inr k, s')"
    and "distinct cs" "\<forall>c \<in> set cs. \<not> visible c" "visible m"
    and "\<forall>c \<in> set cs. \<forall>m'. claim_stale now sid aid s c m' \<longrightarrow> visible m'"
    and "c0 \<in> set cs" "claim_stale now sid aid s c0 m"
    and "node_at s (processing_file sid aid m) = Some n"
  shows "node_at s' (processing_file sid aid m) = None \<and> node_at s' (inbox_file sid aid m) = Some n"
  using assms
proof (induction cs arbitrary: k s s')
  case (Cons c cs)
  obtain r1 s1 where 1: "recover_one now sid aid c s = (r1, s1)" by fastforce
  obtain j where j: "r1 = Inr j" using Cons.prems(1) 1 by (auto split: sum.splits)
  obtain k2 where 2: "recover_claims now sid aid cs s1 = (Inr k2, s')"
    using Cons.prems(1) 1 j by (auto split: sum.splits prod.splits)
  have c: "json_name m \<noteq> c" using visible_json_name [OF Cons.prems(4)] Cons.prems(3) by auto
  have moved: "node_at s1 (processing_file sid aid m) = None \<and> node_at s1 (inbox_file sid aid m) = Some n"
    if "claim_stale now sid aid s c m"
    using recover_one_stale [OF that] 1 Cons.prems(8) c
    by (auto simp: processing_file_def inbox_file_def fs_simps node_at_move exists_at_def)
  have fin: ?case if "claim_stale now sid aid s c m"
    using recover_claims_done [OF 2 _ Cons.prems(4)] moved [OF that] Cons.prems(3) by auto
  show ?case
  proof (cases "claim_stale now sid aid s c m")
    case False
    then have c0: "c0 \<in> set cs" using Cons.prems(6,7) by auto
    have keep: "node_at s1 (processing_file sid aid m) = Some n"
      using recover_one_cases [OF 1] False Cons.prems(8) c
      by (auto simp: processing_file_def inbox_file_def fs_simps node_at_move split: option.splits)
    have st: "claim_stale now sid aid s1 x m' = claim_stale now sid aid s x m'" if "x \<in> set cs" for x m'
      by (intro claim_stale_cong recover_one_frame [OF 1]) (use that Cons.prems in auto)
    show ?thesis
      by (rule Cons.IH [OF 2]) (use Cons.prems c0 keep st in auto)
  qed (rule fin)
qed simp

text \<open>
  C7. Crashed readers do not strand messages. When \<open>recover_stale\<close> returns, a message whose claim is
  older than the cutoff is back in the inbox, byte for byte and with its old modification time,
  and no longer in \<open>processing/\<close>.
\<close>

theorem recover_stale_returns_expired:
  assumes "recover_stale now sid aid s = (Inr k, s')" and "fs_ok s" "visible m"
    and "c \<in> set (claim_files sid aid s)" "claim_stale now sid aid s c m"
    and "\<forall>c \<in> set (claim_files sid aid s). \<forall>m'. claim_stale now sid aid s c m' \<longrightarrow> visible m'"
    and "node_at s (processing_file sid aid m) = Some n" "exists_at s (processing_dir sid aid)"
  shows "node_at s' (inbox_file sid aid m) = Some n \<and> \<not> exists_at s' (processing_file sid aid m)"
proof -
  obtain k1 s1 where 1: "recover_claims now sid aid (claim_files sid aid s) s = (Inr k1, s1)"
    and s': "s' = sweep_tmp_claims now sid aid s1"
    using assms(1,8)
    by (auto simp: recover_stale_def claim_files_def split: option.splits prod.splits sum.splits)
  have "node_at s1 (processing_file sid aid m) = None \<and> node_at s1 (inbox_file sid aid m) = Some n"
    by (rule recover_claims_expired [OF 1 _ _ assms(3) _ assms(4,5,7)])
       (use assms(2,6) in \<open>auto simp: claim_files_props(1) dest: claim_files_props(2)\<close>)
  moreover have "visible (last (processing_file sid aid m))" "visible (last (inbox_file sid aid m))"
    using visible_json_name [OF assms(3)] by (simp_all add: processing_file_def inbox_file_def)
  ultimately show ?thesis by (simp add: s' node_at_sweep exists_at_def)
qed

text \<open>
  Renewal extends the lease: when \<open>renew_claim\<close> reports success at time \<open>t\<close>, the claim is judged
  from \<open>t\<close> on, the message stays where it is, and only the owner on the claim can renew it.
\<close>

theorem renew_claim_extends:
  assumes "renew_claim t sid aid m owner s = (Inr True, s')" and "iso_range t"
  shows "\<exists>c d d'. claims_of sid aid m s = [c] \<and>
    load_at s (processing_dir sid aid @ [c]) = Loaded (JObj d) \<and> dget d ''owner'' = Some (JStr owner) \<and>
    load_at s' (processing_dir sid aid @ [c]) = Loaded (JObj d') \<and>
    claimed_ts d' = Some (of_int \<lfloor>t\<rfloor>) \<and> dget d' ''owner'' = Some (JStr owner) \<and>
    (\<forall>n. visible n \<longrightarrow> node_at s' (processing_dir sid aid @ [n]) = node_at s (processing_dir sid aid @ [n]))"
proof -
  let ?tmp = "''.tmp-renew-'' @ m @ ''-'' @ owner @ dot_json"
  obtain c d where c: "claims_of sid aid m s = [c]"
      "load_at s (processing_dir sid aid @ [c]) = Loaded (JObj d)" "dget d ''owner'' = Some (JStr owner)"
    and s': "s' = atomic_write t (processing_dir sid aid @ [?tmp]) (processing_dir sid aid @ [c])
        (JObj (dset (dset d ''claimed_at'' (JStr (iso_format t))) ''renewed_at'' (JStr (iso_format t)))) s"
    using assms(1)
    by (auto simp: renew_claim_def split: option.splits list.splits loaded.splits json.splits if_splits)
  let ?d' = "dset (dset d ''claimed_at'' (JStr (iso_format t))) ''renewed_at'' (JStr (iso_format t))"
  have "claimed_ts ?d' = Some (of_int \<lfloor>t\<rfloor>)" by (rule claimed_ts_stamp) (simp_all add: assms(2))
  moreover have "\<not> visible c" by (rule claims_of_dot [of _ sid aid m s]) (simp add: c(1))
  then have "\<forall>n. visible n \<longrightarrow>
      node_at s' (processing_dir sid aid @ [n]) = node_at s (processing_dir sid aid @ [n])"
    by (auto simp: s' fs_simps visible_def)
  ultimately show ?thesis using c by (intro exI [of _ c] exI [of _ d] exI [of _ ?d']) (simp add: s')
qed

section \<open>Replay after consumption\<close>

lemma send_checks_direct:
  "send_checks sid a s = Inr (rs, refs) \<Longrightarrow> sn_to a \<noteq> BROADCAST_TO \<Longrightarrow> rs = [sn_to a]"
  by (auto simp: send_checks_def send_recipients_def split: option.splits if_splits sum.splits)

lemma sent_direct:
  assumes "send now sufs sid a s = Some (Inr (Sent m), s')"
  shows "sn_to a \<noteq> BROADCAST_TO"
  using assms
proof (cases rule: send_cases)
  case (new rs refs m')
  show ?thesis
    by (rule send_new_cases [OF new(2)]) (auto split: if_splits)
next
  case replay
  then show ?thesis by (auto dest: send_replay_is_replayed)
qed

text \<open>
  A replayed send delivers a consumed message a second time. After a message with a caller-chosen
  id was sent and its recipient archived it, repeating the send finds the history record, sees no
  envelope in the inbox, and writes one again: the message is now both archived and pending.
\<close>

theorem replay_after_archive_redelivers:
  assumes "send now sufs sid a s = Some (Inr (Sent m), s1)" "sn_msg_id a = Some m"
    and "finalize_from_inbox sid (sn_to a) m owner s1 = (Inr (), s2)"
  shows "\<exists>s3. send now' sufs' sid a s2 = Some (Inr (Replayed 1), s3) \<and>
    exists_at s3 (inbox_file sid (sn_to a) m) \<and> exists_at s2 (archive_file sid (sn_to a) m) \<and>
    \<not> exists_at s2 (inbox_file sid (sn_to a) m)"
proof -
  let ?to = "sn_to a"
  obtain rs refs c where rec: "send_checks sid a s1 = Inr (rs, refs)" "validate_msg_id m"
    "\<forall>rid \<in> set rs. load_at s1 (inbox_file sid rid m) =
       Loaded (JObj (dset (message_to_dict (send_message now sid a m refs)) ''_cursor'' (JStr c)))"
    "load_at s1 (history_file sid m) =
       Loaded (JObj (dset (message_to_dict (send_message now sid a m refs)) ''_cursor'' (JStr c)))"
    by (rule sent_record [OF assms(1,2)]) simp
  let ?d = "dset (message_to_dict (send_message now sid a m refs)) ''_cursor'' (JStr c)"
  have rs: "rs = [?to]" using send_checks_direct [OF rec(1)] sent_direct [OF assms(1)] by simp
  obtain t where t: "node_at s1 (inbox_file sid ?to m) = Some (File (Doc (JObj ?d)) t)"
    using rec(3) rs by (auto simp: load_at_File)
  have s2: "s2 = move (inbox_file sid ?to m) (archive_file sid ?to m) (mkdirs (archive_dir sid ?to) s1)"
    using assms(3) t
    by (auto simp: finalize_from_inbox_def Let_def exists_at_def split: option.splits if_splits)
  have src: "node_at (mkdirs (archive_dir sid ?to) s1) (inbox_file sid ?to m) = Some (File (Doc (JObj ?d)) t)"
    by (simp add: t node_at_mkdirs_keep)
  have keep: "node_at s2 x = Some n" if "node_at s1 x = Some n" "length x \<le> 3" for x n
  proof -
    have "x \<noteq> inbox_file sid ?to m" "x \<noteq> archive_file sid ?to m"
      using that(2) by (auto simp: inbox_file_def archive_file_def dir_defs)
    with node_at_mkdirs_keep [OF that(1)] show ?thesis by (simp add: s2 node_at_move src)
  qed
  have hist: "load_at s2 (history_file sid m) = Loaded (JObj ?d)"
    using rec(4) keep by (fastforce simp: load_at_File history_file_def dir_defs)
  obtain n where n: "node_at s1 (session_file sid) = Some n"
    using rec(1)
    by (auto simp: send_checks_def read_session_def load_at_def
        split: option.splits if_splits loaded.splits json.splits)
  have ck: "send_checks sid a s2 = Inr ([?to], refs)"
  proof (rule send_checks_mono [OF rec(1) [unfolded rs]])
    show "load_at s2 (session_file sid) = load_at s1 (session_file sid)"
    proof (rule load_at_cong)
      have "node_at s2 (session_file sid) = Some n" by (rule keep [OF n]) (simp add: dir_defs)
      with n show "node_at s2 (session_file sid) = node_at s1 (session_file sid)" by simp
    qed
    show "exists_at s2 (session_dir sid)"
      using send_checks_session [OF rec(1)] keep by (fastforce simp: exists_at_def dir_defs)
    show "exists_at s2 (inbox_dir sid r)" if "exists_at s1 (inbox_dir sid r)" for r
      using that keep by (fastforce simp: exists_at_def)
  qed
  have gone: "\<not> exists_at s2 (inbox_file sid ?to m)"
    by (simp add: s2 exists_at_def node_at_move src) (simp add: inbox_file_def archive_file_def)
  have arch: "exists_at s2 (archive_file sid ?to m)"
    by (simp add: s2 exists_at_def node_at_move src)
  have "same_payload sid a refs ?d = Some True" by (simp add: same_payload_sent attachments_eq_refl)
  from replay_redelivers [OF ck assms(2) rec(2) gone hist this] gone arch show ?thesis
    using loaded_exists by blast
qed

section \<open>Witnesses\<close>

theorem claim_owner_decides_witness:
  "finalize ''s1'' ''w1'' ''m1'' ''eve'' example_read = (Inl OwnerMismatch, example_read) \<and>
   fst (finalize ''s1'' ''w1'' ''m1'' ''bob'' example_read) = Inr ()"
proof -
  have "validate_msg_id ''m1''" "claims_of ''s1'' ''w1'' ''m1'' example_read = [claim_name ''m1'' ''bob'']"
    by code_simp+
  with claim_owner_decides [OF example_read_eq example_doc_id [symmetric]] show ?thesis by auto
qed

theorem recover_stale_keeps_active_witness:
  "node_at (snd (recover_stale 4000 ''s1'' ''w1'' (example_box (Some ''processing'') True)))
     (processing_file ''s1'' ''w1'' ''m1'') \<noteq> None"
proof -
  let ?s = "example_box (Some ''processing'') True"
  have cf: "claim_files ''s1'' ''w1'' ?s = [''.claim-m1-bob.json'']" by code_simp
  have "load_at ?s (processing_dir ''s1'' ''w1'' @ [''.claim-m1-bob.json'']) =
      Loaded (JObj (claim_meta 1000 ''bob'' ''m1''))"
    and "claimed_ts (claim_meta 1000 ''bob'' ''m1'') = Some 1000"
    by code_simp+
  then have "\<not> claim_stale 4000 ''s1'' ''w1'' ?s ''.claim-m1-bob.json'' m'" for m'
    by (simp add: claim_stale_def lease_cutoff_def LEASE_TIMEOUT_S_def LEASE_CLOCK_TOLERANCE_S_def)
  moreover have "fs_ok ?s" "visible ''m1''" "node_at ?s (processing_file ''s1'' ''w1'' ''m1'') \<noteq> None"
    by code_simp+
  ultimately show ?thesis
    using recover_stale_keeps_active [where s = ?s and m = "''m1''" and now = 4000 and sid = "''s1''"
        and aid = "''w1''", OF prod.collapse [symmetric]] cf
    by simp
qed

theorem lease_length_witness:
  "claim_stale 4571 ''s1'' ''w1'' (example_box (Some ''processing'') True) (claim_name ''m1'' ''bob'') ''m1'' \<and>
   \<not> claim_stale 4570 ''s1'' ''w1'' (example_box (Some ''processing'') True) (claim_name ''m1'' ''bob'') ''m1''"
proof -
  have "load_at (example_box (Some ''processing'') True) (processing_dir ''s1'' ''w1'' @
      [claim_name ''m1'' ''bob'']) = Loaded (JObj (claim_meta 1000 ''bob'' ''m1''))"
    and "iso_range 1000" by code_simp+
  from lease_length [OF this] show ?thesis
    by (simp add: LEASE_TIMEOUT_S_def LEASE_CLOCK_TOLERANCE_S_def)
qed

theorem recover_stale_returns_expired_witness:
  "exists_at (snd (recover_stale 9000 ''s1'' ''w1'' (example_box (Some ''processing'') True)))
     (inbox_file ''s1'' ''w1'' ''m1'')"
proof -
  let ?s = "example_box (Some ''processing'') True" and ?c = "''.claim-m1-bob.json''"
  obtain k where k: "fst (recover_stale 9000 ''s1'' ''w1'' ?s) = Inr k"
    by (rule that [of "Some 1"]) code_simp
  then have r: "recover_stale 9000 ''s1'' ''w1'' ?s = (Inr k, snd (recover_stale 9000 ''s1'' ''w1'' ?s))"
    by (simp add: prod_eq_iff)
  have cf: "claim_files ''s1'' ''w1'' ?s = [?c]" by code_simp
  have st: "claim_stale 9000 ''s1'' ''w1'' ?s ?c m' \<longleftrightarrow> m' = ''m1''" for m'
  proof -
    have "load_at ?s (processing_dir ''s1'' ''w1'' @ [?c]) = Loaded (JObj (claim_meta 1000 ''bob'' ''m1''))"
      "claimed_ts (claim_meta 1000 ''bob'' ''m1'') = Some 1000"
      "claim_msg_id ?c (claim_meta 1000 ''bob'' ''m1'') = Some ''m1''"
      by code_simp+
    then show ?thesis
      by (auto simp: claim_stale_def lease_cutoff_def LEASE_TIMEOUT_S_def LEASE_CLOCK_TOLERANCE_S_def)
  qed
  have "fs_ok ?s" "visible ''m1''" "exists_at ?s (processing_dir ''s1'' ''w1'')"
    "node_at ?s (processing_file ''s1'' ''w1'' ''m1'') = Some (File (Doc (JObj example_doc)) 1000)"
    by code_simp+
  with recover_stale_returns_expired [OF r, of "''m1''" ?c] cf st show ?thesis
    by (simp add: exists_at_def)
qed

theorem renew_claim_extends_witness:
  "\<exists>c d'. load_at (snd (renew_claim 3000 ''s1'' ''w1'' ''m1'' ''bob'' (example_box (Some ''processing'') True)))
     (processing_dir ''s1'' ''w1'' @ [c]) = Loaded (JObj d') \<and> claimed_ts d' = Some 3000"
proof -
  let ?r = "renew_claim 3000 ''s1'' ''w1'' ''m1'' ''bob'' (example_box (Some ''processing'') True)"
  have "fst ?r = Inr True" by code_simp
  then have "?r = (Inr True, snd ?r)" by (simp add: prod_eq_iff)
  moreover have "iso_range 3000" by code_simp
  ultimately show ?thesis using renew_claim_extends by fastforce
qed

theorem replay_after_archive_redelivers_witness:
  "\<exists>s2 s3. finalize_from_inbox ''s1'' ''w1'' ''m1'' ''bob'' example_sent = (Inr (), s2) \<and>
     send 5000 [] ''s1'' example_task s2 = Some (Inr (Replayed 1), s3) \<and>
     exists_at s3 (inbox_file ''s1'' ''w1'' ''m1'')"
proof -
  have to: "sn_to example_task = ''w1''" "sn_msg_id example_task = Some ''m1''" by code_simp+
  let ?r = "finalize_from_inbox ''s1'' ''w1'' ''m1'' ''bob'' example_sent"
  have "fst ?r = Inr ()" by code_simp
  then have r: "?r = (Inr (), snd ?r)" by (simp add: prod_eq_iff)
  from replay_after_archive_redelivers [OF example_send to(2) r [folded to(1)]] r to(1)
  show ?thesis by (metis (no_types))
qed

end
