(* ===== verification/Swarm_Model.thy ===== *)
theory Swarm_Model
  imports Store_Session
begin

text \<open>
  \<open>swarm/model.py\<close>: addresses, agent locations, envelopes, rosters, access control lists,
  channels, sessions and receipts, with one record per data class.
\<close>

section \<open>Enumerations and locations\<close>

datatype address_kind = DIRECT | CHANNEL | BROADCAST | NOTICE

datatype execution_mode = MAILBOX_WORKER | LOCAL_OMP_MCP

datatype return_mode = MANAGER_PULL | BIDIRECTIONAL

primrec execution_mode_value :: "execution_mode \<Rightarrow> string" where
  "execution_mode_value MAILBOX_WORKER = ''mailbox-worker''"
| "execution_mode_value LOCAL_OMP_MCP = ''local-omp-mcp''"

primrec return_mode_value :: "return_mode \<Rightarrow> string" where
  "return_mode_value MANAGER_PULL = ''manager-pull''"
| "return_mode_value BIDIRECTIONAL = ''bidirectional''"

text \<open>\<open>ExecutionMode(raw)\<close> and \<open>ReturnMode(raw)\<close>: the member with that value, else \<open>ValueError\<close>.\<close>

definition execution_mode_of :: "string \<Rightarrow> execution_mode option" where
  "execution_mode_of v = find (\<lambda>m. execution_mode_value m = v) [MAILBOX_WORKER, LOCAL_OMP_MCP]"

definition return_mode_of :: "string \<Rightarrow> return_mode option" where
  "return_mode_of v = find (\<lambda>m. return_mode_value m = v) [MANAGER_PULL, BIDIRECTIONAL]"

record agent_location =
  al_agent_id :: string
  al_host_alias :: string
  al_backend :: string
  al_execution_mode :: "execution_mode option"
  al_mailbox_root :: string
  al_return_mode :: "return_mode option"

record address =
  ad_kind :: address_kind
  ad_agent_id :: string
  ad_channel_id :: string
  ad_topic :: string

section \<open>Envelopes\<close>

record envelope =
  en_subject :: string
  en_body :: string
  en_kind :: string
  en_attachments :: "attachment_ref list"
  en_reply_to :: string
  en_run_id :: string
  en_request_id :: string
  en_trace_id :: string
  en_causation_id :: string
  en_require_ack :: bool
  en_receipt_type :: string

section \<open>Sessions\<close>

definition roster_without :: "string list \<Rightarrow> string \<Rightarrow> string list" where
  "roster_without members a = filter (\<lambda>m. m \<noteq> a) members"

record acl =
  acl_authority :: string
  acl_allowed_senders :: "string list"
  acl_room_members :: "string list"
  acl_policy :: string

text \<open>The access list of a channel is stored but never consulted.\<close>

record channel =
  ch_id :: string
  ch_members :: "string list"
  ch_acl :: "acl option"

text \<open>The roster is the ordered list of its members.\<close>

record session =
  ss_session_id :: string
  ss_manager_id :: string
  ss_roster :: "string list"
  ss_acl :: acl
  ss_created_at :: string
  ss_execution_modes :: "(string \<times> string) list"
  ss_return_modes :: "(string \<times> string) list"

section \<open>Receipts\<close>

text \<open>\<open>SendReceipt\<close> of \<open>swarm/delivery.py\<close>, the answer of a sink, and that of \<open>swarm/model.py\<close>.\<close>

record send_receipt =
  rp_status :: string
  rp_msg_id :: string
  rp_queued :: bool
  rp_error :: "store_error option"

record kernel_receipt =
  kr_msg_id :: string
  kr_status :: string
  kr_session_id :: string
  kr_target :: string
  kr_queued :: bool

record delivery_receipt =
  dr_msg_id :: string
  dr_recipient :: string
  dr_status :: string
  dr_error :: "store_error option"

text \<open>A callback is named by a number; its effects are outside the model.\<close>

record subscription =
  sb_callback :: nat
  sb_channels :: "string list"
  sb_kinds :: "string list"
  sb_topics :: "string list"

record poll_result =
  po_messages :: "dict list"
  po_cursor :: string
  po_has_more :: bool

text \<open>
  The \<open>DeliverySink\<close> protocol: session, recipient, envelope, message id, creation time and sender.
  A sink works on a state of its own, the tree or more; a raised exception is an error.
\<close>

type_synonym 's delivery_sink =
  "string \<Rightarrow> string \<Rightarrow> envelope \<Rightarrow> string \<Rightarrow> string \<Rightarrow> string \<Rightarrow> 's \<Rightarrow> (store_error + send_receipt) \<times> 's"

lemma execution_mode_round_trip [simp]: "execution_mode_of (execution_mode_value m) = Some m"
  by (cases m) (simp_all add: execution_mode_of_def)

lemma return_mode_round_trip [simp]: "return_mode_of (return_mode_value m) = Some m"
  by (cases m) (simp_all add: return_mode_of_def)

lemma execution_mode_of_SomeD: "execution_mode_of v = Some m \<Longrightarrow> execution_mode_value m = v"
  by (auto simp: execution_mode_of_def split: if_splits)

lemma return_mode_of_SomeD: "return_mode_of v = Some m \<Longrightarrow> return_mode_value m = v"
  by (auto simp: return_mode_of_def split: if_splits)

end
