(* ===== verification/Mailbox_Service.thy ===== *)
theory Mailbox_Service
  imports Store_Leases Store_Admin Swarm_Model
begin

text \<open>
  \<open>mailbox/service.py\<close>: the protocol layer over the store. \<open>send\<close> turns the errors of the store
  into receipts; \<open>read\<close> claims one message, acknowledges it to its sender when it asks for that,
  and sets a message aside (\<open>parks\<close> it) when its sender cannot be reached.

  Parameters. \<open>uuid5\<close> is \<open>uuid.uuid5\<close> in the fixed receipt name space. \<open>diag\<close> renders the
  diagnostic text of a parked message, which no code reads back. \<open>sink\<close> is the delivery sink
  wired when a kernel is given: its answer is an error when it raises. The empty lock file
  \<open>.read.lock\<close> is not part of the tree.
\<close>

section \<open>Sending\<close>

record service_receipt =
  sv_status :: string
  sv_msg_id :: string
  sv_error :: "store_error option"
  sv_queued :: bool
  sv_detail :: "send_result option"

text \<open>Which errors of the store are \<open>ValueError\<close> (\<open>JSONDecodeError\<close> is one).\<close>

fun is_value_error :: "store_error \<Rightarrow> bool" where
  "is_value_error StatusCorrupt = False"
| "is_value_error ParkLeaseActive = False"
| "is_value_error PyTypeError = False"
| "is_value_error PyOSError = False"
| "is_value_error _ = True"

definition failed_receipt :: "string \<Rightarrow> store_error \<Rightarrow> service_receipt" where
  "failed_receipt m e =
     \<lparr>sv_status = ''failed'', sv_msg_id = m, sv_error = Some e, sv_queued = False, sv_detail = None\<rparr>"

definition delivered_receipt :: "string \<Rightarrow> send_result option \<Rightarrow> service_receipt" where
  "delivered_receipt m d =
     \<lparr>sv_status = ''delivered'', sv_msg_id = m, sv_error = None, sv_queued = False, sv_detail = d\<rparr>"

text \<open>\<open>send\<close>; the generated id uses the random suffix \<open>suf\<close>.\<close>

definition service_send ::
  "instant \<Rightarrow> string \<Rightarrow> string \<Rightarrow> send_args \<Rightarrow> fs \<Rightarrow> ((store_error + service_receipt) \<times> fs) option" where
  "service_send now suf sid a s =
     (let mid = (case sn_msg_id a of
           Some m \<Rightarrow> if m = [] then gen_msg_id now (sn_from a) suf else m
         | None \<Rightarrow> gen_msg_id now (sn_from a) suf) in
      case send now [] sid (a\<lparr>sn_msg_id := Some mid\<rparr>) s of
        None \<Rightarrow> None
      | Some (Inl e, s') \<Rightarrow>
          Some (if is_value_error e then Inr (failed_receipt mid e) else Inl e, s')
      | Some (Inr d, s') \<Rightarrow> Some (Inr (delivered_receipt mid (Some d)), s'))"

section \<open>Parked messages\<close>

definition ack_unresolved_dir :: "string \<Rightarrow> string \<Rightarrow> path" where
  "ack_unresolved_dir sid aid = agent_subdir sid aid ''_ack_unresolved''"

definition ack_marker_file :: "string \<Rightarrow> string \<Rightarrow> string \<Rightarrow> path" where
  "ack_marker_file sid aid m = ack_unresolved_dir sid aid @ [json_name m]"

definition ack_unresolved_ids :: "string \<Rightarrow> string \<Rightarrow> fs \<Rightarrow> string list" where
  "ack_unresolved_ids sid aid s =
     (if \<not> exists_at s (ack_unresolved_dir sid aid) then []
      else map stem (filter (glob_match [] dot_json) (children s (ack_unresolved_dir sid aid))))"

definition ack_unresolved_marker :: "string \<Rightarrow> string \<Rightarrow> string \<Rightarrow> fs \<Rightarrow> json option" where
  "ack_unresolved_marker sid aid m s = (case load_at s (ack_marker_file sid aid m) of
       Loaded JNull \<Rightarrow> None
     | Loaded j \<Rightarrow> Some j
     | _ \<Rightarrow> None)"

definition park_ack_unresolved ::
  "instant \<Rightarrow> string \<Rightarrow> string \<Rightarrow> string \<Rightarrow> dict \<Rightarrow> string \<Rightarrow> fs \<Rightarrow> fs" where
  "park_ack_unresolved now sid aid m msg err s =
     atomic_write now (ack_unresolved_dir sid aid @ [tmp_name m]) (ack_marker_file sid aid m)
       (JObj [(''msg_id'', JStr m), (''from'', dget_or msg ''from'' (JStr [])),
              (''marked_at'', JStr (iso_format now)), (''error'', JStr err)])
       (mkdirs (ack_unresolved_dir sid aid) s)"

definition unpark_ack_unresolved :: "string \<Rightarrow> string \<Rightarrow> string \<Rightarrow> fs \<Rightarrow> fs" where
  "unpark_ack_unresolved sid aid m s = unlink (ack_marker_file sid aid m) s"

text \<open>
  Whether a sender is in the roster of the session file. A sender that cannot be hashed and a
  session file of another shape raise.
\<close>

definition sender_resolvable :: "string \<Rightarrow> json \<Rightarrow> fs \<Rightarrow> store_error + bool" where
  "sender_resolvable sid sender s =
     (if \<not> truthy sender then Inr False
      else case read_session sid s of
        Inl e \<Rightarrow> Inl e
      | Inr None \<Rightarrow> Inr False
      | Inr (Some meta) \<Rightarrow> (case meta_roster meta of
            None \<Rightarrow> Inl PyTypeError
          | Some roster \<Rightarrow>
              if \<not> hashable sender then Inl PyTypeError
              else Inr (is_str sender \<and> the_str sender \<in> set roster)))"

text \<open>The loop that takes markers away once their sender has joined; the ids still parked.\<close>

fun unpark_loop ::
  "string \<Rightarrow> string \<Rightarrow> string list \<Rightarrow> fs \<Rightarrow> (store_error + string list) \<times> fs" where
  "unpark_loop sid aid [] s = (Inr [], s)"
| "unpark_loop sid aid (m # ms) s =
     (case ack_unresolved_marker sid aid m s of
        None \<Rightarrow> (case unpark_loop sid aid ms s of
            (Inl e, s') \<Rightarrow> (Inl e, s')
          | (Inr ps, s') \<Rightarrow> (Inr (m # ps), s'))
      | Some j \<Rightarrow>
          if \<not> truthy j then (case unpark_loop sid aid ms s of
              (Inl e, s') \<Rightarrow> (Inl e, s')
            | (Inr ps, s') \<Rightarrow> (Inr (m # ps), s'))
          else (case j of
              JObj d \<Rightarrow> (case sender_resolvable sid (dget_or d ''from'' (JStr [])) s of
                  Inl e \<Rightarrow> (Inl e, s)
                | Inr True \<Rightarrow> unpark_loop sid aid ms (unpark_ack_unresolved sid aid m s)
                | Inr False \<Rightarrow> (case unpark_loop sid aid ms s of
                      (Inl e, s') \<Rightarrow> (Inl e, s')
                    | (Inr ps, s') \<Rightarrow> (Inr (m # ps), s')))
            | _ \<Rightarrow> (Inl PyTypeError, s)))"

section \<open>Receipts\<close>

text \<open>A string as \<open>json.dumps(..., ensure_ascii=False)\<close> prints it.\<close>

definition hex_digit :: "nat \<Rightarrow> char" where
  "hex_digit n = (if n < 10 then char_of (48 + n) else char_of (87 + n))"

definition json_char :: "char \<Rightarrow> string" where
  "json_char c =
     (if c = CHR 0x22 then [CHR 0x5C, CHR 0x22]
      else if c = CHR 0x5C then [CHR 0x5C, CHR 0x5C]
      else if c = CHR 0x0A then [CHR 0x5C, CHR ''n'']
      else if c = CHR 0x0D then [CHR 0x5C, CHR ''r'']
      else if c = CHR 0x09 then [CHR 0x5C, CHR ''t'']
      else if c = CHR 0x08 then [CHR 0x5C, CHR ''b'']
      else if c = CHR 0x0C then [CHR 0x5C, CHR ''f'']
      else if code c < 32 then CHR 0x5C # ''u00'' @ [hex_digit (code c div 16), hex_digit (code c mod 16)]
      else [c])"

definition json_string :: "string \<Rightarrow> string" where
  "json_string s = CHR 0x22 # concat (map json_char s) @ [CHR 0x22]"

definition receipt_body :: "string \<Rightarrow> string \<Rightarrow> string" where
  "receipt_body acked aid =
     ''{'' @ json_string ''receipt_type'' @ '': '' @ json_string ''READ'' @ '', '' @
     json_string ''msg_id'' @ '': '' @ json_string acked @ '', '' @
     json_string ''reader'' @ '': '' @ json_string aid @ ''}''"

definition receipt_msg_id :: "(string \<Rightarrow> string) \<Rightarrow> string \<Rightarrow> string \<Rightarrow> string \<Rightarrow> string" where
  "receipt_msg_id uuid5 sid acked aid = uuid5 (sid @ '':'' @ acked @ '':'' @ aid @ '':READ'')"

text \<open>
  The receipt as an envelope for the sink, and as arguments of the store. The inherited fields of
  a claimed message are strings or absent: \<open>msg_id\<close>, \<open>from\<close>, and any non-empty \<open>run_id\<close> and
  \<open>request_id\<close> by validation, \<open>trace_id\<close> because every writer of the store writes one.
\<close>

definition receipt_envelope :: "string \<Rightarrow> dict \<Rightarrow> envelope" where
  "receipt_envelope aid original =
     \<lparr>en_subject = ''READ '' @ sget original ''msg_id'',
      en_body = receipt_body (sget original ''msg_id'') aid, en_kind = ''RECEIPT'',
      en_attachments = [], en_reply_to = sget original ''msg_id'',
      en_run_id = sget original ''run_id'', en_request_id = sget original ''request_id'',
      en_trace_id = sget original ''trace_id'', en_causation_id = [], en_require_ack = False,
      en_receipt_type = ''READ''\<rparr>"

definition receipt_args :: "(string \<Rightarrow> string) \<Rightarrow> string \<Rightarrow> string \<Rightarrow> dict \<Rightarrow> send_args" where
  "receipt_args uuid5 sid aid original =
     \<lparr>sn_from = aid, sn_to = sget original ''from'',
      sn_subject = ''READ '' @ sget original ''msg_id'',
      sn_body = receipt_body (sget original ''msg_id'') aid, sn_kind = ''RECEIPT'',
      sn_reply_to = sget original ''msg_id'', sn_run_id = sget original ''run_id'',
      sn_request_id = sget original ''request_id'', sn_command_id = [],
      sn_trace_id = sget original ''trace_id'', sn_causation_id = [], sn_attachments = [],
      sn_msg_id = Some (receipt_msg_id uuid5 sid (sget original ''msg_id'') aid),
      sn_require_ack = False, sn_receipt_type = ''READ''\<rparr>"

text \<open>The direct write of the receipt into the store, also the fall-back when the sink raises.\<close>

definition receipt_to_store ::
  "(string \<Rightarrow> string) \<Rightarrow> instant \<Rightarrow> string \<Rightarrow> string \<Rightarrow> dict \<Rightarrow> fs \<Rightarrow>
   ((store_error + service_receipt) \<times> fs) option" where
  "receipt_to_store uuid5 now sid aid original s =
     (let mid = receipt_msg_id uuid5 sid (sget original ''msg_id'') aid in
      case send now [] sid (receipt_args uuid5 sid aid original) s of
        None \<Rightarrow> None
      | Some (Inl e, s') \<Rightarrow>
          Some (if is_value_error e then Inr (failed_receipt mid e) else Inl e, s')
      | Some (Inr d, s') \<Rightarrow> Some (Inr (delivered_receipt mid None), s'))"

definition emit_read_receipt ::
  "(string \<Rightarrow> string) \<Rightarrow> fs delivery_sink option \<Rightarrow> instant \<Rightarrow> string \<Rightarrow> string \<Rightarrow> dict \<Rightarrow> fs \<Rightarrow>
   ((store_error + service_receipt option) \<times> fs) option" where
  "emit_read_receipt uuid5 sink now sid aid original s =
     (let mid = receipt_msg_id uuid5 sid (sget original ''msg_id'') aid;
          local = (\<lambda>s. map_option (\<lambda>(r, s'). (map_sum id Some r, s'))
            (receipt_to_store uuid5 now sid aid original s)) in
      if sget original ''msg_id'' = [] then Some (Inr None, s)
      else case sink of
        None \<Rightarrow> local s
      | Some deliver \<Rightarrow>
          (case deliver sid (sget original ''from'') (receipt_envelope aid original) mid
              (iso_format now) aid s of
             (Inr r, s') \<Rightarrow> Some (Inr (Some \<lparr>sv_status = rp_status r, sv_msg_id = mid,
               sv_error = None, sv_queued = rp_queued r, sv_detail = None\<rparr>), s')
           | (Inl _, s') \<Rightarrow> local s'))"

section \<open>Reading\<close>

datatype outcome_status = ROk | REmpty | RAckRouteUnresolved

record read_result =
  ro_message :: "dict option"
  ro_status :: outcome_status
  ro_receipt :: "service_receipt option"
  ro_error :: string

definition empty_result :: read_result where
  "empty_result = \<lparr>ro_message = None, ro_status = REmpty, ro_receipt = None, ro_error = []\<rparr>"

definition pick_first :: "string list \<Rightarrow> string \<Rightarrow> string list \<Rightarrow> string option" where
  "pick_first files mid parked =
     (if mid \<noteq> [] then find (\<lambda>f. stem f = mid) files
      else find (\<lambda>f. stem f \<notin> set parked) files)"

text \<open>\<open>json.loads\<close> of the picked file, an empty object when it cannot be decoded.\<close>

definition inspect_first :: "fs \<Rightarrow> path \<Rightarrow> json" where
  "inspect_first s p = (case load_at s p of Loaded j \<Rightarrow> j | _ \<Rightarrow> JObj [])"

definition wants_ack :: "dict \<Rightarrow> bool" where
  "wants_ack d \<longleftrightarrow> truthy (dget_or d ''require_ack'' JNull) \<and> dget d ''kind'' \<noteq> Some (JStr ''RECEIPT'')"

text \<open>The claim of the inspected message and, after the lock is dropped, its receipt.\<close>

definition claim_and_receipt ::
  "(string \<Rightarrow> string) \<Rightarrow> fs delivery_sink option \<Rightarrow> nat \<Rightarrow> (nat \<Rightarrow> instant) \<Rightarrow> (nat \<Rightarrow> string) \<Rightarrow>
   string \<Rightarrow> string \<Rightarrow> string \<Rightarrow> string list \<Rightarrow> string \<Rightarrow> fs \<Rightarrow>
   ((store_error + read_result) \<times> fs) option" where
  "claim_and_receipt uuid5 sink fuel clock nonce sid aid owner parked target s =
     (case read fuel clock nonce sid aid owner parked (Some target) s of
        None \<Rightarrow> None
      | Some (Inl e, s1) \<Rightarrow> Some (Inl e, s1)
      | Some (Inr None, s1) \<Rightarrow> Some (Inr empty_result, s1)
      | Some (Inr (Some msg), s1) \<Rightarrow>
          if wants_ack msg then
            (case emit_read_receipt uuid5 sink (clock fuel) sid aid msg s1 of
               None \<Rightarrow> None
             | Some (Inl e, s2) \<Rightarrow> Some (Inl e, s2)
             | Some (Inr r, s2) \<Rightarrow>
                 Some (Inr \<lparr>ro_message = Some msg, ro_status = ROk, ro_receipt = r,
                   ro_error = []\<rparr>, s2))
          else Some (Inr \<lparr>ro_message = Some msg, ro_status = ROk, ro_receipt = None,
            ro_error = []\<rparr>, s1))"

definition service_read ::
  "(string \<Rightarrow> string) \<Rightarrow> (dict \<Rightarrow> string) \<Rightarrow> fs delivery_sink option \<Rightarrow> nat \<Rightarrow> (nat \<Rightarrow> instant) \<Rightarrow>
   (nat \<Rightarrow> string) \<Rightarrow> string \<Rightarrow> string \<Rightarrow> string \<Rightarrow> string \<Rightarrow> fs \<Rightarrow>
   ((store_error + read_result) \<times> fs) option" where
  "service_read uuid5 diag sink fuel clock nonce sid aid owner mid s =
     (case find (\<lambda>x. \<not> validate_agent_id x) [aid, owner, sid] of
        Some x \<Rightarrow> Some (Inl (BadAgentId x), s)
      | None \<Rightarrow>
          (let s1 = mkdirs (agent_dir sid aid) s; files = list_messages (inbox_dir sid aid) s1 in
           if files = [] then Some (Inr empty_result, s1)
           else case unpark_loop sid aid (ack_unresolved_ids sid aid s1) s1 of
             (Inl e, s2) \<Rightarrow> Some (Inl e, s2)
           | (Inr parked, s2) \<Rightarrow> (case pick_first files mid parked of
                 None \<Rightarrow> Some (Inr empty_result, s2)
               | Some f \<Rightarrow> (case inspect_first s2 (inbox_dir sid aid @ [f]) of
                     JObj msg \<Rightarrow>
                       if wants_ack msg then
                         (case sender_resolvable sid (dget_or msg ''from'' (JStr [])) s2 of
                            Inl e \<Rightarrow> Some (Inl e, s2)
                          | Inr False \<Rightarrow>
                              Some (Inr \<lparr>ro_message = Some msg, ro_status = RAckRouteUnresolved,
                                      ro_receipt = None, ro_error = diag msg\<rparr>,
                                park_ack_unresolved (clock 0) sid aid (stem f) msg (diag msg) s2)
                          | Inr True \<Rightarrow>
                              claim_and_receipt uuid5 sink fuel clock nonce sid aid owner parked (stem f) s2)
                       else claim_and_receipt uuid5 sink fuel clock nonce sid aid owner parked (stem f) s2
                   | _ \<Rightarrow> Some (Inl PyTypeError, s2)))))"

section \<open>The ways a read ends\<close>

lemma unpark_loop_frame:
  "unpark_loop sid aid ms s = (r, s') \<Longrightarrow> (\<And>m. m \<in> set ms \<Longrightarrow> x \<noteq> ack_marker_file sid aid m) \<Longrightarrow>
   node_at s' x = node_at s x"
proof (induction ms arbitrary: r s s')
  case (Cons m ms)
  have keep: "node_at (unpark_ack_unresolved sid aid m s) x = node_at s x"
    using Cons.prems(2) by (simp add: unpark_ack_unresolved_def fs_simps)
  obtain r1 s1 where rest: "unpark_loop sid aid ms s = (r1, s1)" by fastforce
  obtain r2 s2 where rest': "unpark_loop sid aid ms (unpark_ack_unresolved sid aid m s) = (r2, s2)"
    by fastforce
  have "node_at s1 x = node_at s x" using Cons.IH [OF rest] Cons.prems(2) by simp
  moreover have "node_at s2 x = node_at s x" using Cons.IH [OF rest'] Cons.prems(2) keep by simp
  moreover have "s' \<in> {s, s1, s2}"
    using Cons.prems(1) rest rest'
    by (auto split: option.splits if_splits json.splits sum.splits bool.splits)
  ultimately show ?case by auto
qed simp

lemma unpark_loop_parked:
  "unpark_loop sid aid ms s = (Inr ps, s') \<Longrightarrow> set ps \<subseteq> set ms"
proof (induction ms arbitrary: ps s s')
  case (Cons m ms)
  then show ?case
    by (auto split: option.splits if_splits json.splits sum.splits bool.splits prod.splits)
       (use Cons.IH in blast)+
qed simp

lemma service_read_cases:
  assumes "service_read uuid5 diag sink fuel clock nonce sid aid owner mid s = Some (Inr r, s')"
  obtains (empty) "ro_status r = REmpty" "ro_message r = None"
  | (unresolved) s2 parked f msg where
      "unpark_loop sid aid (ack_unresolved_ids sid aid (mkdirs (agent_dir sid aid) s))
         (mkdirs (agent_dir sid aid) s) = (Inr parked, s2)"
      "pick_first (list_messages (inbox_dir sid aid) (mkdirs (agent_dir sid aid) s)) mid parked = Some f"
      "inspect_first s2 (inbox_dir sid aid @ [f]) = JObj msg" "wants_ack msg"
      "sender_resolvable sid (dget_or msg ''from'' (JStr [])) s2 = Inr False"
      "r = \<lparr>ro_message = Some msg, ro_status = RAckRouteUnresolved, ro_receipt = None,
         ro_error = diag msg\<rparr>"
      "s' = park_ack_unresolved (clock 0) sid aid (stem f) msg (diag msg) s2"
  | (claim) s2 parked f where
      "unpark_loop sid aid (ack_unresolved_ids sid aid (mkdirs (agent_dir sid aid) s))
         (mkdirs (agent_dir sid aid) s) = (Inr parked, s2)"
      "pick_first (list_messages (inbox_dir sid aid) (mkdirs (agent_dir sid aid) s)) mid parked = Some f"
      "claim_and_receipt uuid5 sink fuel clock nonce sid aid owner parked (stem f) s2 = Some (Inr r, s')"
proof -
  let ?s1 = "mkdirs (agent_dir sid aid) s" and ?fs = "list_messages (inbox_dir sid aid) (mkdirs (agent_dir sid aid) s)"
  have v: "find (\<lambda>x. \<not> validate_agent_id x) [aid, owner, sid] = None"
  proof (cases "find (\<lambda>x. \<not> validate_agent_id x) [aid, owner, sid]")
    case (Some x)
    then have "service_read uuid5 diag sink fuel clock nonce sid aid owner mid s = Some (Inl (BadAgentId x), s)"
      by (simp only: service_read_def option.case)
    with assms show ?thesis by simp
  qed
  show thesis
  proof (cases "?fs = []")
    case True
    with assms [unfolded service_read_def v] have "r = empty_result" by simp
    then show thesis using empty by (simp add: empty_result_def)
  next
    case False
    note body = assms [unfolded service_read_def v Let_def option.case if_not_P [OF False]]
    then obtain parked s2 where u: "unpark_loop sid aid (ack_unresolved_ids sid aid ?s1) ?s1 = (Inr parked, s2)"
      by (auto split: prod.splits sum.splits)
    note body = body [unfolded u prod.case sum.case]
    show thesis
    proof (cases "pick_first ?fs mid parked")
      case None
      with body have "r = empty_result" by simp
      then show thesis using empty by (simp add: empty_result_def)
    next
      case (Some f)
      note body = body [unfolded Some option.case]
      then obtain msg where m: "inspect_first s2 (inbox_dir sid aid @ [f]) = JObj msg"
        by (auto split: json.splits)
      show thesis
      proof (cases "wants_ack msg \<and> sender_resolvable sid (dget_or msg ''from'' (JStr [])) s2 \<noteq> Inr True")
        case True
        with body m have "sender_resolvable sid (dget_or msg ''from'' (JStr [])) s2 = Inr False"
          by (auto split: sum.splits)
        with True body m show thesis using unresolved [OF u Some m] by simp
      next
        case False
        with body m have "claim_and_receipt uuid5 sink fuel clock nonce sid aid owner parked (stem f) s2 =
            Some (Inr r, s')" by (auto split: if_splits)
        then show thesis using claim [OF u Some] by simp
      qed
    qed
  qed
qed

lemma claim_and_receipt_cases:
  assumes "claim_and_receipt uuid5 sink fuel clock nonce sid aid owner parked t s = Some (Inr r, s')"
  obtains (none) "ro_status r = REmpty" "ro_message r = None"
  | (plain) msg where "read fuel clock nonce sid aid owner parked (Some t) s = Some (Inr (Some msg), s')"
      "\<not> wants_ack msg" "r = \<lparr>ro_message = Some msg, ro_status = ROk, ro_receipt = None, ro_error = []\<rparr>"
  | (acked) msg s1 rc where
      "read fuel clock nonce sid aid owner parked (Some t) s = Some (Inr (Some msg), s1)"
      "wants_ack msg" "emit_read_receipt uuid5 sink (clock fuel) sid aid msg s1 = Some (Inr rc, s')"
      "r = \<lparr>ro_message = Some msg, ro_status = ROk, ro_receipt = rc, ro_error = []\<rparr>"
  using assms
  by (auto simp: claim_and_receipt_def empty_result_def split: option.splits sum.splits if_splits)
section \<open>The acknowledgement discipline\<close>

lemma load_at_mkdirs [simp]: "load_at (mkdirs p s) x = load_at s x"
  by (simp add: load_at_def fs_simps)

lemma sender_resolvable_cong:
  "load_at s' (session_file sid) = load_at s (session_file sid) \<Longrightarrow>
   sender_resolvable sid x s' = sender_resolvable sid x s"
  by (simp only: sender_resolvable_def read_session_def)

lemma agent_file_not_prefix: "\<not> prefix (agent_subdir sid aid sub @ [n]) (agent_dir sid aid)"
  by (auto simp: dir_defs dest: prefix_length_le)

lemma ack_marker_distinct [simp]:
  "sub \<noteq> ''_ack_unresolved'' \<Longrightarrow> agent_subdir sid aid sub @ [n] \<noteq> ack_marker_file sid aid m"
  "session_file sid \<noteq> ack_marker_file sid aid m"
  by (simp_all add: ack_marker_file_def ack_unresolved_dir_def dir_defs)

lemma unpark_keeps:
  assumes "unpark_loop sid aid ms (mkdirs (agent_dir sid aid) s) = (r, s2)"
  shows "sub \<noteq> ''_ack_unresolved'' \<Longrightarrow>
      node_at s2 (agent_subdir sid aid sub @ [n]) = node_at s (agent_subdir sid aid sub @ [n])"
    and "load_at s2 (session_file sid) = load_at s (session_file sid)"
proof -
  assume "sub \<noteq> ''_ack_unresolved''"
  then show "node_at s2 (agent_subdir sid aid sub @ [n]) = node_at s (agent_subdir sid aid sub @ [n])"
    using unpark_loop_frame [OF assms, of "agent_subdir sid aid sub @ [n]"]
    by (simp add: fs_simps agent_file_not_prefix)
next
  have "load_at s2 (session_file sid) = load_at (mkdirs (agent_dir sid aid) s) (session_file sid)"
    by (intro load_at_cong unpark_loop_frame [OF assms]) simp
  then show "load_at s2 (session_file sid) = load_at s (session_file sid)" by simp
qed

lemma node_at_park:
  "node_at (park_ack_unresolved now sid aid m msg err s) (agent_subdir sid aid sub @ [n]) =
     node_at s (agent_subdir sid aid sub @ [n])" if "sub \<noteq> ''_ack_unresolved''"
proof -
  have "agent_subdir sid aid sub @ [n] \<noteq> ack_unresolved_dir sid aid @ [tmp_name m]"
    "\<not> prefix (agent_subdir sid aid sub @ [n]) (ack_unresolved_dir sid aid)"
    using that by (auto simp: ack_unresolved_dir_def dir_defs dest: prefix_length_le)
  then show ?thesis using that by (auto simp: park_ack_unresolved_def fs_simps)
qed

lemma parked_after_park:
  assumes "m \<noteq> []"
  shows "m \<in> set (ack_unresolved_ids sid aid (park_ack_unresolved now sid aid m msg err s))"
proof -
  let ?s = "park_ack_unresolved now sid aid m msg err s"
  have "exists_at ?s (ack_marker_file sid aid m)"
    by (simp add: exists_at_def park_ack_unresolved_def fs_simps)
  then have "json_name m \<in> set (children ?s (ack_unresolved_dir sid aid))"
    by (simp add: in_children ack_marker_file_def)
  moreover have "exists_at ?s (ack_unresolved_dir sid aid)"
    by (simp add: exists_at_def park_ack_unresolved_def fs_simps ack_marker_file_def)
  moreover have "glob_match [] dot_json (json_name m)"
    using glob_match_self [of "[]" dot_json m] by (simp add: json_name_def)
  ultimately show ?thesis
    using assms by (auto simp: ack_unresolved_ids_def image_iff intro!: bexI [of _ "json_name m"]
      simp: stem_json_name)
qed

lemma pick_first_SomeD:
  "pick_first files mid parked = Some f \<Longrightarrow> f \<in> set files"
  by (auto simp: pick_first_def find_Some_iff split: if_splits)

lemma inspect_first_ack:
  "inspect_first s p = JObj msg \<Longrightarrow> wants_ack msg \<Longrightarrow> load_at s p = Loaded (JObj msg)"
  by (auto simp: inspect_first_def wants_ack_def dget_or_def split: loaded.splits)

lemma stem_nonempty: "n \<noteq> [] \<Longrightarrow> stem n \<noteq> []"
  by (auto simp: stem_def)

lemma message_name_nonempty: "f \<in> set (list_messages d s) \<Longrightarrow> f \<noteq> []"
  by (auto simp: set_list_messages is_message_name_def glob_match_def dot_json_def split: if_splits)

lemma unresolved_outcome:
  assumes "service_read uuid5 diag sink fuel clock nonce sid aid owner mid s = Some (Inr r, s')"
    and "ro_status r = RAckRouteUnresolved"
  shows "\<exists>f msg. ro_message r = Some msg \<and> ro_receipt r = None \<and> wants_ack msg \<and>
    load_at s (inbox_dir sid aid @ [f]) = Loaded (JObj msg) \<and>
    sender_resolvable sid (dget_or msg ''from'' (JStr [])) s = Inr False \<and>
    (\<forall>sub n. sub \<noteq> ''_ack_unresolved'' \<longrightarrow>
       node_at s' (agent_subdir sid aid sub @ [n]) = node_at s (agent_subdir sid aid sub @ [n])) \<and>
    stem f \<in> set (ack_unresolved_ids sid aid s')"
  using assms(1)
proof (cases rule: service_read_cases)
  case empty
  with assms(2) show ?thesis by simp
next
  case (claim s2 parked f)
  from claim(3) show ?thesis
    by (cases rule: claim_and_receipt_cases) (use assms(2) in simp_all)
next
  case (unresolved s2 parked f msg)
  note keeps = unpark_keeps [OF unresolved(1)]
  have "node_at s2 (inbox_dir sid aid @ [f]) = node_at s (inbox_dir sid aid @ [f])"
    unfolding inbox_dir_def by (rule keeps(1)) simp
  with inspect_first_ack [OF unresolved(3,4)]
  have "load_at s (inbox_dir sid aid @ [f]) = Loaded (JObj msg)" by (simp add: load_at_def)
  moreover have "stem f \<noteq> []"
    by (rule stem_nonempty [OF message_name_nonempty [OF pick_first_SomeD [OF unresolved(2)]]])
  ultimately show ?thesis
    using unresolved sender_resolvable_cong [OF keeps(2)] keeps(1)
    by (intro exI [of _ f] exI [of _ msg]) (simp add: node_at_park parked_after_park)
qed

lemma map_sum_Some: "map_sum id Some x = Inr rc \<Longrightarrow> \<exists>y. x = Inr y \<and> rc = Some y"
  by (cases x) auto

lemma emit_receipt_some:
  assumes "emit_read_receipt uuid5 sink now sid aid msg s = Some (Inr rc, s')"
    and "sget msg ''msg_id'' \<noteq> []"
  shows "rc \<noteq> None"
  using assms
  by (auto simp: emit_read_receipt_def Let_def split: option.splits prod.splits sum.splits
      dest!: map_sum_Some)

section \<open>Receipts\<close>

lemma backfill_one:
  "backfill now sid m d [r] s =
     (if exists_at s (inbox_file sid r m) then (0, s) else (1, write_envelope now sid m d r s))"
  by simp

lemma send_direct_lands:
  assumes "send now sufs sid a s = Some (Inr r, s')" "sn_msg_id a = Some m" "sn_to a \<noteq> BROADCAST_TO"
    and "load_at s' (inbox_file sid (sn_to a) m) \<noteq> Loaded JNull"
  shows "\<exists>d refs. load_at s' (inbox_file sid (sn_to a) m) = Loaded (JObj d) \<and>
    same_payload sid a refs d = Some True"
  using assms(1)
proof (cases rule: send_cases)
  case (new rs refs m')
  have rs: "rs = [sn_to a]" by (rule send_checks_direct [OF new(1) assms(3)])
  have m: "m' = m" using new(3) assms(2) by simp
  show ?thesis
    by (rule send_new_record [OF new(2)])
       (auto simp: rs m same_payload_sent attachments_eq_refl intro!: exI [of _ refs])
next
  case (replay rs refs m' d)
  have rs: "rs = [sn_to a]" by (rule send_checks_direct [OF replay(1) assms(3)])
  have m: "m' = m" using replay(2) assms(2) by simp
  let ?p = "inbox_file sid (sn_to a) m"
  have same: "same_payload sid a refs d = Some True"
    using replay(5) by (auto simp: send_replay_def split: option.splits bool.splits)
  have "d \<noteq> []" using same by (auto simp: same_payload_def dget_def Let_def)
  let ?s1 = "snd (backfill now sid m d [sn_to a] s)"
  have "s' = ?s1 \<or> (\<exists>u. append_history now sid d ?s1 = (Inr u, s'))"
    using replay(5) same
    by (auto simp: send_replay_def rs m simp del: backfill.simps split: prod.splits sum.splits if_splits)
  then have "node_at s' ?p = node_at ?s1 ?p"
    by (auto dest!: append_history_long_path [where x = ?p])
  then have s1: "load_at s' ?p = load_at ?s1 ?p" by (rule load_at_cong)
  have "load_at ?s1 ?p = Loaded (JObj d)"
  proof (cases "exists_at s ?p")
    case True
    then have "load_at s' ?p = load_at s ?p" using s1 by (simp add: backfill_one del: backfill.simps)
    with replay(4) True assms(4) \<open>d \<noteq> []\<close> show ?thesis
      by (auto simp: rs m backfill_one same_payload_def simp del: backfill.simps split: loaded.splits json.splits)
  next
    case False
    then show ?thesis
      by (auto simp: backfill_one load_at_File node_at_write_envelope simp del: backfill.simps)
  qed
  with s1 same show ?thesis by auto
qed

lemma emit_local_delivered:
  assumes "emit_read_receipt uuid5 None now sid aid msg s = Some (Inr (Some rc), s')"
    and "sv_status rc = ''delivered''"
  shows "\<exists>r. send now [] sid (receipt_args uuid5 sid aid msg) s = Some (Inr r, s')"
  using assms
  by (auto simp: emit_read_receipt_def receipt_to_store_def Let_def failed_receipt_def
      split: if_splits option.splits prod.splits sum.splits dest!: map_sum_Some)

lemma receipt_payload:
  assumes "same_payload sid (receipt_args uuid5 sid aid msg) refs d = Some True"
  shows "dget d ''kind'' = Some (JStr ''RECEIPT'')" "dget d ''from'' = Some (JStr aid)"
    "dget d ''to'' = Some (JStr (sget msg ''from''))"
    "dget_or d ''reply_to'' (JStr []) = JStr (sget msg ''msg_id'')"
    "dget_or d ''run_id'' (JStr []) = JStr (sget msg ''run_id'')"
    "dget_or d ''request_id'' (JStr []) = JStr (sget msg ''request_id'')"
    "dget_or d ''receipt_type'' (JStr []) = JStr ''READ''" "\<not> wants_ack d"
  using assms
  by (auto simp: same_payload_def Let_def receipt_args_def wants_ack_def split: if_splits)

text \<open>
  A delivered receipt answers the message and asks for nothing. When a local read hands out a
  message that asks for an acknowledgement and reports its receipt as delivered, the inbox of the
  sender holds, under the id computed from session, message and reader, a \<open>RECEIPT\<close> from the
  reader to the sender that names the message and carries its run and request ids; reading that
  receipt in turn asks for no further receipt.
\<close>

theorem read_receipt_delivered:
  assumes "service_read uuid5 diag None fuel clock nonce sid aid owner mid s = Some (Inr r, s')"
    and "ro_message r = Some msg" "ro_receipt r = Some rc" "sv_status rc = ''delivered''"
    and "sget msg ''from'' \<noteq> BROADCAST_TO"
    and "load_at s' (inbox_file sid (sget msg ''from'')
           (receipt_msg_id uuid5 sid (sget msg ''msg_id'') aid)) \<noteq> Loaded JNull"
  shows "\<exists>d. load_at s' (inbox_file sid (sget msg ''from'')
           (receipt_msg_id uuid5 sid (sget msg ''msg_id'') aid)) = Loaded (JObj d) \<and>
    dget d ''kind'' = Some (JStr ''RECEIPT'') \<and> dget d ''from'' = Some (JStr aid) \<and>
    dget d ''to'' = Some (JStr (sget msg ''from'')) \<and>
    dget_or d ''reply_to'' (JStr []) = JStr (sget msg ''msg_id'') \<and>
    dget_or d ''run_id'' (JStr []) = JStr (sget msg ''run_id'') \<and>
    dget_or d ''request_id'' (JStr []) = JStr (sget msg ''request_id'') \<and>
    dget_or d ''receipt_type'' (JStr []) = JStr ''READ'' \<and> \<not> wants_ack d"
proof -
  obtain s2 parked t where "claim_and_receipt uuid5 None fuel clock nonce sid aid owner parked t s2 = Some (Inr r, s')"
    using assms(1) by (cases rule: service_read_cases) (use assms(2,3) in auto)
  then obtain s1 where em: "emit_read_receipt uuid5 None (clock fuel) sid aid msg s1 = Some (Inr (Some rc), s')"
    by (cases rule: claim_and_receipt_cases) (use assms(2,3) in auto)
  obtain x where x: "send (clock fuel) [] sid (receipt_args uuid5 sid aid msg) s1 = Some (Inr x, s')"
    using emit_local_delivered [OF em assms(4)] by blast
  have "sn_msg_id (receipt_args uuid5 sid aid msg) = Some (receipt_msg_id uuid5 sid (sget msg ''msg_id'') aid)"
    "sn_to (receipt_args uuid5 sid aid msg) = sget msg ''from''"
    by (simp_all add: receipt_args_def)
  from send_direct_lands [OF x this(1)] this(2) assms(5,6) obtain d refs
    where "load_at s' (inbox_file sid (sget msg ''from'')
        (receipt_msg_id uuid5 sid (sget msg ''msg_id'') aid)) = Loaded (JObj d)"
      and p: "same_payload sid (receipt_args uuid5 sid aid msg) refs d = Some True" by auto
  with receipt_payload [OF p] show ?thesis by blast
qed

lemma send_unrecorded_not_replayed:
  assumes "send now sufs sid a s = Some (Inr r, s')" "sn_msg_id a = Some m" "sn_to a \<noteq> BROADCAST_TO"
    and "\<not> exists_at s (history_file sid m)" "\<not> exists_at s (inbox_file sid (sn_to a) m)"
  shows "\<forall>n. r \<noteq> Replayed n"
  using assms(1)
proof (cases rule: send_cases)
  case (new rs refs m')
  then show ?thesis by (auto simp: send_new_not_replayed)
next
  case (replay rs refs m' d)
  with send_checks_direct [OF replay(1) assms(3)] assms(2,4,5) show ?thesis by simp
qed

text \<open>
  Receipts survive a crash. If a receipt was written for the first time, and the process dies
  and emits it again at any later time, the second emission reports the same receipt and writes
  nothing.
\<close>

theorem receipt_emission_idempotent:
  assumes "emit_read_receipt uuid5 None now sid aid msg s = Some (Inr (Some rc), s')"
    and "sv_status rc = ''delivered''"
    and "sget msg ''from'' \<noteq> BROADCAST_TO"
    and "\<not> exists_at s (history_file sid (receipt_msg_id uuid5 sid (sget msg ''msg_id'') aid))"
    and "\<not> exists_at s (inbox_file sid (sget msg ''from'') (receipt_msg_id uuid5 sid (sget msg ''msg_id'') aid))"
  shows "emit_read_receipt uuid5 None now' sid aid msg s' = Some (Inr (Some rc), s')"
proof -
  obtain x where x: "send now [] sid (receipt_args uuid5 sid aid msg) s = Some (Inr x, s')"
    using emit_local_delivered [OF assms(1,2)] by blast
  have "send now' [] sid (receipt_args uuid5 sid aid msg) s' = Some (Inr (Replayed 0), s')"
  proof (rule send_again_noop [OF x])
    show "sn_msg_id (receipt_args uuid5 sid aid msg) = Some (receipt_msg_id uuid5 sid (sget msg ''msg_id'') aid)"
      by (simp add: receipt_args_def)
    show "\<forall>n. x \<noteq> Replayed n"
      by (rule send_unrecorded_not_replayed [OF x]) (use assms(3-5) in \<open>simp_all add: receipt_args_def\<close>)
  qed
  with x assms(1) show ?thesis
    by (auto simp: emit_read_receipt_def receipt_to_store_def Let_def split: if_splits)
qed

lemma receipt_invalid_without_run:
  assumes "strip (sget msg ''run_id'') = [] \<or> strip (sget msg ''request_id'') = []"
  shows "validate_message (JObj (message_to_dict
      (send_message now sid (receipt_args uuid5 sid aid msg) m refs))) (Some sid) None None \<noteq> Valid"
proof
  let ?m = "send_message now sid (receipt_args uuid5 sid aid msg) m refs"
  let ?d = "message_to_dict ?m"
  assume v: "validate_message (JObj ?d) (Some sid) None None = Valid"
  have k: "sget ?d ''kind'' = ''RECEIPT''"
    by (simp add: sget_def message_to_dict_required [THEN dget_or_dget] send_message_def receipt_args_def)
  obtain f where f: "f \<in> {''run_id'', ''request_id''}" "strip (sget msg f) = []" using assms by blast
  have "run_id ?m = JStr (sget msg ''run_id'')" "request_id ?m = JStr (sget msg ''request_id'')"
    by (simp_all add: send_message_def receipt_args_def)
  then have "dget_or ?d ''run_id'' (JStr []) = JStr (sget msg ''run_id'')"
    "dget_or ?d ''request_id'' (JStr []) = JStr (sget msg ''request_id'')"
    by (simp_all only: message_to_dict_optional [OF message_typed_send])
  with f(1) have "dget_or ?d f (JStr []) = JStr (sget msg f)" by blast
  then have "blank (dget_or ?d f (JStr []))" using f by (simp add: blank_def)
  moreover have "(blank (dget_or ?d f (JStr [])), KindRequiresNonEmpty ''RECEIPT'' f) \<in> set (kind_checks ?d)"
    using f(1) by (auto simp: kind_checks_def k Let_def KIND_CONDITIONAL_REQUIRED_def)
  ultimately show False
    using valid_message_check [OF v] message_checks_members(1) by fastforce
qed

text \<open>
  A message without run or request id cannot be acknowledged. Such a message (a question or a
  notice may lack them) can still ask for an acknowledgement and is consumed, but its receipt is
  rejected by the schema of receipts: the reader gets a failed receipt and nothing is written.
\<close>

theorem receipt_needs_correlation:
  assumes "strip (sget msg ''run_id'') = [] \<or> strip (sget msg ''request_id'') = []"
    and "sget msg ''from'' \<noteq> BROADCAST_TO"
    and "\<not> exists_at s (history_file sid (receipt_msg_id uuid5 sid (sget msg ''msg_id'') aid))"
    and "\<not> exists_at s (inbox_file sid (sget msg ''from'') (receipt_msg_id uuid5 sid (sget msg ''msg_id'') aid))"
    and "emit_read_receipt uuid5 None now sid aid msg s = Some (Inr (Some rc), s')"
  shows "sv_status rc = ''failed'' \<and> sv_error rc \<noteq> None \<and> s' = s"
proof -
  let ?a = "receipt_args uuid5 sid aid msg" and ?m = "receipt_msg_id uuid5 sid (sget msg ''msg_id'') aid"
  have a: "sn_msg_id ?a = Some ?m" "sn_to ?a = sget msg ''from''" by (simp_all add: receipt_args_def)
  have "\<exists>e. send now [] sid ?a s = Some (Inl e, s)"
  proof (cases "send_checks sid ?a s")
    case (Inr p)
    then obtain rs refs where p: "send_checks sid ?a s = Inr (rs, refs)" by (cases p) auto
    have rs: "rs = [sget msg ''from'']" using send_checks_direct [OF p] a(2) assms(2) by simp
    have "find_existing s (map (\<lambda>r. inbox_file sid r ?m) rs @ [history_file sid ?m]) = None"
      using assms(3,4) by (simp add: rs)
    moreover have "\<exists>e. send_new now sid ?a ?m rs refs s = (Inl e, s)"
      using receipt_invalid_without_run [OF assms(1), of now sid uuid5 aid ?m refs]
      by (auto simp: send_new_def Let_def split: verdict.splits)
    ultimately show ?thesis using p a(1) by (auto simp: send_def)
  qed (simp add: send_def)
  with assms(5) show ?thesis
    by (auto simp: emit_read_receipt_def receipt_to_store_def Let_def failed_receipt_def split: if_splits)
qed
section \<open>Parked messages do not block the queue\<close>

text \<open>A marker whose sender is not on the roster.\<close>

definition marker_unresolved :: "string \<Rightarrow> string \<Rightarrow> string list \<Rightarrow> fs \<Rightarrow> string \<Rightarrow> bool" where
  "marker_unresolved sid aid roster s m \<longleftrightarrow> (case ack_unresolved_marker sid aid m s of
       Some (JObj d) \<Rightarrow> (case dget d ''from'' of Some (JStr x) \<Rightarrow> x \<notin> set roster | _ \<Rightarrow> False)
     | _ \<Rightarrow> False)"

lemma marker_unresolvedE:
  assumes "marker_unresolved sid aid roster s m"
  obtains d x where "ack_unresolved_marker sid aid m s = Some (JObj d)"
    "dget d ''from'' = Some (JStr x)" "x \<notin> set roster"
proof (cases "ack_unresolved_marker sid aid m s")
  case (Some j)
  with assms obtain d where d: "j = JObj d" by (cases j) (simp_all add: marker_unresolved_def)
  show thesis
  proof (cases "dget d ''from''")
    case (Some v)
    with assms \<open>ack_unresolved_marker sid aid m s = Some j\<close> d that show thesis
      by (cases v) (simp_all add: marker_unresolved_def)
  qed (use assms Some d in \<open>simp add: marker_unresolved_def\<close>)
qed (use assms in \<open>simp add: marker_unresolved_def\<close>)

lemma unpark_none:
  assumes "read_session sid s = Inr (Some meta)" "meta_roster meta = Some roster"
  shows "(\<And>m. m \<in> set ms \<Longrightarrow> marker_unresolved sid aid roster s m) \<Longrightarrow>
    unpark_loop sid aid ms s = (Inr ms, s)"
proof (induction ms)
  case (Cons m ms)
  have "marker_unresolved sid aid roster s m" by (rule Cons.prems) simp
  then obtain d x where d: "ack_unresolved_marker sid aid m s = Some (JObj d)"
    "dget d ''from'' = Some (JStr x)" "x \<notin> set roster"
    by (rule marker_unresolvedE)
  have "d \<noteq> []" using d(2) by (auto simp: dget_def)
  have fr: "dget_or d ''from'' (JStr []) = JStr x" using d(2) by (rule dget_or_dget)
  have "sender_resolvable sid (JStr x) s = Inr False" using d(3) assms by (simp add: sender_resolvable_def)
  moreover have "unpark_loop sid aid ms s = (Inr ms, s)" by (rule Cons.IH) (simp add: Cons.prems)
  ultimately show ?case using d(1) fr \<open>d \<noteq> []\<close> by simp
qed simp

lemma same_stem_same_name:
  assumes "visible g" "is_message_name f" "is_message_name g" "stem f = stem g"
  shows "f = g"
proof -
  have suf: "suffix dot_json f" "suffix dot_json g" "5 \<le> length f" "5 \<le> length g"
    using assms by (auto simp: is_message_name_def glob_match_def dot_json_def)
  have short: "x = dot_json" if "suffix dot_json x" "\<not> 5 < length x" for x
    using that by (auto simp: suffix_def dot_json_def)
  have g: "5 < length g"
  proof (rule ccontr)
    assume "\<not> 5 < length g"
    then have "g = dot_json" by (rule short [OF suf(2)])
    with assms(1) show False by (simp add: visible_def dot_json_def)
  qed
  have "5 < length f"
  proof (rule ccontr)
    assume "\<not> 5 < length f"
    then have "stem f = dot_json" using short [OF suf(1)] by (simp add: stem_def dot_json_def)
    then have "hd (stem g) = CHR ''.''" using assms(4) by (simp add: dot_json_def)
    moreover have "g = stem g @ dot_json" using g suf(2) by (simp add: stem_append)
    moreover have "stem g \<noteq> []" by (rule stem_nonempty) (use g in auto)
    ultimately show False using assms(1) by (metis hd_append2 visible_def)
  qed
  then show ?thesis using g suf assms(4) by (metis stem_append)
qed

lemma targeted_read_claims:
  assumes "check_agent sid aid = None" "g \<in> set (list_messages (inbox_dir sid aid) s)" "visible g"
    and "load_at s (inbox_dir sid aid @ [g]) = Loaded (JObj msg)"
    and "validate_message (JObj msg) (Some sid) (Some aid) (Some g) = Valid"
    and "read_roster sid s = Some roster" "sget msg ''from'' \<in> set roster"
    and "\<not> exists_at s (processing_dir sid aid @ [claim_name (stem g) owner])"
    and "\<not> exists_at s (processing_dir sid aid @ [tmp_claim_name (stem g) owner (nonce 0)])"
  shows "\<exists>s'. read (Suc fuel) clock nonce sid aid owner skip (Some (stem g)) s = Some (Inr (Some msg), s')"
proof -
  have ne: "stem g \<noteq> []" by (rule stem_nonempty) (use assms(3) in \<open>simp add: visible_def\<close>)
  obtain f where f: "find (\<lambda>f. stem f = stem g) (list_messages (inbox_dir sid aid) s) = Some f"
    using assms(2) by (metis (mono_tags, lifting) find_None_iff not_None_eq)
  then have "stem f = stem g" "f \<in> set (list_messages (inbox_dir sid aid) s)"
    by (auto simp: find_Some_iff)
  then have "f = g"
    using same_stem_same_name [OF assms(3), of f] assms(2)
    by (auto simp: set_list_messages split: if_splits)
  have nex: "\<not> exists_at (mkdirs (processing_dir sid aid) s) (processing_dir sid aid @ [n])"
    if "\<not> exists_at s (processing_dir sid aid @ [n])" for n
    using that by (simp add: exists_at_def fs_simps)
  have "\<exists>s'. read_step (clock 0) (nonce 0) sid aid owner skip (Some (stem g)) [] s = (ReadMsg msg, s')"
    using f \<open>f = g\<close> assms(4-7) nex [OF assms(8)] nex [OF assms(9)]
    by (simp add: read_step_def pick_target_def claim_and_move_def Let_def)
  with assms(1) ne show ?thesis by (auto simp: read_def)
qed

text \<open>
  A parked message does not hold up the queue. If every parked message still has an unknown
  sender, and the oldest message that is not parked is valid, from a roster member, not claimed and
  asks for no acknowledgement, then the next \<open>read\<close> claims exactly that message, whatever older
  parked messages there are.
\<close>

theorem parked_messages_do_not_block:
  assumes "validate_agent_id aid" "validate_agent_id owner" "validate_agent_id sid"
    and "\<forall>x. prefix x (agent_dir sid aid) \<longrightarrow> exists_at s x"
    and "read_session sid s = Inr (Some meta)" "truthy meta" "meta_roster meta = Some roster"
    and "\<forall>m \<in> set (ack_unresolved_ids sid aid s). marker_unresolved sid aid roster s m"
    and "find (\<lambda>f. stem f \<notin> set (ack_unresolved_ids sid aid s)) (list_messages (inbox_dir sid aid) s) = Some g"
    and "visible g" "load_at s (inbox_dir sid aid @ [g]) = Loaded (JObj msg)" "\<not> wants_ack msg"
    and "validate_message (JObj msg) (Some sid) (Some aid) (Some g) = Valid"
    and "sget msg ''from'' \<in> set roster"
    and "\<not> exists_at s (processing_dir sid aid @ [claim_name (stem g) owner])"
    and "\<not> exists_at s (processing_dir sid aid @ [tmp_claim_name (stem g) owner (nonce 0)])"
  shows "\<exists>s' r. service_read uuid5 diag sink (Suc fuel) clock nonce sid aid owner [] s = Some (Inr r, s') \<and>
    ro_status r = ROk \<and> ro_message r = Some msg"
proof -
  let ?ids = "ack_unresolved_ids sid aid s" and ?fs = "list_messages (inbox_dir sid aid) s"
  have s1: "mkdirs (agent_dir sid aid) s = s" by (rule mkdirs_id) (use assms(4) in blast)
  have un: "unpark_loop sid aid ?ids s = (Inr ?ids, s)"
    by (rule unpark_none [OF assms(5,7)]) (use assms(8) in blast)
  have g: "g \<in> set ?fs" using assms(9) by (auto simp: find_Some_iff)
  then have ne: "?fs \<noteq> []" by auto
  have "read_roster sid s = Some roster" using assms(5-7) by (simp add: read_roster_def)
  moreover have "check_agent sid aid = None" using assms(1,3) by (simp add: check_agent_def check_session_def)
  ultimately obtain s' where rd: "read (Suc fuel) clock nonce sid aid owner ?ids (Some (stem g)) s =
      Some (Inr (Some msg), s')"
    using targeted_read_claims [where fuel = fuel and clock = clock and skip = ?ids] g assms(10,11,13-16)
    by blast
  have insp: "inspect_first s (inbox_dir sid aid @ [g]) = JObj msg"
    using assms(11) by (simp add: inspect_first_def)
  have "find (\<lambda>x. \<not> validate_agent_id x) [aid, owner, sid] = None" using assms(1-3) by simp
  then have "service_read uuid5 diag sink (Suc fuel) clock nonce sid aid owner [] s =
      claim_and_receipt uuid5 sink (Suc fuel) clock nonce sid aid owner ?ids (stem g) s"
    using ne un assms(9,12) insp by (simp add: service_read_def Let_def s1 pick_first_def del: find.simps)
  with rd assms(12) show ?thesis by (simp add: claim_and_receipt_def)
qed

section \<open>Witnesses\<close>

definition ack_doc :: "string \<Rightarrow> string \<Rightarrow> dict" where
  "ack_doc sender run =
     [(''session_id'', JStr ''s1''), (''from'', JStr sender), (''to'', JStr ''w1''),
      (''subject'', JStr ''build''), (''body'', JStr ''make it''), (''kind'', JStr ''NOTICE''),
      (''msg_id'', JStr ''m1''), (''created_at'', JStr ''1970-01-01T00:16:40Z''),
      (''run_id'', JStr run), (''request_id'', JStr ''q1''), (''require_ack'', JBool True)]"

definition ack_box :: "string \<Rightarrow> string \<Rightarrow> fs" where
  "ack_box sender run = example_box None False @
     [([''s1'', ''boss''], Dir), ([''s1'', ''boss'', ''inbox''], Dir),
      ([''s1'', ''w1'', ''inbox'', ''m1.json''], File (Doc (JObj (ack_doc sender run))) 1000)]"

definition ack_read :: "string \<Rightarrow> string \<Rightarrow> ((store_error + read_result) \<times> fs) option" where
  "ack_read sender run = service_read (\<lambda>_. ''u1'') (\<lambda>_. ''no route'') None 3 (\<lambda>_. 1000) (\<lambda>_. ''7'')
     ''s1'' ''w1'' ''w1'' [] (ack_box sender run)"


theorem read_receipt_delivered_witness:
  "\<exists>r s' d. ack_read ''boss'' ''r1'' = Some (Inr r, s') \<and>
     load_at s' (inbox_file ''s1'' ''boss'' ''u1'') = Loaded (JObj d) \<and>
     dget d ''kind'' = Some (JStr ''RECEIPT'') \<and> \<not> wants_ack d"
proof -
  have "(case ack_read ''boss'' ''r1'' of
      Some (Inr r, s') \<Rightarrow> ro_message r = Some (ack_doc ''boss'' ''r1'') \<and>
        map_option sv_status (ro_receipt r) = Some ''delivered'' \<and>
        load_at s' (inbox_file ''s1'' ''boss'' ''u1'') \<noteq> Loaded JNull
    | _ \<Rightarrow> False)" by code_simp
  then obtain r s' rc where r: "ack_read ''boss'' ''r1'' = Some (Inr r, s')"
    and m: "ro_message r = Some (ack_doc ''boss'' ''r1'')" "ro_receipt r = Some rc" "sv_status rc = ''delivered''"
    and nn: "load_at s' (inbox_file ''s1'' ''boss'' ''u1'') \<noteq> Loaded JNull"
    by (auto split: option.splits prod.splits sum.splits)
  have fr: "sget (ack_doc ''boss'' ''r1'') ''from'' = ''boss''" by code_simp
  have id: "receipt_msg_id (\<lambda>_. ''u1'') ''s1'' x ''w1'' = ''u1''" for x by (simp add: receipt_msg_id_def)
  show ?thesis
    using read_receipt_delivered [OF r [unfolded ack_read_def] m] fr nn r
    by (simp add: id BROADCAST_TO_def) blast
qed

definition ack_claimed :: "string \<Rightarrow> fs" where
  "ack_claimed run = ack_box ''boss'' run"

definition ack_emit :: "string \<Rightarrow> ((store_error + service_receipt option) \<times> fs) option" where
  "ack_emit run = emit_read_receipt (\<lambda>_. ''u1'') None 1000 ''s1'' ''w1'' (ack_doc ''boss'' run) (ack_claimed run)"

lemma ack_emit_fresh:
  "sget (ack_doc ''boss'' run) ''from'' = ''boss''" "''boss'' \<noteq> BROADCAST_TO"
  "\<not> exists_at (ack_claimed run) (history_file ''s1'' ''u1'')"
  "\<not> exists_at (ack_claimed run) (inbox_file ''s1'' ''boss'' ''u1'')"
  by code_simp+

lemma ack_receipt_id: "receipt_msg_id (\<lambda>_. ''u1'') ''s1'' x ''w1'' = ''u1''"
  by (simp add: receipt_msg_id_def)

theorem receipt_emission_idempotent_witness:
  "\<exists>rc s'. ack_emit ''r1'' = Some (Inr (Some rc), s') \<and>
     emit_read_receipt (\<lambda>_. ''u1'') None 9999 ''s1'' ''w1'' (ack_doc ''boss'' ''r1'') s' = Some (Inr (Some rc), s')"
proof -
  have "(case ack_emit ''r1'' of Some (Inr (Some rc), s') \<Rightarrow> sv_status rc = ''delivered'' | _ \<Rightarrow> False)"
    by code_simp
  then obtain rc s' where e: "ack_emit ''r1'' = Some (Inr (Some rc), s')" and st: "sv_status rc = ''delivered''"
    by (auto split: option.splits prod.splits sum.splits)
  have "emit_read_receipt (\<lambda>_. ''u1'') None 9999 ''s1'' ''w1'' (ack_doc ''boss'' ''r1'') s' = Some (Inr (Some rc), s')"
    by (rule receipt_emission_idempotent [OF e [unfolded ack_emit_def] st])
       (use ack_emit_fresh in \<open>simp_all add: ack_receipt_id\<close>)
  with e show ?thesis by blast
qed

theorem receipt_needs_correlation_witness:
  "\<exists>rc. ack_emit [] = Some (Inr (Some rc), ack_claimed []) \<and> sv_status rc = ''failed''"
proof -
  have "(case ack_emit [] of Some (Inr (Some rc), s') \<Rightarrow> True | _ \<Rightarrow> False)" by code_simp
  then obtain rc s' where e: "ack_emit [] = Some (Inr (Some rc), s')"
    by (auto split: option.splits prod.splits sum.splits)
  have "strip (sget (ack_doc ''boss'' []) ''run_id'') = []" by code_simp
  then have "sv_status rc = ''failed'' \<and> sv_error rc \<noteq> None \<and> s' = ack_claimed []"
    by (intro receipt_needs_correlation [OF _ _ _ _ e [unfolded ack_emit_def]])
       (use ack_emit_fresh in \<open>simp_all add: ack_receipt_id\<close>)
  with e show ?thesis by blast
qed

definition parked_box :: fs where
  "parked_box = ack_box ''ghost'' ''r1'' @
     [([''s1'', ''w1'', ''_ack_unresolved''], Dir),
      ([''s1'', ''w1'', ''_ack_unresolved'', ''m1.json''], File (Doc (JObj [(''from'', JStr ''ghost'')])) 1000),
      ([''s1'', ''w1'', ''inbox'', ''m2.json''],
        File (Doc (JObj (dset example_doc ''msg_id'' (JStr ''m2'')))) 1001)]"

theorem parked_messages_do_not_block_witness:
  "\<exists>s' r. service_read (\<lambda>_. []) (\<lambda>_. []) None 1 (\<lambda>_. 1000) (\<lambda>_. ''7'') ''s1'' ''w1'' ''w1'' [] parked_box =
       Some (Inr r, s') \<and>
     ro_status r = ROk \<and> ro_message r = Some (dset example_doc ''msg_id'' (JStr ''m2''))"
proof -
  let ?meta = "JObj [(''manager'', JStr ''boss''), (''agents'', JArr [JStr ''w1''])]"
  have all: "list_all (exists_at parked_box) (prefixes (agent_dir ''s1'' ''w1''))"
    "list_all (marker_unresolved ''s1'' ''w1'' [''boss'', ''w1''] parked_box) (ack_unresolved_ids ''s1'' ''w1'' parked_box)"
    "read_session ''s1'' parked_box = Inr (Some ?meta)"
    by code_simp+
  have "\<exists>s' r. service_read (\<lambda>_. []) (\<lambda>_. []) None (Suc 0) (\<lambda>_. 1000) (\<lambda>_. ''7'') ''s1'' ''w1'' ''w1'' [] parked_box = Some (Inr r, s') \<and>
     ro_status r = ROk \<and> ro_message r = Some (dset example_doc ''msg_id'' (JStr ''m2''))"
  proof (rule parked_messages_do_not_block [OF _ _ _ _ all(3), where g = "''m2.json''" and roster = "[''boss'', ''w1'']"])
    show "\<forall>x. prefix x (agent_dir ''s1'' ''w1'') \<longrightarrow> exists_at parked_box x"
      using all(1) by (simp add: list_all_iff)
    show "\<forall>m \<in> set (ack_unresolved_ids ''s1'' ''w1'' parked_box).
        marker_unresolved ''s1'' ''w1'' [''boss'', ''w1''] parked_box m"
      using all(2) by (simp only: list_all_iff)
  qed code_simp+
  then show ?thesis by simp
qed

end
