(* ===== verification/Swarm_Kernel.thy ===== *)
theory Swarm_Kernel
  imports Mailbox_Service "HOL-Library.Monad_Syntax"
begin

text \<open>
  \<open>swarm/kernel.py\<close>: sessions with rosters and access lists, the routing table, channels, topics
  and subscriptions, and the routing of messages to a delivery sink. The kernel keeps its tables
  in memory and mirrors them in \<open>session.json\<close> and \<open>swarm-meta.json\<close>, from which a new kernel
  rebuilds them.

  Every method runs under the lock of the kernel and is one step here; deliveries run after the
  lock is dropped. A broadcast to four or more recipients hands its deliveries to a thread pool;
  the model takes them in the order of the roster, the order of the receipts. Dictionaries are
  association lists, sets are lists. The uuids a call draws are its arguments.
\<close>

section \<open>State\<close>

datatype kernel_error =
    KStore store_error
  | KSessionExists string
  | KSessionNotFound string
  | KNotInRoster string
  | KTokenMismatch string
  | KChannelMemberNotInRoster string
  | KChannelExists string
  | KChannelNotFound string
  | KSenderNotAllowed string
  | KRecipientNotMember string
  | KSenderNotInChannel string
  | KNotAuthority string
  | KNoTrace string
  | KBadPhase string
  | KBadDocument

text \<open>The errors that are \<open>PermissionError\<close>.\<close>

fun is_permission_error :: "kernel_error \<Rightarrow> bool" where
  "is_permission_error (KTokenMismatch _) = True"
| "is_permission_error (KSenderNotAllowed _) = True"
| "is_permission_error (KRecipientNotMember _) = True"
| "is_permission_error (KSenderNotInChannel _) = True"
| "is_permission_error (KNotAuthority _) = True"
| "is_permission_error _ = False"

record kernel =
  k_sessions :: "(string \<times> session) list"
  k_routing :: "((string \<times> string) \<times> agent_location) list"
  k_channels :: "(string \<times> (string \<times> channel) list) list"
  k_subscriptions :: "((string \<times> string) \<times> subscription list) list"
  k_topics :: "((string \<times> string) \<times> string list) list"
  k_tokens :: "((string \<times> string) \<times> string) list"

definition empty_kernel :: kernel where
  "empty_kernel = \<lparr>k_sessions = [], k_routing = [], k_channels = [], k_subscriptions = [], k_topics = [],
     k_tokens = []\<rparr>"

definition require_session :: "string \<Rightarrow> kernel \<Rightarrow> kernel_error + session" where
  "require_session sid k = (case map_of (k_sessions k) sid of
       None \<Rightarrow> Inl (KSessionNotFound sid)
     | Some ss \<Rightarrow> Inr ss)"

definition get_location :: "string \<Rightarrow> string \<Rightarrow> kernel \<Rightarrow> agent_location option" where
  "get_location sid aid k = map_of (k_routing k) (sid, aid)"

definition channels_of :: "string \<Rightarrow> kernel \<Rightarrow> (string \<times> channel) list" where
  "channels_of sid k = (case map_of (k_channels k) sid of None \<Rightarrow> [] | Some cs \<Rightarrow> cs)"

section \<open>The metadata file\<close>

definition swarm_meta_file :: "string \<Rightarrow> path" where
  "swarm_meta_file sid = session_dir sid @ [''swarm-meta.json'']"

text \<open>
  The locked read-modify-write of \<open>swarm-meta.json\<close>. The temporary file has a name of its own that
  no other file has, and is gone after the rename. The update yields \<^term>\<open>None\<close> when it raises.
\<close>

definition persist_meta ::
  "instant \<Rightarrow> string \<Rightarrow> (dict \<Rightarrow> dict option) \<Rightarrow> fs \<Rightarrow> (kernel_error + unit) \<times> fs" where
  "persist_meta now sid upd s = (case check_session sid of
       Some e \<Rightarrow> (Inl (KStore e), s)
     | None \<Rightarrow>
         (let s1 = mkdirs (session_dir sid) s in
          case (case load_at s1 (swarm_meta_file sid) of Loaded j \<Rightarrow> j | _ \<Rightarrow> JObj []) of
            JObj meta \<Rightarrow> (case upd meta of
                None \<Rightarrow> (Inl KBadDocument, s1)
              | Some meta' \<Rightarrow> (Inr (), write_doc now (swarm_meta_file sid) (JObj meta') s1))
          | _ \<Rightarrow> (Inl KBadDocument, s1)))"

definition acl_dict :: "acl \<Rightarrow> dict" where
  "acl_dict a = [(''authority'', JStr (acl_authority a)),
     (''allowed_senders'', JArr (map JStr (acl_allowed_senders a))),
     (''room_members'', JArr (map JStr (acl_room_members a))), (''policy'', JStr (acl_policy a))]"

definition location_dict :: "agent_location \<Rightarrow> dict" where
  "location_dict loc =
     [(''agent_id'', JStr (al_agent_id loc)), (''host_alias'', JStr (al_host_alias loc)),
      (''backend'', JStr (al_backend loc))] @
     (case al_execution_mode loc of None \<Rightarrow> []
      | Some m \<Rightarrow> [(''execution_mode'', JStr (execution_mode_value m))]) @
     (if al_mailbox_root loc \<noteq> [] then [(''mailbox_root'', JStr (al_mailbox_root loc))] else []) @
     (case al_return_mode loc of None \<Rightarrow> []
      | Some m \<Rightarrow> [(''return_mode'', JStr (return_mode_value m))])"

text \<open>\<open>x = meta.get(key, {})\<close>, changed and stored back; \<^term>\<open>None\<close> when it is no dictionary.\<close>

definition update_sub :: "string \<Rightarrow> (dict \<Rightarrow> dict) \<Rightarrow> dict \<Rightarrow> dict option" where
  "update_sub key f meta = (case dget_or meta key (JObj []) of
       JObj d \<Rightarrow> Some (dset meta key (JObj (f d)))
     | _ \<Rightarrow> None)"

definition routing_update :: "string \<Rightarrow> string list \<Rightarrow> kernel \<Rightarrow> dict \<Rightarrow> dict" where
  "routing_update sid deleted k d =
     filter (\<lambda>(a, _). a \<notin> set deleted)
       (foldl (\<lambda>d ((sid', aid), loc). if sid' = sid then dset d aid (JObj (location_dict loc)) else d)
          d (k_routing k))"

definition persist_routing ::
  "instant \<Rightarrow> string \<Rightarrow> string list \<Rightarrow> kernel \<Rightarrow> fs \<Rightarrow> (kernel_error + unit) \<times> fs" where
  "persist_routing now sid deleted k s =
     persist_meta now sid (update_sub ''routing'' (routing_update sid deleted k)) s"

definition channel_dict :: "channel \<Rightarrow> dict" where
  "channel_dict c = [(''channel_id'', JStr (ch_id c)), (''members'', JArr (map JStr (ch_members c)))]"

definition persist_channels :: "instant \<Rightarrow> string \<Rightarrow> kernel \<Rightarrow> fs \<Rightarrow> (kernel_error + unit) \<times> fs" where
  "persist_channels now sid k s =
     persist_meta now sid (update_sub ''channels''
       (\<lambda>d. foldl (\<lambda>d (cid, c). dset d cid (JObj (channel_dict c))) d (channels_of sid k))) s"

section \<open>Sessions, registration, channels\<close>

text \<open>
  The manager is always an allowed sender and a room member. The source turns a set into a list
  here, in no particular order.
\<close>

definition with_manager :: "string \<Rightarrow> acl \<Rightarrow> acl" where
  "with_manager mgr a =
     (let a1 = (if mgr \<in> set (acl_allowed_senders a) then a
                else a\<lparr>acl_allowed_senders := sorted_set (mgr # acl_allowed_senders a)\<rparr>) in
      if mgr \<in> set (acl_room_members a1) then a1
      else a1\<lparr>acl_room_members := sorted_set (mgr # acl_room_members a1)\<rparr>)"

definition default_acl :: "string \<Rightarrow> string list \<Rightarrow> acl" where
  "default_acl mgr members = \<lparr>acl_authority = mgr, acl_allowed_senders = members,
     acl_room_members = members, acl_policy = ''open''\<rparr>"

type_synonym modes = "(string \<times> string) list"

definition modes_dict :: "modes \<Rightarrow> dict option" where
  "modes_dict ms = (if ms = [] then None else Some (map (\<lambda>(a, m). (a, JStr m)) ms))"

definition create_session ::
  "instant \<Rightarrow> string \<Rightarrow> string \<Rightarrow> string list \<Rightarrow> acl option \<Rightarrow> modes \<Rightarrow> modes \<Rightarrow> kernel \<Rightarrow> fs \<Rightarrow>
   (kernel_error + session) \<times> kernel \<times> fs" where
  "create_session now sid mgr roster a ems rms k s =
     (case find (\<lambda>x. \<not> validate_agent_id x) (sid # mgr # roster) of
        Some x \<Rightarrow> (Inl (KStore (BadAgentId x)), k, s)
      | None \<Rightarrow>
          if map_of (k_sessions k) sid \<noteq> None then (Inl (KSessionExists sid), k, s)
          else
            (let members = sorted_set (mgr # roster);
                 lst = with_manager mgr (case a of None \<Rightarrow> default_acl mgr members | Some x \<Rightarrow> x);
                 ss = \<lparr>ss_session_id = sid, ss_manager_id = mgr, ss_roster = members, ss_acl = lst,
                   ss_created_at = iso_format now, ss_execution_modes = ems, ss_return_modes = rms\<rparr> in
             case session_init now sid \<lparr>sa_manager = mgr, sa_agents = roster_without members mgr,
                 sa_acl = Some (JObj (acl_dict lst)), sa_execution_modes = modes_dict ems,
                 sa_return_modes = modes_dict rms\<rparr> s of
               (Inl e, s1) \<Rightarrow> (Inl (KStore e), k, s1)
             | (Inr _, s1) \<Rightarrow>
                 (case persist_meta now sid (\<lambda>m. Some (dset m ''acl'' (JObj (acl_dict lst)))) s1 of
                    (Inl e, s2) \<Rightarrow> (Inl e, k, s2)
                  | (Inr _, s2) \<Rightarrow> (Inr ss, k\<lparr>k_sessions := AList.update sid ss (k_sessions k),
                      k_channels := AList.update sid [] (k_channels k),
                      k_subscriptions := filter (\<lambda>((x, _), _). x \<noteq> sid) (k_subscriptions k)\<rparr>, s2))))"

text \<open>\<open>register\<close>: the location is kept in memory and on disk, its modes also in the session.\<close>

definition session_with_modes :: "agent_location \<Rightarrow> session \<Rightarrow> session" where
  "session_with_modes loc ss =
     (let s1 = (case al_execution_mode loc of None \<Rightarrow> ss
          | Some m \<Rightarrow> ss\<lparr>ss_execution_modes :=
              AList.update (al_agent_id loc) (execution_mode_value m) (ss_execution_modes ss)\<rparr>) in
      case al_return_mode loc of None \<Rightarrow> s1
      | Some m \<Rightarrow> s1\<lparr>ss_return_modes :=
          AList.update (al_agent_id loc) (return_mode_value m) (ss_return_modes s1)\<rparr>)"

definition register ::
  "instant \<Rightarrow> agent_location \<Rightarrow> string \<Rightarrow> string \<Rightarrow> kernel \<Rightarrow> fs \<Rightarrow> (kernel_error + unit) \<times> kernel \<times> fs" where
  "register now loc sid token k s =
     (let aid = al_agent_id loc in
      case require_session sid k of
        Inl e \<Rightarrow> (Inl e, k, s)
      | Inr ss \<Rightarrow>
          if aid \<notin> set (ss_roster ss) then (Inl (KNotInRoster aid), k, s)
          else if (case map_of (k_tokens k) (sid, aid) of None \<Rightarrow> False
              | Some t \<Rightarrow> t \<noteq> [] \<and> token \<noteq> t) then (Inl (KTokenMismatch aid), k, s)
          else
            (let k1 = k\<lparr>k_routing := AList.update (sid, aid) loc (k_routing k)\<rparr> in
             case persist_routing now sid [] k1 s of
               (Inl e, s1) \<Rightarrow> (Inl e, k1, s1)
             | (Inr _, s1) \<Rightarrow>
                 (let k2 = k1\<lparr>k_sessions := AList.update sid (session_with_modes loc ss) (k_sessions k1)\<rparr> in
                  if al_execution_mode loc = None \<and> al_return_mode loc = None then (Inr (), k2, s1)
                  else case session_init now sid \<lparr>sa_manager = ss_manager_id ss, sa_agents = [],
                      sa_acl = None,
                      sa_execution_modes = map_option (\<lambda>m. [(aid, JStr (execution_mode_value m))])
                        (al_execution_mode loc),
                      sa_return_modes = map_option (\<lambda>m. [(aid, JStr (return_mode_value m))])
                        (al_return_mode loc)\<rparr> s1 of
                    (Inl e, s2) \<Rightarrow> (Inl (KStore e), k2, s2)
                  | (Inr _, s2) \<Rightarrow> (Inr (), k2, s2))))"

definition unregister ::
  "instant \<Rightarrow> string \<Rightarrow> string \<Rightarrow> kernel \<Rightarrow> fs \<Rightarrow> (kernel_error + unit) \<times> kernel \<times> fs" where
  "unregister now sid aid k s = (case require_session sid k of
       Inl e \<Rightarrow> (Inl e, k, s)
     | Inr _ \<Rightarrow>
         (let k1 = k\<lparr>k_routing := AList.delete (sid, aid) (k_routing k)\<rparr> in
          case persist_routing now sid [aid] k1 s of (r, s1) \<Rightarrow> (r, k1, s1)))"

definition set_registration_token ::
  "instant \<Rightarrow> string \<Rightarrow> string \<Rightarrow> string \<Rightarrow> kernel \<Rightarrow> fs \<Rightarrow> (kernel_error + unit) \<times> kernel \<times> fs" where
  "set_registration_token now sid aid token k s = (case require_session sid k of
       Inl e \<Rightarrow> (Inl e, k, s)
     | Inr ss \<Rightarrow>
         if aid \<notin> set (ss_roster ss) then (Inl (KNotInRoster aid), k, s)
         else
           (let k1 = k\<lparr>k_tokens := AList.update (sid, aid) token (k_tokens k)\<rparr> in
            case persist_meta now sid (update_sub ''registration_tokens''
                (\<lambda>d. dset d aid (JStr token))) s of (r, s1) \<Rightarrow> (r, k1, s1)))"

definition create_channel ::
  "instant \<Rightarrow> string \<Rightarrow> string \<Rightarrow> string list \<Rightarrow> acl option \<Rightarrow> kernel \<Rightarrow> fs \<Rightarrow>
   (kernel_error + channel) \<times> kernel \<times> fs" where
  "create_channel now sid cid members a k s = (case require_session sid k of
       Inl e \<Rightarrow> (Inl e, k, s)
     | Inr ss \<Rightarrow> (case find (\<lambda>m. m \<notin> set (ss_roster ss)) members of
           Some m \<Rightarrow> (Inl (KChannelMemberNotInRoster m), k, s)
         | None \<Rightarrow>
             if map_of (channels_of sid k) cid \<noteq> None then (Inl (KChannelExists cid), k, s)
             else
               (let c = \<lparr>ch_id = cid, ch_members = members, ch_acl = a\<rparr>;
                    k1 = k\<lparr>k_channels := AList.update sid (AList.update cid c (channels_of sid k)) (k_channels k)\<rparr> in
                case persist_channels now sid k1 s of
                  (Inl e, s1) \<Rightarrow> (Inl e, k1, s1)
                | (Inr _, s1) \<Rightarrow> (Inr c, k1, s1))))"

section \<open>Restoring the tables from disk\<close>

text \<open>
  Documents of other shapes than the kernel writes are outside the model: the loader either stores
  what it finds or raises, and the model takes all of them as an error.
\<close>

definition str_field :: "dict \<Rightarrow> string \<Rightarrow> string \<Rightarrow> string option" where
  "str_field d key dflt = (case dget_or d key (JStr dflt) of JStr x \<Rightarrow> Some x | _ \<Rightarrow> None)"

definition strs_field :: "dict \<Rightarrow> string \<Rightarrow> string list \<Rightarrow> string list option" where
  "strs_field d key dflt = str_elems (dget_or d key (JArr (map JStr dflt)))"

text \<open>\<open>d.get(key) or ""\<close>\<close>

definition str_or_empty :: "dict \<Rightarrow> string \<Rightarrow> string option" where
  "str_or_empty d key = (case dget_or d key JNull of
       JStr x \<Rightarrow> Some x
     | v \<Rightarrow> if truthy v then None else Some [])"

definition acl_of_dict :: "string \<Rightarrow> string list \<Rightarrow> dict \<Rightarrow> acl option" where
  "acl_of_dict mgr members d = do {
     auth \<leftarrow> str_field d ''authority'' mgr;
     senders \<leftarrow> strs_field d ''allowed_senders'' members;
     room \<leftarrow> strs_field d ''room_members'' members;
     pol \<leftarrow> str_field d ''policy'' ''open'';
     Some \<lparr>acl_authority = auth, acl_allowed_senders = senders, acl_room_members = room, acl_policy = pol\<rparr>
   }"

text \<open>\<open>ExecutionMode(raw) if raw else None\<close>, and the same for the return mode.\<close>

definition opt_mode :: "(string \<Rightarrow> 'm option) \<Rightarrow> dict \<Rightarrow> string \<Rightarrow> 'm option option" where
  "opt_mode of_str d key = (case dget_or d key JNull of
       JStr r \<Rightarrow> if r = [] then Some None else map_option Some (of_str r)
     | v \<Rightarrow> if truthy v then None else Some None)"

definition location_of_dict :: "string \<Rightarrow> dict \<Rightarrow> agent_location option" where
  "location_of_dict aid d = do {
     a \<leftarrow> str_field d ''agent_id'' aid;
     h \<leftarrow> str_field d ''host_alias'' [];
     b \<leftarrow> str_field d ''backend'' ''cli'';
     em \<leftarrow> opt_mode execution_mode_of d ''execution_mode'';
     root \<leftarrow> str_field d ''mailbox_root'' [];
     rm \<leftarrow> opt_mode return_mode_of d ''return_mode'';
     Some \<lparr>al_agent_id = a, al_host_alias = h, al_backend = b, al_execution_mode = em,
       al_mailbox_root = root, al_return_mode = rm\<rparr>
   }"

definition channel_of_dict :: "string \<Rightarrow> dict \<Rightarrow> channel option" where
  "channel_of_dict cid d = do {
     c \<leftarrow> str_field d ''channel_id'' cid;
     ms \<leftarrow> strs_field d ''members'' [];
     Some \<lparr>ch_id = c, ch_members = ms, ch_acl = None\<rparr>
   }"

text \<open>\<open>(meta.get(key) or {}).items()\<close>, each value decoded by \<open>f\<close>.\<close>

fun decode_items :: "(string \<Rightarrow> dict \<Rightarrow> 'a option) \<Rightarrow> dict \<Rightarrow> (string \<times> 'a) list option" where
  "decode_items f [] = Some []"
| "decode_items f ((key, JObj d) # kvs) = do {
     x \<leftarrow> f key d; xs \<leftarrow> decode_items f kvs; Some ((key, x) # xs) }"
| "decode_items f (_ # kvs) = None"

definition sub_items :: "(string \<Rightarrow> dict \<Rightarrow> 'a option) \<Rightarrow> string \<Rightarrow> dict \<Rightarrow> (string \<times> 'a) list option" where
  "sub_items f key meta = (case dget_or meta key JNull of
       JObj d \<Rightarrow> decode_items f d
     | v \<Rightarrow> if truthy v then None else Some [])"

fun decode_strs :: "dict \<Rightarrow> (string \<times> string) list option" where
  "decode_strs [] = Some []"
| "decode_strs ((key, JStr v) # kvs) = map_option (\<lambda>xs. (key, v) # xs) (decode_strs kvs)"
| "decode_strs (_ # kvs) = None"

definition sub_strs :: "string \<Rightarrow> dict \<Rightarrow> (string \<times> string) list option" where
  "sub_strs key meta = (case dget_or meta key JNull of
       JObj d \<Rightarrow> decode_strs d
     | v \<Rightarrow> if truthy v then None else Some [])"

definition update_all :: "('k \<times> 'v) list \<Rightarrow> ('k \<times> 'v) list \<Rightarrow> ('k \<times> 'v) list" where
  "update_all kvs m = foldl (\<lambda>m (key, v). AList.update key v m) m kvs"

text \<open>What \<open>swarm-meta.json\<close> adds: the channels, the routing entries and the tokens.\<close>

definition load_meta ::
  "dict \<Rightarrow> ((string \<times> channel) list \<times> (string \<times> agent_location) list \<times> (string \<times> string) list) option" where
  "load_meta meta = do {
     chans \<leftarrow> sub_items channel_of_dict ''channels'' meta;
     locs \<leftarrow> sub_items location_of_dict ''routing'' meta;
     toks \<leftarrow> sub_strs ''registration_tokens'' meta;
     Some (chans, locs, toks)
   }"

text \<open>The access list: the one of the session file, else that of the metadata file, else the default.\<close>

definition load_acl :: "string \<Rightarrow> string list \<Rightarrow> dict \<Rightarrow> dict option \<Rightarrow> acl option" where
  "load_acl mgr members data meta =
     (let session_acl = dget_or data ''acl'' JNull;
          from_session = (case session_acl of JObj d \<Rightarrow> acl_of_dict mgr members d
            | _ \<Rightarrow> Some (default_acl mgr members)) in
      case meta of
        None \<Rightarrow> from_session
      | Some m \<Rightarrow> (case dget_or m ''acl'' (JObj []) of
            JObj d \<Rightarrow> if d \<noteq> [] \<and> \<not> truthy session_acl then acl_of_dict mgr members d else from_session
          | v \<Rightarrow> if truthy v \<and> \<not> truthy session_acl then None else from_session))"

text \<open>What a session directory holds, and its entry in the tables.\<close>

record persisted =
  pe_session :: session
  pe_channels :: "(string \<times> channel) list"
  pe_routing :: "(string \<times> agent_location) list"
  pe_tokens :: "(string \<times> string) list"

definition decode_session :: "string \<Rightarrow> dict \<Rightarrow> dict option \<Rightarrow> persisted option" where
  "decode_session dirname data meta = do {
     sid \<leftarrow> str_or_empty data ''session_id'';
     mgr \<leftarrow> str_field data ''manager'' [];
     agents \<leftarrow> strs_field data ''agents'' [];
     let members = sorted_set ((if mgr = [] then [] else [mgr]) @ agents);
     a \<leftarrow> load_acl mgr members data meta;
     (chans, locs, toks) \<leftarrow> (case meta of None \<Rightarrow> Some ([], [], []) | Some m \<Rightarrow> load_meta m);
     created \<leftarrow> str_field data ''created_at'' [];
     ems \<leftarrow> sub_strs ''execution_modes'' data;
     rms \<leftarrow> sub_strs ''return_modes'' data;
     Some \<lparr>pe_session = \<lparr>ss_session_id = (if sid = [] then dirname else sid), ss_manager_id = mgr,
         ss_roster = members, ss_acl = a, ss_created_at = created, ss_execution_modes = ems,
         ss_return_modes = rms\<rparr>, pe_channels = chans, pe_routing = locs, pe_tokens = toks\<rparr>
   }"

definition read_persisted :: "string \<Rightarrow> fs \<Rightarrow> kernel_error + persisted option" where
  "read_persisted dirname s =
     (if \<not> is_dir_at s [dirname] then Inr None
      else case load_at s [dirname, ''session.json''] of
        Missing \<Rightarrow> Inr None
      | Undecodable \<Rightarrow> Inr None
      | Loaded (JObj data) \<Rightarrow>
          (case (case load_at s [dirname, ''swarm-meta.json''] of
                Loaded (JObj m) \<Rightarrow> decode_session dirname data (Some m)
              | Loaded _ \<Rightarrow> None
              | _ \<Rightarrow> decode_session dirname data None) of
             None \<Rightarrow> Inl KBadDocument
           | Some p \<Rightarrow> Inr (Some p))
      | Loaded _ \<Rightarrow> Inl KBadDocument)"

definition install :: "persisted \<Rightarrow> kernel \<Rightarrow> kernel" where
  "install p k =
     (let sid = ss_session_id (pe_session p) in
      k\<lparr>k_sessions := AList.update sid (pe_session p) (k_sessions k),
        k_channels := AList.update sid (pe_channels p) (k_channels k),
        k_subscriptions := filter (\<lambda>((x, _), _). x \<noteq> sid) (k_subscriptions k),
        k_routing := update_all (map (\<lambda>(a, l). ((sid, a), l)) (pe_routing p)) (k_routing k),
        k_tokens := update_all (map (\<lambda>(a, t). ((sid, a), t)) (pe_tokens p)) (k_tokens k)\<rparr>)"

definition load_one :: "string \<Rightarrow> fs \<Rightarrow> kernel \<Rightarrow> kernel_error + kernel" where
  "load_one dirname s k = (case read_persisted dirname s of
       Inl e \<Rightarrow> Inl e
     | Inr None \<Rightarrow> Inr k
     | Inr (Some p) \<Rightarrow> Inr (install p k))"

fun load_all :: "string list \<Rightarrow> fs \<Rightarrow> kernel \<Rightarrow> kernel_error + kernel" where
  "load_all [] s k = Inr k"
| "load_all (d # ds) s k = (case load_one d s k of Inl e \<Rightarrow> Inl e | Inr k' \<Rightarrow> load_all ds s k')"

definition load_persisted_sessions :: "fs \<Rightarrow> kernel_error + kernel" where
  "load_persisted_sessions s = load_all (sorted_set (children s [])) s empty_kernel"

section \<open>Access checks and routing\<close>

definition check_direct :: "session \<Rightarrow> string \<Rightarrow> string \<Rightarrow> kernel_error option" where
  "check_direct ss sender rcpt =
     (if sender \<notin> set (acl_allowed_senders (ss_acl ss)) then Some (KSenderNotAllowed sender)
      else if rcpt \<notin> set (acl_room_members (ss_acl ss)) then Some (KRecipientNotMember rcpt)
      else None)"

definition check_channel :: "channel \<Rightarrow> string \<Rightarrow> kernel_error option" where
  "check_channel c sender =
     (if sender \<notin> set (ch_members c) then Some (KSenderNotInChannel sender) else None)"

definition check_broadcast :: "session \<Rightarrow> string \<Rightarrow> kernel_error option" where
  "check_broadcast ss sender =
     (if acl_policy (ss_acl ss) = ''open'' then None
      else if sender \<noteq> acl_authority (ss_acl ss) then Some (KNotAuthority sender) else None)"

definition check_notice :: "session \<Rightarrow> string \<Rightarrow> kernel_error option" where
  "check_notice ss sender =
     (if sender \<notin> set (acl_allowed_senders (ss_acl ss)) then Some (KSenderNotAllowed sender) else None)"

definition ensure_trace_id :: "string \<Rightarrow> envelope \<Rightarrow> envelope" where
  "ensure_trace_id uuid e = (if en_trace_id e = [] then e\<lparr>en_trace_id := uuid\<rparr> else e)"

text \<open>The delivery of one envelope to several recipients, each under its own message id.\<close>

fun fan_out ::
  "'s delivery_sink \<Rightarrow> string \<Rightarrow> envelope \<Rightarrow> string \<Rightarrow> string \<Rightarrow> (string \<times> string) list \<Rightarrow> 's \<Rightarrow>
   (kernel_error + delivery_receipt list) \<times> 's" where
  "fan_out sink sid e created sender [] s = (Inr [], s)"
| "fan_out sink sid e created sender ((rcpt, mid) # rest) s =
     (case sink sid rcpt e mid created sender s of
        (Inl err, s1) \<Rightarrow> (Inl (KStore err), s1)
      | (Inr r, s1) \<Rightarrow> (case fan_out sink sid e created sender rest s1 of
            (Inl err, s2) \<Rightarrow> (Inl err, s2)
          | (Inr drs, s2) \<Rightarrow> (Inr (\<lparr>dr_msg_id = mid, dr_recipient = rcpt, dr_status = rp_status r,
                dr_error = rp_error r\<rparr> # drs), s2)))"

text \<open>\<open>uuids\<close> are the message ids drawn, one per recipient.\<close>

definition assign_ids :: "(nat \<Rightarrow> string) \<Rightarrow> string list \<Rightarrow> (string \<times> string) list" where
  "assign_ids uuids rcpts = zip rcpts (map uuids [0..<length rcpts])"

record call =
  ca_now :: instant
  ca_trace :: string
  ca_uuids :: "nat \<Rightarrow> string"

definition direct ::
  "'s delivery_sink \<Rightarrow> call \<Rightarrow> string \<Rightarrow> string \<Rightarrow> string \<Rightarrow> envelope \<Rightarrow> kernel \<Rightarrow> 's \<Rightarrow>
   (kernel_error + kernel_receipt) \<times> 's" where
  "direct sink c sid sender rcpt e k s = (case require_session sid k of
       Inl err \<Rightarrow> (Inl err, s)
     | Inr ss \<Rightarrow> (case check_direct ss sender rcpt of
           Some err \<Rightarrow> (Inl err, s)
         | None \<Rightarrow> (case sink sid rcpt (ensure_trace_id (ca_trace c) e) (ca_uuids c 0)
                 (iso_format (ca_now c)) sender s of
               (Inl err, s1) \<Rightarrow> (Inl (KStore err), s1)
             | (Inr r, s1) \<Rightarrow> (Inr \<lparr>kr_msg_id = ca_uuids c 0, kr_status = rp_status r,
                   kr_session_id = sid, kr_target = rcpt, kr_queued = rp_queued r\<rparr>, s1))))"

definition broadcast ::
  "'s delivery_sink \<Rightarrow> call \<Rightarrow> string \<Rightarrow> string \<Rightarrow> envelope \<Rightarrow> kernel \<Rightarrow> 's \<Rightarrow>
   (kernel_error + delivery_receipt list) \<times> 's" where
  "broadcast sink c sid sender e k s = (case require_session sid k of
       Inl err \<Rightarrow> (Inl err, s)
     | Inr ss \<Rightarrow> (case check_broadcast ss sender of
           Some err \<Rightarrow> (Inl err, s)
         | None \<Rightarrow> fan_out sink sid (ensure_trace_id (ca_trace c) e) (iso_format (ca_now c)) sender
             (assign_ids (ca_uuids c) (roster_without (ss_roster ss) sender)) s))"

definition send_channel ::
  "'s delivery_sink \<Rightarrow> call \<Rightarrow> string \<Rightarrow> string \<Rightarrow> string \<Rightarrow> envelope \<Rightarrow> kernel \<Rightarrow> 's \<Rightarrow>
   (kernel_error + delivery_receipt list) \<times> 's" where
  "send_channel sink c sid sender cid e k s = (case require_session sid k of
       Inl err \<Rightarrow> (Inl err, s)
     | Inr ss \<Rightarrow> (case map_of (channels_of sid k) cid of
           None \<Rightarrow> (Inl (KChannelNotFound cid), s)
         | Some ch \<Rightarrow> (case check_channel ch sender of
               Some err \<Rightarrow> (Inl err, s)
             | None \<Rightarrow> fan_out sink sid (ensure_trace_id (ca_trace c) e) (iso_format (ca_now c)) sender
                 (assign_ids (ca_uuids c) (filter (\<lambda>m. m \<noteq> sender) (ch_members ch))) s)))"

definition topic_members :: "string \<Rightarrow> string \<Rightarrow> kernel \<Rightarrow> string list" where
  "topic_members sid topic k =
     (case map_of (k_topics k) (sid, topic) of None \<Rightarrow> [] | Some ms \<Rightarrow> ms)"

text \<open>
  \<open>notice\<close>. When the topic has subscribers, \<open>targets\<close> is the kernel's own set, and discarding the
  sender from it takes the sender out of the topic.
\<close>

definition notice ::
  "'s delivery_sink \<Rightarrow> call \<Rightarrow> string \<Rightarrow> string \<Rightarrow> string \<Rightarrow> envelope \<Rightarrow> kernel \<Rightarrow> 's \<Rightarrow>
   (kernel_error + delivery_receipt list) \<times> kernel \<times> 's" where
  "notice sink c sid sender topic e k s = (case require_session sid k of
       Inl err \<Rightarrow> (Inl err, k, s)
     | Inr ss \<Rightarrow> (case check_notice ss sender of
           Some err \<Rightarrow> (Inl err, k, s)
         | None \<Rightarrow>
             (let subs = topic_members sid topic k;
                  targets = filter (\<lambda>m. m \<noteq> sender)
                    (sorted_set (if subs \<noteq> [] then subs else acl_room_members (ss_acl ss)));
                  k1 = (if subs \<noteq> [] then k\<lparr>k_topics :=
                      AList.update (sid, topic) (filter (\<lambda>m. m \<noteq> sender) subs) (k_topics k)\<rparr> else k) in
              case fan_out sink sid (ensure_trace_id (ca_trace c) e) (iso_format (ca_now c)) sender
                  (assign_ids (ca_uuids c) targets) s of
                (r, s1) \<Rightarrow> (r, k1, s1))))"

text \<open>The summary \<open>send\<close> makes of the receipts of a fan-out.\<close>

definition summary :: "string \<Rightarrow> delivery_receipt list \<Rightarrow> kernel_receipt" where
  "summary sid drs =
     \<lparr>kr_msg_id = (case drs of [] \<Rightarrow> [] | d # _ \<Rightarrow> dr_msg_id d),
      kr_status = (if \<forall>d \<in> set drs. dr_status d = ''delivered'' then ''delivered'' else ''accepted''),
      kr_session_id = sid, kr_target = [], kr_queued = False\<rparr>"

definition kernel_send ::
  "'s delivery_sink \<Rightarrow> call \<Rightarrow> string \<Rightarrow> string \<Rightarrow> address \<Rightarrow> envelope \<Rightarrow> kernel \<Rightarrow> 's \<Rightarrow>
   (kernel_error + kernel_receipt) \<times> kernel \<times> 's" where
  "kernel_send sink c sid sender target e k s = (case ad_kind target of
       DIRECT \<Rightarrow> (case direct sink c sid sender (ad_agent_id target) e k s of (r, s1) \<Rightarrow> (r, k, s1))
     | BROADCAST \<Rightarrow> (case broadcast sink c sid sender e k s of
           (Inl err, s1) \<Rightarrow> (Inl err, k, s1)
         | (Inr drs, s1) \<Rightarrow> (Inr (if drs = [] then \<lparr>kr_msg_id = [], kr_status = ''empty_roster'',
               kr_session_id = sid, kr_target = [], kr_queued = False\<rparr> else summary sid drs), k, s1))
     | CHANNEL \<Rightarrow> (case send_channel sink c sid sender (ad_channel_id target) e k s of
           (Inl err, s1) \<Rightarrow> (Inl err, k, s1)
         | (Inr drs, s1) \<Rightarrow> (Inr (summary sid drs), k, s1))
     | NOTICE \<Rightarrow> (case notice sink c sid sender (ad_topic target) e k s of
           (Inl err, k1, s1) \<Rightarrow> (Inl err, k1, s1)
         | (Inr drs, k1, s1) \<Rightarrow> (Inr (summary sid drs), k1, s1)))"

section \<open>The local sink\<close>

definition envelope_args :: "string \<Rightarrow> string \<Rightarrow> envelope \<Rightarrow> string \<Rightarrow> send_args" where
  "envelope_args sender rcpt e mid =
     \<lparr>sn_from = sender, sn_to = rcpt, sn_subject = en_subject e, sn_body = en_body e,
      sn_kind = en_kind e, sn_reply_to = en_reply_to e, sn_run_id = en_run_id e,
      sn_request_id = en_request_id e, sn_command_id = [], sn_trace_id = en_trace_id e,
      sn_causation_id = en_causation_id e,
      sn_attachments = map (\<lambda>a. JObj (attachment_to_dict a)) (en_attachments e),
      sn_msg_id = Some mid, sn_require_ack = False, sn_receipt_type = []\<rparr>"

text \<open>
  \<open>LocalDeliverySink.deliver\<close>: a write to the store. With the message id given, \<open>send\<close> always
  answers.
\<close>

definition local_deliver :: "instant \<Rightarrow> fs delivery_sink" where
  "local_deliver now sid rcpt e mid created sender s =
     (case send now [] sid (envelope_args sender rcpt e mid) s of
        None \<Rightarrow> (Inl PyOSError, s)
      | Some (Inl err, s1) \<Rightarrow> (Inl err, s1)
      | Some (Inr _, s1) \<Rightarrow> (Inr \<lparr>rp_status = ''delivered'', rp_msg_id = mid, rp_queued = False,
            rp_error = None\<rparr>, s1))"

section \<open>History queries\<close>

text \<open>The files of the history directory whose suffix is \<open>.json\<close>, sorted; no validation.\<close>

definition history_names :: "string \<Rightarrow> fs \<Rightarrow> string list" where
  "history_names sid s =
     (if \<not> is_dir_at s (history_dir sid) then []
      else sort (filter (\<lambda>n. suffix dot_json n \<and> 5 < length n \<and> is_file_at s (history_dir sid @ [n]))
        (children s (history_dir sid))))"

fun filter_history :: "path \<Rightarrow> fs \<Rightarrow> string \<Rightarrow> string \<Rightarrow> string list \<Rightarrow> kernel_error + dict list" where
  "filter_history dir s field v [] = Inr []"
| "filter_history dir s field v (n # ns) = (case filter_history dir s field v ns of
       Inl e \<Rightarrow> Inl e
     | Inr ds \<Rightarrow> (case load_at s (dir @ [n]) of
           Loaded (JObj d) \<Rightarrow> Inr (if dget d field = Some (JStr v) then d # ds else ds)
         | Loaded _ \<Rightarrow> Inl KBadDocument
         | _ \<Rightarrow> Inr ds))"

definition history_filtered :: "string \<Rightarrow> string \<Rightarrow> string \<Rightarrow> fs \<Rightarrow> kernel_error + dict list" where
  "history_filtered sid field v s = (case check_session sid of
       Some e \<Rightarrow> Inl (KStore e)
     | None \<Rightarrow> filter_history (history_dir sid) s field v (history_names sid s))"

definition delivered_marker :: "string \<Rightarrow> string \<Rightarrow> path" where
  "delivered_marker sid mid = outbox_dir sid @ [''.delivered-'' @ mid]"

text \<open>The state of a leaf; \<open>engine\<close> says whether the sink has an outbox.\<close>

definition leaf_state :: "bool \<Rightarrow> string \<Rightarrow> fs \<Rightarrow> dict \<Rightarrow> string" where
  "leaf_state engine sid s d =
     (if \<not> engine \<or> exists_at s (delivered_marker sid (sget d ''msg_id'')) then ''delivered'' else ''unknown'')"

record leaf =
  lf_fields :: "json list"
  lf_state :: string

definition trace ::
  "bool \<Rightarrow> string \<Rightarrow> string \<Rightarrow> kernel \<Rightarrow> fs \<Rightarrow> kernel_error + leaf list" where
  "trace engine sid tid k s = (case require_session sid k of
       Inl e \<Rightarrow> Inl e
     | Inr _ \<Rightarrow> (case history_filtered sid ''trace_id'' tid s of
           Inl e \<Rightarrow> Inl e
         | Inr [] \<Rightarrow> Inl (KNoTrace tid)
         | Inr ds \<Rightarrow> Inr (map (\<lambda>d. \<lparr>lf_fields = map (\<lambda>f. dget_or d f (JStr []))
               [''msg_id'', ''from'', ''to'', ''subject'', ''kind'', ''causation_id'', ''created_at''],
             lf_state = leaf_state engine sid s d\<rparr>) (sort_key (\<lambda>d. sget d ''created_at'') ds))))"

definition replay :: "string \<Rightarrow> string \<Rightarrow> kernel \<Rightarrow> fs \<Rightarrow> kernel_error + dict list" where
  "replay sid rid k s = (case require_session sid k of
       Inl e \<Rightarrow> Inl e
     | Inr _ \<Rightarrow> (case history_filtered sid ''request_id'' rid s of
           Inl e \<Rightarrow> Inl e
         | Inr ds \<Rightarrow> Inr (sort_key (\<lambda>d. sget d ''created_at'')
             (sort_key (\<lambda>d. sget d ''msg_id'') ds))))"

section \<open>Polling and subscriptions\<close>

text \<open>The key of a message, and the order of pairs of strings.\<close>

definition poll_key :: "dict \<Rightarrow> string \<times> string" where
  "poll_key d = (sget d ''created_at'', sget d ''msg_id'')"

definition pair_le :: "string \<times> string \<Rightarrow> string \<times> string \<Rightarrow> bool" where
  "pair_le a b \<longleftrightarrow> fst a < fst b \<or> fst a = fst b \<and> snd a \<le> snd b"

text \<open>\<open>cursor.rsplit("|", 1)\<close> when the cursor has a bar, else the cursor and an empty id.\<close>

definition parse_cursor :: "string \<Rightarrow> string \<times> string" where
  "parse_cursor c =
     (if CHR ''|'' \<in> set c
      then (rev (tl (dropWhile (\<lambda>x. x \<noteq> CHR ''|'') (rev c))), rev (takeWhile (\<lambda>x. x \<noteq> CHR ''|'') (rev c)))
      else (c, []))"

definition make_cursor :: "string \<times> string \<Rightarrow> string" where
  "make_cursor key = fst key @ ''|'' @ snd key"

text \<open>
  The loop over the listing; \<open>n\<close> counts the messages taken so far. A decoded document that is no
  object raises.
\<close>

fun poll_loop :: "path \<Rightarrow> fs \<Rightarrow> string \<Rightarrow> nat \<Rightarrow> nat \<Rightarrow> string list \<Rightarrow> kernel_error + dict list" where
  "poll_loop inbox s cursor limit n [] = Inr []"
| "poll_loop inbox s cursor limit n (f # fs) = (case load_at s (inbox @ [f]) of
       Loaded (JObj d) \<Rightarrow>
         if cursor \<noteq> [] \<and> pair_le (poll_key d) (parse_cursor cursor)
         then poll_loop inbox s cursor limit n fs
         else if limit \<le> Suc n then Inr [d]
         else (case poll_loop inbox s cursor limit (Suc n) fs of
             Inl e \<Rightarrow> Inl e | Inr ds \<Rightarrow> Inr (d # ds))
     | Loaded _ \<Rightarrow> Inl KBadDocument
     | _ \<Rightarrow> poll_loop inbox s cursor limit n fs)"

definition matches_subscription :: "subscription \<Rightarrow> dict \<Rightarrow> bool" where
  "matches_subscription sub d \<longleftrightarrow>
     (sb_channels sub = [] \<or> sget d ''channel_id'' \<in> set (sb_channels sub)) \<and>
     (sb_kinds sub = [] \<or> sget d ''kind'' \<in> set (sb_kinds sub))"

definition subscriptions_of :: "string \<Rightarrow> string \<Rightarrow> kernel \<Rightarrow> subscription list" where
  "subscriptions_of sid aid k =
     (case map_of (k_subscriptions k) (sid, aid) of None \<Rightarrow> [] | Some ss \<Rightarrow> ss)"

text \<open>\<open>poll\<close>: the page and the callbacks fired, in order.\<close>

definition poll ::
  "string \<Rightarrow> string \<Rightarrow> string \<Rightarrow> nat \<Rightarrow> kernel \<Rightarrow> fs \<Rightarrow> kernel_error + poll_result \<times> (nat \<times> dict) list" where
  "poll sid aid cursor limit k s = (case require_session sid k of
       Inl e \<Rightarrow> Inl e
     | Inr _ \<Rightarrow> (case check_agent sid aid of
           Some e \<Rightarrow> Inl (KStore e)
         | None \<Rightarrow> (case poll_loop (inbox_dir sid aid) s cursor limit 0
                 (list_messages (inbox_dir sid aid) s) of
               Inl e \<Rightarrow> Inl e
             | Inr ds \<Rightarrow>
                 if ds \<noteq> [] \<and> \<not> (has_key (last ds) ''created_at'' \<and> has_key (last ds) ''msg_id'')
                 then Inl KBadDocument
                 else Inr (\<lparr>po_messages = ds,
                     po_cursor = (if ds = [] then cursor else make_cursor (poll_key (last ds))),
                     po_has_more = (length ds = limit)\<rparr>,
                   concat (map (\<lambda>sub. map (\<lambda>d. (sb_callback sub, d)) (filter (matches_subscription sub) ds))
                     (subscriptions_of sid aid k))))))"

text \<open>
  \<open>subscribe\<close>. An attached receiver also gets the callback when it serves the same agent; it has
  no effect on the tables.
\<close>

definition subscribe ::
  "string \<Rightarrow> string \<Rightarrow> subscription \<Rightarrow> kernel \<Rightarrow> kernel_error + kernel" where
  "subscribe sid aid sub k = (case require_session sid k of
       Inl e \<Rightarrow> Inl e
     | Inr _ \<Rightarrow> Inr (k\<lparr>
         k_subscriptions := AList.update (sid, aid) (subscriptions_of sid aid k @ [sub]) (k_subscriptions k),
         k_topics := foldl (\<lambda>ts t. AList.update (sid, t)
             (List.insert aid (case map_of ts (sid, t) of None \<Rightarrow> [] | Some ms \<Rightarrow> ms)) ts)
           (k_topics k) (sb_topics sub)\<rparr>))"

section \<open>Acknowledging\<close>

definition ack ::
  "string \<Rightarrow> string \<Rightarrow> string \<Rightarrow> string \<Rightarrow> kernel \<Rightarrow> fs \<Rightarrow> (kernel_error + unit) \<times> fs" where
  "ack sid aid mid phase k s = (case require_session sid k of
       Inl e \<Rightarrow> (Inl e, s)
     | Inr _ \<Rightarrow>
         if phase = ''consumed'' then
           (case finalize sid aid mid aid s of
              (Inr _, s1) \<Rightarrow> (Inr (), s1)
            | (Inl e, s1) \<Rightarrow>
                if \<not> is_value_error e then (Inl (KStore e), s1)
                else (case finalize_from_inbox sid aid mid aid s1 of
                    (Inr _, s2) \<Rightarrow> (Inr (), s2)
                  | (Inl e', s2) \<Rightarrow> (Inl (KStore e'), s2)))
         else if phase = ''released'' then
           (case release sid aid mid aid s of
              (Inr _, s1) \<Rightarrow> (Inr (), s1)
            | (Inl e, s1) \<Rightarrow> (Inl (KStore e), s1))
         else (Inl (KBadPhase phase), s))"

section \<open>Pulling from remote hosts\<close>

text \<open>The agents on a host whose results the manager pulls.\<close>

definition pull_agents :: "string \<Rightarrow> string \<Rightarrow> session \<Rightarrow> kernel \<Rightarrow> string list" where
  "pull_agents sid host ss k =
     map (snd \<circ> fst) (filter (\<lambda>((sid', aid), loc). sid' = sid \<and> al_host_alias loc = host \<and>
       (al_return_mode loc = Some MANAGER_PULL \<or> al_return_mode loc = None \<and>
        map_of (ss_return_modes ss) aid = Some (return_mode_value MANAGER_PULL))) (k_routing k))"

definition mailbox_root_of :: "string \<Rightarrow> kernel \<Rightarrow> string \<Rightarrow> string" where
  "mailbox_root_of sid k aid =
     (case get_location sid aid k of None \<Rightarrow> [] | Some loc \<Rightarrow> al_mailbox_root loc)"

definition pull_command :: "string \<Rightarrow> string \<Rightarrow> string \<Rightarrow> string \<Rightarrow> string list" where
  "pull_command sid mgr host mroot =
     [''aimeshchat'', ''mailbox'', ''read'', ''--session'', sid, ''--agent'', mgr, ''--owner'', mgr,
      ''--host'', host, ''--json''] @ (if mroot = [] then [] else [''--mailbox-root'', mroot])"

text \<open>
  What a run of the command gives: a failure (non-zero exit, time out, text that is no JSON), no
  output, or a document.
\<close>

datatype pull_output = PullFailed | PullEmpty | PullDoc json

definition stamp_pull :: "string \<Rightarrow> string \<Rightarrow> dict \<Rightarrow> dict" where
  "stamp_pull host mroot d = dset (dset d ''_pull_host'' (JStr host)) ''_pull_mailbox_root'' (JStr mroot)"

fun pull_messages :: "string \<Rightarrow> string \<Rightarrow> pull_output \<Rightarrow> dict list option" where
  "pull_messages host mroot (PullDoc (JObj d)) = Some [stamp_pull host mroot d]"
| "pull_messages host mroot (PullDoc (JArr js)) =
     (if list_all (\<lambda>j. case j of JObj _ \<Rightarrow> True | _ \<Rightarrow> False) js
      then Some (map (\<lambda>j. case j of JObj d \<Rightarrow> stamp_pull host mroot d | _ \<Rightarrow> []) js) else None)"
| "pull_messages host mroot _ = Some []"

fun pull_roots :: "(string list \<Rightarrow> pull_output) \<Rightarrow> string \<Rightarrow> string \<Rightarrow> string \<Rightarrow> string list \<Rightarrow> dict list option" where
  "pull_roots run sid mgr host [] = Some []"
| "pull_roots run sid mgr host (mroot # mroots) = do {
     ms \<leftarrow> pull_messages host mroot (run (pull_command sid mgr host mroot));
     rest \<leftarrow> pull_roots run sid mgr host mroots;
     Some (ms @ rest) }"

text \<open>One command per mailbox mroot, in the order the mroots first appear.\<close>

definition pull_remote ::
  "(string list \<Rightarrow> pull_output) \<Rightarrow> string \<Rightarrow> string \<Rightarrow> kernel \<Rightarrow> kernel_error + dict list" where
  "pull_remote run sid host k = (case require_session sid k of
       Inl e \<Rightarrow> Inl e
     | Inr ss \<Rightarrow> (case pull_roots run sid (ss_manager_id ss) host
           (rev (remdups (rev (map (mailbox_root_of sid k) (pull_agents sid host ss k))))) of
         None \<Rightarrow> Inl KBadDocument
       | Some ms \<Rightarrow> Inr ms))"

fun ingest_loop ::
  "instant \<Rightarrow> string \<Rightarrow> session \<Rightarrow> json list \<Rightarrow> fs \<Rightarrow> (kernel_error + string list) \<times> fs" where
  "ingest_loop now sid ss [] s = (Inr [], s)"
| "ingest_loop now sid ss (JObj d # ms) s = (case validate_message (JObj d) (Some sid) None None of
       RaisesTypeError \<Rightarrow> (Inl (KStore PyTypeError), s)
     | Invalid _ \<Rightarrow> ingest_loop now sid ss ms s
     | Valid \<Rightarrow>
         (let sender = sget d ''from''; rcpt = sget d ''to'' in
          if (sender \<noteq> [] \<and> sender \<notin> set (ss_roster ss)) \<or> (rcpt \<noteq> [] \<and> rcpt \<noteq> ss_manager_id ss)
          then ingest_loop now sid ss ms s
          else (case append_history now sid d s of
              (Inl e, s1) \<Rightarrow>
                if is_value_error e then ingest_loop now sid ss ms s1 else (Inl (KStore e), s1)
            | (Inr _, s1) \<Rightarrow> (case ingest_loop now sid ss ms s1 of
                  (Inl e, s2) \<Rightarrow> (Inl e, s2)
                | (Inr ids, s2) \<Rightarrow> (Inr (sget d ''msg_id'' # ids), s2)))))"
| "ingest_loop now sid ss (_ # ms) s = ingest_loop now sid ss ms s"

definition ingest ::
  "instant \<Rightarrow> string \<Rightarrow> json list \<Rightarrow> kernel \<Rightarrow> fs \<Rightarrow> (kernel_error + string list) \<times> fs" where
  "ingest now sid ms k s = (case require_session sid k of
       Inl e \<Rightarrow> (Inl e, s)
     | Inr ss \<Rightarrow> ingest_loop now sid ss ms s)"

section \<open>Access control\<close>

lemma require_session_Inr: "require_session sid k = Inr ss \<longleftrightarrow> map_of (k_sessions k) sid = Some ss"
  by (auto simp: require_session_def split: option.splits)

text \<open>What the access lists of a session allow, as one predicate.\<close>

definition authorized :: "kernel \<Rightarrow> string \<Rightarrow> session \<Rightarrow> string \<Rightarrow> address \<Rightarrow> bool" where
  "authorized k sid ss sender target \<longleftrightarrow> (case ad_kind target of
       DIRECT \<Rightarrow> sender \<in> set (acl_allowed_senders (ss_acl ss)) \<and>
         ad_agent_id target \<in> set (acl_room_members (ss_acl ss))
     | BROADCAST \<Rightarrow> acl_policy (ss_acl ss) = ''open'' \<or> sender = acl_authority (ss_acl ss)
     | CHANNEL \<Rightarrow> (\<exists>c. map_of (channels_of sid k) (ad_channel_id target) = Some c \<and> sender \<in> set (ch_members c))
     | NOTICE \<Rightarrow> sender \<in> set (acl_allowed_senders (ss_acl ss)))"

text \<open>
  C17. The access lists are enforced before anything is delivered. For every kind of address and
  every sink, a message the lists of the session do not allow is answered with an error, and
  neither the tables of the kernel nor the tree have changed; a message that is answered with a
  receipt was allowed.
\<close>

theorem acl_gate:
  assumes "require_session sid k = Inr ss"
  shows "(\<not> authorized k sid ss sender target \<longrightarrow>
      (\<exists>err. kernel_send sink c sid sender target e k s = (Inl err, k, s))) \<and>
    (\<forall>r k' s'. kernel_send sink c sid sender target e k s = (Inr r, k', s') \<longrightarrow>
      authorized k sid ss sender target)"
proof (cases "ad_kind target")
  case DIRECT
  with assms show ?thesis
    by (auto simp: kernel_send_def direct_def authorized_def check_direct_def)
next
  case CHANNEL
  with assms show ?thesis
    by (cases "map_of (channels_of sid k) (ad_channel_id target)")
       (auto simp: kernel_send_def send_channel_def authorized_def check_channel_def)
next
  case BROADCAST
  with assms show ?thesis
    by (auto simp: kernel_send_def broadcast_def authorized_def check_broadcast_def)
next
  case NOTICE
  with assms show ?thesis
    by (auto simp: kernel_send_def notice_def authorized_def check_notice_def)
qed

section \<open>Fan-out\<close>

lemma fan_out_receipts:
  "fan_out sink sid e created sender ps s = (Inr drs, s') \<Longrightarrow>
   map dr_recipient drs = map fst ps \<and> map dr_msg_id drs = map snd ps"
proof (induction ps arbitrary: drs s)
  case (Cons p ps)
  then show ?case
    by (cases p) (auto split: prod.splits sum.splits)
qed simp

lemma map_fst_assign_ids [simp]: "map fst (assign_ids uuids rs) = rs"
  by (simp add: assign_ids_def)

lemma map_snd_assign_ids [simp]: "map snd (assign_ids uuids rs) = map uuids [0..<length rs]"
  by (simp add: assign_ids_def)

lemma fan_out_assigned:
  assumes "fan_out sink sid e created sender (assign_ids uuids rs) s = (Inr drs, s')" "inj uuids"
  shows "map dr_recipient drs = rs \<and> distinct (map dr_msg_id drs)"
  using fan_out_receipts [OF assms(1)] assms(2)
  by (simp add: distinct_map inj_on_def inj_def)


text \<open>A notice to a topic takes its sender out of the topic.\<close>

lemma notice_unsubscribes_sender:
  assumes "require_session sid k = Inr ss" "check_notice ss sender = None" "sender \<in> set (topic_members sid topic k)"
  shows "sender \<notin> set (topic_members sid topic (fst (snd (notice sink c sid sender topic e k s))))"
proof -
  have "topic_members sid topic k \<noteq> []" using assms(3) by auto
  then show ?thesis
    using assms(1,2) by (auto simp: notice_def Let_def topic_members_def update_conv' split: prod.splits)
qed

section \<open>Local delivery of a direct message\<close>

lemma direct_local_send:
  assumes "direct (local_deliver now) c sid sender rcpt e k s = (Inr r, s')"
  obtains x where "send now [] sid (envelope_args sender rcpt (ensure_trace_id (ca_trace c) e) (ca_uuids c 0)) s =
      Some (Inr x, s')"
    "kr_msg_id r = ca_uuids c 0" "kr_status r = ''delivered''"
proof -
  from assms obtain rp where l: "local_deliver now sid rcpt (ensure_trace_id (ca_trace c) e) (ca_uuids c 0)
      (iso_format (ca_now c)) sender s = (Inr rp, s')"
    and r: "kr_msg_id r = ca_uuids c 0" "kr_status r = rp_status rp"
    by (auto simp: direct_def split: sum.splits option.splits prod.splits)
  from l r show thesis
    by (auto simp: local_deliver_def split: sum.splits option.splits prod.splits intro: that)
qed

lemma truthy_default: "truthy (dget_or d key (JBool False)) = truthy (dget_or d key JNull)"
  by (simp add: dget_or_def split: option.splits)

lemma envelope_payload:
  assumes "same_payload sid (envelope_args sender rcpt e m) refs d = Some True"
  shows "dget d ''session_id'' = Some (JStr sid)" "dget d ''from'' = Some (JStr sender)"
    "dget d ''to'' = Some (JStr rcpt)" "dget d ''subject'' = Some (JStr (en_subject e))"
    "dget d ''body'' = Some (JStr (en_body e))" "dget d ''kind'' = Some (JStr (en_kind e))"
    "dget_or d ''trace_id'' (JStr []) = JStr (en_trace_id e)" "\<not> wants_ack d"
proof -
  have "sn_require_ack (envelope_args sender rcpt e m) = False" by (simp add: envelope_args_def)
  then have "\<not> truthy (dget_or d ''require_ack'' JNull)"
    using assms by (auto simp only: same_payload_def Let_def truthy_default split: if_splits)
  then show "\<not> wants_ack d" by (simp add: wants_ack_def)
qed (use assms in \<open>simp_all add: same_payload_def envelope_args_def split: if_splits\<close>)

text \<open>
  A direct message through the local sink is in the inbox of its recipient. When \<open>direct\<close>
  answers, the receipt says delivered, and the inbox file the receipt names holds a message of the
  session with the sender, recipient, subject, body and kind of the envelope and a trace id, the
  one of the envelope or a fresh one. The message asks for no acknowledgement, whatever the
  envelope says.
\<close>

theorem direct_local_lands:
  assumes "direct (local_deliver now) c sid sender rcpt e k s = (Inr r, s')"
    and "rcpt \<noteq> BROADCAST_TO" "load_at s' (inbox_file sid rcpt (kr_msg_id r)) \<noteq> Loaded JNull"
  shows "kr_status r = ''delivered'' \<and> (\<exists>d. load_at s' (inbox_file sid rcpt (kr_msg_id r)) = Loaded (JObj d) \<and>
    dget d ''session_id'' = Some (JStr sid) \<and> dget d ''from'' = Some (JStr sender) \<and>
    dget d ''to'' = Some (JStr rcpt) \<and> dget d ''subject'' = Some (JStr (en_subject e)) \<and>
    dget d ''body'' = Some (JStr (en_body e)) \<and> dget d ''kind'' = Some (JStr (en_kind e)) \<and>
    dget_or d ''trace_id'' (JStr []) = JStr (if en_trace_id e = [] then ca_trace c else en_trace_id e) \<and>
    \<not> wants_ack d)"
proof -
  from assms(1) obtain x where x: "send now [] sid
      (envelope_args sender rcpt (ensure_trace_id (ca_trace c) e) (ca_uuids c 0)) s = Some (Inr x, s')"
    and r: "kr_msg_id r = ca_uuids c 0" "kr_status r = ''delivered''"
    by (rule direct_local_send)
  have to: "sn_to (envelope_args sender rcpt f m) = rcpt" "sn_msg_id (envelope_args sender rcpt f m) = Some m"
    for f m by (simp_all add: envelope_args_def)
  obtain d refs where d: "load_at s' (inbox_file sid rcpt (kr_msg_id r)) = Loaded (JObj d)"
    and p: "same_payload sid (envelope_args sender rcpt (ensure_trace_id (ca_trace c) e) (ca_uuids c 0)) refs d = Some True"
    using send_direct_lands [OF x to(2)] assms(2,3) r(1) unfolding to by auto
  have en: "en_subject (ensure_trace_id t e) = en_subject e" "en_body (ensure_trace_id t e) = en_body e"
    "en_kind (ensure_trace_id t e) = en_kind e"
    "en_trace_id (ensure_trace_id t e) = (if en_trace_id e = [] then t else en_trace_id e)" for t
    by (simp_all add: ensure_trace_id_def)
  show ?thesis using envelope_payload [OF p] d r(2) by (simp add: en)
qed

section \<open>Witnesses\<close>

definition demo_create :: "(kernel_error + session) \<times> kernel \<times> fs" where
  "demo_create = create_session 1000 ''s1'' ''boss'' [''w1'', ''w2''] None [] [] empty_kernel []"

definition demo_session :: session where
  "demo_session = \<lparr>ss_session_id = ''s1'', ss_manager_id = ''boss'', ss_roster = [''boss'', ''w1'', ''w2''],
     ss_acl = default_acl ''boss'' [''boss'', ''w1'', ''w2''], ss_created_at = iso_format 1000,
     ss_execution_modes = [], ss_return_modes = []\<rparr>"

definition demo_kernel :: kernel where
  "demo_kernel = empty_kernel\<lparr>k_sessions := [(''s1'', demo_session)], k_channels := [(''s1'', [])]\<rparr>"

definition demo_fs :: fs where
  "demo_fs = snd (snd demo_create)"

lemma demo_created: "demo_create = (Inr demo_session, demo_kernel, demo_fs)"
  by code_simp

definition demo_call :: call where
  "demo_call = \<lparr>ca_now = 2000, ca_trace = ''t1'', ca_uuids = (\<lambda>n. ''u'' @ replicate n (CHR ''x''))\<rparr>"

definition demo_envelope :: envelope where
  "demo_envelope = \<lparr>en_subject = ''hi'', en_body = ''all'', en_kind = ''NOTICE'', en_attachments = [],
     en_reply_to = [], en_run_id = [], en_request_id = [], en_trace_id = [], en_causation_id = [],
     en_require_ack = True, en_receipt_type = []\<rparr>"

lemma demo_require: "require_session ''s1'' demo_kernel = Inr demo_session"
  by code_simp

lemma demo_uuids: "inj (ca_uuids demo_call)"
  by (rule injI) (simp add: demo_call_def)

theorem acl_gate_witness:
  "\<exists>err. kernel_send (local_deliver 2000) demo_call ''s1'' ''zed''
     \<lparr>ad_kind = DIRECT, ad_agent_id = ''w1'', ad_channel_id = [], ad_topic = []\<rparr> demo_envelope demo_kernel demo_fs =
   (Inl err, demo_kernel, demo_fs)"
proof -
  have "\<not> authorized demo_kernel ''s1'' demo_session ''zed''
      \<lparr>ad_kind = DIRECT, ad_agent_id = ''w1'', ad_channel_id = [], ad_topic = []\<rparr>"
    by (simp add: authorized_def demo_session_def default_acl_def)
  with acl_gate [OF demo_require, where sink = "local_deliver 2000"] show ?thesis by blast
qed


theorem direct_local_lands_witness:
  "\<exists>r s' d. direct (local_deliver 2000) demo_call ''s1'' ''boss'' ''w1'' demo_envelope demo_kernel demo_fs = (Inr r, s') \<and>
     load_at s' (inbox_file ''s1'' ''w1'' (kr_msg_id r)) = Loaded (JObj d) \<and> \<not> wants_ack d"
proof -
  have "(case direct (local_deliver 2000) demo_call ''s1'' ''boss'' ''w1'' demo_envelope demo_kernel demo_fs of
      (Inr r, s') \<Rightarrow> load_at s' (inbox_file ''s1'' ''w1'' (kr_msg_id r)) \<noteq> Loaded JNull | _ \<Rightarrow> False)" by code_simp
  then obtain r s' where d: "direct (local_deliver 2000) demo_call ''s1'' ''boss'' ''w1'' demo_envelope
      demo_kernel demo_fs = (Inr r, s')" and n: "load_at s' (inbox_file ''s1'' ''w1'' (kr_msg_id r)) \<noteq> Loaded JNull"
    by (auto split: prod.splits sum.splits)
  have "''w1'' \<noteq> BROADCAST_TO" by code_simp
  from direct_local_lands [OF d this n] d show ?thesis by blast
qed

end
