(* ===== verification/Store_Frame.thy ===== *)
theory Store_Frame
  imports Store_Send
begin

text \<open>
  What \<open>send\<close> leaves alone. A relation between trees that the single writes of the store keep is
  kept by the whole of \<open>send\<close>, whatever it answers; one such relation is that nothing outside the
  directory of the session changes. The outbox and the dead letters of the delivery engine lie
  outside of every session.
\<close>

section \<open>Relations kept by the writes of a session\<close>

locale store_frame =
  fixes R :: "fs \<Rightarrow> fs \<Rightarrow> bool" and sid :: string
  assumes refl: "R s s"
    and trans: "R s s1 \<Longrightarrow> R s1 s2 \<Longrightarrow> R s s2"
    and dirs: "R s (mkdirs (sid # q) s)"
    and envelope: "R s (write_envelope now sid m d rid s)"
    and history_write: "R s (atomic_write now (history_dir sid @ [tmp_name m]) (history_dir sid @ [json_name m]) j s)"
    and cursor_write: "R s (atomic_write now (session_dir sid @ [''.tmp-stream-cursor'']) (cursor_file sid) j s)"
begin

lemma envelopes: "R s (fold (write_envelope now sid m d) rs s)"
  by (induction rs arbitrary: s) (auto intro: refl trans envelope)

lemma backfill_kept: "R s (snd (backfill now sid m d rs s))"
proof (induction rs arbitrary: s)
  case (Cons r rs)
  show ?case
    using Cons.IH [of s] trans [OF envelope Cons.IH [of "write_envelope now sid m d r s"]]
    by (auto split: prod.splits)
qed (simp add: refl)

lemma append_history_kept: "R s (snd (append_history now sid msg s))"
proof -
  have m: "R s (mkdirs (history_dir sid) s)" by (simp add: dir_defs dirs)
  note w = trans [OF m history_write]
  show ?thesis
    using m w refl by (auto simp: append_history_def Let_def split: option.splits verdict.splits)
qed

lemma advance_cursor_kept: "R s (snd (advance_cursor now sid s))"
proof -
  have m: "R s (mkdirs (session_dir sid) s)" by (simp add: dir_defs dirs)
  note w = trans [OF m cursor_write]
  show ?thesis
    using m w refl by (auto simp: advance_cursor_def Let_def split: option.splits prod.splits)
qed

lemma send_new_kept: "R s (snd (send_new now sid a m rs refs s))"
proof -
  let ?p = "message_to_dict (send_message now sid a m refs)"
  let ?s1 = "fold (write_envelope now sid m ?p) rs s"
  obtain r s2 where c: "advance_cursor now sid ?s1 = (r, s2)" by fastforce
  have s2: "R s s2" using trans [OF envelopes advance_cursor_kept [of ?s1 now]] by (simp add: c)
  have h: "R s (snd (append_history now sid d (fold (write_envelope now sid m d) rs s2)))" for d
    by (rule trans [OF s2 trans [OF envelopes append_history_kept]])
  show ?thesis
  proof (cases r)
    case (Inl err)
    with c s2 refl show ?thesis by (auto simp: send_new_def Let_def split: verdict.splits)
  next
    case (Inr cur)
    with c h [of "dset ?p ''_cursor'' (JStr cur)"] refl show ?thesis
      by (auto simp: send_new_def Let_def split: verdict.splits prod.splits sum.splits)
  qed
qed

lemma send_replay_kept: "R s (snd (send_replay now sid a m rs refs j s))"
proof -
  have b: "R s s1" if "backfill now sid m d rs s = (n, s1)" for d n s1
    using backfill_kept [of s now m d rs] that by simp
  have h: "R s s2" if "backfill now sid m d rs s = (n, s1)" "append_history now sid d s1 = (x, s2)" for d n s1 x s2
    using trans [OF b [OF that(1)] append_history_kept [of s1 now d]] that(2) by simp
  show ?thesis
    by (auto simp: send_replay_def refl simp del: backfill.simps intro: b h
        split: json.splits option.splits bool.splits prod.splits sum.splits)
qed

lemma send_kept:
  assumes "send now sufs sid a s = Some (r, s')"
  shows "R s s'"
proof (cases "send_checks sid a s")
  case (Inl e)
  with assms refl show ?thesis by (simp add: send_def)
next
  case (Inr p)
  obtain rs refs where p: "p = (rs, refs)" by fastforce
  obtain m where "s' = s \<or> send_new now sid a m rs refs s = (r, s') \<or> (\<exists>j. send_replay now sid a m rs refs j s = (r, s'))"
    using assms Inr p by (auto simp: send_def Let_def split: option.splits if_splits)
  with send_new_kept [of s now a m rs refs] send_replay_kept [of s now a m rs refs] refl
  show ?thesis by (metis snd_conv)
qed

end

section \<open>Nothing outside the session changes\<close>

definition same_outside :: "string \<Rightarrow> fs \<Rightarrow> fs \<Rightarrow> bool" where
  "same_outside sid s s' \<longleftrightarrow> (\<forall>p. p \<noteq> [] \<longrightarrow> hd p \<noteq> sid \<longrightarrow> node_at s' p = node_at s p)"

lemma same_outsideI: "(\<And>p. p \<noteq> [] \<Longrightarrow> hd p \<noteq> sid \<Longrightarrow> node_at s' p = node_at s p) \<Longrightarrow> same_outside sid s s'"
  by (simp add: same_outside_def)

lemma same_outsideD: "same_outside sid s s' \<Longrightarrow> p \<noteq> [] \<Longrightarrow> hd p \<noteq> sid \<Longrightarrow> node_at s' p = node_at s p"
  by (simp add: same_outside_def)

lemma same_outside_refl [simp, intro]: "same_outside sid s s"
  by (simp add: same_outside_def)

lemma same_outside_trans [trans]:
  "same_outside sid s s1 \<Longrightarrow> same_outside sid s1 s2 \<Longrightarrow> same_outside sid s s2"
  by (simp add: same_outside_def)

lemma same_outside_fold: "(\<And>x s. same_outside sid s (f x s)) \<Longrightarrow> same_outside sid s (fold f xs s)"
  by (induction xs arbitrary: s) (auto intro: same_outside_trans)

lemma outside_mkdirs: "same_outside sid s (mkdirs (sid # q) s)"
  by (rule same_outsideI) (auto simp: fs_simps prefix_Cons)

lemma outside_atomic_write:
  "same_outside sid s (atomic_write t (sid # q) (sid # r) j s)"
  by (rule same_outsideI) (auto simp: fs_simps)

lemma outside_write_doc: "same_outside sid s (write_doc t (sid # q) j s)"
  by (rule same_outsideI) (auto simp: fs_simps)

lemma outside_ensure: "same_outside sid s (ensure_agent_dirs sid aid s)"
  unfolding ensure_agent_dirs_def dir_defs append_Cons append_Nil
  by (rule same_outside_trans [OF outside_mkdirs same_outside_fold]) (rule outside_mkdirs)

interpretation outside: store_frame "same_outside sid" sid for sid
  by unfold_locales
     (auto intro: same_outside_trans simp: outside_mkdirs write_envelope_def inbox_file_def cursor_file_def dir_defs
       outside_atomic_write)

end
