(* ===== verification/Kernel_Restart.thy ===== *)
theory Kernel_Restart
  imports Swarm_Kernel Store_Frame
begin

text \<open>
  The kernel keeps its tables in memory and rebuilds them from \<open>session.json\<close> and
  \<open>swarm-meta.json\<close> when it starts. This theory shows that what \<open>create_session\<close> writes is what
  \<open>_load_persisted_sessions\<close> reads back, in whatever order the directories are visited.
\<close>

section \<open>Loading as a fold\<close>

definition install_dir :: "fs \<Rightarrow> string \<Rightarrow> kernel \<Rightarrow> kernel" where
  "install_dir s d k = (case read_persisted d s of Inr (Some p) \<Rightarrow> install p k | _ \<Rightarrow> k)"

lemma load_all_fold:
  "load_all ds s k = Inr k' \<longleftrightarrow>
     (\<forall>d \<in> set ds. \<exists>x. read_persisted d s = Inr x) \<and> k' = fold (install_dir s) ds k"
  by (induction ds arbitrary: k) (auto simp: load_one_def install_dir_def split: sum.splits option.splits)

lemma sessions_install_dir:
  "map_of (k_sessions (install_dir s d k)) y = (case read_persisted d s of
     Inr (Some p) \<Rightarrow> if ss_session_id (pe_session p) = y then Some (pe_session p) else map_of (k_sessions k) y
   | _ \<Rightarrow> map_of (k_sessions k) y)"
  by (auto simp: install_dir_def install_def Let_def update_conv' split: sum.splits option.splits)

definition holds_session :: "fs \<Rightarrow> string \<Rightarrow> string \<Rightarrow> bool" where
  "holds_session s d y \<longleftrightarrow> (\<exists>p. read_persisted d s = Inr (Some p) \<and> ss_session_id (pe_session p) = y)"

lemma sessions_not_held:
  "\<forall>d \<in> set ds. \<not> holds_session s d y \<Longrightarrow> map_of (k_sessions (fold (install_dir s) ds k)) y = map_of (k_sessions k) y"
  by (induction ds arbitrary: k)
     (auto simp: sessions_install_dir holds_session_def split: sum.splits option.splits)

lemma sessions_kept:
  "map_of (k_sessions k) y \<noteq> None \<Longrightarrow> map_of (k_sessions (fold (install_dir s) ds k)) y \<noteq> None"
proof (induction ds arbitrary: k)
  case (Cons d ds)
  have "map_of (k_sessions (install_dir s d k)) y \<noteq> None"
    using Cons.prems by (auto simp: sessions_install_dir split: sum.splits option.splits)
  from Cons.IH [OF this] show ?case by simp
qed simp

lemma sessions_held:
  assumes "map_of (k_sessions (fold (install_dir s) ds k)) y = None" "d \<in> set ds"
  shows "\<not> holds_session s d y"
proof
  assume "holds_session s d y"
  then have ne: "map_of (k_sessions (install_dir s d j)) y \<noteq> None" for j
    by (auto simp: sessions_install_dir holds_session_def)
  obtain xs zs where "ds = xs @ d # zs" using assms(2) by (auto simp: in_set_conv_decomp)
  with sessions_kept [OF ne, of s zs "fold (install_dir s) xs k"] assms(1) show False by simp
qed

text \<open>A directory that holds the session \<open>sid\<close> matters for no other session, wherever it comes in the order.\<close>

lemma sessions_other:
  assumes "\<forall>y. holds_session s sid y \<longrightarrow> y = sid" "x \<noteq> sid" "map_of (k_sessions k1) x = map_of (k_sessions k2) x"
  shows "map_of (k_sessions (fold (install_dir s) ds k1)) x =
    map_of (k_sessions (fold (install_dir s) (filter (\<lambda>d. d \<noteq> sid) ds) k2)) x"
  using assms(3)
proof (induction ds arbitrary: k1 k2)
  case (Cons d ds)
  have "map_of (k_sessions (install_dir s d k1)) x =
      map_of (k_sessions (if d = sid then k2 else install_dir s d k2)) x"
    using Cons.prems assms(1,2)
    by (auto simp: sessions_install_dir holds_session_def split: sum.splits option.splits)
  from Cons.IH [OF this] show ?case by simp
qed simp

lemma sessions_own:
  assumes "read_persisted sid s = Inr (Some p)" "ss_session_id (pe_session p) = sid" "sid \<in> set ds"
    and "\<forall>d \<in> set ds. d \<noteq> sid \<longrightarrow> \<not> holds_session s d sid"
  shows "map_of (k_sessions (fold (install_dir s) ds k)) sid = Some (pe_session p)"
  using assms(3,4)
proof (induction ds arbitrary: k rule: rev_induct)
  case (snoc d ds)
  show ?case
  proof (cases "d = sid")
    case True
    with assms(1,2) show ?thesis by (simp add: sessions_install_dir)
  next
    case False
    with snoc have "map_of (k_sessions (fold (install_dir s) ds k)) sid = Some (pe_session p)" by simp
    with False snoc.prems(2) show ?thesis
      by (auto simp: sessions_install_dir holds_session_def split: sum.splits option.splits)
  qed
qed simp

section \<open>The documents of a new session decode to it\<close>

lemma acl_round_trip: "acl_of_dict mgr members (acl_dict a) = Some a"
  by (simp add: acl_of_dict_def acl_dict_def str_field_def strs_field_def dget_or_base str_elems_def
      list_all_iff comp_def)

lemma acl_dict_ne: "acl_dict a \<noteq> []"
  by (simp add: acl_dict_def)

lemma decode_strs_modes: "decode_strs (map (\<lambda>(a, m). (a, JStr m)) ms) = Some ms"
  by (induction ms) auto

definition session_request :: "string \<Rightarrow> string list \<Rightarrow> acl \<Rightarrow> modes \<Rightarrow> modes \<Rightarrow> session_args" where
  "session_request mgr members lst ems rms =
     \<lparr>sa_manager = mgr, sa_agents = roster_without members mgr, sa_acl = Some (JObj (acl_dict lst)),
      sa_execution_modes = modes_dict ems, sa_return_modes = modes_dict rms\<rparr>"

lemma fresh_meta_fields:
  fixes now sid mgr members lst ems rms
  defines "d \<equiv> session_fresh_meta now sid (session_request mgr members lst ems rms)"
  shows "str_or_empty d ''session_id'' = Some sid" "str_field d ''manager'' [] = Some mgr"
    "strs_field d ''agents'' [] = Some (sorted_set (roster_without members mgr))"
    "str_field d ''created_at'' [] = Some (iso_format now)"
    "dget_or d ''acl'' JNull = JObj (acl_dict lst)"
    "sub_strs ''execution_modes'' d = Some ems" "sub_strs ''return_modes'' d = Some rms"
  unfolding d_def session_fresh_meta_def session_request_def Let_def
  by (simp_all add: str_or_empty_def str_field_def strs_field_def sub_strs_def dget_or_set_opt dget_or_base
      dget_or_Nil str_elems_def list_all_iff comp_def modes_dict_def decode_strs_modes)

lemma members_restored:
  assumes "mgr \<in> set members" "mgr \<noteq> []" "sorted_set members = members"
  shows "sorted_set ((if mgr = [] then [] else [mgr]) @ sorted_set (roster_without members mgr)) = members"
proof -
  have "sorted_set (mgr # sorted_set (roster_without members mgr)) = sorted_set members"
    by (rule sorted_set_cong) (use assms(1) in \<open>auto simp: roster_without_def\<close>)
  with assms(2,3) show ?thesis by simp
qed

lemma decode_fresh:
  assumes "mgr \<in> set members" "mgr \<noteq> []" "sorted_set members = members" "sid \<noteq> []"
  shows "decode_session sid (session_fresh_meta now sid (session_request mgr members lst ems rms))
      (Some [(''acl'', JObj (acl_dict lst))]) =
    Some \<lparr>pe_session = \<lparr>ss_session_id = sid, ss_manager_id = mgr, ss_roster = members, ss_acl = lst,
        ss_created_at = iso_format now, ss_execution_modes = ems, ss_return_modes = rms\<rparr>,
      pe_channels = [], pe_routing = [], pe_tokens = []\<rparr>"
proof -
  have meta: "load_meta [(''acl'', JObj (acl_dict lst))] = Some ([], [], [])"
    by (simp add: load_meta_def sub_items_def sub_strs_def dget_or_base dget_or_Nil)
  have acl: "load_acl mgr members (session_fresh_meta now sid (session_request mgr members lst ems rms))
      (Some [(''acl'', JObj (acl_dict lst))]) = Some lst"
    by (simp add: load_acl_def Let_def fresh_meta_fields acl_round_trip dget_or_base acl_dict_ne)
  show ?thesis
    using assms(4)
    by (simp add: decode_session_def fresh_meta_fields meta acl members_restored [OF assms(1-3)] Let_def)
qed

section \<open>The files of a new session\<close>

lemma create_session_inv:
  assumes "create_session now sid mgr roster a ems rms k s = (Inr ss, k', s')"
  obtains members lst s1 r where "members = sorted_set (mgr # roster)"
    "ss = \<lparr>ss_session_id = sid, ss_manager_id = mgr, ss_roster = members, ss_acl = lst,
       ss_created_at = iso_format now, ss_execution_modes = ems, ss_return_modes = rms\<rparr>"
    "k_sessions k' = AList.update sid ss (k_sessions k)" "validate_agent_id sid" "validate_agent_id mgr"
    "session_init now sid (session_request mgr members lst ems rms) s = (Inr r, s1)"
    "persist_meta now sid (\<lambda>m. Some (dset m ''acl'' (JObj (acl_dict lst)))) s1 = (Inr (), s')"
    "map_of (k_sessions k) sid = None"
proof -
  have f: "find (\<lambda>x. \<not> validate_agent_id x) (sid # mgr # roster) = None"
    using assms by (auto simp: create_session_def simp del: find.simps split: option.splits)
  then have v: "validate_agent_id sid" "validate_agent_id mgr" by (auto split: if_splits)
  from assms f show thesis
    by (auto simp: create_session_def Let_def session_request_def [symmetric] simp del: find.simps
        split: option.splits if_splits sum.splits prod.splits intro: that [OF refl _ _ v])
qed

lemma meta_after_ensure:
  assumes "''swarm-meta.json'' \<noteq> aid"
  shows "node_at (ensure_agent_dirs sid aid s) (swarm_meta_file sid) = node_at s (swarm_meta_file sid)"
  using assms by (auto simp: ensure_agent_dirs_def swarm_meta_file_def dir_defs fs_simps prefix_Cons)

lemma meta_after_ensure_fold:
  assumes "''swarm-meta.json'' \<notin> set as"
  shows "node_at (fold (ensure_agent_dirs sid) as s) (swarm_meta_file sid) = node_at s (swarm_meta_file sid)"
  using assms by (induction as arbitrary: s) (auto simp: meta_after_ensure)

lemma fresh_session_files:
  assumes "session_init now sid a s = (Inr r, s1)" "\<not> exists_at s (session_file sid)"
    and "\<not> exists_at s (swarm_meta_file sid)" "\<not> is_file_at s (session_dir sid)"
    and "''swarm-meta.json'' \<notin> set (sa_manager a # sa_agents a)"
  shows "node_at s1 (session_file sid) = Some (File (Doc (JObj (session_fresh_meta now sid a))) now)"
    "node_at s1 (swarm_meta_file sid) = None" "node_at s1 (session_dir sid) = Some Dir"
    "\<And>p. p \<noteq> [] \<Longrightarrow> hd p \<noteq> sid \<Longrightarrow> node_at s1 p = node_at s p"
proof -
  let ?m = "mkdirs (session_dir sid) s"
  let ?w = "atomic_write now (tmp_session sid) (session_file sid) (JObj (session_fresh_meta now sid a)) ?m"
  have "find (\<lambda>x. \<not> validate_agent_id x) (sid # sa_manager a # sa_agents a) = None"
    using assms(1) by (auto simp: session_init_def simp del: find.simps split: option.splits)
  then have "validate_agent_id sid" by (auto split: if_splits)
  moreover have "load_at s (session_file sid) = Missing"
    using assms(2) by (auto simp: load_at_def exists_at_def split: option.splits)
  ultimately have "read_session sid ?m = Inr None"
    unfolding read_session_mkdirs by (simp add: read_session_def check_session_def)
  with assms(1) have "session_fresh now sid a ?m = (Inr r, s1)"
    by (auto simp: session_init_def Let_def simp del: find.simps split: option.splits)
  then have s1: "s1 = ensure_agent_dirs sid (sa_manager a) (fold (ensure_agent_dirs sid) (sorted_set (sa_agents a)) ?w)"
    by (simp add: session_fresh_def Let_def)
  show "node_at s1 (session_file sid) = Some (File (Doc (JObj (session_fresh_meta now sid a))) now)"
    unfolding s1 by (intro node_at_ensure_keep node_at_ensure_fold_keep) (simp add: fs_simps)
  have "node_at ?m (session_dir sid) = Some Dir"
    using assms(4) by (auto simp: fs_simps is_file_at_def split: option.splits node.splits)
  then show "node_at s1 (session_dir sid) = Some Dir"
    unfolding s1 by (intro node_at_ensure_keep node_at_ensure_fold_keep)
      (simp add: fs_simps dir_defs tmp_session_def)
  have "node_at ?w (swarm_meta_file sid) = None"
    using assms(3) by (auto simp: fs_simps dir_defs swarm_meta_file_def tmp_session_def exists_at_def prefix_Cons)
  with assms(5) show "node_at s1 (swarm_meta_file sid) = None"
    unfolding s1 by (simp add: meta_after_ensure meta_after_ensure_fold)
  have "same_outside sid s ?m" "same_outside sid ?m ?w"
    by (simp_all add: dir_defs tmp_session_def outside_mkdirs outside_atomic_write)
  moreover have "same_outside sid ?w s1"
    unfolding s1 by (rule same_outside_trans [OF same_outside_fold outside_ensure]) (rule outside_ensure)
  ultimately have "same_outside sid s s1" by (metis same_outside_trans)
  then show "node_at s1 p = node_at s p" if "p \<noteq> []" "hd p \<noteq> sid" for p
    using that by (rule same_outsideD)
qed

lemma persist_meta_fresh:
  assumes "persist_meta now sid upd s1 = (Inr (), s')" "node_at s1 (swarm_meta_file sid) = None"
    and "node_at s1 (session_dir sid) = Some Dir" "upd [] = Some d"
  shows "load_at s' (swarm_meta_file sid) = Loaded (JObj d)"
    "\<And>p. p \<noteq> swarm_meta_file sid \<Longrightarrow> p \<noteq> [] \<Longrightarrow> node_at s' p = node_at s1 p"
proof -
  let ?m = "mkdirs (session_dir sid) s1"
  have n: "node_at ?m p = node_at s1 p" if "p \<noteq> []" for p
    using that assms(3) by (cases p) (auto simp: fs_simps dir_defs)
  have "node_at ?m (swarm_meta_file sid) = None" using assms(2) n by (simp add: swarm_meta_file_def)
  then have "load_at ?m (swarm_meta_file sid) = Missing" by (simp add: load_at_def)
  then have s': "s' = write_doc now (swarm_meta_file sid) (JObj d) ?m"
    using assms(1,4) by (auto simp: persist_meta_def Let_def split: option.splits)
  show "load_at s' (swarm_meta_file sid) = Loaded (JObj d)" by (simp add: s' load_at_def fs_simps)
  show "node_at s' p = node_at s1 p" if "p \<noteq> swarm_meta_file sid" "p \<noteq> []" for p
    using that n by (simp add: s' node_at_write_doc)
qed

lemma create_session_files:
  assumes "create_session now sid mgr roster a ems rms k s = (Inr ss, k', s')"
    and "\<not> exists_at s (session_file sid)" "\<not> exists_at s (swarm_meta_file sid)"
    and "\<not> is_file_at s (session_dir sid)" "''swarm-meta.json'' \<notin> set (mgr # roster)"
  obtains p where "read_persisted sid s' = Inr (Some p)" "pe_session p = ss" "ss_session_id ss = sid"
    "k_sessions k' = AList.update sid ss (k_sessions k)" "map_of (k_sessions k) sid = None"
    "node_at s' [sid] = Some Dir" "\<And>q. q \<noteq> [] \<Longrightarrow> hd q \<noteq> sid \<Longrightarrow> node_at s' q = node_at s q"
proof -
  from assms(1) obtain members lst s1 r where m: "members = sorted_set (mgr # roster)"
    and ss: "ss = \<lparr>ss_session_id = sid, ss_manager_id = mgr, ss_roster = members, ss_acl = lst,
       ss_created_at = iso_format now, ss_execution_modes = ems, ss_return_modes = rms\<rparr>"
    and k': "k_sessions k' = AList.update sid ss (k_sessions k)" "map_of (k_sessions k) sid = None"
    and v: "validate_agent_id sid" "validate_agent_id mgr"
    and i: "session_init now sid (session_request mgr members lst ems rms) s = (Inr r, s1)"
    and pm: "persist_meta now sid (\<lambda>m. Some (dset m ''acl'' (JObj (acl_dict lst)))) s1 = (Inr (), s')"
    by (rule create_session_inv) blast
  have "''swarm-meta.json'' \<notin> set (sa_manager (session_request mgr members lst ems rms) #
      sa_agents (session_request mgr members lst ems rms))"
    using assms(5) by (auto simp: session_request_def roster_without_def m)
  note f = fresh_session_files [OF i assms(2-4) this]
  have "(\<lambda>m. Some (dset m ''acl'' (JObj (acl_dict lst)))) [] = Some [(''acl'', JObj (acl_dict lst))]"
    by (simp add: dset_def)
  note g = persist_meta_fresh [OF pm f(2,3) this]
  have ne: "session_file sid \<noteq> swarm_meta_file sid" "session_dir sid \<noteq> swarm_meta_file sid"
    by (simp_all add: swarm_meta_file_def dir_defs)
  have "node_at s' (session_file sid) =
      Some (File (Doc (JObj (session_fresh_meta now sid (session_request mgr members lst ems rms)))) now)"
    using g(2) [OF ne(1)] f(1) by (simp add: dir_defs)
  then have "load_at s' [sid, ''session.json''] =
      Loaded (JObj (session_fresh_meta now sid (session_request mgr members lst ems rms)))"
    by (auto simp: load_at_def dir_defs)
  moreover have dir: "node_at s' [sid] = Some Dir" using g(2) [OF ne(2)] f(3) by (simp add: dir_defs)
  moreover have "load_at s' [sid, ''swarm-meta.json''] = Loaded (JObj [(''acl'', JObj (acl_dict lst))])"
    using g(1) by (simp add: swarm_meta_file_def dir_defs)
  moreover have "sid \<noteq> []" "mgr \<noteq> []" using v by (auto simp: validate_agent_id_def AGENT_ID_RE_def match_dollar_def)
  ultimately have "read_persisted sid s' = Inr (Some \<lparr>pe_session = ss, pe_channels = [], pe_routing = [], pe_tokens = []\<rparr>)"
    by (simp add: read_persisted_def is_dir_at_def decode_fresh m ss)
  moreover have "node_at s' q = node_at s q" if "q \<noteq> []" "hd q \<noteq> sid" for q
    using that f(4) [of q] g(2) [of q] by (cases "q = swarm_meta_file sid") (auto simp: swarm_meta_file_def dir_defs)
  ultimately show thesis using that dir k' by (simp add: ss)
qed

lemma read_persisted_cong:
  "(\<And>q. node_at s' (d # q) = node_at s (d # q)) \<Longrightarrow> read_persisted d s' = read_persisted d s"
proof -
  assume eq: "\<And>q. node_at s' (d # q) = node_at s (d # q)"
  then have l: "load_at s' [d, x] = load_at s [d, x]" for x by (simp add: load_at_def)
  show ?thesis unfolding read_persisted_def is_dir_at_def l eq ..
qed

text \<open>
  C19. A session survives a restart. When a kernel that was started on the tree creates a session,
  a kernel started afterwards on the resulting tree loads without error and has the same sessions,
  the new one included, with its roster, manager, access lists and modes. (The directory of the
  session must not have been in use, and no agent may be called like the metadata file.)
\<close>

theorem session_survives_restart:
  assumes "load_persisted_sessions s = Inr k"
    and "create_session now sid mgr roster a ems rms k s = (Inr ss, k', s')"
    and "\<not> exists_at s (session_file sid)" "\<not> exists_at s (swarm_meta_file sid)"
    and "\<not> is_file_at s (session_dir sid)" "''swarm-meta.json'' \<notin> set (mgr # roster)"
  shows "\<exists>k2. load_persisted_sessions s' = Inr k2 \<and>
    map_of (k_sessions k2) = map_of (k_sessions k') \<and> map_of (k_sessions k2) sid = Some ss"
proof -
  obtain p where p: "read_persisted sid s' = Inr (Some p)" "pe_session p = ss" "ss_session_id ss = sid"
    "k_sessions k' = AList.update sid ss (k_sessions k)" "map_of (k_sessions k) sid = None"
    and dir: "node_at s' [sid] = Some Dir" and out: "\<And>q. q \<noteq> [] \<Longrightarrow> hd q \<noteq> sid \<Longrightarrow> node_at s' q = node_at s q"
    by (rule create_session_files [OF assms(2-6)]) blast
  let ?ds = "sorted_set (children s [])" and ?ds' = "sorted_set (children s' [])"
  let ?other = "filter (\<lambda>d. d \<noteq> sid)"
  have rp: "read_persisted d s' = read_persisted d s" if "d \<noteq> sid" for d
    by (rule read_persisted_cong) (use that out in simp)
  have "load_at s [sid, ''session.json''] = Missing"
    using assms(3) by (auto simp: load_at_def exists_at_def dir_defs split: option.splits)
  then have old: "read_persisted sid s = Inr None" by (simp add: read_persisted_def)
  have "set (?other ?ds) = set (?other ?ds')" using out by (auto simp: in_children exists_at_def)
  then have ds: "?other ?ds = ?other ?ds'"
    by (intro sorted_distinct_set_unique) (simp_all add: sorted_filter [of id, simplified])
  have k: "\<forall>d \<in> set ?ds. \<exists>x. read_persisted d s = Inr x" "k = fold (install_dir s) ?ds empty_kernel"
    using assms(1) unfolding load_persisted_sessions_def load_all_fold by blast+
  let ?k2 = "fold (install_dir s') ?ds' empty_kernel"
  have fold_other: "fold (install_dir s) xs j = fold (install_dir s') (?other xs) j" for xs j
    by (induction xs arbitrary: j) (auto simp: install_dir_def rp old)
  have "\<exists>x. read_persisted d s' = Inr x" if "d \<in> set ?ds'" for d
  proof (cases "d = sid")
    case False
    then have "d \<in> set ?ds" using that \<open>set (?other ?ds) = set (?other ?ds')\<close> by auto
    with k(1) False rp show ?thesis by auto
  qed (use p in blast)
  then have load: "load_persisted_sessions s' = Inr ?k2"
    unfolding load_persisted_sessions_def load_all_fold by blast
  have k_eq: "k = fold (install_dir s') (?other ?ds') empty_kernel" using k(2) fold_other ds by simp
  have others: "\<forall>d \<in> set ?ds'. d \<noteq> sid \<longrightarrow> \<not> holds_session s' d sid"
    using sessions_held [of s' "?other ?ds'" empty_kernel sid] p(5) k_eq by auto
  have "sid \<in> set ?ds'" using dir by (simp add: in_children exists_at_def)
  from sessions_own [OF p(1) _ this others] p(2,3)
  have own: "map_of (k_sessions ?k2) sid = Some ss" by simp
  have "map_of (k_sessions ?k2) x = map_of (k_sessions k') x" for x
  proof (cases "x = sid")
    case False
    have "\<forall>y. holds_session s' sid y \<longrightarrow> y = sid" using p by (auto simp: holds_session_def)
    from sessions_other [OF this False refl] show ?thesis using False by (simp add: p(4) k_eq update_conv')
  qed (use own p(4) in \<open>simp add: update_conv'\<close>)
  with load own show ?thesis by blast
qed

theorem session_survives_restart_witness:
  "\<exists>k2. load_persisted_sessions demo_fs = Inr k2 \<and> map_of (k_sessions k2) ''s1'' = Some demo_session"
proof -
  have "load_persisted_sessions [] = Inr empty_kernel"
    "\<not> exists_at [] (session_file ''s1'')" "\<not> exists_at [] (swarm_meta_file ''s1'')"
    "\<not> is_file_at [] (session_dir ''s1'')" "''swarm-meta.json'' \<notin> set (''boss'' # [''w1'', ''w2''])"
    by code_simp+
  with session_survives_restart [OF _ demo_created [unfolded demo_create_def]] show ?thesis by blast
qed

end
