(* ===== verification/Kernel_Poll.thy ===== *)
theory Kernel_Poll
  imports Swarm_Kernel
begin

text \<open>
  \<open>SwarmKernel.poll\<close> reads an inbox page by page. The listing is in the order of modification
  times, the cursor is a pair of creation time and message id; pages fit together when the two
  orders agree, and lose messages when they do not.
\<close>

section \<open>Paging through an inbox\<close>

text \<open>The messages of an inbox in the order of the listing, and those after a cursor.\<close>

fun docs_of :: "path \<Rightarrow> fs \<Rightarrow> string list \<Rightarrow> dict list" where
  "docs_of inbox s [] = []"
| "docs_of inbox s (f # fs) = (case load_at s (inbox @ [f]) of
     Loaded (JObj d) \<Rightarrow> d # docs_of inbox s fs | _ \<Rightarrow> docs_of inbox s fs)"

definition inbox_docs :: "string \<Rightarrow> string \<Rightarrow> fs \<Rightarrow> dict list" where
  "inbox_docs sid aid s = docs_of (inbox_dir sid aid) s (list_messages (inbox_dir sid aid) s)"

definition after_cursor :: "string \<Rightarrow> dict \<Rightarrow> bool" where
  "after_cursor cursor d \<longleftrightarrow> cursor = [] \<or> \<not> pair_le (poll_key d) (parse_cursor cursor)"

definition objects_only :: "path \<Rightarrow> fs \<Rightarrow> string list \<Rightarrow> bool" where
  "objects_only inbox s fs \<longleftrightarrow> list_all (\<lambda>f. case load_at s (inbox @ [f]) of
     Loaded (JObj _) \<Rightarrow> True | Loaded _ \<Rightarrow> False | _ \<Rightarrow> True) fs"

lemma poll_loop_page:
  "objects_only inbox s fs \<Longrightarrow> n < limit \<Longrightarrow>
   poll_loop inbox s cursor limit n fs = Inr (take (limit - n) (filter (after_cursor cursor) (docs_of inbox s fs)))"
proof (induction fs arbitrary: n)
  case (Cons f fs)
  have o: "objects_only inbox s fs" using Cons.prems(1) by (simp add: objects_only_def)
  show ?case
  proof (cases "load_at s (inbox @ [f])")
    case (Loaded j)
    with Cons.prems(1) obtain d where j: "j = JObj d"
      by (auto simp: objects_only_def split: json.splits)
    consider "\<not> after_cursor cursor d" | "after_cursor cursor d" "limit \<le> Suc n"
      | "after_cursor cursor d" "Suc n < limit" by linarith
    then show ?thesis
    proof cases
      case 1
      with Cons.IH [OF o Cons.prems(2)] Loaded j show ?thesis by (simp add: after_cursor_def)
    next
      case 2
      then have "limit - n = 1" using Cons.prems(2) by simp
      with 2 Loaded j show ?thesis by (auto simp: after_cursor_def)
    next
      case 3
      then have "limit - n = Suc (limit - Suc n)" by simp
      with 3 Cons.IH [OF o 3(2)] Loaded j show ?thesis by (auto simp: after_cursor_def)
    qed
  qed (use Cons.IH [OF o Cons.prems(2)] in simp_all)
qed simp

lemma parse_make_cursor:
  assumes "CHR ''|'' \<notin> set (snd key)"
  shows "parse_cursor (make_cursor key) = key" "make_cursor key \<noteq> []"
proof -
  have r: "rev (make_cursor key) = rev (snd key) @ CHR ''|'' # rev (fst key)" by (simp add: make_cursor_def)
  have "dropWhile (\<lambda>x. x \<noteq> CHR ''|'') (rev (make_cursor key)) = CHR ''|'' # rev (fst key)"
    "takeWhile (\<lambda>x. x \<noteq> CHR ''|'') (rev (make_cursor key)) = rev (snd key)"
    using assms unfolding r by (simp_all add: dropWhile_append takeWhile_append)
  then show "parse_cursor (make_cursor key) = key"
    by (simp add: parse_cursor_def) (simp add: make_cursor_def)
  show "make_cursor key \<noteq> []" by (simp add: make_cursor_def)
qed

definition key_less :: "dict \<Rightarrow> dict \<Rightarrow> bool" where
  "key_less a b \<longleftrightarrow> \<not> pair_le (poll_key b) (poll_key a)"

lemma pair_le_linear: "\<not> pair_le a b \<Longrightarrow> pair_le b a"
  by (auto simp: pair_le_def)

lemma pair_le_refl: "pair_le a a"
  by (simp add: pair_le_def)

lemma pair_le_trans: "pair_le a b \<Longrightarrow> pair_le b c \<Longrightarrow> pair_le a c"
  by (auto simp: pair_le_def)

text \<open>After the last message of a page come exactly the messages that follow it.\<close>

lemma after_last:
  assumes "sorted_wrt key_less ds" "0 < n" "ds \<noteq> []" "CHR ''|'' \<notin> set (snd (poll_key (last (take n ds))))"
  shows "filter (after_cursor (make_cursor (poll_key (last (take n ds))))) ds = drop n ds"
proof -
  let ?l = "last (take n ds)"
  have split: "ds = take n ds @ drop n ds" by simp
  have ne: "take n ds \<noteq> []" using assms(2,3) by simp
  have c: "after_cursor (make_cursor (poll_key ?l)) d \<longleftrightarrow> key_less ?l d" for d
    using parse_make_cursor [OF assms(4)] by (simp add: after_cursor_def key_less_def)
  have sw: "sorted_wrt key_less (take n ds @ drop n ds)" using assms(1) by simp
  obtain ys where ys: "take n ds = ys @ [?l]" using ne by (metis append_butlast_last_id)
  have "sorted_wrt key_less (ys @ [?l])" using sw unfolding sorted_wrt_append ys [symmetric] by blast
  then have "key_less d ?l" if "d \<in> set ys" for d using that by (simp add: sorted_wrt_append)
  moreover have "d \<in> set ys \<or> d = ?l" if "d \<in> set (take n ds)" for d
    using that ys by (metis Un_iff empty_iff insert_iff list.set set_append)
  ultimately have "\<not> key_less ?l d" if "d \<in> set (take n ds)" for d
    using that pair_le_linear pair_le_refl unfolding key_less_def by blast
  moreover have "key_less ?l d" if "d \<in> set (drop n ds)" for d
    using sw that ne by (metis last_in_set sorted_wrt_append)
  ultimately have "filter (key_less ?l) (take n ds @ drop n ds) = drop n ds"
    unfolding filter_append by (simp add: filter_empty_conv filter_id_conv)
  moreover have "after_cursor (make_cursor (poll_key ?l)) = key_less ?l" using c by blast
  ultimately show ?thesis by simp
qed

lemma poll_page:
  fixes cursor :: string
  assumes "require_session sid k = Inr ss" "check_agent sid aid = None" "0 < limit"
    and "objects_only (inbox_dir sid aid) s (list_messages (inbox_dir sid aid) s)"
    and "\<forall>d \<in> set (inbox_docs sid aid s). has_key d ''created_at'' \<and> has_key d ''msg_id''"
  defines "page \<equiv> take limit (filter (after_cursor cursor) (inbox_docs sid aid s))"
  shows "\<exists>r cb. poll sid aid cursor limit k s = Inr (r, cb) \<and> po_messages r = page \<and>
    po_cursor r = (if page = [] then cursor else make_cursor (poll_key (last page)))"
proof -
  have l: "poll_loop (inbox_dir sid aid) s cursor limit 0 (list_messages (inbox_dir sid aid) s) = Inr page"
    using poll_loop_page [OF assms(4,3)] by (simp add: page_def inbox_docs_def)
  have "last page \<in> set (inbox_docs sid aid s)" if "page \<noteq> []"
    using last_in_set [OF that] by (auto simp: page_def dest: in_set_takeD)
  with assms(1,2,5) l show ?thesis by (auto simp: poll_def)
qed

text \<open>
  Paging neither skips nor repeats a message. When the order of the listing agrees with the
  order of creation time and id, the page after a cursor is the first messages after it, and the
  page after the cursor that came with it goes on exactly where it stopped.
\<close>

theorem poll_pages_consecutive:
  fixes cursor :: string
  assumes "require_session sid k = Inr ss" "check_agent sid aid = None" "0 < limit"
    and "objects_only (inbox_dir sid aid) s (list_messages (inbox_dir sid aid) s)"
    and "\<forall>d \<in> set (inbox_docs sid aid s). has_key d ''created_at'' \<and> has_key d ''msg_id'' \<and>
           CHR ''|'' \<notin> set (snd (poll_key d))"
    and "sorted_wrt key_less (inbox_docs sid aid s)"
  defines "rest \<equiv> filter (after_cursor cursor) (inbox_docs sid aid s)"
  shows "\<exists>r cb r' cb'. poll sid aid cursor limit k s = Inr (r, cb) \<and> po_messages r = take limit rest \<and>
    poll sid aid (po_cursor r) limit k s = Inr (r', cb') \<and> po_messages r' = take limit (drop limit rest)"
proof -
  have keys: "\<forall>d \<in> set (inbox_docs sid aid s). has_key d ''created_at'' \<and> has_key d ''msg_id''"
    using assms(5) by blast
  obtain r cb where r: "poll sid aid cursor limit k s = Inr (r, cb)" "po_messages r = take limit rest"
      "po_cursor r = (if take limit rest = [] then cursor else make_cursor (poll_key (last (take limit rest))))"
    using poll_page [OF assms(1-4) keys, of cursor] by (auto simp: rest_def)
  obtain r' cb' where r': "poll sid aid (po_cursor r) limit k s = Inr (r', cb')"
      "po_messages r' = take limit (filter (after_cursor (po_cursor r)) (inbox_docs sid aid s))"
    using poll_page [OF assms(1-4) keys, of "po_cursor r"] by auto
  have "filter (after_cursor (po_cursor r)) (inbox_docs sid aid s) = drop limit rest"
  proof (cases "rest = []")
    case True
    then show ?thesis using r(3) by (simp add: rest_def)
  next
    case False
    let ?l = "last (take limit rest)"
    have ne: "take limit rest \<noteq> []" using False assms(3) by simp
    have l: "?l \<in> set rest" using last_in_set [OF ne] by (rule in_set_takeD)
    then have bar: "CHR ''|'' \<notin> set (snd (poll_key ?l))" using assms(5) by (simp add: rest_def)
    have c: "po_cursor r = make_cursor (poll_key ?l)" using r(3) ne by simp
    have "after_cursor cursor ?l" using l by (simp add: rest_def)
    then have imp: "after_cursor cursor d" if "after_cursor (po_cursor r) d" for d
      using that parse_make_cursor [OF bar] unfolding c after_cursor_def
      by (metis pair_le_linear pair_le_trans)
    have "filter (after_cursor (po_cursor r)) (inbox_docs sid aid s) = filter (after_cursor (po_cursor r)) rest"
      unfolding rest_def filter_filter by (rule filter_cong) (use imp in auto)
    moreover have "sorted_wrt key_less rest" unfolding rest_def by (rule sorted_wrt_filter [OF assms(6)])
    ultimately show ?thesis using after_last [OF _ assms(3) False bar] by (simp add: c)
  qed
  with r r' show ?thesis by auto
qed

section \<open>Witnesses\<close>

definition poll_doc :: "string \<Rightarrow> string \<Rightarrow> json" where
  "poll_doc created mid = JObj [(''created_at'', JStr created), (''msg_id'', JStr mid)]"

text \<open>An inbox with two messages, in the order \<open>a\<close>, \<open>b\<close> of their modification times.\<close>

definition poll_fs :: "string \<Rightarrow> string \<Rightarrow> fs" where
  "poll_fs ca cb = [([''s1'', ''w1'', ''inbox''], Dir),
     ([''s1'', ''w1'', ''inbox'', ''a.json''], File (Doc (poll_doc ca ''a'')) 1),
     ([''s1'', ''w1'', ''inbox'', ''b.json''], File (Doc (poll_doc cb ''b'')) 2)]"

theorem poll_pages_consecutive_witness:
  "\<exists>r cb r' cb'. poll ''s1'' ''w1'' [] 1 demo_kernel (poll_fs ''1'' ''2'') = Inr (r, cb) \<and>
     map poll_key (po_messages r) = [(''1'', ''a'')] \<and>
     poll ''s1'' ''w1'' (po_cursor r) 1 demo_kernel (poll_fs ''1'' ''2'') = Inr (r', cb') \<and>
     map poll_key (po_messages r') = [(''2'', ''b'')]"
proof -
  let ?s = "poll_fs ''1'' ''2''"
  have "check_agent ''s1'' ''w1'' = None" "0 < (1::nat)"
    "objects_only (inbox_dir ''s1'' ''w1'') ?s (list_messages (inbox_dir ''s1'' ''w1'') ?s)"
    "\<forall>d \<in> set (inbox_docs ''s1'' ''w1'' ?s). has_key d ''created_at'' \<and> has_key d ''msg_id'' \<and>
       CHR ''|'' \<notin> set (snd (poll_key d))"
    "sorted_wrt key_less (inbox_docs ''s1'' ''w1'' ?s)"
    by code_simp+
  note p = poll_pages_consecutive [OF demo_require this, of "[]"]
  have "map poll_key (take 1 (filter (after_cursor []) (inbox_docs ''s1'' ''w1'' ?s))) = [(''1'', ''a'')]"
    "map poll_key (take 1 (drop 1 (filter (after_cursor []) (inbox_docs ''s1'' ''w1'' ?s)))) = [(''2'', ''b'')]"
    by code_simp+
  with p show ?thesis by metis
qed

text \<open>
  When the orders do not agree, a message is lost to a polling client: the first page holds the
  message that arrived first, and its cursor hides one created earlier that arrived later.
\<close>

lemma poll_skips_late_arrival:
  "(case poll ''s1'' ''w1'' [] 1 demo_kernel (poll_fs ''2'' ''1'') of
     Inr (r, _) \<Rightarrow> map poll_key (po_messages r) = [(''2'', ''a'')] \<and> po_has_more r \<and>
       (case poll ''s1'' ''w1'' (po_cursor r) 1 demo_kernel (poll_fs ''2'' ''1'') of
          Inr (r', _) \<Rightarrow> po_messages r' = [] | _ \<Rightarrow> False)
   | _ \<Rightarrow> False)"
  by code_simp

end
