(* ===== verification/Mailbox_Cli.thy ===== *)
theory Mailbox_Cli
  imports Mailbox_Service
begin

text \<open>
  The command line between the delivery engine and a mailbox: the arguments
  \<open>DeliveryEngine._build_mailbox_args\<close> makes of an envelope, what \<open>argparse\<close> reads from them, and
  the \<open>send\<close> branch of \<open>mailbox/cli.py\<close> with its exit codes, which \<open>LocalTransport.mailbox\<close> runs in
  the same process.

  The text of a JSON document, as \<open>json.dumps\<close> writes it, is an argument of its own kind; reading
  it back gives the document.
\<close>

section \<open>Building the arguments\<close>

datatype arg = Word string | JsonText json

type_synonym args = "arg list"

text \<open>A flag with its value, left out when the value is empty.\<close>

definition opt_args :: "string \<Rightarrow> string \<Rightarrow> args" where
  "opt_args flag v = (if v = [] then [] else [Word flag, Word v])"

definition attachments_in :: "dict \<Rightarrow> json list" where
  "attachments_in env = (case dget_or env ''attachments'' JNull of JArr as \<Rightarrow> as | _ \<Rightarrow> [])"

text \<open>The string under a key, a default when the key is absent.\<close>

definition sget_or :: "dict \<Rightarrow> string \<Rightarrow> string \<Rightarrow> string" where
  "sget_or d key dflt = the_str (dget_or d key (JStr dflt))"

definition build_mailbox_args :: "dict \<Rightarrow> args" where
  "build_mailbox_args env =
     [Word ''send'', Word ''--session'', Word (sget env ''session_id''), Word ''--from'', Word (sget env ''from''),
      Word ''--to'', Word (sget env ''to''), Word ''--subject'', Word (sget env ''subject''),
      Word ''--body'', Word (sget env ''body''), Word ''--kind'', Word (sget_or env ''kind'' ''TASK''),
      Word ''--msg-id'', Word (sget env ''msg_id'')] @
     (if truthy (dget_or env ''require_ack'' (JBool False)) then [Word ''--require-ack''] else []) @
     opt_args ''--receipt-type'' (sget env ''receipt_type'') @
     concat (map (\<lambda>a. [Word ''--attachment'', JsonText a]) (attachments_in env)) @
     opt_args ''--reply-to'' (sget env ''reply_to'') @ opt_args ''--run-id'' (sget env ''run_id'') @
     opt_args ''--request-id'' (sget env ''request_id'') @ opt_args ''--trace-id'' (sget env ''trace_id'') @
     opt_args ''--causation-id'' (sget env ''causation_id'')"

section \<open>Reading the arguments\<close>

definition SEND_OPTIONS :: "string list" where
  "SEND_OPTIONS = [''--session'', ''--from'', ''--to'', ''--subject'', ''--body'', ''--template'', ''--kind'',
     ''--reply-to'', ''--run-id'', ''--request-id'', ''--causation-id'', ''--trace-id'', ''--msg-id'',
     ''--require-ack'', ''--receipt-type'', ''--attachment'', ''--help'', ''-h'']"

definition negative_number :: "string \<Rightarrow> bool" where
  "negative_number w \<longleftrightarrow> (case w of [] \<Rightarrow> False | c # cs \<Rightarrow> c = CHR ''-'' \<and>
     (cs \<noteq> [] \<and> list_all is_digit cs \<or>
      (let fraction = dropWhile is_digit cs in
       fraction \<noteq> [] \<and> hd fraction = CHR ''.'' \<and> tl fraction \<noteq> [] \<and> list_all is_digit (tl fraction))))"

text \<open>
  The words \<open>argparse\<close> does not accept as the value of an option: they start with a dash and are an
  option, the start of one (up to an equals sign), or no negative number and without a space.
\<close>

definition takes_as_option :: "string \<Rightarrow> bool" where
  "takes_as_option w \<longleftrightarrow> w \<noteq> [] \<and> hd w = CHR ''-'' \<and> w \<noteq> ''-'' \<and>
     (w \<in> set SEND_OPTIONS \<or> take 2 w = ''-h'' \<or>
      prefix ''--'' w \<and> list_ex (prefix (takeWhile (\<lambda>c. c \<noteq> CHR ''='') w)) SEND_OPTIONS \<or>
      \<not> negative_number w \<and> CHR '' '' \<notin> set w)"

text \<open>The namespace of the \<open>send\<close> command; an attachment is the text of a document or other text.\<close>

record send_ns =
  ns_session :: string
  ns_args :: send_args
  ns_attachments :: "json option list"

definition empty_ns :: send_ns where
  "empty_ns = \<lparr>ns_session = [], ns_args = \<lparr>sn_from = [], sn_to = [], sn_subject = [], sn_body = [],
     sn_kind = ''TASK'', sn_reply_to = [], sn_run_id = [], sn_request_id = [], sn_command_id = [],
     sn_trace_id = [], sn_causation_id = [], sn_attachments = [], sn_msg_id = None, sn_require_ack = False,
     sn_receipt_type = []\<rparr>, ns_attachments = []\<rparr>"

definition set_option :: "string \<Rightarrow> string \<Rightarrow> send_ns \<Rightarrow> send_ns option" where
  "set_option flag v ns =
     (let upd = (\<lambda>f. Some (ns\<lparr>ns_args := f (ns_args ns)\<rparr>)) in
      if flag = ''--session'' then Some (ns\<lparr>ns_session := v\<rparr>)
      else if flag = ''--from'' then upd (\<lambda>a. a\<lparr>sn_from := v\<rparr>)
      else if flag = ''--to'' then upd (\<lambda>a. a\<lparr>sn_to := v\<rparr>)
      else if flag = ''--subject'' then upd (\<lambda>a. a\<lparr>sn_subject := v\<rparr>)
      else if flag = ''--body'' then upd (\<lambda>a. a\<lparr>sn_body := v\<rparr>)
      else if flag = ''--kind'' then (if v \<in> set VALID_KINDS then upd (\<lambda>a. a\<lparr>sn_kind := v\<rparr>) else None)
      else if flag = ''--msg-id'' then upd (\<lambda>a. a\<lparr>sn_msg_id := Some v\<rparr>)
      else if flag = ''--receipt-type'' then upd (\<lambda>a. a\<lparr>sn_receipt_type := v\<rparr>)
      else if flag = ''--reply-to'' then upd (\<lambda>a. a\<lparr>sn_reply_to := v\<rparr>)
      else if flag = ''--run-id'' then upd (\<lambda>a. a\<lparr>sn_run_id := v\<rparr>)
      else if flag = ''--request-id'' then upd (\<lambda>a. a\<lparr>sn_request_id := v\<rparr>)
      else if flag = ''--trace-id'' then upd (\<lambda>a. a\<lparr>sn_trace_id := v\<rparr>)
      else if flag = ''--causation-id'' then upd (\<lambda>a. a\<lparr>sn_causation_id := v\<rparr>)
      else if flag = ''--attachment'' then Some (ns\<lparr>ns_attachments := ns_attachments ns @ [None]\<rparr>)
      else None)"

text \<open>\<^term>\<open>None\<close> is a usage error, on which \<open>argparse\<close> exits with code 2.\<close>

fun parse_options :: "args \<Rightarrow> send_ns \<Rightarrow> send_ns option" where
  "parse_options [] ns = Some ns"
| "parse_options (Word f # rest) ns =
     (if f = ''--require-ack'' then parse_options rest (ns\<lparr>ns_args := (ns_args ns)\<lparr>sn_require_ack := True\<rparr>\<rparr>)
      else case rest of
        Word v # rest' \<Rightarrow>
          if takes_as_option v then None
          else (case set_option f v ns of None \<Rightarrow> None | Some ns' \<Rightarrow> parse_options rest' ns')
      | JsonText j # rest' \<Rightarrow>
          if f = ''--attachment'' then parse_options rest' (ns\<lparr>ns_attachments := ns_attachments ns @ [Some j]\<rparr>)
          else None
      | [] \<Rightarrow> None)"
| "parse_options (JsonText j # rest) ns = None"

section \<open>The send command\<close>

text \<open>
  \<open>_parse_attachment_args\<close>: a text that is no JSON object is a \<open>ValueError\<close>, a missing field a
  \<open>KeyError\<close>. The error is the exit code.
\<close>

fun parse_attachment_args :: "json option list \<Rightarrow> nat + json list" where
  "parse_attachment_args [] = Inr []"
| "parse_attachment_args (Some (JObj d) # js) = (case attachment_from_dict d of
       Inl _ \<Rightarrow> Inl 1
     | Inr r \<Rightarrow> (case parse_attachment_args js of
           Inl c \<Rightarrow> Inl c
         | Inr ds \<Rightarrow> Inr (JObj (attachment_to_dict r) # ds)))"
| "parse_attachment_args (_ # js) = Inl 2"

text \<open>
  \<open>mailbox send\<close>: the exit code and the text on standard error. Usage errors and \<open>ValueError\<close>
  exit with 2, any other exception with 1. \<open>diag\<close> is the text of an error.
\<close>

definition cli_send ::
  "(store_error \<Rightarrow> string) \<Rightarrow> instant \<Rightarrow> args \<Rightarrow> fs \<Rightarrow> (nat \<times> string) \<times> fs" where
  "cli_send diag now as s = (case as of
       Word cmd # opts \<Rightarrow>
         if cmd \<noteq> ''send'' then ((2, ''invalid choice''), s)
         else (case parse_options opts empty_ns of
             None \<Rightarrow> ((2, ''usage''), s)
           | Some ns \<Rightarrow>
               (let a = ns_args ns in
                if ns_session ns = [] \<or> sn_from a = [] \<or> sn_to a = [] \<or> sn_subject a = [] \<or> sn_body a = []
                then ((2, ''send requires''), s)
                else case parse_attachment_args (ns_attachments ns) of
                  Inl c \<Rightarrow> ((c, ''--attachment''), s)
                | Inr docs \<Rightarrow>
                    (case service_send now [] (ns_session ns) (a\<lparr>sn_attachments := docs\<rparr>) s of
                       None \<Rightarrow> ((1, ''error''), s)
                     | Some (Inl e, s') \<Rightarrow> ((1, ''error: '' @ diag e), s')
                     | Some (Inr rc, s') \<Rightarrow>
                         if sv_status rc = ''failed''
                         then ((2, (case sv_error rc of None \<Rightarrow> ''send failed'' | Some e \<Rightarrow> diag e)), s')
                         else ((0, []), s'))))
     | _ \<Rightarrow> ((2, ''usage''), s))"

section \<open>What the parser reads is what was built\<close>

text \<open>The arguments an envelope stands for.\<close>

definition envelope_ns :: "dict \<Rightarrow> send_ns" where
  "envelope_ns env = \<lparr>ns_session = sget env ''session_id'',
     ns_args = \<lparr>sn_from = sget env ''from'', sn_to = sget env ''to'', sn_subject = sget env ''subject'',
       sn_body = sget env ''body'', sn_kind = sget_or env ''kind'' ''TASK'', sn_reply_to = sget env ''reply_to'',
       sn_run_id = sget env ''run_id'', sn_request_id = sget env ''request_id'', sn_command_id = [],
       sn_trace_id = sget env ''trace_id'', sn_causation_id = sget env ''causation_id'', sn_attachments = [],
       sn_msg_id = Some (sget env ''msg_id''), sn_require_ack = truthy (dget_or env ''require_ack'' (JBool False)),
       sn_receipt_type = sget env ''receipt_type''\<rparr>,
     ns_attachments = map Some (attachments_in env)\<rparr>"

text \<open>The envelopes whose values survive the command line.\<close>

definition representable :: "dict \<Rightarrow> bool" where
  "representable env \<longleftrightarrow> sget_or env ''kind'' ''TASK'' \<in> set VALID_KINDS \<and>
     \<not> takes_as_option (sget_or env ''kind'' ''TASK'') \<and>
     list_all (\<lambda>key. \<not> takes_as_option (sget env key))
       [''session_id'', ''from'', ''to'', ''subject'', ''body'', ''msg_id'', ''receipt_type'', ''reply_to'', ''run_id'',
        ''request_id'', ''trace_id'', ''causation_id'']"

lemma takes_as_option_Nil [simp]: "\<not> takes_as_option []"
  by (simp add: takes_as_option_def)

lemma parse_word:
  "f \<noteq> ''--require-ack'' \<Longrightarrow> set_option f v ns = Some ns' \<Longrightarrow>
   parse_options (Word f # Word v # rest) ns = (if takes_as_option v then None else parse_options rest ns')"
  by simp

lemma parse_opt:
  assumes "f \<noteq> ''--require-ack''" "set_option f v ns = Some ns'" "v = [] \<Longrightarrow> ns' = ns"
  shows "parse_options (opt_args f v @ rest) ns = (if takes_as_option v then None else parse_options rest ns')"
  using assms by (simp add: opt_args_def)

lemma parse_attachments:
  "parse_options (concat (map (\<lambda>a. [Word ''--attachment'', JsonText a]) as) @ rest) ns =
   parse_options rest (ns\<lparr>ns_attachments := ns_attachments ns @ map Some as\<rparr>)"
  by (induction as arbitrary: ns) simp_all

lemma parse_require_ack:
  "parse_options ((if b then [Word ''--require-ack''] else []) @ rest) ns =
   parse_options rest (if b then ns\<lparr>ns_args := (ns_args ns)\<lparr>sn_require_ack := True\<rparr>\<rparr> else ns)"
  by simp

lemma sn_require_ack_if:
  "(if b then ns\<lparr>ns_args := (ns_args ns)\<lparr>sn_require_ack := True\<rparr>\<rparr> else ns) =
   ns\<lparr>ns_args := (ns_args ns)\<lparr>sn_require_ack := (b \<or> sn_require_ack (ns_args ns))\<rparr>\<rparr>"
  by simp

lemma parse_build:
  "parse_options (tl (build_mailbox_args env)) empty_ns =
   (if representable env then Some (envelope_ns env) else None)"
proof -
  let ?k = "sget_or env ''kind'' ''TASK''"
  have kind: "parse_options (Word ''--kind'' # Word ?k # rest) ns =
      (if takes_as_option ?k \<or> ?k \<notin> set VALID_KINDS then None
       else parse_options rest (ns\<lparr>ns_args := (ns_args ns)\<lparr>sn_kind := ?k\<rparr>\<rparr>))" for rest ns
    by (simp add: set_option_def)
  show ?thesis
    unfolding build_mailbox_args_def append_Cons append_Nil list.sel(3)
    by (simp add: parse_word kind parse_opt parse_opt [where rest = "[]", simplified] parse_attachments parse_require_ack sn_require_ack_if set_option_def
        empty_ns_def envelope_ns_def representable_def del: parse_options.simps(2))
qed


lemma parse_attachment_code: "parse_attachment_args js = Inl c \<Longrightarrow> c \<noteq> 0"
  by (induction js arbitrary: c rule: parse_attachment_args.induct) (auto split: sum.splits)

text \<open>A command that exits with 0 has sent the message of the envelope.\<close>

lemma cli_send_ok:
  assumes "cli_send diag now (build_mailbox_args env) s = ((0, t), s')" "sget env ''msg_id'' \<noteq> []"
  obtains docs r where "representable env" "parse_attachment_args (map Some (attachments_in env)) = Inr docs"
    "send now [] (sget env ''session_id'') ((ns_args (envelope_ns env))\<lparr>sn_attachments := docs\<rparr>) s = Some (Inr r, s')"
proof -
  have b: "build_mailbox_args env = Word ''send'' # tl (build_mailbox_args env)"
    by (simp add: build_mailbox_args_def)
  have rep: "representable env"
    using assms(1) by (subst (asm) b) (auto simp: cli_send_def parse_build split: if_splits)
  have ids: "ns_session (envelope_ns env) = sget env ''session_id''"
    "ns_attachments (envelope_ns env) = map Some (attachments_in env)"
    "sn_msg_id (ns_args (envelope_ns env)) = Some (sget env ''msg_id'')"
    by (simp_all add: envelope_ns_def)
  have c: "cli_send diag now (Word ''send'' # tl (build_mailbox_args env)) s = ((0, t), s')"
    using assms(1) b by simp
  obtain docs where d: "parse_attachment_args (map Some (attachments_in env)) = Inr docs"
    using c rep by (auto simp: cli_send_def parse_build Let_def ids parse_attachment_code
        split: if_splits sum.splits)
  let ?a = "(ns_args (envelope_ns env))\<lparr>sn_attachments := docs\<rparr>"
  have m: "?a\<lparr>sn_msg_id := Some (sget env ''msg_id'')\<rparr> = ?a" using ids(3) by simp
  obtain rc where sv: "service_send now [] (sget env ''session_id'') ?a s = Some (Inr rc, s')"
      "sv_status rc \<noteq> ''failed''"
    using c rep d by (auto simp: cli_send_def parse_build Let_def ids
        split: if_splits option.splits prod.splits sum.splits)
  have "\<exists>r. send now [] (sget env ''session_id'') ?a s = Some (Inr r, s')"
    using sv assms(2) by (auto simp: service_send_def Let_def ids m failed_receipt_def
        split: option.splits prod.splits sum.splits if_splits)
  with rep d show thesis using that by blast
qed

text \<open>A body such as a lone option makes the whole command fail with exit code 2, which is final.\<close>

lemma cli_send_usage:
  "parse_options opts empty_ns = None \<Longrightarrow> cli_send diag now (Word ''send'' # opts) s = ((2, ''usage''), s)"
  by (simp add: cli_send_def)

lemma dash_body_refused:
  assumes "sget env ''body'' = ''-fix''"
  shows "cli_send diag now (build_mailbox_args env) s = ((2, ''usage''), s)"
proof -
  have "takes_as_option ''-fix''" by code_simp
  then have "\<not> representable env" using assms by (simp add: representable_def)
  moreover have "build_mailbox_args env = Word ''send'' # tl (build_mailbox_args env)"
    by (simp add: build_mailbox_args_def)
  ultimately show ?thesis by (metis (no_types, lifting) cli_send_usage parse_build)
qed

end
