(* ===== verification/Domain_Hosts.thy ===== *)
theory Domain_Hosts
  imports Py_Values
begin

text \<open>Hosts, as \<open>domain/__init__.py\<close> describes them, and the test whether one is this machine.\<close>

record host_spec =
  hs_name :: string
  hs_ssh_alias :: string
  hs_hostnames :: "string list"
  hs_shell_prefix :: string
  hs_transport :: string
  hs_fallback_ssh_alias :: string

text \<open>\<open>str.lower\<close> on ASCII, the alphabet of host names.\<close>

definition lower_char :: "char \<Rightarrow> char" where
  "lower_char c = (if CHR ''A'' \<le> c \<and> c \<le> CHR ''Z'' then char_of (of_char c + 32 :: nat) else c)"

definition lower :: "string \<Rightarrow> string" where
  "lower = map lower_char"

text \<open>\<open>name.split(".")[0]\<close>\<close>

definition short_name :: "string \<Rightarrow> string" where
  "short_name = takeWhile (\<lambda>c. c \<noteq> CHR ''.'')"

definition current_hostname :: "string \<Rightarrow> string" where
  "current_hostname gethostname = short_name gethostname"

definition resolve_is_local :: "string \<Rightarrow> host_spec \<Rightarrow> bool" where
  "resolve_is_local gethostname h =
     (let actual = lower (current_hostname gethostname) in
      list_ex (\<lambda>n. let c = lower n in c \<noteq> [] \<and> (c = actual \<or> short_name c = short_name actual)) (hs_hostnames h))"

text \<open>A host of which only the alias is known, as \<open>HostSpec(name, ssh_alias, hostnames)\<close> makes it.\<close>

definition plain_host :: "string \<Rightarrow> string list \<Rightarrow> host_spec" where
  "plain_host nm names = \<lparr>hs_name = nm, hs_ssh_alias = nm, hs_hostnames = names, hs_shell_prefix = [],
     hs_transport = ''ssh'', hs_fallback_ssh_alias = []\<rparr>"

text \<open>The copy of a configured host that the delivery engine makes; it has the default transport.\<close>

definition copied_host :: "host_spec \<Rightarrow> host_spec" where
  "copied_host h = h\<lparr>hs_transport := ''ssh''\<rparr>"

lemma copied_host_local [simp]: "resolve_is_local g (copied_host h) = resolve_is_local g h"
  by (simp add: copied_host_def resolve_is_local_def)

lemma plain_host_not_local [simp]: "\<not> resolve_is_local g (plain_host nm [])"
  by (simp add: plain_host_def resolve_is_local_def)

end
