(* ===== verification/Delivery_Engine.thy ===== *)
theory Delivery_Engine
  imports Swarm_Kernel Mailbox_Cli Domain_Hosts Store_Frame
begin

text \<open>
  \<open>swarm/delivery.py\<close>: the durable outbox. A message is written to the outbox before anything is
  sent; it is sent to the mailbox of the target, locally or over the transport of the host, and
  marked as delivered; what fails stays pending and is retried by \<open>flush\<close> with growing delays,
  paused on a protocol mismatch and moved to the dead letters after a final error or five attempts.

  The state is the tree with its \<open>_outbox\<close> and \<open>_dead_letter\<close> directories and the caches of the
  process. Exceptions inside the engine are texts, because their text decides what happens next.
  Documents in the outbox are the ones the engine writes: objects whose counters and times are
  numbers.
\<close>

section \<open>Environment and state\<close>

text \<open>
  What the engine asks the outside: the clock, whether the disk takes a write, the host name, the
  configured hosts, the capabilities of a host (\<^term>\<open>None\<close> when the probe raises), and the transport
  of a host, from the arguments of a mailbox command to its exit code and text.
\<close>

record delivery_env =
  ev_now :: instant
  ev_disk_ok :: bool
  ev_hostname :: string
  ev_repo_map :: "(string \<times> host_spec) list"
  ev_router :: bool
  ev_capabilities :: "host_spec \<Rightarrow> string list option"
  ev_transport :: "host_spec \<Rightarrow> (args \<Rightarrow> nat \<times> string) option"
  ev_diag :: "store_error \<Rightarrow> string"

record engine =
  g_cache :: "(string \<times> send_receipt) list"
  g_hosts :: "(string \<times> host_spec) list"
  g_ensured :: "((string \<times> string) \<times> instant) list"
  g_rosters :: "(string \<times> instant \<times> string list) list"
  g_capabilities :: "(string \<times> string list) list"
  g_last_sweep :: instant

definition new_engine :: engine where
  "new_engine = \<lparr>g_cache = [], g_hosts = [], g_ensured = [], g_rosters = [], g_capabilities = [], g_last_sweep = 0\<rparr>"

definition max_attempts :: int where
  "max_attempts = 5"

definition backoff_base_s :: instant where
  "backoff_base_s = 5"

definition reprobe_interval_s :: instant where
  "reprobe_interval_s = 600"

definition sweep_interval_s :: instant where
  "sweep_interval_s = 3600"

definition cache_ttl_s :: instant where
  "cache_ttl_s = 300"

definition retention_s :: instant where
  "retention_s = 7 * 86400"

section \<open>The outbox\<close>

definition outbox_file :: "string \<Rightarrow> string \<Rightarrow> path" where
  "outbox_file sid mid = outbox_dir sid @ [json_name mid]"

definition outbox_tmp :: "string \<Rightarrow> string \<Rightarrow> path" where
  "outbox_tmp sid mid = outbox_dir sid @ [tmp_name mid]"

definition status_dir :: "string \<Rightarrow> string \<Rightarrow> path" where
  "status_dir sid mid = outbox_dir sid @ [''.status-'' @ mid]"

definition meta_file :: "string \<Rightarrow> string \<Rightarrow> path" where
  "meta_file sid mid = status_dir sid mid @ [''meta.json'']"

definition meta_tmp :: "string \<Rightarrow> string \<Rightarrow> path" where
  "meta_tmp sid mid = status_dir sid mid @ [''.tmp-meta.json'']"

definition dead_file :: "string \<Rightarrow> string \<Rightarrow> path" where
  "dead_file sid mid = dead_letter_dir sid @ [json_name mid]"

definition dead_status_dir :: "string \<Rightarrow> string \<Rightarrow> path" where
  "dead_status_dir sid mid = dead_letter_dir sid @ [''.status-'' @ mid]"

definition dead_reason_file :: "string \<Rightarrow> string \<Rightarrow> path" where
  "dead_reason_file sid mid = dead_letter_dir sid @ [''.dead-letter-reason-'' @ mid]"

definition write_outbox :: "instant \<Rightarrow> string \<Rightarrow> string \<Rightarrow> dict \<Rightarrow> fs \<Rightarrow> fs" where
  "write_outbox now sid mid env s =
     (let s1 = mkdirs (outbox_dir sid) s in
      if exists_at s1 (outbox_file sid mid) then s1
      else atomic_write now (outbox_tmp sid mid) (outbox_file sid mid) (JObj env) s1)"

definition stamp_outbox_target_host :: "instant \<Rightarrow> string \<Rightarrow> string \<Rightarrow> fs \<Rightarrow> fs" where
  "stamp_outbox_target_host now sid mid s = (case load_at s (outbox_file sid mid) of
       Loaded (JObj entry) \<Rightarrow>
         if truthy (dget_or entry ''_target_host'' JNull) then s
         else atomic_write now (outbox_tmp sid mid) (outbox_file sid mid)
           (JObj (dset entry ''_target_host'' (JStr ''__local__''))) s
     | _ \<Rightarrow> s)"

definition mark_delivered :: "instant \<Rightarrow> string \<Rightarrow> string \<Rightarrow> fs \<Rightarrow> fs" where
  "mark_delivered now sid mid s =
     write_doc now (delivered_marker sid mid) (JObj [(''delivered_at'', JStr (iso_format now))])
       (mkdirs (outbox_dir sid) s)"

definition write_delivery_status :: "instant \<Rightarrow> string \<Rightarrow> string \<Rightarrow> string \<Rightarrow> string \<Rightarrow> fs \<Rightarrow> fs" where
  "write_delivery_status now sid mid kd detail s =
     (let d = status_dir sid mid in
      write_text now (d @ [''timestamp'']) (iso_format now)
        (write_text now (d @ [''kind'']) kd
          (write_text now (d @ [''phase'']) detail (mkdir_one d (mkdirs (outbox_dir sid) s)))))"

section \<open>Idempotency\<close>

definition delivered_of :: "string \<Rightarrow> send_receipt" where
  "delivered_of mid = \<lparr>rp_status = ''delivered'', rp_msg_id = mid, rp_queued = False, rp_error = None\<rparr>"

definition accepted_of :: "string \<Rightarrow> send_receipt" where
  "accepted_of mid = \<lparr>rp_status = ''accepted'', rp_msg_id = mid, rp_queued = True, rp_error = None\<rparr>"

definition failed_of :: "store_error \<Rightarrow> send_receipt" where
  "failed_of e = \<lparr>rp_status = ''failed'', rp_msg_id = [], rp_queued = False, rp_error = Some e\<rparr>"

definition cache_receipt :: "string \<Rightarrow> send_receipt \<Rightarrow> engine \<Rightarrow> engine" where
  "cache_receipt mid r g = g\<lparr>g_cache := AList.update mid r (g_cache g)\<rparr>"

definition check_idempotency :: "string \<Rightarrow> string \<Rightarrow> engine \<Rightarrow> fs \<Rightarrow> send_receipt option \<times> engine" where
  "check_idempotency sid mid g s = (case map_of (g_cache g) mid of
       Some r \<Rightarrow> (Some r, g)
     | None \<Rightarrow>
         if \<not> exists_at s (outbox_file sid mid) then (None, g)
         else (let r = (if exists_at s (delivered_marker sid mid) then delivered_of mid else accepted_of mid) in
               (Some r, cache_receipt mid r g)))"

section \<open>Sending to a remote host\<close>

definition invalidate_ensured :: "string \<Rightarrow> engine \<Rightarrow> engine" where
  "invalidate_ensured sid g = g\<lparr>g_ensured := filter (\<lambda>((x, _), _). x \<noteq> sid) (g_ensured g)\<rparr>"

definition cache_host :: "string \<Rightarrow> host_spec \<Rightarrow> engine \<Rightarrow> engine" where
  "cache_host aid h g = g\<lparr>g_hosts := AList.update aid h (g_hosts g)\<rparr>"

text \<open>A changed roster makes the next delivery initialise the remote session again.\<close>

definition cache_roster :: "instant \<Rightarrow> string \<Rightarrow> string list \<Rightarrow> engine \<Rightarrow> engine" where
  "cache_roster now sid roster g =
     (let new = sorted_set roster;
          g1 = (case map_of (g_rosters g) sid of
              Some (_, old) \<Rightarrow> if old \<noteq> new then invalidate_ensured sid g else g
            | None \<Rightarrow> g) in
      g1\<lparr>g_rosters := AList.update sid (now, new) (g_rosters g1)\<rparr>)"

text \<open>The name under which capabilities and sessions of a host are cached.\<close>

definition host_key :: "host_spec \<Rightarrow> string" where
  "host_key h = (if hs_ssh_alias h \<noteq> [] then hs_ssh_alias h else hs_name h)"

definition check_capability :: "delivery_env \<Rightarrow> host_spec \<Rightarrow> engine \<Rightarrow> (string + unit) \<times> engine" where
  "check_capability ev h g =
     (if \<not> ev_router ev \<or> host_key h = [] then (Inr (), g)
      else
        (let lacks = ''host transport lacks 'mailbox' capability'';
             verdict = (\<lambda>caps. if ''mailbox'' \<in> set caps then Inr () else Inl lacks) in
         case map_of (g_capabilities g) (host_key h) of
           Some caps \<Rightarrow> (verdict caps, g)
         | None \<Rightarrow> (case ev_capabilities ev h of
               None \<Rightarrow> (Inl ''cannot verify 'mailbox' capability'', g)
             | Some caps \<Rightarrow> (verdict caps, g\<lparr>g_capabilities := AList.update (host_key h) caps (g_capabilities g)\<rparr>))))"

definition local_session_acl :: "string \<Rightarrow> fs \<Rightarrow> json option" where
  "local_session_acl sid s = (case read_session sid s of
       Inr (Some (JObj meta)) \<Rightarrow> (case dget_or meta ''acl'' JNull of JNull \<Rightarrow> None | j \<Rightarrow> Some j)
     | _ \<Rightarrow> None)"

text \<open>\<open>",".join(...)\<close>\<close>

fun comma_join :: "string list \<Rightarrow> string" where
  "comma_join [] = []"
| "comma_join [x] = x"
| "comma_join (x # xs) = x @ '','' @ comma_join xs"

definition init_args :: "string \<Rightarrow> string \<Rightarrow> string list \<Rightarrow> json option \<Rightarrow> args" where
  "init_args sid mgr roster a =
     [Word ''session-init'', Word ''--session'', Word sid, Word ''--manager'', Word mgr, Word ''--agents'',
      Word (comma_join (sorted_set roster))] @
     (case a of None \<Rightarrow> [] | Some j \<Rightarrow> [Word ''--acl'', JsonText j])"

definition ensure_remote_session ::
  "delivery_env \<Rightarrow> string \<Rightarrow> host_spec \<Rightarrow> string \<Rightarrow> string list \<Rightarrow> (args \<Rightarrow> nat \<times> string) \<Rightarrow> engine \<Rightarrow> fs \<Rightarrow>
   (string + unit) \<times> engine" where
  "ensure_remote_session ev sid h mgr roster mailbox g s =
     (let key = (sid, host_key h) in
      if (case map_of (g_ensured g) key of None \<Rightarrow> False | Some t \<Rightarrow> ev_now ev - t < cache_ttl_s) then (Inr (), g)
      else (case mailbox (init_args sid mgr roster (local_session_acl sid s)) of
          (rc, txt) \<Rightarrow>
            if rc \<noteq> 0 \<and> \<not> sublist ''already exists'' txt
            then (Inl (''remote session-init failed (exit '' @ digits rc @ ''): '' @ txt), g)
            else (Inr (), g\<lparr>g_ensured := AList.update key (ev_now ev) (g_ensured g)\<rparr>)))"

text \<open>
  The roster and manager the remote session gets: the cached roster while it is fresh, else the one
  of the session file, which is then cached, else sender and recipient.
\<close>

definition stored_roster ::
  "delivery_env \<Rightarrow> string \<Rightarrow> string \<Rightarrow> string \<times> string list \<times> engine \<Rightarrow> engine \<Rightarrow> fs \<Rightarrow>
   string \<times> string list \<times> engine" where
  "stored_roster ev sid sender degraded g s = (case read_session sid s of
       Inr (Some (JObj meta)) \<Rightarrow> (case meta_agents meta of
           Some (a # as) \<Rightarrow>
             (let roster = sorted_set (a # as); mgr = (case meta_manager meta of Some m \<Rightarrow> m | None \<Rightarrow> []) in
              (if mgr = [] then sender else mgr, roster,
               g\<lparr>g_rosters := AList.update sid (ev_now ev, roster) (g_rosters g)\<rparr>))
         | _ \<Rightarrow> degraded)
     | _ \<Rightarrow> degraded)"

definition remote_roster ::
  "delivery_env \<Rightarrow> string \<Rightarrow> dict \<Rightarrow> engine \<Rightarrow> fs \<Rightarrow> string \<times> string list \<times> engine" where
  "remote_roster ev sid env g s =
     (let sender = sget env ''from''; degraded = (sender, sorted_set [sender, sget env ''to''], g) in
      case map_of (g_rosters g) sid of
        Some (t, roster) \<Rightarrow>
          if ev_now ev - t < cache_ttl_s then (sender, roster, g)
          else stored_roster ev sid sender degraded g s
      | None \<Rightarrow> stored_roster ev sid sender degraded g s)"

definition remote_send :: "delivery_env \<Rightarrow> host_spec \<Rightarrow> dict \<Rightarrow> engine \<Rightarrow> fs \<Rightarrow> (string + unit) \<times> engine" where
  "remote_send ev h env g s = (case ev_transport ev h of
       None \<Rightarrow> (Inl ''no transport for host'', g)
     | Some mailbox \<Rightarrow> (case check_capability ev h g of
           (Inl e, g1) \<Rightarrow> (Inl e, g1)
         | (Inr _, g1) \<Rightarrow>
             (let sid = sget env ''session_id''; (mgr, roster, g2) = remote_roster ev sid env g1 s in
              case ensure_remote_session ev sid h mgr roster mailbox g2 s of
                (Inl e, g3) \<Rightarrow> (Inl e, g3)
              | (Inr _, g3) \<Rightarrow> (case mailbox (build_mailbox_args env) of
                    (rc, txt) \<Rightarrow>
                      if rc \<noteq> 0
                      then (Inl (''remote mailbox send failed (exit '' @ digits rc @ ''): '' @ txt), g3)
                      else (Inr (), g3)))))"

section \<open>Delivering\<close>

definition local_send :: "delivery_env \<Rightarrow> dict \<Rightarrow> fs \<Rightarrow> (string + unit) \<times> fs" where
  "local_send ev env s = (case cli_send (ev_diag ev) (ev_now ev) (build_mailbox_args env) s of
       ((rc, txt), s') \<Rightarrow>
         (if rc \<noteq> 0 then Inl (''local mailbox send failed (exit '' @ digits rc @ ''): '' @ txt) else Inr (), s'))"

text \<open>The record the history gets of a remote message; \<^term>\<open>None\<close> when a field is missing.\<close>

definition history_entry :: "dict \<Rightarrow> string \<Rightarrow> dict option" where
  "history_entry env mid =
     (case message_from_dict (dset (dset env ''msg_id'' (JStr mid)) ''protocol_version''
         (dget_or env ''protocol_version'' (JInt PROTOCOL_VERSION))) of
        Inl _ \<Rightarrow> None
      | Inr m \<Rightarrow> Some (message_to_dict m))"

text \<open>Errors of the history are logged and change nothing.\<close>

definition record_history :: "instant \<Rightarrow> string \<Rightarrow> dict \<Rightarrow> string \<Rightarrow> fs \<Rightarrow> fs" where
  "record_history now sid env mid s = (case history_entry env mid of
       None \<Rightarrow> s
     | Some d \<Rightarrow> snd (append_history now sid d s))"

text \<open>
  \<open>deliver\<close>. The target is a host, or none for an agent name; a local one is recorded in the entry,
  so that \<open>flush\<close> can send it again. Message and session ids are single path components here.
\<close>

definition target_here :: "delivery_env \<Rightarrow> host_spec option \<Rightarrow> bool" where
  "target_here ev target = (case target of None \<Rightarrow> True
     | Some h \<Rightarrow> hs_ssh_alias h = [] \<or> resolve_is_local (ev_hostname ev) h)"

definition stamped_env :: "delivery_env \<Rightarrow> host_spec option \<Rightarrow> dict \<Rightarrow> dict" where
  "stamped_env ev target env = (if target_here ev target \<and> \<not> has_key env ''_target_host''
     then dset env ''_target_host'' (JStr ''__local__'') else env)"

text \<open>A message that is not known yet: first the outbox, then the transport.\<close>

definition deliver_new ::
  "delivery_env \<Rightarrow> host_spec option \<Rightarrow> string \<Rightarrow> string \<Rightarrow> dict \<Rightarrow> engine \<Rightarrow> fs \<Rightarrow> send_receipt \<times> engine \<times> fs" where
  "deliver_new ev target sid mid env g s =
     (let now = ev_now ev; s1 = write_outbox now sid mid env s; g2 = cache_receipt mid (accepted_of mid) g in
      if target_here ev target then
        (case local_send ev env s1 of
           (Inl e, s2) \<Rightarrow> (accepted_of mid, g2, stamp_outbox_target_host now sid mid
               (write_delivery_status now sid mid ''local_delivery_failed'' e s2))
         | (Inr _, s2) \<Rightarrow> (delivered_of mid, cache_receipt mid (delivered_of mid) g2, mark_delivered now sid mid s2))
      else
        (case remote_send ev (the target) env g2 s1 of
           (Inl e, g3) \<Rightarrow> (accepted_of mid, g3, write_delivery_status now sid mid ''transport_failed'' e s1)
         | (Inr _, g3) \<Rightarrow> (delivered_of mid, cache_receipt mid (delivered_of mid) g3,
             record_history now sid env mid (mark_delivered now sid mid s1))))"

definition deliver ::
  "delivery_env \<Rightarrow> string \<Rightarrow> host_spec option \<Rightarrow> dict \<Rightarrow> engine \<Rightarrow> fs \<Rightarrow> send_receipt \<times> engine \<times> fs" where
  "deliver ev session target env0 g s =
     (let mid = sget env0 ''msg_id''; sid = sget_or env0 ''session_id'' session; env = stamped_env ev target env0 in
      if mid = [] then (failed_of (BadMsgId []), g, s)
      else (case check_idempotency sid mid g s of
          (Some r, g1) \<Rightarrow> (r, g1, if dget env ''_target_host'' = Some (JStr ''__local__'')
             then stamp_outbox_target_host (ev_now ev) sid mid s else s)
        | (None, g1) \<Rightarrow>
            if \<not> ev_disk_ok ev then (failed_of PyOSError, cache_receipt mid (failed_of PyOSError) g1, s)
            else deliver_new ev target sid mid env g1 s))"

section \<open>The sink of the kernel\<close>

text \<open>\<open>deliver_sink\<close>: the envelope as a dictionary; the host is looked up under the agent.\<close>

definition envelope_dict :: "string \<Rightarrow> string \<Rightarrow> envelope \<Rightarrow> string \<Rightarrow> string \<Rightarrow> string \<Rightarrow> dict" where
  "envelope_dict sid rcpt e mid created sender =
     [(''session_id'', JStr sid), (''from'', JStr sender), (''to'', JStr rcpt), (''subject'', JStr (en_subject e)),
      (''body'', JStr (en_body e)), (''kind'', JStr (en_kind e)), (''reply_to'', JStr (en_reply_to e)),
      (''run_id'', JStr (en_run_id e)), (''request_id'', JStr (en_request_id e)),
      (''trace_id'', JStr (en_trace_id e)), (''causation_id'', JStr (en_causation_id e)),
      (''require_ack'', JBool (en_require_ack e)), (''receipt_type'', JStr (en_receipt_type e)),
      (''msg_id'', JStr mid), (''created_at'', JStr created), (''_target_agent'', JStr rcpt)] @
     (if en_attachments e = [] then []
      else [(''attachments'', JArr (map (\<lambda>a. JObj (attachment_to_dict a)) (en_attachments e)))])"

definition deliver_sink :: "delivery_env \<Rightarrow> (engine \<times> fs) delivery_sink" where
  "deliver_sink ev sid rcpt e mid created sender gs =
     (let (g, s) = gs; d = envelope_dict sid rcpt e mid created sender;
          (r, gs') = (case map_of (g_hosts g) rcpt of
              Some h \<Rightarrow> deliver ev sid (Some h) (dset d ''_target_host'' (JStr (hs_ssh_alias h))) g s
            | None \<Rightarrow> deliver ev sid None d g s) in
      (Inr r, gs'))"

text \<open>
  \<open>EngineDeliverySink.deliver\<close>: the host of a registered agent is cached first, unless the agent is
  on this machine.
\<close>

definition engine_sink :: "delivery_env \<Rightarrow> kernel \<Rightarrow> (engine \<times> fs) delivery_sink" where
  "engine_sink ev k sid rcpt e mid created sender gs =
     (let g = fst gs;
          g1 = (case get_location sid rcpt k of
              None \<Rightarrow> g
            | Some loc \<Rightarrow>
                if al_host_alias loc = [] \<or> al_host_alias loc = ''__local__'' then g
                else (case map_of (ev_repo_map ev) (al_host_alias loc) of
                    Some spec \<Rightarrow> if resolve_is_local (ev_hostname ev) spec then g
                      else cache_host rcpt (copied_host spec) g
                  | None \<Rightarrow> cache_host rcpt (plain_host (al_host_alias loc) [al_host_alias loc]) g)) in
      deliver_sink ev sid rcpt e mid created sender (g1, snd gs))"

section \<open>Attempts and dead letters\<close>

definition terminal_markers :: "string list" where
  "terminal_markers = [''not in roster'', ''not in channel'', ''lacks 'mailbox' capability'', ''different payload'',
     ''invalid kind'', ''body exceeds'', ''invalid attachment'', ''sender not in allowed_senders'',
     ''wire version mismatch'']"

definition is_terminal_error :: "string \<Rightarrow> bool" where
  "is_terminal_error txt \<longleftrightarrow>
     sublist ''mailbox send failed (exit 2)'' txt \<or> list_ex (\<lambda>m. sublist m txt) terminal_markers"

text \<open>The metadata of an entry; an unreadable file counts as empty.\<close>

definition load_entry_meta :: "string \<Rightarrow> string \<Rightarrow> fs \<Rightarrow> dict" where
  "load_entry_meta sid mid s = (case load_at s (meta_file sid mid) of Loaded (JObj m) \<Rightarrow> m | _ \<Rightarrow> [])"

definition attempt_count :: "dict \<Rightarrow> int" where
  "attempt_count meta = (case py_int (dget_or meta ''attempt_count'' (JInt 0)) of Some n \<Rightarrow> n | None \<Rightarrow> 0)"

definition json_number :: "json \<Rightarrow> instant option" where
  "json_number j = (case j of JInt i \<Rightarrow> Some (of_int i) | JFloat r \<Rightarrow> Some r | _ \<Rightarrow> None)"

definition attempt_meta :: "instant \<Rightarrow> string \<Rightarrow> bool \<Rightarrow> dict \<Rightarrow> dict" where
  "attempt_meta now err terminal meta =
     (let n = attempt_count meta + 1;
          m1 = dset meta ''attempt_count'' (JInt n);
          m2 = (if has_key m1 ''first_accepted_at'' then m1
                else dset m1 ''first_accepted_at'' (JStr (iso_format now)));
          m3 = dset (dset (dset m2 ''last_attempt_at'' (JStr (iso_format now)))
                 ''last_error'' (JStr (take 500 err))) ''terminal'' (JBool terminal) in
      if terminal then m3
      else dset m3 ''next_attempt_at'' (JFloat (now + backoff_base_s * 2 ^ nat (n - 1))))"

definition save_meta :: "instant \<Rightarrow> string \<Rightarrow> string \<Rightarrow> dict \<Rightarrow> fs \<Rightarrow> fs" where
  "save_meta now sid mid meta s = atomic_write now (meta_tmp sid mid) (meta_file sid mid) (JObj meta) s"

definition record_attempt :: "instant \<Rightarrow> string \<Rightarrow> string \<Rightarrow> string \<Rightarrow> bool \<Rightarrow> fs \<Rightarrow> int \<times> fs" where
  "record_attempt now sid mid err terminal s =
     (let s1 = mkdirs (status_dir sid mid) s; meta = load_entry_meta sid mid s1 in
      (attempt_count meta + 1, save_meta now sid mid (attempt_meta now err terminal meta) s1))"

text \<open>\<open>shutil.move\<close> of a directory: into the destination when that is a directory already.\<close>

definition move_dir :: "path \<Rightarrow> path \<Rightarrow> fs \<Rightarrow> fs" where
  "move_dir src dst s =
     (let d = (if is_dir_at s dst then dst @ [last src] else dst) in
      map (\<lambda>(p, n). (if prefix src p then d @ drop (length src) p else p, n)) s)"

definition dead_letter :: "instant \<Rightarrow> string \<Rightarrow> string \<Rightarrow> string \<Rightarrow> fs \<Rightarrow> fs" where
  "dead_letter now sid mid reason s =
     (let s1 = mkdirs (dead_letter_dir sid) s in
      case os_replace (outbox_file sid mid) (dead_file sid mid) s1 of
        None \<Rightarrow> s1
      | Some s2 \<Rightarrow>
          (let s3 = (if exists_at s2 (status_dir sid mid)
                     then move_dir (status_dir sid mid) (dead_status_dir sid mid) s2 else s2) in
           write_text now (dead_reason_file sid mid) reason s3))"

record dead_entry =
  de_session :: string
  de_msg_id :: string
  de_to :: json
  de_subject :: json
  de_reason :: string

definition session_dirs :: "path \<Rightarrow> string option \<Rightarrow> fs \<Rightarrow> string list" where
  "session_dirs base sid s = (case sid of
       Some x \<Rightarrow> [x]
     | None \<Rightarrow> sort (filter (\<lambda>n. is_dir_at s (base @ [n])) (children s base)))"

definition json_names :: "path \<Rightarrow> fs \<Rightarrow> string list" where
  "json_names d s = (if is_dir_at s d then sort (filter (glob_match [] dot_json) (children s d)) else [])"

definition dead_letter_list :: "string option \<Rightarrow> fs \<Rightarrow> dead_entry list" where
  "dead_letter_list sid s = concat (map (\<lambda>x. map (\<lambda>n.
       (let mid = stem n;
            env = (case load_at s (dead_letter_dir x @ [n]) of Loaded (JObj d) \<Rightarrow> d | _ \<Rightarrow> []) in
        \<lparr>de_session = x, de_msg_id = mid, de_to = dget_or env ''to'' (JStr []),
         de_subject = dget_or env ''subject'' (JStr []),
         de_reason = (case node_at s (dead_reason_file x mid) of Some (File (Text t) _) \<Rightarrow> t | _ \<Rightarrow> [])\<rparr>))
       (json_names (dead_letter_dir x) s)) (session_dirs [''_dead_letter''] sid s))"

definition dead_letter_requeue :: "instant \<Rightarrow> string \<Rightarrow> string \<Rightarrow> fs \<Rightarrow> bool \<times> fs" where
  "dead_letter_requeue now sid mid s =
     (if \<not> exists_at s (dead_file sid mid) then (False, s)
      else case os_replace (dead_file sid mid) (outbox_file sid mid) (mkdirs (outbox_dir sid) s) of
        None \<Rightarrow> (False, s)
      | Some s1 \<Rightarrow>
          (let s2 = mkdir_one (status_dir sid mid)
                 (unlink (dead_reason_file sid mid) (rmtree (dead_status_dir sid mid) s1));
               meta = dset (dset (load_entry_meta sid mid s2) ''attempt_count'' (JInt 0)) ''terminal'' (JBool False) in
           (True, write_doc now (meta_file sid mid) (JObj (AList.delete ''next_attempt_at'' meta)) s2)))"

definition dead_letter_purge :: "string option \<Rightarrow> fs \<Rightarrow> nat \<times> fs" where
  "dead_letter_purge sid s =
     (let victims = concat (map (\<lambda>x. if is_dir_at s (dead_letter_dir x)
           then map (\<lambda>n. dead_letter_dir x @ [n]) (children s (dead_letter_dir x)) else [])
         (session_dirs [''_dead_letter''] sid s)) in
      (length victims, fold rmtree victims s))"

section \<open>Retrying\<close>

definition attempt_due :: "instant \<Rightarrow> string \<Rightarrow> string \<Rightarrow> fs \<Rightarrow> bool" where
  "attempt_due now sid mid s =
     (let meta = load_entry_meta sid mid s in
      \<not> truthy (dget_or meta ''terminal'' JNull) \<and>
      (case json_number (dget_or meta ''next_attempt_at'' JNull) of None \<Rightarrow> True | Some t \<Rightarrow> t \<le> now))"

definition is_paused :: "string \<Rightarrow> string \<Rightarrow> fs \<Rightarrow> bool" where
  "is_paused sid mid s = truthy (dget_or (load_entry_meta sid mid s) ''paused_for_upgrade'' JNull)"

definition pause_for_upgrade :: "instant \<Rightarrow> string \<Rightarrow> string \<Rightarrow> string \<Rightarrow> fs \<Rightarrow> fs" where
  "pause_for_upgrade now sid mid reason s =
     (let s1 = mkdirs (status_dir sid mid) s; meta = load_entry_meta sid mid s1 in
      save_meta now sid mid
        (dset (dset (dset (dset (dset meta ''paused_for_upgrade'' (JBool True)) ''pause_reason'' (JStr (take 300 reason)))
           ''paused_at'' (JStr (iso_format now))) ''next_reprobe_at'' (JFloat (now + reprobe_interval_s)))
           ''terminal'' (JBool False)) s1)"

definition reprobe_paused :: "instant \<Rightarrow> string \<Rightarrow> string \<Rightarrow> fs \<Rightarrow> bool \<times> fs" where
  "reprobe_paused now sid mid s =
     (let meta = load_entry_meta sid mid s in
      if \<not> is_paused sid mid s then (False, s)
      else if (case json_number (dget_or meta ''next_reprobe_at'' JNull) of None \<Rightarrow> False | Some t \<Rightarrow> now < t) then (False, s)
      else (True, save_meta now sid mid (AList.delete ''next_reprobe_at'' (AList.delete ''paused_at''
          (AList.delete ''pause_reason'' (dset meta ''paused_for_upgrade'' (JBool False))))) s))"

definition handle_flush_failure :: "instant \<Rightarrow> string \<Rightarrow> string \<Rightarrow> string \<Rightarrow> fs \<Rightarrow> fs" where
  "handle_flush_failure now sid mid err s =
     (let terminal = is_terminal_error err in
      if terminal \<and> sublist ''wire version mismatch'' err then pause_for_upgrade now sid mid err s
      else (case record_attempt now sid mid err terminal s of
          (n, s1) \<Rightarrow>
            if terminal then dead_letter now sid mid (take 300 (''terminal: '' @ err)) s1
            else if max_attempts \<le> n
            then dead_letter now sid mid (take 300 (''max attempts (5) exceeded: '' @ err)) s1
            else s1))"

definition resolve_target :: "delivery_env \<Rightarrow> engine \<Rightarrow> string \<Rightarrow> host_spec" where
  "resolve_target ev g host = (case map_of (g_hosts g) host of
       Some h \<Rightarrow> h
     | None \<Rightarrow> (case map_of (ev_repo_map ev) host of
           Some h \<Rightarrow> copied_host h
         | None \<Rightarrow> plain_host host []))"

definition consumed :: "string \<Rightarrow> string \<Rightarrow> fs \<Rightarrow> bool" where
  "consumed sid mid s = (case node_at s (status_dir sid mid @ [''phase'']) of
       Some (File (Text t) _) \<Rightarrow> strip t = ''consumed'' | _ \<Rightarrow> False)"

text \<open>One entry of \<open>flush\<close>; the answer tells whether it was delivered by this call.\<close>

definition flush_send :: "delivery_env \<Rightarrow> string \<Rightarrow> string \<Rightarrow> dict \<Rightarrow> engine \<Rightarrow> fs \<Rightarrow> bool \<times> engine \<times> fs" where
  "flush_send ev sid mid env g s =
     (let now = ev_now ev; host = sget env ''_target_host''; target = resolve_target ev g host in
      if host = ''__local__'' \<or> resolve_is_local (ev_hostname ev) target then
        (case local_send ev (dset env ''msg_id'' (JStr mid)) s of
           (Inl e, s1) \<Rightarrow> (False, g, handle_flush_failure now sid mid e s1)
         | (Inr _, s1) \<Rightarrow>
             (let s2 = mark_delivered now sid mid s1 in
              (True, cache_receipt mid (delivered_of mid) g,
               if exists_at s2 (history_file sid mid) then s2 else record_history now sid env mid s2)))
      else
        (case remote_send ev target env g s of
           (Inl e, g1) \<Rightarrow> (False, g1, handle_flush_failure now sid mid e s)
         | (Inr _, g1) \<Rightarrow> (True, cache_receipt mid (delivered_of mid) g1,
             record_history now sid env mid (mark_delivered now sid mid s))))"

definition flush_entry :: "delivery_env \<Rightarrow> string \<Rightarrow> string \<Rightarrow> engine \<Rightarrow> fs \<Rightarrow> bool \<times> engine \<times> fs" where
  "flush_entry ev sid name g s =
     (let mid = stem name; now = ev_now ev in
      if exists_at s (delivered_marker sid mid) \<or> consumed sid mid s then (False, g, s)
      else
        (let s1 = (if is_paused sid mid s then snd (reprobe_paused now sid mid s) else s) in
         if is_paused sid mid s1 \<or> \<not> attempt_due now sid mid s1 then (False, g, s1)
         else (case load_at s1 (outbox_dir sid @ [name]) of
             Loaded (JObj env) \<Rightarrow> if sget env ''_target_host'' = [] then (False, g, s1) else flush_send ev sid mid env g s1
           | _ \<Rightarrow> (False, g, s1))))"

fun flush_entries :: "delivery_env \<Rightarrow> string \<Rightarrow> string list \<Rightarrow> engine \<Rightarrow> fs \<Rightarrow> nat \<times> engine \<times> fs" where
  "flush_entries ev sid [] g s = (0, g, s)"
| "flush_entries ev sid (n # ns) g s =
     (let (d, g1, s1) = flush_entry ev sid n g s; (k, g2, s2) = flush_entries ev sid ns g1 s1 in
      ((if d then Suc k else k), g2, s2))"

fun flush_sessions :: "delivery_env \<Rightarrow> string list \<Rightarrow> engine \<Rightarrow> fs \<Rightarrow> nat \<times> engine \<times> fs" where
  "flush_sessions ev [] g s = (0, g, s)"
| "flush_sessions ev (sid # sids) g s =
     (let (j, g1, s1) = flush_entries ev sid (json_names (outbox_dir sid) s) g s;
          (k, g2, s2) = flush_sessions ev sids g1 s1 in (j + k, g2, s2))"

definition list_sessions :: "fs \<Rightarrow> string list" where
  "list_sessions s = sort (filter (\<lambda>n. is_dir_at s [''_outbox'', n] \<and> \<not> prefix ''.'' n) (children s [''_outbox'']))"

section \<open>Retention\<close>

text \<open>
  \<open>sweep\<close>. A directory has no modification time in the model of the tree; \<open>dir_mtime\<close> gives it.
  The glob of a session is read before the loop; the answer is the number of removals.
\<close>

definition sweep_marker :: "instant \<Rightarrow> string \<Rightarrow> string \<Rightarrow> fs \<Rightarrow> fs" where
  "sweep_marker cutoff sid name s =
     (let m = outbox_dir sid @ [name]; mid = drop (length ''.delivered-'') name in
      if \<not> exists_at s m \<or> cutoff \<le> mtime_at s m then s
      else unlink (outbox_file sid mid) (unlink m s))"

definition sweep_status :: "(path \<Rightarrow> instant) \<Rightarrow> instant \<Rightarrow> string \<Rightarrow> string \<Rightarrow> fs \<Rightarrow> fs" where
  "sweep_status dir_mtime cutoff sid name s =
     (let d = outbox_dir sid @ [name]; meta = d @ [''meta.json''];
          age = (if exists_at s meta then max (dir_mtime d) (mtime_at s meta) else dir_mtime d) in
      if age < cutoff then rmtree d s else s)"

definition sweep_session :: "(path \<Rightarrow> instant) \<Rightarrow> instant \<Rightarrow> string \<Rightarrow> fs \<Rightarrow> fs" where
  "sweep_session dir_mtime cutoff sid s =
     (let s1 = fold (sweep_marker cutoff sid) (filter (prefix ''.delivered-'') (children s (outbox_dir sid))) s;
          s2 = fold (sweep_status dir_mtime cutoff sid) (filter (prefix ''.status-'') (children s1 (outbox_dir sid))) s1 in
      if children s2 (outbox_dir sid) = [] then del_node (outbox_dir sid) s2 else s2)"

definition sweep :: "(path \<Rightarrow> instant) \<Rightarrow> instant \<Rightarrow> instant \<Rightarrow> fs \<Rightarrow> fs" where
  "sweep dir_mtime now keep s = fold (sweep_session dir_mtime (now - keep)) (list_sessions s) s"

definition sweep_ttl_lazy :: "(path \<Rightarrow> instant) \<Rightarrow> instant \<Rightarrow> engine \<Rightarrow> fs \<Rightarrow> engine \<times> fs" where
  "sweep_ttl_lazy dir_mtime now g s =
     (if now - g_last_sweep g < sweep_interval_s then (g, s)
      else (g\<lparr>g_last_sweep := now\<rparr>, sweep dir_mtime now retention_s s))"

definition flush :: "(path \<Rightarrow> instant) \<Rightarrow> delivery_env \<Rightarrow> string option \<Rightarrow> engine \<Rightarrow> fs \<Rightarrow> nat \<times> engine \<times> fs" where
  "flush dir_mtime ev session g s =
     (let (g1, s1) = sweep_ttl_lazy dir_mtime (ev_now ev) g s in
      flush_sessions ev (case session of Some x \<Rightarrow> [x] | None \<Rightarrow> list_sessions s1) g1 s1)"

section \<open>Inspection and acknowledgement\<close>

definition pending_names :: "string \<Rightarrow> fs \<Rightarrow> string list" where
  "pending_names sid s = filter (\<lambda>n. \<not> exists_at s (delivered_marker sid (stem n))) (json_names (outbox_dir sid) s)"

definition pending :: "string option \<Rightarrow> fs \<Rightarrow> json list" where
  "pending session s = concat (map (\<lambda>sid. concat (map (\<lambda>n.
       (case load_at s (outbox_dir sid @ [n]) of Loaded j \<Rightarrow> [j] | _ \<Rightarrow> [])) (pending_names sid s)))
     (case session of Some x \<Rightarrow> [x] | None \<Rightarrow> list_sessions s))"

definition outbox_stats :: "string option \<Rightarrow> fs \<Rightarrow> nat \<times> nat" where
  "outbox_stats session s =
     (length (pending session s),
      sum_list (map (\<lambda>sid. if is_dir_at s (outbox_dir sid)
          then length (filter (prefix ''.delivered-'') (children s (outbox_dir sid))) else 0)
        (case session of Some x \<Rightarrow> [x] | None \<Rightarrow> list_sessions s)))"

definition valid_outbox_id :: "string \<Rightarrow> bool" where
  "valid_outbox_id mid \<longleftrightarrow> mid \<noteq> [] \<and> CHR ''/'' \<notin> set mid \<and> CHR 0x5C \<notin> set mid \<and> \<not> sublist ''..'' mid"

definition engine_ack ::
  "instant \<Rightarrow> string \<Rightarrow> string \<Rightarrow> string \<Rightarrow> engine \<Rightarrow> fs \<Rightarrow> (store_error + unit) \<times> engine \<times> fs" where
  "engine_ack now sid mid phase g s =
     (if \<not> valid_outbox_id mid \<or> \<not> exists_at s (outbox_file sid mid) then (Inl (BadMsgId mid), g, s)
      else (Inr (), if phase = ''consumed'' then cache_receipt mid (delivered_of mid) g else g,
        write_delivery_status now sid mid ''ack'' phase s))"

end
