(* ===== verification/Outbox_Durability.thy ===== *)
theory Outbox_Durability
  imports Delivery_Engine
begin

text \<open>
  No message is lost on its way through the outbox: which files of the outbox and of the dead
  letters each operation of the delivery engine keeps, and what follows for whole runs.
\<close>

section \<open>The area of the engine\<close>

definition engine_area :: "path \<Rightarrow> bool" where
  "engine_area p \<longleftrightarrow> (\<exists>q. p = ''_outbox'' # q \<or> p = ''_dead_letter'' # q)"

definition area_kept :: "fs \<Rightarrow> fs \<Rightarrow> bool" where
  "area_kept s s' \<longleftrightarrow> (\<forall>p. engine_area p \<longrightarrow> node_at s' p = node_at s p)"

lemma area_kept_refl [simp, intro]: "area_kept s s"
  by (simp add: area_kept_def)

lemma area_kept_trans: "area_kept s s1 \<Longrightarrow> area_kept s1 s2 \<Longrightarrow> area_kept s s2"
  by (simp add: area_kept_def)

lemma area_kept_node: "area_kept s s' \<Longrightarrow> engine_area p \<Longrightarrow> node_at s' p = node_at s p"
  by (simp add: area_kept_def)

text \<open>A valid session id starts with a letter or a digit, so no session is the outbox.\<close>

lemma session_outside_area:
  assumes "check_session sid = None" "same_outside sid s s'"
  shows "area_kept s s'"
proof -
  have "check_session ''_outbox'' \<noteq> None" "check_session ''_dead_letter'' \<noteq> None" by code_simp+
  then have "sid \<noteq> ''_outbox''" "sid \<noteq> ''_dead_letter''" using assms(1) by metis+
  with assms(2) show ?thesis by (auto simp: area_kept_def engine_area_def dest: same_outsideD)
qed

lemma area_append_history: "area_kept s (snd (append_history now sid d s))"
proof (cases "check_session sid")
  case None
  then show ?thesis by (rule session_outside_area) (rule outside.append_history_kept)
qed (simp add: append_history_def)

lemma area_record_history: "area_kept s (record_history now sid env mid s)"
  by (auto simp: record_history_def area_append_history split: option.splits)

lemma area_send:
  assumes "send now sufs sid a s = Some (r, s')"
  shows "area_kept s s'"
proof (cases "check_session sid")
  case None
  then show ?thesis by (rule session_outside_area) (rule outside.send_kept [OF assms])
next
  case (Some e)
  with assms show ?thesis by (simp add: send_def send_checks_def)
qed

lemma area_service_send:
  assumes "service_send now suf sid a s = Some (r, s')"
  shows "area_kept s s'"
proof -
  obtain a' r' where "send now [] sid a' s = Some (r', s')"
    using assms by (auto simp: service_send_def Let_def split: option.splits prod.splits sum.splits)
  then show ?thesis by (rule area_send)
qed

lemma area_cli_send: "area_kept s (snd (cli_send diag now as s))"
  using area_service_send
  by (auto simp: cli_send_def Let_def split: list.splits arg.splits option.splits sum.splits prod.splits)

lemma area_local_send: "area_kept s (snd (local_send ev env s))"
  using area_cli_send [of s "ev_diag ev" "ev_now ev" "build_mailbox_args env"]
  by (auto simp: local_send_def split: prod.splits)

section \<open>Entries are kept\<close>

text \<open>Message ids that do not collide with the engine's own dot files.\<close>

definition plain_id :: "string \<Rightarrow> bool" where
  "plain_id mid \<longleftrightarrow> mid \<noteq> [] \<and> hd mid \<noteq> CHR ''.''"

definition secured :: "string \<Rightarrow> string \<Rightarrow> fs \<Rightarrow> bool" where
  "secured sid mid s \<longleftrightarrow> exists_at s (outbox_file sid mid) \<or> exists_at s (dead_file sid mid)"

definition files_kept :: "fs \<Rightarrow> fs \<Rightarrow> bool" where
  "files_kept s s' \<longleftrightarrow> (\<forall>sid mid. plain_id mid \<longrightarrow>
     (exists_at s (outbox_file sid mid) \<longrightarrow> exists_at s' (outbox_file sid mid)) \<and>
     (exists_at s (dead_file sid mid) \<longrightarrow> exists_at s' (dead_file sid mid)))"

definition entries_kept :: "fs \<Rightarrow> fs \<Rightarrow> bool" where
  "entries_kept s s' \<longleftrightarrow> (\<forall>sid mid. plain_id mid \<longrightarrow> secured sid mid s \<longrightarrow> secured sid mid s')"

lemma files_kept_refl [simp, intro]: "files_kept s s"
  by (simp add: files_kept_def)

lemma files_kept_trans: "files_kept s s1 \<Longrightarrow> files_kept s1 s2 \<Longrightarrow> files_kept s s2"
  by (simp add: files_kept_def)

lemma files_entries: "files_kept s s' \<Longrightarrow> entries_kept s s'"
  by (auto simp: files_kept_def entries_kept_def secured_def)

lemma entries_kept_refl [simp, intro]: "entries_kept s s"
  by (simp add: entries_kept_def)

lemma entries_kept_trans: "entries_kept s s1 \<Longrightarrow> entries_kept s1 s2 \<Longrightarrow> entries_kept s s2"
  by (simp add: entries_kept_def)

lemma files_keptI:
  "(\<And>p. exists_at s p \<Longrightarrow> \<exists>sid mid. plain_id mid \<and> (p = outbox_file sid mid \<or> p = dead_file sid mid) \<Longrightarrow> exists_at s' p) \<Longrightarrow>
   files_kept s s'"
  by (auto simp: files_kept_def)

lemmas engine_paths = outbox_file_def outbox_tmp_def dead_file_def dead_status_dir_def dead_reason_file_def
  status_dir_def meta_file_def meta_tmp_def delivered_marker_def outbox_dir_def dead_letter_dir_def

lemma plain_json [simp]:
  assumes "plain_id mid"
  shows "json_name mid \<noteq> CHR ''.'' # x" "CHR ''.'' # x \<noteq> json_name mid" "json_name mid \<noteq> tmp_name m'"
    "tmp_name m' \<noteq> json_name mid"
  using assms by (cases mid; auto simp: plain_id_def json_name_def tmp_name_def)+

lemma area_files_kept: "area_kept s s' \<Longrightarrow> files_kept s s'"
  by (rule files_keptI) (auto simp: area_kept_def exists_at_def engine_area_def engine_paths)

lemma files_kept_mkdirs: "files_kept s (mkdirs q s)"
  by (rule files_keptI) (auto simp: exists_at_def fs_simps)

lemma files_kept_mkdir_one: "files_kept s (mkdir_one q s)"
  by (rule files_keptI) (auto simp: exists_at_def node_at_mkdir_one)

lemma files_kept_write_doc: "files_kept s (write_doc t q j s)"
  by (rule files_keptI) (auto simp: exists_at_def fs_simps)

lemma files_kept_write_text: "files_kept s (write_text t q x s)"
  by (rule files_keptI) (auto simp: exists_at_def fs_simps)

lemma files_kept_outbox_write: "files_kept s (atomic_write t (outbox_tmp sid m) q j s)"
  by (rule files_keptI) (auto simp: exists_at_def fs_simps engine_paths)

lemma files_kept_save_meta: "files_kept s (save_meta t sid m meta s)"
  unfolding save_meta_def by (rule files_keptI) (auto simp: exists_at_def fs_simps engine_paths)

lemma files_kept_write_outbox: "files_kept s (write_outbox now sid mid env s)"
  using files_kept_trans [OF files_kept_mkdirs files_kept_outbox_write] files_kept_mkdirs
  by (simp add: write_outbox_def Let_def)

lemma files_kept_stamp: "files_kept s (stamp_outbox_target_host now sid mid s)"
  by (auto simp: stamp_outbox_target_host_def files_kept_outbox_write split: loaded.splits json.splits)

lemma files_kept_mark: "files_kept s (mark_delivered now sid mid s)"
  unfolding mark_delivered_def by (rule files_kept_trans [OF files_kept_mkdirs files_kept_write_doc])

lemma files_kept_status: "files_kept s (write_delivery_status now sid mid kd detail s)"
  unfolding write_delivery_status_def Let_def
  by (intro files_kept_trans [OF _ files_kept_write_text] files_kept_trans [OF files_kept_mkdirs files_kept_mkdir_one])

lemma files_kept_attempt: "files_kept s (snd (record_attempt now sid mid err b s))"
  by (simp add: record_attempt_def Let_def files_kept_trans [OF files_kept_mkdirs files_kept_save_meta])

lemma files_kept_pause: "files_kept s (pause_for_upgrade now sid mid r s)"
  by (simp add: pause_for_upgrade_def Let_def files_kept_trans [OF files_kept_mkdirs files_kept_save_meta])

lemma files_kept_reprobe: "files_kept s (snd (reprobe_paused now sid mid s))"
  by (simp add: reprobe_paused_def Let_def files_kept_save_meta)

lemma files_kept_history: "files_kept s (record_history now sid env mid s)"
  by (rule area_files_kept) (rule area_record_history)

lemma exists_move_dir: "exists_at s p \<Longrightarrow> \<not> prefix src p \<Longrightarrow> exists_at (move_dir src dst s) p"
  by (force simp: exists_at_def node_at_def move_dir_def Let_def map_of_eq_None_iff)

lemma files_kept_move_status: "files_kept s (move_dir (status_dir sid mid) dst s)"
  by (rule files_keptI, rule exists_move_dir) (auto simp: engine_paths prefix_Cons)

lemma entries_kept_dead_letter: "entries_kept s (dead_letter now sid mid reason s)"
proof (cases "os_replace (outbox_file sid mid) (dead_file sid mid) (mkdirs (dead_letter_dir sid) s)")
  case None
  then show ?thesis unfolding dead_letter_def Let_def None by (simp add: files_entries files_kept_mkdirs)
next
  case (Some s2)
  let ?s1 = "mkdirs (dead_letter_dir sid) s"
  from os_replace_SomeD [OF Some] obtain n where n: "node_at ?s1 (outbox_file sid mid) = Some n"
    and s2: "\<And>x. node_at s2 x = (if x = dead_file sid mid then Some n
      else if x = outbox_file sid mid then None else node_at ?s1 x)" by blast
  have move: "entries_kept ?s1 s2"
    using s2 by (auto simp: entries_kept_def secured_def exists_at_def engine_paths)
  define s3 where "s3 = (if exists_at s2 (status_dir sid mid)
      then move_dir (status_dir sid mid) (dead_status_dir sid mid) s2 else s2)"
  have "files_kept s2 s3" by (simp add: s3_def files_kept_move_status)
  then have "entries_kept s2 (write_text now (dead_reason_file sid mid) reason s3)"
    by (intro files_entries) (rule files_kept_trans [OF _ files_kept_write_text])
  moreover have "entries_kept s ?s1" by (rule files_entries) (rule files_kept_mkdirs)
  ultimately have "entries_kept s (write_text now (dead_reason_file sid mid) reason s3)"
    using move entries_kept_trans by metis
  moreover have "dead_letter now sid mid reason s = write_text now (dead_reason_file sid mid) reason s3"
    unfolding dead_letter_def Let_def Some by (simp add: s3_def)
  ultimately show ?thesis by simp
qed

lemma entries_kept_flush_failure: "entries_kept s (handle_flush_failure now sid mid err s)"
proof -
  have "entries_kept s (snd (record_attempt now sid mid err b s))" for b
    by (rule files_entries) (rule files_kept_attempt)
  then have "entries_kept s s1" "entries_kept s (dead_letter now sid mid r s1)"
    if "record_attempt now sid mid err b s = (n, s1)" for b n s1 r
    using that entries_kept_trans [OF _ entries_kept_dead_letter] by (metis snd_conv)+
  moreover have "entries_kept s (pause_for_upgrade now sid mid err s)" by (rule files_entries) (rule files_kept_pause)
  ultimately show ?thesis by (auto simp: handle_flush_failure_def Let_def split: prod.splits)
qed

lemma files_kept_rmtree_status: "files_kept s (rmtree (dead_status_dir sid mid) s)"
  by (rule files_keptI) (auto simp: exists_at_def fs_simps engine_paths prefix_Cons)

lemma files_kept_unlink_reason: "files_kept s (unlink (dead_reason_file sid mid) s)"
  by (rule files_keptI) (auto simp: exists_at_def fs_simps engine_paths)

lemma entries_kept_requeue: "entries_kept s (snd (dead_letter_requeue now sid mid s))"
proof (cases "exists_at s (dead_file sid mid)")
  case True
  let ?s0 = "mkdirs (outbox_dir sid) s"
  have "exists_at ?s0 (dead_file sid mid)" using True by (auto simp: exists_at_def fs_simps)
  then obtain s1 where s1: "os_replace (dead_file sid mid) (outbox_file sid mid) ?s0 = Some s1"
    by (metis not_None_eq os_replace_None_iff)
  from os_replace_SomeD [OF s1] have "entries_kept ?s0 s1"
    by (auto simp: entries_kept_def secured_def exists_at_def engine_paths)
  moreover have "entries_kept s ?s0" by (rule files_entries) (rule files_kept_mkdirs)
  moreover have "files_kept s1 (write_doc now q j (mkdir_one d (unlink (dead_reason_file sid mid)
      (rmtree (dead_status_dir sid mid) s1))))" for q j d
    by (intro files_kept_trans [OF _ files_kept_write_doc] files_kept_trans [OF _ files_kept_mkdir_one]
        files_kept_trans [OF files_kept_rmtree_status files_kept_unlink_reason])
  ultimately show ?thesis
    using True s1 by (simp add: dead_letter_requeue_def Let_def) (blast intro: entries_kept_trans files_entries)
qed (simp add: dead_letter_requeue_def)

section \<open>Delivering and flushing keep every entry\<close>

lemma files_kept_local_send: "local_send ev env s = (r, s') \<Longrightarrow> files_kept s s'"
  using area_files_kept [OF area_local_send] by (metis snd_conv)

lemma files_kept_deliver_new:
  assumes "deliver_new ev target sid mid env g s = (r, g', s')"
  shows "files_kept (write_outbox (ev_now ev) sid mid env s) s'"
proof -
  let ?s1 = "write_outbox (ev_now ev) sid mid env s"
  show ?thesis
  proof (cases "target_here ev target")
    case True
    obtain x s2 where l: "local_send ev env ?s1 = (x, s2)" by fastforce
    note k = files_kept_local_send [OF l]
    show ?thesis
    proof (cases x)
      case (Inl e)
      with assms True l have "s' = stamp_outbox_target_host (ev_now ev) sid mid
          (write_delivery_status (ev_now ev) sid mid ''local_delivery_failed'' e s2)"
        by (simp add: deliver_new_def Let_def)
      then show ?thesis by (simp add: files_kept_trans [OF files_kept_trans [OF k files_kept_status] files_kept_stamp])
    next
      case (Inr u)
      with assms True l show ?thesis by (auto simp: deliver_new_def Let_def files_kept_trans [OF k files_kept_mark])
    qed
  next
    case False
    with assms show ?thesis
      by (auto simp: deliver_new_def Let_def files_kept_status files_kept_trans [OF files_kept_mark files_kept_history]
          split: prod.splits sum.splits)
  qed
qed

lemma files_kept_deliver:
  assumes "deliver ev session target env g s = (r, g', s')"
  shows "files_kept s s'"
  using assms files_kept_trans [OF files_kept_write_outbox files_kept_deliver_new] files_kept_stamp
  by (auto simp: deliver_def Let_def split: if_splits option.splits prod.splits)

lemma entries_kept_flush_send:
  assumes "flush_send ev sid mid env g s = (b, g', s')"
  shows "entries_kept s s'"
proof -
  have l: "entries_kept s s1" "entries_kept s (handle_flush_failure now sid mid e s1)"
    "entries_kept s (mark_delivered now sid mid s1)"
    "entries_kept s (record_history now sid env' mid (mark_delivered now sid mid s1))"
    if "local_send ev env'' s = (x, s1)" for env'' x s1 now e env'
    using that files_kept_local_send files_kept_mark files_kept_history entries_kept_flush_failure
      files_entries entries_kept_trans by metis+
  have r: "entries_kept s (record_history now sid env' mid (mark_delivered now sid mid s))" for now env'
    by (rule files_entries) (rule files_kept_trans [OF files_kept_mark files_kept_history])
  show ?thesis
    using assms l r entries_kept_flush_failure
    unfolding flush_send_def Let_def
    by (simp split: prod.splits sum.splits if_splits) (metis)+
qed

lemma entries_kept_flush_entry:
  assumes "flush_entry ev sid name g s = (b, g', s')"
  shows "entries_kept s s'"
proof -
  define s1 where "s1 = (if is_paused sid (stem name) s then snd (reprobe_paused (ev_now ev) sid (stem name) s) else s)"
  have "entries_kept s s1" by (auto simp: s1_def intro: files_entries files_kept_reprobe)
  moreover have "entries_kept s1 s'" if "flush_send ev sid (stem name) env g s1 = (b, g', s')" for env
    using that by (rule entries_kept_flush_send)
  ultimately show ?thesis
    using assms entries_kept_trans unfolding flush_entry_def Let_def s1_def [symmetric]
    by (simp split: loaded.splits json.splits if_splits)
qed

lemma entries_kept_flush_entries: "flush_entries ev sid ns g s = (n, g', s') \<Longrightarrow> entries_kept s s'"
proof (induction ns arbitrary: g s n g' s')
  case (Cons x ns)
  then show ?case
    by (auto simp: Let_def split: prod.splits dest!: entries_kept_flush_entry)
       (metis entries_kept_trans)+
qed simp

lemma entries_kept_flush_sessions: "flush_sessions ev sids g s = (n, g', s') \<Longrightarrow> entries_kept s s'"
proof (induction sids arbitrary: g s n g' s')
  case (Cons x sids)
  then show ?case
    by (auto simp: Let_def split: prod.splits dest!: entries_kept_flush_entries)
       (metis entries_kept_trans)+
qed simp

section \<open>The retention sweep\<close>

text \<open>An entry without a delivered marker keeps its file.\<close>

definition unmarked_kept :: "string \<Rightarrow> string \<Rightarrow> fs \<Rightarrow> fs \<Rightarrow> bool" where
  "unmarked_kept sid mid s s' \<longleftrightarrow> (secured sid mid s \<longrightarrow> secured sid mid s') \<and>
     (exists_at s' (delivered_marker sid mid) \<longrightarrow> exists_at s (delivered_marker sid mid))"

lemma unmarked_kept_refl [simp, intro]: "unmarked_kept sid mid s s"
  by (simp add: unmarked_kept_def)

lemma unmarked_sweep_marker:
  assumes "plain_id mid" "\<not> exists_at s (delivered_marker sid mid)" "prefix ''.delivered-'' name"
  shows "unmarked_kept sid mid s (sweep_marker cutoff sid' name s)"
proof -
  obtain m where name: "name = ''.delivered-'' @ m" using assms(3) by (auto simp: prefix_def)
  have "sid' = sid \<Longrightarrow> exists_at s (outbox_dir sid' @ [name]) \<Longrightarrow> m \<noteq> mid"
    using assms(2) by (auto simp: name delivered_marker_def)
  with assms(1) show ?thesis
    by (auto simp: unmarked_kept_def sweep_marker_def Let_def secured_def exists_at_def fs_simps engine_paths name)
qed

lemma unmarked_sweep_status:
  assumes "plain_id mid" "prefix ''.status-'' name"
  shows "unmarked_kept sid mid s (sweep_status dm cutoff sid' name s)"
  using assms
  by (auto simp: unmarked_kept_def sweep_status_def Let_def secured_def exists_at_def fs_simps engine_paths
      prefix_Cons prefix_def)

lemma unmarked_fold:
  assumes "\<And>x s. x \<in> set xs \<Longrightarrow> \<not> exists_at s (delivered_marker sid mid) \<Longrightarrow> unmarked_kept sid mid s (f x s)"
    and "\<not> exists_at s (delivered_marker sid mid)"
  shows "unmarked_kept sid mid s (fold f xs s)"
  using assms
proof (induction xs arbitrary: s)
  case (Cons x xs)
  from Cons.prems(1) [of x s] Cons.prems(2) have x: "unmarked_kept sid mid s (f x s)" by simp
  then have "\<not> exists_at (f x s) (delivered_marker sid mid)" using Cons.prems(2) by (auto simp: unmarked_kept_def)
  with Cons.IH [of "f x s"] Cons.prems(1) have "unmarked_kept sid mid (f x s) (fold f xs (f x s))" by simp
  with x show ?case by (auto simp: unmarked_kept_def)
qed simp

lemma unmarked_sweep_session:
  assumes "plain_id mid" "\<not> exists_at s (delivered_marker sid mid)"
  shows "unmarked_kept sid mid s (sweep_session dm cutoff sid' s)"
proof -
  let ?s1 = "fold (sweep_marker cutoff sid') (filter (prefix ''.delivered-'') (children s (outbox_dir sid'))) s"
  let ?s2 = "fold (sweep_status dm cutoff sid') (filter (prefix ''.status-'') (children ?s1 (outbox_dir sid'))) ?s1"
  have 1: "unmarked_kept sid mid s ?s1"
    by (rule unmarked_fold) (use assms unmarked_sweep_marker in auto)
  then have n1: "\<not> exists_at ?s1 (delivered_marker sid mid)" using assms(2) by (auto simp: unmarked_kept_def)
  have 2: "unmarked_kept sid mid ?s1 ?s2"
    by (rule unmarked_fold [OF _ n1]) (use assms(1) unmarked_sweep_status in auto)
  have 3: "unmarked_kept sid mid ?s2 (del_node (outbox_dir sid') ?s2)"
    by (auto simp: unmarked_kept_def secured_def exists_at_def tree.get_del engine_paths)
  show ?thesis using 1 2 3 unfolding sweep_session_def Let_def unmarked_kept_def by presburger
qed

lemma sweep_keeps_unmarked:
  assumes "plain_id mid" "\<not> exists_at s (delivered_marker sid mid)" "secured sid mid s"
  shows "secured sid mid (sweep dm now keep s)"
proof -
  have "unmarked_kept sid mid s (sweep dm now keep s)"
    unfolding sweep_def by (rule unmarked_fold [OF _ assms(2)]) (rule unmarked_sweep_session [OF assms(1)])
  with assms(3) show ?thesis by (simp add: unmarked_kept_def)
qed

section \<open>Runs of the engine\<close>

text \<open>
  The steps of a system that uses the engine: its own operations, a restart of the process, and
  any step of another component, none of which touches the area of the engine. Purging the dead
  letters deletes them on purpose and is left out.
\<close>

inductive engine_step :: "engine \<times> fs \<Rightarrow> engine \<times> fs \<Rightarrow> bool" where
  step_deliver: "deliver ev session target env g s = (r, g', s') \<Longrightarrow> engine_step (g, s) (g', s')"
| step_flush: "flush dm ev session g s = (n, g', s') \<Longrightarrow> engine_step (g, s) (g', s')"
| step_ack: "engine_ack now sid mid phase g s = (r, g', s') \<Longrightarrow> engine_step (g, s) (g', s')"
| step_requeue: "engine_step (g, s) (g, snd (dead_letter_requeue now sid mid s))"
| step_sweep: "engine_step (g, s) (g, sweep dm now keep s)"
| step_restart: "engine_step (g, s) (new_engine, s)"
| step_other: "area_kept s s' \<Longrightarrow> engine_step (g, s) (g, s')"

text \<open>Runs in which the entry has no delivered marker before any of the steps.\<close>

inductive undelivered_run :: "string \<Rightarrow> string \<Rightarrow> engine \<times> fs \<Rightarrow> engine \<times> fs \<Rightarrow> bool" for sid mid where
  run_refl: "undelivered_run sid mid x x"
| run_step: "undelivered_run sid mid x (g, s) \<Longrightarrow> \<not> exists_at s (delivered_marker sid mid) \<Longrightarrow>
    engine_step (g, s) y \<Longrightarrow> undelivered_run sid mid x y"

lemma flush_keeps_unmarked:
  assumes "flush dm ev session g s = (n, g', s')" "plain_id mid" "\<not> exists_at s (delivered_marker sid mid)"
    and "secured sid mid s"
  shows "secured sid mid s'"
proof -
  obtain g1 s1 where sw: "sweep_ttl_lazy dm (ev_now ev) g s = (g1, s1)" by fastforce
  then have "secured sid mid s1"
    using assms(2-4) sweep_keeps_unmarked by (auto simp: sweep_ttl_lazy_def split: if_splits)
  moreover have "entries_kept s1 s'"
    using assms(1) sw by (auto simp: flush_def dest: entries_kept_flush_sessions)
  ultimately show ?thesis using assms(2) by (auto simp: entries_kept_def)
qed

lemma step_keeps_unmarked:
  assumes "engine_step (g, s) y" "plain_id mid" "\<not> exists_at s (delivered_marker sid mid)" "secured sid mid s"
  shows "secured sid mid (snd y)"
  using assms(1)
proof cases
  case (step_deliver ev session target env r g' s')
  with assms(2,4) files_entries [OF files_kept_deliver] show ?thesis by (auto simp: entries_kept_def)
next
  case (step_flush dm ev session n g' s')
  with assms(2-4) flush_keeps_unmarked show ?thesis by auto
next
  case (step_ack now x m phase r g' s')
  have "entries_kept s s'"
    using step_ack files_entries [OF files_kept_status] by (auto simp: engine_ack_def split: if_splits)
  with assms(2,4) step_ack show ?thesis by (auto simp: entries_kept_def)
next
  case (step_requeue now x m)
  with assms(2,4) entries_kept_requeue show ?thesis by (auto simp: entries_kept_def)
next
  case (step_sweep dm now keep)
  with assms(2-4) sweep_keeps_unmarked show ?thesis by auto
next
  case step_restart
  with assms(4) show ?thesis by simp
next
  case (step_other s')
  with assms(2,4) files_entries [OF area_files_kept] show ?thesis by (auto simp: entries_kept_def)
qed

lemma run_keeps_unmarked:
  "undelivered_run sid mid x y \<Longrightarrow> plain_id mid \<Longrightarrow> secured sid mid (snd x) \<Longrightarrow> secured sid mid (snd y)"
  by (induction rule: undelivered_run.induct) (auto dest: step_keeps_unmarked)

lemma exists_write_outbox: "exists_at (write_outbox now sid mid env s) (outbox_file sid mid)"
  by (auto simp: write_outbox_def Let_def exists_at_def fs_simps)

lemma deliver_secures:
  assumes "deliver ev session target env g s = (r, g', s')" "plain_id (sget env ''msg_id'')"
    and "map_of (g_cache g) (sget env ''msg_id'') = None" "ev_disk_ok ev"
  shows "exists_at s' (outbox_file (sget_or env ''session_id'' session) (sget env ''msg_id''))"
proof -
  let ?m = "sget env ''msg_id''" and ?sid = "sget_or env ''session_id'' session"
  have m: "?m \<noteq> []" using assms(2) by (simp add: plain_id_def)
  show ?thesis
  proof (cases "exists_at s (outbox_file ?sid ?m)")
    case True
    with files_kept_deliver [OF assms(1)] assms(2) show ?thesis by (auto simp: files_kept_def)
  next
    case False
    then have c: "check_idempotency ?sid ?m g s = (None, g)" using assms(3) by (simp add: check_idempotency_def)
    have "deliver_new ev target ?sid ?m (stamped_env ev target env) g s = (r, g', s')"
      using assms(1,4) m c by (simp add: deliver_def Let_def)
    from files_kept_deliver_new [OF this] exists_write_outbox assms(2) show ?thesis
      by (auto simp: files_kept_def)
  qed
qed


section \<open>Witnesses\<close>

definition demo_env :: delivery_env where
  "demo_env = \<lparr>ev_now = 1000, ev_disk_ok = True, ev_hostname = ''mac'', ev_repo_map = [], ev_router = False,
     ev_capabilities = (\<lambda>_. None), ev_transport = (\<lambda>_. None), ev_diag = (\<lambda>_. ''timeout'')\<rparr>"

definition demo_msg :: dict where
  "demo_msg = [(''session_id'', JStr ''s1''), (''from'', JStr ''boss''), (''to'', JStr ''w1''), (''subject'', JStr ''hi''),
     (''body'', JStr ''x''), (''kind'', JStr ''NOTICE''), (''msg_id'', JStr ''m1'')]"

definition demo_delivery :: "send_receipt \<times> engine \<times> fs" where
  "demo_delivery = deliver demo_env ''s1'' None demo_msg new_engine []"

lemma demo_delivery_fields: "demo_delivery = (accepted_of ''m1'', fst (snd demo_delivery), snd (snd demo_delivery))"
  "sget demo_msg ''msg_id'' = ''m1''" "sget_or demo_msg ''session_id'' ''s1'' = ''s1''"
  by code_simp+


end
