(* ===== verification/Outbox_Retries.thy ===== *)
theory Outbox_Retries
  imports Outbox_Durability
begin

text \<open>
  The retry policy of the outbox: how failed attempts are counted, delayed, paused and given up,
  that the count stays below five in every state the engine reaches, that dead letters can be
  requeued, and that delivering twice sends once.
\<close>

section \<open>Entry metadata\<close>

definition attempts_ok :: "fs \<Rightarrow> bool" where
  "attempts_ok s \<longleftrightarrow> (\<forall>sid mid. plain_id mid \<longrightarrow> attempt_count (load_entry_meta sid mid s) < max_attempts)"

text \<open>Every metadata file is kept or removed.\<close>

definition metas_kept :: "fs \<Rightarrow> fs \<Rightarrow> bool" where
  "metas_kept s s' \<longleftrightarrow> (\<forall>sid mid. node_at s' (meta_file sid mid) = node_at s (meta_file sid mid) \<or>
     node_at s' (meta_file sid mid) = None)"

lemma load_entry_meta_cong:
  "node_at s' (meta_file sid mid) = node_at s (meta_file sid mid) \<Longrightarrow>
   load_entry_meta sid mid s' = load_entry_meta sid mid s"
  by (simp add: load_entry_meta_def load_at_def)

lemma attempt_count_missing:
  "node_at s (meta_file sid mid) = None \<Longrightarrow> attempt_count (load_entry_meta sid mid s) = 0"
  by (simp add: load_entry_meta_def load_at_def attempt_count_def dget_or_Nil)

lemma metas_kept_ok: "metas_kept s s' \<Longrightarrow> attempts_ok s \<Longrightarrow> attempts_ok s'"
  unfolding attempts_ok_def metas_kept_def
  by (metis attempt_count_missing load_entry_meta_cong max_attempts_def zero_less_numeral)

lemma metas_kept_refl [simp, intro]: "metas_kept s s"
  by (simp add: metas_kept_def)

lemma metas_kept_trans: "metas_kept s s1 \<Longrightarrow> metas_kept s1 s2 \<Longrightarrow> metas_kept s s2"
  unfolding metas_kept_def by metis

lemma area_metas_kept: "area_kept s s' \<Longrightarrow> metas_kept s s'"
  by (auto simp: metas_kept_def area_kept_def engine_area_def engine_paths)

lemma metas_kept_mkdirs_outbox: "metas_kept s (mkdirs (outbox_dir sid) s)"
  by (auto simp: metas_kept_def fs_simps engine_paths prefix_Cons)

lemma metas_kept_mkdirs_status: "metas_kept s (mkdirs (status_dir sid mid) s)"
  by (auto simp: metas_kept_def fs_simps engine_paths prefix_Cons)

lemma metas_kept_mkdirs_dead: "metas_kept s (mkdirs (dead_letter_dir sid) s)"
  by (auto simp: metas_kept_def fs_simps engine_paths prefix_Cons)

lemma metas_kept_outbox_write: "metas_kept s (atomic_write t (outbox_tmp sid m) (outbox_file sid m) j s)"
  by (auto simp: metas_kept_def fs_simps engine_paths)

lemma metas_kept_write_outbox: "metas_kept s (write_outbox now sid mid env s)"
  using metas_kept_trans [OF metas_kept_mkdirs_outbox metas_kept_outbox_write] metas_kept_mkdirs_outbox
  by (simp add: write_outbox_def Let_def)

lemma metas_kept_stamp: "metas_kept s (stamp_outbox_target_host now sid mid s)"
  by (auto simp: stamp_outbox_target_host_def metas_kept_outbox_write split: loaded.splits json.splits)

lemma metas_kept_mark: "metas_kept s (mark_delivered now sid mid s)"
  unfolding mark_delivered_def
  by (rule metas_kept_trans [OF metas_kept_mkdirs_outbox]) (auto simp: metas_kept_def fs_simps engine_paths)

lemma metas_kept_status: "metas_kept s (write_delivery_status now sid mid kd detail s)"
  unfolding write_delivery_status_def Let_def
  by (rule metas_kept_trans [OF metas_kept_mkdirs_outbox])
     (auto simp: metas_kept_def fs_simps node_at_mkdir_one engine_paths)

lemma metas_kept_history: "metas_kept s (record_history now sid env mid s)"
  by (rule area_metas_kept) (rule area_record_history)

lemma metas_kept_local_send: "local_send ev env s = (r, s') \<Longrightarrow> metas_kept s s'"
  using area_metas_kept [OF area_local_send] by (metis snd_conv)

lemma metas_kept_deliver_new:
  assumes "deliver_new ev target sid mid env g s = (r, g', s')"
  shows "metas_kept s s'"
proof -
  let ?s1 = "write_outbox (ev_now ev) sid mid env s"
  obtain x s2 where l: "local_send ev env ?s1 = (x, s2)" by fastforce
  note s2 = metas_kept_trans [OF metas_kept_write_outbox metas_kept_local_send [OF l]]
  have "metas_kept s (write_delivery_status (ev_now ev) sid mid kd e ?s1)"
    "metas_kept s (record_history (ev_now ev) sid env mid (mark_delivered (ev_now ev) sid mid ?s1))"
    "metas_kept s (mark_delivered (ev_now ev) sid mid s2)"
    "metas_kept s (stamp_outbox_target_host (ev_now ev) sid mid (write_delivery_status (ev_now ev) sid mid kd e s2))" for kd e
    using s2 metas_kept_write_outbox metas_kept_status metas_kept_mark metas_kept_history metas_kept_stamp
      metas_kept_trans by metis+
  with assms l show ?thesis
    by (auto simp: deliver_new_def Let_def split: if_splits prod.splits sum.splits)
qed

lemma metas_kept_deliver:
  assumes "deliver ev session target env g s = (r, g', s')"
  shows "metas_kept s s'"
  using assms metas_kept_deliver_new metas_kept_stamp
  by (auto simp: deliver_def Let_def split: if_splits option.splits prod.splits)

lemma metas_kept_sweep_marker: "prefix ''.delivered-'' name \<Longrightarrow> metas_kept s (sweep_marker c sid name s)"
  by (auto simp: metas_kept_def sweep_marker_def Let_def fs_simps engine_paths)

lemma metas_kept_sweep_status: "metas_kept s (sweep_status dm c sid name s)"
  by (auto simp: metas_kept_def sweep_status_def Let_def fs_simps)

lemma metas_kept_fold:
  "(\<And>x s. x \<in> set xs \<Longrightarrow> metas_kept s (f x s)) \<Longrightarrow> metas_kept s (fold f xs s)"
proof (induction xs arbitrary: s)
  case (Cons x xs)
  then have "metas_kept s (f x s)" "metas_kept (f x s) (fold f xs (f x s))" by simp_all
  then show ?case by (simp add: metas_kept_trans)
qed simp

lemma metas_kept_sweep_session: "metas_kept s (sweep_session dm c sid s)"
proof -
  let ?s1 = "fold (sweep_marker c sid) (filter (prefix ''.delivered-'') (children s (outbox_dir sid))) s"
  let ?s2 = "fold (sweep_status dm c sid) (filter (prefix ''.status-'') (children ?s1 (outbox_dir sid))) ?s1"
  have 2: "metas_kept s ?s2"
    by (rule metas_kept_trans [OF metas_kept_fold metas_kept_fold])
       (auto simp: metas_kept_sweep_marker metas_kept_sweep_status)
  have "metas_kept ?s2 (del_node (outbox_dir sid) ?s2)"
    by (auto simp: metas_kept_def tree.get_del engine_paths)
  with 2 show ?thesis unfolding sweep_session_def Let_def by (auto intro: metas_kept_trans)
qed

lemma metas_kept_sweep: "metas_kept s (sweep dm now keep s)"
  unfolding sweep_def by (rule metas_kept_fold) (rule metas_kept_sweep_session)

section \<open>Failed attempts\<close>

lemma node_move_dir_gone:
  assumes "prefix src p" "\<not> prefix dst p"
  shows "node_at (move_dir src dst s) p = None"
  using assms by (auto simp: node_at_def move_dir_def Let_def map_of_eq_None_iff split: if_splits)

lemma node_move_dir_other:
  assumes "\<not> prefix src p" "\<not> prefix dst p"
  shows "node_at (move_dir src dst s) p = node_at s p"
proof -
  have "map_of (map (\<lambda>(q, n). (if prefix src q then d @ drop (length src) q else q, n)) s) p = map_of s p"
    if "\<not> prefix d p" for d
    using assms(1) that by (induction s) auto
  moreover have "\<not> prefix (dst @ [last src]) p" using assms(2) by (meson append_prefixD)
  ultimately show ?thesis using assms(2) by (simp add: node_at_def move_dir_def Let_def)
qed

lemma metas_kept_move: "metas_kept s (move_dir (status_dir sid mid) (dead_status_dir sid' mid') s)"
  unfolding metas_kept_def
proof (intro allI)
  fix x m
  have "\<not> prefix (dead_status_dir sid' mid') (meta_file x m)" by (simp add: engine_paths)
  then show "node_at (move_dir (status_dir sid mid) (dead_status_dir sid' mid') s) (meta_file x m) =
        node_at s (meta_file x m) \<or>
      node_at (move_dir (status_dir sid mid) (dead_status_dir sid' mid') s) (meta_file x m) = None"
    using node_move_dir_gone node_move_dir_other by metis
qed

lemma json_name_neq: "length x \<noteq> 5 \<Longrightarrow> json_name mid \<noteq> x @ mid" "length x \<noteq> 5 \<Longrightarrow> x @ mid \<noteq> json_name mid"
  by (auto simp: json_name_def dot_json_def dest: arg_cong [of _ _ length])

lemma entry_paths_distinct:
  "\<not> prefix (status_dir sid mid) (dead_file sid' mid')" "\<not> prefix (dead_status_dir sid mid) (dead_file sid mid)"
  "\<not> prefix (status_dir sid mid) (outbox_file sid mid)" "\<not> prefix (dead_status_dir sid mid) (outbox_file sid' mid')"
  "dead_file sid mid \<noteq> dead_reason_file sid mid" "outbox_file sid mid \<noteq> dead_reason_file sid' mid'"
  "dead_file sid mid \<noteq> outbox_file sid' mid'" "meta_file sid mid \<noteq> dead_reason_file sid' mid'"
  "\<not> prefix (dead_status_dir sid mid) (meta_file sid' mid')" "meta_file sid mid \<noteq> dead_file sid' mid'"
  "meta_file sid mid \<noteq> outbox_file sid' mid'" "prefix (status_dir sid mid) (meta_file sid mid)"
  "status_dir sid mid \<noteq> outbox_file sid mid" "status_dir sid mid \<noteq> dead_file sid' mid'"
  using json_name_neq(1) [of "''.status-''" mid] json_name_neq(2) [of "''.status-''" mid]
    json_name_neq(1) [of "''.dead-letter-reason-''" mid]
  by (auto simp: engine_paths)

text \<open>What \<open>_dead_letter\<close> leaves: the entry is out of the outbox, with its metadata.\<close>

lemma dead_letter_effect:
  fixes now :: instant and reason :: string
  assumes "node_at s (outbox_file sid mid) = Some n" "exists_at s (status_dir sid mid)"
  defines "t \<equiv> dead_letter now sid mid reason s"
  shows "node_at t (dead_file sid mid) = Some n" "node_at t (outbox_file sid mid) = None"
    "node_at t (meta_file sid mid) = None" "metas_kept s t"
    "node_at t (dead_reason_file sid mid) = Some (File (Text reason) now)"
proof -
  let ?s1 = "mkdirs (dead_letter_dir sid) s"
  have n1: "node_at ?s1 (outbox_file sid mid) = Some n" using assms(1) by (simp add: fs_simps)
  from os_replace_Some [OF n1, of "dead_file sid mid"] obtain s2
    where r: "os_replace (outbox_file sid mid) (dead_file sid mid) ?s1 = Some s2"
      and s2: "\<And>x. node_at s2 x = (if x = dead_file sid mid then Some n
        else if x = outbox_file sid mid then None else node_at ?s1 x)" by blast
  have ex: "exists_at s2 (status_dir sid mid)"
    using assms(2) s2 entry_paths_distinct by (auto simp: exists_at_def fs_simps)
  let ?s3 = "move_dir (status_dir sid mid) (dead_status_dir sid mid) s2"
  have t: "t = write_text now (dead_reason_file sid mid) reason ?s3"
    unfolding t_def dead_letter_def Let_def r using ex by simp
  show "node_at t (dead_file sid mid) = Some n" "node_at t (outbox_file sid mid) = None"
    using s2 by (simp_all add: t node_at_write_text node_move_dir_other entry_paths_distinct
        entry_paths_distinct(7) [symmetric])
  show "node_at t (meta_file sid mid) = None"
    by (simp add: t node_at_write_text node_move_dir_gone entry_paths_distinct)
  show "node_at t (dead_reason_file sid mid) = Some (File (Text reason) now)" by (simp add: t node_at_write_text)
  have "metas_kept ?s1 s2" using s2 by (simp add: metas_kept_def entry_paths_distinct)
  moreover have "metas_kept ?s3 t" by (simp add: t metas_kept_def node_at_write_text entry_paths_distinct)
  ultimately show "metas_kept s t"
    using metas_kept_mkdirs_dead metas_kept_move metas_kept_trans by metis
qed

lemma node_mkdirs_status:
  "node_at (mkdirs (status_dir sid mid) s) (meta_file x m) = node_at s (meta_file x m)"
  "node_at (mkdirs (status_dir sid mid) s) (outbox_file sid mid) = node_at s (outbox_file sid mid)"
  using json_name_neq(1) [of "''.status-''" mid] by (auto simp: fs_simps engine_paths prefix_Cons)

lemma node_save_meta:
  "node_at (save_meta now sid mid d s) (meta_file sid mid) = Some (File (Doc (JObj d)) now)"
  "(x, m) \<noteq> (sid, mid) \<Longrightarrow> node_at (save_meta now sid mid d s) (meta_file x m) = node_at s (meta_file x m)"
  "node_at (save_meta now sid mid d s) (outbox_file x m) = node_at s (outbox_file x m)"
  by (auto simp: save_meta_def fs_simps engine_paths)

lemma load_saved_meta: "load_entry_meta sid mid (save_meta now sid mid d s) = d"
  by (simp add: load_entry_meta_def load_at_def node_save_meta)

lemma attempt_count_attempt_meta: "attempt_count (attempt_meta now err b d) = attempt_count d + 1"
  by (simp add: attempt_meta_def attempt_count_def Let_def)

lemma record_attempt_effect:
  assumes "record_attempt now sid mid err b s = (n, s1)"
  shows "n = attempt_count (load_entry_meta sid mid s) + 1"
    "load_entry_meta sid mid s1 = attempt_meta now err b (load_entry_meta sid mid s)"
    "\<And>x m. (x, m) \<noteq> (sid, mid) \<Longrightarrow> load_entry_meta x m s1 = load_entry_meta x m s"
    "node_at s1 (outbox_file sid mid) = node_at s (outbox_file sid mid)" "exists_at s1 (status_dir sid mid)"
proof -
  let ?s0 = "mkdirs (status_dir sid mid) s"
  have l: "load_entry_meta x m ?s0 = load_entry_meta x m s" for x m
    by (rule load_entry_meta_cong) (rule node_mkdirs_status)
  from assms have n: "n = attempt_count (load_entry_meta sid mid s) + 1"
    and s1: "s1 = save_meta now sid mid (attempt_meta now err b (load_entry_meta sid mid s)) ?s0"
    by (simp_all add: record_attempt_def Let_def l)
  show "n = attempt_count (load_entry_meta sid mid s) + 1" by (rule n)
  show "load_entry_meta sid mid s1 = attempt_meta now err b (load_entry_meta sid mid s)"
    unfolding s1 by (rule load_saved_meta)
  show "load_entry_meta x m s1 = load_entry_meta x m s" if "(x, m) \<noteq> (sid, mid)" for x m
    unfolding s1 l [symmetric] by (rule load_entry_meta_cong) (rule node_save_meta(2) [OF that])
  show "node_at s1 (outbox_file sid mid) = node_at s (outbox_file sid mid)"
    by (simp add: s1 node_save_meta node_mkdirs_status)
  show "exists_at s1 (status_dir sid mid)"
    by (auto simp: s1 save_meta_def exists_at_def fs_simps engine_paths)
qed

text \<open>Writing metadata with the old count keeps the budget.\<close>

lemma attempts_ok_save:
  assumes "attempts_ok s" "plain_id mid \<Longrightarrow> attempt_count d < max_attempts"
  shows "attempts_ok (save_meta now sid mid d s)"
  unfolding attempts_ok_def
proof (intro allI impI)
  fix x m assume "plain_id m"
  show "attempt_count (load_entry_meta x m (save_meta now sid mid d s)) < max_attempts"
  proof (cases "(x, m) = (sid, mid)")
    case True
    with assms(2) \<open>plain_id m\<close> show ?thesis by (simp add: load_saved_meta)
  next
    case False
    then have "load_entry_meta x m (save_meta now sid mid d s) = load_entry_meta x m s"
      by (intro load_entry_meta_cong node_save_meta(2))
    with assms(1) \<open>plain_id m\<close> show ?thesis by (simp add: attempts_ok_def)
  qed
qed

lemma attempts_ok_pause:
  assumes "attempts_ok s"
  shows "attempts_ok (pause_for_upgrade now sid mid r s)"
proof -
  let ?s1 = "mkdirs (status_dir sid mid) s"
  have ok: "attempts_ok ?s1" by (rule metas_kept_ok [OF metas_kept_mkdirs_status assms])
  show ?thesis
    unfolding pause_for_upgrade_def Let_def
    by (rule attempts_ok_save [OF ok]) (use ok in \<open>simp add: attempts_ok_def attempt_count_def\<close>)
qed

lemma dget_or_delete: "k \<noteq> key \<Longrightarrow> dget_or (AList.delete k d) key w = dget_or d key w"
  by (simp add: dget_or_def delete_conv')

lemma attempts_ok_reprobe:
  assumes "attempts_ok s"
  shows "attempts_ok (snd (reprobe_paused now sid mid s))"
proof -
  have "attempt_count (AList.delete ''next_reprobe_at'' (AList.delete ''paused_at''
      (AList.delete ''pause_reason'' (dset (load_entry_meta sid mid s) ''paused_for_upgrade'' (JBool False))))) =
    attempt_count (load_entry_meta sid mid s)"
    by (simp add: attempt_count_def dget_or_delete)
  then have "attempts_ok (save_meta now sid mid (AList.delete ''next_reprobe_at'' (AList.delete ''paused_at''
      (AList.delete ''pause_reason'' (dset (load_entry_meta sid mid s) ''paused_for_upgrade'' (JBool False))))) s)"
    by (intro attempts_ok_save [OF assms]) (use assms in \<open>simp add: attempts_ok_def\<close>)
  with assms show ?thesis by (simp add: reprobe_paused_def Let_def)
qed

lemma metas_kept_dead_letter:
  assumes "exists_at s (status_dir sid mid)"
  shows "metas_kept s (dead_letter now sid mid reason s)"
proof (cases "node_at s (outbox_file sid mid)")
  case None
  have "\<not> exists_at (mkdirs (dead_letter_dir sid) s) (outbox_file sid mid)"
    using None by (auto simp: exists_at_def fs_simps engine_paths)
  then have "os_replace (outbox_file sid mid) (dead_file sid mid) (mkdirs (dead_letter_dir sid) s) = None"
    by (rule os_replace_None_iff [THEN iffD2])
  note none = this
  show ?thesis unfolding dead_letter_def Let_def none by (simp add: metas_kept_mkdirs_dead)
next
  case (Some n)
  then show ?thesis using assms by (rule dead_letter_effect(4))
qed

text \<open>A failed attempt leaves the entry under the budget or takes it out of the outbox.\<close>

lemma attempts_ok_flush_failure:
  assumes "attempts_ok s" "plain_id mid \<Longrightarrow> exists_at s (outbox_file sid mid)"
  shows "attempts_ok (handle_flush_failure now sid mid err s)"
proof -
  let ?b = "is_terminal_error err"
  obtain n s1 where r: "record_attempt now sid mid err ?b s = (n, s1)" by fastforce
  note e = record_attempt_effect [OF r]
  have other: "attempt_count (load_entry_meta x m s1) < max_attempts" if "plain_id m" "(x, m) \<noteq> (sid, mid)" for x m
    using assms(1) that e(3) [OF that(2)] by (simp add: attempts_ok_def)
  have own: "attempt_count (load_entry_meta sid mid s1) = n" by (simp add: e(1,2) attempt_count_attempt_meta)
  have dead: "attempts_ok (dead_letter now sid mid reason s1)" for reason
    unfolding attempts_ok_def
  proof (intro allI impI)
    fix x m assume m: "plain_id m"
    let ?t = "dead_letter now sid mid reason s1"
    have kept: "metas_kept s1 ?t" by (rule metas_kept_dead_letter [OF e(5)])
    show "attempt_count (load_entry_meta x m ?t) < max_attempts"
    proof (cases "(x, m) = (sid, mid)")
      case True
      with m assms(2) e(4) obtain k where "node_at s1 (outbox_file sid mid) = Some k"
        by (auto simp: exists_at_def)
      from dead_letter_effect(3) [OF this e(5)] True show ?thesis
        by (simp add: attempt_count_missing max_attempts_def)
    next
      case False
      from kept other [OF m False] show ?thesis
        unfolding metas_kept_def by (metis attempt_count_missing load_entry_meta_cong max_attempts_def zero_less_numeral)
    qed
  qed
  have "attempts_ok s1" if "n < max_attempts"
    unfolding attempts_ok_def
  proof (intro allI impI)
    fix x m assume "plain_id m"
    then show "attempt_count (load_entry_meta x m s1) < max_attempts"
      using other own that by (cases "(x, m) = (sid, mid)") auto
  qed
  with dead attempts_ok_pause [OF assms(1)] r show ?thesis
    by (auto simp: handle_flush_failure_def Let_def)
qed

section \<open>The attempt budget through whole runs\<close>

lemma outbox_file_of_name:
  assumes "suffix dot_json name" "plain_id (stem name)"
  shows "outbox_dir sid @ [name] = outbox_file sid (stem name)"
proof -
  have "5 < length name"
  proof (rule ccontr)
    assume "\<not> 5 < length name"
    with assms(1) have "name = dot_json" by (auto simp: suffix_def dot_json_def)
    then have "stem name = dot_json" by (simp add: stem_def dot_json_def)
    with assms(2) show False by (simp add: plain_id_def dot_json_def)
  qed
  with assms(1) show ?thesis by (simp add: outbox_file_def json_name_def stem_append)
qed

lemma attempts_ok_flush_send:
  assumes "flush_send ev sid mid env g s = (b, g', s')" "attempts_ok s" "plain_id mid \<Longrightarrow> exists_at s (outbox_file sid mid)"
  shows "attempts_ok s'"
proof -
  obtain x s1 where l: "local_send ev (dset env ''msg_id'' (JStr mid)) s = (x, s1)" by fastforce
  have area: "area_kept s s1" using area_local_send [of s ev "dset env ''msg_id'' (JStr mid)"] by (simp add: l)
  have ok1: "attempts_ok s1" by (rule metas_kept_ok [OF metas_kept_local_send [OF l] assms(2)])
  have "node_at s1 (outbox_file sid mid) = node_at s (outbox_file sid mid)"
    by (rule area_kept_node [OF area]) (simp add: engine_area_def engine_paths)
  with assms(3) have ex1: "plain_id mid \<Longrightarrow> exists_at s1 (outbox_file sid mid)" by (simp add: exists_at_def)
  have m: "attempts_ok (mark_delivered (ev_now ev) sid mid t)" if "attempts_ok t" for t
    using that by (rule metas_kept_ok [OF metas_kept_mark])
  have h: "attempts_ok (record_history (ev_now ev) sid env mid (mark_delivered (ev_now ev) sid mid t))" if "attempts_ok t" for t
    using m [OF that] by (rule metas_kept_ok [OF metas_kept_history])
  let ?hostname = "sget env ''_target_host''"
  show ?thesis
  proof (cases "?hostname = ''__local__'' \<or> resolve_is_local (ev_hostname ev) (resolve_target ev g ?hostname)")
    case True
    show ?thesis
    proof (cases x)
      case (Inl e)
      have "s' = handle_flush_failure (ev_now ev) sid mid e s1"
        using assms(1) unfolding flush_send_def Let_def if_P [OF True] l Inl by simp
      then show ?thesis using attempts_ok_flush_failure [OF ok1 ex1] by simp
    next
      case (Inr u)
      have "s' = mark_delivered (ev_now ev) sid mid s1 \<or>
          s' = record_history (ev_now ev) sid env mid (mark_delivered (ev_now ev) sid mid s1)"
        using assms(1) unfolding flush_send_def Let_def if_P [OF True] l Inr by (simp split: if_splits)
      then show ?thesis using m [OF ok1] h [OF ok1] by blast
    qed
  next
    case False
    obtain y g1 where r: "remote_send ev (resolve_target ev g ?hostname) env g s = (y, g1)" by fastforce
    show ?thesis
    proof (cases y)
      case (Inl e)
      have "s' = handle_flush_failure (ev_now ev) sid mid e s"
        using assms(1) unfolding flush_send_def Let_def if_not_P [OF False] r Inl by simp
      then show ?thesis using attempts_ok_flush_failure [OF assms(2,3)] by simp
    next
      case (Inr u)
      have "s' = record_history (ev_now ev) sid env mid (mark_delivered (ev_now ev) sid mid s)"
        using assms(1) unfolding flush_send_def Let_def if_not_P [OF False] r Inr by simp
      then show ?thesis using h [OF assms(2)] by simp
    qed
  qed
qed

lemma flush_entry_cases:
  fixes ev sid name s
  defines "s1 \<equiv> (if is_paused sid (stem name) s then snd (reprobe_paused (ev_now ev) sid (stem name) s) else s)"
  assumes "flush_entry ev sid name g s = (b, g', s')"
  shows "(s' = s \<or> s' = s1) \<or> (\<exists>env. load_at s1 (outbox_dir sid @ [name]) = Loaded (JObj env) \<and>
    flush_send ev sid (stem name) env g s1 = (b, g', s'))"
proof (cases "\<exists>env. load_at s1 (outbox_dir sid @ [name]) = Loaded (JObj env)")
  case True
  with assms(2) show ?thesis
    unfolding flush_entry_def Let_def s1_def [symmetric] by (auto split: if_splits)
next
  case False
  then have "(case load_at s1 (outbox_dir sid @ [name]) of Loaded (JObj env) \<Rightarrow> f env | _ \<Rightarrow> (False, g, s1)) = (False, g, s1)" for f
    by (auto split: loaded.splits json.splits)
  with assms(2) show ?thesis
    unfolding flush_entry_def Let_def s1_def [symmetric] by (auto split: if_splits)
qed

lemma attempts_ok_flush_entry:
  assumes "flush_entry ev sid name g s = (b, g', s')" "attempts_ok s" "suffix dot_json name"
  shows "attempts_ok s'"
proof -
  define s1 where "s1 = (if is_paused sid (stem name) s then snd (reprobe_paused (ev_now ev) sid (stem name) s) else s)"
  have ok: "attempts_ok s1" using assms(2) attempts_ok_reprobe by (simp add: s1_def)
  have ex: "exists_at s1 (outbox_file sid (stem name))"
    if "load_at s1 (outbox_dir sid @ [name]) = Loaded j" "plain_id (stem name)" for j
    using that outbox_file_of_name [OF assms(3), of sid] by (auto simp: load_at_File exists_at_def)
  consider "s' = s \<or> s' = s1" | env where "load_at s1 (outbox_dir sid @ [name]) = Loaded (JObj env)"
      "flush_send ev sid (stem name) env g s1 = (b, g', s')"
    using flush_entry_cases [OF assms(1)] unfolding s1_def by blast
  then show ?thesis
  proof cases
    case 2
    show ?thesis by (rule attempts_ok_flush_send [OF 2(2) ok]) (rule ex [OF 2(1)])
  qed (use assms(2) ok in auto)
qed

lemma attempts_ok_flush_entries:
  "flush_entries ev sid ns g s = (n, g', s') \<Longrightarrow> attempts_ok s \<Longrightarrow> list_all (suffix dot_json) ns \<Longrightarrow> attempts_ok s'"
proof (induction ns arbitrary: g s n g' s')
  case (Cons x ns)
  obtain d g1 s1 where f: "flush_entry ev sid x g s = (d, g1, s1)" by (metis surj_pair)
  from attempts_ok_flush_entry [OF f] Cons.prems have "attempts_ok s1" by simp
  with Cons f show ?case by (auto simp: Let_def split: prod.splits)
qed simp

lemma json_names_suffix: "list_all (suffix dot_json) (json_names d s)"
  by (auto simp: json_names_def list_all_iff glob_match_def)

lemma attempts_ok_flush_sessions:
  "flush_sessions ev sids g s = (n, g', s') \<Longrightarrow> attempts_ok s \<Longrightarrow> attempts_ok s'"
proof (induction sids arbitrary: g s n g' s')
  case (Cons x sids)
  obtain d g1 s1 where f: "flush_entries ev x (json_names (outbox_dir x) s) g s = (d, g1, s1)" by (metis surj_pair)
  from attempts_ok_flush_entries [OF f Cons.prems(2) json_names_suffix] have "attempts_ok s1" .
  with Cons f show ?case by (auto simp: Let_def split: prod.splits)
qed simp

lemma attempts_ok_flush:
  assumes "flush dm ev session g s = (n, g', s')" "attempts_ok s"
  shows "attempts_ok s'"
proof -
  obtain g1 s1 where sw: "sweep_ttl_lazy dm (ev_now ev) g s = (g1, s1)" by fastforce
  then have "attempts_ok s1"
    using assms(2) metas_kept_ok [OF metas_kept_sweep] by (auto simp: sweep_ttl_lazy_def split: if_splits)
  with assms(1) sw show ?thesis by (auto simp: flush_def dest: attempts_ok_flush_sessions)
qed

text \<open>What a requeue leaves.\<close>

lemma requeue_effect:
  fixes now :: instant
  assumes "node_at s (dead_file sid mid) = Some n"
  obtains t meta where "dead_letter_requeue now sid mid s = (True, t)"
    "node_at t (outbox_file sid mid) = Some n" "node_at t (dead_file sid mid) = None"
    "load_entry_meta sid mid t = meta" "attempt_count meta = 0" "\<not> truthy (dget_or meta ''terminal'' JNull)"
    "dget_or meta ''next_attempt_at'' JNull = JNull"
    "\<And>x m. (x, m) \<noteq> (sid, mid) \<Longrightarrow> node_at t (meta_file x m) = node_at s (meta_file x m)"
proof -
  let ?s0 = "mkdirs (outbox_dir sid) s"
  have "node_at ?s0 (dead_file sid mid) = Some n" using assms by (simp add: fs_simps)
  from os_replace_Some [OF this, of "outbox_file sid mid"] obtain s1
    where r: "os_replace (dead_file sid mid) (outbox_file sid mid) ?s0 = Some s1"
      and s1: "\<And>x. node_at s1 x = (if x = outbox_file sid mid then Some n
        else if x = dead_file sid mid then None else node_at ?s0 x)" by blast
  let ?s2 = "mkdir_one (status_dir sid mid) (unlink (dead_reason_file sid mid) (rmtree (dead_status_dir sid mid) s1))"
  define meta where "meta = AList.delete ''next_attempt_at''
    (dset (dset (load_entry_meta sid mid ?s2) ''attempt_count'' (JInt 0)) ''terminal'' (JBool False))"
  let ?t = "write_doc now (meta_file sid mid) (JObj meta) ?s2"
  have ex: "exists_at s (dead_file sid mid)" using assms by (simp add: exists_at_def)
  have t: "dead_letter_requeue now sid mid s = (True, ?t)"
    unfolding dead_letter_requeue_def Let_def r meta_def using ex by simp
  have n2: "node_at ?s2 p = node_at s1 p"
    if "p \<noteq> status_dir sid mid" "p \<noteq> dead_reason_file sid mid" "\<not> prefix (dead_status_dir sid mid) p" for p
    using that by (simp add: node_at_mkdir_one fs_simps)
  show thesis
  proof (rule that [OF t])
    show "node_at ?t (outbox_file sid mid) = Some n" "node_at ?t (dead_file sid mid) = None"
      using s1 by (simp_all add: node_at_write_doc n2 entry_paths_distinct
        entry_paths_distinct(5,7,10,11,13,14) [symmetric])
    show "load_entry_meta sid mid ?t = meta" by (simp add: load_entry_meta_def load_at_def fs_simps)
    show "attempt_count meta = 0" "\<not> truthy (dget_or meta ''terminal'' JNull)"
      by (simp_all add: meta_def attempt_count_def dget_or_delete)
    show "dget_or meta ''next_attempt_at'' JNull = JNull" by (simp add: meta_def dget_or_def delete_conv')
    show "node_at ?t (meta_file x m) = node_at s (meta_file x m)" if "(x, m) \<noteq> (sid, mid)" for x m
    proof -
      have d: "meta_file x m \<noteq> meta_file sid mid" "meta_file x m \<noteq> status_dir sid mid"
        using that by (auto simp: engine_paths)
      have "node_at ?s0 (meta_file x m) = node_at s (meta_file x m)"
        by (auto simp: fs_simps engine_paths prefix_Cons)
      with d s1 show ?thesis by (simp add: node_at_write_doc n2 entry_paths_distinct)
    qed
  qed
qed

lemma attempts_ok_requeue:
  assumes "attempts_ok s"
  shows "attempts_ok (snd (dead_letter_requeue now sid mid s))"
proof (cases "node_at s (dead_file sid mid)")
  case None
  with assms show ?thesis by (simp add: dead_letter_requeue_def exists_at_def)
next
  case (Some n)
  from requeue_effect [OF Some, of now] obtain t meta where t: "dead_letter_requeue now sid mid s = (True, t)"
    "load_entry_meta sid mid t = meta" "attempt_count meta = 0"
    and other: "\<And>x m. (x, m) \<noteq> (sid, mid) \<Longrightarrow> node_at t (meta_file x m) = node_at s (meta_file x m)" by metis
  show ?thesis
    unfolding attempts_ok_def
  proof (intro allI impI)
    fix x m assume "plain_id m"
    with assms t other load_entry_meta_cong [of t x m s]
    show "attempt_count (load_entry_meta x m (snd (dead_letter_requeue now sid mid s))) < max_attempts"
      by (cases "(x, m) = (sid, mid)") (auto simp: attempts_ok_def max_attempts_def)
  qed
qed

lemma attempts_ok_step:
  assumes "engine_step x y" "attempts_ok (snd x)"
  shows "attempts_ok (snd y)"
  using assms
proof cases
  case (step_ack now sid mid phase g s r g' s')
  with assms(2) metas_kept_ok [OF metas_kept_status] show ?thesis by (auto simp: engine_ack_def split: if_splits)
qed (auto intro: metas_kept_ok [OF metas_kept_deliver] attempts_ok_flush attempts_ok_requeue
    metas_kept_ok [OF metas_kept_sweep] metas_kept_ok [OF area_metas_kept])

text \<open>
  The attempts of a pending entry are bounded. In every state the engine reaches, whatever it
  delivers, flushes, requeues or sweeps and however often it is restarted, an entry of the outbox
  has fewer than five failed attempts on record.
\<close>

theorem attempts_bounded:
  assumes "engine_step\<^sup>*\<^sup>* (g, s) (g', s')" "attempts_ok s" "plain_id mid"
  shows "attempt_count (load_entry_meta sid mid s') < 5"
proof -
  have "attempts_ok (snd y)" if "engine_step\<^sup>*\<^sup>* x y" "attempts_ok (snd x)" for x y
    using that by (induction rule: rtranclp_induct) (auto intro: attempts_ok_step)
  from this [OF assms(1)] assms(2,3) show ?thesis by (simp add: attempts_ok_def max_attempts_def)
qed

lemma attempt_due_after:
  assumes "load_entry_meta sid mid s = attempt_meta now err False d"
  shows "attempt_due t sid mid s \<longleftrightarrow> now + 5 * 2 ^ nat (attempt_count d) \<le> t"
  using assms by (simp add: attempt_due_def attempt_meta_def Let_def json_number_def backoff_base_s_def)

text \<open>
  What a failed retry does. A retryable error with fewer than four failures on record leaves
  the entry in the outbox, adds one to the count and makes the next attempt due after 5, 10, 20 or
  40 seconds; the fifth failure, or an error no retry can mend, moves the unchanged envelope to the
  dead letters and clears its record; a protocol mismatch pauses the entry and counts no attempt.
\<close>

theorem failed_attempt_outcome:
  fixes now :: instant and err :: string
  assumes "node_at s (outbox_file sid mid) = Some n" "attempt_count (load_entry_meta sid mid s) = int k"
  defines "s' \<equiv> handle_flush_failure now sid mid err s"
  shows "if sublist ''wire version mismatch'' err
    then is_paused sid mid s' \<and> attempt_count (load_entry_meta sid mid s') = int k \<and> exists_at s' (outbox_file sid mid)
    else if is_terminal_error err \<or> 4 \<le> k
    then node_at s' (dead_file sid mid) = Some n \<and> \<not> exists_at s' (outbox_file sid mid) \<and>
      attempt_count (load_entry_meta sid mid s') = 0
    else node_at s' (outbox_file sid mid) = Some n \<and> attempt_count (load_entry_meta sid mid s') = int (k + 1) \<and>
      (\<forall>t. attempt_due t sid mid s' \<longleftrightarrow> now + 5 * 2 ^ k \<le> t)"
proof (cases "sublist ''wire version mismatch'' err")
  case True
  let ?s0 = "mkdirs (status_dir sid mid) s"
  have l: "load_entry_meta sid mid ?s0 = load_entry_meta sid mid s"
    by (rule load_entry_meta_cong) (rule node_mkdirs_status)
  have "is_terminal_error err" using True by (simp add: is_terminal_error_def terminal_markers_def)
  then have s': "s' = pause_for_upgrade now sid mid err s" using True by (simp add: s'_def handle_flush_failure_def)
  have "exists_at s' (outbox_file sid mid)"
    using assms(1) by (simp add: s' pause_for_upgrade_def Let_def exists_at_def node_save_meta node_mkdirs_status)
  with True assms(2) show ?thesis
    by (simp add: s' pause_for_upgrade_def Let_def is_paused_def load_saved_meta l attempt_count_def)
next
  case False
  let ?b = "is_terminal_error err"
  obtain m s1 where r: "record_attempt now sid mid err ?b s = (m, s1)" by fastforce
  note e = record_attempt_effect [OF r]
  have m: "m = int k + 1" using e(1) assms(2) by simp
  have n: "node_at s1 (outbox_file sid mid) = Some n" using e(4) assms(1) by simp
  show ?thesis
  proof (cases "?b \<or> 4 \<le> k")
    case True
    then have "s' = dead_letter now sid mid (if ?b then take 300 (''terminal: '' @ err)
        else take 300 (''max attempts (5) exceeded: '' @ err)) s1"
      using False r m by (auto simp: s'_def handle_flush_failure_def max_attempts_def)
    then obtain reason where "s' = dead_letter now sid mid reason s1" by blast
    with False True dead_letter_effect [OF n e(5), of now reason] show ?thesis
      by (simp add: exists_at_def attempt_count_missing)
  next
    case no: False
    then have s': "s' = s1" using False r m by (simp add: s'_def handle_flush_failure_def max_attempts_def)
    have "load_entry_meta sid mid s1 = attempt_meta now err False (load_entry_meta sid mid s)" using e(2) no by simp
    with False no n assms(2) attempt_due_after [OF this] show ?thesis by (simp add: s' attempt_count_attempt_meta)
  qed
qed

section \<open>Requeueing\<close>

text \<open>
  A dead letter can be sent again. Requeueing a dead-lettered entry puts the same envelope
  back into the outbox, takes it off the dead letters, and starts its attempts afresh: it is due
  at once and not paused.
\<close>

theorem dead_letter_requeue_round_trip:
  assumes "node_at s (outbox_file sid mid) = Some n" "exists_at s (status_dir sid mid)"
  shows "\<exists>u. dead_letter_requeue later sid mid (dead_letter now sid mid reason s) = (True, u) \<and>
    node_at u (outbox_file sid mid) = Some n \<and> \<not> exists_at u (dead_file sid mid) \<and>
    attempt_count (load_entry_meta sid mid u) = 0 \<and> (\<forall>t. attempt_due t sid mid u)"
proof -
  let ?t = "dead_letter now sid mid reason s"
  note d = dead_letter_effect [OF assms, of now reason]
  from requeue_effect [OF d(1), of later] obtain u meta where "dead_letter_requeue later sid mid ?t = (True, u)"
    "node_at u (outbox_file sid mid) = Some n" "node_at u (dead_file sid mid) = None"
    "load_entry_meta sid mid u = meta" "attempt_count meta = 0" "\<not> truthy (dget_or meta ''terminal'' JNull)"
    "dget_or meta ''next_attempt_at'' JNull = JNull" by metis
  then show ?thesis by (auto simp: exists_at_def attempt_due_def Let_def json_number_def)
qed

section \<open>Idempotent delivery\<close>

lemma check_capability_cache: "g_cache (snd (check_capability ev h g)) = g_cache g"
  by (simp add: check_capability_def Let_def split: option.splits)

lemma ensure_session_cache: "g_cache (snd (ensure_remote_session ev sid h mgr roster mb g s)) = g_cache g"
  by (simp add: ensure_remote_session_def Let_def split: prod.splits)

lemma remote_roster_cache:
  assumes "remote_roster ev sid env g s = (mgr, roster, g')"
  shows "g_cache g' = g_cache g"
proof -
  have st: "g_cache (snd (snd (stored_roster ev sid sender (m, r, g) g s))) = g_cache g" for sender m r
    by (auto simp: stored_roster_def Let_def split: sum.splits option.splits json.splits list.splits)
  then have "g_cache (snd (snd (remote_roster ev sid env g s))) = g_cache g"
    by (auto simp: remote_roster_def Let_def split: option.splits)
  with assms show ?thesis by simp
qed

lemma remote_send_cache:
  assumes "remote_send ev h env g s = (r, g')"
  shows "g_cache g' = g_cache g"
proof (cases "ev_transport ev h")
  case None
  with assms show ?thesis by (simp add: remote_send_def)
next
  case (Some mb)
  let ?sid = "sget env ''session_id''"
  obtain x g1 where x: "check_capability ev h g = (x, g1)" by fastforce
  obtain mgr roster g2 where y: "remote_roster ev ?sid env g1 s = (mgr, roster, g2)" by (metis surj_pair)
  obtain z g3 where z: "ensure_remote_session ev ?sid h mgr roster mb g2 s = (z, g3)" by fastforce
  have "g_cache g1 = g_cache g" "g_cache g2 = g_cache g1" "g_cache g3 = g_cache g2"
    using check_capability_cache [of ev h g] remote_roster_cache [OF y]
      ensure_session_cache [of ev ?sid h mgr roster mb g2 s] by (simp_all add: x z)
  moreover have "g' = g1 \<or> g' = g3"
    using assms by (cases x; cases z) (auto simp: remote_send_def Let_def Some x y z split: prod.splits if_splits)
  ultimately show ?thesis by auto
qed

lemma deliver_caches:
  assumes "deliver ev session target env g s = (r, g', s')" "sget env ''msg_id'' \<noteq> []"
  shows "map_of (g_cache g') (sget env ''msg_id'') = Some r"
proof -
  let ?m = "sget env ''msg_id''"
  have c: "map_of (g_cache (cache_receipt ?m x h)) ?m = Some x" for x h by (simp add: cache_receipt_def update_conv')
  have new: "map_of (g_cache g2) ?m = Some r" if "deliver_new ev target sid ?m env' g1 s = (r, g2, s2)" for sid env' g1 g2 s2
  proof (cases "target_here ev target")
    case True
    with that c show ?thesis by (auto simp: deliver_new_def Let_def split: prod.splits sum.splits)
  next
    case False
    obtain y g3 where y: "remote_send ev (the target) env' (cache_receipt ?m (accepted_of ?m) g1)
        (write_outbox (ev_now ev) sid ?m env' s) = (y, g3)" by fastforce
    from remote_send_cache [OF y] False that y c show ?thesis
      by (cases y) (auto simp: deliver_new_def Let_def)
  qed
  obtain x g1 where i: "check_idempotency (sget_or env ''session_id'' session) ?m g s = (x, g1)" by fastforce
  show ?thesis
  proof (cases x)
    case (Some r0)
    then have "map_of (g_cache g1) ?m = Some r0"
      using i c by (auto simp: check_idempotency_def Let_def split: option.splits if_splits)
    with assms i Some show ?thesis by (simp add: deliver_def Let_def)
  next
    case None
    with assms i c new show ?thesis by (auto simp: deliver_def Let_def split: if_splits)
  qed
qed


section \<open>Witnesses\<close>

lemma attempts_ok_Nil: "attempts_ok []"
  by (simp add: attempts_ok_def load_entry_meta_def load_at_def node_at_def attempt_count_def dget_or_Nil max_attempts_def)

theorem attempts_bounded_witness:
  "attempt_count (load_entry_meta ''s1'' ''m1'' (snd (snd demo_delivery))) < 5"
proof -
  have "deliver demo_env ''s1'' None demo_msg new_engine [] =
      (accepted_of ''m1'', fst (snd demo_delivery), snd (snd demo_delivery))"
    using demo_delivery_fields(1) unfolding demo_delivery_def .
  then have "engine_step (new_engine, []) (fst (snd demo_delivery), snd (snd demo_delivery))" by (rule step_deliver)
  then have run: "engine_step\<^sup>*\<^sup>* (new_engine, []) (fst (snd demo_delivery), snd (snd demo_delivery))" by blast
  have "plain_id ''m1''" by code_simp
  from attempts_bounded [OF run attempts_ok_Nil this] show ?thesis .
qed

definition demo_entry :: "fs" where
  "demo_entry = [([''_outbox'', ''s1'', ''m1.json''], File (Doc (JObj demo_msg)) 1000),
     ([''_outbox'', ''s1'', ''.status-m1''], Dir)]"

lemma demo_entry_file: "node_at demo_entry (outbox_file ''s1'' ''m1'') = Some (File (Doc (JObj demo_msg)) 1000)"
  "exists_at demo_entry (status_dir ''s1'' ''m1'')" "attempt_count (load_entry_meta ''s1'' ''m1'' demo_entry) = int 0"
  by code_simp+

theorem failed_attempt_outcome_witness:
  "attempt_count (load_entry_meta ''s1'' ''m1'' (handle_flush_failure 1000 ''s1'' ''m1'' ''timeout'' demo_entry)) = 1 \<and>
   attempt_due 1005 ''s1'' ''m1'' (handle_flush_failure 1000 ''s1'' ''m1'' ''timeout'' demo_entry) \<and>
   \<not> attempt_due 1004 ''s1'' ''m1'' (handle_flush_failure 1000 ''s1'' ''m1'' ''timeout'' demo_entry)"
proof -
  have n: "\<not> sublist ''wire version mismatch'' ''timeout''" "\<not> (is_terminal_error ''timeout'' \<or> 4 \<le> (0::nat))"
    by code_simp+
  from failed_attempt_outcome [OF demo_entry_file(1,3), of "''timeout''" 1000, unfolded if_not_P [OF n(1)] if_not_P [OF n(2)]]
  have o: "attempt_count (load_entry_meta ''s1'' ''m1'' (handle_flush_failure 1000 ''s1'' ''m1'' ''timeout'' demo_entry)) = int (0 + 1)"
    "attempt_due t ''s1'' ''m1'' (handle_flush_failure 1000 ''s1'' ''m1'' ''timeout'' demo_entry) \<longleftrightarrow> 1000 + 5 * 2 ^ 0 \<le> t" for t
    by blast+
  show ?thesis unfolding o by simp
qed

theorem dead_letter_requeue_round_trip_witness:
  "\<exists>u. dead_letter_requeue 2000 ''s1'' ''m1'' (dead_letter 1000 ''s1'' ''m1'' ''gone'' demo_entry) = (True, u) \<and>
     node_at u (outbox_file ''s1'' ''m1'') = Some (File (Doc (JObj demo_msg)) 1000) \<and> attempt_due 2000 ''s1'' ''m1'' u"
  using dead_letter_requeue_round_trip [OF demo_entry_file(1,2), of 2000 1000 "''gone''"] by blast


text \<open>The sweep also removes the attempts of an entry that is still pending.\<close>

definition old_entry :: fs where
  "old_entry = [([''_outbox''], Dir), ([''_outbox'', ''s1''], Dir),
     ([''_outbox'', ''s1'', ''m1.json''], File (Doc (JObj demo_msg)) 1000),
     ([''_outbox'', ''s1'', ''.status-m1''], Dir),
     ([''_outbox'', ''s1'', ''.status-m1'', ''meta.json''], File (Doc (JObj [(''attempt_count'', JInt 4)])) 1000)]"

lemma sweep_forgets_attempts:
  "attempt_count (load_entry_meta ''s1'' ''m1'' old_entry) = 4 \<and>
   attempt_count (load_entry_meta ''s1'' ''m1'' (sweep (\<lambda>_. 1000) 1000000 retention_s old_entry)) = 0 \<and>
   exists_at (sweep (\<lambda>_. 1000) 1000000 retention_s old_entry) (outbox_file ''s1'' ''m1'')"
  by code_simp

end
