(* ===== verification/Delivery_Contract.thy ===== *)
theory Delivery_Contract
  imports Outbox_Retries
begin

text \<open>
  The contract between the kernel and its delivery sinks. A sink that answers for a fresh message
  id with anything but a failure holds the message from then on, and delivering other messages
  takes it away from no one. The kernel's fan-outs over such a sink hold every message they report;
  the local sink keeps the contract with the session history, the delivery engine with its outbox.
\<close>

section \<open>The contract\<close>

locale delivery_contract =
  fixes sink :: "'s delivery_sink"
    and held :: "string \<Rightarrow> string \<Rightarrow> 's \<Rightarrow> bool"
    and fresh :: "string \<Rightarrow> 's \<Rightarrow> bool"
  assumes takes_on: "sink sid rcpt e mid created sender x = (Inr r, x') \<Longrightarrow> fresh mid x \<Longrightarrow>
      rp_status r \<noteq> ''failed'' \<Longrightarrow> held sid mid x'"
    and keeps: "sink sid rcpt e mid created sender x = (y, x') \<Longrightarrow> fresh mid x \<Longrightarrow> held sid' m x \<Longrightarrow> held sid' m x'"
    and stays_fresh: "sink sid rcpt e mid created sender x = (y, x') \<Longrightarrow> fresh m x \<Longrightarrow> m \<noteq> mid \<Longrightarrow> fresh m x'"
begin

lemma fan_out_keeps:
  "fan_out sink sid e created sender ps x = (y, x') \<Longrightarrow> \<forall>p \<in> set ps. fresh (snd p) x \<Longrightarrow> distinct (map snd ps) \<Longrightarrow>
   held sid' m x \<Longrightarrow> held sid' m x'"
proof (induction ps arbitrary: x y)
  case (Cons p ps)
  obtain rcpt mid where p: "p = (rcpt, mid)" by fastforce
  obtain z x1 where z: "sink sid rcpt e mid created sender x = (z, x1)" by fastforce
  have h: "held sid' m x1" using keeps [OF z] Cons.prems p by simp
  have "\<forall>q \<in> set ps. fresh (snd q) x1"
    using stays_fresh [OF z] Cons.prems(2,3) p by force
  with Cons.IH h Cons.prems(1,3) p z show ?case by (auto split: sum.splits prod.splits)
qed simp

lemma fan_out_holds:
  "fan_out sink sid e created sender ps x = (Inr drs, x') \<Longrightarrow> \<forall>p \<in> set ps. fresh (snd p) x \<Longrightarrow> distinct (map snd ps) \<Longrightarrow>
   \<forall>d \<in> set drs. dr_status d \<noteq> ''failed'' \<longrightarrow> held sid (dr_msg_id d) x'"
proof (induction ps arbitrary: x drs)
  case (Cons p ps)
  obtain rcpt mid where p: "p = (rcpt, mid)" by fastforce
  obtain z x1 where z: "sink sid rcpt e mid created sender x = (z, x1)" by fastforce
  from Cons.prems(1) p z obtain r drs' where r: "z = Inr r"
    and f: "fan_out sink sid e created sender ps x1 = (Inr drs', x')"
    and drs: "drs = \<lparr>dr_msg_id = mid, dr_recipient = rcpt, dr_status = rp_status r, dr_error = rp_error r\<rparr> # drs'"
    by (auto split: sum.splits prod.splits)
  have fr: "\<forall>q \<in> set ps. fresh (snd q) x1" using stays_fresh [OF z] Cons.prems(2,3) p by force
  have "rp_status r \<noteq> ''failed'' \<Longrightarrow> held sid mid x1"
    using takes_on [OF z [unfolded r]] Cons.prems(2) p by simp
  then have "rp_status r \<noteq> ''failed'' \<Longrightarrow> held sid mid x'"
    using fan_out_keeps [OF f fr] Cons.prems(3) by simp
  with Cons.IH [OF f fr] Cons.prems(3) drs show ?case by simp
qed simp

lemma broadcast_holds:
  assumes "broadcast sink c sid sender e k x = (Inr drs, x')" "inj (ca_uuids c)" "\<forall>n. fresh (ca_uuids c n) x"
  shows "\<forall>d \<in> set drs. dr_status d \<noteq> ''failed'' \<longrightarrow> held sid (dr_msg_id d) x'"
proof -
  from assms(1) have "\<exists>ss :: session. fan_out sink sid (ensure_trace_id (ca_trace c) e) (iso_format (ca_now c)) sender
      (assign_ids (ca_uuids c) (roster_without (ss_roster ss) sender)) x = (Inr drs, x')"
    by (auto simp: broadcast_def split: sum.splits option.splits)
  then obtain ss :: session where f: "fan_out sink sid (ensure_trace_id (ca_trace c) e) (iso_format (ca_now c)) sender
      (assign_ids (ca_uuids c) (roster_without (ss_roster ss) sender)) x = (Inr drs, x')" ..
  show ?thesis
    by (rule fan_out_holds [OF f])
       (use assms(2,3) in \<open>auto simp: assign_ids_def distinct_map inj_on_def inj_def set_zip\<close>)
qed

lemma direct_holds:
  assumes "direct sink c sid sender rcpt e k x = (Inr r, x')" "fresh (ca_uuids c 0) x" "kr_status r \<noteq> ''failed''"
  shows "held sid (kr_msg_id r) x'"
  using assms takes_on by (auto simp: direct_def split: sum.splits option.splits prod.splits)

end

section \<open>The delivery engine\<close>

lemma deliver_other_cache:
  assumes "deliver ev session target env g s = (r, g', s')" "m \<noteq> sget env ''msg_id''"
  shows "map_of (g_cache g') m = map_of (g_cache g) m"
proof -
  let ?m = "sget env ''msg_id''"
  have c: "map_of (g_cache (cache_receipt ?m x h)) m = map_of (g_cache h) m" for x h
    using assms(2) by (simp add: cache_receipt_def update_conv')
  have new: "map_of (g_cache g2) m = map_of (g_cache g1) m"
    if "deliver_new ev target sid ?m env' g1 s = (r, g2, s2)" for sid env' g1 g2 s2
  proof (cases "target_here ev target")
    case True
    with that c show ?thesis by (auto simp: deliver_new_def Let_def split: prod.splits sum.splits)
  next
    case False
    obtain y g3 where y: "remote_send ev (the target) env' (cache_receipt ?m (accepted_of ?m) g1)
        (write_outbox (ev_now ev) sid ?m env' s) = (y, g3)" by fastforce
    from remote_send_cache [OF y] False that y c show ?thesis by (cases y) (auto simp: deliver_new_def Let_def)
  qed
  obtain x g1 where i: "check_idempotency (sget_or env ''session_id'' session) ?m g s = (x, g1)" by fastforce
  then have "map_of (g_cache g1) m = map_of (g_cache g) m"
    using c by (auto simp: check_idempotency_def Let_def split: option.splits if_splits)
  with assms(1) i c new show ?thesis
    by (cases x) (auto simp: deliver_def Let_def split: if_splits)
qed

definition engine_held :: "string \<Rightarrow> string \<Rightarrow> engine \<times> fs \<Rightarrow> bool" where
  "engine_held sid mid gs \<longleftrightarrow> plain_id mid \<and> secured sid mid (snd gs)"

definition engine_fresh :: "string \<Rightarrow> engine \<times> fs \<Rightarrow> bool" where
  "engine_fresh mid gs \<longleftrightarrow> plain_id mid \<and> map_of (g_cache (fst gs)) mid = None"

text \<open>A delivery through the sink of the kernel is a \<open>deliver\<close> of the envelope with the same cache and tree.\<close>

lemma engine_sink_deliver:
  assumes "engine_sink ev k sid rcpt e mid created sender (g, s) = (y, (g', s'))"
  obtains r target env h where "y = Inr r" "deliver ev sid target env h s = (r, g', s')" "g_cache h = g_cache g"
    "sget env ''msg_id'' = mid" "sget_or env ''session_id'' sid = sid"
proof -
  define h where "h = (case get_location sid rcpt k of
      None \<Rightarrow> g
    | Some loc \<Rightarrow>
        if al_host_alias loc = [] \<or> al_host_alias loc = ''__local__'' then g
        else (case map_of (ev_repo_map ev) (al_host_alias loc) of
            Some spec \<Rightarrow> if resolve_is_local (ev_hostname ev) spec then g else cache_host rcpt (copied_host spec) g
          | None \<Rightarrow> cache_host rcpt (plain_host (al_host_alias loc) [al_host_alias loc]) g))"
  have h: "g_cache h = g_cache g" "deliver_sink ev sid rcpt e mid created sender (h, s) = (y, (g', s'))"
    using assms by (simp_all add: engine_sink_def Let_def h_def cache_host_def split: option.splits)
  have env: "sget (envelope_dict sid rcpt e mid created sender) ''msg_id'' = mid"
    "sget_or (envelope_dict sid rcpt e mid created sender) ''session_id'' sid = sid"
    by (simp_all add: envelope_dict_def sget_def sget_or_def dget_or_base)
  show thesis
  proof (cases "map_of (g_hosts h) rcpt")
    case None
    with h env show thesis by (auto simp: deliver_sink_def Let_def split: prod.splits intro!: that)
  next
    case (Some a)
    let ?env = "dset (envelope_dict sid rcpt e mid created sender) ''_target_host'' (JStr (hs_ssh_alias a))"
    have "sget ?env ''msg_id'' = mid" "sget_or ?env ''session_id'' sid = sid"
      using env by (simp_all add: sget_or_def)
    with h Some show thesis by (auto simp: deliver_sink_def Let_def split: prod.splits intro!: that)
  qed
qed

lemma deliver_not_failed:
  assumes "deliver ev session target env g s = (r, g', s')" "sget env ''msg_id'' \<noteq> []"
    "map_of (g_cache g) (sget env ''msg_id'') = None" "rp_status r \<noteq> ''failed''"
  shows "exists_at s (outbox_file (sget_or env ''session_id'' session) (sget env ''msg_id'')) \<or> ev_disk_ok ev"
  using assms by (auto simp: deliver_def Let_def check_idempotency_def failed_of_def split: if_splits)

interpretation outbox: delivery_contract "engine_sink ev k" engine_held engine_fresh for ev k
proof
  fix sid rcpt e mid created sender x r x'
  assume a: "engine_sink ev k sid rcpt e mid created sender x = (Inr r, x')" and f: "engine_fresh mid x"
    and st: "rp_status r \<noteq> ''failed''"
  obtain g s g' s' where x: "x = (g, s)" "x' = (g', s')" by (metis surj_pair)
  from engine_sink_deliver [OF a [unfolded x]] obtain target env h
    where d: "deliver ev sid target env h s = (r, g', s')" and h: "g_cache h = g_cache g"
      and env: "sget env ''msg_id'' = mid" "sget_or env ''session_id'' sid = sid" by (metis Inr_inject)
  have p: "plain_id mid" and c: "map_of (g_cache h) mid = None" using f x h by (auto simp: engine_fresh_def)
  from deliver_not_failed [OF d] st c p env have "exists_at s (outbox_file sid mid) \<or> ev_disk_ok ev"
    by (auto simp: plain_id_def)
  then have "exists_at s' (outbox_file sid mid)"
    using deliver_secures [OF d] files_kept_deliver [OF d] c p env by (auto simp: files_kept_def)
  with p x show "engine_held sid mid x'" by (simp add: engine_held_def secured_def)
next
  fix sid rcpt e mid created sender x y x' sid' m
  assume a: "engine_sink ev k sid rcpt e mid created sender x = (y, x')" and h: "engine_held sid' m x"
  obtain g s g' s' where x: "x = (g, s)" "x' = (g', s')" by (metis surj_pair)
  from engine_sink_deliver [OF a [unfolded x]] obtain r target env j
    where "deliver ev sid target env j s = (r, g', s')" by metis
  from files_entries [OF files_kept_deliver [OF this]] h x show "engine_held sid' m x'"
    by (auto simp: engine_held_def entries_kept_def)
next
  fix sid rcpt e mid created sender x y x' m
  assume a: "engine_sink ev k sid rcpt e mid created sender x = (y, x')" and f: "engine_fresh m x" and ne: "m \<noteq> mid"
  obtain g s g' s' where x: "x = (g, s)" "x' = (g', s')" by (metis surj_pair)
  from engine_sink_deliver [OF a [unfolded x]] obtain r target env j
    where "deliver ev sid target env j s = (r, g', s')" "g_cache j = g_cache g" "sget env ''msg_id'' = mid" by metis
  with deliver_other_cache ne f x show "engine_fresh m x'" by (fastforce simp: engine_fresh_def)
qed

section \<open>The local sink\<close>

text \<open>Where the store keeps a message that was sent: the history, or an inbox of the session.\<close>

definition store_held :: "string \<Rightarrow> string \<Rightarrow> fs \<Rightarrow> bool" where
  "store_held sid m s \<longleftrightarrow> plain_id m \<and>
     (exists_at s (history_file sid m) \<or> (\<exists>rid. exists_at s (inbox_file sid rid m)))"

definition messages_kept :: "fs \<Rightarrow> fs \<Rightarrow> bool" where
  "messages_kept s s' \<longleftrightarrow> (\<forall>sid m. plain_id m \<longrightarrow>
     (exists_at s (history_file sid m) \<longrightarrow> exists_at s' (history_file sid m)) \<and>
     (\<forall>rid. exists_at s (inbox_file sid rid m) \<longrightarrow> exists_at s' (inbox_file sid rid m)))"

lemma messages_kept_trans: "messages_kept s s1 \<Longrightarrow> messages_kept s1 s2 \<Longrightarrow> messages_kept s s2"
  by (simp add: messages_kept_def)

lemma messages_kept_held: "messages_kept s s' \<Longrightarrow> store_held sid m s \<Longrightarrow> store_held sid m s'"
  by (auto simp: messages_kept_def store_held_def)

lemma messages_kept_mkdirs: "messages_kept s (mkdirs q s)"
  by (auto simp: messages_kept_def exists_at_def fs_simps)

lemma messages_kept_envelope: "messages_kept s (write_envelope now sid m d rid s)"
  by (auto simp: messages_kept_def exists_at_def write_envelope_def fs_simps history_file_def inbox_file_def dir_defs)

lemma messages_kept_history:
  "messages_kept s (atomic_write now (history_dir sid @ [tmp_name m]) (history_dir sid @ [json_name m]) j s)"
  by (auto simp: messages_kept_def exists_at_def fs_simps history_file_def inbox_file_def dir_defs)

lemma messages_kept_cursor: "messages_kept s (atomic_write now (session_dir sid @ [x]) (cursor_file sid) j s)"
  by (auto simp: messages_kept_def exists_at_def fs_simps history_file_def inbox_file_def cursor_file_def dir_defs)

interpretation messages: store_frame messages_kept sid for sid
  by unfold_locales
     (auto intro: messages_kept_trans messages_kept_mkdirs messages_kept_envelope messages_kept_history
       messages_kept_cursor simp: messages_kept_def [of s s for s])

lemma find_existing_exists: "find_existing s ps = Some j \<Longrightarrow> \<exists>p \<in> set ps. exists_at s p"
  by (induction ps) (auto split: if_splits loaded.splits json.splits)

lemma send_holds:
  assumes "send now sufs sid a s = Some (Inr r, s')" "sn_msg_id a = Some m" "plain_id m"
  shows "store_held sid m s'"
proof (cases "store_held sid m s")
  case True
  with messages.send_kept [OF assms(1)] show ?thesis by (rule messages_kept_held)
next
  case False
  obtain rs refs where c: "send_checks sid a s = Inr (rs, refs)"
    using assms(1) by (cases "send_checks sid a s") (auto simp: send_def)
  have "find_existing s (map (\<lambda>r. inbox_file sid r m) rs @ [history_file sid m]) = None"
    using False assms(3) find_existing_exists [of s "map (\<lambda>r. inbox_file sid r m) rs @ [history_file sid m]"]
    by (cases "find_existing s (map (\<lambda>r. inbox_file sid r m) rs @ [history_file sid m])") (auto simp: store_held_def)
  then have n: "send_new now sid a m rs refs s = (Inr r, s')"
    using assms(1,2) c by (auto simp: send_def split: if_splits)
  obtain x where "load_at s' (history_file sid m) = Loaded x" by (rule send_new_record [OF n]) blast
  with assms(3) show ?thesis by (auto simp: store_held_def load_at_File exists_at_def)
qed

interpretation local_store: delivery_contract "local_deliver now" store_held "\<lambda>mid _. plain_id mid" for now
proof
  fix sid rcpt e mid created sender x r x'
  assume "local_deliver now sid rcpt e mid created sender x = (Inr r, x')" and p: "plain_id mid"
  then have "\<exists>u. send now [] sid (envelope_args sender rcpt e mid) x = Some (Inr u, x')"
    by (auto simp: local_deliver_def split: option.splits sum.splits prod.splits)
  then obtain u where "send now [] sid (envelope_args sender rcpt e mid) x = Some (Inr u, x')" ..
  then show "store_held sid mid x'" by (rule send_holds) (simp_all add: envelope_args_def p)
next
  fix sid rcpt e mid created sender x y x' sid' m
  assume a: "local_deliver now sid rcpt e mid created sender x = (y, x')" and h: "store_held sid' m x"
  have "x' = x \<or> (\<exists>u. send now [] sid (envelope_args sender rcpt e mid) x = Some (u, x'))"
    using a by (auto simp: local_deliver_def split: option.splits sum.splits prod.splits)
  with h messages.send_kept messages_kept_held show "store_held sid' m x'" by blast
qed

section \<open>Broadcasts over the engine\<close>

text \<open>
  C15. A broadcast over the delivery engine leaves no recipient out. Every message a broadcast
  reports as delivered or accepted has its envelope in the outbox, or among the dead letters, when
  the broadcast returns, also when the deliveries to other recipients failed.
\<close>

theorem broadcast_durable:
  assumes "broadcast (engine_sink ev k) c sid sender e k (g, s) = (Inr drs, (g', s'))" "inj (ca_uuids c)"
    and "\<forall>n. plain_id (ca_uuids c n) \<and> map_of (g_cache g) (ca_uuids c n) = None"
  shows "\<forall>d \<in> set drs. dr_status d \<noteq> ''failed'' \<longrightarrow>
    exists_at s' (outbox_file sid (dr_msg_id d)) \<or> exists_at s' (dead_file sid (dr_msg_id d))"
proof -
  have "\<forall>n. engine_fresh (ca_uuids c n) (g, s)" using assms(3) by (simp add: engine_fresh_def)
  from outbox.broadcast_holds [OF assms(1,2) this] show ?thesis by (simp add: engine_held_def secured_def)
qed

theorem broadcast_durable_witness:
  "\<exists>drs g' s'. broadcast (engine_sink demo_env demo_kernel) demo_call ''s1'' ''boss'' demo_envelope demo_kernel
       (new_engine, []) = (Inr drs, (g', s')) \<and> length drs = 2 \<and>
     (exists_at s' (outbox_file ''s1'' (dr_msg_id (hd drs))) \<or> exists_at s' (dead_file ''s1'' (dr_msg_id (hd drs))))"
proof -
  have "(case broadcast (engine_sink demo_env demo_kernel) demo_call ''s1'' ''boss'' demo_envelope demo_kernel
      (new_engine, []) of (Inr drs, _) \<Rightarrow> length drs = 2 \<and> dr_status (hd drs) \<noteq> ''failed'' | _ \<Rightarrow> False)"
    by code_simp
  then obtain drs g' s' where b: "broadcast (engine_sink demo_env demo_kernel) demo_call ''s1'' ''boss'' demo_envelope
      demo_kernel (new_engine, []) = (Inr drs, (g', s'))" and l: "length drs = 2" "dr_status (hd drs) \<noteq> ''failed''"
    by (auto split: prod.splits sum.splits)
  have "\<forall>n. plain_id (ca_uuids demo_call n) \<and> map_of (g_cache new_engine) (ca_uuids demo_call n) = None"
    by (simp add: demo_call_def new_engine_def plain_id_def)
  from broadcast_durable [OF b demo_uuids this] l have
    "exists_at s' (outbox_file ''s1'' (dr_msg_id (hd drs))) \<or> exists_at s' (dead_file ''s1'' (dr_msg_id (hd drs)))"
    by (cases drs) auto
  with b l show ?thesis by blast
qed

end
