(* ===== verification/Py_Numbers.thy ===== *)
theory Py_Numbers
  imports Py_Values
begin

text \<open>Decimal numerals of Python integers, as \<open>str\<close> and \<open>json.dumps\<close> write them.\<close>

text \<open>\<open>str(n)\<close> of an integer.\<close>

definition str_int :: "int \<Rightarrow> string" where
  "str_int n = (if n < 0 then CHR ''-'' # digits (nat (- n)) else digits (nat n))"

lemma digits_ne [simp]: "digits n \<noteq> []"
  by (subst digits.simps) simp

lemma str_int_digits [simp]: "0 \<le> n \<Longrightarrow> list_all is_digit (str_int n)"
  using digits_is_digit [of "nat n"] by (auto simp: str_int_def list_all_iff)

lemma nat_of_str_int [simp]: "0 \<le> n \<Longrightarrow> nat_of_digits (str_int n) = nat n"
  by (simp add: str_int_def nat_of_digits_digits)

lemma digits_not_minus: "CHR ''-'' # xs \<noteq> digits i"
proof
  assume "CHR ''-'' # xs = digits i"
  with digits_is_digit [of i] have "is_digit (CHR ''-'')" by (metis list.set_intros(1))
  then show False by (simp add: is_digit_def code_def)
qed

lemma str_int_inject [simp]: "str_int m = str_int n \<longleftrightarrow> m = n"
proof
  assume e: "str_int m = str_int n"
  have inj: "i = j" if "digits i = digits j" for i j using that by (metis nat_of_digits_digits)
  from e show "m = n"
    using inj digits_not_minus digits_not_minus [symmetric]
    by (auto simp: str_int_def split: if_splits) fastforce+
qed simp

end
