(* ===== verification/Park_Snapshot.thy ===== *)
theory Park_Snapshot
  imports File_System Py_Numbers "HOL-Library.Monad_Syntax"
begin

text \<open>
  \<open>park/snapshot.py\<close> and \<open>park/inject.py\<close>: the structured summaries kept of a parked reviewer,
  one JSON file per round under \<open>snapshots/<review_key>/\<close> of the park data directory, and the
  context a new instance is given when it is rebuilt from them. The tree is the one of
  \<open>File_System\<close>, rooted at the park data directory.

  The data class does not check the types of its fields. The model has them with their declared
  types, and a document in which a field has another type is answered like one with an unknown
  field, by \<open>TypeError\<close>; the files are only written by \<open>save_snapshot\<close>, and
  \<open>latest_is_highest_round\<close> shows that they always load.
\<close>

section \<open>Typed fields of a decoded document\<close>

definition field_str :: "dict \<Rightarrow> string \<Rightarrow> string option" where
  "field_str d k = (case dget_or d k (JStr []) of JStr s \<Rightarrow> Some s | _ \<Rightarrow> None)"

definition field_int :: "dict \<Rightarrow> string \<Rightarrow> int \<Rightarrow> int option" where
  "field_int d k n = (case dget_or d k (JInt n) of JInt i \<Rightarrow> Some i | _ \<Rightarrow> None)"

definition field_num :: "dict \<Rightarrow> string \<Rightarrow> rat option" where
  "field_num d k = (case dget_or d k (JFloat 0) of
       JFloat r \<Rightarrow> Some r | JInt i \<Rightarrow> Some (of_int i) | _ \<Rightarrow> None)"

fun str_list :: "json \<Rightarrow> string list option" where
  "str_list (JArr xs) = (if list_all is_str xs then Some (map the_str xs) else None)"
| "str_list _ = None"

definition field_strs :: "dict \<Rightarrow> string \<Rightarrow> string list option" where
  "field_strs d k = str_list (dget_or d k (JArr []))"

lemma all_str_JStr [simp]: "list_all is_str (map JStr xs)"
  by (simp add: list_all_iff)

lemma the_str_JStr [simp]: "the_str \<circ> JStr = id"
  by (simp add: fun_eq_iff)

section \<open>Snapshots\<close>

datatype park_error = PkValueError | PkTypeError | PkJsonError | PkOSError

record review_snapshot =
  rs_review_key :: string
  rs_round :: int
  rs_last_question :: string
  rs_last_conclusion :: string
  rs_standing_constraints :: "string list"
  rs_evidence_list :: "string list"
  rs_rejected_approaches :: "string list"
  rs_unconfirmed_assumptions :: "string list"
  rs_pending_questions :: "string list"
  rs_recent_changes :: "string list"
  rs_artifact_refs :: "string list"
  rs_generated_at :: instant

definition is_review_key_char :: "char \<Rightarrow> bool" where
  "is_review_key_char c \<longleftrightarrow> is_id_char c \<or> c = CHR '':''"

definition REVIEW_KEY_RE :: "string \<Rightarrow> bool" where
  "REVIEW_KEY_RE = match_dollar (\<lambda>s. 1 \<le> length s \<and> length s \<le> 128 \<and> list_all is_review_key_char s)"

definition snapshot_path :: "string \<Rightarrow> path" where
  "snapshot_path k = [''snapshots'', k]"

definition snapshot_dir :: "string \<Rightarrow> fs \<Rightarrow> (park_error + path) \<times> fs" where
  "snapshot_dir k s =
     (if k = ''.'' \<or> k = ''..'' \<or> \<not> REVIEW_KEY_RE k then (Inl PkValueError, s)
      else (Inr (snapshot_path k), mkdirs (snapshot_path k) s))"

definition round_file :: "int \<Rightarrow> string" where
  "round_file n = ''round_'' @ str_int n @ dot_json"

definition snapshot_to_json :: "instant \<Rightarrow> review_snapshot \<Rightarrow> json" where
  "snapshot_to_json now r = JObj
     [(''review_key'', JStr (rs_review_key r)),
      (''round'', JInt (rs_round r)),
      (''last_question'', JStr (rs_last_question r)),
      (''last_conclusion'', JStr (rs_last_conclusion r)),
      (''standing_constraints'', JArr (map JStr (rs_standing_constraints r))),
      (''evidence_list'', JArr (map JStr (rs_evidence_list r))),
      (''rejected_approaches'', JArr (map JStr (rs_rejected_approaches r))),
      (''unconfirmed_assumptions'', JArr (map JStr (rs_unconfirmed_assumptions r))),
      (''pending_questions'', JArr (map JStr (rs_pending_questions r))),
      (''recent_changes'', JArr (map JStr (rs_recent_changes r))),
      (''artifact_refs'', JArr (map JStr (rs_artifact_refs r))),
      (''generated_at'', JFloat (if rs_generated_at r = 0 then now else rs_generated_at r))]"

definition save_snapshot :: "instant \<Rightarrow> review_snapshot \<Rightarrow> fs \<Rightarrow> (park_error + path) \<times> fs" where
  "save_snapshot now r s = (case snapshot_dir (rs_review_key r) s of
       (Inl e, s1) \<Rightarrow> (Inl e, s1)
     | (Inr d, s1) \<Rightarrow>
         (let p = d @ [round_file (rs_round r)] in
          (Inr p, write_doc now p (snapshot_to_json now r) s1)))"

definition SNAPSHOT_FIELDS :: "string list" where
  "SNAPSHOT_FIELDS = [''review_key'', ''round'', ''last_question'', ''last_conclusion'',
     ''standing_constraints'', ''evidence_list'', ''rejected_approaches'',
     ''unconfirmed_assumptions'', ''pending_questions'', ''recent_changes'', ''artifact_refs'',
     ''generated_at'']"

text \<open>\<open>ReviewSnapshot(**d)\<close>: the first two fields have no default.\<close>

definition snapshot_of_dict :: "dict \<Rightarrow> review_snapshot option" where
  "snapshot_of_dict d =
     (if list_all (\<lambda>k. k \<in> set SNAPSHOT_FIELDS) (map fst d) \<and> has_key d ''review_key'' \<and>
         has_key d ''round''
      then do {
        k \<leftarrow> field_str d ''review_key'';
        n \<leftarrow> field_int d ''round'' 0;
        q \<leftarrow> field_str d ''last_question'';
        c \<leftarrow> field_str d ''last_conclusion'';
        sc \<leftarrow> field_strs d ''standing_constraints'';
        ev \<leftarrow> field_strs d ''evidence_list'';
        rj \<leftarrow> field_strs d ''rejected_approaches'';
        un \<leftarrow> field_strs d ''unconfirmed_assumptions'';
        pq \<leftarrow> field_strs d ''pending_questions'';
        rc \<leftarrow> field_strs d ''recent_changes'';
        ar \<leftarrow> field_strs d ''artifact_refs'';
        g \<leftarrow> field_num d ''generated_at'';
        Some \<lparr>rs_review_key = k, rs_round = n, rs_last_question = q, rs_last_conclusion = c,
          rs_standing_constraints = sc, rs_evidence_list = ev, rs_rejected_approaches = rj,
          rs_unconfirmed_assumptions = un, rs_pending_questions = pq, rs_recent_changes = rc,
          rs_artifact_refs = ar, rs_generated_at = g\<rparr>
      }
      else None)"

text \<open>\<open>with open(path) as f: return ReviewSnapshot(**json.load(f))\<close>.\<close>

definition open_snapshot :: "path \<Rightarrow> fs \<Rightarrow> park_error + review_snapshot" where
  "open_snapshot p s = (case load_at s p of
       Missing \<Rightarrow> Inl PkOSError
     | Undecodable \<Rightarrow> Inl PkJsonError
     | Loaded (JObj d) \<Rightarrow> (case snapshot_of_dict d of None \<Rightarrow> Inl PkTypeError | Some r \<Rightarrow> Inr r)
     | Loaded _ \<Rightarrow> Inl PkTypeError)"

definition load_snapshot ::
  "string \<Rightarrow> int \<Rightarrow> fs \<Rightarrow> (park_error + review_snapshot option) \<times> fs" where
  "load_snapshot k n s = (case snapshot_dir k s of
       (Inl _, s1) \<Rightarrow> (Inr None, s1)
     | (Inr d, s1) \<Rightarrow>
         (let p = d @ [round_file n] in
          if \<not> exists_at s1 p then (Inr None, s1)
          else (map_sum id Some (open_snapshot p s1), s1)))"

text \<open>
  \<open>str.isdigit\<close> on Latin-1: besides the ten digits it accepts the superscripts one, two and
  three, which \<open>int\<close> then rejects.
\<close>

definition py_isdigit :: "string \<Rightarrow> bool" where
  "py_isdigit x \<longleftrightarrow> x \<noteq> [] \<and> list_all (\<lambda>c. is_digit c \<or> code c \<in> {178, 179, 185}) x"

definition round_part :: "string \<Rightarrow> string" where
  "round_part n = drop 6 (stem n)"

definition round_names :: "path \<Rightarrow> fs \<Rightarrow> string list" where
  "round_names d s =
     filter (\<lambda>n. glob_match ''round_'' dot_json n \<and> py_isdigit (round_part n)) (children s d)"

definition latest_snapshot :: "string \<Rightarrow> fs \<Rightarrow> (park_error + review_snapshot option) \<times> fs" where
  "latest_snapshot k s = (case snapshot_dir k s of
       (Inl _, s1) \<Rightarrow> (Inr None, s1)
     | (Inr d, s1) \<Rightarrow>
         (let ns = round_names d s1 in
          if \<not> list_all (\<lambda>n. list_all is_digit (round_part n)) ns then (Inl PkValueError, s1)
          else if ns = [] then (Inr None, s1)
          else (map_sum id Some
                  (open_snapshot (d @ [last (sort_key (\<lambda>n. nat_of_digits (round_part n)) ns)]) s1),
                s1)))"

section \<open>Cold reconstruction\<close>

text \<open>
  What \<open>build_cold_context\<close> puts into its prompt. The fixed wording around the values is Chinese
  and is not spelled out; \<open>_fmt\<close> prints a list or, when it is empty, a fixed mark.
\<close>

datatype cold_context =
    No_history string
  | Inherited string int string string "string list" "string list" "string list" "string list"

definition build_cold_context :: "string \<Rightarrow> fs \<Rightarrow> (park_error + cold_context) \<times> fs" where
  "build_cold_context k s = (case latest_snapshot k s of
       (Inl e, s1) \<Rightarrow> (Inl e, s1)
     | (Inr None, s1) \<Rightarrow> (Inr (No_history k), s1)
     | (Inr (Some r), s1) \<Rightarrow> (Inr (Inherited k (rs_round r) (rs_last_question r)
         (rs_last_conclusion r) (rs_standing_constraints r) (rs_evidence_list r)
         (rs_rejected_approaches r) (rs_pending_questions r)), s1))"

section \<open>Saved snapshots\<close>

definition valid_review_key :: "string \<Rightarrow> bool" where
  "valid_review_key k \<longleftrightarrow> k \<noteq> ''.'' \<and> k \<noteq> ''..'' \<and> REVIEW_KEY_RE k"

definition stamp :: "instant \<Rightarrow> review_snapshot \<Rightarrow> review_snapshot" where
  "stamp now r = r\<lparr>rs_generated_at := if rs_generated_at r = 0 then now else rs_generated_at r\<rparr>"

lemma snapshot_dir_valid [simp]:
  "valid_review_key k \<Longrightarrow> snapshot_dir k s = (Inr (snapshot_path k), mkdirs (snapshot_path k) s)"
  "\<not> valid_review_key k \<Longrightarrow> snapshot_dir k s = (Inl PkValueError, s)"
  by (auto simp: valid_review_key_def snapshot_dir_def)

lemma snapshot_of_json:
  "\<exists>d. snapshot_to_json now r = JObj d \<and> snapshot_of_dict d = Some (stamp now r)"
  by (cases r) (simp add: snapshot_to_json_def snapshot_of_dict_def SNAPSHOT_FIELDS_def has_key_def
      field_str_def field_int_def field_num_def field_strs_def dget_or_def stamp_def)

lemma open_snapshot_written:
  "node_at s p = Some (File (Doc (snapshot_to_json now r)) t) \<Longrightarrow> open_snapshot p s = Inr (stamp now r)"
  using snapshot_of_json [of now r] by (auto simp: open_snapshot_def load_at_def)

lemma open_snapshot_cong: "node_at s p = node_at s' p \<Longrightarrow> open_snapshot p s = open_snapshot p s'"
  by (simp add: open_snapshot_def load_at_def)

lemma round_part_round_file [simp]: "round_part (round_file n) = str_int n"
proof -
  have "stem ((''round_'' @ str_int n) @ dot_json) = ''round_'' @ str_int n" by (rule stem_json) simp
  then show ?thesis by (simp add: round_part_def round_file_def)
qed

lemma py_isdigit_str_int [simp]: "py_isdigit (str_int n) \<longleftrightarrow> 0 \<le> n"
  using digits_is_digit [of "nat n"]
  by (auto simp: py_isdigit_def str_int_def list_all_iff is_digit_def code_def)

lemma in_round_names:
  "n \<in> set (round_names d s) \<longleftrightarrow>
     glob_match ''round_'' dot_json n \<and> py_isdigit (round_part n) \<and> exists_at s (d @ [n])"
  by (auto simp: round_names_def in_children)

lemma round_file_in_round_names:
  "round_file n \<in> set (round_names d s) \<longleftrightarrow> 0 \<le> n \<and> exists_at s (d @ [round_file n])"
proof -
  have "glob_match ''round_'' dot_json (round_file n)"
    using glob_match_self [of "''round_''" dot_json "str_int n"] by (simp add: round_file_def)
  then show ?thesis by (simp add: in_round_names)
qed

text \<open>Every round file of a review holds a snapshot of that review and of that round.\<close>

definition snaps_ok :: "fs \<Rightarrow> bool" where
  "snaps_ok s \<longleftrightarrow> (\<forall>k n. n \<in> set (round_names (snapshot_path k) s) \<longrightarrow>
     (\<exists>r. n = round_file (rs_round r) \<and> 0 \<le> rs_round r \<and> rs_review_key r = k \<and>
        open_snapshot (snapshot_path k @ [n]) s = Inr r))"

lemma node_at_mkdirs_snapshot [simp]:
  "node_at (mkdirs (snapshot_path k) s) (snapshot_path k' @ [n]) = node_at s (snapshot_path k' @ [n])"
  by (auto simp: node_at_mkdirs snapshot_path_def prefix_Cons)

lemma round_names_mkdirs [simp]:
  "n \<in> set (round_names (snapshot_path k') (mkdirs (snapshot_path k) s)) \<longleftrightarrow>
   n \<in> set (round_names (snapshot_path k') s)"
  by (simp add: in_round_names exists_at_def)

lemma snaps_ok_Nil [simp]: "snaps_ok []"
  by (simp add: snaps_ok_def in_round_names exists_at_def node_at_def)

lemma open_snapshot_mkdirs [simp]:
  "open_snapshot (snapshot_path k' @ [n]) (mkdirs (snapshot_path k) s) =
   open_snapshot (snapshot_path k' @ [n]) s"
  by (rule open_snapshot_cong) simp

lemma snaps_ok_mkdirs [simp]: "snaps_ok (mkdirs (snapshot_path k) s) = snaps_ok s"
  by (simp add: snaps_ok_def)

lemma save_snapshot_valid:
  "valid_review_key (rs_review_key r) \<Longrightarrow> save_snapshot now r s =
     (Inr (snapshot_path (rs_review_key r) @ [round_file (rs_round r)]),
      write_doc now (snapshot_path (rs_review_key r) @ [round_file (rs_round r)])
        (snapshot_to_json now r) (mkdirs (snapshot_path (rs_review_key r)) s))"
  by (simp add: save_snapshot_def Let_def)

lemma save_snapshot_invalid:
  "\<not> valid_review_key (rs_review_key r) \<Longrightarrow> save_snapshot now r s = (Inl PkValueError, s)"
  by (simp add: save_snapshot_def)

lemma snaps_ok_write:
  assumes ok: "snaps_ok s"
  shows "snaps_ok (write_doc now (snapshot_path (rs_review_key r) @ [round_file (rs_round r)])
      (snapshot_to_json now r) s)" (is "snaps_ok ?s")
  unfolding snaps_ok_def
proof (intro allI impI)
  let ?p = "snapshot_path (rs_review_key r) @ [round_file (rs_round r)]"
  fix k n
  assume n: "n \<in> set (round_names (snapshot_path k) ?s)"
  show "\<exists>q. n = round_file (rs_round q) \<and> 0 \<le> rs_round q \<and> rs_review_key q = k \<and>
    open_snapshot (snapshot_path k @ [n]) ?s = Inr q"
  proof (cases "snapshot_path k @ [n] = ?p")
    case True
    have "open_snapshot ?p ?s = Inr (stamp now r)"
      by (rule open_snapshot_written [where t = now]) (simp add: node_at_write_doc)
    moreover from True have kn: "k = rs_review_key r" "n = round_file (rs_round r)"
      by (simp_all add: snapshot_path_def)
    moreover have "0 \<le> rs_round r" using n unfolding kn by (simp add: round_file_in_round_names)
    ultimately show ?thesis using True by (intro exI [of _ "stamp now r"]) (simp add: stamp_def)
  next
    case False
    then have same: "node_at ?s (snapshot_path k @ [n]) = node_at s (snapshot_path k @ [n])"
      by (auto simp add: node_at_write_doc)
    with n have "n \<in> set (round_names (snapshot_path k) s)" by (simp add: in_round_names exists_at_def)
    with ok show ?thesis using open_snapshot_cong [OF same] by (auto simp: snaps_ok_def)
  qed
qed

lemma snaps_ok_save: "snaps_ok s \<Longrightarrow> snaps_ok (snd (save_snapshot now r s))"
  by (cases "valid_review_key (rs_review_key r)")
     (simp_all add: save_snapshot_valid save_snapshot_invalid snaps_ok_write)

lemma snapshot_path_inject [simp]: "snapshot_path k = snapshot_path k' \<longleftrightarrow> k = k'"
  by (simp add: snapshot_path_def)

section \<open>What a review is rebuilt from\<close>

lemma latest_snapshot_ok:
  assumes ok: "snaps_ok s" and k: "valid_review_key k"
  shows "\<exists>q. fst (latest_snapshot k s) = Inr q \<and> (q = None \<longleftrightarrow> round_names (snapshot_path k) s = []) \<and>
    (\<forall>r. q = Some r \<longrightarrow> rs_review_key r = k \<and> round_file (rs_round r) \<in> set (round_names (snapshot_path k) s) \<and>
       open_snapshot (snapshot_path k @ [round_file (rs_round r)]) s = Inr r \<and>
       (\<forall>n. round_file n \<in> set (round_names (snapshot_path k) s) \<longrightarrow> n \<le> rs_round r))"
proof -
  let ?s = "mkdirs (snapshot_path k) s"
  let ?ns = "round_names (snapshot_path k) ?s"
  let ?key = "\<lambda>n. nat_of_digits (round_part n)"
  have mem: "n \<in> set ?ns \<longleftrightarrow> n \<in> set (round_names (snapshot_path k) s)" for n by simp
  have dig: "list_all (\<lambda>n. list_all is_digit (round_part n)) ?ns"
    unfolding list_all_iff [of _ ?ns]
  proof
    fix n assume "n \<in> set ?ns"
    then have "n \<in> set (round_names (snapshot_path k) s)" by simp
    with ok obtain r :: review_snapshot where "n = round_file (rs_round r)" "0 \<le> rs_round r"
      unfolding snaps_ok_def by blast
    then show "list_all is_digit (round_part n)" by simp
  qed
  have nil: "?ns = [] \<longleftrightarrow> round_names (snapshot_path k) s = []"
    unfolding set_empty [symmetric] by (simp only: set_eq_iff mem)
  show ?thesis
  proof (cases "?ns = []")
    case True
    with k dig nil show ?thesis by (simp add: latest_snapshot_def Let_def)
  next
    case False
    define m where "m = last (sort_key ?key ?ns)"
    have ne: "sort_key ?key ?ns \<noteq> []" using False by (metis length_0_conv length_sort)
    then have m: "m \<in> set ?ns" unfolding m_def by (metis last_in_set set_sort)
    have srt: "sorted (map ?key (sort_key ?key ?ns))" by simp
    have mx: "?key n \<le> ?key m" if "n \<in> set ?ns" for n
    proof -
      from that obtain i where "i < length (sort_key ?key ?ns)" "n = sort_key ?key ?ns ! i"
        by (metis in_set_conv_nth set_sort)
      with srt show ?thesis unfolding m_def by (simp add: last_conv_nth [OF ne] sorted_iff_nth_mono)
    qed
    have m': "m \<in> set (round_names (snapshot_path k) s)" using m by simp
    with ok obtain r where r: "m = round_file (rs_round r)" "0 \<le> rs_round r"
        "rs_review_key r = k" "open_snapshot (snapshot_path k @ [m]) s = Inr r"
      unfolding snaps_ok_def by blast
    have le: "n \<le> rs_round r" if "round_file n \<in> set (round_names (snapshot_path k) s)" for n
      using mx [of "round_file n"] that r(1,2) by (auto simp: mem round_file_in_round_names)
    from k dig False have "fst (latest_snapshot k s) = Inr (Some r)"
      by (simp add: latest_snapshot_def Let_def m_def [symmetric] r(4))
    moreover have "round_names (snapshot_path k) s \<noteq> []" using False nil by simp
    ultimately show ?thesis using r m' le by (intro exI [of _ "Some r"]) simp
  qed
qed

text \<open>The data directory after a sequence of saves, each at its own instant.\<close>

definition save_all :: "(instant \<times> review_snapshot) list \<Rightarrow> fs" where
  "save_all saves = fold (\<lambda>(t, r) s. snd (save_snapshot t r s)) saves []"

definition saves_of :: "string \<Rightarrow> (instant \<times> review_snapshot) list \<Rightarrow> (instant \<times> review_snapshot) list" where
  "saves_of k = filter (\<lambda>(t, r). rs_review_key r = k \<and> 0 \<le> rs_round r)"

definition latest_of :: "string \<Rightarrow> (instant \<times> review_snapshot) list \<Rightarrow> review_snapshot option" where
  "latest_of k saves = (let xs = saves_of k saves in
     if xs = [] then None
     else (case last (filter (\<lambda>x. rs_round (snd x) = Max (set (map (rs_round \<circ> snd) xs))) xs) of
       (t, r) \<Rightarrow> Some (stamp t r)))"

lemma save_all_snoc: "save_all (xs @ [(t, r)]) = snd (save_snapshot t r (save_all xs))"
  by (simp add: save_all_def)

lemma snaps_ok_save_all: "snaps_ok (save_all xs)"
proof (induction xs rule: rev_induct)
  case Nil
  show ?case by (simp add: save_all_def)
next
  case (snoc x xs)
  then show ?case by (cases x) (simp add: save_all_snoc snaps_ok_save)
qed

lemma round_file_inject [simp]: "round_file m = round_file n \<longleftrightarrow> m = n"
  by (simp add: round_file_def)

lemma node_at_save_all:
  assumes k: "valid_review_key k"
  shows "node_at (save_all xs) (snapshot_path k @ [round_file n]) =
    map_option (\<lambda>(t, r). File (Doc (snapshot_to_json t r)) t)
      (find (\<lambda>(t, r). rs_review_key r = k \<and> rs_round r = n) (rev xs))"
proof (induction xs rule: rev_induct)
  case Nil
  show ?case by (simp add: save_all_def node_at_def)
next
  case (snoc x xs)
  obtain t r where x: "x = (t, r)" by (cases x)
  show ?case
  proof (cases "valid_review_key (rs_review_key r)")
    case True
    with snoc x show ?thesis
      by (auto simp: save_all_snoc save_snapshot_valid node_at_write_doc)
  next
    case False
    with snoc x k show ?thesis by (auto simp: save_all_snoc save_snapshot_invalid)
  qed
qed

lemma find_rev_last:
  "find P (rev xs) = (if filter P xs = [] then None else Some (last (filter P xs)))"
  by (induction xs rule: rev_induct) auto

lemma round_saved:
  assumes k: "valid_review_key k"
  shows "round_file n \<in> set (round_names (snapshot_path k) (save_all xs)) \<longleftrightarrow>
    n \<in> rs_round ` snd ` set (saves_of k xs)"
  by (auto simp: round_file_in_round_names exists_at_def node_at_save_all [OF k] find_None_iff
      saves_of_def image_iff)

lemma names_are_rounds:
  "m \<in> set (round_names (snapshot_path k) (save_all xs)) \<Longrightarrow> \<exists>n. m = round_file n"
  using snaps_ok_save_all [of xs] unfolding snaps_ok_def by blast

lemma open_saved:
  assumes k: "valid_review_key k" and n: "n \<in> rs_round ` snd ` set (saves_of k xs)"
  shows "open_snapshot (snapshot_path k @ [round_file n]) (save_all xs) =
    Inr (case last (filter (\<lambda>x. rs_round (snd x) = n) (saves_of k xs)) of (t, r) \<Rightarrow> stamp t r)"
proof -
  have n0: "0 \<le> n" using n by (auto simp: saves_of_def)
  have eq: "filter (\<lambda>x. rs_round (snd x) = n) (saves_of k xs) =
      filter (\<lambda>(t, r). rs_review_key r = k \<and> rs_round r = n) xs" (is "?l = ?r")
    using n0 by (auto simp: saves_of_def intro!: filter_cong)
  have "?r \<noteq> []" using n by (auto simp: eq [symmetric] filter_empty_conv)
  then have "find (\<lambda>(t, r). rs_review_key r = k \<and> rs_round r = n) (rev xs) = Some (last ?r)"
    by (simp add: find_rev_last)
  then show ?thesis
    unfolding eq
    by (cases "last ?r") (simp add: open_snapshot_written node_at_save_all [OF k])
qed

text \<open>
  The snapshot a review is rebuilt from is the one of the highest round saved for it (rounds are
  compared as numbers, so round 10 is later than round 9), in the version saved last, whatever was
  saved for other reviews and in whatever order; without a save there is none, and loading never
  raises.
\<close>

theorem latest_is_highest_round:
  assumes k: "valid_review_key k"
  shows "fst (latest_snapshot k (save_all saves)) = Inr (latest_of k saves)"
proof -
  let ?s = "save_all saves" and ?R = "rs_round ` snd ` set (saves_of k saves)"
  from latest_snapshot_ok [OF snaps_ok_save_all k, of saves] obtain q where
    q: "fst (latest_snapshot k ?s) = Inr q" and
    nil: "q = None \<longleftrightarrow> round_names (snapshot_path k) ?s = []" and
    some: "\<And>r. q = Some r \<Longrightarrow> round_file (rs_round r) \<in> set (round_names (snapshot_path k) ?s) \<and>
       open_snapshot (snapshot_path k @ [round_file (rs_round r)]) ?s = Inr r \<and>
       (\<forall>n. round_file n \<in> set (round_names (snapshot_path k) ?s) \<longrightarrow> n \<le> rs_round r)"
    by blast
  show ?thesis
  proof (cases q)
    case None
    with nil have "?R = {}" using round_saved [OF k, of _ saves] by (metis all_not_in_conv empty_set)
    with None q show ?thesis by (simp add: latest_of_def)
  next
    case (Some r)
    from some [OF Some] round_saved [OF k, of _ saves]
    have r: "rs_round r \<in> ?R" "\<And>n. n \<in> ?R \<Longrightarrow> n \<le> rs_round r" by auto
    then have "Max ?R = rs_round r" by (intro Max_eqI) auto
    moreover have "saves_of k saves \<noteq> []" using r(1) by auto
    moreover have "Inr r = (Inr (case last (filter (\<lambda>x. rs_round (snd x) = rs_round r) (saves_of k saves))
        of (t, r) \<Rightarrow> stamp t r) :: park_error + review_snapshot)"
      using some [OF Some] open_saved [OF k r(1)] by simp
    ultimately show ?thesis using q Some
      by (auto simp: latest_of_def Let_def image_comp split: prod.splits)
  qed
qed

definition demo_snapshot :: "int \<Rightarrow> string \<Rightarrow> review_snapshot" where
  "demo_snapshot n c = \<lparr>rs_review_key = ''proj:arch'', rs_round = n, rs_last_question = ''q'',
     rs_last_conclusion = c, rs_standing_constraints = [''keep''], rs_evidence_list = [],
     rs_rejected_approaches = [], rs_unconfirmed_assumptions = [], rs_pending_questions = [],
     rs_recent_changes = [], rs_artifact_refs = [], rs_generated_at = 0\<rparr>"

theorem latest_is_highest_round_witness:
  "fst (latest_snapshot ''proj:arch'' (save_all [(5, demo_snapshot 9 ''a''), (6, demo_snapshot 10 ''b''),
      (7, demo_snapshot 2 ''c'')])) =
   Inr (Some ((demo_snapshot 10 ''b'')\<lparr>rs_generated_at := 6\<rparr>))"
proof -
  have "valid_review_key ''proj:arch''"
    by (simp add: valid_review_key_def REVIEW_KEY_RE_def match_dollar_def is_review_key_char_def
        is_id_char_def is_alnum_def code_def)
  then show ?thesis
    by (simp add: latest_is_highest_round)
       (simp add: latest_of_def saves_of_def demo_snapshot_def stamp_def)
qed

lemma save_load_snapshot:
  assumes "valid_review_key (rs_review_key r)"
  shows "fst (load_snapshot (rs_review_key r) (rs_round r) (snd (save_snapshot now r s))) =
    Inr (Some (stamp now r))"
  using assms
  by (simp add: save_snapshot_valid load_snapshot_def Let_def exists_at_def node_at_write_doc
      open_snapshot_written)

end
