(* ===== verification/Park_Registry.thy ===== *)
theory Park_Registry
  imports Park_Snapshot
begin

text \<open>
  \<open>domain/park.py\<close>, \<open>park/constants.py\<close> and \<open>park/registry.py\<close>: the leases of parked reviewers.

  The SQLite table \<open>park_leases\<close> is an association list from the primary key to the row, in the
  order of a table scan; a decoded manifest stands for the text of the column \<open>manifest_json\<close>. A
  statement is atomic, and the per-key file lock and the sweep lock make each operation one step, so
  a run of the registry is a sequence of operations, each with its reading of the clock. The
  manifest has its declared field types; a document in which a field has another type is answered
  by \<open>TypeError\<close>, which \<open>registry_well_typed\<close> shows never happens to rows written by the registry.
\<close>

section \<open>Manifests\<close>

datatype lifecycle = HOT_PARKED | COLD_RESUMABLE | RELEASED_SOFT | RELEASED_HARD | BROKEN

fun lifecycle_value :: "lifecycle \<Rightarrow> string" where
  "lifecycle_value HOT_PARKED = ''hot_parked''"
| "lifecycle_value COLD_RESUMABLE = ''cold_resumable''"
| "lifecycle_value RELEASED_SOFT = ''released_soft''"
| "lifecycle_value RELEASED_HARD = ''released_hard''"
| "lifecycle_value BROKEN = ''broken''"

text \<open>\<open>Lifecycle(value)\<close> with the value of older rows; \<^term>\<open>None\<close> is \<open>ValueError\<close>.\<close>

definition lifecycle_of :: "string \<Rightarrow> lifecycle option" where
  "lifecycle_of v =
     (if v = ''released'' then Some RELEASED_SOFT
      else find (\<lambda>l. lifecycle_value l = v)
        [HOT_PARKED, COLD_RESUMABLE, RELEASED_SOFT, RELEASED_HARD, BROKEN])"

record park_manifest =
  pm_review_key :: string
  pm_swarm_session_id :: string
  pm_agent_type :: string
  pm_model :: string
  pm_primary_model :: string
  pm_host :: string
  pm_workdir :: string
  pm_lifecycle :: lifecycle
  pm_peer_agent_id :: string
  pm_mailbox_agent_id :: string
  pm_backend_session_id :: string
  pm_parent_process_generation :: string
  pm_created_at :: instant
  pm_last_activity_at :: instant
  pm_soft_expires_at :: instant
  pm_hard_expires_at :: instant
  pm_round :: int
  pm_last_msg_id :: string
  pm_summary_uri :: string
  pm_transcript_uri :: string
  pm_artifact_refs :: "string list"
  pm_config_fingerprint :: string
  pm_schema_version :: int
  pm_release_mode :: string
  pm_omp_session_path :: string
  pm_provider :: string
  pm_variant :: string
  pm_system_prompt :: string
  pm_omp_session_dir :: string

definition max_hot_parked :: nat where "max_hot_parked = 3"
definition ttl_seconds :: instant where "ttl_seconds = 3600"
definition hard_limit_seconds :: instant where "hard_limit_seconds = 28800"
definition max_rounds :: int where "max_rounds = 5"

definition manifest_to_dict :: "park_manifest \<Rightarrow> dict" where
  "manifest_to_dict m =
     [(''review_key'', JStr (pm_review_key m)),
      (''swarm_session_id'', JStr (pm_swarm_session_id m)),
      (''agent_type'', JStr (pm_agent_type m)),
      (''model'', JStr (pm_model m)),
      (''primary_model'', JStr (pm_primary_model m)),
      (''host'', JStr (pm_host m)),
      (''workdir'', JStr (pm_workdir m)),
      (''lifecycle'', JStr (lifecycle_value (pm_lifecycle m))),
      (''peer_agent_id'', JStr (pm_peer_agent_id m)),
      (''mailbox_agent_id'', JStr (pm_mailbox_agent_id m)),
      (''backend_session_id'', JStr (pm_backend_session_id m)),
      (''parent_process_generation'', JStr (pm_parent_process_generation m)),
      (''created_at'', JFloat (pm_created_at m)),
      (''last_activity_at'', JFloat (pm_last_activity_at m)),
      (''soft_expires_at'', JFloat (pm_soft_expires_at m)),
      (''hard_expires_at'', JFloat (pm_hard_expires_at m)),
      (''round'', JInt (pm_round m)),
      (''last_msg_id'', JStr (pm_last_msg_id m)),
      (''summary_uri'', JStr (pm_summary_uri m)),
      (''transcript_uri'', JStr (pm_transcript_uri m)),
      (''artifact_refs'', JArr (map JStr (pm_artifact_refs m))),
      (''config_fingerprint'', JStr (pm_config_fingerprint m)),
      (''schema_version'', JInt (pm_schema_version m)),
      (''release_mode'', JStr (pm_release_mode m)),
      (''omp_session_path'', JStr (pm_omp_session_path m)),
      (''provider'', JStr (pm_provider m)),
      (''variant'', JStr (pm_variant m)),
      (''system_prompt'', JStr (pm_system_prompt m)),
      (''omp_session_dir'', JStr (pm_omp_session_dir m))]"

definition MANIFEST_FIELDS :: "string list" where
  "MANIFEST_FIELDS = [''review_key'', ''swarm_session_id'', ''agent_type'', ''model'',
     ''primary_model'', ''host'', ''workdir'', ''lifecycle'', ''peer_agent_id'', ''mailbox_agent_id'',
     ''backend_session_id'', ''parent_process_generation'', ''created_at'', ''last_activity_at'',
     ''soft_expires_at'', ''hard_expires_at'', ''round'', ''last_msg_id'', ''summary_uri'',
     ''transcript_uri'', ''artifact_refs'', ''config_fingerprint'', ''schema_version'',
     ''release_mode'', ''omp_session_path'', ''provider'', ''variant'', ''system_prompt'',
     ''omp_session_dir'']"

text \<open>\<open>ParkManifest(**d)\<close>: a field without a default must be there, an unknown one must not.\<close>

definition manifest_fields :: "lifecycle \<Rightarrow> dict \<Rightarrow> park_manifest option" where
  "manifest_fields l d =
     (if list_all (\<lambda>k. k \<in> set MANIFEST_FIELDS) (map fst d) \<and> has_key d ''review_key'' then do {
        rk \<leftarrow> field_str d ''review_key'';
        sw \<leftarrow> field_str d ''swarm_session_id'';
        ty \<leftarrow> field_str d ''agent_type'';
        mo \<leftarrow> field_str d ''model'';
        pm \<leftarrow> field_str d ''primary_model'';
        ho \<leftarrow> field_str d ''host'';
        wd \<leftarrow> field_str d ''workdir'';
        pa \<leftarrow> field_str d ''peer_agent_id'';
        ma \<leftarrow> field_str d ''mailbox_agent_id'';
        bs \<leftarrow> field_str d ''backend_session_id'';
        pg \<leftarrow> field_str d ''parent_process_generation'';
        ca \<leftarrow> field_num d ''created_at'';
        la \<leftarrow> field_num d ''last_activity_at'';
        se \<leftarrow> field_num d ''soft_expires_at'';
        he \<leftarrow> field_num d ''hard_expires_at'';
        ro \<leftarrow> field_int d ''round'' 0;
        lm \<leftarrow> field_str d ''last_msg_id'';
        su \<leftarrow> field_str d ''summary_uri'';
        tu \<leftarrow> field_str d ''transcript_uri'';
        ar \<leftarrow> field_strs d ''artifact_refs'';
        cf \<leftarrow> field_str d ''config_fingerprint'';
        sv \<leftarrow> field_int d ''schema_version'' 2;
        rm \<leftarrow> field_str d ''release_mode'';
        op \<leftarrow> field_str d ''omp_session_path'';
        pr \<leftarrow> field_str d ''provider'';
        va \<leftarrow> field_str d ''variant'';
        sp \<leftarrow> field_str d ''system_prompt'';
        od \<leftarrow> field_str d ''omp_session_dir'';
        Some \<lparr>pm_review_key = rk, pm_swarm_session_id = sw, pm_agent_type = ty, pm_model = mo,
          pm_primary_model = pm, pm_host = ho, pm_workdir = wd, pm_lifecycle = l,
          pm_peer_agent_id = pa, pm_mailbox_agent_id = ma, pm_backend_session_id = bs,
          pm_parent_process_generation = pg, pm_created_at = ca, pm_last_activity_at = la,
          pm_soft_expires_at = se, pm_hard_expires_at = he, pm_round = ro, pm_last_msg_id = lm,
          pm_summary_uri = su, pm_transcript_uri = tu, pm_artifact_refs = ar,
          pm_config_fingerprint = cf, pm_schema_version = sv, pm_release_mode = rm,
          pm_omp_session_path = op, pm_provider = pr, pm_variant = va, pm_system_prompt = sp,
          pm_omp_session_dir = od\<rparr>
      } else None)"

definition dict_to_manifest :: "dict \<Rightarrow> park_error + park_manifest" where
  "dict_to_manifest d = (case dget_or d ''lifecycle'' (JStr ''hot_parked'') of
       JStr v \<Rightarrow> (case lifecycle_of v of
           None \<Rightarrow> Inl PkValueError
         | Some l \<Rightarrow> (case manifest_fields l d of None \<Rightarrow> Inl PkTypeError | Some m \<Rightarrow> Inr m))
     | _ \<Rightarrow> Inl PkValueError)"

section \<open>The table\<close>

record park_row =
  pr_manifest :: dict
  pr_lifecycle :: string
  pr_soft :: instant
  pr_hard :: instant
  pr_last :: instant

record park =
  pk_rows :: "(string \<times> park_row) list"
  pk_data :: fs

text \<open>\<open>UPDATE ... WHERE key = ?\<close>.\<close>

definition update_row :: "string \<Rightarrow> (park_row \<Rightarrow> park_row) \<Rightarrow> park \<Rightarrow> park" where
  "update_row k f p = p\<lparr>pk_rows := map (\<lambda>(k', r). (k', if k' = k then f r else r)) (pk_rows p)\<rparr>"

definition delete_rows :: "(park_row \<Rightarrow> bool) \<Rightarrow> park \<Rightarrow> park" where
  "delete_rows P p = p\<lparr>pk_rows := filter (\<lambda>(_, r). \<not> P r) (pk_rows p)\<rparr>"

definition select_rows :: "(park_row \<Rightarrow> bool) \<Rightarrow> park \<Rightarrow> (string \<times> park_row) list" where
  "select_rows P p = filter (\<lambda>(_, r). P r) (pk_rows p)"

definition is_hot :: "park_row \<Rightarrow> bool" where
  "is_hot r \<longleftrightarrow> pr_lifecycle r = ''hot_parked''"

text \<open>The row an acquire or an update writes for a manifest.\<close>

definition manifest_row :: "instant \<Rightarrow> park_manifest \<Rightarrow> park_row" where
  "manifest_row now m = \<lparr>pr_manifest = manifest_to_dict m,
     pr_lifecycle = lifecycle_value (pm_lifecycle m),
     pr_soft = (if pm_soft_expires_at m = 0 then now + ttl_seconds else pm_soft_expires_at m),
     pr_hard = (if pm_hard_expires_at m = 0 then now + hard_limit_seconds else pm_hard_expires_at m),
     pr_last = now\<rparr>"

section \<open>Operations\<close>

definition init_db :: "park \<Rightarrow> park" where
  "init_db p = p\<lparr>pk_rows := map (\<lambda>(k, r). (k,
     if pr_lifecycle r = ''released'' then r\<lparr>pr_lifecycle := ''released_soft''\<rparr> else r)) (pk_rows p)\<rparr>"

definition acquire :: "instant \<Rightarrow> string \<Rightarrow> park_manifest \<Rightarrow> park \<Rightarrow> (park_error + bool) \<times> park" where
  "acquire now k m p = (case map_of (pk_rows p) k of
       Some row \<Rightarrow> (case lifecycle_of (pr_lifecycle row) of
           None \<Rightarrow> (Inl PkValueError, p)
         | Some existing \<Rightarrow>
             if existing \<noteq> RELEASED_SOFT then (Inr False, p)
             else (Inr True, update_row k (\<lambda>_. manifest_row now m) p))
     | None \<Rightarrow> (Inr True, p\<lparr>pk_rows := pk_rows p @ [(k, manifest_row now m)]\<rparr>))"

definition renew :: "instant \<Rightarrow> string \<Rightarrow> park \<Rightarrow> park" where
  "renew now k p = update_row k (\<lambda>r. r\<lparr>pr_last := now, pr_soft := now + ttl_seconds\<rparr>) p"

definition update :: "instant \<Rightarrow> string \<Rightarrow> park_manifest \<Rightarrow> park \<Rightarrow> (park_error + unit) \<times> park" where
  "update now k m p = (case map_of (pk_rows p) k of
       None \<Rightarrow> (case acquire now k m p of (Inl e, p1) \<Rightarrow> (Inl e, p1) | (Inr _, p1) \<Rightarrow> (Inr (), p1))
     | Some _ \<Rightarrow> (Inr (), update_row k (\<lambda>_. manifest_row now m) p))"

definition delete :: "string \<Rightarrow> park \<Rightarrow> park" where
  "delete k p = p\<lparr>pk_rows := filter (\<lambda>(k', _). k' \<noteq> k) (pk_rows p)\<rparr>"

definition release_lease :: "instant \<Rightarrow> string \<Rightarrow> string \<Rightarrow> park \<Rightarrow> park" where
  "release_lease now k mode p =
     (if mode = ''hard'' then delete k p
      else case map_of (pk_rows p) k of
        None \<Rightarrow> p
      | Some row \<Rightarrow>
          (let d = dset (dset (pr_manifest row) ''lifecycle'' (JStr ''released_soft''))
             ''release_mode'' (JStr ''soft'') in
           update_row k (\<lambda>r. r\<lparr>pr_lifecycle := ''released_soft'', pr_manifest := d, pr_last := now\<rparr>) p))"

definition lookup :: "string \<Rightarrow> park \<Rightarrow> park_error + park_manifest option" where
  "lookup k p = (case map_of (pk_rows p) k of
       None \<Rightarrow> Inr None
     | Some row \<Rightarrow> map_sum id Some (dict_to_manifest (pr_manifest row)))"

definition lookup_by_field :: "string \<Rightarrow> string \<Rightarrow> park \<Rightarrow> park_error + park_manifest option" where
  "lookup_by_field fld v p =
     (case find (\<lambda>(_, r). dget (pr_manifest r) fld = Some (JStr v)) (select_rows is_hot p) of
        None \<Rightarrow> Inr None
      | Some (_, r) \<Rightarrow> map_sum id Some (dict_to_manifest (pr_manifest r)))"

fun manifests :: "(string \<times> park_row) list \<Rightarrow> park_error + park_manifest list" where
  "manifests [] = Inr []"
| "manifests ((_, r) # rs) = (case dict_to_manifest (pr_manifest r) of
       Inl e \<Rightarrow> Inl e
     | Inr m \<Rightarrow> map_sum id (Cons m) (manifests rs))"

definition list_active :: "park \<Rightarrow> park_error + park_manifest list" where
  "list_active p = manifests (select_rows is_hot p)"

section \<open>Sweeping\<close>

text \<open>The snapshot that an eviction leaves when there is none yet.\<close>

definition auto_snapshot :: "instant \<Rightarrow> string \<Rightarrow> review_snapshot" where
  "auto_snapshot now k = \<lparr>rs_review_key = k, rs_round = 0, rs_last_question = [],
     rs_last_conclusion = ''(auto-snapshot on eviction)'', rs_standing_constraints = [],
     rs_evidence_list = [], rs_rejected_approaches = [], rs_unconfirmed_assumptions = [],
     rs_pending_questions = [], rs_recent_changes = [], rs_artifact_refs = [],
     rs_generated_at = now\<rparr>"

definition evict_one ::
  "instant \<Rightarrow> string \<Rightarrow> dict \<Rightarrow> string \<Rightarrow> park \<Rightarrow> (park_error + bool) \<times> park" where
  "evict_one now k mj target p = (case latest_snapshot k (pk_data p) of
       (Inl e, d1) \<Rightarrow> (Inl e, p\<lparr>pk_data := d1\<rparr>)
     | (Inr snap, d1) \<Rightarrow>
         (let d2 = (if snap = None then snd (save_snapshot now (auto_snapshot now k) d1) else d1);
              p1 = p\<lparr>pk_data := d2\<rparr> in
          case map_of (pk_rows p1) k of
            Some r \<Rightarrow>
              if is_hot r
              then (Inr True, update_row k (\<lambda>r. r\<lparr>pr_lifecycle := target,
                      pr_manifest := dset mj ''lifecycle'' (JStr target)\<rparr>) p1)
              else (Inr False, p1)
          | None \<Rightarrow> (Inr False, p1)))"

fun evict_all ::
  "instant \<Rightarrow> (string \<times> park_row) list \<Rightarrow> park \<Rightarrow> (park_error + string list) \<times> park" where
  "evict_all now [] p = (Inr [], p)"
| "evict_all now ((k, r) # rs) p = (case evict_one now k (pr_manifest r) ''cold_resumable'' p of
       (Inl e, p1) \<Rightarrow> (Inl e, p1)
     | (Inr done, p1) \<Rightarrow> (case evict_all now rs p1 of
           (Inl e, p2) \<Rightarrow> (Inl e, p2)
         | (Inr ks, p2) \<Rightarrow> (Inr (if done then k # ks else ks), p2)))"

text \<open>\<open>d.get("round", 0) >= max_rounds\<close>; only numbers can be compared.\<close>

definition over_rounds :: "dict \<Rightarrow> bool option" where
  "over_rounds d = (case dget_or d ''round'' (JInt 0) of
       JInt i \<Rightarrow> Some (max_rounds \<le> i)
     | JFloat x \<Rightarrow> Some (of_int max_rounds \<le> x)
     | JBool _ \<Rightarrow> Some False
     | _ \<Rightarrow> None)"

fun evict_rounds ::
  "instant \<Rightarrow> (string \<times> park_row) list \<Rightarrow> park \<Rightarrow> (park_error + string list) \<times> park" where
  "evict_rounds now [] p = (Inr [], p)"
| "evict_rounds now ((k, r) # rs) p = (case over_rounds (pr_manifest r) of
       None \<Rightarrow> (Inl PkTypeError, p)
     | Some False \<Rightarrow> evict_rounds now rs p
     | Some True \<Rightarrow> (case evict_one now k (pr_manifest r) ''cold_resumable'' p of
           (Inl e, p1) \<Rightarrow> (Inl e, p1)
         | (Inr done, p1) \<Rightarrow> (case evict_rounds now rs p1 of
               (Inl e, p2) \<Rightarrow> (Inl e, p2)
             | (Inr ks, p2) \<Rightarrow> (Inr (if done then k # ks else ks), p2))))"

definition lease_expired :: "instant \<Rightarrow> park_row \<Rightarrow> bool" where
  "lease_expired now r \<longleftrightarrow> (0 < pr_soft r \<and> pr_soft r < now) \<or> (0 < pr_hard r \<and> pr_hard r < now)"

definition cold_expired :: "instant \<Rightarrow> park_row \<Rightarrow> bool" where
  "cold_expired now r \<longleftrightarrow> pr_lifecycle r = ''cold_resumable'' \<and> 0 < pr_hard r \<and> pr_hard r < now"

definition released_old :: "instant \<Rightarrow> park_row \<Rightarrow> bool" where
  "released_old now r \<longleftrightarrow> pr_lifecycle r \<in> {''released'', ''released_soft''} \<and>
     pr_last r < now - hard_limit_seconds"

definition lru_excess :: "park \<Rightarrow> (string \<times> park_row) list" where
  "lru_excess p = (let active = sort_key (pr_last \<circ> snd) (select_rows is_hot p) in
     take (length active - max_hot_parked) active)"

definition sweep_leases :: "instant \<Rightarrow> park \<Rightarrow> (park_error + string list) \<times> park" where
  "sweep_leases now p =
     (case evict_all now (select_rows (\<lambda>r. is_hot r \<and> lease_expired now r) p) p of
        (Inl e, p1) \<Rightarrow> (Inl e, p1)
      | (Inr ks1, p1) \<Rightarrow>
          (let p2 = delete_rows (cold_expired now) p1 in
           case evict_all now (lru_excess p2) p2 of
             (Inl e, p3) \<Rightarrow> (Inl e, p3)
           | (Inr ks2, p3) \<Rightarrow> (case evict_rounds now (select_rows is_hot p3) p3 of
                 (Inl e, p4) \<Rightarrow> (Inl e, p4)
               | (Inr ks3, p4) \<Rightarrow> (Inr (ks1 @ ks2 @ ks3), delete_rows (released_old now) p4))))"

section \<open>Well-typed tables\<close>

lemma lifecycle_of_value [simp]: "lifecycle_of (lifecycle_value l) = Some l"
  by (cases l) (simp_all add: lifecycle_of_def)

lemma lifecycle_value_inject [simp]: "lifecycle_value l = lifecycle_value l' \<longleftrightarrow> l = l'"
  by (cases l; cases l') simp_all

lemma lifecycle_value_eqs [simp]:
  "lifecycle_value l = ''hot_parked'' \<longleftrightarrow> l = HOT_PARKED"
  "lifecycle_value l = ''cold_resumable'' \<longleftrightarrow> l = COLD_RESUMABLE"
  "lifecycle_value l = ''released_soft'' \<longleftrightarrow> l = RELEASED_SOFT"
  "lifecycle_value l \<noteq> ''released''"
  by (cases l; simp)+

lemma dict_to_manifest_to_dict [simp]: "dict_to_manifest (manifest_to_dict m) = Inr m"
  by (cases m) (simp add: dict_to_manifest_def manifest_to_dict_def manifest_fields_def
      MANIFEST_FIELDS_def has_key_def field_str_def field_int_def field_num_def field_strs_def
      dget_or_def)

lemma dset_lifecycle [simp]:
  "dset (manifest_to_dict m) ''lifecycle'' (JStr (lifecycle_value l)) =
   manifest_to_dict (m\<lparr>pm_lifecycle := l\<rparr>)"
  by (simp add: dset_def manifest_to_dict_def)

lemma dset_release_mode [simp]:
  "dset (manifest_to_dict m) ''release_mode'' (JStr x) = manifest_to_dict (m\<lparr>pm_release_mode := x\<rparr>)"
  by (simp add: dset_def manifest_to_dict_def)

lemmas dset_lifecycle_lits [simp] =
  dset_lifecycle [where l = COLD_RESUMABLE, unfolded lifecycle_value.simps]
  dset_lifecycle [where l = RELEASED_SOFT, unfolded lifecycle_value.simps]

lemma over_rounds_manifest [simp]: "over_rounds (manifest_to_dict m) = Some (max_rounds \<le> pm_round m)"
  by (simp add: over_rounds_def manifest_to_dict_def dget_or_def)

definition row_ok :: "park_row \<Rightarrow> bool" where
  "row_ok r \<longleftrightarrow> (\<exists>m. pr_manifest r = manifest_to_dict m \<and> pr_lifecycle r = lifecycle_value (pm_lifecycle m))"

definition park_ok :: "park \<Rightarrow> bool" where
  "park_ok p \<longleftrightarrow> distinct (map fst (pk_rows p)) \<and> (\<forall>(k, r) \<in> set (pk_rows p). row_ok r) \<and>
     snaps_ok (pk_data p)"

lemma park_okD:
  assumes "park_ok p"
  shows "distinct (map fst (pk_rows p))" "snaps_ok (pk_data p)"
    "map_of (pk_rows p) k = Some r \<Longrightarrow> row_ok r" "(k, r) \<in> set (pk_rows p) \<Longrightarrow> row_ok r"
  using assms by (auto simp: park_ok_def dest: map_of_SomeD)

lemma map_of_map_row:
  "map_of (map (\<lambda>(k', r). (k', f k' r)) rows) k = map_option (f k) (map_of rows k)"
  by (induction rows) auto

lemma update_row_lookup [simp]:
  "map_of (pk_rows (update_row k f p)) x = (if x = k then map_option f (map_of (pk_rows p) x) else map_of (pk_rows p) x)"
  using map_of_map_row [of "\<lambda>k' r. if k' = k then f r else r" "pk_rows p" x]
  by (auto simp: update_row_def map_option.identity option.map_ident)

lemma update_row_keys [simp]: "map fst (pk_rows (update_row k f p)) = map fst (pk_rows p)"
  by (simp add: update_row_def comp_def case_prod_unfold)

lemma update_row_data [simp]: "pk_data (update_row k f p) = pk_data p"
  by (simp add: update_row_def)

lemma park_ok_update_row:
  assumes ok: "park_ok p" and f: "\<And>r. map_of (pk_rows p) k = Some r \<Longrightarrow> row_ok (f r)"
  shows "park_ok (update_row k f p)"
proof -
  have "row_ok r" if "(x, r) \<in> set (pk_rows (update_row k f p))" for x r
  proof -
    have "map_of (pk_rows (update_row k f p)) x = Some r"
      using that ok by (intro map_of_is_SomeI) (auto simp: park_ok_def)
    with ok f show ?thesis by (auto split: if_splits dest: park_okD)
  qed
  with ok show ?thesis by (auto simp: park_ok_def)
qed

lemma row_ok_manifest_row [simp]: "row_ok (manifest_row now m)"
  by (auto simp: row_ok_def manifest_row_def)

lemma row_okE:
  assumes "row_ok r"
  obtains m where "pr_manifest r = manifest_to_dict m" "pr_lifecycle r = lifecycle_value (pm_lifecycle m)"
  using assms by (auto simp: row_ok_def)

lemma park_ok_filter: "park_ok p \<Longrightarrow> park_ok (p\<lparr>pk_rows := filter Q (pk_rows p)\<rparr>)"
  by (auto simp: park_ok_def distinct_map_filter)

lemma park_ok_acquire: "park_ok p \<Longrightarrow> park_ok (snd (acquire now k m p))"
  by (auto simp: acquire_def map_of_eq_None_iff split: option.splits
      intro!: park_ok_update_row) (auto simp: park_ok_def)

lemma park_ok_renew: "park_ok p \<Longrightarrow> park_ok (renew now k p)"
  unfolding renew_def by (rule park_ok_update_row) (auto dest: park_okD simp: row_ok_def)

lemma park_ok_update: "park_ok p \<Longrightarrow> park_ok (snd (update now k m p))"
  using park_ok_acquire [of p now k m]
  by (auto simp: update_def split: option.splits prod.splits sum.splits intro!: park_ok_update_row)

lemma park_ok_release: "park_ok p \<Longrightarrow> park_ok (release_lease now k mode p)"
proof (cases "mode = ''hard'' \<or> map_of (pk_rows p) k = None")
  case True
  then show "park_ok p \<Longrightarrow> ?thesis" by (auto simp: release_lease_def delete_def park_ok_filter)
next
  case False
  then obtain row where row: "map_of (pk_rows p) k = Some row" by blast
  assume ok: "park_ok p"
  then obtain m where "pr_manifest row = manifest_to_dict m" using row by (blast dest: park_okD elim: row_okE)
  with False row ok show ?thesis
    by (auto simp: release_lease_def Let_def row_ok_def intro!: park_ok_update_row
        exI [of _ "m\<lparr>pm_lifecycle := RELEASED_SOFT, pm_release_mode := ''soft''\<rparr>"])
qed

lemma row_ok_not_released [simp]: "row_ok r \<Longrightarrow> pr_lifecycle r \<noteq> ''released''"
  by (auto elim: row_okE)

lemma park_ok_init_db: "park_ok p \<Longrightarrow> init_db p = p"
proof -
  assume ok: "park_ok p"
  have "map (\<lambda>(k, r). (k, if pr_lifecycle r = ''released'' then r\<lparr>pr_lifecycle := ''released_soft''\<rparr> else r))
      (pk_rows p) = pk_rows p"
    using park_okD(4) [OF ok] by (intro map_idI) (auto dest: row_ok_not_released)
  then show ?thesis by (simp add: init_db_def)
qed

section \<open>Evictions\<close>

definition cool :: "park_row \<Rightarrow> park_row" where
  "cool r = r\<lparr>pr_lifecycle := ''cold_resumable'',
     pr_manifest := dset (pr_manifest r) ''lifecycle'' (JStr ''cold_resumable'')\<rparr>"

definition cool_keys :: "string set \<Rightarrow> (string \<times> park_row) list \<Rightarrow> (string \<times> park_row) list" where
  "cool_keys K rows = map (\<lambda>(k, r). (k, if k \<in> K then cool r else r)) rows"

definition has_snapshot :: "string \<Rightarrow> fs \<Rightarrow> bool" where
  "has_snapshot k d \<longleftrightarrow> round_names (snapshot_path k) d \<noteq> []"

lemma cool_simps [simp]: "pr_lifecycle (cool r) = ''cold_resumable''" "pr_soft (cool r) = pr_soft r"
  "pr_hard (cool r) = pr_hard r" "pr_last (cool r) = pr_last r" "\<not> is_hot (cool r)"
  by (simp_all add: cool_def is_hot_def)

lemma row_ok_cool [simp]: "row_ok r \<Longrightarrow> row_ok (cool r)"
proof (erule row_okE)
  fix m
  assume "pr_manifest r = manifest_to_dict m"
  then show ?thesis unfolding row_ok_def
    by (intro exI [of _ "m\<lparr>pm_lifecycle := COLD_RESUMABLE\<rparr>"]) (simp add: cool_def)
qed

lemma cool_keys_lookup [simp]:
  "map_of (cool_keys K rows) k = map_option (\<lambda>r. if k \<in> K then cool r else r) (map_of rows k)"
  by (simp add: cool_keys_def map_of_map_row)

lemma cool_keys_keys [simp]: "map fst (cool_keys K rows) = map fst rows"
  by (simp add: cool_keys_def comp_def case_prod_unfold)

lemma cool_keys_empty [simp]: "cool_keys {} rows = rows"
  by (simp add: cool_keys_def case_prod_unfold)

lemma in_cool_keys:
  "(k, r) \<in> set (cool_keys K rows) \<longleftrightarrow> (\<exists>q. (k, q) \<in> set rows \<and> r = (if k \<in> K then cool q else q))"
  by (force simp: cool_keys_def image_iff)

lemma cool_keys_insert:
  "k \<notin> K \<Longrightarrow> cool_keys K (map (\<lambda>(x, r). (x, if x = k then cool r else r)) rows) = cool_keys (insert k K) rows"
  by (auto simp: cool_keys_def)

lemma has_snapshot_iff: "has_snapshot k d \<longleftrightarrow> (\<exists>n. n \<in> set (round_names (snapshot_path k) d))"
  by (metis has_snapshot_def ex_in_conv set_empty)

lemma latest_snapshot_data: "snd (latest_snapshot k d) = (if valid_review_key k then mkdirs (snapshot_path k) d else d)"
  by (simp add: latest_snapshot_def Let_def)

lemma latest_snapshot_has:
  assumes "snaps_ok d"
  obtains q where "fst (latest_snapshot k d) = Inr q" "valid_review_key k \<Longrightarrow> q = None \<longleftrightarrow> \<not> has_snapshot k d"
    "\<not> valid_review_key k \<Longrightarrow> q = None"
proof (cases "valid_review_key k")
  case True
  from latest_snapshot_ok [OF assms this] obtain q where "fst (latest_snapshot k d) = Inr q"
    "q = None \<longleftrightarrow> round_names (snapshot_path k) d = []" by blast
  with True show ?thesis by (intro that) (simp_all add: has_snapshot_def)
next
  case False
  then show ?thesis by (intro that [of None]) (simp_all add: latest_snapshot_def)
qed

lemma has_snapshot_mkdirs [simp]: "has_snapshot k (mkdirs (snapshot_path k') d) = has_snapshot k d"
  by (simp add: has_snapshot_iff)

lemma has_snapshot_save:
  assumes "valid_review_key (rs_review_key r)"
  shows "0 \<le> rs_round r \<Longrightarrow> has_snapshot (rs_review_key r) (snd (save_snapshot now r d))"
    and "has_snapshot k d \<Longrightarrow> has_snapshot k (snd (save_snapshot now r d))"
proof -
  let ?d = "snd (save_snapshot now r d)"
  have n: "node_at ?d x = (if x = snapshot_path (rs_review_key r) @ [round_file (rs_round r)]
      then Some (File (Doc (snapshot_to_json now r)) now)
      else node_at (mkdirs (snapshot_path (rs_review_key r)) d) x)" for x
    by (simp add: save_snapshot_valid [OF assms] node_at_write_doc)
  show "0 \<le> rs_round r \<Longrightarrow> has_snapshot (rs_review_key r) ?d"
    unfolding has_snapshot_iff
    by (intro exI [of _ "round_file (rs_round r)"])
       (simp add: round_file_in_round_names exists_at_def n)
  assume "has_snapshot k d"
  then obtain m where "m \<in> set (round_names (snapshot_path k) d)" unfolding has_snapshot_iff by blast
  then have "m \<in> set (round_names (snapshot_path k) ?d)" by (simp add: in_round_names exists_at_def n)
  then show "has_snapshot k ?d" unfolding has_snapshot_iff by blast
qed

text \<open>What an eviction leaves in the data directory.\<close>

definition evict_data :: "instant \<Rightarrow> string \<Rightarrow> fs \<Rightarrow> fs" where
  "evict_data now k d = (case latest_snapshot k d of
       (q, d1) \<Rightarrow> if q = Inr None then snd (save_snapshot now (auto_snapshot now k) d1) else d1)"

lemma auto_snapshot_sel [simp]: "rs_review_key (auto_snapshot now k) = k" "rs_round (auto_snapshot now k) = 0"
  by (simp_all add: auto_snapshot_def)

lemma evict_data:
  assumes ok: "snaps_ok d"
  shows "snaps_ok (evict_data now k d)"
    and "valid_review_key k \<Longrightarrow> has_snapshot k (evict_data now k d)"
    and "has_snapshot x d \<Longrightarrow> has_snapshot x (evict_data now k d)"
proof -
  obtain q where q: "fst (latest_snapshot k d) = Inr q" "valid_review_key k \<Longrightarrow> q = None \<longleftrightarrow> \<not> has_snapshot k d"
    "\<not> valid_review_key k \<Longrightarrow> q = None"
    using latest_snapshot_has [OF ok, of k] by metis
  have l: "latest_snapshot k d = (Inr q, if valid_review_key k then mkdirs (snapshot_path k) d else d)"
    using q(1) latest_snapshot_data [of k d] by (metis prod.collapse)
  show "snaps_ok (evict_data now k d)" using ok by (auto simp: evict_data_def l snaps_ok_save)
  show "valid_review_key k \<Longrightarrow> has_snapshot k (evict_data now k d)"
    using q(2) has_snapshot_save(1) [of "auto_snapshot now k"] by (auto simp: evict_data_def l)
  show "has_snapshot x d \<Longrightarrow> has_snapshot x (evict_data now k d)"
    using has_snapshot_save(2) [of "auto_snapshot now k" x]
    by (cases "valid_review_key k") (auto simp: evict_data_def l save_snapshot_invalid)
qed

lemma evict_one_hot:
  assumes ok: "park_ok p" and row: "map_of (pk_rows p) k = Some r" and hot: "is_hot r"
  shows "evict_one now k (pr_manifest r) ''cold_resumable'' p =
    (Inr True, p\<lparr>pk_rows := cool_keys {k} (pk_rows p), pk_data := evict_data now k (pk_data p)\<rparr>)"
proof -
  obtain q where q: "fst (latest_snapshot k (pk_data p)) = Inr q"
    using latest_snapshot_has [OF park_okD(2) [OF ok], of k] by metis
  then obtain d1 where l: "latest_snapshot k (pk_data p) = (Inr q, d1)" by (metis prod.collapse)
  have uniq: "b = r" if "(k, b) \<in> set (pk_rows p)" for b
    using row map_of_is_SomeI [OF park_okD(1) [OF ok] that] by simp
  have eq: "map (\<lambda>(x, r'). (x, if x = k then r'\<lparr>pr_lifecycle := ''cold_resumable'',
        pr_manifest := dset (pr_manifest r) ''lifecycle'' (JStr ''cold_resumable'')\<rparr> else r')) (pk_rows p) =
      cool_keys {k} (pk_rows p)"
    by (auto simp: cool_keys_def cool_def dest: uniq)
  show ?thesis
    by (auto simp: evict_one_def l Let_def row hot evict_data_def update_row_def eq)
qed

lemma park_ok_cool:
  assumes "park_ok p" "snaps_ok d"
  shows "park_ok (p\<lparr>pk_rows := cool_keys K (pk_rows p), pk_data := d\<rparr>)"
proof -
  have "row_ok r" if "(k, r) \<in> set (cool_keys K (pk_rows p))" for k r
    using that park_okD(4) [OF assms(1)] by (auto simp: in_cool_keys)
  with assms show ?thesis by (auto simp: park_ok_def)
qed

definition cooled :: "instant \<Rightarrow> (string \<times> park_row) list \<Rightarrow> park \<Rightarrow> park" where
  "cooled now rs p = p\<lparr>pk_rows := cool_keys (fst ` set rs) (pk_rows p),
     pk_data := fold (evict_data now) (map fst rs) (pk_data p)\<rparr>"

lemma evict_all_hot:
  assumes "park_ok p" "distinct (map fst rs)" "\<forall>(k, r) \<in> set rs. map_of (pk_rows p) k = Some r \<and> is_hot r"
  shows "evict_all now rs p = (Inr (map fst rs), cooled now rs p)"
  using assms unfolding cooled_def
proof (induction rs arbitrary: p)
  case Nil
  then show ?case by simp
next
  case (Cons x rs)
  obtain k r where x: "x = (k, r)" by (cases x)
  define p1 where "p1 = p\<lparr>pk_rows := cool_keys {k} (pk_rows p), pk_data := evict_data now k (pk_data p)\<rparr>"
  have kr: "map_of (pk_rows p) k = Some r" "is_hot r" using Cons.prems(3) x by auto
  then have one: "evict_one now k (pr_manifest r) ''cold_resumable'' p = (Inr True, p1)"
    unfolding p1_def using Cons.prems(1) by (intro evict_one_hot)
  have ok1: "park_ok p1"
    unfolding p1_def using Cons.prems(1) by (intro park_ok_cool evict_data(1) park_okD(2))
  have "evict_all now rs p1 = (Inr (map fst rs), p1\<lparr>pk_rows := cool_keys (fst ` set rs) (pk_rows p1),
      pk_data := fold (evict_data now) (map fst rs) (pk_data p1)\<rparr>)"
    using Cons.prems(2,3) x
    by (intro Cons.IH ok1) (auto simp: p1_def image_iff, force)
  moreover have "cool_keys (fst ` set rs) (cool_keys {k} (pk_rows p)) = cool_keys (insert k (fst ` set rs)) (pk_rows p)"
    using Cons.prems(2) x cool_keys_insert [of k "fst ` set rs" "pk_rows p"]
    by (simp add: cool_keys_def)
  ultimately show ?case by (simp add: x one p1_def)
qed

lemma evict_data_all:
  assumes "snaps_ok d"
  shows "snaps_ok (fold (evict_data now) ks d)"
    "has_snapshot x d \<Longrightarrow> has_snapshot x (fold (evict_data now) ks d)"
    "x \<in> set ks \<Longrightarrow> valid_review_key x \<Longrightarrow> has_snapshot x (fold (evict_data now) ks d)"
  using assms
proof (induction ks arbitrary: d)
  case (Cons k ks)
  {
    case 1
    then show ?case using Cons.IH(1) by (simp add: evict_data(1))
  next
    case 2
    then show ?case using Cons.IH(2) by (simp add: evict_data)
  next
    case 3
    then show ?case using Cons.IH(2,3) by (auto simp: evict_data)
  }
qed auto

lemma evict_rounds_filter:
  assumes "\<forall>(k, r) \<in> set rs. row_ok r"
  shows "evict_rounds now rs p =
    evict_all now (filter (\<lambda>(k, r). over_rounds (pr_manifest r) = Some True) rs) p"
  using assms
  by (induction rs arbitrary: p) (auto elim!: row_okE split: sum.splits prod.splits)

section \<open>What a sweep does\<close>

definition ttl_rows :: "instant \<Rightarrow> park \<Rightarrow> (string \<times> park_row) list" where
  "ttl_rows now p = select_rows (\<lambda>r. is_hot r \<and> lease_expired now r) p"

definition after_ttl :: "instant \<Rightarrow> park \<Rightarrow> park" where
  "after_ttl now p = delete_rows (cold_expired now) (cooled now (ttl_rows now p) p)"

definition after_lru :: "instant \<Rightarrow> park \<Rightarrow> park" where
  "after_lru now p = cooled now (lru_excess (after_ttl now p)) (after_ttl now p)"

definition worn_rows :: "park \<Rightarrow> (string \<times> park_row) list" where
  "worn_rows p = filter (\<lambda>(k, r). over_rounds (pr_manifest r) = Some True) (select_rows is_hot p)"

definition after_rounds :: "instant \<Rightarrow> park \<Rightarrow> park" where
  "after_rounds now p = cooled now (worn_rows (after_lru now p)) (after_lru now p)"

lemma park_ok_cooled: "park_ok p \<Longrightarrow> park_ok (cooled now rs p)"
  unfolding cooled_def by (intro park_ok_cool evict_data_all(1) park_okD(2))

lemma park_ok_delete_rows: "park_ok p \<Longrightarrow> park_ok (delete_rows P p)"
  unfolding delete_rows_def by (rule park_ok_filter)

lemma park_ok_stages:
  assumes "park_ok p"
  shows "park_ok (after_ttl now p)" "park_ok (after_lru now p)" "park_ok (after_rounds now p)"
  using assms by (simp_all add: after_ttl_def after_lru_def after_rounds_def park_ok_delete_rows park_ok_cooled)

lemma in_select_rows:
  assumes "park_ok p"
  shows "(k, r) \<in> set (select_rows P p) \<longleftrightarrow> map_of (pk_rows p) k = Some r \<and> P r"
  using map_of_eq_Some_iff [OF park_okD(1) [OF assms]] by (auto simp: select_rows_def)

lemma distinct_select_rows: "park_ok p \<Longrightarrow> distinct (map fst (select_rows P p))"
  by (simp add: select_rows_def distinct_map_filter park_okD)

lemma in_lru_excess: "(k, r) \<in> set (lru_excess p) \<Longrightarrow> (k, r) \<in> set (select_rows is_hot p)"
  by (auto simp: lru_excess_def Let_def dest: in_set_takeD)

lemma distinct_lru_excess: "park_ok p \<Longrightarrow> distinct (map fst (lru_excess p))"
proof -
  assume "park_ok p"
  then have "distinct (map fst (sort_key (pr_last \<circ> snd) (select_rows is_hot p)))"
    using distinct_select_rows [of p is_hot] by (simp add: distinct_map)
  then show ?thesis by (simp add: lru_excess_def Let_def take_map [symmetric])
qed

lemma distinct_worn_rows: "park_ok p \<Longrightarrow> distinct (map fst (worn_rows p))"
  by (simp add: worn_rows_def distinct_map_filter distinct_select_rows)

lemma in_worn_rows: "(k, r) \<in> set (worn_rows p) \<Longrightarrow> (k, r) \<in> set (select_rows is_hot p)"
  by (simp add: worn_rows_def)

theorem sweep_stages:
  assumes ok: "park_ok p"
  shows "sweep_leases now p = (Inr (map fst (ttl_rows now p) @ map fst (lru_excess (after_ttl now p)) @
      map fst (worn_rows (after_lru now p))), delete_rows (released_old now) (after_rounds now p))"
proof -
  note oks = park_ok_stages [OF ok, of now]
  have 1: "evict_all now (select_rows (\<lambda>r. is_hot r \<and> lease_expired now r) p) p =
      (Inr (map fst (ttl_rows now p)), cooled now (ttl_rows now p) p)"
    unfolding ttl_rows_def
    by (rule evict_all_hot [OF ok]) (use ok in \<open>auto simp: distinct_select_rows in_select_rows\<close>)
  have 2: "evict_all now (lru_excess (after_ttl now p)) (after_ttl now p) =
      (Inr (map fst (lru_excess (after_ttl now p))), after_lru now p)"
    unfolding after_lru_def
    by (rule evict_all_hot [OF oks(1)])
       (use oks(1) in \<open>auto simp: distinct_lru_excess in_select_rows dest!: in_lru_excess\<close>)
  have 3: "evict_rounds now (select_rows is_hot (after_lru now p)) (after_lru now p) =
      (Inr (map fst (worn_rows (after_lru now p))), after_rounds now p)"
  proof -
    have "evict_rounds now (select_rows is_hot (after_lru now p)) (after_lru now p) =
        evict_all now (worn_rows (after_lru now p)) (after_lru now p)"
      unfolding worn_rows_def
      by (rule evict_rounds_filter) (use park_okD(3) [OF oks(2)] in \<open>auto simp: in_select_rows [OF oks(2)]\<close>)
    also have "\<dots> = (Inr (map fst (worn_rows (after_lru now p))), after_rounds now p)"
      unfolding after_rounds_def
      by (rule evict_all_hot [OF oks(2)])
         (use oks(2) in \<open>auto simp: distinct_worn_rows in_select_rows dest!: in_worn_rows\<close>)
    finally show ?thesis .
  qed
  show ?thesis by (simp add: sweep_leases_def 1 2 3 after_ttl_def [symmetric] Let_def)
qed

lemma map_of_cooled [simp]:
  "map_of (pk_rows (cooled now rs p)) k =
   map_option (\<lambda>r. if k \<in> fst ` set rs then cool r else r) (map_of (pk_rows p) k)"
  by (simp add: cooled_def)

lemma map_of_filter_value:
  "distinct (map fst xs) \<Longrightarrow> map_of (filter (\<lambda>(_, r). Q r) xs) k =
     (case map_of xs k of None \<Rightarrow> None | Some r \<Rightarrow> if Q r then Some r else None)"
proof (induction xs)
  case (Cons x xs)
  then show ?case
    by (cases x) (auto simp: map_of_eq_None_iff image_iff split: option.splits dest: map_of_SomeD)
qed simp

lemma map_of_delete_rows:
  "park_ok p \<Longrightarrow> map_of (pk_rows (delete_rows P p)) k =
     (case map_of (pk_rows p) k of None \<Rightarrow> None | Some r \<Rightarrow> if P r then None else Some r)"
  using map_of_filter_value [of "pk_rows p" "\<lambda>r. \<not> P r" k]
  by (auto simp: delete_rows_def park_okD split: option.splits)

lemma in_keys_select:
  "park_ok p \<Longrightarrow> k \<in> fst ` set (select_rows P p) \<longleftrightarrow> (\<exists>r. map_of (pk_rows p) k = Some r \<and> P r)"
  using in_select_rows [of p k _ P] by (force simp: image_iff)

lemma evicted_were_hot:
  assumes "park_ok p"
  shows "k \<in> fst ` set (lru_excess p) \<Longrightarrow> \<exists>r. map_of (pk_rows p) k = Some r \<and> is_hot r"
    and "k \<in> fst ` set (worn_rows p) \<Longrightarrow> \<exists>r. map_of (pk_rows p) k = Some r \<and> is_hot r"
  using in_keys_select [OF assms, of k is_hot] by (force dest: in_lru_excess in_worn_rows)+

definition hard_expired :: "instant \<Rightarrow> park_row \<Rightarrow> bool" where
  "hard_expired now r \<longleftrightarrow> 0 < pr_hard r \<and> pr_hard r < now"

lemma expired_simps [simp]:
  "cold_expired now (cool r) = hard_expired now r" "\<not> released_old now (cool r)"
  "is_hot r \<Longrightarrow> \<not> cold_expired now r" "is_hot r \<Longrightarrow> \<not> released_old now r"
  "lease_expired now (cool r) = lease_expired now r"
  by (auto simp: cold_expired_def hard_expired_def released_old_def is_hot_def lease_expired_def)

lemma after_ttl_row:
  assumes "park_ok p"
  shows "map_of (pk_rows (after_ttl now p)) k = (case map_of (pk_rows p) k of
      None \<Rightarrow> None
    | Some r \<Rightarrow> if is_hot r \<and> lease_expired now r then (if hard_expired now r then None else Some (cool r))
        else if cold_expired now r then None else Some r)"
  using in_keys_select [OF assms, of k "\<lambda>r. is_hot r \<and> lease_expired now r"]
  by (auto simp: after_ttl_def map_of_delete_rows park_ok_cooled assms ttl_rows_def
      split: option.splits)

lemma after_ttl_hot:
  assumes "park_ok p"
  shows "map_of (pk_rows (after_ttl now p)) k = Some r \<and> is_hot r \<longleftrightarrow>
    map_of (pk_rows p) k = Some r \<and> is_hot r \<and> \<not> lease_expired now r"
  by (auto simp: after_ttl_row [OF assms] split: option.splits if_splits)

lemma after_lru_hot:
  assumes "park_ok p"
  shows "map_of (pk_rows (after_lru now p)) k = Some r \<and> is_hot r \<longleftrightarrow>
    map_of (pk_rows p) k = Some r \<and> is_hot r \<and> \<not> lease_expired now r \<and>
    k \<notin> fst ` set (lru_excess (after_ttl now p))"
  using after_ttl_hot [OF assms, of now k r] by (auto simp: after_lru_def split: if_splits) (metis cool_simps(5))+

definition swept :: "instant \<Rightarrow> park \<Rightarrow> string list" where
  "swept now p = map fst (ttl_rows now p) @ map fst (lru_excess (after_ttl now p)) @
     map fst (worn_rows (after_lru now p))"

lemma swept_cases:
  assumes ok: "park_ok p" and k: "k \<in> set (swept now p)"
  obtains r where "map_of (pk_rows p) k = Some r" "is_hot r" "lease_expired now r" "k \<in> fst ` set (ttl_rows now p)"
      "k \<notin> fst ` set (lru_excess (after_ttl now p))" "k \<notin> fst ` set (worn_rows (after_lru now p))"
  | r where "map_of (pk_rows p) k = Some r" "is_hot r" "\<not> lease_expired now r" "k \<notin> fst ` set (ttl_rows now p)"
      "k \<in> fst ` set (lru_excess (after_ttl now p))" "k \<notin> fst ` set (worn_rows (after_lru now p))"
  | r where "map_of (pk_rows p) k = Some r" "is_hot r" "\<not> lease_expired now r" "k \<notin> fst ` set (ttl_rows now p)"
      "k \<notin> fst ` set (lru_excess (after_ttl now p))" "k \<in> fst ` set (worn_rows (after_lru now p))"
proof -
  note oks = park_ok_stages [OF ok, of now]
  have t: "k \<in> fst ` set (ttl_rows now p) \<longleftrightarrow> (\<exists>r. map_of (pk_rows p) k = Some r \<and> is_hot r \<and> lease_expired now r)"
    unfolding ttl_rows_def by (rule in_keys_select [OF ok])
  have l: "\<exists>r. map_of (pk_rows p) k = Some r \<and> is_hot r \<and> \<not> lease_expired now r"
    if "k \<in> fst ` set (lru_excess (after_ttl now p))"
    using evicted_were_hot(1) [OF oks(1) that] after_ttl_hot [OF ok] by blast
  have w: "\<exists>r. map_of (pk_rows p) k = Some r \<and> is_hot r \<and> \<not> lease_expired now r \<and>
      k \<notin> fst ` set (lru_excess (after_ttl now p))"
    if "k \<in> fst ` set (worn_rows (after_lru now p))"
    using evicted_were_hot(2) [OF oks(2) that] after_lru_hot [OF ok] by blast
  from k consider "k \<in> fst ` set (ttl_rows now p)" | "k \<in> fst ` set (lru_excess (after_ttl now p))"
    | "k \<in> fst ` set (worn_rows (after_lru now p))" by (auto simp: swept_def)
  then show thesis
  proof cases
    case 1
    with t obtain r where "map_of (pk_rows p) k = Some r" "is_hot r" "lease_expired now r" by blast
    with 1 l w show ?thesis by (intro that(1)) auto
  next
    case 2
    with l obtain r where "map_of (pk_rows p) k = Some r" "is_hot r" "\<not> lease_expired now r" by blast
    with 2 t w show ?thesis by (intro that(2)) auto
  next
    case 3
    with w obtain r where "map_of (pk_rows p) k = Some r" "is_hot r" "\<not> lease_expired now r"
      "k \<notin> fst ` set (lru_excess (after_ttl now p))" by blast
    with 3 t show ?thesis by (intro that(3)) auto
  qed
qed

lemma not_expired_hard [simp]: "\<not> lease_expired now r \<Longrightarrow> \<not> hard_expired now r"
  by (auto simp: lease_expired_def hard_expired_def)

text \<open>The row of every key after a sweep.\<close>

lemma sweep_row:
  assumes ok: "park_ok p"
  shows "map_of (pk_rows (snd (sweep_leases now p))) k = (case map_of (pk_rows p) k of
      None \<Rightarrow> None
    | Some r \<Rightarrow> if k \<in> set (swept now p) then (if hard_expired now r then None else Some (cool r))
        else if cold_expired now r \<or> released_old now r then None else Some r)"
proof -
  have eq: "map_of (pk_rows (snd (sweep_leases now p))) k = (case map_of (pk_rows (after_rounds now p)) k of
      None \<Rightarrow> None | Some r \<Rightarrow> if released_old now r then None else Some r)"
    by (simp add: sweep_stages [OF ok] map_of_delete_rows park_ok_stages [OF ok])
  show ?thesis
  proof (cases "k \<in> set (swept now p)")
    case True
    then show ?thesis
      by (rule swept_cases [OF ok])
         (auto simp: eq True after_rounds_def after_lru_def after_ttl_row [OF ok] image_iff)
  next
    case False
    then have no: "k \<notin> fst ` set (ttl_rows now p)" "k \<notin> fst ` set (lru_excess (after_ttl now p))"
      "k \<notin> fst ` set (worn_rows (after_lru now p))" by (auto simp: swept_def)
    have t: "\<not> (is_hot r \<and> lease_expired now r)" if "map_of (pk_rows p) k = Some r" for r
      using no(1) that in_keys_select [OF ok] by (auto simp: ttl_rows_def)
    show ?thesis
      using no t by (auto simp: eq False after_rounds_def after_lru_def after_ttl_row [OF ok]
          split: option.splits)
  qed
qed

lemma fst_sweep: "park_ok p \<Longrightarrow> fst (sweep_leases now p) = Inr (swept now p)"
  by (simp add: sweep_stages swept_def)

lemma park_ok_sweep: "park_ok p \<Longrightarrow> park_ok (snd (sweep_leases now p))"
  by (simp add: sweep_stages park_ok_delete_rows park_ok_stages)

lemma distinct_swept:
  assumes ok: "park_ok p"
  shows "distinct (swept now p)"
proof -
  note oks = park_ok_stages [OF ok, of now]
  have "k \<notin> fst ` set (lru_excess (after_ttl now p)) \<union> fst ` set (worn_rows (after_lru now p))"
    if "k \<in> fst ` set (ttl_rows now p)" for k
  proof -
    from that have "k \<in> set (swept now p)" by (simp add: swept_def)
    from ok this show ?thesis by (rule swept_cases) (use that in auto)
  qed
  moreover have "k \<notin> fst ` set (worn_rows (after_lru now p))"
    if "k \<in> fst ` set (lru_excess (after_ttl now p))" for k
  proof -
    from that have "k \<in> set (swept now p)" by (simp add: swept_def)
    from ok this show ?thesis by (rule swept_cases) (use that in auto)
  qed
  ultimately have "fst ` set (ttl_rows now p) \<inter> (fst ` set (lru_excess (after_ttl now p)) \<union>
      fst ` set (worn_rows (after_lru now p))) = {}"
    "fst ` set (lru_excess (after_ttl now p)) \<inter> fst ` set (worn_rows (after_lru now p)) = {}"
    by blast+
  moreover have "distinct (map fst (ttl_rows now p))" unfolding ttl_rows_def by (rule distinct_select_rows [OF ok])
  ultimately show ?thesis
    unfolding swept_def distinct_append set_append set_map
    using distinct_lru_excess [OF oks(1)] distinct_worn_rows [OF oks(2)] by simp
qed

section \<open>Runs of the registry\<close>

datatype park_op =
    Init
  | Acquire string park_manifest
  | Renew string
  | Update string park_manifest
  | Release string string
  | Sweep
  | Save review_snapshot

fun park_step :: "instant \<Rightarrow> park_op \<Rightarrow> park \<Rightarrow> park" where
  "park_step now Init p = init_db p"
| "park_step now (Acquire k m) p = snd (acquire now k m p)"
| "park_step now (Renew k) p = renew now k p"
| "park_step now (Update k m) p = snd (update now k m p)"
| "park_step now (Release k mode) p = release_lease now k mode p"
| "park_step now Sweep p = snd (sweep_leases now p)"
| "park_step now (Save r) p = p\<lparr>pk_data := snd (save_snapshot now r (pk_data p))\<rparr>"

definition run_park :: "(instant \<times> park_op) list \<Rightarrow> park" where
  "run_park ops = fold (\<lambda>(t, a). park_step t a) ops \<lparr>pk_rows = [], pk_data = []\<rparr>"

lemma park_ok_step: "park_ok p \<Longrightarrow> park_ok (park_step now a p)"
  by (cases a) (simp_all add: park_ok_init_db park_ok_acquire park_ok_renew park_ok_update
      park_ok_release park_ok_sweep, simp add: park_ok_def snaps_ok_save)

lemma park_ok_run [simp]: "park_ok (run_park ops)"
proof -
  have "park_ok p \<Longrightarrow> park_ok (fold (\<lambda>(t, a). park_step t a) ops p)" for p
    by (induction ops arbitrary: p) (auto simp: park_ok_step)
  moreover have "park_ok \<lparr>pk_rows = [], pk_data = []\<rparr>" by (simp add: park_ok_def)
  ultimately show ?thesis unfolding run_park_def by blast
qed

lemma lookup_row:
  assumes "park_ok p" "map_of (pk_rows p) k = Some row"
  obtains m where "lookup k p = Inr (Some m)" "pr_manifest row = manifest_to_dict m"
    "pr_lifecycle row = lifecycle_value (pm_lifecycle m)"
  using assms by (auto simp: lookup_def elim!: row_okE dest!: park_okD(3))

lemma manifests_rows:
  "\<forall>(k, r) \<in> set rs. row_ok r \<Longrightarrow> \<exists>ms. manifests rs = Inr ms \<and>
     list_all2 (\<lambda>(k, r) m. pr_manifest r = manifest_to_dict m \<and>
       pr_lifecycle r = lifecycle_value (pm_lifecycle m)) rs ms"
proof (induction rs)
  case (Cons x rs)
  then obtain k r m ms where "x = (k, r)" "pr_manifest r = manifest_to_dict m"
      "pr_lifecycle r = lifecycle_value (pm_lifecycle m)" "manifests rs = Inr ms"
      "list_all2 (\<lambda>(k, r) m. pr_manifest r = manifest_to_dict m \<and>
         pr_lifecycle r = lifecycle_value (pm_lifecycle m)) rs ms"
    by (cases x) (auto elim!: row_okE)
  then show ?case by (intro exI [of _ "m # ms"]) simp
qed simp

lemma hot_manifests:
  "list_all2 (\<lambda>(k, r) m. pr_manifest r = manifest_to_dict m \<and>
     pr_lifecycle r = lifecycle_value (pm_lifecycle m)) rs ms \<Longrightarrow>
   (\<And>k r. (k, r) \<in> set rs \<Longrightarrow> is_hot r) \<Longrightarrow>
   map manifest_to_dict ms = map (pr_manifest \<circ> snd) rs \<and> (\<forall>m \<in> set ms. pm_lifecycle m = HOT_PARKED)"
proof (induction rs ms rule: list_all2_induct)
  case (Cons x rs m ms)
  obtain k r where x: "x = (k, r)" by (cases x)
  have "is_hot r" using Cons.prems [of k r] x by simp
  with Cons x show ?case by (auto simp: is_hot_def)
qed simp

lemma manifest_row_sel [simp]: "pr_manifest (manifest_row now m) = manifest_to_dict m"
  by (simp add: manifest_row_def)

text \<open>
  C23. Whatever sequence of registry operations ran on an empty database, every row holds a manifest
  of the declared types, with the life cycle of its column: a lookup of its key returns that
  manifest, and \<open>list_active\<close> returns the manifests of exactly the hot rows, in their order, all of
  them \<open>HOT_PARKED\<close>; none of these reads can raise.
\<close>

theorem registry_well_typed:
  fixes ops :: "(instant \<times> park_op) list"
  defines "p \<equiv> run_park ops"
  shows "distinct (map fst (pk_rows p)) \<and>
    (\<forall>k row. map_of (pk_rows p) k = Some row \<longrightarrow>
       (\<exists>m. lookup k p = Inr (Some m) \<and> pr_manifest row = manifest_to_dict m \<and>
          pr_lifecycle row = lifecycle_value (pm_lifecycle m))) \<and>
    (\<exists>ms. list_active p = Inr ms \<and> map manifest_to_dict ms = map (pr_manifest \<circ> snd) (select_rows is_hot p) \<and>
       (\<forall>m \<in> set ms. pm_lifecycle m = HOT_PARKED))"
proof (intro conjI allI impI)
  have ok: "park_ok p" by (simp add: p_def)
  show "distinct (map fst (pk_rows p))" by (rule park_okD [OF ok])
  show "\<exists>m. lookup k p = Inr (Some m) \<and> pr_manifest row = manifest_to_dict m \<and>
      pr_lifecycle row = lifecycle_value (pm_lifecycle m)" if "map_of (pk_rows p) k = Some row" for k row
    using lookup_row [OF ok that] by metis
  have "\<forall>(k, r) \<in> set (select_rows is_hot p). row_ok r"
    using ok by (auto simp: in_select_rows dest: park_okD)
  from manifests_rows [OF this] obtain ms where ms: "manifests (select_rows is_hot p) = Inr ms"
    "list_all2 (\<lambda>(k, r) m. pr_manifest r = manifest_to_dict m \<and>
       pr_lifecycle r = lifecycle_value (pm_lifecycle m)) (select_rows is_hot p) ms" by blast
  have hot: "is_hot r" if "(k, r) \<in> set (select_rows is_hot p)" for k r using that by (simp add: select_rows_def)
  with hot_manifests [OF ms(2)] ms(1) show "\<exists>ms. list_active p = Inr ms \<and>
      map manifest_to_dict ms = map (pr_manifest \<circ> snd) (select_rows is_hot p) \<and>
      (\<forall>m \<in> set ms. pm_lifecycle m = HOT_PARKED)" unfolding list_active_def by blast
qed

definition demo_manifest :: "string \<Rightarrow> string \<Rightarrow> park_manifest" where
  "demo_manifest k agent = \<lparr>pm_review_key = k, pm_swarm_session_id = ''s1'', pm_agent_type = ''oracle'',
     pm_model = ''m'', pm_primary_model = ''m'', pm_host = [], pm_workdir = [],
     pm_lifecycle = HOT_PARKED, pm_peer_agent_id = ''peer'', pm_mailbox_agent_id = agent,
     pm_backend_session_id = ''b1'', pm_parent_process_generation = [], pm_created_at = 0,
     pm_last_activity_at = 0, pm_soft_expires_at = 0, pm_hard_expires_at = 0, pm_round = 1,
     pm_last_msg_id = [], pm_summary_uri = [], pm_transcript_uri = [], pm_artifact_refs = [''a''],
     pm_config_fingerprint = [], pm_schema_version = 2, pm_release_mode = [],
     pm_omp_session_path = [], pm_provider = [], pm_variant = [], pm_system_prompt = [],
     pm_omp_session_dir = []\<rparr>"

theorem registry_well_typed_witness:
  "\<exists>m. lookup ''k1'' (run_park [(10, Init), (11, Acquire ''k1'' (demo_manifest ''k1'' ''worker'')),
      (12, Release ''k1'' ''soft'')]) = Inr (Some m) \<and> pm_lifecycle m = RELEASED_SOFT"
proof -
  let ?p = "run_park [(10, Init), (11, Acquire ''k1'' (demo_manifest ''k1'' ''worker'')), (12, Release ''k1'' ''soft'')]"
  have "\<exists>row. map_of (pk_rows ?p) ''k1'' = Some row \<and> pr_lifecycle row = ''released_soft''"
    by (simp add: run_park_def init_db_def acquire_def release_lease_def update_row_def Let_def)
  then show ?thesis
    using registry_well_typed [of "[(10, Init), (11, Acquire ''k1'' (demo_manifest ''k1'' ''worker'')), (12, Release ''k1'' ''soft'')]"]
    by (metis lifecycle_value_eqs(3))
qed

text \<open>
  A lease is exclusive. On every reachable registry, acquiring a key answers true exactly when
  the key has no row or was released softly; then a lookup returns the manifest given and the lease
  starts now, with one hour and eight hours to live unless the manifest sets its own limits.
  Otherwise the registry is left as it was. No other key is touched.
\<close>

theorem acquire_exclusive:
  fixes ops :: "(instant \<times> park_op) list"
  defines "p \<equiv> run_park ops"
  assumes a: "acquire now k m p = (res, p')"
  shows "(\<exists>got. res = Inr got \<and>
      (got \<longleftrightarrow> (\<forall>row. map_of (pk_rows p) k = Some row \<longrightarrow> pr_lifecycle row = ''released_soft'')) \<and>
      (if got then lookup k p' = Inr (Some m) \<and> map_of (pk_rows p') k = Some (manifest_row now m)
       else p' = p)) \<and>
    (\<forall>x. x \<noteq> k \<longrightarrow> map_of (pk_rows p') x = map_of (pk_rows p) x) \<and> pk_data p' = pk_data p"
proof (cases "map_of (pk_rows p) k")
  case None
  then have "res = Inr True" "p' = p\<lparr>pk_rows := pk_rows p @ [(k, manifest_row now m)]\<rparr>"
    using a by (auto simp: acquire_def)
  with None show ?thesis
    by (auto simp: lookup_def map_add_def split: option.splits)
next
  case (Some row)
  have "park_ok p" by (simp add: p_def)
  from lookup_row [OF this Some] obtain q :: park_manifest where q: "pr_lifecycle row = lifecycle_value (pm_lifecycle q)"
    by metis
  then have l: "lifecycle_of (pr_lifecycle row) = Some (pm_lifecycle q)" by simp
  show ?thesis
  proof (cases "pm_lifecycle q = RELEASED_SOFT")
    case True
    then have "res = Inr True" "p' = update_row k (\<lambda>_. manifest_row now m) p"
      using a unfolding acquire_def Some l option.case by auto
    with Some True q show ?thesis by (auto simp: lookup_def)
  next
    case False
    then have "res = Inr False" "p' = p" using a unfolding acquire_def Some l option.case by auto
    with Some False q show ?thesis by auto
  qed
qed

theorem acquire_exclusive_witness:
  "lookup ''k1'' (snd (acquire 11 ''k1'' (demo_manifest ''k1'' ''worker'') (run_park []))) =
     Inr (Some (demo_manifest ''k1'' ''worker'')) \<and>
   fst (acquire 12 ''k1'' (demo_manifest ''k1'' ''other'')
     (run_park [(11, Acquire ''k1'' (demo_manifest ''k1'' ''worker''))])) = Inr False"
  (is "?first \<and> fst ?second = _")
proof
  show ?first
    using acquire_exclusive [of 11 "''k1''" "demo_manifest ''k1'' ''worker''" "[]", OF prod.collapse [symmetric]]
    by (auto simp: run_park_def split: if_splits)
  show "fst ?second = Inr False"
    using acquire_exclusive [of 12 "''k1''" "demo_manifest ''k1'' ''other''"
        "[(11, Acquire ''k1'' (demo_manifest ''k1'' ''worker''))]", OF prod.collapse [symmetric]]
    by (auto simp: run_park_def acquire_def manifest_row_def demo_manifest_def)
qed

section \<open>Sweeping keeps the limits\<close>

definition hot_keys :: "park \<Rightarrow> string set" where
  "hot_keys p = fst ` set (select_rows is_hot p)"

lemma in_hot_keys: "park_ok p \<Longrightarrow> k \<in> hot_keys p \<longleftrightarrow> (\<exists>r. map_of (pk_rows p) k = Some r \<and> is_hot r)"
  unfolding hot_keys_def by (rule in_keys_select)

lemma card_hot_keys: "park_ok p \<Longrightarrow> card (hot_keys p) = length (select_rows is_hot p)"
  using distinct_card [OF distinct_select_rows, of p is_hot] by (simp add: hot_keys_def)

lemma after_lru_hot_keys:
  assumes "park_ok p"
  shows "hot_keys (after_lru now p) = hot_keys (after_ttl now p) - fst ` set (lru_excess (after_ttl now p))"
proof -
  note oks = park_ok_stages [OF assms, of now]
  show ?thesis
    using after_ttl_hot [OF assms, of now] after_lru_hot [OF assms, of now]
    by (simp add: set_eq_iff in_hot_keys oks) blast
qed

lemma card_after_lru:
  assumes "park_ok p"
  shows "card (hot_keys (after_lru now p)) \<le> max_hot_parked"
proof -
  note oks = park_ok_stages [OF assms, of now]
  let ?a = "after_ttl now p"
  have sub: "fst ` set (lru_excess ?a) \<subseteq> hot_keys ?a"
    by (force simp: hot_keys_def dest: in_lru_excess)
  have "card (fst ` set (lru_excess ?a)) = length (lru_excess ?a)"
    using distinct_card [OF distinct_lru_excess [OF oks(1)]] by simp
  also have "\<dots> = card (hot_keys ?a) - max_hot_parked"
    by (simp add: lru_excess_def Let_def card_hot_keys oks)
  finally have "card (hot_keys ?a - fst ` set (lru_excess ?a)) = card (hot_keys ?a) - (card (hot_keys ?a) - max_hot_parked)"
    using sub by (simp add: card_Diff_subset)
  then show ?thesis by (simp add: after_lru_hot_keys [OF assms])
qed

lemma sweep_survivor:
  assumes ok: "park_ok p"
  shows "map_of (pk_rows (snd (sweep_leases now p))) k = Some r \<and> is_hot r \<longleftrightarrow>
    map_of (pk_rows p) k = Some r \<and> is_hot r \<and> k \<notin> set (swept now p)"
  by (auto simp: sweep_row [OF ok] split: option.splits if_splits)

lemma unswept:
  assumes ok: "park_ok p" and r: "map_of (pk_rows p) k = Some r" "is_hot r" and k: "k \<notin> set (swept now p)"
  shows "\<not> lease_expired now r" "map_of (pk_rows (after_lru now p)) k = Some r"
    "over_rounds (pr_manifest r) = Some False"
proof -
  note oks = park_ok_stages [OF ok, of now]
  show e: "\<not> lease_expired now r"
    using k r in_keys_select [OF ok] by (auto simp: swept_def ttl_rows_def)
  have nl: "k \<notin> fst ` set (lru_excess (after_ttl now p))" using k by (auto simp: swept_def)
  with e r show lru: "map_of (pk_rows (after_lru now p)) k = Some r"
    using after_lru_hot [OF ok, of now k r] by blast
  have "(k, r) \<notin> set (worn_rows (after_lru now p))" using k by (force simp: swept_def)
  with lru r have "over_rounds (pr_manifest r) \<noteq> Some True"
    by (auto simp: worn_rows_def in_select_rows [OF oks(2)])
  with park_okD(3) [OF ok r(1)] show "over_rounds (pr_manifest r) = Some False"
    by (auto elim!: row_okE)
qed

text \<open>
  C24. On every reachable registry a sweep returns, and afterwards at most three leases are hot; no
  hot lease is past its soft or its hard limit or has used up its five rounds, no resumable row is
  past its hard limit, and no released row is older than the retention window.
\<close>

theorem sweep_enforces_limits:
  fixes ops :: "(instant \<times> park_op) list"
  defines "p \<equiv> run_park ops"
  shows "\<exists>ks p'. sweep_leases now p = (Inr ks, p') \<and> length (select_rows is_hot p') \<le> 3 \<and>
    (\<forall>k r. map_of (pk_rows p') k = Some r \<longrightarrow>
      (is_hot r \<longrightarrow> \<not> lease_expired now r \<and> over_rounds (pr_manifest r) = Some False) \<and>
      \<not> cold_expired now r \<and> \<not> released_old now r)"
proof (intro exI conjI allI impI)
  let ?p' = "snd (sweep_leases now p)"
  have ok: "park_ok p" by (simp add: p_def)
  then have ok': "park_ok ?p'" by (rule park_ok_sweep)
  show "sweep_leases now p = (Inr (swept now p), ?p')" by (simp add: fst_sweep [OF ok, symmetric])
  have "hot_keys ?p' \<subseteq> hot_keys (after_lru now p)"
    using sweep_survivor [OF ok] unswept(2) [OF ok]
    by (auto simp: in_hot_keys [OF ok'] in_hot_keys [OF park_ok_stages(2) [OF ok]])
  then have "card (hot_keys ?p') \<le> card (hot_keys (after_lru now p))"
    by (intro card_mono) (simp_all add: hot_keys_def)
  then show "length (select_rows is_hot ?p') \<le> 3"
    using card_after_lru [OF ok, of now] by (simp add: card_hot_keys [OF ok'] max_hot_parked_def)
  fix k r
  assume r: "map_of (pk_rows ?p') k = Some r"
  {
    assume "is_hot r"
    with r sweep_survivor [OF ok] unswept [OF ok]
    show "\<not> lease_expired now r" "over_rounds (pr_manifest r) = Some False" by blast+
  }
  show "\<not> cold_expired now r" "\<not> released_old now r"
    using r by (auto simp: sweep_row [OF ok] split: option.splits if_splits)
qed

definition demo_ops :: "(instant \<times> park_op) list" where
  "demo_ops = [(10, Acquire ''k1'' (demo_manifest ''k1'' ''w1'')), (2000, Acquire ''k2'' (demo_manifest ''k2'' ''w2''))]"

lemma demo_rows: "pk_rows (run_park demo_ops) =
    [(''k1'', manifest_row 10 (demo_manifest ''k1'' ''w1'')), (''k2'', manifest_row 2000 (demo_manifest ''k2'' ''w2''))]"
  by (simp add: demo_ops_def run_park_def acquire_def)

lemma demo_expired:
  "lease_expired 5000 (manifest_row 10 (demo_manifest ''k1'' ''w1''))"
  "\<not> lease_expired 5000 (manifest_row 2000 (demo_manifest ''k2'' ''w2''))"
  "is_hot (manifest_row t (demo_manifest k w))"
  by (simp_all add: lease_expired_def manifest_row_def demo_manifest_def ttl_seconds_def
      hard_limit_seconds_def is_hot_def)

theorem sweep_enforces_limits_witness:
  "''k1'' \<in> hot_keys (run_park demo_ops) \<and> ''k1'' \<notin> hot_keys (snd (sweep_leases 5000 (run_park demo_ops)))"
proof -
  let ?p = "run_park demo_ops"
  from sweep_enforces_limits [of 5000 demo_ops]
  have no: "\<not> lease_expired 5000 r" if "map_of (pk_rows (snd (sweep_leases 5000 ?p))) ''k1'' = Some r" "is_hot r" for r
    using that by auto
  have "map_of (pk_rows ?p) ''k1'' = Some (manifest_row 10 (demo_manifest ''k1'' ''w1''))" by (simp add: demo_rows)
  moreover have "\<not> (map_of (pk_rows (snd (sweep_leases 5000 ?p))) ''k1'' = Some r \<and> is_hot r)" for r
    using no [of r] calculation sweep_survivor [OF park_ok_run, of 5000 demo_ops "''k1''" r] demo_expired by auto
  ultimately show ?thesis
    using demo_expired by (auto simp: in_hot_keys park_ok_sweep)
qed

lemma lru_excess_least:
  assumes "(k, r) \<in> set (lru_excess p)" "(j, q) \<in> set (select_rows is_hot p)" "(j, q) \<notin> set (lru_excess p)"
  shows "pr_last r \<le> pr_last q"
proof -
  let ?xs = "sort_key (pr_last \<circ> snd) (select_rows is_hot p)" and ?n = "length (select_rows is_hot p) - max_hot_parked"
  have ex: "lru_excess p = take ?n ?xs" by (simp add: lru_excess_def Let_def)
  have "(j, q) \<in> set (take ?n ?xs) \<union> set (drop ?n ?xs)"
    using assms(2) by (metis append_take_drop_id set_append set_sort)
  with assms(3) ex have d: "(j, q) \<in> set (drop ?n ?xs)" by simp
  have "sorted (map (pr_last \<circ> snd) (take ?n ?xs @ drop ?n ?xs))" by (simp only: append_take_drop_id sorted_sort_key)
  then have "(pr_last \<circ> snd) (k, r) \<le> (pr_last \<circ> snd) (j, q)"
    unfolding map_append sorted_append using assms(1) d ex by (metis imageI set_map)
  then show ?thesis by simp
qed

lemma swept_lru:
  assumes ok: "park_ok p" and k: "k \<in> set (swept now p)"
    and r: "map_of (pk_rows p) k = Some r" "\<not> lease_expired now r" "over_rounds (pr_manifest r) = Some False"
    and j: "map_of (pk_rows (snd (sweep_leases now p))) j = Some q" "is_hot q"
  shows "pr_last r \<le> pr_last q"
proof -
  note oks = park_ok_stages [OF ok, of now]
  let ?a = "after_ttl now p"
  have "k \<in> fst ` set (lru_excess ?a)"
  proof (rule swept_cases [OF ok k])
    fix r' assume "map_of (pk_rows p) k = Some r'" "k \<in> fst ` set (worn_rows (after_lru now p))" "is_hot r'"
      "\<not> lease_expired now r'" "k \<notin> fst ` set (lru_excess ?a)"
    with r have "map_of (pk_rows (after_lru now p)) k = Some r" using after_lru_hot [OF ok, of now k r] by auto
    moreover obtain w where "(k, w) \<in> set (worn_rows (after_lru now p))"
      using \<open>k \<in> fst ` set (worn_rows (after_lru now p))\<close> by auto
    ultimately have "over_rounds (pr_manifest r) = Some True"
      by (auto simp: worn_rows_def in_select_rows [OF oks(2)])
    with r(3) show ?thesis by simp
  qed (use r in auto)
  then obtain w where w: "(k, w) \<in> set (lru_excess ?a)" by auto
  then have "map_of (pk_rows ?a) k = Some w \<and> is_hot w" using in_select_rows [OF oks(1)] in_lru_excess by blast
  with r(1) have wr: "w = r" using after_ttl_hot [OF ok, of now k w] by simp
  from j sweep_survivor [OF ok, of now j q] have q: "map_of (pk_rows p) j = Some q" "j \<notin> set (swept now p)" by auto
  with j(2) unswept(1) [OF ok q(1) j(2) q(2)] have "map_of (pk_rows ?a) j = Some q"
    using after_ttl_hot [OF ok, of now j q] by blast
  moreover have "(j, q) \<notin> set (lru_excess ?a)" using q(2) by (force simp: swept_def)
  ultimately show ?thesis using lru_excess_least [OF w [unfolded wr], of j q] j(2) in_select_rows [OF oks(1)] by blast
qed

lemma sweep_data:
  "park_ok p \<Longrightarrow> pk_data (snd (sweep_leases now p)) = fold (evict_data now) (swept now p) (pk_data p)"
  by (simp add: sweep_stages delete_rows_def after_rounds_def cooled_def after_lru_def after_ttl_def swept_def)

lemma swept_snapshot:
  assumes "park_ok p" "k \<in> set (swept now p)" "valid_review_key k"
  shows "\<exists>snap. fst (latest_snapshot k (pk_data (snd (sweep_leases now p)))) = Inr (Some snap)"
proof -
  have "has_snapshot k (pk_data (snd (sweep_leases now p)))" "snaps_ok (pk_data (snd (sweep_leases now p)))"
    using assms evict_data_all [OF park_okD(2) [OF assms(1)]] by (simp_all add: sweep_data)
  with assms(3) show ?thesis by (metis latest_snapshot_has option.exhaust)
qed

text \<open>
  What a sweep answers is what it did. On every reachable registry the list it returns has no
  duplicates and holds exactly the keys whose lease was hot before and is not hot any more. Such a
  lease is kept as resumable with its other columns unchanged, unless it is past its hard limit; its
  review has a snapshot to be rebuilt from; and one that was neither expired nor out of rounds was
  used no later than any lease that stays hot. Every other row is kept as it is or purged by its
  retention rule.
\<close>

theorem sweep_evicts_exactly:
  fixes ops :: "(instant \<times> park_op) list"
  defines "p \<equiv> run_park ops"
  assumes s: "sweep_leases now p = (Inr ks, p')"
  shows "distinct ks \<and> set ks = hot_keys p - hot_keys p' \<and>
    (\<forall>k r. map_of (pk_rows p) k = Some r \<longrightarrow>
      (if k \<in> set ks
       then map_of (pk_rows p') k = (if hard_expired now r then None else Some (cool r)) \<and>
         (valid_review_key k \<longrightarrow> (\<exists>snap. fst (latest_snapshot k (pk_data p')) = Inr (Some snap))) \<and>
         (\<forall>j q. \<not> lease_expired now r \<and> over_rounds (pr_manifest r) = Some False \<and>
            map_of (pk_rows p') j = Some q \<and> is_hot q \<longrightarrow> pr_last r \<le> pr_last q)
       else map_of (pk_rows p') k = (if cold_expired now r \<or> released_old now r then None else Some r)))"
proof -
  have ok: "park_ok p" by (simp add: p_def)
  note oks = park_ok_stages [OF ok, of now]
  have ks: "ks = swept now p" and p': "p' = snd (sweep_leases now p)" using s fst_sweep [OF ok, of now] by auto
  have ok': "park_ok p'" unfolding p' by (rule park_ok_sweep [OF ok])
  have hot: "\<exists>r. map_of (pk_rows p) k = Some r \<and> is_hot r" if "k \<in> set ks" for k
    by (rule swept_cases [OF ok that [unfolded ks]]) blast+
  have dist: "distinct ks" unfolding ks by (rule distinct_swept [OF ok])
  have keys: "set ks = hot_keys p - hot_keys p'"
    using hot sweep_survivor [OF ok, of now]
    unfolding ks p' set_eq_iff Diff_iff in_hot_keys [OF ok] in_hot_keys [OF park_ok_sweep [OF ok]]
    by blast
  have snap: "\<exists>snap. fst (latest_snapshot k (pk_data p')) = Inr (Some snap)"
    if k: "k \<in> set ks" "valid_review_key k" for k
    by (rule swept_snapshot [OF ok k [unfolded ks], folded p'])
  have lru: "pr_last r \<le> pr_last q"
    if k: "k \<in> set ks" and r: "map_of (pk_rows p) k = Some r" "\<not> lease_expired now r" "over_rounds (pr_manifest r) = Some False"
      and j: "map_of (pk_rows p') j = Some q" "is_hot q" for k r j q
    by (rule swept_lru [OF ok k [unfolded ks] r j [unfolded p']])
  have row: "map_of (pk_rows p') k = (if k \<in> set ks then (if hard_expired now r then None else Some (cool r))
      else if cold_expired now r \<or> released_old now r then None else Some r)"
    if "map_of (pk_rows p) k = Some r" for k r
    using sweep_row [OF ok, of now k] that by (simp only: ks p' option.case)
  show ?thesis
  proof (intro conjI allI impI dist keys)
    fix k r
    assume r: "map_of (pk_rows p) k = Some r"
    show "if k \<in> set ks
       then map_of (pk_rows p') k = (if hard_expired now r then None else Some (cool r)) \<and>
         (valid_review_key k \<longrightarrow> (\<exists>snap. fst (latest_snapshot k (pk_data p')) = Inr (Some snap))) \<and>
         (\<forall>j q. \<not> lease_expired now r \<and> over_rounds (pr_manifest r) = Some False \<and>
            map_of (pk_rows p') j = Some q \<and> is_hot q \<longrightarrow> pr_last r \<le> pr_last q)
       else map_of (pk_rows p') k = (if cold_expired now r \<or> released_old now r then None else Some r)"
    proof (cases "k \<in> set ks")
      case True
      with row [OF r] snap [OF True] lru [OF True r] show ?thesis unfolding if_P [OF True] by blast
    next
      case False
      with row [OF r] show ?thesis by simp
    qed
  qed
qed

lemma demo_round: "pm_round (demo_manifest k w) = 1"
  by (simp add: demo_manifest_def)

theorem sweep_evicts_exactly_witness:
  "\<exists>p'. sweep_leases 5000 (run_park demo_ops) = (Inr [''k1''], p') \<and>
     map_of (pk_rows p') ''k1'' = Some (cool (manifest_row 10 (demo_manifest ''k1'' ''w1'')))"
proof -
  let ?p = "run_park demo_ops"
  obtain ks p' where s: "sweep_leases 5000 ?p = (Inr ks, p')" using fst_sweep [OF park_ok_run] by (metis prod.collapse)
  have "ks = [''k1'']"
    using s fst_sweep [OF park_ok_run, of 5000 demo_ops] 
    by (simp add: swept_def ttl_rows_def select_rows_def demo_rows demo_expired worn_rows_def after_lru_def
        after_ttl_def cooled_def cool_keys_def delete_rows_def lru_excess_def max_hot_parked_def demo_round max_rounds_def)
  moreover have "\<not> hard_expired 5000 (manifest_row 10 (demo_manifest ''k1'' ''w1''))"
    by (simp add: hard_expired_def manifest_row_def demo_manifest_def hard_limit_seconds_def)
  ultimately show ?thesis
    using s sweep_evicts_exactly [OF s] by (simp add: demo_rows)
qed

end
