(* ===== verification/Park_Router.thy ===== *)
theory Park_Router
  imports Park_Registry Store_Admin
begin

text \<open>
  \<open>park/router.py\<close>, the choice between a hot, a warm and a cold revival, and what ties the park
  registry to its clients: the guard of the mailbox store, which spares the folders of a parked
  agent, and the snapshots that make a cold revival possible after an eviction.
\<close>

section \<open>Reviving\<close>

datatype revive_context = Note string | Rebuild cold_context

record revive_result =
  rv_success :: bool
  rv_method :: string
  rv_context :: revive_context
  rv_manifest :: "park_manifest option"
  rv_prompt :: string

definition hot_note :: "string \<Rightarrow> park_manifest \<Rightarrow> string" where
  "hot_note k m = ''Found HOT_PARKED instance for '' @ [CHR 0x27] @ k @ [CHR 0x27] @
     '', use hub send to peer_agent_id='' @ pm_peer_agent_id m"

definition warm_note :: "park_manifest \<Rightarrow> string" where
  "warm_note m = ''Warm resume available ('' @ lifecycle_value (pm_lifecycle m) @
     ''): backend_session_id='' @ pm_backend_session_id m"

definition dead_note :: "park_manifest \<Rightarrow> string" where
  "dead_note m = ''Warm resume (HOT_PARKED but runtime dead): backend_session_id='' @
     pm_backend_session_id m"

definition revived :: "string \<Rightarrow> string \<Rightarrow> park_manifest option \<Rightarrow> revive_context \<Rightarrow> revive_result" where
  "revived method prompt m c = \<lparr>rv_success = True, rv_method = method, rv_context = c,
     rv_manifest = m, rv_prompt = prompt\<rparr>"

definition cold_revive ::
  "string \<Rightarrow> string \<Rightarrow> park_manifest option \<Rightarrow> park \<Rightarrow> (park_error + revive_result) \<times> park" where
  "cold_revive k prompt m p = (case build_cold_context k (pk_data p) of
       (Inl e, d) \<Rightarrow> (Inl e, p\<lparr>pk_data := d\<rparr>)
     | (Inr c, d) \<Rightarrow> (Inr (revived ''cold'' prompt m (Rebuild c)), p\<lparr>pk_data := d\<rparr>))"

text \<open>The argument \<open>is_alive\<close> is \<^term>\<open>None\<close> when the caller passes no callback.\<close>

definition revive_or_spawn ::
  "string \<Rightarrow> string \<Rightarrow> (park_manifest \<Rightarrow> bool) option \<Rightarrow> park \<Rightarrow> (park_error + revive_result) \<times> park" where
  "revive_or_spawn k prompt is_alive p0 =
     (let p = init_db p0 in
      case lookup k p of
        Inl e \<Rightarrow> (Inl e, p)
      | Inr None \<Rightarrow> cold_revive k prompt None p
      | Inr (Some m) \<Rightarrow>
          if pm_lifecycle m = HOT_PARKED \<and> (case is_alive of None \<Rightarrow> True | Some f \<Rightarrow> f m)
          then (Inr (revived ''hot'' prompt (Some m) (Note (hot_note k m))), p)
          else if pm_backend_session_id m \<noteq> [] \<and> pm_lifecycle m \<in> {COLD_RESUMABLE, RELEASED_SOFT}
          then (Inr (revived ''warm'' prompt (Some m) (Note (warm_note m))), p)
          else if pm_backend_session_id m \<noteq> [] \<and> pm_lifecycle m = HOT_PARKED \<and> is_alive \<noteq> None
          then (Inr (revived ''warm'' prompt (Some m) (Note (dead_note m))), p)
          else cold_revive k prompt (Some m) p)"

definition park_revive :: "string \<Rightarrow> string \<Rightarrow> park \<Rightarrow> (park_error + revive_result) \<times> park" where
  "park_revive k prompt p = revive_or_spawn k prompt None p"

section \<open>The guard of the mailbox store\<close>

text \<open>
  The test of \<open>_check_park_lease\<close> and \<open>_session_has_active_park_lease\<close> in \<open>mailbox/store.py\<close>: an
  error of the registry counts as no lease.
\<close>

definition lease_active :: "park \<Rightarrow> string \<Rightarrow> bool" where
  "lease_active p aid = (case lookup_by_field ''mailbox_agent_id'' aid (init_db p) of
       Inr (Some m) \<Rightarrow> pm_lifecycle m = HOT_PARKED
     | _ \<Rightarrow> False)"

text \<open>The lease of a key is hot and names the mailbox agent.\<close>

definition holds_lease :: "park \<Rightarrow> string \<Rightarrow> string \<Rightarrow> bool" where
  "holds_lease p k aid \<longleftrightarrow> (\<exists>m. lookup k p = Inr (Some m) \<and> pm_lifecycle m = HOT_PARKED \<and>
     pm_mailbox_agent_id m = aid)"

text \<open>
  What the store relies on of a lease registry: its answer for an agent is positive exactly when
  some key holds a lease for that agent.
\<close>

locale lease_registry =
  fixes wf :: "'r \<Rightarrow> bool"
    and active :: "'r \<Rightarrow> string \<Rightarrow> bool"
    and holds :: "'r \<Rightarrow> string \<Rightarrow> string \<Rightarrow> bool"
  assumes active_iff: "wf r \<Longrightarrow> active r aid \<longleftrightarrow> (\<exists>k. holds r k aid)"
begin

lemma clear_refused:
  "wf r \<Longrightarrow> holds r k aid \<Longrightarrow> clear (active r) now prune sid aid s = (Inl ParkLeaseActive, s)"
  using active_iff by (auto simp: clear_def)

lemma cleanup_keeps:
  assumes "wf r" "holds r k aid" "session_members sid s = Inr aids" "aid \<in> set aids"
    and "clean_older_than (active r) now days s = (Inr (removed, skipped), s')"
  shows "sid \<notin> set removed"
proof
  assume sid: "sid \<in> set removed"
  have "session_has_active_park_lease (active r) sid s"
    using assms(1-4) active_iff by (auto simp: session_has_active_park_lease_def list_ex_iff)
  moreover have "clean_loop (active r) now (now - of_int days * 86400) (sort (children s [])) s =
      (Inr (removed, skipped), s')"
    using assms(5) sid by (auto simp: clean_older_than_def split: if_splits)
  ultimately show False using clean_loop_removable sid by (fastforce simp: removable_def)
qed

lemma lease_ends: "wf r \<Longrightarrow> \<not> active r aid \<Longrightarrow> \<not> holds r k aid"
  using active_iff by blast

end

lemma manifest_agent: "dget (manifest_to_dict m) ''mailbox_agent_id'' = Some (JStr (pm_mailbox_agent_id m))"
  by (simp add: dget_def manifest_to_dict_def)

lemma hot_row:
  assumes "park_ok p"
  shows "(k, r) \<in> set (select_rows is_hot p) \<longleftrightarrow> map_of (pk_rows p) k = Some r \<and> pr_lifecycle r = ''hot_parked''"
  using in_select_rows [OF assms] by (simp add: is_hot_def)

lemma holds_lease_row:
  assumes ok: "park_ok p"
  shows "holds_lease p k aid \<longleftrightarrow> (\<exists>r. (k, r) \<in> set (select_rows is_hot p) \<and>
    dget (pr_manifest r) ''mailbox_agent_id'' = Some (JStr aid))"
proof (cases "map_of (pk_rows p) k")
  case None
  then show ?thesis by (auto simp: holds_lease_def lookup_def hot_row [OF ok])
next
  case (Some row)
  obtain m where "lookup k p = Inr (Some m)" "pr_manifest row = manifest_to_dict m"
    "pr_lifecycle row = lifecycle_value (pm_lifecycle m)" using lookup_row [OF ok Some] .
  with Some show ?thesis by (auto simp: holds_lease_def hot_row [OF ok] manifest_agent)
qed

lemma lease_active_row:
  assumes ok: "park_ok p"
  shows "lease_active p aid \<longleftrightarrow> (\<exists>k r. (k, r) \<in> set (select_rows is_hot p) \<and>
    dget (pr_manifest r) ''mailbox_agent_id'' = Some (JStr aid))"
proof (cases "find (\<lambda>(_, r). dget (pr_manifest r) ''mailbox_agent_id'' = Some (JStr aid)) (select_rows is_hot p)")
  case None
  then have "\<not> lease_active p aid" by (simp add: lease_active_def park_ok_init_db [OF ok] lookup_by_field_def)
  with None show ?thesis by (auto simp: find_None_iff)
next
  case (Some x)
  then obtain k r where x: "x = (k, r)" "(k, r) \<in> set (select_rows is_hot p)"
      "dget (pr_manifest r) ''mailbox_agent_id'' = Some (JStr aid)"
    by (cases x) (auto dest: find_SomeD)
  then obtain m where m: "pr_manifest r = manifest_to_dict m" "pr_lifecycle r = lifecycle_value (pm_lifecycle m)"
    using park_okD(3) [OF ok] hot_row [OF ok] by (blast elim: row_okE)
  with x have "pm_lifecycle m = HOT_PARKED" using hot_row [OF ok] by simp
  with Some x(1) m have "lease_active p aid"
    by (simp add: lease_active_def park_ok_init_db [OF ok] lookup_by_field_def)
  with x(2,3) show ?thesis by blast
qed

interpretation leases: lease_registry park_ok lease_active holds_lease
  by unfold_locales (simp add: lease_active_row holds_lease_row)

text \<open>
  C25. The mailbox of a parked agent is safe. While some key of a reachable park registry holds a hot
  lease for an agent, \<open>clear\<close> refuses to touch the folders of that agent, and the retention cleanup
  removes no session with that agent in its roster, however old it is.
\<close>

theorem lease_protects_mailbox:
  assumes "holds_lease (run_park ops) k aid"
  shows "clear (lease_active (run_park ops)) now prune sid aid s = (Inl ParkLeaseActive, s) \<and>
    (\<forall>sess aids days removed skipped s'. session_members sess s = Inr aids \<and> aid \<in> set aids \<and>
       clean_older_than (lease_active (run_park ops)) now days s = (Inr (removed, skipped), s') \<longrightarrow>
       sess \<notin> set removed)"
  using leases.clear_refused [OF park_ok_run assms] leases.cleanup_keeps [OF park_ok_run assms] by blast

theorem lease_protects_mailbox_witness:
  "clear (lease_active (run_park demo_ops)) 100 True ''s1'' ''w1'' [] = (Inl ParkLeaseActive, [])"
proof -
  have "holds_lease (run_park demo_ops) ''k1'' ''w1''"
    by (simp add: holds_lease_def lookup_def demo_rows) (simp add: demo_manifest_def)
  then show ?thesis by (simp add: lease_protects_mailbox)
qed

section \<open>Revival after an eviction\<close>

text \<open>
  An evicted reviewer can always be revived. After a sweep of a reachable registry has evicted
  a key that is a valid review key, reviving it succeeds: it resumes the backend session recorded in
  the manifest when there is one and the row was kept, and otherwise it rebuilds the instance from a
  stored snapshot; the prompt that tells a new instance to start from nothing is never produced.
\<close>

theorem evicted_key_revives:
  assumes s: "sweep_leases now (run_park ops) = (Inr ks, p')" and k: "k \<in> set ks" "valid_review_key k"
  shows "\<exists>rv. fst (park_revive k prompt p') = Inr rv \<and> rv_success rv \<and>
    (rv_method rv = ''warm'' \<and> (\<exists>m. rv_manifest rv = Some m \<and> pm_backend_session_id m \<noteq> []) \<or>
     rv_method rv = ''cold'' \<and> (\<exists>n q c xs ys zs ws. rv_context rv = Rebuild (Inherited k n q c xs ys zs ws)))"
proof -
  have ks: "ks = swept now (run_park ops)" and p': "p' = snd (sweep_leases now (run_park ops))"
    using s fst_sweep [OF park_ok_run, of now ops] by auto
  have ok': "park_ok p'" unfolding p' by (rule park_ok_sweep) simp
  obtain snap where snap: "fst (latest_snapshot k (pk_data p')) = Inr (Some snap)"
    using swept_snapshot [OF park_ok_run k [unfolded ks]] unfolding p' by blast
  then obtain d where l: "latest_snapshot k (pk_data p') = (Inr (Some snap), d)" by (metis prod.collapse)
  have cold: "\<exists>rv. fst (cold_revive k prompt mo p') = Inr rv \<and> rv_success rv \<and> rv_method rv = ''cold'' \<and>
      (\<exists>n q c xs ys zs ws. rv_context rv = Rebuild (Inherited k n q c xs ys zs ws))" for mo
    by (simp add: cold_revive_def build_cold_context_def l revived_def)
  obtain r where r: "map_of (pk_rows (run_park ops)) k = Some r" "is_hot r"
    by (rule swept_cases [OF park_ok_run k(1) [unfolded ks]]) blast+
  have row: "map_of (pk_rows p') k = (if hard_expired now r then None else Some (cool r))"
    using sweep_row [OF park_ok_run, of now ops k] r k(1) unfolding p' ks by simp
  show ?thesis
  proof (cases "hard_expired now r")
    case True
    with row have "lookup k p' = Inr None" by (simp add: lookup_def)
    with cold [of None] show ?thesis
      by (auto simp: park_revive_def revive_or_spawn_def park_ok_init_db [OF ok'] Let_def)
  next
    case False
    obtain m where m: "pr_manifest r = manifest_to_dict m" using park_okD(3) [OF park_ok_run r(1)] by (rule row_okE)
    have "lookup k p' = Inr (Some (m\<lparr>pm_lifecycle := COLD_RESUMABLE\<rparr>))"
      using row False m by (simp add: lookup_def cool_def)
    with cold [of "Some (m\<lparr>pm_lifecycle := COLD_RESUMABLE\<rparr>)"] show ?thesis
      by (auto simp: park_revive_def revive_or_spawn_def park_ok_init_db [OF ok'] Let_def revived_def)
  qed
qed

theorem evicted_key_revives_witness:
  "\<exists>rv. fst (park_revive ''k1'' ''go on'' (snd (sweep_leases 5000 (run_park demo_ops)))) = Inr rv \<and> rv_success rv"
proof -
  have s: "sweep_leases 5000 (run_park demo_ops) = (Inr (swept 5000 (run_park demo_ops)), snd (sweep_leases 5000 (run_park demo_ops)))"
    by (simp add: fst_sweep [OF park_ok_run, symmetric])
  have "''k1'' \<in> set (swept 5000 (run_park demo_ops))"
    by (simp add: swept_def ttl_rows_def select_rows_def demo_rows demo_expired)
  moreover have "valid_review_key ''k1''"
    by (simp add: valid_review_key_def REVIEW_KEY_RE_def match_dollar_def is_review_key_char_def
        is_id_char_def is_alnum_def code_def)
  ultimately show ?thesis using evicted_key_revives [OF s, of "''k1''" "''go on''"] by blast
qed

text \<open>
  A lease marked hot whose process is gone is found out only when the caller passes a liveness
  check; \<open>park_revive\<close> passes none.
\<close>

lemma revive_choice:
  assumes "park_ok p" "lookup k p = Inr (Some m)" "pm_lifecycle m = HOT_PARKED"
  shows "\<exists>rv. fst (park_revive k prompt p) = Inr rv \<and> rv_method rv = ''hot''"
    and "pm_backend_session_id m \<noteq> [] \<Longrightarrow>
      \<exists>rv. fst (revive_or_spawn k prompt (Some (\<lambda>_. False)) p) = Inr rv \<and> rv_method rv = ''warm''"
  using assms by (simp_all add: park_revive_def revive_or_spawn_def park_ok_init_db revived_def)

end
