(* ===== verification/Json_Text.thy ===== *)
theory Json_Text
  imports Py_Numbers
begin

text \<open>
  The text form of JSON documents as the program reads and writes it: \<open>json.dumps\<close> with
  \<open>ensure_ascii=False\<close>, and \<open>json.loads\<close>. The argument \<open>sp\<close> of \<open>dumps\<close> is what follows a comma or a
  colon: a space by default, nothing under \<open>separators=(",", ":")\<close>.

  A float is written by \<open>float.__repr__\<close>, here the argument \<open>fr\<close>; the round trip is stated for
  documents without floats. \<open>loads\<close> is the scanner of the standard library: white space between
  tokens, the last of duplicate keys, control characters refused inside strings. A number with a
  fraction or an exponent is read as its decimal value. The literals \<open>NaN\<close> and \<open>Infinity\<close> and
  escapes above code point 255 are not in the model's character set and are refused.

  The scanner takes fuel. Each call consumes at least one character before it calls itself, so the
  length of the text is enough: \<open>scan_fuel\<close> shows that more fuel changes nothing.
\<close>

section \<open>Writing\<close>

definition hex_digit :: "nat \<Rightarrow> char" where
  "hex_digit n = (if n < 10 then digit n else char_of (87 + n))"

definition esc_char :: "char \<Rightarrow> string" where
  "esc_char c =
     (if c = CHR 0x22 then [CHR 0x5C, CHR 0x22]
      else if c = CHR 0x5C then [CHR 0x5C, CHR 0x5C]
      else if c = CHR 0x0A then [CHR 0x5C, CHR ''n'']
      else if c = CHR 0x0D then [CHR 0x5C, CHR ''r'']
      else if c = CHR 0x09 then [CHR 0x5C, CHR ''t'']
      else if c = CHR 0x0C then [CHR 0x5C, CHR ''f'']
      else if c = CHR 0x08 then [CHR 0x5C, CHR ''b'']
      else if code c < 32 then CHR 0x5C # ''u00'' @ [hex_digit (code c div 16), hex_digit (code c mod 16)]
      else [c])"

definition dumps_str :: "string \<Rightarrow> string" where
  "dumps_str s = CHR 0x22 # concat (map esc_char s) @ [CHR 0x22]"

fun dumps :: "(rat \<Rightarrow> string) \<Rightarrow> string \<Rightarrow> json \<Rightarrow> string"
  and dumps_items :: "(rat \<Rightarrow> string) \<Rightarrow> string \<Rightarrow> json list \<Rightarrow> string"
  and dumps_members :: "(rat \<Rightarrow> string) \<Rightarrow> string \<Rightarrow> (string \<times> json) list \<Rightarrow> string" where
  "dumps fr sp JNull = ''null''"
| "dumps fr sp (JBool b) = (if b then ''true'' else ''false'')"
| "dumps fr sp (JInt i) = str_int i"
| "dumps fr sp (JFloat r) = fr r"
| "dumps fr sp (JStr s) = dumps_str s"
| "dumps fr sp (JArr xs) = (case xs of [] \<Rightarrow> ''[]'' | x # ys \<Rightarrow> ''['' @ dumps fr sp x @ dumps_items fr sp ys)"
| "dumps fr sp (JObj d) = (case d of [] \<Rightarrow> ''{}'' | (k, v) # ms \<Rightarrow>
     ''{'' @ dumps_str k @ '':'' @ sp @ dumps fr sp v @ dumps_members fr sp ms)"
| "dumps_items fr sp [] = '']''"
| "dumps_items fr sp (x # xs) = '','' @ sp @ dumps fr sp x @ dumps_items fr sp xs"
| "dumps_members fr sp [] = ''}''"
| "dumps_members fr sp ((k, v) # ms) = '','' @ sp @ dumps_str k @ '':'' @ sp @ dumps fr sp v @ dumps_members fr sp ms"

section \<open>Reading\<close>

definition is_ws :: "char \<Rightarrow> bool" where
  "is_ws c \<longleftrightarrow> c = CHR 0x20 \<or> c = CHR 0x09 \<or> c = CHR 0x0A \<or> c = CHR 0x0D"

definition skip_ws :: "string \<Rightarrow> string" where
  "skip_ws s = dropWhile is_ws s"

definition hex_value :: "char \<Rightarrow> nat option" where
  "hex_value c = (if is_digit c then Some (code c - 48)
     else if 97 \<le> code c \<and> code c \<le> 102 then Some (code c - 87)
     else if 65 \<le> code c \<and> code c \<le> 70 then Some (code c - 55) else None)"

definition unescape :: "char \<Rightarrow> char option" where
  "unescape c = map_of [(CHR 0x22, CHR 0x22), (CHR 0x5C, CHR 0x5C), (CHR ''/'', CHR ''/''),
     (CHR ''b'', CHR 0x08), (CHR ''f'', CHR 0x0C), (CHR ''n'', CHR 0x0A), (CHR ''r'', CHR 0x0D),
     (CHR ''t'', CHR 0x09)] c"

definition hex4 :: "char \<Rightarrow> char \<Rightarrow> char \<Rightarrow> char \<Rightarrow> char option" where
  "hex4 a b c d = (case (hex_value a, hex_value b, hex_value c, hex_value d) of
       (Some 0, Some 0, Some x, Some y) \<Rightarrow> Some (char_of (16 * x + y))
     | _ \<Rightarrow> None)"

text \<open>The rest of a string literal after its opening quote.\<close>

fun scan_chars :: "string \<Rightarrow> (string \<times> string) option" where
  "scan_chars [] = None"
| "scan_chars (c # s) =
     (if c = CHR 0x22 then Some ([], s)
      else if code c < 32 then None
      else if c \<noteq> CHR 0x5C then map_option (map_prod (Cons c) id) (scan_chars s)
      else (case s of
          [] \<Rightarrow> None
        | e # s1 \<Rightarrow>
            if e = CHR ''u'' then
              (case s1 of
                 a # b # c # d # s2 \<Rightarrow> (case hex4 a b c d of
                     None \<Rightarrow> None
                   | Some x \<Rightarrow> map_option (map_prod (Cons x) id) (scan_chars s2))
               | _ \<Rightarrow> None)
            else (case unescape e of
                None \<Rightarrow> None
              | Some x \<Rightarrow> map_option (map_prod (Cons x) id) (scan_chars s1))))"

definition scan_string :: "string \<Rightarrow> (string \<times> string) option" where
  "scan_string s = (case s of c # s1 \<Rightarrow> if c = CHR 0x22 then scan_chars s1 else None | [] \<Rightarrow> None)"

text \<open>
  The pattern \<open>(-?(?:0|[1-9]\d*))(\.\d+)?([eE][-+]?\d+)?\<close> of the scanner, greedy in each part.
\<close>

definition int_part :: "string \<Rightarrow> (string \<times> string) option" where
  "int_part s = (case s of
       [] \<Rightarrow> None
     | c # r \<Rightarrow> if c = CHR ''0'' then Some ([c], r)
         else if is_digit c then Some (takeWhile is_digit s, dropWhile is_digit s) else None)"

definition frac_part :: "string \<Rightarrow> string \<times> string" where
  "frac_part s = (case s of
       c # d # r \<Rightarrow> if c = CHR ''.'' \<and> is_digit d
         then (takeWhile is_digit (d # r), dropWhile is_digit (d # r)) else ([], s)
     | _ \<Rightarrow> ([], s))"

definition exp_digits :: "string \<Rightarrow> (string \<times> string) option" where
  "exp_digits s = (if takeWhile is_digit s = [] then None
     else Some (takeWhile is_digit s, dropWhile is_digit s))"

definition exp_part :: "string \<Rightarrow> (bool \<times> string) option \<times> string" where
  "exp_part s = (case s of
       c # r \<Rightarrow> if c \<in> {CHR ''e'', CHR ''E''} then
           (case r of
              sg # r1 \<Rightarrow>
                (case exp_digits (if sg \<in> {CHR ''+'', CHR ''-''} then r1 else r) of
                   None \<Rightarrow> (None, s) | Some (ds, r2) \<Rightarrow> (Some (sg = CHR ''-'', ds), r2))
            | [] \<Rightarrow> (None, s))
         else (None, s)
     | [] \<Rightarrow> (None, s))"

definition decimal :: "string \<Rightarrow> string \<Rightarrow> (bool \<times> string) option \<Rightarrow> rat" where
  "decimal ip fp ex =
     (let m = of_nat (nat_of_digits (ip @ fp)) / 10 ^ length fp in
      case ex of
        None \<Rightarrow> m
      | Some (neg, ds) \<Rightarrow> if neg then m / 10 ^ nat_of_digits ds else m * 10 ^ nat_of_digits ds)"

definition scan_number :: "string \<Rightarrow> (json \<times> string) option" where
  "scan_number s =
     (let neg = (s \<noteq> [] \<and> hd s = CHR ''-''); body = (if neg then tl s else s) in
      case int_part body of
        None \<Rightarrow> None
      | Some (ip, r1) \<Rightarrow>
          (case frac_part r1 of (fp, r2) \<Rightarrow>
             (case exp_part r2 of (ex, r3) \<Rightarrow>
                (if fp = [] \<and> ex = None
                 then Some (JInt (if neg then - int (nat_of_digits ip) else int (nat_of_digits ip)), r3)
                 else Some (JFloat (if neg then - decimal ip fp ex else decimal ip fp ex), r3)))))"

definition literal :: "string \<Rightarrow> json \<Rightarrow> string \<Rightarrow> (json \<times> string) option" where
  "literal w j s = (if prefix w s then Some (j, drop (length w) s) else None)"

text \<open>
  One value; the items of an array after its bracket and the first white space; the members of an
  object from the key on, given the members read so far.
\<close>

fun scan :: "nat \<Rightarrow> string \<Rightarrow> (json \<times> string) option"
  and scan_items :: "nat \<Rightarrow> string \<Rightarrow> (json list \<times> string) option"
  and scan_members :: "nat \<Rightarrow> dict \<Rightarrow> string \<Rightarrow> (dict \<times> string) option" where
  "scan 0 s = None"
| "scan (Suc n) s = (case s of
       [] \<Rightarrow> None
     | c # r \<Rightarrow>
         if c = CHR 0x22 then map_option (map_prod JStr id) (scan_chars r)
         else if c = CHR ''{'' then
           (let r1 = skip_ws r in
            if prefix ''}'' r1 then Some (JObj [], tl r1)
            else map_option (map_prod JObj id) (scan_members n [] r1))
         else if c = CHR ''['' then
           (let r1 = skip_ws r in
            if prefix '']'' r1 then Some (JArr [], tl r1)
            else map_option (map_prod JArr id) (scan_items n r1))
         else if c = CHR ''n'' then literal ''null'' JNull s
         else if c = CHR ''t'' then literal ''true'' (JBool True) s
         else if c = CHR ''f'' then literal ''false'' (JBool False) s
         else scan_number s)"
| "scan_items 0 s = None"
| "scan_items (Suc n) s = (case scan n s of
       None \<Rightarrow> None
     | Some (j, r) \<Rightarrow>
         (let r1 = skip_ws r in
          if prefix '']'' r1 then Some ([j], tl r1)
          else if prefix '','' r1 then map_option (map_prod (Cons j) id) (scan_items n (skip_ws (tl r1)))
          else None))"
| "scan_members 0 d s = None"
| "scan_members (Suc n) d s = (case scan_string s of
       None \<Rightarrow> None
     | Some (k, r) \<Rightarrow>
         (let r1 = skip_ws r in
          if \<not> prefix '':'' r1 then None
          else case scan n (skip_ws (tl r1)) of
            None \<Rightarrow> None
          | Some (v, r2) \<Rightarrow>
              (let d1 = dset d k v; r3 = skip_ws r2 in
               if prefix ''}'' r3 then Some (d1, tl r3)
               else if prefix '','' r3 then scan_members n d1 (skip_ws (tl r3))
               else None)))"

definition loads :: "string \<Rightarrow> json option" where
  "loads s = (case scan (Suc (2 * length s)) (skip_ws s) of
       None \<Rightarrow> None
     | Some (j, r) \<Rightarrow> if skip_ws r = [] then Some j else None)"

declare scan.simps [simp del] scan_items.simps [simp del] scan_members.simps [simp del]

section \<open>Round trip\<close>

text \<open>Documents without floats and without duplicate keys.\<close>

fun plain :: "json \<Rightarrow> bool"
  and plain_items :: "json list \<Rightarrow> bool"
  and plain_members :: "(string \<times> json) list \<Rightarrow> bool" where
  "plain (JFloat _) = False"
| "plain (JArr xs) = plain_items xs"
| "plain (JObj d) = (distinct (map fst d) \<and> plain_members d)"
| "plain _ = True"
| "plain_items [] = True"
| "plain_items (x # xs) = (plain x \<and> plain_items xs)"
| "plain_members [] = True"
| "plain_members ((k, v) # ms) = (plain v \<and> plain_members ms)"

text \<open>What may follow a number without becoming part of it.\<close>

definition stops :: "string \<Rightarrow> bool" where
  "stops r \<longleftrightarrow> (case r of [] \<Rightarrow> True | c # _ \<Rightarrow> c \<in> {CHR '','', CHR '']'', CHR ''}''})"

lemma char_of_code [simp]: "char_of (code c) = c"
  by (simp add: code_def)

lemma hex_value_hex_digit [simp]: "n < 16 \<Longrightarrow> hex_value (hex_digit n) = Some n"
  by (auto simp: hex_value_def hex_digit_def is_digit_def code_def digit_def)

lemma hex4_low: "code c < 256 \<Longrightarrow> hex4 (CHR ''0'') (CHR ''0'') (hex_digit (code c div 16)) (hex_digit (code c mod 16)) = Some c"
  using mult_div_mod_eq [of 16 "code c"]
  by (simp add: hex4_def less_mult_imp_div_less) (simp add: hex_value_def is_digit_def code_def)

lemma code_less: "code c < 256"
  by (simp add: code_def)

lemma scan_chars_esc:
  "scan_chars (esc_char c @ s) = map_option (map_prod (Cons c) id) (scan_chars s)"
  using hex4_low [OF code_less, of c]
  by (auto simp: esc_char_def unescape_def code_def)

lemma scan_chars_str: "scan_chars (concat (map esc_char s) @ CHR 0x22 # r) = Some (s, r)"
  by (induction s) (simp_all add: scan_chars_esc)

lemma scan_string_str [simp]: "scan_string (dumps_str s @ r) = Some (s, r)"
  by (simp add: scan_string_def dumps_str_def scan_chars_str)

lemma skip_ws_Cons [simp]: "\<not> is_ws c \<Longrightarrow> skip_ws (c # s) = c # s"
  by (simp add: skip_ws_def)

lemma skip_ws_Nil [simp]: "skip_ws [] = []"
  by (simp add: skip_ws_def)

lemma digit_zero_code: "48 + 0 = code (CHR ''0'')"
  by (simp add: code_def)

lemma digits_hd: "0 < n \<Longrightarrow> hd (digits n) \<noteq> CHR ''0''"
proof (induction n rule: digits.induct)
  case (1 n)
  show ?case
  proof (cases "n < 10")
    case True
    then have "code (digit n) \<noteq> code (CHR ''0'')" using 1 by (simp add: code_digit) (simp add: code_def)
    with True show ?thesis by (auto simp: digits.simps [of n])
  next
    case False
    with 1 have "hd (digits (n div 10)) \<noteq> CHR ''0''" by simp
    with False show ?thesis by (simp add: digits.simps [of n])
  qed
qed

lemma stops_digit: "stops r \<Longrightarrow> takeWhile is_digit r = [] \<and> dropWhile is_digit r = r"
  by (cases r) (auto simp: stops_def is_digit_def code_def)

lemma takeWhile_digits: "stops r \<Longrightarrow> takeWhile is_digit (digits n @ r) = digits n"
  using digits_is_digit [of n] stops_digit [of r] by (simp add: takeWhile_append2)

lemma dropWhile_digits: "stops r \<Longrightarrow> dropWhile is_digit (digits n @ r) = r"
  using digits_is_digit [of n] stops_digit [of r] by (simp add: dropWhile_append2)

lemma int_part_digits:
  assumes "stops r"
  shows "int_part (digits n @ r) = Some (digits n, r)"
proof (cases "n = 0")
  case True
  moreover have "digit 0 = CHR ''0''" by (metis char_of_code code_digit digit_zero_code zero_less_numeral)
  ultimately show ?thesis by (simp add: int_part_def digits.simps [of 0])
next
  case False
  obtain c t where ct: "digits n = c # t" by (cases "digits n") auto
  then have "c \<noteq> CHR ''0''" "is_digit c" using digits_hd [of n] False digits_is_digit [of n] by auto
  then show ?thesis
    using takeWhile_digits [OF assms, of n] dropWhile_digits [OF assms, of n] ct by (simp add: int_part_def)
qed

lemma scan_number_str_int:
  assumes r: "stops r"
  shows "scan_number (str_int i @ r) = Some (JInt i, r)"
proof -
  have f: "frac_part r = ([], r)" "exp_part r = (None, r)"
    using r by (auto simp: stops_def frac_part_def exp_part_def split: list.splits)
  have h: "digits n \<noteq> [] \<and> hd (digits n @ r) \<noteq> CHR ''-''" for n
    using digits_not_minus [of _ n] by (cases "digits n") auto
  show ?thesis
  proof (cases "i < 0")
    case True
    then show ?thesis by (simp add: scan_number_def str_int_def int_part_digits [OF r] f nat_of_digits_digits)
  next
    case False
    then show ?thesis
      using h [of "nat i"] by (simp add: scan_number_def str_int_def int_part_digits [OF r] f nat_of_digits_digits)
  qed
qed

lemma str_int_head: "\<exists>c t. str_int i = c # t \<and> (c = CHR ''-'' \<or> is_digit c)"
  using digits_is_digit [of "nat i"] by (cases "digits (nat i)") (auto simp: str_int_def)

definition value_head :: "char \<Rightarrow> bool" where
  "value_head c \<longleftrightarrow> \<not> is_ws c \<and> c \<noteq> CHR '']'' \<and> c \<noteq> CHR ''}''"

lemma value_head_ws: "value_head c \<Longrightarrow> \<not> is_ws c"
  by (simp add: value_head_def)

lemma dumps_head: "plain j \<Longrightarrow> \<exists>c t. dumps fr sp j = c # t \<and> value_head c"
proof (cases j)
  case (JInt i)
  with str_int_head [of i] show ?thesis by (auto simp: value_head_def is_ws_def is_digit_def code_def)
qed (auto simp: value_head_def is_ws_def dumps_str_def split: list.splits)

lemma scan_number_head:
  assumes "c = CHR ''-'' \<or> is_digit c"
  shows "scan (Suc n) (c # r) = scan_number (c # r)"
proof -
  have "c \<noteq> CHR 0x22" "c \<noteq> CHR ''{''" "c \<noteq> CHR ''[''" "c \<noteq> CHR ''n''" "c \<noteq> CHR ''t''" "c \<noteq> CHR ''f''"
    using assms by (auto simp: is_digit_def code_def)
  then show ?thesis unfolding scan.simps list.case by (simp only: if_False)
qed

lemma dset_new: "k \<notin> fst ` set d \<Longrightarrow> dset d k v = d @ [(k, v)]"
  by (induction d) (auto simp: dset_def)

definition scans_to :: "(rat \<Rightarrow> string) \<Rightarrow> string \<Rightarrow> json \<Rightarrow> bool" where
  "scans_to fr sp j \<longleftrightarrow> (\<forall>n r. stops r \<longrightarrow> 2 * length (dumps fr sp j) < n \<longrightarrow> scan n (dumps fr sp j @ r) = Some (j, r))"

lemma scans_toD: "scans_to fr sp j \<Longrightarrow> stops r \<Longrightarrow> 2 * length (dumps fr sp j) < n \<Longrightarrow> scan n (dumps fr sp j @ r) = Some (j, r)"
  by (simp add: scans_to_def)

lemma scans_toI: "(\<And>n r. stops r \<Longrightarrow> scan (Suc n) (dumps fr sp j @ r) = Some (j, r)) \<Longrightarrow> scans_to fr sp j"
  unfolding scans_to_def by (metis less_nat_zero_code not0_implies_Suc)

lemma stops_simps [simp]: "stops []" "stops (CHR '','' # r)" "stops (CHR '']'' # r)" "stops (CHR ''}'' # r)"
  by (simp_all add: stops_def)

lemma ws_marks [simp]: "\<not> is_ws (CHR '','')" "\<not> is_ws (CHR '']'')" "\<not> is_ws (CHR ''}'')" "\<not> is_ws (CHR '':'')"
  "\<not> is_ws (CHR 0x22)"
  by (simp_all add: is_ws_def)

lemma skip_ws_dumps [simp]: "plain j \<Longrightarrow> skip_ws (dumps fr sp j @ r) = dumps fr sp j @ r"
  using dumps_head [of j fr sp] by (auto simp: value_head_ws)

lemma skip_ws_str [simp]: "skip_ws (dumps_str k @ r) = dumps_str k @ r"
  by (simp add: dumps_str_def)

lemma skip_ws_sp: "list_all is_ws sp \<Longrightarrow> skip_ws (sp @ r) = skip_ws r"
  by (simp add: skip_ws_def dropWhile_append2 list_all_iff)

lemma scan_items_step:
  assumes "scans_to fr sp x" "2 * length (dumps fr sp x) < n"
  shows "scan_items (Suc n) (dumps fr sp x @ CHR '']'' # r) = Some ([x], r)"
    and "scan_items (Suc n) (dumps fr sp x @ CHR '','' # r) = map_option (map_prod (Cons x) id) (scan_items n (skip_ws r))"
  using scans_toD [OF assms(1) _ assms(2)] by (simp_all add: scan_items.simps)

lemma scan_members_step:
  assumes "scans_to fr sp v" "plain v" "2 * length (dumps fr sp v) < n" "k \<notin> fst ` set d" "list_all is_ws sp"
  shows "scan_members (Suc n) d (dumps_str k @ CHR '':'' # sp @ dumps fr sp v @ CHR ''}'' # r) = Some (d @ [(k, v)], r)"
    and "scan_members (Suc n) d (dumps_str k @ CHR '':'' # sp @ dumps fr sp v @ CHR '','' # r) =
      scan_members n (d @ [(k, v)]) (skip_ws r)"
  using scans_toD [OF assms(1) _ assms(3)] assms(2) dset_new [OF assms(4)]
  by (simp_all add: scan_members.simps skip_ws_sp [OF assms(5)])

lemma scan_array:
  assumes "plain x"
  shows "scan (Suc n) (CHR ''['' # dumps fr sp x @ r) = map_option (map_prod JArr id) (scan_items n (dumps fr sp x @ r))"
  using dumps_head [OF assms, of fr sp] skip_ws_dumps [OF assms, of fr sp r]
  by (auto simp: scan.simps value_head_def Let_def)

lemma scan_object:
  "scan (Suc n) (CHR ''{'' # dumps_str k @ r) = map_option (map_prod JObj id) (scan_members n [] (dumps_str k @ r))"
  using skip_ws_str [of k r] by (simp add: scan.simps dumps_str_def Let_def)

lemma dumps_scans:
  "plain j \<Longrightarrow> list_all is_ws sp \<Longrightarrow> scans_to fr sp j"
  "plain_items ys \<Longrightarrow> list_all is_ws sp \<Longrightarrow> scans_to fr sp x \<Longrightarrow> plain x \<Longrightarrow> 2 * length (dumps fr sp x @ dumps_items fr sp ys) < n \<Longrightarrow>
     scan_items n (dumps fr sp x @ dumps_items fr sp ys @ r) = Some (x # ys, r)"
  "plain_members ms \<Longrightarrow> list_all is_ws sp \<Longrightarrow> scans_to fr sp v \<Longrightarrow> plain v \<Longrightarrow> distinct (k # map fst ms) \<Longrightarrow>
     fst ` set d \<inter> set (k # map fst ms) = {} \<Longrightarrow>
     2 * length (dumps fr sp v @ dumps_members fr sp ms) < n \<Longrightarrow>
     scan_members n d (dumps_str k @ CHR '':'' # sp @ dumps fr sp v @ dumps_members fr sp ms @ r) = Some (d @ (k, v) # ms, r)"
proof (induction fr sp j and fr sp ys and fr sp ms arbitrary: and x n r and k v d n r
    rule: dumps_dumps_items_dumps_members.induct)
  case (3 fr sp i)
  show ?case
  proof (rule scans_toI)
    fix n r assume r: "stops r"
    show "scan (Suc n) (dumps fr sp (JInt i) @ r) = Some (JInt i, r)"
      using str_int_head [of i] scan_number_str_int [OF r, of i] by (auto simp: scan_number_head)
  qed
next
  case (6 fr sp xs)
  show ?case
  proof (cases xs)
    case Nil
    then show ?thesis by (intro scans_toI) (simp add: scan.simps)
  next
    case (Cons x ys)
    with 6 have x: "plain x" "plain_items ys" "scans_to fr sp x" by auto
    have ys: "scan_items n (dumps fr sp x @ dumps_items fr sp ys @ r) = Some (x # ys, r)"
      if "2 * length (dumps fr sp x @ dumps_items fr sp ys) < n" for n r
      using "6.IH"(2) [OF Cons x(2) "6.prems"(2) x(3,1) that] .
    show ?thesis unfolding scans_to_def
    proof (intro allI impI)
      fix n r assume n: "2 * length (dumps fr sp (JArr xs)) < n"
      then obtain m where "n = Suc m" by (cases n) auto
      with n Cons ys [of m r] show "scan n (dumps fr sp (JArr xs) @ r) = Some (JArr xs, r)"
        by (simp add: scan_array [OF x(1)])
    qed
  qed
next
  case (7 fr sp ms)
  show ?case
  proof (cases ms)
    case Nil
    then show ?thesis by (intro scans_toI) (simp add: scan.simps)
  next
    case (Cons kv ys)
    obtain k v where kv: "kv = (k, v)" by (cases kv)
    with 7 Cons have x: "plain v" "plain_members ys" "scans_to fr sp v" "distinct (k # map fst ys)" by auto
    have ys: "scan_members n [] (dumps_str k @ CHR '':'' # sp @ dumps fr sp v @ dumps_members fr sp ys @ r) = Some ((k, v) # ys, r)"
      if "2 * length (dumps fr sp v @ dumps_members fr sp ys) < n" for n r
      using "7.IH"(2) [OF Cons kv [symmetric] x(2) "7.prems"(2) x(3,1,4) _ that, of "[]"] by simp
    show ?thesis unfolding scans_to_def
    proof (intro allI impI)
      fix n r assume n: "2 * length (dumps fr sp (JObj ms)) < n"
      then obtain m where "n = Suc m" by (cases n) auto
      with n Cons kv ys [of m r] show "scan n (dumps fr sp (JObj ms) @ r) = Some (JObj ms, r)"
        by (simp add: scan_object)
    qed
  qed
next
  case (8 fr sp)
  then obtain m where "n = Suc m" "2 * length (dumps fr sp x) < m" by (cases n) auto
  with 8 show ?case by (simp add: scan_items_step)
next
  case (9 fr sp y ys)
  then obtain m where m: "n = Suc m" "2 * length (dumps fr sp x) < m" "2 * length (dumps fr sp y @ dumps_items fr sp ys) < m"
    by (cases n) auto
  from 9 have "scan_items m (dumps fr sp y @ dumps_items fr sp ys @ r) = Some (y # ys, r)" using m(3) by auto
  with 9 m show ?case by (simp add: scan_items_step skip_ws_sp)
next
  case (10 fr sp)
  then obtain m where "n = Suc m" "2 * length (dumps fr sp v) < m" by (cases n) auto
  with 10 show ?case by (simp add: scan_members_step)
next
  case (11 fr sp k' v' ys)
  then obtain m where m: "n = Suc m" "2 * length (dumps fr sp v) < m" "2 * length (dumps fr sp v' @ dumps_members fr sp ys) < m"
    by (cases n) auto
  from 11 have "scan_members m (d @ [(k, v)]) (dumps_str k' @ CHR '':'' # sp @ dumps fr sp v' @ dumps_members fr sp ys @ r) =
      Some ((d @ [(k, v)]) @ (k', v') # ys, r)"
    by (intro "11.IH"(2)) (use m(3) in auto)
  with 11 m show ?case by (simp add: scan_members_step skip_ws_sp)
qed (auto intro!: scans_toI simp: scan.simps literal_def dumps_str_def scan_chars_str)

theorem loads_dumps:
  assumes "plain j" and ws: "list_all is_ws sp"
  shows "loads (dumps fr sp j) = Some j"
  using scans_toD [OF dumps_scans(1) [OF assms], of "[]" fr "Suc (2 * length (dumps fr sp j))"]
    skip_ws_dumps [OF assms(1), of fr sp "[]"]
  by (simp add: loads_def)

section \<open>One line per document\<close>

text \<open>No control character survives in the text, so a document never breaks a line.\<close>

definition printable :: "string \<Rightarrow> bool" where
  "printable s \<longleftrightarrow> (\<forall>c \<in> set s. 32 \<le> code c)"

lemma printable_simps [simp]: "printable []" "printable (a @ b) \<longleftrightarrow> printable a \<and> printable b"
  "printable (c # s) \<longleftrightarrow> 32 \<le> code c \<and> printable s"
  by (auto simp: printable_def)

lemma code_hex_digit: "n < 16 \<Longrightarrow> 32 \<le> code (hex_digit n)"
  by (auto simp: hex_digit_def digit_def code_def)

lemma printable_esc: "printable (esc_char c)"
  using code_hex_digit [of "code c div 16"] code_hex_digit [of "code c mod 16"]
  by (auto simp: esc_char_def printable_def code_def)

lemma printable_str [simp]: "printable (dumps_str s)"
  using printable_esc by (auto simp: dumps_str_def printable_def code_def)

lemma printable_str_int [simp]: "printable (str_int i)"
  using digits_is_digit [of "nat i"] digits_is_digit [of "nat (- i)"]
  by (auto simp: str_int_def printable_def is_digit_def code_def)

lemma printable_dumps:
  "plain j \<Longrightarrow> printable sp \<Longrightarrow> printable (dumps fr sp j)"
  "plain_items xs \<Longrightarrow> printable sp \<Longrightarrow> printable (dumps_items fr sp xs)"
  "plain_members ms \<Longrightarrow> printable sp \<Longrightarrow> printable (dumps_members fr sp ms)"
  by (induction fr sp j and fr sp xs and fr sp ms rule: dumps_dumps_items_dumps_members.induct)
     (auto simp: code_def split: list.splits)

section \<open>Fuel\<close>

lemma skip_ws_length: "length (skip_ws s) \<le> length s"
  by (simp add: skip_ws_def length_dropWhile_le)

lemma scan_chars_length: "scan_chars s = Some (x, r) \<Longrightarrow> length r < length s"
proof (induction s arbitrary: x rule: scan_chars.induct)
  case (2 c s)
  then show ?case
    by (auto split: if_splits list.splits option.splits) (fastforce dest: less_SucI less_trans)+
qed simp

lemma int_part_length: "int_part s = Some (x, r) \<Longrightarrow> length r < length s"
  by (cases s) (auto simp: int_part_def length_dropWhile_le le_imp_less_Suc split: if_splits)

lemma frac_part_length: "frac_part s = (x, r) \<Longrightarrow> length r \<le> length s"
  using length_dropWhile_le [of is_digit "drop 2 s"]
  by (cases s; cases "tl s") (auto simp: frac_part_def split: if_splits intro: le_SucI)

lemma exp_digits_length: "exp_digits s = Some (x, r) \<Longrightarrow> length r \<le> length s"
  by (auto simp: exp_digits_def length_dropWhile_le split: if_splits)

lemma exp_part_length: "exp_part s = (x, r) \<Longrightarrow> length r \<le> length s"
  by (auto simp: exp_part_def split: list.splits if_splits option.splits prod.splits
      dest!: exp_digits_length)

lemma scan_number_length: "scan_number s = Some (j, r) \<Longrightarrow> length r < length s"
proof -
  assume a: "scan_number s = Some (j, r)"
  define body where "body = (if s \<noteq> [] \<and> hd s = CHR ''-'' then tl s else s)"
  from a obtain ip r1 fp r2 ex where "int_part body = Some (ip, r1)" "frac_part r1 = (fp, r2)" "exp_part r2 = (ex, r)"
    unfolding scan_number_def Let_def body_def [symmetric]
    by (auto split: option.splits prod.splits if_splits)
  then have "length r < length body"
    using int_part_length frac_part_length exp_part_length by fastforce
  then show ?thesis by (auto simp: body_def split: if_splits)
qed

lemma literal_length: "literal w j s = Some (x, r) \<Longrightarrow> w \<noteq> [] \<Longrightarrow> length r < length s"
  by (auto simp: literal_def prefix_def split: if_splits)

lemma skip_tl_length: "length (tl (skip_ws s)) \<le> length s" "length (skip_ws (tl (skip_ws s))) \<le> length s"
proof -
  show "length (tl (skip_ws s)) \<le> length s" using skip_ws_length [of s] by simp
  then show "length (skip_ws (tl (skip_ws s))) \<le> length s" using skip_ws_length [of "tl (skip_ws s)"] by linarith
qed

lemma scan_string_length: "scan_string s = Some (x, r) \<Longrightarrow> length r < length s"
  by (auto simp: scan_string_def split: list.splits if_splits dest: scan_chars_length)

lemma scan_consumes:
  "scan n s = Some (j, r) \<Longrightarrow> length r < length s"
  "scan_items n s = Some (xs, r) \<Longrightarrow> length r < length s"
  "scan_members n d s = Some (e, r) \<Longrightarrow> length r < length s"
proof (induction n s and n s and n d s arbitrary: j r and xs r and e r
    rule: scan_scan_items_scan_members.induct)
  case (2 n s)
  show ?case
  proof (cases s)
    case Nil
    with 2 show ?thesis by (simp add: scan.simps)
  next
    case (Cons c t)
    have ws: "length (skip_ws t) \<le> length t" by (rule skip_ws_length)
    show ?thesis
      using 2 ws unfolding scan.simps Cons
      by (auto simp: Let_def length_tl split: if_splits dest: scan_chars_length scan_number_length
          literal_length)
         (fastforce dest: scan_chars_length scan_number_length literal_length)+
  qed
next
  case (4 n s)
  from "4.prems" obtain j' y where y: "scan n s = Some (j', y)"
    by (auto simp: scan_items.simps split: option.splits)
  then have "length y < length s" by (rule "4.IH"(1))
  moreover have "length r \<le> length y"
    using "4.prems" "4.IH"(2) [OF y refl refl] skip_tl_length [of y] y
    by (auto simp: scan_items.simps Let_def split: if_splits)
  ultimately show ?case by simp
next
  case (6 n d s)
  from "6.prems" obtain k y where y: "scan_string s = Some (k, y)"
    by (auto simp: scan_members.simps split: option.splits)
  with "6.prems" obtain v z where c: "prefix '':'' (skip_ws y)" and z: "scan n (skip_ws (tl (skip_ws y))) = Some (v, z)"
    by (auto simp: scan_members.simps Let_def split: option.splits if_splits)
  have "length y < length s" using y by (rule scan_string_length)
  moreover have "length z \<le> length y"
    using "6.IH"(1) [OF y refl refl _ z] c skip_tl_length [of y] by simp
  moreover have "length r \<le> length z"
    using "6.prems" "6.IH"(2) [OF y refl refl _ z refl refl refl] skip_tl_length [of z] y c z
    by (auto simp: scan_members.simps Let_def split: if_splits)
  ultimately show ?case by simp
qed (simp_all add: scan.simps scan_items.simps scan_members.simps)

lemma scan_fuel_step:
  "2 * length s < n \<Longrightarrow> 2 * length s < m \<Longrightarrow> scan n s = scan m s"
  "2 * length s + 1 < n \<Longrightarrow> 2 * length s + 1 < m \<Longrightarrow> scan_items n s = scan_items m s"
  "2 * length s + 1 < n \<Longrightarrow> 2 * length s + 1 < m \<Longrightarrow> scan_members n d s = scan_members m d s"
proof (induction n s and n s and n d s arbitrary: m and m and m
    rule: scan_scan_items_scan_members.induct)
  case (2 n s)
  from "2.prems" obtain m' where m: "m = Suc m'" by (cases m) auto
  show ?case
  proof (cases s)
    case Nil
    with m show ?thesis by (simp add: scan.simps)
  next
    case (Cons c t)
    have "2 * length (skip_ws t) + 1 < n" "2 * length (skip_ws t) + 1 < m'"
      using "2.prems" m Cons skip_ws_length [of t] by auto
    note b = this
    have "scan_members n [] (skip_ws t) = scan_members m' [] (skip_ws t)"
      if "c = CHR ''{''" "\<not> prefix ''}'' (skip_ws t)"
      by (rule "2.IH"(1) [OF Cons _ that(1) refl that(2) b]) (use that in simp)
    moreover have "scan_items n (skip_ws t) = scan_items m' (skip_ws t)"
      if "c = CHR ''[''" "\<not> prefix '']'' (skip_ws t)"
      by (rule "2.IH"(2) [OF Cons _ _ that(1) refl that(2) b]) (use that in simp_all)
    ultimately show ?thesis unfolding m Cons scan.simps list.case Let_def by (simp cong: if_cong)
  qed
next
  case (4 n s)
  from "4.prems" obtain m' where m: "m = Suc m'" by (cases m) auto
  have eq: "scan n s = scan m' s" using "4.prems" m by (intro "4.IH"(1)) auto
  show ?case
  proof (cases "scan m' s")
    case None
    with eq m show ?thesis by (simp add: scan_items.simps)
  next
    case (Some p)
    obtain j y where y: "scan m' s = Some (j, y)" using Some by (cases p) auto
    then have "length y < length s" by (rule scan_consumes)
    then have "2 * length (skip_ws (tl (skip_ws y))) + 1 < n" "2 * length (skip_ws (tl (skip_ws y))) + 1 < m'"
      using "4.prems" m skip_tl_length [of y] by auto
    then have "scan_items n (skip_ws (tl (skip_ws y))) = scan_items m' (skip_ws (tl (skip_ws y)))"
      if "\<not> prefix '']'' (skip_ws y)" "prefix '','' (skip_ws y)"
      using that by (intro "4.IH"(2) [OF eq [unfolded y] refl refl])
    then show ?thesis unfolding m scan_items.simps eq y option.case prod.case Let_def
      by (simp cong: if_cong)
  qed
next
  case (6 n d s)
  from "6.prems" obtain m' where m: "m = Suc m'" by (cases m) auto
  show ?case
  proof (cases "scan_string s")
    case None
    with m show ?thesis by (simp add: scan_members.simps)
  next
    case (Some p)
    obtain k y where y: "scan_string s = Some (k, y)" using Some by (cases p) auto
    then have l: "length y < length s" by (rule scan_string_length)
    let ?z = "skip_ws (tl (skip_ws y))"
    have bz: "2 * length ?z < n" "2 * length ?z < m'" using "6.prems" m l skip_tl_length [of y] by auto
    show ?thesis
    proof (cases "prefix '':'' (skip_ws y)")
      case False
      with y m show ?thesis by (simp add: scan_members.simps)
    next
      case c: True
      have eq: "scan n ?z = scan m' ?z" using c by (intro "6.IH"(1) [OF y refl refl _ bz]) auto
      show ?thesis
      proof (cases "scan m' ?z")
        case None
        with eq y c m show ?thesis by (simp add: scan_members.simps Let_def)
      next
        case (Some q)
        obtain v w where w: "scan m' ?z = Some (v, w)" using Some by (cases q) auto
        then have "length w < length ?z" by (rule scan_consumes)
        then have "2 * length (skip_ws (tl (skip_ws w))) + 1 < n" "2 * length (skip_ws (tl (skip_ws w))) + 1 < m'"
          using bz skip_tl_length [of w] by auto
        then have "scan_members n (dset d k v) (skip_ws (tl (skip_ws w))) = scan_members m' (dset d k v) (skip_ws (tl (skip_ws w)))"
          if "\<not> prefix ''}'' (skip_ws w)" "prefix '','' (skip_ws w)"
          using that c by (intro "6.IH"(2) [OF y refl refl _ eq [unfolded w] refl refl refl]) auto
        then show ?thesis unfolding m scan_members.simps y option.case prod.case Let_def eq w
          by (simp cong: if_cong)
      qed
    qed
  qed
qed auto

text \<open>The fuel of \<^const>\<open>loads\<close> is enough: no other amount gives another answer.\<close>

theorem scan_fuel: "2 * length s < n \<Longrightarrow> scan n s = scan (Suc (2 * length s)) s"
  by (rule scan_fuel_step) simp_all

end
