(* ===== verification/Wire_Protocol.thy ===== *)
theory Wire_Protocol
  imports Json_Text
begin

text \<open>
  \<open>wire/protocol.py\<close>: the frames a manager and a remote helper exchange, one JSON object per line.
  A line is a text; the encoding of the text as UTF-8, which is one to one and keeps line feeds, is
  left out. Every failure is a \<open>ValueError\<close> in the source and a kind of \<open>wire_error\<close> here.
\<close>

section \<open>Schemas\<close>

datatype py_type = TInt | TStr | TDict | TList

text \<open>\<open>isinstance(v, t)\<close>: a truth value is an integer.\<close>

fun isinst :: "py_type \<Rightarrow> json \<Rightarrow> bool" where
  "isinst TInt (JInt _) = True"
| "isinst TInt (JBool _) = True"
| "isinst TStr (JStr _) = True"
| "isinst TDict (JObj _) = True"
| "isinst TList (JArr _) = True"
| "isinst _ _ = False"

datatype wire_error =
    EmptyLine | LineTooLong | InvalidJson | NotAnObject | BadType
  | MissingField string string | WrongFieldType string string
  | BadCommand | UnknownCommand string

type_synonym schema = "(string \<times> py_type) list"

definition WIRE_VERSION :: int where "WIRE_VERSION = 2"
definition MAX_LINE_LENGTH :: nat where "MAX_LINE_LENGTH = 1048576"
definition DEFAULT_EXEC_TIMEOUT :: int where "DEFAULT_EXEC_TIMEOUT = 600"
definition MAX_CONSECUTIVE_BAD_FRAMES :: nat where "MAX_CONSECUTIVE_BAD_FRAMES = 5"

definition RESPONSE_REQUIRED :: "(string \<times> schema) list" where
  "RESPONSE_REQUIRED =
     [(''accepted'', [(''wire_version'', TInt)]),
      (''ready'', [(''wire_version'', TInt)]),
      (''session'', [(''id'', TStr)]),
      (''result'', [(''exit_code'', TInt), (''stdout'', TStr), (''stderr'', TStr)]),
      (''error'', [(''message'', TStr)]),
      (''pong'', [(''wire_version'', TInt)]),
      (''capabilities'', []),
      (''mailbox_result'', [(''exit_code'', TInt), (''stdout'', TStr), (''stderr'', TStr)]),
      (''stream_event'', [(''request_id'', TStr), (''session_id'', TStr), (''cursor'', TStr),
         (''payload'', TDict)])]"

definition REQUEST_REQUIRED :: "(string \<times> schema) list" where
  "REQUEST_REQUIRED =
     [(''run'', [(''task'', TStr), (''workdir'', TStr), (''timeout'', TInt)]),
      (''ping'', []),
      (''capabilities'', []),
      (''mailbox'', [(''args'', TList)]),
      (''stream'', [(''session_id'', TStr), (''cursor'', TStr)])]"

section \<open>Encoding and decoding\<close>

record wire_message =
  wm_type :: string
  wm_payload :: dict

definition encode_line :: "(rat \<Rightarrow> string) \<Rightarrow> dict \<Rightarrow> string" where
  "encode_line fr obj = dumps fr [] (JObj obj) @ [newline]"

text \<open>The part that \<open>decode_line\<close> and \<open>decode_request\<close> have in common.\<close>

definition read_object :: "string \<Rightarrow> wire_error + dict" where
  "read_object line0 =
     (let line = strip line0 in
      if line = [] then Inl EmptyLine
      else if MAX_LINE_LENGTH < length line then Inl LineTooLong
      else case loads line of
        None \<Rightarrow> Inl InvalidJson
      | Some (JObj obj) \<Rightarrow> Inr obj
      | Some _ \<Rightarrow> Inl NotAnObject)"

text \<open>The loop over the required fields; lenient decoding gives a bare ready frame version 0.\<close>

fun check_fields :: "bool \<Rightarrow> string \<Rightarrow> schema \<Rightarrow> dict \<Rightarrow> wire_error + dict" where
  "check_fields strict ty [] obj = Inr obj"
| "check_fields strict ty ((f, t) # fs) obj = (case dget obj f of
       None \<Rightarrow>
         if \<not> strict \<and> ty = ''ready'' \<and> f = ''wire_version''
         then check_fields strict ty fs (dset obj f (JInt 0))
         else Inl (MissingField ty f)
     | Some v \<Rightarrow> if isinst t v then check_fields strict ty fs obj else Inl (WrongFieldType ty f))"

definition decode_line :: "bool \<Rightarrow> string \<Rightarrow> wire_error + wire_message" where
  "decode_line strict line = (case read_object line of
       Inl e \<Rightarrow> Inl e
     | Inr obj \<Rightarrow> (case dget obj ''type'' of
           Some (JStr ty) \<Rightarrow>
             if ty = [] then Inl BadType
             else (let obj1 = AList.delete ''type'' obj in
               case map_of RESPONSE_REQUIRED ty of
                 None \<Rightarrow> Inr \<lparr>wm_type = ty, wm_payload = obj1\<rparr>
               | Some sch \<Rightarrow> (case check_fields strict ty sch obj1 of
                     Inl e \<Rightarrow> Inl e
                   | Inr obj2 \<Rightarrow> Inr \<lparr>wm_type = ty, wm_payload = obj2\<rparr>))
         | _ \<Rightarrow> Inl BadType))"

fun request_fields :: "string \<Rightarrow> schema \<Rightarrow> dict \<Rightarrow> wire_error option" where
  "request_fields cmd [] obj = None"
| "request_fields cmd ((f, t) # fs) obj = (case dget obj f of
       None \<Rightarrow> Some (MissingField cmd f)
     | Some v \<Rightarrow> if isinst t v then request_fields cmd fs obj else Some (WrongFieldType cmd f))"

definition encode_request :: "(rat \<Rightarrow> string) \<Rightarrow> string \<Rightarrow> dict \<Rightarrow> wire_error + string" where
  "encode_request fr cmd kwargs =
     (if cmd = [] then Inl BadCommand
      else case map_of REQUEST_REQUIRED cmd of
        None \<Rightarrow> Inl (UnknownCommand cmd)
      | Some sch \<Rightarrow> (case request_fields cmd sch kwargs of
            Some e \<Rightarrow> Inl e
          | None \<Rightarrow>
              (let obj = fold (\<lambda>(k, v) d. dset d k v) kwargs
                 [(''wire_version'', JInt WIRE_VERSION), (''command'', JStr cmd)] in
               Inr (dumps fr [] (JObj obj) @ [newline]))))"

definition decode_request :: "string \<Rightarrow> wire_error + dict" where
  "decode_request line = (case read_object line of
       Inl e \<Rightarrow> Inl e
     | Inr obj \<Rightarrow> (case dget obj ''command'' of
           Some (JStr cmd) \<Rightarrow>
             if cmd = [] then Inl BadCommand
             else (case map_of REQUEST_REQUIRED cmd of
                 None \<Rightarrow> Inl (UnknownCommand cmd)
               | Some sch \<Rightarrow> (case request_fields cmd sch obj of Some e \<Rightarrow> Inl e | None \<Rightarrow> Inr obj))
         | _ \<Rightarrow> Inl BadCommand))"

section \<open>Requests\<close>

text \<open>The keyword arguments of \<open>make_request\<close>; an option stands for an argument that may be \<open>None\<close>.\<close>

record request_args =
  ra_command :: string
  ra_task :: string
  ra_workdir :: string
  ra_backend :: string
  ra_agent :: "string option"
  ra_model :: "string option"
  ra_skills :: "string option"
  ra_session_id :: "string option"
  ra_skip_permissions :: bool
  ra_timeout :: int
  ra_wire_version :: int
  ra_session_key :: "string option"
  ra_request_id :: string
  ra_run_id :: string
  ra_review_key :: string
  ra_require_ack :: bool
  ra_capabilities :: "string list option"

definition if_given :: "string \<Rightarrow> string option \<Rightarrow> dict" where
  "if_given k v = (case v of None \<Rightarrow> [] | Some x \<Rightarrow> if x = [] then [] else [(k, JStr x)])"

definition make_request :: "request_args \<Rightarrow> dict" where
  "make_request a =
     [(''wire_version'', JInt (ra_wire_version a)), (''command'', JStr (ra_command a))] @
     (if ra_command a = ''run''
      then [(''task'', JStr (ra_task a)), (''workdir'', JStr (ra_workdir a))] @
        if_given ''backend'' (Some (ra_backend a)) @ if_given ''agent'' (ra_agent a) @
        if_given ''model'' (ra_model a) @ if_given ''skills'' (ra_skills a) @
        if_given ''resume_session_id'' (ra_session_id a) @
        [(''skip_permissions'', JBool (ra_skip_permissions a)), (''timeout'', JInt (ra_timeout a)),
         (''session_key'', JStr (case ra_session_key a of None \<Rightarrow> [] | Some x \<Rightarrow> x)),
         (''request_id'', JStr (ra_request_id a)), (''run_id'', JStr (ra_run_id a)),
         (''review_key'', JStr (ra_review_key a)), (''require_ack'', JBool (ra_require_ack a))] @
        (case ra_capabilities a of None \<Rightarrow> [] | Some cs \<Rightarrow>
           if cs = [] then [] else [(''capabilities'', JArr (map JStr cs))])
      else [])"

text \<open>The argument \<open>fresh\<close> is the random id used when the caller gives none.\<close>

definition make_stream_request ::
  "string \<Rightarrow> string \<Rightarrow> string \<Rightarrow> int \<Rightarrow> string \<Rightarrow> int \<Rightarrow> string \<Rightarrow> string \<Rightarrow> string \<Rightarrow> dict" where
  "make_stream_request fresh sid cursor timeout rid version kind runtime_id agent_id =
     [(''wire_version'', JInt version), (''command'', JStr ''stream''), (''session_id'', JStr sid),
      (''cursor'', JStr cursor), (''timeout'', JInt timeout),
      (''request_id'', JStr (if rid = [] then fresh else rid)), (''stream_kind'', JStr kind)] @
     if_given ''runtime_id'' (Some runtime_id) @ if_given ''agent_id'' (Some agent_id)"

definition make_ping :: dict where
  "make_ping = [(''wire_version'', JInt WIRE_VERSION), (''command'', JStr ''ping'')]"

definition make_capabilities_request :: dict where
  "make_capabilities_request = [(''wire_version'', JInt WIRE_VERSION), (''command'', JStr ''capabilities'')]"

definition make_mailbox_request :: "string list \<Rightarrow> string \<Rightarrow> int \<Rightarrow> dict" where
  "make_mailbox_request args mroot version =
     [(''wire_version'', JInt version), (''command'', JStr ''mailbox''), (''args'', JArr (map JStr args))] @
     if_given ''mailbox_root'' (Some mroot)"

section \<open>Responses\<close>

definition make_ready :: "int \<Rightarrow> string \<Rightarrow> dict" where
  "make_ready version package =
     [(''type'', JStr ''ready''), (''wire_version'', JInt version), (''package_version'', JStr package)]"

definition make_accepted :: "int \<Rightarrow> dict" where
  "make_accepted version = [(''type'', JStr ''accepted''), (''wire_version'', JInt version)]"

definition make_session :: "string \<Rightarrow> dict" where
  "make_session sid = [(''type'', JStr ''session''), (''id'', JStr sid)]"

definition make_result :: "string \<Rightarrow> string \<Rightarrow> int \<Rightarrow> dict" where
  "make_result out err rc = [(''type'', JStr ''result''), (''stdout'', JStr out), (''stderr'', JStr err),
     (''exit_code'', JInt rc)]"

definition make_error :: "string \<Rightarrow> dict" where
  "make_error msg = [(''type'', JStr ''error''), (''message'', JStr msg)]"

definition make_mailbox_result :: "string \<Rightarrow> string \<Rightarrow> int \<Rightarrow> dict" where
  "make_mailbox_result out err rc = [(''type'', JStr ''mailbox_result''), (''stdout'', JStr out),
     (''stderr'', JStr err), (''exit_code'', JInt rc)]"

definition opt_strs :: "string \<Rightarrow> string list option \<Rightarrow> dict" where
  "opt_strs k v = (case v of None \<Rightarrow> [] | Some xs \<Rightarrow> [(k, JArr (map JStr xs))])"

definition make_pong :: "int \<Rightarrow> string \<Rightarrow> string list option \<Rightarrow> dict" where
  "make_pong version host caps = [(''type'', JStr ''pong''), (''wire_version'', JInt version)] @
     if_given ''hostname'' (Some host) @ opt_strs ''capabilities'' caps"

definition make_capabilities :: "int \<Rightarrow> string list option \<Rightarrow> string list option \<Rightarrow> dict" where
  "make_capabilities version backends features =
     [(''type'', JStr ''capabilities''), (''wire_version'', JInt version)] @
     opt_strs ''backends'' backends @ opt_strs ''features'' features"

definition make_stream_event :: "string \<Rightarrow> string \<Rightarrow> string \<Rightarrow> dict \<Rightarrow> dict" where
  "make_stream_event rid sid cursor payload =
     [(''type'', JStr ''stream_event''), (''request_id'', JStr rid), (''session_id'', JStr sid),
      (''cursor'', JStr cursor), (''payload'', JObj payload)]"

section \<open>Decoding what was encoded\<close>

lemma last_dumps_members: "last (dumps_members fr sp ms) = CHR ''}'' \<and> dumps_members fr sp ms \<noteq> []"
proof (induction ms)
  case (Cons m ms)
  then show ?case by (cases m) simp
qed simp

lemma dumps_obj_shape: "\<exists>t. dumps fr sp (JObj d) = CHR ''{'' # t \<and> last (dumps fr sp (JObj d)) = CHR ''}''"
  using last_dumps_members [of fr sp] by (auto split: list.splits)

lemma strip_line:
  assumes "s = c # t" "\<not> is_space c" "\<not> is_space (last s)"
  shows "strip (s @ [newline]) = s" "strip s = s"
proof -
  have "\<exists>u v. rev s = v # u \<and> \<not> is_space v" using assms(1,3) by (metis hd_rev list.collapse rev_is_Nil_conv list.distinct(1))
  then have "rev (dropWhile is_space (rev s)) = s" by (metis dropWhile.simps(2) rev_rev_ident)
  moreover have "is_space newline" by (simp add: is_space_def newline_def code_def)
  ultimately show "strip (s @ [newline]) = s" "strip s = s" using assms(1,2) by (simp_all add: strip_def)
qed

lemma brace_not_space [simp]: "\<not> is_space (CHR ''{'')" "\<not> is_space (CHR ''}'')"
  by (simp_all add: is_space_def code_def)

text \<open>The objects that survive a line: no floats, no duplicate keys, short enough.\<close>

definition fits :: "(rat \<Rightarrow> string) \<Rightarrow> string \<Rightarrow> dict \<Rightarrow> bool" where
  "fits fr sp d \<longleftrightarrow> plain (JObj d) \<and> list_all is_ws sp \<and> length (dumps fr sp (JObj d)) \<le> MAX_LINE_LENGTH"

lemma read_object_line:
  assumes "fits fr sp d"
  shows "read_object (dumps fr sp (JObj d) @ [newline]) = Inr d" "read_object (dumps fr sp (JObj d)) = Inr d"
proof -
  obtain t where t: "dumps fr sp (JObj d) = CHR ''{'' # t" "last (dumps fr sp (JObj d)) = CHR ''}''"
    using dumps_obj_shape by blast
  have ns: "\<not> is_space (last (dumps fr sp (JObj d)))" unfolding t(2) by simp
  note s = strip_line [OF t(1) brace_not_space(1) ns]
  have "loads (dumps fr sp (JObj d)) = Some (JObj d)"
    using assms by (intro loads_dumps) (simp_all add: fits_def)
  moreover have "dumps fr sp (JObj d) \<noteq> []" using t by simp
  ultimately show "read_object (dumps fr sp (JObj d) @ [newline]) = Inr d" "read_object (dumps fr sp (JObj d)) = Inr d"
    using assms unfolding read_object_def s Let_def fits_def by (simp_all del: dumps.simps)
qed

text \<open>A response frame with a type and the fields its schema asks for.\<close>

definition schema_ok :: "schema \<Rightarrow> dict \<Rightarrow> bool" where
  "schema_ok sch d \<longleftrightarrow> list_all (\<lambda>(f, t). case dget d f of None \<Rightarrow> False | Some v \<Rightarrow> isinst t v) sch"

definition frame_ok :: "dict \<Rightarrow> bool" where
  "frame_ok d \<longleftrightarrow> (case dget d ''type'' of
     Some (JStr ty) \<Rightarrow> ty \<noteq> [] \<and> schema_ok (case map_of RESPONSE_REQUIRED ty of None \<Rightarrow> [] | Some s \<Rightarrow> s)
       (AList.delete ''type'' d)
   | _ \<Rightarrow> False)"

definition message_of :: "dict \<Rightarrow> wire_message" where
  "message_of d = \<lparr>wm_type = sget d ''type'', wm_payload = AList.delete ''type'' d\<rparr>"

lemma check_fields_ok: "schema_ok sch d \<Longrightarrow> check_fields strict ty sch d = Inr d"
  by (induction sch) (auto simp: schema_ok_def split: option.splits)

lemma check_fields_sound: "check_fields strict ty sch d = Inr d' \<Longrightarrow> strict \<Longrightarrow> d' = d \<and> schema_ok sch d"
  by (induction sch) (auto simp: schema_ok_def split: option.splits if_splits)

lemma request_fields_iff: "request_fields cmd sch d = None \<longleftrightarrow> schema_ok sch d"
  by (induction sch) (auto simp: schema_ok_def split: option.splits if_splits)

lemma decode_line_ok:
  assumes "fits fr sp d" "frame_ok d"
  shows "decode_line strict (dumps fr sp (JObj d) @ [newline]) = Inr (message_of d)"
    "decode_line strict (dumps fr sp (JObj d)) = Inr (message_of d)"
  using assms(2) read_object_line [OF assms(1)]
  by (auto simp: decode_line_def frame_ok_def message_of_def sget_def dget_or_def dget_def
      check_fields_ok Let_def simp del: dumps.simps split: option.splits json.splits)

section \<open>Streams of frames\<close>

text \<open>Reading a stream line by line: a line ends with its line feed.\<close>

fun lines_of :: "string \<Rightarrow> string list" where
  "lines_of [] = []"
| "lines_of (c # s) =
     (if c = newline then [c] # lines_of s
      else case lines_of s of [] \<Rightarrow> [[c]] | l # ls \<Rightarrow> (c # l) # ls)"

lemma lines_of_line: "newline \<notin> set x \<Longrightarrow> lines_of (x @ newline # s) = (x @ [newline]) # lines_of s"
  by (induction x) auto

lemma printable_no_newline: "printable s \<Longrightarrow> newline \<notin> set s"
  by (auto simp: printable_def newline_def code_def)

lemma lines_of_encoded:
  assumes "\<forall>d \<in> set ds. plain (JObj d)"
  shows "lines_of (concat (map (encode_line fr) ds)) = map (encode_line fr) ds"
  using assms
proof (induction ds)
  case (Cons d ds)
  then have "newline \<notin> set (dumps fr [] (JObj d))"
    by (intro printable_no_newline printable_dumps(1)) auto
  then have "lines_of (encode_line fr d @ rest) = encode_line fr d # lines_of rest" for rest
    unfolding encode_line_def by (simp add: lines_of_line del: dumps.simps)
  with Cons show ?case by simp
qed simp

text \<open>
  C22. Frames do not get mixed up on the wire. A sequence of well-formed response frames, written one
  after the other and read line by line, decodes to the same frames in the same order, whatever
  quotes, line feeds or control characters their strings contain.
\<close>

theorem wire_stream_round_trip:
  assumes "\<forall>d \<in> set frames. fits fr [] d \<and> frame_ok d"
  shows "map (decode_line strict) (lines_of (concat (map (encode_line fr) frames))) = map (Inr \<circ> message_of) frames"
proof -
  have "lines_of (concat (map (encode_line fr) frames)) = map (encode_line fr) frames"
    using assms by (intro lines_of_encoded) (simp add: fits_def)
  moreover have "decode_line strict (encode_line fr d) = Inr (message_of d)" if "d \<in> set frames" for d
    unfolding encode_line_def using assms that by (intro decode_line_ok) auto
  ultimately show ?thesis by simp
qed

lemmas frame_defs = make_ready_def make_accepted_def make_session_def make_result_def make_error_def
  make_mailbox_result_def make_pong_def make_capabilities_def make_stream_event_def

text \<open>Every frame the remote side builds is well formed.\<close>

lemma factories_frame_ok:
  "frame_ok (make_ready v pkg)" "frame_ok (make_accepted v)" "frame_ok (make_session sid)"
  "frame_ok (make_result out err rc)" "frame_ok (make_error msg)" "frame_ok (make_mailbox_result out err rc)"
  "frame_ok (make_pong v host caps)" "frame_ok (make_capabilities v bs feats)"
  "frame_ok (make_stream_event rid sid cur pl)"
  by (simp_all add: frame_defs frame_ok_def schema_ok_def RESPONSE_REQUIRED_def dget_def if_given_def
      opt_strs_def split: option.splits)

theorem wire_stream_round_trip_witness:
  "map (decode_line True) (lines_of (concat (map (encode_line (\<lambda>_. [])) 
       [make_session ''s1'', make_result (''a'' @ [newline] @ ''b'') [] 0]))) =
   [Inr (message_of (make_session ''s1'')), Inr (message_of (make_result (''a'' @ [newline] @ ''b'') [] 0))]"
proof -
  let ?fs = "[make_session ''s1'', make_result (''a'' @ [newline] @ ''b'') [] 0]"
  have "fits (\<lambda>_. []) [] (make_session ''s1'')" "fits (\<lambda>_. []) [] (make_result (''a'' @ [newline] @ ''b'') [] 0)"
    by (simp_all add: fits_def make_session_def make_result_def MAX_LINE_LENGTH_def dumps_str_def esc_char_def
        newline_def code_def str_int_def digits.simps)
  then have "\<forall>d \<in> set ?fs. fits (\<lambda>_. []) [] d \<and> frame_ok d" by (simp add: factories_frame_ok)
  from wire_stream_round_trip [OF this, of True] show ?thesis by simp
qed

section \<open>What decoding guarantees\<close>

definition required_fields :: "string \<Rightarrow> schema" where
  "required_fields ty = (case map_of RESPONSE_REQUIRED ty of None \<Rightarrow> [] | Some s \<Rightarrow> s)"

lemma check_fields_strict: "ty \<noteq> ''ready'' \<Longrightarrow> check_fields strict ty sch d = check_fields True ty sch d"
  by (induction sch) (auto split: option.splits)

lemma check_ready:
  "check_fields strict ''ready'' [(''wire_version'', TInt)] d = Inr d' \<Longrightarrow>
    schema_ok [(''wire_version'', TInt)] d' \<and> (d' = d \<or> (\<not> strict \<and> \<not> has_key d ''wire_version'' \<and> d' = dset d ''wire_version'' (JInt 0)))"
  by (auto simp: schema_ok_def has_key_def dget_def dset_def al.get_put split: option.splits if_splits)

lemma required_ready: "map_of RESPONSE_REQUIRED ''ready'' = Some [(''wire_version'', TInt)]"
  by (simp add: RESPONSE_REQUIRED_def)

lemma decode_line_cases:
  assumes "decode_line strict line = Inr m"
  obtains obj obj' where "read_object line = Inr obj" "dget obj ''type'' = Some (JStr (wm_type m))" "wm_type m \<noteq> []"
    "wm_payload m = obj'" "schema_ok (required_fields (wm_type m)) obj'"
    "obj' = AList.delete ''type'' obj \<or> (\<not> strict \<and> wm_type m = ''ready'' \<and> \<not> has_key obj ''wire_version'' \<and>
       obj' = dset (AList.delete ''type'' obj) ''wire_version'' (JInt 0))"
proof -
  from assms obtain obj ty where o: "read_object line = Inr obj" "dget obj ''type'' = Some (JStr ty)" "ty \<noteq> []"
    by (auto simp: decode_line_def split: sum.splits option.splits json.splits if_splits)
  let ?d = "AList.delete ''type'' obj"
  show thesis
  proof (cases "map_of RESPONSE_REQUIRED ty")
    case None
    with assms o have "m = \<lparr>wm_type = ty, wm_payload = ?d\<rparr>" by (simp add: decode_line_def Let_def)
    with o None that show ?thesis by (simp add: required_fields_def schema_ok_def)
  next
    case (Some sch)
    with assms o obtain d' where d': "check_fields strict ty sch ?d = Inr d'" "m = \<lparr>wm_type = ty, wm_payload = d'\<rparr>"
      by (auto simp: decode_line_def Let_def split: sum.splits)
    show ?thesis
    proof (cases "ty = ''ready''")
      case True
      then have sch: "sch = [(''wire_version'', TInt)]" using Some required_ready by simp
      have hk: "has_key ?d ''wire_version'' = has_key obj ''wire_version''"
        by (simp add: has_key_def delete_conv')
      from check_ready [OF d'(1) [unfolded True sch]] show ?thesis
        using that [OF o(1), of d'] o d'(2) True hk by (auto simp: required_fields_def required_ready)
    next
      case False
      with d'(1) have "d' = ?d \<and> schema_ok sch ?d"
        using check_fields_strict [OF False, of strict] check_fields_sound [of True ty sch] by auto
      with o d'(2) Some that show ?thesis by (simp add: required_fields_def)
    qed
  qed
qed

text \<open>
  A decoded frame can be trusted. Whatever line arrives, if \<open>decode_line\<close> returns a message then
  its type is a non-empty string and every field that the schema of the type requires is present
  with a value of the required type. Strict decoding returns the fields as received; lenient
  decoding differs only on a ready frame without a version, which it gives version 0.
\<close>

theorem decoded_frame_well_typed:
  assumes "decode_line strict line = Inr m"
  shows "wm_type m \<noteq> [] \<and>
    (\<forall>f t. (f, t) \<in> set (required_fields (wm_type m)) \<longrightarrow> (\<exists>v. dget (wm_payload m) f = Some v \<and> isinst t v)) \<and>
    (\<exists>obj. read_object line = Inr obj \<and> dget obj ''type'' = Some (JStr (wm_type m)) \<and>
       (wm_payload m = AList.delete ''type'' obj \<or>
        \<not> strict \<and> wm_type m = ''ready'' \<and> \<not> has_key obj ''wire_version'' \<and>
        dget (wm_payload m) ''wire_version'' = Some (JInt 0)))"
  using assms
proof (rule decode_line_cases)
  fix obj obj'
  assume "read_object line = Inr obj" "dget obj ''type'' = Some (JStr (wm_type m))" "wm_type m \<noteq> []"
    "wm_payload m = obj'" "schema_ok (required_fields (wm_type m)) obj'"
    "obj' = AList.delete ''type'' obj \<or> (\<not> strict \<and> wm_type m = ''ready'' \<and> \<not> has_key obj ''wire_version'' \<and>
       obj' = dset (AList.delete ''type'' obj) ''wire_version'' (JInt 0))"
  then show ?thesis
    by (intro conjI) (force simp: schema_ok_def list_all_iff split: option.splits)+
qed

theorem decoded_frame_well_typed_witness:
  "\<exists>m. decode_line False (dumps (\<lambda>_. []) [] (JObj [(''type'', JStr ''ready'')])) = Inr m \<and>
     dget (wm_payload m) ''wire_version'' = Some (JInt 0)"
proof -
  have f: "fits (\<lambda>_. []) [] [(''type'', JStr ''ready'')]"
    by (simp add: fits_def MAX_LINE_LENGTH_def dumps_str_def esc_char_def code_def)
  define line where "line = dumps (\<lambda>_. []) [] (JObj [(''type'', JStr ''ready'')])"
  have r: "read_object line = Inr [(''type'', JStr ''ready'')]" unfolding line_def by (rule read_object_line(2) [OF f])
  then have "\<exists>m. decode_line False line = Inr m"
    by (simp add: decode_line_def dget_def required_ready Let_def)
  then obtain m where m: "decode_line False line = Inr m" by blast
  note w = decoded_frame_well_typed [OF m]
  have ty: "wm_type m = ''ready''" using w r by (auto simp: dget_def)
  have "\<exists>v. dget (wm_payload m) ''wire_version'' = Some v"
    using w unfolding ty by (auto simp: required_fields_def required_ready)
  then have "dget (wm_payload m) ''wire_version'' = Some (JInt 0)" using w r by (auto simp: dget_def)
  with m show ?thesis unfolding line_def by blast
qed

section \<open>Requests\<close>

lemma decode_request_line:
  assumes "fits fr sp d" "dget d ''command'' = Some (JStr cmd)" "map_of REQUEST_REQUIRED cmd = Some sch" "schema_ok sch d"
  shows "decode_request (dumps fr sp (JObj d) @ [newline]) = Inr d"
proof -
  have "cmd \<noteq> []" using assms(3) by (auto simp: REQUEST_REQUIRED_def)
  with assms request_fields_iff [of cmd sch d] read_object_line(1) [OF assms(1)] show ?thesis
    by (simp add: decode_request_def del: dumps.simps)
qed

definition set_all :: "dict \<Rightarrow> dict \<Rightarrow> dict" where
  "set_all kw d = fold (\<lambda>(k, v) d. dset d k v) kw d"

lemma dget_set_all:
  "distinct (map fst kw) \<Longrightarrow> dget (set_all kw d) k = (case dget kw k of None \<Rightarrow> dget d k | Some v \<Rightarrow> Some v)"
proof (induction kw arbitrary: d)
  case (Cons x kw)
  obtain k' v where x: "x = (k', v)" by (cases x)
  then have "dget kw k' = None" using Cons.prems by (simp add: dget_def map_of_eq_None_iff)
  with Cons x show ?case by (auto simp: set_all_def dget_def dset_def al.get_put split: option.splits)
qed (simp add: set_all_def dget_def)

lemma plain_members_iff: "plain_members ms \<longleftrightarrow> (\<forall>(k, v) \<in> set ms. plain v)"
  by (induction ms) auto

lemma set_update_subset: "set (AList.update k v d) \<subseteq> insert (k, v) (set d)"
  by (induction d) auto

lemma plain_dset: "plain (JObj d) \<Longrightarrow> plain v \<Longrightarrow> plain (JObj (dset d k v))"
  using set_update_subset [of k v d] by (auto simp: dset_def plain_members_iff distinct_update)

lemma plain_set_all: "plain_members kw \<Longrightarrow> plain (JObj d) \<Longrightarrow> plain (JObj (set_all kw d))"
proof (induction kw arbitrary: d)
  case (Cons x kw)
  then show ?case by (cases x) (simp add: set_all_def plain_dset del: plain.simps)
qed (simp add: set_all_def)

text \<open>
  What a client can encode the helper accepts. If \<open>encode_request\<close> produces a line for a command
  and its keyword arguments, and the line is within the length limit, then \<open>decode_request\<close> accepts
  it, and the object it returns has the command, every keyword argument with its value, and the
  wire version; a command or argument that the helper would reject is already refused by
  \<open>encode_request\<close> with the same error.
\<close>

theorem encoded_request_accepted:
  assumes kw: "distinct (map fst kw)" "plain_members kw" "dget kw ''command'' = None"
    and len: "\<forall>line. encode_request fr cmd kw = Inr line \<longrightarrow> length line \<le> Suc MAX_LINE_LENGTH"
  shows "case encode_request fr cmd kw of
      Inr line \<Rightarrow> \<exists>obj. decode_request line = Inr obj \<and> dget obj ''command'' = Some (JStr cmd) \<and>
        (\<forall>k v. dget kw k = Some v \<longrightarrow> dget obj k = Some v) \<and>
        (dget kw ''wire_version'' = None \<longrightarrow> dget obj ''wire_version'' = Some (JInt WIRE_VERSION))
    | Inl e \<Rightarrow> cmd = [] \<or> map_of REQUEST_REQUIRED cmd = None \<or>
        (\<exists>sch f t. map_of REQUEST_REQUIRED cmd = Some sch \<and> (f, t) \<in> set sch \<and>
           (case dget kw f of None \<Rightarrow> True | Some v \<Rightarrow> \<not> isinst t v))"
proof (cases "encode_request fr cmd kw")
  case (Inl e)
  then have "cmd = [] \<or> map_of REQUEST_REQUIRED cmd = None \<or>
      (\<exists>sch. map_of REQUEST_REQUIRED cmd = Some sch \<and> \<not> schema_ok sch kw)"
    by (auto simp: encode_request_def Let_def request_fields_iff [of cmd, symmetric] split: if_splits option.splits)
  moreover have "\<exists>f t. (f, t) \<in> set sch \<and> (case dget kw f of None \<Rightarrow> True | Some v \<Rightarrow> \<not> isinst t v)"
    if "\<not> schema_ok sch kw" for sch
    using that by (fastforce simp: schema_ok_def list_all_iff split: option.splits)
  ultimately show ?thesis unfolding Inl sum.case by blast
next
  case (Inr line)
  let ?base = "[(''wire_version'', JInt WIRE_VERSION), (''command'', JStr cmd)]"
  let ?obj = "set_all kw ?base"
  from Inr obtain sch where sch: "map_of REQUEST_REQUIRED cmd = Some sch" "schema_ok sch kw"
    and line: "line = dumps fr [] (JObj ?obj) @ [newline]"
    using request_fields_iff [of cmd _ kw]
    by (auto simp: encode_request_def Let_def set_all_def split: if_splits option.splits)
  have get: "dget ?obj k = (case dget kw k of None \<Rightarrow> dget ?base k | Some v \<Rightarrow> Some v)" for k
    by (rule dget_set_all [OF kw(1)])
  have "plain (JObj ?obj)" using kw(2) by (intro plain_set_all) simp_all
  then have fits: "fits fr [] ?obj" using len Inr unfolding line by (simp add: fits_def del: plain.simps dumps.simps)
  have cmd: "dget ?obj ''command'' = Some (JStr cmd)" unfolding get kw(3) option.case by (simp add: dget_def)
  have ver: "dget ?obj ''wire_version'' = Some (JInt WIRE_VERSION)" if "dget kw ''wire_version'' = None"
    unfolding get that option.case by (simp add: dget_def)
  have "schema_ok sch ?obj" using sch(2) by (auto simp: schema_ok_def list_all_iff get split: option.splits)
  with fits cmd sch(1) have "decode_request line = Inr ?obj" unfolding line by (intro decode_request_line)
  with cmd ver show ?thesis unfolding Inr sum.case
    by (intro exI [of _ ?obj]) (auto simp: get)
qed

theorem encoded_request_accepted_witness:
  "\<exists>line obj. encode_request (\<lambda>_. []) ''mailbox'' [(''args'', JArr [JStr ''list''])] = Inr line \<and>
     decode_request line = Inr obj \<and> dget obj ''args'' = Some (JArr [JStr ''list''])"
proof -
  let ?kw = "[(''args'', JArr [JStr ''list''])]"
  have e: "encode_request (\<lambda>_. []) ''mailbox'' ?kw = Inr (dumps (\<lambda>_. []) [] (JObj (set_all ?kw
      [(''wire_version'', JInt WIRE_VERSION), (''command'', JStr ''mailbox'')])) @ [newline])"
    by (simp add: encode_request_def REQUEST_REQUIRED_def dget_def set_all_def)
  have len: "length (dumps (\<lambda>_. []) [] (JObj (set_all ?kw
      [(''wire_version'', JInt WIRE_VERSION), (''command'', JStr ''mailbox'')])) @ [newline]) \<le> Suc MAX_LINE_LENGTH"
    by (simp add: set_all_def dset_def WIRE_VERSION_def dumps_str_def esc_char_def code_def str_int_def digits.simps
        MAX_LINE_LENGTH_def)
  have "\<forall>line. encode_request (\<lambda>_. []) ''mailbox'' ?kw = Inr line \<longrightarrow> length line \<le> Suc MAX_LINE_LENGTH"
    using len unfolding e by (simp del: dumps.simps)
  from encoded_request_accepted [OF _ _ _ this]
  show ?thesis unfolding e sum.case by (auto simp: dget_def simp del: dumps.simps)
qed

text \<open>The run request carries every correlation field, and the helper accepts it.\<close>

lemma run_request_round_trip:
  assumes "ra_command a = ''run''" "fits fr [] (make_request a)"
  shows "decode_request (encode_line fr (make_request a)) = Inr (make_request a)"
    and "dget (make_request a) ''session_key'' = Some (JStr (case ra_session_key a of None \<Rightarrow> [] | Some x \<Rightarrow> x))"
    and "dget (make_request a) ''request_id'' = Some (JStr (ra_request_id a))"
    and "dget (make_request a) ''run_id'' = Some (JStr (ra_run_id a))"
proof -
  have g: "dget (make_request a) ''task'' = Some (JStr (ra_task a))"
    "dget (make_request a) ''workdir'' = Some (JStr (ra_workdir a))"
    "dget (make_request a) ''timeout'' = Some (JInt (ra_timeout a))"
    "dget (make_request a) ''command'' = Some (JStr ''run'')"
    "dget (make_request a) ''session_key'' = Some (JStr (case ra_session_key a of None \<Rightarrow> [] | Some x \<Rightarrow> x))"
    "dget (make_request a) ''request_id'' = Some (JStr (ra_request_id a))"
    "dget (make_request a) ''run_id'' = Some (JStr (ra_run_id a))"
    using assms(1) by (auto simp: make_request_def dget_def if_given_def map_add_def split: option.splits)
  show "decode_request (encode_line fr (make_request a)) = Inr (make_request a)"
    unfolding encode_line_def
    by (rule decode_request_line [OF assms(2) g(4),
          where sch = "[(''task'', TStr), (''workdir'', TStr), (''timeout'', TInt)]"])
       (simp_all add: REQUEST_REQUIRED_def schema_ok_def g)
qed (use assms in \<open>auto simp: make_request_def dget_def if_given_def map_add_def split: option.splits\<close>)

end
