(* ===== verification/Wire_Exchange.thy ===== *)
theory Wire_Exchange
  imports Wire_Protocol
begin

text \<open>
  One exchange over the wire, both sides: the client loops \<open>_run_wire\<close> (\<open>transport/local.py\<close>),
  \<open>_run_ssh_wire\<close> and \<open>_run_ssh_mailbox\<close> (\<open>transport/ssh.py\<close>), and the helper's side of
  \<open>remote_exec.py\<close> for a request that is not a stream subscription.

  The child process is a parameter: what it wrote and its exit status, or that it could not be
  started or did not end in time. \<open>_run_ssh_wire\<close> reads the lines as they come; the model has them in
  order. What runs a task or a mailbox command on the helper's host is a parameter too.
\<close>

section \<open>Lines\<close>

text \<open>
  \<open>str.splitlines()\<close> on Latin-1 text: besides line feed and carriage return it breaks at the vertical
  tab, the form feed, the separators 28 to 30 and the next-line character 133.
\<close>

definition is_break :: "char \<Rightarrow> bool" where
  "is_break c \<longleftrightarrow> code c \<in> {10, 11, 12, 13, 28, 29, 30, 133}"

fun splitlines :: "string \<Rightarrow> string list" where
  "splitlines [] = []"
| "splitlines (c # s) =
     (if is_break c then [] # splitlines (if code c = 13 \<and> prefix [newline] s then tl s else s)
      else case splitlines s of [] \<Rightarrow> [[c]] | l # ls \<Rightarrow> (c # l) # ls)"

section \<open>The client\<close>

record helper_run =
  hr_stdout :: string
  hr_stderr :: string
  hr_returncode :: "int option"

datatype proc_outcome = Helper_missing | Helper_timeout | Helper_done helper_run

datatype transport_error = BinaryNotFound | ExecTimeout | VersionMismatch int

record exchange =
  ex_session :: "json option"
  ex_stdout :: string
  ex_stderr :: string
  ex_exit :: int
  ex_terminal :: bool
  ex_invalid :: bool

definition exchange_start :: exchange where
  "exchange_start = \<lparr>ex_session = None, ex_stdout = [], ex_stderr = [], ex_exit = -1,
     ex_terminal = False, ex_invalid = False\<rparr>"

text \<open>An integer field; a truth value counts as 0 or 1.\<close>

definition int_field :: "dict \<Rightarrow> string \<Rightarrow> int" where
  "int_field d k = (case dget_or d k (JInt 0) of JInt i \<Rightarrow> i | JBool b \<Rightarrow> (if b then 1 else 0) | _ \<Rightarrow> 0)"

datatype loop_step = Next exchange | Fail transport_error

text \<open>
  One decoded message. The argument \<open>on_error\<close> is the exit code given to an error frame, which is
  where the local and the ssh loop differ; the ssh loop also names the heartbeat \<open>progress\<close>, which has
  no effect in either.
\<close>

definition run_message :: "int \<Rightarrow> wire_message \<Rightarrow> exchange \<Rightarrow> loop_step" where
  "run_message on_error m x =
     (if wm_type m = ''ready'' then
        (if int_field (wm_payload m) ''wire_version'' \<noteq> WIRE_VERSION
         then Fail (VersionMismatch (int_field (wm_payload m) ''wire_version'')) else Next x)
      else if wm_type m = ''accepted'' then Next x
      else if wm_type m = ''session'' then Next (x\<lparr>ex_session := dget (wm_payload m) ''id''\<rparr>)
      else if wm_type m = ''result'' then
        Next (x\<lparr>ex_terminal := True, ex_stdout := sget (wm_payload m) ''stdout'',
          ex_stderr := sget (wm_payload m) ''stderr'', ex_exit := int_field (wm_payload m) ''exit_code''\<rparr>)
      else if wm_type m = ''error'' then
        Next (x\<lparr>ex_terminal := True, ex_stderr := sget (wm_payload m) ''message'', ex_exit := on_error\<rparr>)
      else Next x)"

fun run_loop :: "int \<Rightarrow> string list \<Rightarrow> nat \<Rightarrow> exchange \<Rightarrow> loop_step" where
  "run_loop on_error [] bad x = Next x"
| "run_loop on_error (raw # ls) bad x =
     (if strip raw = [] then run_loop on_error ls bad x
      else case decode_line False (strip raw) of
        Inl _ \<Rightarrow> if MAX_CONSECUTIVE_BAD_FRAMES \<le> Suc bad then Next x else run_loop on_error ls (Suc bad) x
      | Inr m \<Rightarrow> (case run_message on_error m x of
            Fail e \<Rightarrow> Fail e
          | Next x1 \<Rightarrow> run_loop on_error ls 0 x1))"

definition NO_TERMINAL_FRAME_MSG :: string where
  "NO_TERMINAL_FRAME_MSG = ''wire error: no terminal frame (result/error/mailbox_result) received; '' @
     ''the helper'' @ [CHR 0x27] @ ''s response was lost or truncated''"

text \<open>An exchange that ended without a terminal frame and with exit status 0 is a failure.\<close>

definition no_terminal :: "helper_run \<Rightarrow> exchange \<Rightarrow> exchange" where
  "no_terminal h x =
     (if \<not> ex_terminal x \<and> ex_exit x = -1 \<and> (hr_returncode h = None \<or> hr_returncode h = Some 0)
      then (let e1 = (if ex_stderr x = [] \<and> hr_stderr h \<noteq> [] then hr_stderr h else ex_stderr x);
                e2 = (if e1 = [] then e1 else e1 @ [newline]) in
            x\<lparr>ex_stderr := e2 @ NO_TERMINAL_FRAME_MSG, ex_exit := 1\<rparr>)
      else x)"

record run_result =
  rr_returncode :: "int option"
  rr_stdout :: string
  rr_stderr :: string
  rr_session :: "json option"

definition run_wire :: "proc_outcome \<Rightarrow> transport_error + run_result" where
  "run_wire p = (case p of
       Helper_missing \<Rightarrow> Inl BinaryNotFound
     | Helper_timeout \<Rightarrow> Inl ExecTimeout
     | Helper_done h \<Rightarrow> (case run_loop (-1) (splitlines (hr_stdout h)) 0 exchange_start of
           Fail e \<Rightarrow> Inl e
         | Next x0 \<Rightarrow>
             (let x = no_terminal h x0;
                  err = (if ex_stderr x = [] \<and> hr_stderr h \<noteq> [] then hr_stderr h else ex_stderr x) in
              Inr \<lparr>rr_returncode = (if ex_exit x \<noteq> -1 then Some (ex_exit x) else hr_returncode h),
                rr_stdout = ex_stdout x, rr_stderr = err, rr_session = ex_session x\<rparr>)))"

definition run_ssh_wire :: "proc_outcome \<Rightarrow> transport_error + run_result" where
  "run_ssh_wire p = (case p of
       Helper_missing \<Rightarrow> Inl BinaryNotFound
     | Helper_timeout \<Rightarrow> Inl ExecTimeout
     | Helper_done h \<Rightarrow> (case run_loop 1 (lines_of (hr_stdout h)) 0 exchange_start of
           Fail e \<Rightarrow> Inl e
         | Next x0 \<Rightarrow>
             (let x = no_terminal h x0;
                  err = (if ex_exit x = -1 \<and> ex_stderr x = [] \<and> hr_stderr h \<noteq> [] then hr_stderr h
                         else ex_stderr x);
                  rc = (case hr_returncode h of
                      Some r \<Rightarrow> if ex_exit x = -1 \<and> r \<noteq> 0 then r else ex_exit x
                    | None \<Rightarrow> ex_exit x) in
              Inr \<lparr>rr_returncode = (if rc \<noteq> -1 then Some rc else hr_returncode h),
                rr_stdout = ex_stdout x, rr_stderr = err, rr_session = ex_session x\<rparr>)))"

text \<open>The fields of a mailbox result, when they have exactly the expected types.\<close>

definition mailbox_fields :: "dict \<Rightarrow> (string \<times> string \<times> int) option" where
  "mailbox_fields d = (case dget d ''exit_code'' of
       Some (JInt rc) \<Rightarrow> (case dget d ''stdout'' of
           Some (JStr out) \<Rightarrow> (case dget d ''stderr'' of Some (JStr err) \<Rightarrow> Some (out, err, rc) | _ \<Rightarrow> None)
         | _ \<Rightarrow> None)
     | _ \<Rightarrow> None)"

definition mailbox_message :: "wire_message \<Rightarrow> exchange \<Rightarrow> loop_step" where
  "mailbox_message m x =
     (if wm_type m = ''ready'' then
        (if int_field (wm_payload m) ''wire_version'' \<noteq> WIRE_VERSION
         then Fail (VersionMismatch (int_field (wm_payload m) ''wire_version'')) else Next x)
      else if wm_type m = ''mailbox_result'' then
        (case mailbox_fields (wm_payload m) of
           Some (out, err, rc) \<Rightarrow>
             Next (x\<lparr>ex_terminal := True, ex_stdout := out, ex_stderr := err, ex_exit := rc\<rparr>)
         | None \<Rightarrow> Next (x\<lparr>ex_terminal := True, ex_invalid := True\<rparr>))
      else if wm_type m = ''error'' then
        Next (x\<lparr>ex_terminal := True, ex_stderr := sget (wm_payload m) ''message'', ex_exit := 1\<rparr>)
      else Next x)"

fun mailbox_loop :: "string list \<Rightarrow> nat \<Rightarrow> exchange \<Rightarrow> loop_step" where
  "mailbox_loop [] bad x = Next x"
| "mailbox_loop (raw # ls) bad x =
     (if strip raw = [] then mailbox_loop ls bad x
      else case decode_line False (strip raw) of
        Inl _ \<Rightarrow>
          (let x1 = (if contains ''mailbox_result'' (strip raw) then x\<lparr>ex_invalid := True\<rparr> else x) in
           if MAX_CONSECUTIVE_BAD_FRAMES \<le> Suc bad then Next x1 else mailbox_loop ls (Suc bad) x1)
      | Inr m \<Rightarrow> (case mailbox_message m x of Fail e \<Rightarrow> Fail e | Next x1 \<Rightarrow> mailbox_loop ls 0 x1))"

definition invalid_result :: "exchange \<Rightarrow> exchange" where
  "invalid_result x =
     (if ex_invalid x
      then x\<lparr>ex_stderr := (if ex_stderr x = [] then ''invalid mailbox_result response from remote helper''
                            else ex_stderr x),
             ex_exit := (if ex_exit x \<in> {-1, 0} then 1 else ex_exit x)\<rparr>
      else x)"

definition run_ssh_mailbox :: "proc_outcome \<Rightarrow> transport_error + int \<times> string \<times> string" where
  "run_ssh_mailbox p = (case p of
       Helper_missing \<Rightarrow> Inl BinaryNotFound
     | Helper_timeout \<Rightarrow> Inl ExecTimeout
     | Helper_done h \<Rightarrow> (case mailbox_loop (splitlines (hr_stdout h)) 0 exchange_start of
           Fail e \<Rightarrow> Inl e
         | Next x0 \<Rightarrow>
             (let x = no_terminal h (invalid_result x0) in
              if ex_exit x = -1
              then Inr (case hr_returncode h of Some r \<Rightarrow> r | None \<Rightarrow> 1, ex_stdout x,
                if hr_stderr h \<noteq> [] then hr_stderr h else ex_stderr x)
              else Inr (ex_exit x, ex_stdout x, ex_stderr x))))"

section \<open>The helper\<close>

definition too_long_frame :: "dict \<Rightarrow> dict" where
  "too_long_frame obj = [(''type'', JStr ''error''), (''message'', JStr (''response frame (type='' @
     (case dget_or obj ''type'' (JStr ''?'') of JStr t \<Rightarrow> t | _ \<Rightarrow> []) @ '') exceeds '' @
     str_int (int MAX_LINE_LENGTH) @ '' bytes''))]"

definition send_frame :: "(rat \<Rightarrow> string) \<Rightarrow> dict \<Rightarrow> string" where
  "send_frame fr obj =
     (let text = dumps fr '' '' (JObj obj) in
      (if MAX_LINE_LENGTH < length text then dumps fr '' '' (JObj (too_long_frame obj)) else text) @ [newline])"

text \<open>
  What the helper does with a request on its host: \<open>he_direct\<close> dispatches a mailbox command to the
  store, and gives \<^term>\<open>None\<close> when it raises; \<open>he_cli\<close> runs the command line; \<open>he_run\<close> gives the frames
  of a task; \<open>he_str\<close> is \<open>str\<close> of a decoded value.
\<close>

record helper_env =
  he_float :: "rat \<Rightarrow> string"
  he_package :: string
  he_host :: string
  he_backends :: "string list"
  he_direct :: "json list \<Rightarrow> string option \<Rightarrow> (string \<times> string \<times> int) option"
  he_cli :: "json list \<Rightarrow> string \<times> string \<times> int"
  he_run :: "dict \<Rightarrow> dict list"
  he_str :: "json \<Rightarrow> string"

definition MAILBOX_ROOT_RE :: "string \<Rightarrow> bool" where
  "MAILBOX_ROOT_RE = match_dollar (\<lambda>s. prefix ''/'' s \<and> tl s \<noteq> [] \<and>
     list_all (\<lambda>c. is_id_char c \<or> c = CHR ''/'') (tl s))"

definition handle_mailbox :: "helper_env \<Rightarrow> dict \<Rightarrow> dict list" where
  "handle_mailbox h req = (case dget_or req ''args'' (JArr []) of
       JArr args \<Rightarrow>
         (case dget_or req ''mailbox_root'' (JStr []) of
            JStr r \<Rightarrow>
              if r \<noteq> [] \<and> \<not> MAILBOX_ROOT_RE r then [make_error (''invalid mailbox_root: '' @ r)]
              else (let mroot = (if r = [] then None else Some r) in
                case he_direct h args mroot of
                  Some (out, err, rc) \<Rightarrow> [make_mailbox_result out err rc]
                | None \<Rightarrow> (case he_cli h ((case mroot of None \<Rightarrow> [] | Some x \<Rightarrow> [JStr ''--mailbox-root'', JStr x]) @ args) of
                    (out, err, rc) \<Rightarrow> [make_mailbox_result out err rc]))
          | _ \<Rightarrow> (case he_direct h args None of
                  Some (out, err, rc) \<Rightarrow> [make_mailbox_result out err rc]
                | None \<Rightarrow> (case he_cli h args of (out, err, rc) \<Rightarrow> [make_mailbox_result out err rc])))
     | _ \<Rightarrow> [make_error (''mailbox '' @ [CHR 0x27] @ ''args'' @ [CHR 0x27] @ '' must be a list'')])"

definition handle_ping :: "helper_env \<Rightarrow> dict list" where
  "handle_ping h = [[(''type'', JStr ''pong''), (''wire_version'', JInt WIRE_VERSION),
     (''package_version'', JStr (he_package h)),
     (''capabilities'', JArr [JStr ''run'', JStr ''ping'', JStr ''capabilities'', JStr ''mailbox'']),
     (''hostname'', JStr (he_host h))]]"

definition handle_capabilities :: "helper_env \<Rightarrow> dict list" where
  "handle_capabilities h = [[(''type'', JStr ''capabilities''), (''wire_version'', JInt WIRE_VERSION),
     (''backends'', JArr (map JStr (he_backends h))),
     (''features'', JArr [JStr ''resume'', JStr ''session'', JStr ''timeout''])]]"

text \<open>The text of a \<open>ValueError\<close> is not spelled out; \<open>show_error\<close> stands for it.\<close>

definition serve_line :: "(wire_error \<Rightarrow> string) \<Rightarrow> helper_env \<Rightarrow> string \<Rightarrow> dict list" where
  "serve_line show_error h line =
     (if MAX_LINE_LENGTH < length line
      then [make_error (''wire line exceeds '' @ str_int (int MAX_LINE_LENGTH) @ '' bytes'')]
      else case decode_request line of
        Inl e \<Rightarrow> [make_error (show_error e)]
      | Inr req \<Rightarrow>
          if dget_or req ''wire_version'' (JInt 0) \<notin> {JInt WIRE_VERSION, JFloat (of_int WIRE_VERSION)}
          then [make_error (''wire_version '' @ he_str h (dget_or req ''wire_version'' (JInt 0)) @ '' != required '' @ str_int WIRE_VERSION)]
          else if sget req ''command'' = ''ping'' then handle_ping h
          else if sget req ''command'' = ''capabilities'' then handle_capabilities h
          else if sget req ''command'' = ''run'' then he_run h req
          else if sget req ''command'' = ''mailbox'' then handle_mailbox h req
          else [])"

definition serve :: "(wire_error \<Rightarrow> string) \<Rightarrow> helper_env \<Rightarrow> string \<Rightarrow> string" where
  "serve show_error h stdin = concat (map (send_frame (he_float h))
     (make_ready WIRE_VERSION (he_package h) # concat (map (serve_line show_error h) (lines_of stdin))))"

section \<open>No silent success\<close>

text \<open>A message that is among the lines.\<close>

definition received :: "string list \<Rightarrow> wire_message \<Rightarrow> bool" where
  "received ls m \<longleftrightarrow> (\<exists>raw \<in> set ls. decode_line False (strip raw) = Inr m)"

lemma received_Cons: "received ls m \<Longrightarrow> received (l # ls) m" "decode_line False (strip l) = Inr m \<Longrightarrow> received (l # ls) m"
  by (auto simp: received_def)

lemma run_message_cases:
  assumes "run_message on_error m x = Next x'"
  shows "ex_terminal x' = ex_terminal x \<and> ex_exit x' = ex_exit x \<or>
    ex_terminal x' \<and> (wm_type m = ''result'' \<and> ex_exit x' = int_field (wm_payload m) ''exit_code'' \<or>
      wm_type m = ''error'' \<and> ex_exit x' = on_error)"
  using assms by (auto simp: run_message_def split: if_splits)

lemma run_loop_cases:
  "run_loop on_error ls bad x = Next x' \<Longrightarrow>
    ex_terminal x' = ex_terminal x \<and> ex_exit x' = ex_exit x \<or>
    ex_terminal x' \<and> (\<exists>m. received ls m \<and> (wm_type m = ''result'' \<and> ex_exit x' = int_field (wm_payload m) ''exit_code'' \<or>
      wm_type m = ''error'' \<and> ex_exit x' = on_error))"
proof (induction on_error ls bad x rule: run_loop.induct)
  case (2 on_error raw ls bad x)
  show ?case
  proof (cases "strip raw = []")
    case True
    with 2 show ?thesis by (auto dest: received_Cons(1))
  next
    case ne: False
    show ?thesis
    proof (cases "decode_line False (strip raw)")
      case (Inl e)
      with ne 2 show ?thesis by (auto split: if_splits dest: received_Cons(1))
    next
      case (Inr m)
      with ne "2.prems" obtain x1 where x1: "run_message on_error m x = Next x1" "run_loop on_error ls 0 x1 = Next x'"
        by (auto split: loop_step.splits)
      with "2.IH"(3) [OF ne Inr x1(1)] run_message_cases [OF x1(1)] received_Cons [where l = raw] Inr
      show ?thesis by (elim disjE) (metis (no_types, lifting))+
    qed
  qed
qed simp

lemma mailbox_fields_exit: "mailbox_fields d = Some (out, err, rc) \<Longrightarrow> dget d ''exit_code'' = Some (JInt rc)"
  by (auto simp: mailbox_fields_def split: option.splits json.splits)

lemma mailbox_message_cases:
  assumes "mailbox_message m x = Next x'"
  shows "ex_terminal x' = ex_terminal x \<and> ex_exit x' = ex_exit x \<and> ex_invalid x' = ex_invalid x \<or>
    ex_terminal x' \<and> (ex_invalid x' \<and> ex_exit x' = ex_exit x \<or>
      ex_invalid x' = ex_invalid x \<and> (wm_type m = ''mailbox_result'' \<and> dget (wm_payload m) ''exit_code'' = Some (JInt (ex_exit x')) \<or>
        ex_exit x' = 1))"
  using assms by (auto simp: mailbox_message_def split: if_splits option.splits dest: mailbox_fields_exit)

text \<open>Where the exit code of a mailbox exchange without an invalid result comes from.\<close>

definition exit_explained :: "string list \<Rightarrow> exchange \<Rightarrow> bool" where
  "exit_explained ls x \<longleftrightarrow> ex_invalid x \<or> (\<not> ex_terminal x \<and> ex_exit x = -1) \<or> ex_exit x = 1 \<or>
     (\<exists>m. received ls m \<and> wm_type m = ''mailbox_result'' \<and> dget (wm_payload m) ''exit_code'' = Some (JInt (ex_exit x)))"

lemma mailbox_loop_cases:
  "mailbox_loop ls bad x = Next x' \<Longrightarrow> set ls \<subseteq> set all \<Longrightarrow> exit_explained all x \<Longrightarrow> exit_explained all x'"
proof (induction ls bad x rule: mailbox_loop.induct)
  case (2 raw ls bad x)
  show ?case
  proof (cases "strip raw = []")
    case True
    with 2 show ?thesis by auto
  next
    case ne: False
    show ?thesis
    proof (cases "decode_line False (strip raw)")
      case (Inl e)
      let ?x1 = "if contains ''mailbox_result'' (strip raw) then x\<lparr>ex_invalid := True\<rparr> else x"
      have "exit_explained all ?x1" using "2.prems"(3) by (auto simp: exit_explained_def)
      with ne Inl 2 show ?thesis by (auto simp: Let_def split: if_splits)
    next
      case (Inr m)
      with ne "2.prems" obtain x1 where x1: "mailbox_message m x = Next x1" "mailbox_loop ls 0 x1 = Next x'"
        by (auto split: loop_step.splits)
      have "received all m" using Inr "2.prems"(2) by (auto simp: received_def)
      then have "exit_explained all x1"
        using mailbox_message_cases [OF x1(1)] "2.prems"(3) unfolding exit_explained_def by (elim disjE) auto
      with "2.IH"(3) [OF ne Inr x1(1,2)] "2.prems"(2) show ?thesis by simp
    qed
  qed
qed simp

lemma no_terminal_simps:
  "ex_terminal x \<Longrightarrow> no_terminal h x = x"
  "ex_exit x \<noteq> -1 \<Longrightarrow> no_terminal h x = x"
  "hr_returncode h = Some c \<Longrightarrow> c \<noteq> 0 \<Longrightarrow> no_terminal h x = x"
  "\<not> ex_terminal x \<Longrightarrow> ex_exit x = -1 \<Longrightarrow> hr_returncode h \<in> {None, Some 0} \<Longrightarrow> ex_exit (no_terminal h x) = 1"
  by (auto simp: no_terminal_def Let_def)

lemma run_ssh_wire_ends:
  "run_ssh_wire (Helper_done h) = Inr r \<Longrightarrow> \<exists>x. run_loop 1 (lines_of (hr_stdout h)) 0 exchange_start = Next x"
  by (cases "run_loop 1 (lines_of (hr_stdout h)) 0 exchange_start") (blast, simp add: run_ssh_wire_def)

lemma run_ssh_mailbox_ends:
  "run_ssh_mailbox (Helper_done h) = Inr r \<Longrightarrow> \<exists>x. mailbox_loop (splitlines (hr_stdout h)) 0 exchange_start = Next x"
  by (cases "mailbox_loop (splitlines (hr_stdout h)) 0 exchange_start") (blast, simp add: run_ssh_mailbox_def)

lemma run_ssh_wire_code:
  assumes "run_loop 1 (lines_of (hr_stdout h)) 0 exchange_start = Next x0" "run_ssh_wire (Helper_done h) = Inr r"
  shows "rr_returncode r = (let e = ex_exit (no_terminal h x0) in if e \<noteq> -1 then Some e else hr_returncode h)"
  using assms unfolding run_ssh_wire_def proc_outcome.case Let_def
  by (auto split: option.splits)

lemma run_ssh_mailbox_code:
  assumes "mailbox_loop (splitlines (hr_stdout h)) 0 exchange_start = Next x0"
    "run_ssh_mailbox (Helper_done h) = Inr (c, out, err)"
  shows "c = (let e = ex_exit (no_terminal h (invalid_result x0)) in
    if e \<noteq> -1 then e else (case hr_returncode h of Some r \<Rightarrow> r | None \<Rightarrow> 1))"
  using assms unfolding run_ssh_mailbox_def proc_outcome.case Let_def by (auto split: if_splits)

lemma mailbox_zero:
  assumes "(let e = ex_exit (no_terminal h (invalid_result x)) in
    if e \<noteq> -1 then e else (case hr_returncode h of Some r \<Rightarrow> r | None \<Rightarrow> 1)) = 0"
  shows "\<not> ex_invalid x \<and> ex_exit x \<in> {0, -1} \<and> (ex_terminal x \<or> ex_exit x = 0)"
proof (cases "ex_invalid x")
  case True
  then have "ex_exit (invalid_result x) \<notin> {0, -1}" by (simp add: invalid_result_def)
  with assms show ?thesis by (simp add: no_terminal_simps Let_def)
next
  case False
  then have i: "invalid_result x = x" by (simp add: invalid_result_def)
  show ?thesis
  proof (cases "ex_terminal x \<or> ex_exit x \<noteq> -1")
    case True
    with assms False i show ?thesis by (auto simp: no_terminal_simps Let_def split: if_splits)
  next
    case nt: False
    show ?thesis
    proof (cases "hr_returncode h \<in> {None, Some 0}")
      case True
      with assms nt i show ?thesis by (simp add: no_terminal_simps Let_def)
    next
      case rc: False
      then obtain c where "hr_returncode h = Some c" "c \<noteq> 0" by auto
      with assms nt i show ?thesis by (simp add: no_terminal_simps Let_def)
    qed
  qed
qed

lemma run_ssh_wire_zero:
  assumes "run_ssh_wire (Helper_done h) = Inr r" "rr_returncode r = Some 0"
  shows "\<exists>m. received (lines_of (hr_stdout h)) m \<and> wm_type m = ''result'' \<and>
    int_field (wm_payload m) ''exit_code'' \<in> {0, -1}"
proof -
  obtain x0 where x0: "run_loop 1 (lines_of (hr_stdout h)) 0 exchange_start = Next x0"
    using run_ssh_wire_ends [OF assms(1)] by blast
  define e where "e = ex_exit (no_terminal h x0)"
  have code: "(if e \<noteq> -1 then Some e else hr_returncode h) = Some 0"
    using run_ssh_wire_code [OF x0 assms(1)] assms(2) unfolding e_def Let_def by simp
  have "ex_terminal x0"
  proof (rule ccontr)
    assume nt: "\<not> ex_terminal x0"
    with run_loop_cases [OF x0] have x: "ex_exit x0 = -1" by (simp add: exchange_start_def)
    show False
    proof (cases "hr_returncode h \<in> {None, Some 0}")
      case True
      with nt x have "e = 1" unfolding e_def by (rule no_terminal_simps)
      with code show False by simp
    next
      case False
      then obtain c where c: "hr_returncode h = Some c" "c \<noteq> 0" by auto
      then have "e = -1" unfolding e_def using no_terminal_simps(3) [OF c] x by simp
      with code c show False by simp
    qed
  qed
  then have "e = ex_exit x0" unfolding e_def by (simp add: no_terminal_simps)
  with code have e: "ex_exit x0 = 0 \<or> ex_exit x0 = -1" by (auto split: if_splits)
  have "\<not> ex_terminal exchange_start" by (simp add: exchange_start_def)
  with run_loop_cases [OF x0] \<open>ex_terminal x0\<close> obtain m where
    m: "received (lines_of (hr_stdout h)) m" "wm_type m = ''result'' \<and>
      ex_exit x0 = int_field (wm_payload m) ''exit_code'' \<or> wm_type m = ''error'' \<and> ex_exit x0 = 1"
    by blast
  from m(2) e have "wm_type m = ''result'' \<and> int_field (wm_payload m) ''exit_code'' \<in> {0, -1}" by auto
  with m(1) show ?thesis by blast
qed

lemma run_ssh_mailbox_zero:
  assumes a: "run_ssh_mailbox (Helper_done h) = Inr (0, out, err)"
  shows "\<exists>m c. received (splitlines (hr_stdout h)) m \<and> wm_type m = ''mailbox_result'' \<and>
    dget (wm_payload m) ''exit_code'' = Some (JInt c) \<and> c \<in> {0, -1}"
proof -
  obtain x0 where x0: "mailbox_loop (splitlines (hr_stdout h)) 0 exchange_start = Next x0"
    using run_ssh_mailbox_ends [OF a] by blast
  have "exit_explained (splitlines (hr_stdout h)) x0"
    by (rule mailbox_loop_cases [OF x0]) (simp_all add: exit_explained_def exchange_start_def)
  moreover have "\<not> ex_invalid x0 \<and> ex_exit x0 \<in> {0, -1} \<and> (ex_terminal x0 \<or> ex_exit x0 = 0)"
    by (rule mailbox_zero [OF run_ssh_mailbox_code [OF x0 a, symmetric]])
  ultimately show ?thesis unfolding exit_explained_def by auto
qed

text \<open>
  C20. An exchange over ssh never reports success out of silence. If a run or a mailbox call returns
  exit code 0, whatever the helper printed and whatever its exit status, then among the lines was a
  valid terminal frame of the right type with exit code 0 or -1. (A terminal frame with exit code -1
  hands the decision to the exit status of the ssh process.)
\<close>

theorem no_silent_success:
  "(run_ssh_wire (Helper_done h) = Inr r \<and> rr_returncode r = Some 0 \<longrightarrow>
     (\<exists>m. received (lines_of (hr_stdout h)) m \<and> wm_type m = ''result'' \<and>
        int_field (wm_payload m) ''exit_code'' \<in> {0, -1})) \<and>
   (run_ssh_mailbox (Helper_done h) = Inr (0, out, err) \<longrightarrow>
     (\<exists>m c. received (splitlines (hr_stdout h)) m \<and> wm_type m = ''mailbox_result'' \<and>
        dget (wm_payload m) ''exit_code'' = Some (JInt c) \<and> c \<in> {0, -1}))"
proof (intro conjI impI, elim conjE)
  show "\<exists>m. received (lines_of (hr_stdout h)) m \<and> wm_type m = ''result'' \<and> int_field (wm_payload m) ''exit_code'' \<in> {0, -1}"
    if "run_ssh_wire (Helper_done h) = Inr r" "rr_returncode r = Some 0" using that by (rule run_ssh_wire_zero)
qed (rule run_ssh_mailbox_zero)

section \<open>A mailbox call from end to end\<close>

definition breakless :: "string \<Rightarrow> bool" where
  "breakless s \<longleftrightarrow> (\<forall>c \<in> set s. \<not> is_break c)"

lemma breakless_simps [simp]: "breakless []" "breakless (a @ b) \<longleftrightarrow> breakless a \<and> breakless b"
  "breakless (c # s) \<longleftrightarrow> \<not> is_break c \<and> breakless s"
  by (auto simp: breakless_def)

lemma splitlines_line: "breakless x \<Longrightarrow> splitlines (x @ newline # s) = x # splitlines s"
proof (induction x)
  case Nil
  have "is_break newline" "code newline \<noteq> 13" by (simp_all add: is_break_def newline_def code_def)
  then show ?case by simp
qed auto

text \<open>The next-line character is the one line boundary that JSON text may contain.\<close>

definition nel_free :: "string \<Rightarrow> bool" where
  "nel_free s \<longleftrightarrow> (\<forall>c \<in> set s. code c \<noteq> 133)"

lemma breakless_printable: "printable s \<Longrightarrow> nel_free s \<Longrightarrow> breakless s"
  by (force simp: printable_def nel_free_def breakless_def is_break_def)

lemma nel_free_hex: "n < 16 \<Longrightarrow> code (hex_digit n) \<noteq> 133"
  by (auto simp: hex_digit_def digit_def code_def)

lemma nel_free_esc: "code c \<noteq> 133 \<Longrightarrow> nel_free (esc_char c)"
  using nel_free_hex [of "code c div 16"] nel_free_hex [of "code c mod 16"]
  by (auto simp: esc_char_def nel_free_def code_def)

lemma breakless_str: "nel_free s \<Longrightarrow> breakless (dumps_str s)"
proof (rule breakless_printable [OF printable_str])
  assume "nel_free s"
  then have "nel_free (esc_char c)" if "c \<in> set s" for c using that nel_free_esc by (auto simp: nel_free_def)
  then show "nel_free (dumps_str s)" by (auto simp: dumps_str_def nel_free_def code_def)
qed

lemma breakless_str_int: "breakless (str_int i)"
proof (rule breakless_printable [OF printable_str_int])
  show "nel_free (str_int i)"
    using digits_is_digit [of "nat i"] digits_is_digit [of "nat (- i)"]
    by (auto simp: str_int_def nel_free_def is_digit_def code_def)
qed

lemma breakless_const [simp]: "\<not> is_break (CHR ''{'')" "\<not> is_break (CHR ''}'')" "\<not> is_break (CHR '','')"
  "\<not> is_break (CHR '':'')" "\<not> is_break (CHR '' '')"
  by (simp_all add: is_break_def code_def)

lemma nel_free_lits [simp]: "nel_free ''type''" "nel_free ''ready''" "nel_free ''mailbox_result''" "nel_free ''stdout''"
  "nel_free ''stderr''" "nel_free ''exit_code''" "nel_free ''wire_version''" "nel_free ''package_version''"
  "nel_free ''error''" "nel_free ''message''"
  by (simp_all add: nel_free_def code_def)

lemmas breakless_frame = breakless_str breakless_str_int

lemma breakless_frames:
  "nel_free pkg \<Longrightarrow> breakless (dumps fr '' '' (JObj (make_ready v pkg)))"
  "nel_free out \<Longrightarrow> nel_free err \<Longrightarrow> breakless (dumps fr '' '' (JObj (make_mailbox_result out err rc)))"
  "nel_free msg \<Longrightarrow> breakless (dumps fr '' '' (JObj (make_error msg)))"
  by (simp_all add: make_ready_def make_mailbox_result_def make_error_def breakless_frame)

lemma plain_frames:
  "plain (JObj (make_ready v pkg))" "plain (JObj (make_mailbox_result out err rc))" "plain (JObj (make_error msg))"
  by (simp_all add: make_ready_def make_mailbox_result_def make_error_def)

definition fits_frame :: "(rat \<Rightarrow> string) \<Rightarrow> dict \<Rightarrow> bool" where
  "fits_frame fr d \<longleftrightarrow> length (dumps fr '' '' (JObj d)) \<le> MAX_LINE_LENGTH"

lemma send_frame_fits: "fits_frame fr d \<Longrightarrow> send_frame fr d = dumps fr '' '' (JObj d) @ [newline]"
  by (simp add: send_frame_def fits_frame_def Let_def)

lemma decode_frame:
  assumes "plain (JObj d)" "fits_frame fr d" "frame_ok d"
  shows "decode_line False (strip (dumps fr '' '' (JObj d))) = Inr (message_of d) \<and> strip (dumps fr '' '' (JObj d)) \<noteq> []"
proof -
  obtain t where t: "dumps fr '' '' (JObj d) = CHR ''{'' # t" "last (dumps fr '' '' (JObj d)) = CHR ''}''"
    using dumps_obj_shape by blast
  have "\<not> is_space (last (dumps fr '' '' (JObj d)))" unfolding t(2) by simp
  from strip_line(2) [OF t(1) brace_not_space(1) this]
  have s: "strip (dumps fr '' '' (JObj d)) = dumps fr '' '' (JObj d)" .
  have "fits fr '' '' d" using assms(1,2) by (simp add: fits_def fits_frame_def is_ws_def del: plain.simps dumps.simps)
  with decode_line_ok(2) [OF this assms(3)] t(1) show ?thesis unfolding s by (simp del: dumps.simps)
qed

lemma mailbox_loop_frame:
  assumes "plain (JObj d)" "fits_frame fr d" "frame_ok d" "mailbox_message (message_of d) x = Next x1"
  shows "mailbox_loop (dumps fr '' '' (JObj d) # ls) bad x = mailbox_loop ls 0 x1"
  using decode_frame [OF assms(1-3)] assms(4) by (simp del: dumps.simps)

text \<open>The frame that is sent in place of a mailbox result that is too long.\<close>

definition too_long_message :: string where
  "too_long_message = ''response frame (type=mailbox_result) exceeds 1048576 bytes''"

lemma too_long_result: "too_long_frame (make_mailbox_result out err rc) = make_error too_long_message"
proof -
  have "str_int (int MAX_LINE_LENGTH) = ''1048576''" by code_simp
  then show ?thesis
    by (simp add: too_long_frame_def make_mailbox_result_def make_error_def too_long_message_def dget_or_def)
qed

lemma fits_too_long: "fits_frame fr (make_error too_long_message)"
  by (simp add: fits_frame_def make_error_def too_long_message_def MAX_LINE_LENGTH_def dumps_str_def esc_char_def code_def)

lemma nel_free_too_long: "nel_free too_long_message"
  by (simp add: nel_free_def too_long_message_def code_def)

definition mailbox_answer :: "(rat \<Rightarrow> string) \<Rightarrow> string \<times> string \<times> int \<Rightarrow> int \<times> string \<times> string" where
  "mailbox_answer fr = (\<lambda>(out, err, rc). if fits_frame fr (make_mailbox_result out err rc)
     then (rc, out, err) else (1, [], too_long_message))"

lemma client_reads_answer:
  assumes pkg: "nel_free pkg" "fits_frame fr (make_ready WIRE_VERSION pkg)"
    and res: "nel_free out" "nel_free err" "rc \<noteq> -1"
  shows "run_ssh_mailbox (Helper_done \<lparr>hr_stdout = send_frame fr (make_ready WIRE_VERSION pkg) @
      send_frame fr (make_mailbox_result out err rc), hr_stderr = e, hr_returncode = c\<rparr>) =
    Inr (mailbox_answer fr (out, err, rc))"
proof -
  have ready: "mailbox_message (message_of (make_ready WIRE_VERSION pkg)) x = Next x" for x
    by (simp add: mailbox_message_def message_of_def make_ready_def sget_def dget_or_def int_field_def)
  have err: "mailbox_message (message_of (make_error m)) x = Next (x\<lparr>ex_terminal := True, ex_stderr := m, ex_exit := 1\<rparr>)" for m x
    by (simp add: mailbox_message_def message_of_def make_error_def sget_def dget_or_def)
  have result: "mailbox_message (message_of (make_mailbox_result out err rc)) x =
      Next (x\<lparr>ex_terminal := True, ex_stdout := out, ex_stderr := err, ex_exit := rc\<rparr>)" for x
    by (simp add: mailbox_message_def message_of_def make_mailbox_result_def sget_def dget_or_def dget_def mailbox_fields_def)
  let ?d = "if fits_frame fr (make_mailbox_result out err rc) then make_mailbox_result out err rc else make_error too_long_message"
  have d: "plain (JObj ?d)" "frame_ok ?d" "fits_frame fr ?d" "breakless (dumps fr '' '' (JObj ?d))"
    using breakless_frames(2) [OF res(1,2)] breakless_frames(3) [OF nel_free_too_long]
    by (simp_all add: plain_frames factories_frame_ok fits_too_long del: plain.simps dumps.simps)
  have send: "send_frame fr (make_mailbox_result out err rc) = dumps fr '' '' (JObj ?d) @ [newline]"
    by (simp add: send_frame_def fits_frame_def Let_def too_long_result del: dumps.simps)
  have lines: "splitlines (send_frame fr (make_ready WIRE_VERSION pkg) @ send_frame fr (make_mailbox_result out err rc)) =
      [dumps fr '' '' (JObj (make_ready WIRE_VERSION pkg)), dumps fr '' '' (JObj ?d)]"
    using splitlines_line [OF breakless_frames(1) [OF pkg(1)]] splitlines_line [OF d(4), of "[]"]
    unfolding send send_frame_fits [OF pkg(2)] by (simp del: dumps.simps)
  have "mailbox_loop (splitlines (send_frame fr (make_ready WIRE_VERSION pkg) @ send_frame fr (make_mailbox_result out err rc)))
      0 exchange_start = mailbox_loop [dumps fr '' '' (JObj ?d)] 0 exchange_start"
    unfolding lines by (rule mailbox_loop_frame [OF plain_frames(1) pkg(2) factories_frame_ok(1) ready])
  also have "\<dots> = Next (if fits_frame fr (make_mailbox_result out err rc)
      then exchange_start\<lparr>ex_terminal := True, ex_stdout := out, ex_stderr := err, ex_exit := rc\<rparr>
      else exchange_start\<lparr>ex_terminal := True, ex_stderr := too_long_message, ex_exit := 1\<rparr>)" (is "_ = Next ?x")
    by (subst mailbox_loop_frame [OF d(1,3,2)]) (simp_all add: result err)
  finally show ?thesis
    using res(3) by (simp add: run_ssh_mailbox_def exchange_start_def invalid_result_def no_terminal_def mailbox_answer_def)
qed

lemma serve_mailbox:
  assumes line: "fits fr [] (make_mailbox_request args mroot WIRE_VERSION)"
      "length (encode_line fr (make_mailbox_request args mroot WIRE_VERSION)) \<le> MAX_LINE_LENGTH"
    and root: "mroot = [] \<or> MAILBOX_ROOT_RE mroot"
    and direct: "he_direct h (map JStr args) (if mroot = [] then None else Some mroot) = Some (out, err, rc)"
  shows "serve_line sh h (encode_line fr (make_mailbox_request args mroot WIRE_VERSION)) = [make_mailbox_result out err rc]"
proof -
  let ?r = "make_mailbox_request args mroot WIRE_VERSION"
  have g: "dget ?r ''command'' = Some (JStr ''mailbox'')" "dget ?r ''args'' = Some (JArr (map JStr args))"
    "dget_or ?r ''wire_version'' (JInt 0) = JInt WIRE_VERSION" "sget ?r ''command'' = ''mailbox''"
    "dget_or ?r ''args'' (JArr []) = JArr (map JStr args)" "dget_or ?r ''mailbox_root'' (JStr []) = JStr mroot"
    by (simp_all add: make_mailbox_request_def dget_def dget_or_def sget_def if_given_def)
  have "decode_request (encode_line fr ?r) = Inr ?r"
    unfolding encode_line_def
    by (rule decode_request_line [OF line(1) g(1), where sch = "[(''args'', TList)]"])
       (simp_all add: REQUEST_REQUIRED_def schema_ok_def g)
  with line(2) root direct show ?thesis by (auto simp: serve_line_def g handle_mailbox_def Let_def)
qed


definition demo_helper :: helper_env where
  "demo_helper = \<lparr>he_float = (\<lambda>_. []), he_package = ''1.0'', he_host = ''h'', he_backends = [],
     he_direct = (\<lambda>args r. Some (''2 messages'' @ [newline], [], 0)), he_cli = (\<lambda>_. ([], [], 2)),
     he_run = (\<lambda>_. []), he_str = (\<lambda>_. [])\<rparr>"

lemma demo_small:
  "fits_frame (\<lambda>_. []) (make_ready WIRE_VERSION ''1.0'')"
  "fits_frame (\<lambda>_. []) (make_mailbox_result (''2 messages'' @ [newline]) [] 0)"
  "length (encode_line (\<lambda>_. []) (make_mailbox_request [''list''] [] WIRE_VERSION)) \<le> MAX_LINE_LENGTH"
  by (simp_all add: fits_frame_def make_ready_def make_mailbox_result_def make_mailbox_request_def encode_line_def
      MAX_LINE_LENGTH_def dumps_str_def esc_char_def code_def str_int_def digits.simps WIRE_VERSION_def newline_def
      if_given_def)


theorem no_silent_success_witness:
  "\<exists>m c. received (splitlines (send_frame (\<lambda>_. []) (make_ready WIRE_VERSION ''1.0'') @
       send_frame (\<lambda>_. []) (make_mailbox_result (''2 messages'' @ [newline]) [] 0))) m \<and>
     wm_type m = ''mailbox_result'' \<and> dget (wm_payload m) ''exit_code'' = Some (JInt c) \<and> c \<in> {0, -1}"
proof -
  let ?h = "\<lparr>hr_stdout = send_frame (\<lambda>_. []) (make_ready WIRE_VERSION ''1.0'') @
       send_frame (\<lambda>_. []) (make_mailbox_result (''2 messages'' @ [newline]) [] 0), hr_stderr = [], hr_returncode = Some 0\<rparr>"
  have "run_ssh_mailbox (Helper_done ?h) = Inr (mailbox_answer (\<lambda>_. []) (''2 messages'' @ [newline], [], 0))"
    by (rule client_reads_answer) (use demo_small in \<open>simp_all add: nel_free_def code_def newline_def del: dumps.simps\<close>)
  then have "run_ssh_mailbox (Helper_done ?h) = Inr (0, ''2 messages'' @ [newline], [])"
    using demo_small(2) by (simp add: mailbox_answer_def)
  with no_silent_success [of ?h] show ?thesis by simp
qed

section \<open>What goes wrong\<close>

text \<open>
  The local loop gives an error frame the exit code -1 and then takes -1 to mean that there was no
  exit code: when the helper ends normally after its error frame, which is what it does, the run is
  reported with return code 0. The ssh loop reports 1.
\<close>

lemma local_error_frame_succeeds:
  defines "h \<equiv> \<lparr>hr_stdout = send_frame (\<lambda>_. []) (make_error ''workdir not found: /x''), hr_stderr = [], hr_returncode = Some 0\<rparr>"
  shows "\<exists>r. run_wire (Helper_done h) = Inr r \<and> rr_returncode r = Some 0"
    and "\<exists>r. run_ssh_wire (Helper_done h) = Inr r \<and> rr_returncode r = Some 1"
proof -
  let ?d = "make_error ''workdir not found: /x''"
  have f: "fits_frame (\<lambda>_. []) ?d"
    by (simp add: fits_frame_def make_error_def MAX_LINE_LENGTH_def dumps_str_def esc_char_def code_def)
  note dec = decode_frame [OF plain_frames(3) f factories_frame_ok(5)]
  have b: "breakless (dumps (\<lambda>_. []) '' '' (JObj ?d))"
    by (rule breakless_frames(3)) (simp add: nel_free_def code_def)
  have n: "newline \<notin> set (dumps (\<lambda>_. []) '' '' (JObj ?d))"
    using b by (auto simp: breakless_def is_break_def newline_def code_def simp del: dumps.simps)
  have l: "splitlines (hr_stdout h) = [dumps (\<lambda>_. []) '' '' (JObj ?d)]"
      "lines_of (hr_stdout h) = [dumps (\<lambda>_. []) '' '' (JObj ?d) @ [newline]]"
    unfolding h_def using splitlines_line [OF b, of "[]"] lines_of_line [OF n, of "[]"]
    by (simp_all add: send_frame_fits [OF f] del: dumps.simps)
  obtain t where t: "dumps (\<lambda>_. []) '' '' (JObj ?d) = CHR ''{'' # t" "last (dumps (\<lambda>_. []) '' '' (JObj ?d)) = CHR ''}''"
    using dumps_obj_shape by blast
  have "\<not> is_space (last (dumps (\<lambda>_. []) '' '' (JObj ?d)))" unfolding t(2) by simp
  from strip_line [OF t(1) brace_not_space(1) this]
  have s: "strip (dumps (\<lambda>_. []) '' '' (JObj ?d) @ [newline]) = strip (dumps (\<lambda>_. []) '' '' (JObj ?d))" by simp
  have m: "run_message e (message_of ?d) x = Next (x\<lparr>ex_terminal := True, ex_stderr := ''workdir not found: /x'', ex_exit := e\<rparr>)" for e x
    by (simp add: run_message_def message_of_def make_error_def sget_def dget_or_def)
  have "run_loop (-1) (splitlines (hr_stdout h)) 0 exchange_start =
      Next (exchange_start\<lparr>ex_terminal := True, ex_stderr := ''workdir not found: /x'', ex_exit := -1\<rparr>)"
    unfolding l using dec m by (simp del: dumps.simps)
  then show "\<exists>r. run_wire (Helper_done h) = Inr r \<and> rr_returncode r = Some 0"
    by (simp add: run_wire_def no_terminal_def exchange_start_def h_def)
  have "run_loop 1 (lines_of (hr_stdout h)) 0 exchange_start =
      Next (exchange_start\<lparr>ex_terminal := True, ex_stderr := ''workdir not found: /x'', ex_exit := 1\<rparr>)"
    unfolding l using dec m by (simp add: s del: dumps.simps)
  then show "\<exists>r. run_ssh_wire (Helper_done h) = Inr r \<and> rr_returncode r = Some 1"
    by (simp add: run_ssh_wire_def no_terminal_def exchange_start_def Let_def h_def)
qed

text \<open>
  The mailbox loop and the local loop split the output with \<open>str.splitlines\<close>, which also breaks at
  the next-line character (and, beyond Latin-1, at the line and paragraph separators). JSON text
  leaves these characters as they are, so an answer that contains one is cut in two, neither part
  decodes, and a command that succeeded is reported as failed.
\<close>

lemma next_line_breaks_result:
  "fst (case run_ssh_mailbox (Helper_done \<lparr>hr_stdout = send_frame (\<lambda>_. [])
      (make_mailbox_result (''a'' @ [CHR 0x85] @ ''b'') [] 0), hr_stderr = [], hr_returncode = Some 0\<rparr>) of Inr x \<Rightarrow> x) = 1"
  by code_simp

end
