(* ===== verification/Gateway_Control.thy ===== *)
theory Gateway_Control
  imports Py_Time Park_Snapshot
begin

text \<open>
  The control store of the gateway, \<open>gateway/control_store.py\<close>: the tables \<open>reviews\<close>,
  \<open>runtime_generations\<close> and \<open>commands\<close>. A table is the list of its rows in the order of insertion;
  the columns \<open>model_context\<close> and \<open>detail\<close> hold the document whose text the source writes. Every
  operation is one transaction under the lock of the store.
\<close>

section \<open>Tables\<close>

record review_row =
  rw_review_key :: string
  rw_session_id :: string
  rw_runtime_id :: string
  rw_profile_id :: string
  rw_mailbox_agent_id :: string
  rw_created_at :: string
  rw_updated_at :: string

record generation_row =
  gn_runtime_id :: string
  gn_generation :: int
  gn_nonce :: string
  gn_presence :: string
  gn_binding :: string
  gn_backend :: string
  gn_epoch :: int
  gn_agent_state :: string
  gn_seq :: nat
  gn_updated_at :: string
  gn_context :: dict

record command_row =
  cm_request_id :: string
  cm_command_id :: string
  cm_msg_id :: string
  cm_turn_id :: string
  cm_runtime_id :: string
  cm_generation :: int
  cm_payload_hash :: string
  cm_state :: string
  cm_epoch :: int
  cm_backend :: string
  cm_created_at :: string
  cm_updated_at :: string
  cm_detail :: dict

record control =
  ct_reviews :: "review_row list"
  ct_generations :: "generation_row list"
  ct_commands :: "command_row list"

definition empty_control :: control where
  "empty_control = \<lparr>ct_reviews = [], ct_generations = [], ct_commands = []\<rparr>"

text \<open>The row with a primary key, and its replacement; a new row goes to the end.\<close>

definition row_of :: "('r \<Rightarrow> string) \<Rightarrow> string \<Rightarrow> 'r list \<Rightarrow> 'r option" where
  "row_of key k rows = find (\<lambda>r. key r = k) rows"

definition put_row :: "('r \<Rightarrow> string) \<Rightarrow> 'r \<Rightarrow> 'r list \<Rightarrow> 'r list" where
  "put_row key row rows =
     (if row_of key (key row) rows = None then rows @ [row]
      else map (\<lambda>r. if key r = key row then row else r) rows)"

section \<open>Reviews\<close>

text \<open>
  A second review for the same session violates the uniqueness of the column and is skipped.
\<close>

definition upsert_review ::
  "instant \<Rightarrow> string \<Rightarrow> string \<Rightarrow> string \<Rightarrow> string \<Rightarrow> string \<Rightarrow> control \<Rightarrow> control" where
  "upsert_review now key sid rid profile aid c =
     (if list_ex (\<lambda>r. rw_review_key r \<noteq> key \<and> rw_session_id r = sid) (ct_reviews c) then c
      else (let created = (case row_of rw_review_key key (ct_reviews c) of
                Some r \<Rightarrow> rw_created_at r | None \<Rightarrow> iso_format now) in
            c\<lparr>ct_reviews := put_row rw_review_key
                \<lparr>rw_review_key = key, rw_session_id = sid, rw_runtime_id = rid, rw_profile_id = profile,
                 rw_mailbox_agent_id = aid, rw_created_at = created, rw_updated_at = iso_format now\<rparr>
                (ct_reviews c)\<rparr>))"

definition get_review :: "string \<Rightarrow> control \<Rightarrow> review_row option" where
  "get_review key c = row_of rw_review_key key (ct_reviews c)"

definition get_review_by_session :: "string \<Rightarrow> control \<Rightarrow> review_row option" where
  "get_review_by_session sid c = row_of rw_session_id sid (ct_reviews c)"

section \<open>Runtime generations\<close>

text \<open>
  The argument \<open>g\<close> carries the columns to write. Its sequence number, time and context are set here:
  the number counts on, and an absent context keeps the one that is stored.
\<close>

definition upsert_generation :: "instant \<Rightarrow> generation_row \<Rightarrow> dict option \<Rightarrow> control \<Rightarrow> control" where
  "upsert_generation now g ctx c =
     (let old = row_of gn_runtime_id (gn_runtime_id g) (ct_generations c);
          seq = (case old of Some r \<Rightarrow> Suc (gn_seq r) | None \<Rightarrow> 1);
          eff = (case ctx of Some d \<Rightarrow> d | None \<Rightarrow> (case old of Some r \<Rightarrow> gn_context r | None \<Rightarrow> [])) in
      c\<lparr>ct_generations := put_row gn_runtime_id
          (g\<lparr>gn_seq := seq, gn_updated_at := iso_format now, gn_context := eff\<rparr>) (ct_generations c)\<rparr>)"

definition delete_generation :: "string \<Rightarrow> control \<Rightarrow> bool \<times> control" where
  "delete_generation rid c =
     (row_of gn_runtime_id rid (ct_generations c) \<noteq> None,
      c\<lparr>ct_generations := filter (\<lambda>r. gn_runtime_id r \<noteq> rid) (ct_generations c)\<rparr>)"

definition get_generation :: "string \<Rightarrow> control \<Rightarrow> generation_row option" where
  "get_generation rid c = row_of gn_runtime_id rid (ct_generations c)"

section \<open>Commands\<close>

text \<open>\<open>INSERT OR IGNORE\<close>: a request id that is known leaves the table as it is.\<close>

definition enqueue_command ::
  "instant \<Rightarrow> string \<Rightarrow> string \<Rightarrow> string \<Rightarrow> int \<Rightarrow> string \<Rightarrow> string \<Rightarrow> int \<Rightarrow> string \<Rightarrow> string \<Rightarrow> control \<Rightarrow> bool \<times> control" where
  "enqueue_command now req cmd rid gen hash state epoch backend msg c =
     (if row_of cm_request_id req (ct_commands c) \<noteq> None then (False, c)
      else (True, c\<lparr>ct_commands := ct_commands c @
        [\<lparr>cm_request_id = req, cm_command_id = cmd, cm_msg_id = msg, cm_turn_id = [], cm_runtime_id = rid,
          cm_generation = gen, cm_payload_hash = hash, cm_state = state, cm_epoch = epoch,
          cm_backend = backend, cm_created_at = iso_format now, cm_updated_at = iso_format now,
          cm_detail = []\<rparr>]\<rparr>))"

definition get_command :: "string \<Rightarrow> control \<Rightarrow> command_row option" where
  "get_command req c = row_of cm_request_id req (ct_commands c)"

text \<open>The arguments of \<open>update_command\<close>; an absent one keeps its column.\<close>

record command_update =
  cu_state :: "string option"
  cu_msg_id :: "string option"
  cu_turn_id :: "string option"
  cu_epoch :: "int option"
  cu_backend :: "string option"
  cu_detail :: "dict option"

definition no_update :: command_update where
  "no_update = \<lparr>cu_state = None, cu_msg_id = None, cu_turn_id = None, cu_epoch = None, cu_backend = None,
     cu_detail = None\<rparr>"

definition keep :: "'a option \<Rightarrow> 'a \<Rightarrow> 'a" where
  "keep new old = (case new of Some x \<Rightarrow> x | None \<Rightarrow> old)"

definition updated_row :: "instant \<Rightarrow> command_update \<Rightarrow> command_row \<Rightarrow> command_row" where
  "updated_row now u r =
     r\<lparr>cm_state := keep (cu_state u) (cm_state r), cm_msg_id := keep (cu_msg_id u) (cm_msg_id r),
       cm_turn_id := keep (cu_turn_id u) (cm_turn_id r), cm_epoch := keep (cu_epoch u) (cm_epoch r),
       cm_backend := keep (cu_backend u) (cm_backend r), cm_detail := keep (cu_detail u) (cm_detail r),
       cm_updated_at := iso_format now\<rparr>"

definition update_command :: "instant \<Rightarrow> string \<Rightarrow> command_update \<Rightarrow> control \<Rightarrow> command_row option \<times> control" where
  "update_command now req u c =
     (let c1 = (if u = no_update then c
                else c\<lparr>ct_commands := map (\<lambda>r. if cm_request_id r = req then updated_row now u r else r)
                  (ct_commands c)\<rparr>) in
      (get_command req c1, c1))"

text \<open>\<open>ORDER BY created_at DESC, request_id DESC\<close>.\<close>

definition newest_first :: "command_row list \<Rightarrow> command_row list" where
  "newest_first rows = rev (sort_key cm_created_at (sort_key cm_request_id rows))"

definition list_commands :: "string \<Rightarrow> string option \<Rightarrow> int \<Rightarrow> int \<Rightarrow> control \<Rightarrow> command_row list" where
  "list_commands rid state limit offset c =
     take (nat (max 1 (min limit 1000))) (drop (nat (max 0 offset))
       (newest_first (filter (\<lambda>r. (rid = [] \<or> cm_runtime_id r = rid) \<and>
          (\<forall>s \<in> set_option state. cm_state r = s)) (ct_commands c))))"

section \<open>Primary keys\<close>

lemma row_of_Nil [simp]: "row_of key k [] = None"
  by (simp add: row_of_def)

lemma row_of_SomeD: "row_of key k rows = Some r \<Longrightarrow> key r = k \<and> r \<in> set rows"
  unfolding row_of_def by (rule find_SomeD)

lemma row_of_None: "row_of key k rows = None \<longleftrightarrow> k \<notin> key ` set rows"
  by (auto simp: row_of_def find_None_iff)

lemma row_of_distinct: "distinct (map key rows) \<Longrightarrow> r \<in> set rows \<Longrightarrow> row_of key (key r) rows = Some r"
  unfolding row_of_def by (induction rows) auto

lemma row_of_append: "row_of key k (xs @ ys) = (case row_of key k xs of None \<Rightarrow> row_of key k ys | Some r \<Rightarrow> Some r)"
  unfolding row_of_def by (induction xs) simp_all

lemma row_of_Cons: "row_of key k (r # rs) = (if key r = k then Some r else row_of key k rs)"
  by (simp add: row_of_def)

lemma row_of_map:
  assumes "\<And>r. key (f r) = key r"
  shows "row_of key k (map f rows) = map_option f (row_of key k rows)"
  by (induction rows) (simp_all add: row_of_Cons assms)

lemma row_of_filter:
  "row_of key k (filter (\<lambda>r. key r \<noteq> x) rows) = (if k = x then None else row_of key k rows)"
  by (induction rows) (auto simp: row_of_Cons)

lemma row_of_put: "row_of key k (put_row key row rows) = (if k = key row then Some row else row_of key k rows)"
proof (cases "row_of key (key row) rows")
  case None
  then show ?thesis by (auto simp: put_row_def row_of_append row_of_Cons split: option.splits)
next
  case (Some r)
  have "row_of key k (map (\<lambda>r. if key r = key row then row else r) rows) =
      map_option (\<lambda>r. if key r = key row then row else r) (row_of key k rows)"
    by (rule row_of_map) simp
  then show ?thesis using Some by (auto simp: put_row_def map_option_case split: option.splits dest: row_of_SomeD)
qed

lemma keys_put: "map key (put_row key row rows) =
  (if key row \<in> key ` set rows then map key rows else map key rows @ [key row])"
  by (auto simp: put_row_def row_of_None)

section \<open>The tables keep their keys\<close>

datatype control_op =
    UpsertReview string string string string string
  | UpsertGeneration generation_row "dict option"
  | DeleteGeneration string
  | Enqueue string string string int string string int string string
  | UpdateCommand string command_update

fun control_step :: "instant \<Rightarrow> control_op \<Rightarrow> control \<Rightarrow> control" where
  "control_step now (UpsertReview key sid rid profile aid) c = upsert_review now key sid rid profile aid c"
| "control_step now (UpsertGeneration g ctx) c = upsert_generation now g ctx c"
| "control_step now (DeleteGeneration rid) c = snd (delete_generation rid c)"
| "control_step now (Enqueue req cmd rid gen hash state epoch backend msg) c =
     snd (enqueue_command now req cmd rid gen hash state epoch backend msg c)"
| "control_step now (UpdateCommand req u) c = snd (update_command now req u c)"

definition run_control :: "(instant \<times> control_op) list \<Rightarrow> control" where
  "run_control ops = fold (\<lambda>(now, op). control_step now op) ops empty_control"

definition control_ok :: "control \<Rightarrow> bool" where
  "control_ok c \<longleftrightarrow> distinct (map rw_review_key (ct_reviews c)) \<and> distinct (map rw_session_id (ct_reviews c)) \<and>
     distinct (map gn_runtime_id (ct_generations c)) \<and> distinct (map cm_request_id (ct_commands c))"

lemma put_row_distinct: "distinct (map key rows) \<Longrightarrow> distinct (map key (put_row key row rows))"
  by (simp add: keys_put)

lemma distinct_put_other:
  assumes "distinct (map key rows)" "distinct (map f rows)"
    and "\<forall>r \<in> set rows. key r \<noteq> key row \<longrightarrow> f r \<noteq> f row"
  shows "distinct (map f (put_row key row rows))"
proof (cases "row_of key (key row) rows = None")
  case True
  then have "\<forall>r \<in> set rows. f r \<noteq> f row" using assms(3) by (metis imageI row_of_None)
  then show ?thesis using True assms(2) by (auto simp: put_row_def)
next
  case False
  have "distinct (map f (map (\<lambda>r. if key r = key row then row else r) rows))"
    using assms
  proof (induction rows)
    case (Cons r rs)
    let ?g = "\<lambda>r. if key r = key row then row else r"
    have "distinct (map f (map ?g rs))" by (rule Cons.IH) (use Cons.prems in simp_all)
    moreover have "f (?g r) \<noteq> f (?g x)" if "x \<in> set rs" for x
    proof -
      have "key x \<noteq> key r" "f x \<noteq> f r" using Cons.prems(1,2) that by (auto simp: rev_image_eqI)
      then show ?thesis using Cons.prems(3) that by auto
    qed
    ultimately show ?case by (auto simp: image_iff)
  qed simp
  then show ?thesis using False by (simp add: put_row_def del: not_None_eq)
qed

lemma control_ok_step: "control_ok c \<Longrightarrow> control_ok (control_step now op c)"
proof (cases op)
  case (UpsertReview key sid rid profile aid)
  assume ok: "control_ok c"
  show ?thesis
  proof (cases "list_ex (\<lambda>r. rw_review_key r \<noteq> key \<and> rw_session_id r = sid) (ct_reviews c)")
    case False
    then have "distinct (map rw_session_id (put_row rw_review_key
        \<lparr>rw_review_key = key, rw_session_id = sid, rw_runtime_id = rid, rw_profile_id = profile,
         rw_mailbox_agent_id = aid, rw_created_at = x, rw_updated_at = y\<rparr> (ct_reviews c)))" for x y
      using ok by (intro distinct_put_other) (auto simp: control_ok_def list_ex_iff)
    then show ?thesis using False ok
      by (simp add: UpsertReview upsert_review_def control_ok_def Let_def put_row_distinct)
  qed (use ok in \<open>simp add: UpsertReview upsert_review_def\<close>)
next
  case (UpdateCommand req u)
  assume "control_ok c"
  moreover have "map cm_request_id (map (\<lambda>r. if cm_request_id r = req then updated_row now u r else r) rows) =
      map cm_request_id rows" for rows
    by (simp add: updated_row_def)
  ultimately show ?thesis by (simp add: UpdateCommand update_command_def control_ok_def Let_def del: map_map)
qed (auto simp: control_ok_def upsert_generation_def delete_generation_def enqueue_command_def Let_def
    put_row_distinct distinct_map_filter row_of_None)

lemma control_ok_run [simp]: "control_ok (run_control ops)"
proof -
  have "control_ok (fold (\<lambda>(now, op). control_step now op) ops c)" if "control_ok c" for c
    using that by (induction ops arbitrary: c) (auto simp: control_ok_step split: prod.splits)
  moreover have "control_ok empty_control" by (simp add: control_ok_def empty_control_def)
  ultimately show ?thesis by (simp add: run_control_def)
qed

lemma get_updated:
  "get_command req' (snd (update_command now req u c)) =
     (if req' = req \<and> u \<noteq> no_update then map_option (updated_row now u) (get_command req c) else get_command req' c)"
proof -
  have "row_of cm_request_id req' (map (\<lambda>r. if cm_request_id r = req then updated_row now u r else r) rows) =
      map_option (\<lambda>r. if cm_request_id r = req then updated_row now u r else r) (row_of cm_request_id req' rows)" for rows
    by (rule row_of_map) (simp add: updated_row_def)
  then show ?thesis
    by (auto simp: update_command_def get_command_def Let_def map_option_case split: option.split dest: row_of_SomeD)
qed

text \<open>
  Reads see the last write. On every reachable control store, writing the state of a runtime
  stores exactly the given columns under its id with a sequence number one higher than before, keeps
  a stored context when none is given, and touches no other runtime; a queued command is found under
  its request id as it was queued, queuing the id again is refused without effect, and an update
  changes exactly the columns it names, of that command only.
\<close>

theorem control_read_your_writes:
  fixes ops :: "(instant \<times> control_op) list"
  defines "c \<equiv> run_control ops"
  shows "get_generation rid (upsert_generation now g ctx c) =
      (if rid = gn_runtime_id g
       then Some (g\<lparr>gn_seq := Suc (case get_generation rid c of Some r \<Rightarrow> gn_seq r | None \<Rightarrow> 0),
         gn_updated_at := iso_format now,
         gn_context := (case ctx of Some d \<Rightarrow> d | None \<Rightarrow> (case get_generation rid c of Some r \<Rightarrow> gn_context r | None \<Rightarrow> []))\<rparr>)
       else get_generation rid c) \<and>
    (case enqueue_command now req cmd rid gen hash st ep be msg c of (new, c') \<Rightarrow>
       new = (get_command req c = None) \<and>
       (if new then map_option cm_state (get_command req c') = Some st \<and>
            map_option cm_payload_hash (get_command req c') = Some hash
        else c' = c) \<and>
       list_all (\<lambda>r. get_command (cm_request_id r) c' = Some r) (ct_commands c)) \<and>
    get_command req' (snd (update_command now req u c)) =
      (if req' = req \<and> u \<noteq> no_update then map_option (updated_row now u) (get_command req c) else get_command req' c)"
proof (intro conjI)
  show "get_generation rid (upsert_generation now g ctx c) =
      (if rid = gn_runtime_id g
       then Some (g\<lparr>gn_seq := Suc (case get_generation rid c of Some r \<Rightarrow> gn_seq r | None \<Rightarrow> 0),
         gn_updated_at := iso_format now,
         gn_context := (case ctx of Some d \<Rightarrow> d | None \<Rightarrow> (case get_generation rid c of Some r \<Rightarrow> gn_context r | None \<Rightarrow> []))\<rparr>)
       else get_generation rid c)"
    by (auto simp: get_generation_def upsert_generation_def Let_def row_of_put split: option.split)
  show "case enqueue_command now req cmd rid gen hash st ep be msg c of (new, c') \<Rightarrow>
       new = (get_command req c = None) \<and>
       (if new then map_option cm_state (get_command req c') = Some st \<and>
            map_option cm_payload_hash (get_command req c') = Some hash
        else c' = c) \<and>
       list_all (\<lambda>r. get_command (cm_request_id r) c' = Some r) (ct_commands c)"
    using control_ok_run [of ops]
    by (auto simp: c_def enqueue_command_def get_command_def control_ok_def row_of_append row_of_Cons row_of_distinct
        list_all_iff split: option.split)
  show "get_command req' (snd (update_command now req u c)) =
      (if req' = req \<and> u \<noteq> no_update then map_option (updated_row now u) (get_command req c) else get_command req' c)"
    by (rule get_updated)
qed

section \<open>Listing commands page by page\<close>

lemma newest_first_set [simp]: "set (newest_first rows) = set rows"
  by (simp add: newest_first_def)

lemma take_drop_pages: "0 < n \<Longrightarrow> concat (map (\<lambda>i. take n (drop (i * n) xs)) [0..<m]) = take (m * n) xs"
proof (induction m)
  case (Suc m)
  then have "take (m * n + n) xs = take (m * n) xs @ take n (drop (m * n) xs)" by (simp add: take_add)
  with Suc show ?case by (simp add: add.commute)
qed simp

text \<open>
  The pages of a listing put together are the listing: no command is skipped or listed twice.
\<close>

lemma command_pages:
  assumes "0 < n" "n \<le> 1000"
  shows "concat (map (\<lambda>i. list_commands rid st (int n) (int (i * n)) c) [0..<m]) =
    take (m * n) (newest_first (filter (\<lambda>r. (rid = [] \<or> cm_runtime_id r = rid) \<and>
      (\<forall>s \<in> set_option st. cm_state r = s)) (ct_commands c)))"
proof -
  have "nat (max 1 (min (int n) 1000)) = n" using assms by auto
  then show ?thesis using take_drop_pages [OF assms(1)] by (simp add: list_commands_def del: of_nat_mult)
qed

end
