(* ===== verification/Gateway_Events.thy ===== *)
theory Gateway_Events
  imports Py_Time Park_Snapshot
begin

text \<open>
  The event library of the gateway: \<open>gateway/events.py\<close> and the event types of \<open>gateway/model.py\<close>.

  The table \<open>runtime_events\<close> is the list of its rows in insertion order, with the counter that
  SQLite keeps for \<open>AUTOINCREMENT\<close>. The payload column holds the document itself; its text form is
  treated in \<open>Json_Text\<close>. Every operation runs under the lock of the store and is one step. A document
  whose fields have other types than the gateway writes is rejected with \<open>EvType\<close>; the source
  raises \<open>TypeError\<close> or stores it as it is.
\<close>

section \<open>Kinds and records\<close>

definition EVENT_KINDS :: "string list" where
  "EVENT_KINDS = [''RUNTIME_STATE'', ''MESSAGE_DELIVERED'', ''MESSAGE_READ'', ''TURN_STARTED'',
     ''ASSISTANT_PROGRESS'', ''TOOL_STARTED'', ''TOOL_UPDATED'', ''TOOL_FINISHED'',
     ''USAGE'', ''TASK_STATE'', ''ERROR'', ''AGENT_STATUS'']"

definition EVENT_KIND_TOOL_UPDATE :: "string list" where
  "EVENT_KIND_TOOL_UPDATE = [''TOOL_UPDATED'']"

definition EVENT_KIND_TERMINAL :: "string list" where
  "EVENT_KIND_TERMINAL = [''TASK_STATE'', ''MESSAGE_READ'', ''ERROR'']"

definition TOOL_UPDATE_RETENTION_DAYS :: rat where "TOOL_UPDATE_RETENTION_DAYS = 7"
definition TERMINAL_RETENTION_DAYS :: rat where "TERMINAL_RETENTION_DAYS = 90"
definition MAX_TOTAL_EVENTS :: nat where "MAX_TOTAL_EVENTS = 100000"

datatype event_error = EvProtocol | EvValueError | EvType

record event_draft =
  ed_runtime_id :: string
  ed_generation :: int
  ed_session_id :: string
  ed_agent_id :: string
  ed_request_id :: string
  ed_run_id :: string
  ed_kind :: string
  ed_created_at :: string
  ed_payload :: dict

definition validate_draft :: "event_draft \<Rightarrow> event_error option" where
  "validate_draft d =
     (if ed_runtime_id d = [] \<or> ed_session_id d = [] then Some EvProtocol
      else if ed_kind d \<notin> set EVENT_KINDS then Some EvProtocol
      else None)"

definition draft_to_dict :: "event_draft \<Rightarrow> dict" where
  "draft_to_dict d =
     [(''runtime_id'', JStr (ed_runtime_id d)), (''generation'', JInt (ed_generation d)),
      (''session_id'', JStr (ed_session_id d)), (''agent_id'', JStr (ed_agent_id d)),
      (''request_id'', JStr (ed_request_id d)), (''run_id'', JStr (ed_run_id d)),
      (''kind'', JStr (ed_kind d)), (''created_at'', JStr (ed_created_at d)),
      (''payload'', JObj (ed_payload d))]"

text \<open>\<open>d.get("payload", {}) or {}\<close>.\<close>

definition payload_of :: "dict \<Rightarrow> dict option" where
  "payload_of d = (case dget_or d ''payload'' (JObj []) of
       JObj p \<Rightarrow> Some p
     | j \<Rightarrow> if truthy j then None else Some [])"

definition draft_of_dict :: "dict \<Rightarrow> event_draft option" where
  "draft_of_dict d = do {
     rid \<leftarrow> field_str d ''runtime_id''; gen \<leftarrow> field_int d ''generation'' 0;
     sid \<leftarrow> field_str d ''session_id''; aid \<leftarrow> field_str d ''agent_id'';
     req \<leftarrow> field_str d ''request_id''; run \<leftarrow> field_str d ''run_id'';
     kind \<leftarrow> field_str d ''kind''; created \<leftarrow> field_str d ''created_at'';
     p \<leftarrow> payload_of d;
     Some \<lparr>ed_runtime_id = rid, ed_generation = gen, ed_session_id = sid, ed_agent_id = aid,
       ed_request_id = req, ed_run_id = run, ed_kind = kind, ed_created_at = created,
       ed_payload = p\<rparr> }"

record runtime_event = event_draft +
  ev_event_id :: int
  ev_source_host :: string
  ev_source_sequence :: int

definition event_to_dict :: "runtime_event \<Rightarrow> dict" where
  "event_to_dict e =
     [(''event_id'', JInt (ev_event_id e)), (''source_host'', JStr (ev_source_host e)),
      (''runtime_id'', JStr (ed_runtime_id e)), (''generation'', JInt (ed_generation e)),
      (''source_sequence'', JInt (ev_source_sequence e)), (''session_id'', JStr (ed_session_id e)),
      (''agent_id'', JStr (ed_agent_id e)), (''request_id'', JStr (ed_request_id e)),
      (''run_id'', JStr (ed_run_id e)), (''kind'', JStr (ed_kind e)),
      (''created_at'', JStr (ed_created_at e)), (''payload'', JObj (ed_payload e))]"

section \<open>The store\<close>

record event_store =
  es_host :: string
  es_rows :: "runtime_event list"
  es_last :: int

definition event_key :: "runtime_event \<Rightarrow> string \<times> string \<times> int \<times> int" where
  "event_key e = (ev_source_host e, ed_runtime_id e, ed_generation e, ev_source_sequence e)"

text \<open>\<open>SELECT COALESCE(MAX(source_sequence), 0)\<close> for one source.\<close>

definition max_sequence :: "event_store \<Rightarrow> string \<Rightarrow> string \<Rightarrow> int \<Rightarrow> int" where
  "max_sequence es host rid gen = (case map ev_source_sequence
       (filter (\<lambda>e. ev_source_host e = host \<and> ed_runtime_id e = rid \<and> ed_generation e = gen) (es_rows es)) of
     [] \<Rightarrow> 0 | s # ss \<Rightarrow> fold max ss s)"

text \<open>\<open>INSERT INTO runtime_events\<close>: the row gets the next event id.\<close>

definition insert_event :: "event_draft \<Rightarrow> string \<Rightarrow> int \<Rightarrow> event_store \<Rightarrow> runtime_event \<times> event_store" where
  "insert_event d host seq es =
     (let e = event_draft.extend d \<lparr>ev_event_id = es_last es + 1, ev_source_host = host, ev_source_sequence = seq\<rparr> in
      (e, es\<lparr>es_rows := es_rows es @ [e], es_last := es_last es + 1\<rparr>))"

definition append_local :: "event_draft \<Rightarrow> event_store \<Rightarrow> (event_error + runtime_event) \<times> event_store" where
  "append_local d es = (case validate_draft d of
       Some err \<Rightarrow> (Inl err, es)
     | None \<Rightarrow>
         (let seq = max_sequence es (es_host es) (ed_runtime_id d) (ed_generation d) + 1 in
          case insert_event d (es_host es) seq es of (e, es1) \<Rightarrow> (Inr e, es1)))"

definition ingest_remote :: "dict \<Rightarrow> event_store \<Rightarrow> (event_error + runtime_event option) \<times> event_store" where
  "ingest_remote f es = (case field_str f ''source_host'' of
       None \<Rightarrow> (Inl EvType, es)
     | Some host \<Rightarrow> (case field_int f ''source_sequence'' 0 of
         None \<Rightarrow> (Inl EvType, es)
       | Some seq \<Rightarrow> (case draft_of_dict f of
           None \<Rightarrow> (Inl EvType, es)
         | Some d \<Rightarrow>
             if host = [] \<or> ed_runtime_id d = [] then (Inl EvValueError, es)
             else if seq \<le> 0 then (Inl EvValueError, es)
             else if ed_kind d \<notin> set EVENT_KINDS then (Inr None, es)
             else (case find (\<lambda>e. event_key e = (host, ed_runtime_id d, ed_generation d, seq)) (es_rows es) of
                 Some e \<Rightarrow> (Inr (Some (event_draft.extend d
                     \<lparr>ev_event_id = ev_event_id e, ev_source_host = host, ev_source_sequence = seq\<rparr>)), es)
               | None \<Rightarrow> (case insert_event d host seq es of (e, es1) \<Rightarrow> (Inr (Some e), es1))))))"

definition event_match :: "string list \<Rightarrow> string \<Rightarrow> string \<Rightarrow> runtime_event \<Rightarrow> bool" where
  "event_match kinds sid rid e \<longleftrightarrow>
     (kinds = [] \<or> ed_kind e \<in> set kinds) \<and> (sid = [] \<or> ed_session_id e = sid) \<and>
     (rid = [] \<or> ed_runtime_id e = rid)"

text \<open>\<open>list_after\<close>; a missing filter list and an empty one select every kind.\<close>

definition list_after ::
  "int \<Rightarrow> string list \<Rightarrow> int \<Rightarrow> string \<Rightarrow> string \<Rightarrow> event_store \<Rightarrow> event_error + (runtime_event list \<times> int)" where
  "list_after cursor kinds limit sid rid es =
     (if \<not> set kinds \<subseteq> set EVENT_KINDS then Inl EvValueError
      else let n = nat (max 1 (min limit 1000));
               events = take n (filter (\<lambda>e. cursor < ev_event_id e \<and> event_match kinds sid rid e) (es_rows es)) in
           Inr (events, if events = [] then cursor else ev_event_id (last events)))"

record event_aggregate =
  ag_tool_count :: nat
  ag_error_count :: nat
  ag_first_seen_at :: string
  ag_last_event :: "runtime_event option"

definition of_generation :: "string \<Rightarrow> int option \<Rightarrow> event_store \<Rightarrow> runtime_event list" where
  "of_generation rid gen es =
     filter (\<lambda>e. ed_runtime_id e = rid \<and> (\<forall>g \<in> set_option gen. ed_generation e = g)) (es_rows es)"

definition aggregate :: "string \<Rightarrow> int option \<Rightarrow> event_store \<Rightarrow> event_aggregate" where
  "aggregate rid gen es =
     (let rows = of_generation rid gen es in
      \<lparr>ag_tool_count = length (filter (\<lambda>e. ed_kind e = ''TOOL_STARTED'') rows),
       ag_error_count = length (filter (\<lambda>e. ed_kind e = ''ERROR'') rows),
       ag_first_seen_at = (if rows = [] then [] else ed_created_at (hd rows)),
       ag_last_event = (if rows = [] then None else Some (last rows))\<rparr>)"

definition kind_stats :: "string \<Rightarrow> int option \<Rightarrow> event_store \<Rightarrow> (string \<times> nat) list \<times> (string \<times> string) list" where
  "kind_stats rid gen es =
     (let rows = of_generation rid gen es; kinds = sorted_set (map ed_kind rows) in
      (map (\<lambda>k. (k, length (filter (\<lambda>e. ed_kind e = k) rows))) kinds,
       map (\<lambda>k. (k, ed_created_at (last (filter (\<lambda>e. ed_kind e = k) rows)))) kinds))"

definition expired_event :: "instant \<Rightarrow> runtime_event \<Rightarrow> bool" where
  "expired_event now e \<longleftrightarrow>
     ed_kind e \<in> set EVENT_KIND_TOOL_UPDATE \<and>
       ed_created_at e < iso_format (now - TOOL_UPDATE_RETENTION_DAYS * 86400) \<or>
     ed_kind e \<in> set EVENT_KIND_TERMINAL \<and>
       ed_created_at e < iso_format (now - TERMINAL_RETENTION_DAYS * 86400)"

text \<open>\<open>sweep\<close>; the two deletions by age are one filter, since their kinds are disjoint.\<close>

definition sweep_events :: "instant \<Rightarrow> event_store \<Rightarrow> nat \<times> event_store" where
  "sweep_events now es =
     (let kept = filter (\<lambda>e. \<not> expired_event now e) (es_rows es);
          capped = drop (length kept - MAX_TOTAL_EVENTS) kept in
      (length (es_rows es) - length capped, es\<lparr>es_rows := capped\<rparr>))"

definition empty_events :: "string \<Rightarrow> event_store" where
  "empty_events host = \<lparr>es_host = host, es_rows = [], es_last = 0\<rparr>"

section \<open>The log stays in order\<close>

definition events_ok :: "event_store \<Rightarrow> bool" where
  "events_ok es \<longleftrightarrow> sorted_wrt (<) (map ev_event_id (es_rows es)) \<and> distinct (map event_key (es_rows es)) \<and>
     (\<forall>e \<in> set (es_rows es). ev_event_id e \<le> es_last es \<and> 0 < ev_source_sequence e \<and> ed_kind e \<in> set EVENT_KINDS)"

lemma max_sequence_ge:
  assumes "e \<in> set (es_rows es)"
  shows "ev_source_sequence e \<le> max_sequence es (ev_source_host e) (ed_runtime_id e) (ed_generation e)"
proof -
  define xs where "xs = map ev_source_sequence (filter (\<lambda>x. ev_source_host x = ev_source_host e \<and>
    ed_runtime_id x = ed_runtime_id e \<and> ed_generation x = ed_generation e) (es_rows es))"
  have x: "ev_source_sequence e \<in> set xs" using assms by (simp add: xs_def)
  then obtain s ss where "xs = s # ss" by (cases xs) auto
  then have "max_sequence es (ev_source_host e) (ed_runtime_id e) (ed_generation e) = Max (set xs)"
    by (simp add: max_sequence_def flip: xs_def) (simp add: Max.set_eq_fold [symmetric])
  then show ?thesis using x by simp
qed

lemma max_sequence_nonneg: "events_ok es \<Longrightarrow> 0 \<le> max_sequence es h r g"
proof (cases "filter (\<lambda>e. ev_source_host e = h \<and> ed_runtime_id e = r \<and> ed_generation e = g) (es_rows es)")
  case (Cons e xs)
  assume ok: "events_ok es"
  from Cons have "e \<in> set (filter (\<lambda>e. ev_source_host e = h \<and> ed_runtime_id e = r \<and> ed_generation e = g) (es_rows es))"
    by simp
  then have "e \<in> set (es_rows es)" "ev_source_host e = h" "ed_runtime_id e = r" "ed_generation e = g" by auto
  moreover from this ok have "0 < ev_source_sequence e" by (simp add: events_ok_def)
  ultimately show ?thesis using max_sequence_ge [of e es] by simp
qed (simp add: max_sequence_def)

lemma extended_fields [simp]:
  "ev_event_id (event_draft.extend d \<lparr>ev_event_id = i, ev_source_host = h, ev_source_sequence = s\<rparr>) = i"
  "ev_source_host (event_draft.extend d \<lparr>ev_event_id = i, ev_source_host = h, ev_source_sequence = s\<rparr>) = h"
  "ev_source_sequence (event_draft.extend d \<lparr>ev_event_id = i, ev_source_host = h, ev_source_sequence = s\<rparr>) = s"
  "ed_kind (event_draft.extend d r) = ed_kind d" "ed_runtime_id (event_draft.extend d r) = ed_runtime_id d"
  "ed_generation (event_draft.extend d r) = ed_generation d" "ed_session_id (event_draft.extend d r) = ed_session_id d"
  "ed_created_at (event_draft.extend d r) = ed_created_at d"
  by (simp_all add: event_draft.extend_def)

lemma events_ok_insert:
  assumes "events_ok es" "0 < seq" "ed_kind d \<in> set EVENT_KINDS"
    "(host, ed_runtime_id d, ed_generation d, seq) \<notin> event_key ` set (es_rows es)"
  shows "events_ok (snd (insert_event d host seq es))"
  using assms by (force simp: events_ok_def insert_event_def Let_def sorted_wrt_append event_key_def)

lemma events_ok_append: "events_ok es \<Longrightarrow> events_ok (snd (append_local d es))"
proof -
  assume ok: "events_ok es"
  let ?seq = "max_sequence es (es_host es) (ed_runtime_id d) (ed_generation d) + 1"
  have "(es_host es, ed_runtime_id d, ed_generation d, ?seq) \<notin> event_key ` set (es_rows es)"
    using max_sequence_ge [of _ es] by (force simp: event_key_def)
  then show ?thesis
    using ok max_sequence_nonneg [OF ok] events_ok_insert [OF ok, of ?seq d "es_host es"]
    by (auto simp: append_local_def validate_draft_def Let_def split: option.splits if_splits prod.splits)
qed

text \<open>A frame that \<open>ingest_remote\<close> takes up.\<close>

definition remote_frame :: "dict \<Rightarrow> (event_draft \<times> string \<times> int) option" where
  "remote_frame f = (case (field_str f ''source_host'', field_int f ''source_sequence'' 0, draft_of_dict f) of
       (Some h, Some s, Some d) \<Rightarrow>
         if h \<noteq> [] \<and> ed_runtime_id d \<noteq> [] \<and> 0 < s \<and> ed_kind d \<in> set EVENT_KINDS then Some (d, h, s) else None
     | _ \<Rightarrow> None)"

definition frame_key :: "event_draft \<times> string \<times> int \<Rightarrow> string \<times> string \<times> int \<times> int" where
  "frame_key f = (case f of (d, h, s) \<Rightarrow> (h, ed_runtime_id d, ed_generation d, s))"

lemma ingest_store:
  "snd (ingest_remote f es) = (case remote_frame f of
      Some (d, h, s) \<Rightarrow> if frame_key (d, h, s) \<in> event_key ` set (es_rows es) then es else snd (insert_event d h s es)
    | None \<Rightarrow> es)"
  by (auto simp: ingest_remote_def remote_frame_def frame_key_def find_None_iff split: option.splits prod.splits
      dest!: find_SomeD) (metis imageI)

lemma events_ok_ingest: "events_ok es \<Longrightarrow> events_ok (snd (ingest_remote f es))"
  by (auto simp: ingest_store frame_key_def remote_frame_def intro!: events_ok_insert split: option.splits if_splits)

lemma events_ok_sweep: "events_ok es \<Longrightarrow> events_ok (snd (sweep_events now es))"
  by (auto simp: events_ok_def sweep_events_def Let_def sorted_wrt_map sorted_wrt_drop sorted_wrt_filter
      drop_map [symmetric] distinct_map_filter intro: distinct_drop dest: in_set_dropD)
datatype event_op = Append event_draft | Ingest dict | SweepEvents instant

fun event_step :: "event_op \<Rightarrow> event_store \<Rightarrow> event_store" where
  "event_step (Append d) es = snd (append_local d es)"
| "event_step (Ingest f) es = snd (ingest_remote f es)"
| "event_step (SweepEvents now) es = snd (sweep_events now es)"

definition run_events :: "event_op list \<Rightarrow> event_store \<Rightarrow> event_store" where
  "run_events ops es = fold event_step ops es"

lemma events_ok_empty [simp]: "events_ok (empty_events host)"
  by (simp add: events_ok_def empty_events_def)

lemma events_ok_step: "events_ok es \<Longrightarrow> events_ok (event_step op es)"
  by (cases op) (simp_all add: events_ok_append events_ok_ingest events_ok_sweep)

lemma events_ok_run: "events_ok es \<Longrightarrow> events_ok (run_events ops es)"
  unfolding run_events_def by (induction ops arbitrary: es) (simp_all add: events_ok_step)

text \<open>A step keeps or deletes the rows there are, and adds rows with later ids only.\<close>

lemma step_rows:
  "e \<in> set (es_rows (event_step op es)) \<Longrightarrow> e \<in> set (es_rows es) \<or> es_last es < ev_event_id e"
  by (cases op) (auto simp: append_local_def ingest_store insert_event_def sweep_events_def Let_def
      split: option.splits if_splits dest: in_set_dropD)

lemma step_last: "es_last es \<le> es_last (event_step op es)"
  by (cases op) (auto simp: append_local_def ingest_store insert_event_def sweep_events_def Let_def
      split: option.splits)

lemma run_rows:
  "e \<in> set (es_rows (run_events ops es)) \<Longrightarrow> e \<in> set (es_rows es) \<or> es_last es < ev_event_id e"
  unfolding run_events_def
proof (induction ops arbitrary: es)
  case (Cons op ops)
  then show ?case using step_rows [of e op es] step_last [of es op] by fastforce
qed simp

text \<open>
  C29. The event log is sound. Whatever local appends, remote frames and retention sweeps were
  run, in any order, the rows have strictly increasing event ids, no two rows share their source,
  runtime, generation and sequence number, every sequence number is positive and every kind known.
\<close>

theorem event_log_ordered:
  fixes ops :: "event_op list" and host :: string
  defines "rows \<equiv> es_rows (run_events ops (empty_events host))"
  shows "sorted_wrt (<) (map ev_event_id rows) \<and> distinct (map event_key rows) \<and>
    list_all (\<lambda>e. 0 < ev_source_sequence e \<and> ed_kind e \<in> set EVENT_KINDS) rows"
  using events_ok_run [OF events_ok_empty, of ops host] by (simp add: events_ok_def rows_def list_all_iff)

section \<open>Reading by cursor\<close>

lemma take_filter_split:
  assumes "sorted_wrt (<) (map f xs)" "x \<in> set xs" "x \<notin> set (take n xs)" "take n xs \<noteq> []"
  shows "(f (last (take n xs)) :: int) < f x"
proof -
  from assms(2,3) have "x \<in> set (drop n xs)" by (metis append_take_drop_id in_set_conv_decomp UnE set_append)
  moreover have "sorted_wrt (<) (map f (take n xs) @ map f (drop n xs))"
    using assms(1) by (simp flip: map_append)
  moreover have "last (take n xs) \<in> set (take n xs)" using assms(4) by simp
  ultimately show ?thesis by (auto simp: sorted_wrt_append)
qed

lemma last_ge: "sorted_wrt (<) (map f xs) \<Longrightarrow> x \<in> set xs \<Longrightarrow> (f x :: int) \<le> f (last xs)"
  by (induction xs) (auto split: if_splits simp: less_imp_le)

lemma list_after_page:
  assumes ok: "events_ok es" and l: "list_after c kinds limit sid rid es = Inr (page, c')"
    and e: "e \<in> set (es_rows es)" "c < ev_event_id e" "event_match kinds sid rid e"
  shows "e \<in> set page \<longleftrightarrow> ev_event_id e \<le> c'"
proof -
  define xs where "xs = filter (\<lambda>e. c < ev_event_id e \<and> event_match kinds sid rid e) (es_rows es)"
  define n where "n = nat (max 1 (min limit 1000))"
  have p: "page = take n xs" "c' = (if page = [] then c else ev_event_id (last page))"
    using l by (auto simp: list_after_def xs_def n_def Let_def split: if_splits)
  have s: "sorted_wrt (<) (map ev_event_id xs)"
    using ok by (simp add: events_ok_def xs_def sorted_wrt_map sorted_wrt_filter)
  have x: "e \<in> set xs" using e by (simp add: xs_def)
  have "0 < n" by (simp add: n_def)
  with x have ne: "page \<noteq> []" by (auto simp: p(1))
  have "ev_event_id e \<le> ev_event_id (last page)" if "e \<in> set page"
    using s that p(1) by (intro last_ge) (simp_all add: sorted_wrt_take flip: take_map)
  moreover have "ev_event_id (last page) < ev_event_id e" if "e \<notin> set page"
    using take_filter_split [OF s x] that ne by (simp add: p(1))
  ultimately show ?thesis using ne by (cases "e \<in> set page") (auto simp: p(2))
qed



section \<open>Replication\<close>

definition ingest_all :: "dict list \<Rightarrow> event_store \<Rightarrow> event_store" where
  "ingest_all fs es = fold (\<lambda>f. snd \<circ> ingest_remote f) fs es"

definition held :: "event_store \<Rightarrow> (string \<times> string \<times> int \<times> int) set" where
  "held es = event_key ` set (es_rows es)"

lemma held_ingest:
  "held (snd (ingest_remote f es)) = held es \<union> frame_key ` set_option (remote_frame f)"
  by (auto simp: ingest_store held_def insert_event_def Let_def frame_key_def event_key_def split: option.splits)

lemma held_ingest_all: "held (ingest_all fs es) = held es \<union> frame_key ` (\<Union>f \<in> set fs. set_option (remote_frame f))"
  unfolding ingest_all_def
  by (induction fs arbitrary: es) (auto simp: held_ingest)

lemma ingest_held: "frame_key ` set_option (remote_frame f) \<subseteq> held es \<Longrightarrow> snd (ingest_remote f es) = es"
  by (auto simp: ingest_store held_def split: option.splits)

lemma ingest_all_held:
  "(\<forall>f \<in> set fs. frame_key ` set_option (remote_frame f) \<subseteq> held es) \<Longrightarrow> ingest_all fs es = es"
  unfolding ingest_all_def by (induction fs) (auto simp: ingest_held)

lemma run_ingest_all: "ingest_all fs es = run_events (map Ingest fs) es"
  by (induction fs arbitrary: es) (simp_all add: ingest_all_def run_events_def)

text \<open>
  C31. Frames may be repeated and reordered. On a reachable log, after any list of frames was
  ingested the log holds exactly what it held before and one row for each source position of the
  frames that are valid; ingesting any of them again, in any order, changes nothing.
\<close>

theorem replication_idempotent:
  fixes ops :: "event_op list" and host :: string
  defines "es \<equiv> run_events ops (empty_events host)"
  assumes again: "set fs' \<subseteq> set fs"
  shows "held (ingest_all fs es) = held es \<union> frame_key ` (\<Union>f \<in> set fs. set_option (remote_frame f)) \<and>
    distinct (map event_key (es_rows (ingest_all fs es))) \<and>
    ingest_all fs' (ingest_all fs es) = ingest_all fs es"
proof (intro conjI)
  show "distinct (map event_key (es_rows (ingest_all fs es)))"
    using events_ok_run [OF events_ok_run [OF events_ok_empty], of "map Ingest fs" ops host]
    by (simp add: run_ingest_all es_def events_ok_def)
  show "ingest_all fs' (ingest_all fs es) = ingest_all fs es"
    using again by (intro ingest_all_held) (auto simp: held_ingest_all)
qed (rule held_ingest_all)

definition demo_draft :: "string \<Rightarrow> string \<Rightarrow> event_draft" where
  "demo_draft kind created = \<lparr>ed_runtime_id = ''r'', ed_generation = 1, ed_session_id = ''s'', ed_agent_id = ''a'',
     ed_request_id = [], ed_run_id = [], ed_kind = kind, ed_created_at = created, ed_payload = []\<rparr>"

definition demo_event :: "string \<Rightarrow> string \<Rightarrow> int \<Rightarrow> string \<Rightarrow> int \<Rightarrow> runtime_event" where
  "demo_event kind created i host seq = event_draft.extend (demo_draft kind created)
     \<lparr>ev_event_id = i, ev_source_host = host, ev_source_sequence = seq\<rparr>"

lemma demo_event_fields [simp]:
  "ev_event_id (demo_event k c i h q) = i" "ev_source_host (demo_event k c i h q) = h"
  "ev_source_sequence (demo_event k c i h q) = q" "ed_kind (demo_event k c i h q) = k"
  "ed_created_at (demo_event k c i h q) = c" "ed_runtime_id (demo_event k c i h q) = ''r''"
  "ed_generation (demo_event k c i h q) = 1"
  by (simp_all add: demo_event_def demo_draft_def)

lemma demo_append:
  "k \<in> set EVENT_KINDS \<Longrightarrow> append_local (demo_draft k c) es =
     (let e = demo_event k c (es_last es + 1) (es_host es) (max_sequence es (es_host es) ''r'' 1 + 1) in
      (Inr e, es\<lparr>es_rows := es_rows es @ [e], es_last := es_last es + 1\<rparr>))"
  by (simp add: append_local_def validate_draft_def insert_event_def Let_def demo_event_def demo_draft_def)

lemma draft_round_trip: "draft_of_dict (draft_to_dict d) = Some d"
  by (simp add: draft_of_dict_def draft_to_dict_def field_str_def field_int_def payload_of_def dget_or_def)

lemma event_frame:
  "ev_source_host e \<noteq> [] \<Longrightarrow> ed_runtime_id e \<noteq> [] \<Longrightarrow> 0 < ev_source_sequence e \<Longrightarrow> ed_kind e \<in> set EVENT_KINDS \<Longrightarrow>
   remote_frame (event_to_dict e) = Some (event_draft.truncate e, ev_source_host e, ev_source_sequence e)"
  by (simp add: remote_frame_def event_to_dict_def draft_of_dict_def field_str_def field_int_def payload_of_def
      dget_or_def event_draft.truncate_def)

theorem replication_idempotent_witness:
  "ingest_all [event_to_dict (demo_event ''USAGE'' [] 7 ''far'' 3)]
     (ingest_all [event_to_dict (demo_event ''USAGE'' [] 7 ''far'' 3)] (run_events [] (empty_events ''h''))) =
   ingest_all [event_to_dict (demo_event ''USAGE'' [] 7 ''far'' 3)] (run_events [] (empty_events ''h'')) \<and>
   held (ingest_all [event_to_dict (demo_event ''USAGE'' [] 7 ''far'' 3)] (run_events [] (empty_events ''h''))) =
     {(''far'', ''r'', 1, 3)}"
proof -
  let ?f = "event_to_dict (demo_event ''USAGE'' [] 7 ''far'' 3)"
  have "set_option (remote_frame ?f) = {(event_draft.truncate (demo_event ''USAGE'' [] 7 ''far'' 3), ''far'', 3)}"
    by (simp add: event_frame EVENT_KINDS_def)
  then show ?thesis
    using replication_idempotent [of "[?f]" "[?f]" "[]" "''h''"]
    by (simp add: frame_key_def held_def run_events_def empty_events_def) (simp add: event_draft.truncate_def)
qed

section \<open>Retention\<close>

text \<open>
  A sweep does what it counts. It returns the number of rows it deleted; afterwards there are
  at most 100000 rows and none that has outlived its retention; rows are deleted for age or, above
  the limit, oldest first, so the rest is kept in order. While the log is within the limit the
  starts and ends of tools are never deleted, so the tool counts of a runtime stay as they were.
\<close>

theorem sweep_events_exact:
  "case sweep_events now es of (n, es') \<Rightarrow>
     n + length (es_rows es') = length (es_rows es) \<and> length (es_rows es') \<le> 100000 \<and>
     list_all (\<lambda>e. \<not> expired_event now e) (es_rows es') \<and>
     (\<exists>old. filter (\<lambda>e. \<not> expired_event now e) (es_rows es) = old @ es_rows es' \<and>
        (old = [] \<or> length (es_rows es') = 100000)) \<and>
     (100000 < length (es_rows es) \<or> ag_tool_count (aggregate rid gen es') = ag_tool_count (aggregate rid gen es))"
proof -
  define kept where "kept = filter (\<lambda>e. \<not> expired_event now e) (es_rows es)"
  have len: "length kept \<le> length (es_rows es)" by (simp add: kept_def)
  have tools: "filter (\<lambda>e. ed_kind e = ''TOOL_STARTED'') (of_generation rid gen (es\<lparr>es_rows := kept\<rparr>)) =
      filter (\<lambda>e. ed_kind e = ''TOOL_STARTED'') (of_generation rid gen es)"
    unfolding of_generation_def kept_def
    by (simp add: conj_commute conj_left_commute, rule filter_cong)
      (auto simp: expired_event_def EVENT_KIND_TOOL_UPDATE_def EVENT_KIND_TERMINAL_def)
  have s: "sweep_events now es = (length (es_rows es) - length (drop (length kept - 100000) kept),
      es\<lparr>es_rows := drop (length kept - 100000) kept\<rparr>)"
    by (simp add: sweep_events_def Let_def MAX_TOTAL_EVENTS_def kept_def)
  have "list_all (\<lambda>e. \<not> expired_event now e) (drop (length kept - 100000) kept)"
    by (auto simp: list_all_iff kept_def dest: in_set_dropD)
  moreover have "\<exists>old. kept = old @ drop (length kept - 100000) kept \<and>
      (old = [] \<or> length (drop (length kept - 100000) kept) = 100000)"
    by (rule exI [of _ "take (length kept - 100000) kept"]) auto
  moreover have "100000 < length (es_rows es) \<or>
      ag_tool_count (aggregate rid gen (es\<lparr>es_rows := drop (length kept - 100000) kept\<rparr>)) = ag_tool_count (aggregate rid gen es)"
    using len tools by (cases "length kept \<le> 100000") (simp_all add: aggregate_def Let_def)
  moreover have "length (es_rows es) - length (drop (length kept - 100000) kept) + length (drop (length kept - 100000) kept) =
      length (es_rows es)" "length (drop (length kept - 100000) kept) \<le> 100000"
    using len by simp_all
  ultimately show ?thesis unfolding s kept_def [symmetric] prod.case by (simp del: length_drop)
qed

text \<open>
  A sequence number can be given out twice: it is one more than the largest in the table, and the
  sweep may delete the row that has the largest. A host that holds the first event takes the second
  one for a repetition and drops it.
\<close>

lemma swept_sequence_reused:
  fixes late :: instant and c1 c2 :: string
  assumes "c1 < iso_format (late - TOOL_UPDATE_RETENTION_DAYS * 86400)"
  defines "es1 \<equiv> run_events [Append (demo_draft ''TOOL_UPDATED'' c1)] (empty_events ''h'')"
  defines "es2 \<equiv> run_events [Append (demo_draft ''TOOL_UPDATED'' c1), SweepEvents late, Append (demo_draft ''USAGE'' c2)]
      (empty_events ''h'')"
  shows "map event_key (es_rows es1) = [(''h'', ''r'', 1, 1)] \<and> map event_key (es_rows es2) = [(''h'', ''r'', 1, 1)] \<and>
    map ed_kind (es_rows es2) = [''USAGE''] \<and>
    ingest_all (map event_to_dict (es_rows es2)) (ingest_all (map event_to_dict (es_rows es1)) (empty_events ''g'')) =
      ingest_all (map event_to_dict (es_rows es1)) (empty_events ''g'')"
proof -
  let ?a = "demo_event ''TOOL_UPDATED'' c1 1 ''h'' 1" and ?b = "demo_event ''USAGE'' c2 2 ''h'' 1"
  have k: "''TOOL_UPDATED'' \<in> set EVENT_KINDS" "''USAGE'' \<in> set EVENT_KINDS" by (simp_all add: EVENT_KINDS_def)
  have 1: "es1 = \<lparr>es_host = ''h'', es_rows = [?a], es_last = 1\<rparr>"
    by (simp add: es1_def Let_def run_events_def demo_append k empty_events_def max_sequence_def)
  have 2: "es2 = \<lparr>es_host = ''h'', es_rows = [?b], es_last = 2\<rparr>"
    using assms(1)
    by (simp add: es2_def Let_def empty_events_def run_events_def demo_append k sweep_events_def expired_event_def
        EVENT_KIND_TOOL_UPDATE_def max_sequence_def)
  have f: "remote_frame (event_to_dict (demo_event x c i ''h'' 1)) =
      Some (event_draft.truncate (demo_event x c i ''h'' 1), ''h'', 1)" if "x \<in> set EVENT_KINDS" for x c i
    using that by (simp add: event_frame)
  have fk: "frame_key (event_draft.truncate (demo_event x c i ''h'' 1), ''h'', 1) = (''h'', ''r'', 1, 1)" for x c i
    by (simp add: frame_key_def event_draft.truncate_def)
  have "ingest_all [event_to_dict ?b] (ingest_all [event_to_dict ?a] (empty_events ''g'')) =
      ingest_all [event_to_dict ?a] (empty_events ''g'')"
    by (rule ingest_all_held) (simp add: held_ingest_all f k fk)
  then show ?thesis by (simp add: 1 2 event_key_def)
qed

end
