(* ===== verification/Gateway_Commands.thy ===== *)
theory Gateway_Commands
  imports Gateway_Control Gateway_Events Store_Session
begin

text \<open>
  The command state machine of the gateway (\<open>gateway/service.py\<close>): states and transitions, the
  acknowledgement of a command by the plugin of a runtime (\<open>runtime_command_ack\<close>) and the answer
  built from a command row. Parameters of a gateway method arrive as a JSON object; the model takes
  them decoded, with the defaults filled in.
\<close>

section \<open>States and transitions\<close>

definition CMD_STATES :: "string list" where
  "CMD_STATES = [''QUEUED'', ''CLAIMED'', ''REVIVING'', ''TRIGGERING'', ''TURN_TRIGGERED'', ''FAILED_SAFE'',
     ''AMBIGUOUS'', ''TRIGGER_UNKNOWN'']"

definition CMD_TRANSITIONS :: "string \<Rightarrow> string list" where
  "CMD_TRANSITIONS st =
     (if st = ''QUEUED'' then [''CLAIMED'', ''FAILED_SAFE'', ''AMBIGUOUS'']
      else if st = ''CLAIMED'' then [''REVIVING'', ''TRIGGERING'', ''FAILED_SAFE'', ''AMBIGUOUS'']
      else if st = ''REVIVING'' then [''TRIGGERING'', ''FAILED_SAFE'', ''AMBIGUOUS'']
      else if st = ''TRIGGERING'' then [''TURN_TRIGGERED'', ''AMBIGUOUS'', ''TRIGGER_UNKNOWN'']
      else [])"

definition CMD_STATUS_BY_STATE :: "string \<Rightarrow> string" where
  "CMD_STATUS_BY_STATE st =
     (if st = ''CLAIMED'' then ''claimed''
      else if st = ''REVIVING'' then ''session_live''
      else if st \<in> {''TRIGGERING'', ''AMBIGUOUS'', ''TRIGGER_UNKNOWN''} then ''ambiguous''
      else if st = ''TURN_TRIGGERED'' then ''turn_triggered''
      else if st = ''FAILED_SAFE'' then ''failed_safe''
      else ''mailbox_persisted'')"

definition CMD_ACK_CHAIN :: "string list" where
  "CMD_ACK_CHAIN = [''QUEUED'', ''CLAIMED'', ''REVIVING'', ''TRIGGERING'', ''TURN_TRIGGERED'']"

fun index_of :: "'a list \<Rightarrow> 'a \<Rightarrow> nat" where
  "index_of [] x = 0"
| "index_of (y # ys) x = (if y = x then 0 else Suc (index_of ys x))"

text \<open>The loop over the hops; the answer is the list of the states passed on the way.\<close>

fun chain_hops :: "string \<Rightarrow> string \<Rightarrow> string list \<Rightarrow> string list option" where
  "chain_hops target src [] = Some []"
| "chain_hops target src (hop # hops) =
     (if hop \<notin> set (CMD_TRANSITIONS src) then None
      else map_option (\<lambda>is. if hop \<noteq> target then hop # is else is) (chain_hops target hop hops))"

definition advance_ack_chain :: "string \<Rightarrow> string \<Rightarrow> (string \<times> string list) option" where
  "advance_ack_chain current target =
     (if current \<notin> set CMD_ACK_CHAIN \<or> target \<notin> set CMD_ACK_CHAIN then None
      else let i = index_of CMD_ACK_CHAIN current; j = index_of CMD_ACK_CHAIN target in
        if j \<le> i then None
        else map_option (Pair target) (chain_hops target current (take (j - i) (drop (i + 1) CMD_ACK_CHAIN))))"

section \<open>Answers\<close>

datatype gateway_error =
    GwError string
  | GwStore store_error
  | GwPark park_error
  | GwEvents event_error

record command_result =
  cr_request_id :: string
  cr_command_id :: string
  cr_msg_id :: string
  cr_turn_id :: string
  cr_runtime_id :: string
  cr_generation :: int
  cr_state :: string
  cr_status :: string
  cr_detail :: dict

definition command_result_of :: "command_row \<Rightarrow> command_result" where
  "command_result_of row =
     \<lparr>cr_request_id = cm_request_id row, cr_command_id = cm_command_id row, cr_msg_id = cm_msg_id row,
      cr_turn_id = cm_turn_id row, cr_runtime_id = cm_runtime_id row, cr_generation = cm_generation row,
      cr_state = cm_state row,
      cr_status = (if cm_state row = ''QUEUED'' \<and> dget (cm_detail row) ''gate'' = Some (JStr ''binding_pending'')
        then ''binding_pending'' else CMD_STATUS_BY_STATE (cm_state row)),
      cr_detail = cm_detail row\<rparr>"

section \<open>Acknowledgements\<close>

record ack_args =
  ak_request_id :: string
  ak_state :: string
  ak_runtime_id :: string
  ak_turn_id :: string
  ak_generation :: "int option"

definition ack_turn :: "ack_args \<Rightarrow> command_row \<Rightarrow> string" where
  "ack_turn a row = (if ak_turn_id a \<noteq> [] then ak_turn_id a else cm_turn_id row)"

text \<open>Writing an update and answering with the row as it is then.\<close>

definition answer_update ::
  "instant \<Rightarrow> string \<Rightarrow> command_update \<Rightarrow> control \<Rightarrow> (gateway_error + command_result) \<times> control" where
  "answer_update now req u c = (case update_command now req u c of
       (Some row, c1) \<Rightarrow> (Inr (command_result_of row), c1)
     | (None, c1) \<Rightarrow> (Inl (GwError ''NOT_FOUND''), c1))"

definition runtime_command_ack :: "instant \<Rightarrow> ack_args \<Rightarrow> control \<Rightarrow> (gateway_error + command_result) \<times> control" where
  "runtime_command_ack now a c =
     (if ak_request_id a = [] \<or> ak_state a \<notin> set CMD_STATES then (Inl (GwError ''PROTOCOL''), c)
      else case get_command (ak_request_id a) c of
        None \<Rightarrow> (Inl (GwError ''NOT_FOUND''), c)
      | Some row \<Rightarrow>
          if ak_runtime_id a \<noteq> [] \<and> ak_runtime_id a \<noteq> cm_runtime_id row then (Inl (GwError ''NOT_AUTHORIZED''), c)
          else if (case ak_generation a of Some g \<Rightarrow> g < cm_generation row | None \<Rightarrow> False)
          then (Inl (GwError ''GENERATION_STALE''), c)
          else if ak_state a \<in> set (CMD_TRANSITIONS (cm_state row))
          then answer_update now (ak_request_id a)
            (no_update\<lparr>cu_state := Some (ak_state a), cu_turn_id := Some (ack_turn a row),
              cu_detail := Some [(''ack'', JStr (ak_state a)), (''ack_at'', JStr (iso_format now))]\<rparr>) c
          else (case advance_ack_chain (cm_state row) (ak_state a) of
              None \<Rightarrow> (Inl (GwError ''PROTOCOL_CONFLICT''), c)
            | Some (final, through) \<Rightarrow> answer_update now (ak_request_id a)
                (no_update\<lparr>cu_state := Some final, cu_turn_id := Some (ack_turn a row),
                  cu_detail := Some [(''ack'', JStr (ak_state a)), (''ack_at'', JStr (iso_format now)),
                    (''advanced_from'', JStr (cm_state row)), (''advanced_through'', JArr (map JStr through))]\<rparr>) c))"

definition runtime_command_status :: "string \<Rightarrow> control \<Rightarrow> gateway_error + command_result" where
  "runtime_command_status req c =
     (if req = [] then Inl (GwError ''PROTOCOL'')
      else case get_command req c of
        None \<Rightarrow> Inl (GwError ''NOT_FOUND'')
      | Some row \<Rightarrow> Inr (command_result_of row))"

section \<open>The machine only moves forward\<close>

definition allowed :: "string \<Rightarrow> string \<Rightarrow> bool" where
  "allowed s t \<longleftrightarrow> t \<in> set (CMD_TRANSITIONS s)"

definition terminal_state :: "string \<Rightarrow> bool" where
  "terminal_state s \<longleftrightarrow> s \<in> {''TURN_TRIGGERED'', ''FAILED_SAFE'', ''AMBIGUOUS'', ''TRIGGER_UNKNOWN''}"

lemma terminal_stuck: "terminal_state s \<Longrightarrow> \<not> allowed s t"
  by (auto simp: terminal_state_def allowed_def CMD_TRANSITIONS_def)

lemma index_of_nth: "x \<in> set xs \<Longrightarrow> index_of xs x < length xs \<and> xs ! index_of xs x = x"
  by (induction xs) auto

lemma terminal_no_chain:
  assumes "terminal_state s"
  shows "advance_ack_chain s t = None"
proof (cases "s = ''TURN_TRIGGERED''")
  case True
  have "index_of CMD_ACK_CHAIN s = 4" by (simp add: True CMD_ACK_CHAIN_def)
  moreover have "index_of CMD_ACK_CHAIN t < 5" if "t \<in> set CMD_ACK_CHAIN"
    using index_of_nth [OF that] by (simp add: CMD_ACK_CHAIN_def)
  ultimately show ?thesis by (fastforce simp: advance_ack_chain_def Let_def)
next
  case False
  then have "s \<notin> set CMD_ACK_CHAIN" using assms by (auto simp: terminal_state_def CMD_ACK_CHAIN_def)
  then show ?thesis by (simp add: advance_ack_chain_def)
qed

lemma chain_hops_path: "chain_hops target src hops = Some is \<Longrightarrow> hops \<noteq> [] \<Longrightarrow> allowed\<^sup>+\<^sup>+ src (last hops)"
proof (induction hops arbitrary: src "is")
  case (Cons hop hops)
  from Cons.prems have a: "allowed src hop" and
    r: "hops \<noteq> [] \<Longrightarrow> \<exists>is. chain_hops target hop hops = Some is"
    by (auto simp: allowed_def split: if_splits)
  show ?case
  proof (cases "hops = []")
    case False
    with r Cons.IH have "allowed\<^sup>+\<^sup>+ hop (last hops)" by blast
    with a False show ?thesis by (simp add: tranclp_into_tranclp2)
  qed (use a in auto)
qed simp

lemma take_drop_last:
  assumes "x \<in> set xs" "i < index_of xs x"
  shows "take (index_of xs x - i) (drop (i + 1) xs) \<noteq> [] \<and> last (take (index_of xs x - i) (drop (i + 1) xs)) = x"
  using index_of_nth [OF assms(1)] assms(2) by (auto simp: last_conv_nth)

lemma advance_path:
  assumes "advance_ack_chain s t = Some (f, through)"
  shows "f = t \<and> allowed\<^sup>+\<^sup>+ s t"
proof -
  let ?i = "index_of CMD_ACK_CHAIN s" and ?j = "index_of CMD_ACK_CHAIN t"
  from assms have "t \<in> set CMD_ACK_CHAIN" "?i < ?j" "f = t"
    "chain_hops t s (take (?j - ?i) (drop (?i + 1) CMD_ACK_CHAIN)) = Some through"
    by (auto simp: advance_ack_chain_def Let_def split: if_splits)
  with take_drop_last [of t CMD_ACK_CHAIN ?i] chain_hops_path show ?thesis by metis
qed

lemma fst_update: "fst (update_command now req u c) = get_command req (snd (update_command now req u c))"
  by (simp add: update_command_def Let_def)

lemma answer_update_some:
  assumes "get_command req c = Some row" "u \<noteq> no_update"
  shows "fst (answer_update now req u c) = Inr (command_result_of (updated_row now u row))"
    and "snd (answer_update now req u c) = snd (update_command now req u c)"
  using assms get_updated [of req now req u c] fst_update [of now req u c]
  by (auto simp: answer_update_def split: prod.splits)

lemma some_update_ne [simp]: "no_update\<lparr>cu_state := Some x, cu_turn_id := y, cu_detail := z\<rparr> \<noteq> no_update"
  by (simp add: no_update_def)

text \<open>One acknowledgement: it is refused without effect, or moves its command along the transitions.\<close>

lemma ack_step:
  assumes "runtime_command_ack now a c = (res, c')"
  obtains (refused) e where "res = Inl e" "c' = c"
  | (moved) row row' where "get_command (ak_request_id a) c = Some row" "allowed\<^sup>+\<^sup>+ (cm_state row) (ak_state a)"
      "get_command (ak_request_id a) c' = Some row'" "res = Inr (command_result_of row')"
      "cm_state row' = ak_state a" "ak_runtime_id a \<in> {[], cm_runtime_id row}"
      "\<forall>g \<in> set_option (ak_generation a). cm_generation row \<le> g"
      "cm_command_id row' = cm_command_id row" "cm_payload_hash row' = cm_payload_hash row"
      "\<And>req. req \<noteq> ak_request_id a \<Longrightarrow> get_command req c' = get_command req c"
proof (cases "ak_request_id a = [] \<or> ak_state a \<notin> set CMD_STATES")
  case True
  then show ?thesis using assms by (auto simp: runtime_command_ack_def intro: refused)
next
  case args: False
  show ?thesis
  proof (cases "get_command (ak_request_id a) c")
    case None
    then show ?thesis using assms args by (auto simp: runtime_command_ack_def intro: refused)
  next
    case row: (Some row)
    have go: thesis if u: "runtime_command_ack now a c = answer_update now (ak_request_id a) u c"
        and p: "allowed\<^sup>+\<^sup>+ (cm_state row) (ak_state a)" "cu_state u = Some (ak_state a)"
        and ok: "ak_runtime_id a \<in> {[], cm_runtime_id row}" "\<forall>g \<in> set_option (ak_generation a). cm_generation row \<le> g" for u
    proof (rule moved [OF row p(1) _ _ _ ok])
      have ne: "u \<noteq> no_update" using p(2) by (auto simp: no_update_def)
      have eq: "res = Inr (command_result_of (updated_row now u row))" "c' = snd (update_command now (ak_request_id a) u c)"
        using answer_update_some [OF row ne, of now] assms by (simp_all add: u)
      show "get_command (ak_request_id a) c' = Some (updated_row now u row)" using ne row by (simp add: eq get_updated)
      show "res = Inr (command_result_of (updated_row now u row))" by (rule eq(1))
      show "get_command req c' = get_command req c" if "req \<noteq> ak_request_id a" for req
        using that by (simp add: eq get_updated)
    qed (simp_all add: updated_row_def p(2) keep_def)
    show ?thesis
    proof (cases "ak_runtime_id a \<noteq> [] \<and> ak_runtime_id a \<noteq> cm_runtime_id row \<or>
        (case ak_generation a of Some g \<Rightarrow> g < cm_generation row | None \<Rightarrow> False)")
      case True
      then show ?thesis using assms args row by (auto simp: runtime_command_ack_def intro: refused split: if_splits)
    next
      case fence: False
      then have ok: "ak_runtime_id a \<in> {[], cm_runtime_id row}" "\<forall>g \<in> set_option (ak_generation a). cm_generation row \<le> g"
        by (auto split: option.splits)
      define u1 where "u1 = no_update\<lparr>cu_state := Some (ak_state a), cu_turn_id := Some (ack_turn a row),
        cu_detail := Some [(''ack'', JStr (ak_state a)), (''ack_at'', JStr (iso_format now))]\<rparr>"
      define u2 where "u2 final through = no_update\<lparr>cu_state := Some final, cu_turn_id := Some (ack_turn a row),
        cu_detail := Some [(''ack'', JStr (ak_state a)), (''ack_at'', JStr (iso_format now)),
          (''advanced_from'', JStr (cm_state row)), (''advanced_through'', JArr (map JStr through))]\<rparr>" for final through
      have "\<not> (ak_runtime_id a \<noteq> [] \<and> ak_runtime_id a \<noteq> cm_runtime_id row)"
        "\<not> (case ak_generation a of Some g \<Rightarrow> g < cm_generation row | None \<Rightarrow> False)" using fence by blast+
      then have head: "runtime_command_ack now a c = (if ak_state a \<in> set (CMD_TRANSITIONS (cm_state row))
          then answer_update now (ak_request_id a) u1 c
          else case advance_ack_chain (cm_state row) (ak_state a) of
              None \<Rightarrow> (Inl (GwError ''PROTOCOL_CONFLICT''), c)
            | Some (final, through) \<Rightarrow> answer_update now (ak_request_id a) (u2 final through) c)"
        unfolding runtime_command_ack_def u1_def u2_def using args row by (simp only: if_False option.case)
      show ?thesis
      proof (cases "ak_state a \<in> set (CMD_TRANSITIONS (cm_state row))")
        case True
        then have "allowed (cm_state row) (ak_state a)" by (simp add: allowed_def)
        then have p: "allowed\<^sup>+\<^sup>+ (cm_state row) (ak_state a)" by blast
        show ?thesis by (rule go [OF _ p _ ok, of u1]) (simp_all add: head True u1_def)
      next
        case False
        show ?thesis
        proof (cases "advance_ack_chain (cm_state row) (ak_state a)")
          case None
          then show ?thesis using assms head False by (auto intro: refused)
        next
          case (Some ft)
          obtain f th where ft: "ft = (f, th)" by (cases ft)
          note adv = advance_path [OF Some [unfolded ft]]
          show ?thesis by (rule go [OF _ conjunct2 [OF adv] _ ok, of "u2 f th"]) (simp_all add: head False Some ft adv u2_def)
        qed
      qed
    qed
  qed
qed

fun run_acks :: "(instant \<times> ack_args) list \<Rightarrow> control \<Rightarrow> control" where
  "run_acks [] c = c"
| "run_acks ((now, a) # as) c = run_acks as (snd (runtime_command_ack now a c))"

lemma ack_row:
  assumes "get_command req c = Some row"
  shows "\<exists>row'. get_command req (snd (runtime_command_ack now a c)) = Some row' \<and>
    (row' = row \<or> allowed\<^sup>+\<^sup>+ (cm_state row) (cm_state row')) \<and>
    cm_command_id row' = cm_command_id row \<and> cm_payload_hash row' = cm_payload_hash row"
proof -
  obtain res c' where r: "runtime_command_ack now a c = (res, c')" by fastforce
  then show ?thesis
  proof (cases rule: ack_step)
    case refused
    then show ?thesis using assms r by simp
  next
    case (moved r0 r1)
    then show ?thesis using assms r by (cases "req = ak_request_id a") auto
  qed
qed

lemma tranclp_not_terminal: "allowed\<^sup>+\<^sup>+ s t \<Longrightarrow> \<not> terminal_state s"
  by (metis terminal_stuck tranclpD)


definition demo_command :: "string \<Rightarrow> command_row" where
  "demo_command st = \<lparr>cm_request_id = ''q'', cm_command_id = ''c'', cm_msg_id = [], cm_turn_id = [],
     cm_runtime_id = ''r'', cm_generation = 1, cm_payload_hash = ''h'', cm_state = st, cm_epoch = 0,
     cm_backend = [], cm_created_at = [], cm_updated_at = [], cm_detail = []\<rparr>"

definition demo_ack :: "string \<Rightarrow> ack_args" where
  "demo_ack st = \<lparr>ak_request_id = ''q'', ak_state = st, ak_runtime_id = ''r'', ak_turn_id = ''t'', ak_generation = Some 1\<rparr>"


text \<open>
  A plugin may skip states: from every unfinished state the report of a triggered turn is accepted,
  and the answer names the states in between.
\<close>

lemma triggered_from_anywhere:
  "advance_ack_chain ''QUEUED'' ''TURN_TRIGGERED'' = Some (''TURN_TRIGGERED'', [''CLAIMED'', ''REVIVING'', ''TRIGGERING''])"
  "advance_ack_chain ''CLAIMED'' ''TURN_TRIGGERED'' = Some (''TURN_TRIGGERED'', [''REVIVING'', ''TRIGGERING''])"
  "advance_ack_chain ''REVIVING'' ''TURN_TRIGGERED'' = Some (''TURN_TRIGGERED'', [''TRIGGERING''])"
  by (simp_all add: advance_ack_chain_def CMD_ACK_CHAIN_def CMD_TRANSITIONS_def)

end
