(* ===== verification/Gateway_Runtimes.thy ===== *)
theory Gateway_Runtimes
  imports Gateway_Commands Park_Router Mailbox_Service
begin

text \<open>
  The runtimes of the gateway (\<open>gateway/service.py\<close>): registration, declaration and start of a
  runtime, heartbeats, events, life cycle, the presence sweep, exclusive roles and the merge guard.

  The state of the gateway process is a record over the mailbox tree, the event library, the control
  store and the park registry. A method of the source runs under the lock of the table it changes
  and is one step. Parameters are decoded, with defaults filled in. A failure that the source only
  logs has no effect. Parameters of the model: the clock, random tokens, \<open>sha256\<close>, and what the
  runtime registry answers when it starts a process.
\<close>

section \<open>State\<close>

record runtime_record =
  rt_runtime_id :: string
  rt_session_id :: string
  rt_agent_id :: string
  rt_generation :: int
  rt_review_key :: string
  rt_backend :: string
  rt_host_alias :: string
  rt_runtime :: string
  rt_owner_pid :: int
  rt_nonce :: string
  rt_status :: string
  rt_created_at :: string
  rt_last_activity :: instant
  rt_started_at :: instant
  rt_spec :: dict
  rt_initial_task :: string
  rt_presence :: string
  rt_binding :: string
  rt_agent_state :: string
  rt_binding_epoch :: int
  rt_capabilities :: "string list"
  rt_model_context :: dict

definition new_runtime :: "string \<Rightarrow> string \<Rightarrow> string \<Rightarrow> int \<Rightarrow> runtime_record" where
  "new_runtime rid sid aid gen =
     \<lparr>rt_runtime_id = rid, rt_session_id = sid, rt_agent_id = aid, rt_generation = gen, rt_review_key = [],
      rt_backend = [], rt_host_alias = ''__local__'', rt_runtime = [], rt_owner_pid = 0, rt_nonce = [],
      rt_status = ''starting'', rt_created_at = [], rt_last_activity = 0, rt_started_at = 0, rt_spec = [],
      rt_initial_task = [], rt_presence = ''alive'', rt_binding = ''pending'', rt_agent_state = ''idle'',
      rt_binding_epoch = 0, rt_capabilities = [], rt_model_context = []\<rparr>"

record hub_peer =
  hp_peer_id :: string
  hp_session_id :: string
  hp_agent_id :: string
  hp_host_alias :: string
  hp_mailbox_root :: string
  hp_status :: string
  hp_registered_at :: instant

record role_claim =
  rc_owner :: string
  rc_claimed_at :: instant
  rc_expires_at :: instant

record gateway =
  gw_tree :: fs
  gw_events :: event_store
  gw_control :: control
  gw_park :: park
  gw_runtimes :: "(string \<times> runtime_record) list"
  gw_peers :: "(string \<times> hub_peer) list"
  gw_claims :: "(string \<times> role_claim) list"
  gw_merges :: "((string \<times> string) \<times> string) list"
  gw_peers_file :: "json option"
  gw_merges_file :: "json option"

definition offline_timeout :: instant where "offline_timeout = 300"
definition dead_timeout :: instant where "dead_timeout = 600"

definition put_runtime :: "runtime_record \<Rightarrow> gateway \<Rightarrow> gateway" where
  "put_runtime r gw = gw\<lparr>gw_runtimes := AList.update (rt_runtime_id r) r (gw_runtimes gw)\<rparr>"

definition require_runtime :: "string \<Rightarrow> gateway \<Rightarrow> gateway_error + runtime_record" where
  "require_runtime rid gw = (case map_of (gw_runtimes gw) rid of
       None \<Rightarrow> Inl (GwError ''NOT_FOUND'')
     | Some r \<Rightarrow> Inr r)"

text \<open>\<open>_persist_control_state\<close>: the state of a record goes to the control store; an empty context keeps the stored one.\<close>

definition persist_control_state :: "instant \<Rightarrow> runtime_record \<Rightarrow> gateway \<Rightarrow> gateway" where
  "persist_control_state now r gw = gw\<lparr>gw_control := upsert_generation now
     \<lparr>gn_runtime_id = rt_runtime_id r, gn_generation = rt_generation r, gn_nonce = rt_nonce r,
      gn_presence = rt_presence r, gn_binding = rt_binding r, gn_backend = rt_backend r,
      gn_epoch = rt_binding_epoch r, gn_agent_state = rt_agent_state r, gn_seq = 0, gn_updated_at = [],
      gn_context = []\<rparr>
     (if rt_model_context r = [] then None else Some (rt_model_context r)) (gw_control gw)\<rparr>"

definition mirror_review :: "instant \<Rightarrow> string \<Rightarrow> string \<Rightarrow> string \<Rightarrow> string \<Rightarrow> gateway \<Rightarrow> gateway" where
  "mirror_review now key sid rid aid gw =
     (if key = [] then gw else gw\<lparr>gw_control := upsert_review now key sid rid aid aid (gw_control gw)\<rparr>)"

definition record_draft :: "instant \<Rightarrow> runtime_record \<Rightarrow> string \<Rightarrow> dict \<Rightarrow> event_draft" where
  "record_draft now r ek payload =
     \<lparr>ed_runtime_id = rt_runtime_id r, ed_generation = rt_generation r, ed_session_id = rt_session_id r,
      ed_agent_id = rt_agent_id r, ed_request_id = [], ed_run_id = [], ed_kind = ek,
      ed_created_at = iso_format now, ed_payload = payload\<rparr>"

text \<open>Appending an event; the second form is guarded and ignores a refusal.\<close>

definition append_event :: "event_draft \<Rightarrow> gateway \<Rightarrow> (event_error + runtime_event) \<times> gateway" where
  "append_event d gw = (case append_local d (gw_events gw) of (res, es) \<Rightarrow> (res, gw\<lparr>gw_events := es\<rparr>))"

definition emit_event :: "event_draft \<Rightarrow> gateway \<Rightarrow> gateway" where
  "emit_event d gw = snd (append_event d gw)"

section \<open>Registration\<close>

record register_args =
  rg_session_id :: string
  rg_agent_id :: string
  rg_runtime_id :: string
  rg_generation :: int
  rg_review_key :: string
  rg_backend :: string
  rg_runtime :: string
  rg_owner_pid :: int
  rg_nonce :: string
  rg_capabilities :: "string list"

text \<open>The checks before the record is written.\<close>

definition owner_differs :: "register_args \<Rightarrow> runtime_record \<Rightarrow> bool" where
  "owner_differs a r \<longleftrightarrow> rg_generation a = rt_generation r \<and> (rt_owner_pid r \<noteq> 0 \<or> rt_nonce r \<noteq> []) \<and>
     (rt_owner_pid r \<noteq> rg_owner_pid a \<or> rt_nonce r \<noteq> rg_nonce a)"

definition register_checks :: "register_args \<Rightarrow> gateway \<Rightarrow> gateway_error option" where
  "register_checks a gw =
     (if rg_session_id a = [] \<or> rg_agent_id a = [] \<or> rg_runtime_id a = [] then Some (GwError ''NOT_AUTHORIZED'')
      else case map_of (gw_runtimes gw) (rg_runtime_id a) of
        Some r \<Rightarrow>
          if rg_generation a < rt_generation r then Some (GwError ''GENERATION_STALE'')
          else if owner_differs a r then Some (GwError ''OWNER_MISMATCH'')
          else None
      | None \<Rightarrow> None)"

definition roster_checks :: "register_args \<Rightarrow> gateway \<Rightarrow> gateway_error option" where
  "roster_checks a gw = (case read_session (rg_session_id a) (gw_tree gw) of
       Inl e \<Rightarrow> Some (GwStore e)
     | Inr None \<Rightarrow> Some (GwError ''NOT_AUTHORIZED'')
     | Inr (Some meta) \<Rightarrow> (case meta_roster meta of
           None \<Rightarrow> Some (GwStore PyTypeError)
         | Some roster \<Rightarrow> if rg_agent_id a \<notin> set roster then Some (GwError ''NOT_AUTHORIZED'') else None))"

definition next_epoch :: "string \<Rightarrow> runtime_record option \<Rightarrow> int" where
  "next_epoch backend old = (case old of
       Some r \<Rightarrow> if backend \<noteq> [] \<and> backend \<noteq> rt_backend r then rt_binding_epoch r + 1 else rt_binding_epoch r
     | None \<Rightarrow> if backend \<noteq> [] then 1 else 0)"

definition registered :: "instant \<Rightarrow> register_args \<Rightarrow> runtime_record option \<Rightarrow> runtime_record" where
  "registered now a old =
     (new_runtime (rg_runtime_id a) (rg_session_id a) (rg_agent_id a) (rg_generation a))
       \<lparr>rt_review_key := rg_review_key a, rt_backend := rg_backend a, rt_runtime := rg_runtime a,
        rt_owner_pid := rg_owner_pid a, rt_nonce := rg_nonce a, rt_status := ''active'',
        rt_created_at := iso_format now, rt_last_activity := now, rt_started_at := now,
        rt_presence := ''alive'', rt_binding := (if rg_backend a \<noteq> [] then ''bound'' else ''pending''),
        rt_agent_state := ''idle'', rt_binding_epoch := next_epoch (rg_backend a) old,
        rt_capabilities := rg_capabilities a,
        rt_spec := (case old of Some r \<Rightarrow> rt_spec r | None \<Rightarrow> []),
        rt_initial_task := (case old of Some r \<Rightarrow> rt_initial_task r | None \<Rightarrow> [])\<rparr>"

text \<open>Only a lease that is hot takes over the backend session; a registry error is ignored.\<close>

definition sync_park :: "instant \<Rightarrow> string \<Rightarrow> string \<Rightarrow> park \<Rightarrow> park" where
  "sync_park now key backend p =
     (if key = [] \<or> backend = [] then p
      else case lookup key (init_db p) of
        Inr (Some m) \<Rightarrow>
          if pm_lifecycle m = HOT_PARKED
          then snd (update now key (m\<lparr>pm_backend_session_id := backend, pm_lifecycle := HOT_PARKED\<rparr>) (init_db p))
          else init_db p
      | _ \<Rightarrow> init_db p)"

text \<open>
  The oldest task in the inbox: body, message id and command id. A file that cannot be decoded is
  passed over; one that is no object ends the scan.
\<close>

fun first_task :: "path \<Rightarrow> string list \<Rightarrow> fs \<Rightarrow> string \<times> string \<times> string" where
  "first_task d [] s = ([], [], [])"
| "first_task d (f # fs) s = (case load_at s (d @ [f]) of
       Loaded (JObj msg) \<Rightarrow>
         if dget msg ''kind'' = Some (JStr ''TASK'') then (sget msg ''body'', sget msg ''msg_id'', sget msg ''command_id'')
         else first_task d fs s
     | Loaded _ \<Rightarrow> ([], [], [])
     | _ \<Rightarrow> first_task d fs s)"

definition initial_task :: "string \<Rightarrow> string \<Rightarrow> fs \<Rightarrow> string \<times> string \<times> string" where
  "initial_task sid aid s =
     (if validate_agent_id aid \<and> validate_agent_id sid
      then first_task (inbox_dir sid aid) (list_messages (inbox_dir sid aid) s) s
      else ([], [], []))"

record register_result =
  rx_runtime_id :: string
  rx_session_id :: string
  rx_agent_id :: string
  rx_generation :: int
  rx_initial_task :: string
  rx_initial_msg_id :: string
  rx_initial_command_id :: string

definition runtime_register :: "instant \<Rightarrow> register_args \<Rightarrow> gateway \<Rightarrow> (gateway_error + register_result) \<times> gateway" where
  "runtime_register now a gw = (case register_checks a gw of
       Some e \<Rightarrow> (Inl e, gw)
     | None \<Rightarrow> (case roster_checks a gw of
         Some e \<Rightarrow> (Inl e, gw)
       | None \<Rightarrow>
           (let r = registered now a (map_of (gw_runtimes gw) (rg_runtime_id a));
                gw1 = mirror_review now (rg_review_key a) (rg_session_id a) (rg_runtime_id a) (rg_agent_id a)
                  (persist_control_state now r (put_runtime r gw));
                gw2 = gw1\<lparr>gw_park := sync_park now (rg_review_key a) (rg_backend a) (gw_park gw1)\<rparr> in
            case initial_task (rg_session_id a) (rg_agent_id a) (gw_tree gw2) of
              (task, mid, cid) \<Rightarrow>
                (let r1 = r\<lparr>rt_initial_task := task\<rparr> in
                 case append_event (record_draft now r1 ''RUNTIME_STATE''
                     [(''state'', JStr ''active''), (''runtime'', JStr (rg_runtime a)),
                      (''backend_session_id'', JStr (rg_backend a))]) (put_runtime r1 gw2) of
                   (Inl e, gw3) \<Rightarrow> (Inl (GwEvents e), gw3)
                 | (Inr _, gw3) \<Rightarrow> (Inr \<lparr>rx_runtime_id = rg_runtime_id a, rx_session_id = rg_session_id a,
                      rx_agent_id = rg_agent_id a, rx_generation = rg_generation a, rx_initial_task = task,
                      rx_initial_msg_id = mid, rx_initial_command_id = cid\<rparr>, gw3)))))"

section \<open>Declaring and starting a runtime\<close>

record declare_args =
  dl_review_key :: string
  dl_backend :: string
  dl_mode :: string
  dl_runtime_id :: string
  dl_agent_id :: string

definition find_declared :: "declare_args \<Rightarrow> gateway \<Rightarrow> runtime_record option" where
  "find_declared a gw =
     (case (if dl_runtime_id a = [] then None else map_of (gw_runtimes gw) (dl_runtime_id a)) of
        Some r \<Rightarrow> Some r
      | None \<Rightarrow> find (\<lambda>r. rt_backend r = dl_backend a) (map snd (gw_runtimes gw)))"

definition declared :: "(string \<Rightarrow> string) \<Rightarrow> instant \<Rightarrow> declare_args \<Rightarrow> string \<Rightarrow> runtime_record option \<Rightarrow> runtime_record" where
  "declared sha now a sid old = (case old of
       Some r \<Rightarrow> r\<lparr>rt_status := ''active'', rt_last_activity := now, rt_presence := ''alive'',
           rt_binding := ''bound'', rt_agent_state := ''idle''\<rparr>
     | None \<Rightarrow>
         (new_runtime (if dl_runtime_id a = [] then ''native-'' @ take 16 (sha (dl_backend a)) else dl_runtime_id a)
            sid (dl_agent_id a) 0)
           \<lparr>rt_review_key := dl_review_key a, rt_backend := dl_backend a, rt_runtime := ''native'',
            rt_status := ''active'', rt_created_at := iso_format now, rt_last_activity := now,
            rt_presence := ''alive'', rt_binding := ''bound'', rt_agent_state := ''idle'', rt_binding_epoch := 1\<rparr>)"

definition runtime_declare ::
  "(string \<Rightarrow> string) \<Rightarrow> instant \<Rightarrow> declare_args \<Rightarrow> gateway \<Rightarrow> (gateway_error + string \<times> string \<times> string) \<times> gateway" where
  "runtime_declare sha now a gw =
     (if dl_review_key a = [] then (Inl (GwError ''NOT_AUTHORIZED''), gw)
      else if dl_backend a = [] then (Inl (GwError ''NOT_AUTHORIZED''), gw)
      else (let gw0 = gw\<lparr>gw_park := init_db (gw_park gw)\<rparr> in
        case lookup (dl_review_key a) (gw_park gw0) of
          Inl e \<Rightarrow> (Inl (GwPark e), gw0)
        | Inr None \<Rightarrow> (Inl (GwError ''NOT_FOUND''), gw0)
        | Inr (Some m) \<Rightarrow>
            (let sid = pm_swarm_session_id m;
                 r = declared sha now a sid (find_declared a gw0);
                 gw1 = persist_control_state now r (put_runtime r gw0) in
             (Inr (rt_runtime_id r, rt_status r, dl_mode a),
              mirror_review now (dl_review_key a) sid (rt_runtime_id r) (dl_agent_id a) gw1))))"

record spawn_args =
  sp_runtime :: string
  sp_session_id :: string
  sp_agent_id :: string
  sp_review_key :: string
  sp_task :: string
  sp_params :: dict

record spawn_handle =
  sh_runtime_id :: string
  sh_generation :: int
  sh_backend :: string
  sh_host_alias :: string

definition spawned :: "instant \<Rightarrow> spawn_args \<Rightarrow> spawn_handle \<Rightarrow> runtime_record" where
  "spawned now a h =
     (new_runtime (sh_runtime_id h) (sp_session_id a) (sp_agent_id a) (sh_generation h))
       \<lparr>rt_review_key := sp_review_key a, rt_backend := sh_backend h, rt_host_alias := sh_host_alias h,
        rt_runtime := sp_runtime a, rt_status := ''active'', rt_created_at := iso_format now,
        rt_last_activity := now, rt_started_at := now, rt_spec := sp_params a, rt_initial_task := sp_task a,
        rt_presence := ''alive'', rt_binding := ''pending'', rt_agent_state := ''idle''\<rparr>"

text \<open>The runtime registry started the process and answered with the handle \<open>h\<close>.\<close>

definition runtime_spawn :: "instant \<Rightarrow> spawn_args \<Rightarrow> spawn_handle \<Rightarrow> gateway \<Rightarrow> gateway" where
  "runtime_spawn now a h gw =
     (let r = spawned now a h in
      mirror_review now (sp_review_key a) (sp_session_id a) (sh_runtime_id h) (sp_agent_id a)
        (persist_control_state now r (put_runtime r gw)))"

section \<open>Peers and their file\<close>

definition peer_to_json :: "hub_peer \<Rightarrow> json" where
  "peer_to_json p = JObj
     [(''peer_id'', JStr (hp_peer_id p)), (''session_id'', JStr (hp_session_id p)),
      (''agent_id'', JStr (hp_agent_id p)), (''host_alias'', JStr (hp_host_alias p)),
      (''mailbox_root'', JStr (hp_mailbox_root p)), (''status'', JStr (hp_status p)),
      (''registered_at'', JFloat (hp_registered_at p))]"

definition save_peers :: "gateway \<Rightarrow> gateway" where
  "save_peers gw = gw\<lparr>gw_peers_file := Some (JArr (map (peer_to_json \<circ> snd) (gw_peers gw)))\<rparr>"

text \<open>One entry of the file, as \<open>save_peers\<close> writes it. The gateway writes no others; on one the start would fail.\<close>

definition peer_of_json :: "json \<Rightarrow> hub_peer option" where
  "peer_of_json j = (case j of
       JObj d \<Rightarrow> do {
         pid \<leftarrow> field_str d ''peer_id''; sid \<leftarrow> field_str d ''session_id''; aid \<leftarrow> field_str d ''agent_id'';
         host \<leftarrow> field_str d ''host_alias''; mroot \<leftarrow> field_str d ''mailbox_root'';
         st \<leftarrow> (case dget_or d ''status'' (JStr ''unknown'') of JStr s \<Rightarrow> Some s | _ \<Rightarrow> None);
         reg \<leftarrow> field_num d ''registered_at'';
         Some \<lparr>hp_peer_id = pid, hp_session_id = sid, hp_agent_id = aid, hp_host_alias = host,
           hp_mailbox_root = mroot, hp_status = st, hp_registered_at = reg\<rparr> }
     | _ \<Rightarrow> None)"

fun restore_peer_list :: "json list \<Rightarrow> (string \<times> hub_peer) list \<Rightarrow> (string \<times> hub_peer) list" where
  "restore_peer_list [] ps = ps"
| "restore_peer_list (j # js) ps = (case peer_of_json j of
       None \<Rightarrow> ps
     | Some p \<Rightarrow> restore_peer_list js (if hp_peer_id p = [] then ps else AList.update (hp_peer_id p) p ps))"

definition restore_peers :: "gateway \<Rightarrow> gateway" where
  "restore_peers gw = (case gw_peers_file gw of
       Some (JArr js) \<Rightarrow> gw\<lparr>gw_peers := restore_peer_list js (gw_peers gw)\<rparr>
     | _ \<Rightarrow> gw)"

text \<open>The peers of an agent of a session follow its presence.\<close>

definition mark_peers :: "string \<Rightarrow> string \<Rightarrow> string \<Rightarrow> gateway \<Rightarrow> gateway" where
  "mark_peers sid aid st gw = gw\<lparr>gw_peers := map (\<lambda>(k, p).
     (k, if hp_agent_id p = aid \<and> hp_session_id p = sid then p\<lparr>hp_status := st\<rparr> else p)) (gw_peers gw)\<rparr>"

section \<open>Heartbeat, status, context\<close>

definition renew_park :: "instant \<Rightarrow> string \<Rightarrow> gateway \<Rightarrow> gateway" where
  "renew_park now key gw = (if key = [] then gw else gw\<lparr>gw_park := renew now key (init_db (gw_park gw))\<rparr>)"

definition runtime_heartbeat :: "instant \<Rightarrow> string \<Rightarrow> gateway \<Rightarrow> (gateway_error + string) \<times> gateway" where
  "runtime_heartbeat now rid gw = (case require_runtime rid gw of
       Inl e \<Rightarrow> (Inl e, gw)
     | Inr r \<Rightarrow>
         (if rt_status r = ''offline''
          then (let r1 = r\<lparr>rt_last_activity := now, rt_presence := ''alive'', rt_status := ''active''\<rparr>;
                    gw1 = emit_event (record_draft now r1 ''AGENT_STATUS''
                      [(''old_status'', JStr ''offline''), (''new_status'', JStr ''active''), (''reason'', JStr ''heartbeat'')])
                      (persist_control_state now r1 (put_runtime r1 gw));
                    gw2 = save_peers (mark_peers (rt_session_id r) (rt_agent_id r) ''online'' gw1) in
                (Inr ''active'', renew_park now (rt_review_key r) gw2))
          else (let r1 = r\<lparr>rt_last_activity := now, rt_presence := ''alive''\<rparr> in
                (Inr (rt_status r), renew_park now (rt_review_key r) (put_runtime r1 gw)))))"

record context_args =
  cx_runtime_id :: string
  cx_provider :: string
  cx_model :: string
  cx_variant :: string
  cx_epoch :: int
  cx_generation :: "int option"

definition model_context_of :: "context_args \<Rightarrow> dict" where
  "model_context_of a = [(''provider'', JStr (cx_provider a)), (''model'', JStr (cx_model a)),
     (''variant'', JStr (cx_variant a)), (''epoch'', JInt (cx_epoch a))]"

definition runtime_context_set :: "instant \<Rightarrow> context_args \<Rightarrow> gateway \<Rightarrow> (gateway_error + dict) \<times> gateway" where
  "runtime_context_set now a gw =
     (if cx_runtime_id a = [] then (Inl (GwError ''PROTOCOL''), gw)
      else case map_of (gw_runtimes gw) (cx_runtime_id a) of
        None \<Rightarrow> (Inl (GwError ''NOT_FOUND''), gw)
      | Some r \<Rightarrow>
          if (case cx_generation a of Some g \<Rightarrow> g \<noteq> rt_generation r | None \<Rightarrow> False)
          then (Inl (GwError ''GENERATION_STALE''), gw)
          else (let r1 = r\<lparr>rt_model_context := model_context_of a\<rparr> in
            (Inr (model_context_of a), persist_control_state now r1 (put_runtime r1 gw))))"

text \<open>The record with the latest activity; of several the first, as \<open>max\<close> does.\<close>

fun latest_record :: "runtime_record list \<Rightarrow> runtime_record option" where
  "latest_record [] = None"
| "latest_record (r # rs) = (case latest_record rs of
       None \<Rightarrow> Some r
     | Some x \<Rightarrow> if rt_last_activity r < rt_last_activity x then Some x else Some r)"

definition live_record :: "string \<Rightarrow> string \<Rightarrow> gateway \<Rightarrow> runtime_record option" where
  "live_record rid key gw =
     (if rid \<noteq> [] then (case map_of (gw_runtimes gw) rid of
          Some r \<Rightarrow> if rt_status r = ''stopped'' then None else Some r
        | None \<Rightarrow> None)
      else if key \<noteq> [] then latest_record (filter (\<lambda>r. rt_review_key r = key \<and> rt_status r \<noteq> ''stopped'')
        (map snd (gw_runtimes gw)))
      else None)"

definition runtime_context_get :: "string \<Rightarrow> string \<Rightarrow> gateway \<Rightarrow> gateway_error + string \<times> string \<times> dict" where
  "runtime_context_get rid key gw = (case live_record rid key gw of
       None \<Rightarrow> Inl (GwError ''NOT_FOUND'')
     | Some r \<Rightarrow> Inr (rt_runtime_id r, rt_review_key r, rt_model_context r))"

definition runtimes_list :: "string \<Rightarrow> gateway \<Rightarrow> runtime_record list" where
  "runtimes_list sid gw = map snd (filter (\<lambda>(_, r). sid = [] \<or> rt_session_id r = sid) (gw_runtimes gw))"

section \<open>Events and life cycle\<close>

definition report_states :: "event_draft \<Rightarrow> runtime_record \<Rightarrow> runtime_record" where
  "report_states d r =
     (let r1 = (if ed_kind d = ''TURN_STARTED'' then r\<lparr>rt_agent_state := ''agent_running''\<rparr> else r);
          r2 = (case dget (ed_payload d) ''agent_state'' of
              Some (JStr st) \<Rightarrow> if st \<in> {''agent_running'', ''idle'', ''ended''} then r1\<lparr>rt_agent_state := st\<rparr> else r1
            | _ \<Rightarrow> r1) in
      case dget (ed_payload d) ''binding'' of
        Some (JStr b) \<Rightarrow> if b \<in> {''bound'', ''pending'', ''lost''} then r2\<lparr>rt_binding := b\<rparr> else r2
      | _ \<Rightarrow> r2)"

definition same_states :: "runtime_record \<Rightarrow> runtime_record \<Rightarrow> bool" where
  "same_states r r' \<longleftrightarrow> rt_presence r = rt_presence r' \<and> rt_binding r = rt_binding r' \<and> rt_agent_state r = rt_agent_state r'"

text \<open>
  The branch that lets an event \<open>TURN_TRIGGERED\<close> advance its command.
\<close>

definition turn_triggered_event :: "instant \<Rightarrow> event_draft \<Rightarrow> gateway \<Rightarrow> gateway" where
  "turn_triggered_event now d gw =
     (let key = (if sget (ed_payload d) ''command_id'' \<noteq> [] then sget (ed_payload d) ''command_id'' else ed_request_id d) in
      if ed_kind d \<noteq> ''TURN_TRIGGERED'' \<or> key = [] then gw
      else case get_command key (gw_control gw) of
        None \<Rightarrow> gw
      | Some row \<Rightarrow>
          if cm_state row = ''TURN_TRIGGERED'' then gw
          else (case advance_ack_chain (cm_state row) ''TURN_TRIGGERED'' of
              None \<Rightarrow> gw
            | Some (final, through) \<Rightarrow> gw\<lparr>gw_control := snd (update_command now key
                (no_update\<lparr>cu_state := Some final,
                  cu_turn_id := Some (if sget (ed_payload d) ''turn_id'' \<noteq> [] then sget (ed_payload d) ''turn_id'' else cm_turn_id row),
                  cu_detail := Some [(''ack'', JStr ''TURN_TRIGGERED''), (''ack_at'', JStr (iso_format now)),
                    (''via'', JStr ''runtime_event''), (''advanced_from'', JStr (cm_state row)),
                    (''advanced_through'', JArr (map JStr through))]\<rparr>) (gw_control gw))\<rparr>))"

definition runtime_event_in :: "instant \<Rightarrow> event_draft \<Rightarrow> gateway \<Rightarrow> (gateway_error + int \<times> int) \<times> gateway" where
  "runtime_event_in now d gw = (case map_of (gw_runtimes gw) (ed_runtime_id d) of
       None \<Rightarrow> (Inl (GwError ''NOT_FOUND''), gw)
     | Some r \<Rightarrow>
         if ed_generation d \<noteq> rt_generation r then (Inl (GwError ''GENERATION_STALE''), gw)
         else (case append_event d gw of
             (Inl e, gw1) \<Rightarrow> (Inl (GwEvents e), gw1)
           | (Inr ev, gw1) \<Rightarrow>
               (let r0 = r\<lparr>rt_last_activity := now\<rparr>; r1 = report_states d r0; gw2 = put_runtime r1 gw1;
                    gw3 = (if same_states r0 r1 then gw2 else persist_control_state now r1 gw2) in
                (Inr (ev_event_id ev, ev_source_sequence ev), turn_triggered_event now d gw3))))"

definition LIFECYCLE_EVENTS :: "string list" where
  "LIFECYCLE_EVENTS = [''session_ready'', ''agent_start'', ''turn_start'', ''turn_end'', ''agent_end'',
     ''session_shutdown'', ''registry_parked'', ''registry_removed'', ''process_exit'', ''heartbeat'']"

definition reduce_lifecycle :: "runtime_record \<Rightarrow> string \<Rightarrow> runtime_record" where
  "reduce_lifecycle r ev =
     (if ev = ''heartbeat'' then r\<lparr>rt_presence := ''alive''\<rparr>
      else if ev = ''session_ready'' then r\<lparr>rt_presence := ''alive'', rt_agent_state := ''idle''\<rparr>
      else if ev \<in> {''agent_start'', ''turn_start''} then r\<lparr>rt_agent_state := ''agent_running''\<rparr>
      else if ev \<in> {''turn_end'', ''agent_end''} then r\<lparr>rt_agent_state := ''idle''\<rparr>
      else if ev \<in> {''session_shutdown'', ''registry_parked'', ''registry_removed'', ''process_exit''}
      then r\<lparr>rt_agent_state := ''ended''\<rparr>
      else r)"

definition runtime_lifecycle :: "instant \<Rightarrow> string \<Rightarrow> string \<Rightarrow> gateway \<Rightarrow> (gateway_error + runtime_record) \<times> gateway" where
  "runtime_lifecycle now rid ev gw =
     (if rid = [] \<or> ev \<notin> set LIFECYCLE_EVENTS then (Inl (GwError ''PROTOCOL''), gw)
      else case map_of (gw_runtimes gw) rid of
        None \<Rightarrow> (Inl (GwError ''NOT_FOUND''), gw)
      | Some r \<Rightarrow>
          (let r0 = (if ev = ''heartbeat'' then r\<lparr>rt_last_activity := now\<rparr> else r); r1 = reduce_lifecycle r0 ev in
           (Inr r1, emit_event (record_draft now r1 ''AGENT_STATUS''
              [(''lifecycle'', JStr ev), (''agent_state'', JStr (rt_agent_state r1)),
               (''presence'', JStr (rt_presence r1)), (''binding'', JStr (rt_binding r1))])
              (persist_control_state now r1 (put_runtime r1 gw)))))"

section \<open>Stopping\<close>

definition drop_runtime :: "string \<Rightarrow> gateway \<Rightarrow> gateway" where
  "drop_runtime rid gw = gw\<lparr>gw_runtimes := filter (\<lambda>(k, _). k \<noteq> rid) (gw_runtimes gw),
     gw_control := snd (delete_generation rid (gw_control gw))\<rparr>"

definition stopped_ids :: "(runtime_record \<Rightarrow> bool) \<Rightarrow> gateway \<Rightarrow> string list" where
  "stopped_ids P gw = map fst (filter (\<lambda>(_, r). rt_status r = ''stopped'' \<and> P r) (gw_runtimes gw))"

definition purge_stopped_for_key :: "string \<Rightarrow> string \<Rightarrow> gateway \<Rightarrow> string list \<times> gateway" where
  "purge_stopped_for_key key keep_id gw =
     (let ids = filter (\<lambda>k. k \<noteq> keep_id) (stopped_ids (\<lambda>r. rt_review_key r = key) gw) in
      (ids, fold drop_runtime ids gw))"

definition runtime_stop :: "instant \<Rightarrow> string \<Rightarrow> string \<Rightarrow> gateway \<Rightarrow> (gateway_error + string) \<times> gateway" where
  "runtime_stop now rid reason gw = (case require_runtime rid gw of
       Inl e \<Rightarrow> (Inl e, gw)
     | Inr r \<Rightarrow>
         (let r1 = r\<lparr>rt_status := ''stopped'', rt_agent_state := ''ended'', rt_presence := ''dead''\<rparr> in
          case append_event (record_draft now r1 ''RUNTIME_STATE'' [(''state'', JStr ''stopped''), (''reason'', JStr reason)])
              (persist_control_state now r1 (put_runtime r1 gw)) of
            (Inl e, gw1) \<Rightarrow> (Inl (GwEvents e), gw1)
          | (Inr _, gw1) \<Rightarrow> (Inr ''stopped'',
              if rt_review_key r = [] then gw1 else snd (purge_stopped_for_key (rt_review_key r) rid gw1))))"

definition runtime_purge_stopped :: "string \<Rightarrow> gateway \<Rightarrow> (gateway_error + string list) \<times> gateway" where
  "runtime_purge_stopped key gw =
     (if key = [] then (Inl (GwError ''PROTOCOL''), gw)
      else case purge_stopped_for_key key [] gw of (ids, gw1) \<Rightarrow> (Inr ids, gw1))"

section \<open>The presence sweep\<close>

text \<open>
  A runtime in its first three minutes has twice the time. Its creation time ends in \<open>Z\<close>, which
  \<open>fromisoformat\<close> reads since Python 3.11.
\<close>

definition timeout_of :: "instant \<Rightarrow> runtime_record \<Rightarrow> instant" where
  "timeout_of now r = (case (if rt_created_at r = [] then None else fromisoformat (rt_created_at r)) of
       Some t \<Rightarrow> if now - t < 180 then offline_timeout * 2 else offline_timeout
     | None \<Rightarrow> offline_timeout)"

definition goes_offline :: "instant \<Rightarrow> runtime_record \<Rightarrow> bool" where
  "goes_offline now r \<longleftrightarrow> rt_status r = ''active'' \<and> timeout_of now r < now - rt_last_activity r"

definition goes_dead :: "instant \<Rightarrow> runtime_record \<Rightarrow> bool" where
  "goes_dead now r \<longleftrightarrow> rt_status r = ''offline'' \<and> rt_presence r = ''stale'' \<and> 0 < rt_last_activity r \<and>
     dead_timeout < now - rt_last_activity r"

definition mark_offline :: "instant \<Rightarrow> string \<times> runtime_record \<Rightarrow> gateway \<Rightarrow> gateway" where
  "mark_offline now kr gw = (case kr of (_, r) \<Rightarrow>
     if \<not> goes_offline now r then gw
     else (let r1 = r\<lparr>rt_status := ''offline'', rt_presence := ''stale''\<rparr> in
       persist_control_state now r1 (emit_event (record_draft now r1 ''AGENT_STATUS''
         [(''old_status'', JStr ''active''), (''new_status'', JStr ''offline''), (''reason'', JStr ''heartbeat_timeout''),
          (''last_activity'', JFloat (rt_last_activity r)), (''presence'', JStr (rt_presence r1)),
          (''binding'', JStr (rt_binding r)), (''agent_state'', JStr (rt_agent_state r))]) (put_runtime r1 gw))))"

definition mark_dead :: "instant \<Rightarrow> string \<times> runtime_record \<Rightarrow> gateway \<Rightarrow> gateway" where
  "mark_dead now kr gw = (case kr of (_, r) \<Rightarrow>
     if \<not> goes_dead now r then gw
     else (let r1 = r\<lparr>rt_presence := ''dead''\<rparr> in persist_control_state now r1 (put_runtime r1 gw)))"

definition sweep_once :: "instant \<Rightarrow> gateway \<Rightarrow> string list \<times> gateway" where
  "sweep_once now gw =
     (let offline = filter (\<lambda>(_, r). goes_offline now r) (gw_runtimes gw);
          gw1 = fold (mark_offline now) (gw_runtimes gw) gw;
          gw2 = fold (mark_dead now) (gw_runtimes gw1) gw1;
          gw3 = fold drop_runtime (stopped_ids (\<lambda>_. True) gw2) gw2;
          gw4 = gw3\<lparr>gw_claims := filter (\<lambda>(_, c). now < rc_expires_at c) (gw_claims gw3)\<rparr>;
          gw5 = fold (\<lambda>(_, r). mark_peers (rt_session_id r) (rt_agent_id r) ''offline'') offline gw4 in
      (map fst offline, if offline = [] then gw5 else save_peers gw5))"

section \<open>Exclusive roles\<close>

definition claim_key :: "string \<Rightarrow> string \<Rightarrow> string" where
  "claim_key sid aid = sid @ '':'' @ aid"

definition session_claim ::
  "instant \<Rightarrow> string \<Rightarrow> string \<Rightarrow> string \<Rightarrow> rat \<Rightarrow> gateway \<Rightarrow> (gateway_error + role_claim) \<times> gateway" where
  "session_claim now sid aid owner ttl gw =
     (if sid = [] \<or> aid = [] \<or> owner = [] then (Inl (GwError ''PROTOCOL''), gw)
      else if ttl \<le> 0 \<or> 86400 < ttl then (Inl (GwError ''PROTOCOL''), gw)
      else if (case map_of (gw_claims gw) (claim_key sid aid) of
          Some c \<Rightarrow> rc_owner c \<noteq> owner \<and> now < rc_expires_at c | None \<Rightarrow> False)
      then (Inl (GwError ''PROTOCOL_CONFLICT''), gw)
      else (let c = \<lparr>rc_owner = owner, rc_claimed_at = now, rc_expires_at = now + ttl\<rparr> in
        (Inr c, gw\<lparr>gw_claims := AList.update (claim_key sid aid) c (gw_claims gw)\<rparr>)))"

definition session_release :: "string \<Rightarrow> string \<Rightarrow> string \<Rightarrow> gateway \<Rightarrow> (gateway_error + bool) \<times> gateway" where
  "session_release sid aid owner gw = (case map_of (gw_claims gw) (claim_key sid aid) of
       None \<Rightarrow> (Inr False, gw)
     | Some c \<Rightarrow>
         if owner \<noteq> [] \<and> rc_owner c \<noteq> owner then (Inl (GwError ''NOT_AUTHORIZED''), gw)
         else (Inr True, gw\<lparr>gw_claims := filter (\<lambda>(k, _). k \<noteq> claim_key sid aid) (gw_claims gw)\<rparr>))"

section \<open>The merge guard\<close>

definition merge_to_json :: "(string \<times> string) \<times> string \<Rightarrow> json" where
  "merge_to_json m = (case m of ((s, t), h) \<Rightarrow>
     JObj [(''session_id'', JStr s), (''target_path'', JStr t), (''artifact_sha256'', JStr h)])"

definition save_merges :: "gateway \<Rightarrow> gateway" where
  "save_merges gw = gw\<lparr>gw_merges_file := Some (JArr (map merge_to_json (gw_merges gw)))\<rparr>"

definition merge_of_json :: "json \<Rightarrow> ((string \<times> string) \<times> string) option" where
  "merge_of_json j = (case j of
       JObj d \<Rightarrow> do { s \<leftarrow> field_str d ''session_id''; t \<leftarrow> field_str d ''target_path''; h \<leftarrow> field_str d ''artifact_sha256'';
         Some ((s, t), h) }
     | _ \<Rightarrow> None)"

fun restore_merge_list ::
  "json list \<Rightarrow> ((string \<times> string) \<times> string) list \<Rightarrow> ((string \<times> string) \<times> string) list" where
  "restore_merge_list [] ms = ms"
| "restore_merge_list (j # js) ms = (case merge_of_json j of
       None \<Rightarrow> ms
     | Some ((s, t), h) \<Rightarrow> restore_merge_list js
         (if s \<noteq> [] \<and> t \<noteq> [] \<and> h \<noteq> [] then AList.update (s, t) h ms else ms))"

definition restore_merges :: "gateway \<Rightarrow> gateway" where
  "restore_merges gw = (case gw_merges_file gw of
       Some (JArr js) \<Rightarrow> gw\<lparr>gw_merges := restore_merge_list js (gw_merges gw)\<rparr>
     | _ \<Rightarrow> gw)"

definition write_merge :: "string \<Rightarrow> string \<Rightarrow> string \<Rightarrow> gateway \<Rightarrow> (gateway_error + unit) \<times> gateway" where
  "write_merge sid target sha gw =
     (if sid = [] \<or> target = [] \<or> sha = [] then (Inl (GwError ''NOT_FOUND''), gw)
      else case map_of (gw_merges gw) (sid, target) of
        Some h \<Rightarrow> if h \<noteq> sha then (Inl (GwError ''PROTOCOL_CONFLICT''), gw)
          else (Inr (), save_merges (gw\<lparr>gw_merges := AList.update (sid, target) sha (gw_merges gw)\<rparr>))
      | None \<Rightarrow> (Inr (), save_merges (gw\<lparr>gw_merges := AList.update (sid, target) sha (gw_merges gw)\<rparr>)))"

definition merge_reset :: "string \<Rightarrow> string \<Rightarrow> gateway \<Rightarrow> (gateway_error + nat) \<times> gateway" where
  "merge_reset sid target gw =
     (if sid = [] then (Inl (GwError ''NOT_FOUND''), gw)
      else (let hit = (\<lambda>((s, t), _). s = sid \<and> (target = [] \<or> t = target));
                n = length (filter hit (gw_merges gw));
                gw1 = gw\<lparr>gw_merges := filter (\<lambda>m. \<not> hit m) (gw_merges gw)\<rparr> in
            (Inr n, if n = 0 then gw1 else save_merges gw1)))"

text \<open>\<open>write_parse_body\<close>, from the decoded body.\<close>

definition write_parse_body :: "json option \<Rightarrow> dict" where
  "write_parse_body doc = (case doc of
       Some (JObj d) \<Rightarrow> concat (map (\<lambda>k. case dget d k of
           Some (JStr v) \<Rightarrow> if v = [] then [] else [(k, JStr v)]
         | _ \<Rightarrow> []) [''base_revision'', ''target_path'', ''artifact_id''])
     | _ \<Rightarrow> [])"

section \<open>Hot delivery\<close>

text \<open>\<open>_normalize_capability\<close>: a suffix \<open>_v\<close> with digits is cut off.\<close>

definition rpartition :: "char \<Rightarrow> string \<Rightarrow> (string \<times> string) option" where
  "rpartition c s = (if c \<notin> set s then None
     else Some (rev (tl (dropWhile (\<lambda>x. x \<noteq> c) (rev s))), rev (takeWhile (\<lambda>x. x \<noteq> c) (rev s))))"

definition normalize_capability :: "string \<Rightarrow> string" where
  "normalize_capability name = (case rpartition (CHR ''_'') name of
       Some (base, ver) \<Rightarrow> if prefix ''v'' ver \<and> py_isdigit (tl ver) then base else name
     | None \<Rightarrow> name)"

definition HOT_REQUIRED_CAPABILITIES :: "string list" where
  "HOT_REQUIRED_CAPABILITIES = [''park_revive'', ''correlated_turn_ack'']"

definition gw_is_hot :: "runtime_record \<Rightarrow> bool" where
  "gw_is_hot r \<longleftrightarrow> rt_presence r = ''alive'' \<and> rt_binding r = ''bound'' \<and>
     rt_agent_state r \<in> {''agent_running'', ''idle'', ''ended''} \<and> rt_runtime r \<in> {[], ''omp''} \<and>
     (rt_capabilities r = [] \<or> set HOT_REQUIRED_CAPABILITIES \<subseteq> normalize_capability ` set (rt_capabilities r))"

section \<open>Restart\<close>

text \<open>
  \<open>_restore_runtimes_from_park\<close>; \<open>toks\<close> are the random suffixes, one for each manifest.
\<close>

definition park_runtime_id :: "string \<Rightarrow> string \<Rightarrow> string" where
  "park_runtime_id key tok =
     (let slug = map (\<lambda>c. if c = CHR '':'' then CHR ''-'' else c) key in
      if 24 \<le> length slug then ''park-'' @ drop (length slug - 24) slug else ''park-'' @ slug @ ''-'' @ tok)"

definition or_else :: "string \<Rightarrow> string \<Rightarrow> string" where
  "or_else s d = (if s = [] then d else s)"

definition restored_runtime :: "control \<Rightarrow> string \<Rightarrow> park_manifest \<Rightarrow> runtime_record" where
  "restored_runtime c rid m =
     (new_runtime rid (pm_swarm_session_id m) (or_else (pm_mailbox_agent_id m) ''oracle'') (pm_round m + 1))
       \<lparr>rt_review_key := pm_review_key m, rt_backend := pm_backend_session_id m,
        rt_host_alias := or_else (pm_host m) ''__local__'', rt_runtime := or_else (pm_agent_type m) ''omp'',
        rt_status := ''unknown'',
        rt_created_at := (if pm_created_at m = 0 then [] else iso_format (pm_created_at m)),
        rt_last_activity := 0, rt_started_at := pm_created_at m, rt_presence := ''stale'',
        rt_binding := ''bound'', rt_agent_state := ''ended'',
        rt_model_context := (case get_generation rid c of Some g \<Rightarrow> gn_context g | None \<Rightarrow> [])\<rparr>"

fun restore_manifests :: "instant \<Rightarrow> (park_manifest \<times> string) list \<Rightarrow> gateway \<Rightarrow> gateway" where
  "restore_manifests now [] gw = gw"
| "restore_manifests now ((m, tok) # ms) gw =
     (let rid = park_runtime_id (pm_review_key m) tok in
      if pm_swarm_session_id m = [] \<or> pm_backend_session_id m = [] \<or> map_of (gw_runtimes gw) rid \<noteq> None
      then restore_manifests now ms gw
      else (let r = restored_runtime (gw_control gw) rid m in
            restore_manifests now ms (persist_control_state now r (put_runtime r gw))))"

definition restore_runtimes_from_park :: "instant \<Rightarrow> string list \<Rightarrow> gateway \<Rightarrow> gateway" where
  "restore_runtimes_from_park now toks gw =
     (let gw0 = gw\<lparr>gw_park := init_db (gw_park gw)\<rparr> in
      case list_active (gw_park gw0) of
        Inl _ \<Rightarrow> gw0
      | Inr ms \<Rightarrow> restore_manifests now (zip ms toks) gw0)"

text \<open>What a new gateway process starts with, on the files of the last one.\<close>

definition gateway_start :: "instant \<Rightarrow> string list \<Rightarrow> gateway \<Rightarrow> gateway" where
  "gateway_start now toks gw =
     (let gw0 = gw\<lparr>gw_runtimes := [], gw_peers := [], gw_claims := [], gw_merges := []\<rparr> in
      restore_runtimes_from_park now toks (restore_merges (restore_peers gw0)))"

end
