(* ===== verification/Gateway_Safety.thy ===== *)
theory Gateway_Safety
  imports Gateway_Runtimes
begin

text \<open>
  What the gateway guarantees about its runtimes, over any sequence of its methods: older owners of
  a runtime are fenced off, the presence sweep is exact, a role has one owner at a time, conflicting
  writes are refused across restarts, and a restart brings back no runtime as live.
\<close>

section \<open>The table of runtimes\<close>

datatype gateway_op =
    Register register_args
  | Declare "string \<Rightarrow> string" declare_args
  | Heartbeat string
  | SetContext context_args
  | Event event_draft
  | Lifecycle string string
  | Stop string string
  | PurgeStopped string
  | Sweep
  | Claim string string string rat
  | Release string string string
  | Merge string string string
  | MergeReset string string
  | Restart "string list"

fun gateway_step :: "instant \<Rightarrow> gateway_op \<Rightarrow> gateway \<Rightarrow> gateway" where
  "gateway_step now (Register a) gw = snd (runtime_register now a gw)"
| "gateway_step now (Declare sha a) gw = snd (runtime_declare sha now a gw)"
| "gateway_step now (Heartbeat rid) gw = snd (runtime_heartbeat now rid gw)"
| "gateway_step now (SetContext a) gw = snd (runtime_context_set now a gw)"
| "gateway_step now (Event d) gw = snd (runtime_event_in now d gw)"
| "gateway_step now (Lifecycle rid ev) gw = snd (runtime_lifecycle now rid ev gw)"
| "gateway_step now (Stop rid reason) gw = snd (runtime_stop now rid reason gw)"
| "gateway_step now (PurgeStopped key) gw = snd (runtime_purge_stopped key gw)"
| "gateway_step now Sweep gw = snd (sweep_once now gw)"
| "gateway_step now (Claim sid aid owner ttl) gw = snd (session_claim now sid aid owner ttl gw)"
| "gateway_step now (Release sid aid owner) gw = snd (session_release sid aid owner gw)"
| "gateway_step now (Merge sid target sha) gw = snd (write_merge sid target sha gw)"
| "gateway_step now (MergeReset sid target) gw = snd (merge_reset sid target gw)"
| "gateway_step now (Restart toks) gw = gateway_start now toks gw"

definition run_gateway :: "(instant \<times> gateway_op) list \<Rightarrow> gateway \<Rightarrow> gateway" where
  "run_gateway ops gw = fold (\<lambda>(now, op). gateway_step now op) ops gw"

section \<open>What the methods for runtimes leave alone\<close>

text \<open>
  An event of kind \<open>TURN_TRIGGERED\<close> never reaches the branch that handles it: the kind is not among
  the known ones, so the event is refused before.
\<close>

lemma turn_triggered_event_refused:
  assumes "ed_kind d = ''TURN_TRIGGERED''"
  shows "\<exists>e. runtime_event_in now d gw = (Inl e, gw)"
proof -
  have "validate_draft d = Some EvProtocol" using assms by (simp add: validate_draft_def EVENT_KINDS_def)
  then show ?thesis
    by (auto simp: runtime_event_in_def append_event_def append_local_def split: option.split)
qed

lemma commands_kept [simp]:
  "ct_commands (upsert_generation now g ctx c) = ct_commands c" "ct_commands (upsert_review now k i r p a c) = ct_commands c"
  "ct_commands (snd (delete_generation rid c)) = ct_commands c"
  by (simp_all add: upsert_generation_def upsert_review_def delete_generation_def Let_def)

text \<open>
  A part of the gateway that does not depend on the events, the park registry, the runtimes, the
  peers and, in the control store, on more than the commands, is kept by every method that works on
  runtimes.
\<close>

locale runtime_frame =
  fixes view :: "gateway \<Rightarrow> 'v"
  assumes control: "ct_commands c = ct_commands (gw_control gw) \<Longrightarrow> view (gw\<lparr>gw_control := c\<rparr>) = view gw"
    and events: "view (gw\<lparr>gw_events := es\<rparr>) = view gw"
    and park: "view (gw\<lparr>gw_park := p\<rparr>) = view gw"
    and runtimes: "view (gw\<lparr>gw_runtimes := rs\<rparr>) = view gw"
    and peers: "view (gw\<lparr>gw_peers := ps\<rparr>) = view gw"
    and peers_file: "view (gw\<lparr>gw_peers_file := f\<rparr>) = view gw"
begin

lemma small_steps:
  "view (persist_control_state now r gw) = view gw" "view (mirror_review now k s i a gw) = view gw"
  "view (snd (append_event d gw)) = view gw" "view (emit_event d gw) = view gw" "view (put_runtime r gw) = view gw"
  "view (save_peers gw) = view gw" "view (mark_peers s a st gw) = view gw" "view (renew_park now k gw) = view gw"
  by (simp_all add: persist_control_state_def mirror_review_def append_event_def emit_event_def put_runtime_def
      save_peers_def mark_peers_def renew_park_def control events park runtimes peers peers_file split: prod.splits)

lemma drop: "view (drop_runtime i gw) = view gw"
  by (simp add: drop_runtime_def control runtimes)

lemma drops: "view (fold drop_runtime ids gw) = view gw"
  by (induction ids arbitrary: gw) (simp_all add: drop)

lemma turn: "ed_kind d \<noteq> ''TURN_TRIGGERED'' \<Longrightarrow> view (turn_triggered_event now d gw) = view gw"
  by (simp add: turn_triggered_event_def Let_def)

lemma marks:
  "view (fold (mark_offline now) rows gw) = view gw" "view (fold (mark_dead now) rows gw) = view gw"
  "view (fold (\<lambda>(_, r). mark_peers (rt_session_id r) (rt_agent_id r) st) rows gw) = view gw"
  by (induction rows arbitrary: gw)
    (auto simp: mark_offline_def mark_dead_def Let_def small_steps split: prod.splits)

lemmas steps = small_steps drop drops turn marks control events park runtimes peers peers_file

lemma register: "view (snd (runtime_register now a gw)) = view gw"
  by (auto simp: runtime_register_def Let_def steps append_event_def split: option.splits prod.splits sum.splits)

lemma declare_rt: "view (snd (runtime_declare sha now a gw)) = view gw"
  by (auto simp: runtime_declare_def Let_def steps split: option.splits sum.splits)

lemma heartbeat: "view (snd (runtime_heartbeat now rid gw)) = view gw"
  by (auto simp: runtime_heartbeat_def Let_def steps split: sum.splits)

lemma set_context: "view (snd (runtime_context_set now x gw)) = view gw"
  by (auto simp: runtime_context_set_def Let_def steps split: option.splits)

lemma event_in: "view (snd (runtime_event_in now d gw)) = view gw"
proof (cases "ed_kind d = ''TURN_TRIGGERED''")
  case True
  then show ?thesis using turn_triggered_event_refused [of d now gw] by auto
next
  case False
  then show ?thesis
    by (auto simp: runtime_event_in_def Let_def steps append_event_def split: option.splits prod.splits sum.splits)
qed

lemma life: "view (snd (runtime_lifecycle now rid ev gw)) = view gw"
  by (auto simp: runtime_lifecycle_def Let_def steps split: option.splits)

lemma stop: "view (snd (runtime_stop now rid reason gw)) = view gw"
  by (auto simp: runtime_stop_def Let_def steps append_event_def purge_stopped_for_key_def split: option.splits prod.splits sum.splits)

lemma purge: "view (snd (runtime_purge_stopped k gw)) = view gw"
  by (auto simp: runtime_purge_stopped_def purge_stopped_for_key_def Let_def steps)

end

interpretation claims: runtime_frame gw_claims
  by unfold_locales simp_all

interpretation merges: runtime_frame "\<lambda>gw. (gw_merges gw, gw_merges_file gw)"
  by unfold_locales simp_all

interpretation tree: runtime_frame gw_tree
  by unfold_locales simp_all

interpretation commands: runtime_frame "\<lambda>gw. ct_commands (gw_control gw)"
  by unfold_locales simp_all

section \<open>The table itself\<close>

lemma runtimes_simps [simp]:
  "gw_runtimes (persist_control_state now r gw) = gw_runtimes gw" "gw_runtimes (mirror_review now k s i a gw) = gw_runtimes gw"
  "gw_runtimes (snd (append_event d gw)) = gw_runtimes gw" "gw_runtimes (emit_event d gw) = gw_runtimes gw"
  "gw_runtimes (put_runtime r gw) = AList.update (rt_runtime_id r) r (gw_runtimes gw)"
  "gw_runtimes (save_peers gw) = gw_runtimes gw" "gw_runtimes (mark_peers s a st gw) = gw_runtimes gw"
  "gw_runtimes (renew_park now k gw) = gw_runtimes gw"
  "gw_runtimes (drop_runtime i gw) = filter (\<lambda>(k, _). k \<noteq> i) (gw_runtimes gw)"
  "gw_runtimes (turn_triggered_event now d gw) = gw_runtimes gw"
  by (simp_all add: persist_control_state_def mirror_review_def append_event_def emit_event_def put_runtime_def
      save_peers_def mark_peers_def renew_park_def drop_runtime_def turn_triggered_event_def Let_def
      split: prod.splits option.splits)

lemma drops_runtimes [simp]:
  "gw_runtimes (fold drop_runtime ids gw) = filter (\<lambda>(k, _). k \<notin> set ids) (gw_runtimes gw)"
  by (induction ids arbitrary: gw) (auto intro!: filter_cong)

definition runtimes_ok :: "gateway \<Rightarrow> bool" where
  "runtimes_ok gw \<longleftrightarrow> distinct (map fst (gw_runtimes gw)) \<and> (\<forall>(k, r) \<in> set (gw_runtimes gw). rt_runtime_id r = k)"

lemma runtimes_ok_get: "runtimes_ok gw \<Longrightarrow> map_of (gw_runtimes gw) k = Some r \<Longrightarrow> rt_runtime_id r = k"
  by (auto simp: runtimes_ok_def dest: map_of_SomeD)

lemma map_of_put [simp]: "map_of (AList.update k r rs) = (map_of rs)(k \<mapsto> r)"
  by (simp add: update_conv')

lemma set_update_cases: "x \<in> set (AList.update k v al) \<Longrightarrow> x = (k, v) \<or> x \<in> set al"
  by (induction al) (auto split: if_splits)

text \<open>Ageing a whole table, one record after the other.\<close>

lemma fold_marks:
  assumes m: "\<And>k r g. gw_runtimes (mark (k, r) g) = (if P r then AList.update (rt_runtime_id (f r)) (f r) (gw_runtimes g) else gw_runtimes g)"
    and i: "\<And>r. rt_runtime_id (f r) = rt_runtime_id r"
    and rows: "distinct (map fst rows)" "\<forall>(k, r) \<in> set rows. rt_runtime_id r = k"
  shows "map_of (gw_runtimes (fold mark rows g)) k = (case map_of rows k of
      Some r \<Rightarrow> if P r then Some (f r) else map_of (gw_runtimes g) k
    | None \<Rightarrow> map_of (gw_runtimes g) k)"
  using rows
proof (induction rows arbitrary: g)
  case (Cons kr rows)
  obtain k0 r0 where kr: "kr = (k0, r0)" by (cases kr)
  have "map_of rows k0 = None" using Cons.prems(1) kr by (auto simp: map_of_eq_None_iff)
  then show ?case using Cons.prems by (auto simp: kr Cons.IH m i split: option.splits)
qed simp

lemma fold_mark_keys:
  assumes m: "\<And>k r g. gw_runtimes (mark (k, r) g) = (if P r then AList.update (rt_runtime_id (f r)) (f r) (gw_runtimes g) else gw_runtimes g)"
    and i: "\<And>r. rt_runtime_id (f r) = rt_runtime_id r"
    and rows: "\<forall>(k, r) \<in> set rows. rt_runtime_id r = k" "set (map fst rows) \<subseteq> set (map fst (gw_runtimes g))"
    and ok: "runtimes_ok g"
  shows "runtimes_ok (fold mark rows g) \<and> map fst (gw_runtimes (fold mark rows g)) = map fst (gw_runtimes g)"
  using rows ok
proof (induction rows arbitrary: g)
  case (Cons kr rows)
  obtain k0 r0 where kr: "kr = (k0, r0)" by (cases kr)
  have r0: "rt_runtime_id r0 = k0" and k0: "k0 \<in> fst ` set (gw_runtimes g)" using Cons.prems(1,2) kr by auto
  have keys: "map fst (gw_runtimes (mark (k0, r0) g)) = map fst (gw_runtimes g)"
    using k0 by (auto simp: m i r0 update_keys)
  have "runtimes_ok (mark (k0, r0) g)"
    using Cons.prems(3) by (auto simp: runtimes_ok_def m i r0 distinct_update dest!: set_update_cases)
  then show ?case using Cons.IH [of "mark (k0, r0) g"] Cons.prems(1,2) keys kr by simp
qed simp

definition went_offline :: "runtime_record \<Rightarrow> runtime_record" where
  "went_offline r = r\<lparr>rt_status := ''offline'', rt_presence := ''stale''\<rparr>"

definition went_dead :: "runtime_record \<Rightarrow> runtime_record" where
  "went_dead r = r\<lparr>rt_presence := ''dead''\<rparr>"

lemma mark_runtimes:
  "gw_runtimes (mark_offline now (k, r) g) = (if goes_offline now r
     then AList.update (rt_runtime_id (went_offline r)) (went_offline r) (gw_runtimes g) else gw_runtimes g)"
  "gw_runtimes (mark_dead now (k, r) g) = (if goes_dead now r
     then AList.update (rt_runtime_id (went_dead r)) (went_dead r) (gw_runtimes g) else gw_runtimes g)"
  by (simp_all add: mark_offline_def mark_dead_def Let_def went_offline_def went_dead_def)

lemma went_ids: "rt_runtime_id (went_offline r) = rt_runtime_id r" "rt_runtime_id (went_dead r) = rt_runtime_id r"
  by (simp_all add: went_offline_def went_dead_def)

lemmas offline_fold = fold_marks [where mark = "mark_offline now" and P = "goes_offline now" and f = went_offline for now,
    OF mark_runtimes(1) went_ids(1)]
  fold_mark_keys [where mark = "mark_offline now" and P = "goes_offline now" and f = went_offline for now,
    OF mark_runtimes(1) went_ids(1)]

lemmas dead_fold = fold_marks [where mark = "mark_dead now" and P = "goes_dead now" and f = went_dead for now,
    OF mark_runtimes(2) went_ids(2)]
  fold_mark_keys [where mark = "mark_dead now" and P = "goes_dead now" and f = went_dead for now,
    OF mark_runtimes(2) went_ids(2)]

text \<open>What a sweep makes of a record.\<close>

definition aged :: "instant \<Rightarrow> runtime_record \<Rightarrow> runtime_record" where
  "aged now r =
     (let r1 = (if goes_offline now r then went_offline r else r) in
      if goes_dead now r1 then went_dead r1 else r1)"

lemma aged_same [simp]: "rt_generation (aged now r) = rt_generation r" "rt_runtime_id (aged now r) = rt_runtime_id r"
  "rt_status (aged now r) = ''stopped'' \<longleftrightarrow> rt_status r = ''stopped''"
  by (auto simp: aged_def Let_def goes_offline_def goes_dead_def went_offline_def went_dead_def)

lemma after_marks:
  fixes now :: instant and gw :: gateway
  assumes ok: "runtimes_ok gw"
  defines "gw1 \<equiv> fold (mark_offline now) (gw_runtimes gw) gw"
  defines "gw2 \<equiv> fold (mark_dead now) (gw_runtimes (fold (mark_offline now) (gw_runtimes gw) gw))
    (fold (mark_offline now) (gw_runtimes gw) gw)"
  shows "runtimes_ok gw2" "map_of (gw_runtimes gw2) k = map_option (aged now) (map_of (gw_runtimes gw) k)"
proof -
  have rows: "distinct (map fst (gw_runtimes gw))" "\<forall>(k, r) \<in> set (gw_runtimes gw). rt_runtime_id r = k"
    using ok by (simp_all add: runtimes_ok_def)
  have ok1: "runtimes_ok gw1" unfolding gw1_def
    using offline_fold(2) [of "gw_runtimes gw" gw now] rows(2) ok by simp
  then have rows1: "distinct (map fst (gw_runtimes gw1))" "\<forall>(k, r) \<in> set (gw_runtimes gw1). rt_runtime_id r = k"
    by (simp_all add: runtimes_ok_def)
  have gw2: "gw2 = fold (mark_dead now) (gw_runtimes gw1) gw1" by (simp add: gw1_def gw2_def)
  show "runtimes_ok gw2" unfolding gw2
    using dead_fold(2) [of "gw_runtimes gw1" gw1 now] rows1(2) ok1 by simp
  have 1: "map_of (gw_runtimes gw1) k = map_option (\<lambda>r. if goes_offline now r
      then went_offline r else r) (map_of (gw_runtimes gw) k)" for k
    unfolding gw1_def by (subst offline_fold(1)) (use rows in \<open>auto split: option.splits\<close>)
  have "map_of (gw_runtimes gw2) k = map_option (\<lambda>r. if goes_dead now r then went_dead r else r)
      (map_of (gw_runtimes gw1) k)" for k
    unfolding gw2 by (subst dead_fold(1)) (use rows1 in \<open>auto split: option.splits\<close>)
  then show "map_of (gw_runtimes gw2) k = map_option (aged now) (map_of (gw_runtimes gw) k)"
    by (cases "map_of (gw_runtimes gw) k") (simp_all add: 1 aged_def Let_def)
qed

lemma map_of_filter_key: "map_of (filter (\<lambda>(k, _). Q k) xs) k = (if Q k then map_of xs k else None)"
  by (induction xs) auto

lemma fold_peers_runtimes [simp]:
  "gw_runtimes (fold (\<lambda>(_, r). mark_peers (rt_session_id r) (rt_agent_id r) st) xs gw) = gw_runtimes gw"
  by (induction xs arbitrary: gw) auto

lemma distinct_keys_filter: "distinct (map fst xs) \<Longrightarrow> distinct (map fst (filter P xs))"
  by (simp add: distinct_map_filter)

lemma sweep_runtimes:
  assumes ok: "runtimes_ok gw"
  shows "runtimes_ok (snd (sweep_once now gw))"
    and "map_of (gw_runtimes (snd (sweep_once now gw))) k = (case map_of (gw_runtimes gw) k of
      Some r \<Rightarrow> if rt_status r = ''stopped'' then None else Some (aged now r) | None \<Rightarrow> None)"
proof -
  let ?gw2 = "fold (mark_dead now) (gw_runtimes (fold (mark_offline now) (gw_runtimes gw) gw))
    (fold (mark_offline now) (gw_runtimes gw) gw)"
  note ok2 = after_marks(1) [OF ok, of now] and get2 = after_marks(2) [OF ok, of now]
  have rt: "gw_runtimes (snd (sweep_once now gw)) =
      filter (\<lambda>(k, _). k \<notin> set (stopped_ids (\<lambda>_. True) ?gw2)) (gw_runtimes ?gw2)"
    by (simp add: sweep_once_def Let_def)
  show "runtimes_ok (snd (sweep_once now gw))"
    using ok2 by (auto simp: runtimes_ok_def rt distinct_keys_filter)
  have stopped: "k \<in> set (stopped_ids (\<lambda>_. True) ?gw2) \<longleftrightarrow>
      (\<exists>r. map_of (gw_runtimes ?gw2) k = Some r \<and> rt_status r = ''stopped'')"
    using ok2 by (auto simp: stopped_ids_def runtimes_ok_def image_iff dest: map_of_SomeD map_of_is_SomeI)
  show "map_of (gw_runtimes (snd (sweep_once now gw))) k = (case map_of (gw_runtimes gw) k of
      Some r \<Rightarrow> if rt_status r = ''stopped'' then None else Some (aged now r) | None \<Rightarrow> None)"
    unfolding rt map_of_filter_key stopped get2 by (auto split: option.splits)
qed

lemma runtimes_ok_cong: "gw_runtimes gw' = gw_runtimes gw \<Longrightarrow> runtimes_ok gw' = runtimes_ok gw"
  by (simp add: runtimes_ok_def)

lemma runtimes_ok_put [simp]: "runtimes_ok gw \<Longrightarrow> runtimes_ok (put_runtime r gw)"
  by (auto simp: runtimes_ok_def distinct_update dest!: set_update_cases)

lemma runtimes_ok_drops [simp]: "runtimes_ok gw \<Longrightarrow> runtimes_ok (fold drop_runtime ids gw)"
  by (auto simp: runtimes_ok_def distinct_keys_filter)

lemma runtimes_ok_others [simp]:
  "runtimes_ok (persist_control_state now r gw) = runtimes_ok gw" "runtimes_ok (mirror_review now k s i a gw) = runtimes_ok gw"
  "runtimes_ok (snd (append_event d gw)) = runtimes_ok gw" "runtimes_ok (emit_event d gw) = runtimes_ok gw"
  "runtimes_ok (save_peers gw) = runtimes_ok gw" "runtimes_ok (mark_peers s a st gw) = runtimes_ok gw"
  "runtimes_ok (renew_park now k gw) = runtimes_ok gw" "runtimes_ok (turn_triggered_event now d gw) = runtimes_ok gw"
  "runtimes_ok (gw\<lparr>gw_park := p\<rparr>) = runtimes_ok gw" "runtimes_ok (gw\<lparr>gw_events := es\<rparr>) = runtimes_ok gw"
  "runtimes_ok (gw\<lparr>gw_claims := cs\<rparr>) = runtimes_ok gw" "runtimes_ok (gw\<lparr>gw_merges := ms\<rparr>) = runtimes_ok gw"
  "runtimes_ok (save_merges gw) = runtimes_ok gw"
  by (auto simp: save_merges_def intro!: runtimes_ok_cong)

text \<open>The methods of one runtime: the record of the runtime is replaced, others are kept.\<close>

lemma register_runtimes:
  "map_of (gw_runtimes (snd (runtime_register now a gw))) = (if register_checks a gw = None \<and> roster_checks a gw = None
     then (map_of (gw_runtimes gw))(rg_runtime_id a \<mapsto> (registered now a (map_of (gw_runtimes gw) (rg_runtime_id a)))
       \<lparr>rt_initial_task := fst (initial_task (rg_session_id a) (rg_agent_id a) (gw_tree gw))\<rparr>)
     else map_of (gw_runtimes gw))"
proof -
  have [simp]: "rt_runtime_id (registered now a old) = rg_runtime_id a" for old
    by (simp add: registered_def new_runtime_def)
  have [simp]: "gw_tree (gw\<lparr>gw_park := p\<rparr>) = gw_tree gw" for gw p by simp
  show ?thesis
    by (auto simp: runtime_register_def Let_def append_event_def tree.steps fun_upd_idem_iff split: option.splits prod.splits sum.splits)
qed

lemma runtimes_ok_register: "runtimes_ok gw \<Longrightarrow> runtimes_ok (snd (runtime_register now a gw))"
  by (auto simp: runtime_register_def Let_def append_event_def split: option.splits prod.splits sum.splits)

lemma runtimes_ok_restore: "runtimes_ok gw \<Longrightarrow> runtimes_ok (restore_manifests now ms gw)"
  by (induction now ms gw rule: restore_manifests.induct) (simp_all add: Let_def)

lemma restore_files_runtimes [simp]: "gw_runtimes (restore_merges (restore_peers g)) = gw_runtimes g"
  by (simp add: restore_merges_def restore_peers_def split: option.splits json.splits)

lemma runtimes_ok_start: "runtimes_ok (gateway_start now toks gw)"
proof -
  let ?g = "restore_merges (restore_peers (gw\<lparr>gw_runtimes := [], gw_peers := [], gw_claims := [], gw_merges := []\<rparr>))"
  have "runtimes_ok ?g" by (simp add: runtimes_ok_def)
  then show ?thesis
    by (simp add: gateway_start_def restore_runtimes_from_park_def Let_def runtimes_ok_restore split: sum.splits)
qed

lemma runtimes_ok_step: "runtimes_ok gw \<Longrightarrow> runtimes_ok (gateway_step now op gw)"
proof (cases op)
  case Sweep
  assume "runtimes_ok gw"
  then show ?thesis using sweep_runtimes(1) by (simp add: Sweep)
qed (auto simp: runtimes_ok_register runtimes_ok_start runtime_declare_def runtime_heartbeat_def runtime_context_set_def
    runtime_event_in_def runtime_lifecycle_def runtime_stop_def runtime_purge_stopped_def purge_stopped_for_key_def
    session_claim_def session_release_def write_merge_def merge_reset_def append_event_def Let_def
    split: option.splits sum.splits prod.splits)

lemma runtimes_ok_run: "runtimes_ok gw \<Longrightarrow> runtimes_ok (run_gateway ops gw)"
  unfolding run_gateway_def by (induction ops arbitrary: gw) (auto simp: runtimes_ok_step)

section \<open>Generations fence off older owners\<close>

lemma put_generation:
  assumes "map_of (gw_runtimes gw) k = Some r" "map_of (gw_runtimes (put_runtime x gw)) k = Some r'"
    and "rt_runtime_id x = k \<Longrightarrow> rt_generation r \<le> rt_generation x"
  shows "rt_generation r \<le> rt_generation r'"
  using assms by (auto split: if_splits)

lemma reduce_same [simp]: "rt_generation (reduce_lifecycle r ev) = rt_generation r" "rt_runtime_id (reduce_lifecycle r ev) = rt_runtime_id r"
  by (simp_all add: reduce_lifecycle_def)

lemma report_same [simp]: "rt_generation (report_states d r) = rt_generation r" "rt_runtime_id (report_states d r) = rt_runtime_id r"
  by (simp_all add: report_states_def Let_def split: option.splits json.splits)

lemma find_declared_member: "runtimes_ok gw \<Longrightarrow> find_declared a gw = Some x \<Longrightarrow> map_of (gw_runtimes gw) (rt_runtime_id x) = Some x"
proof -
  assume ok: "runtimes_ok gw" and f: "find_declared a gw = Some x"
  then obtain k where "(k, x) \<in> set (gw_runtimes gw)"
    by (auto simp: find_declared_def split: option.splits if_splits dest!: find_SomeD map_of_SomeD)
  with ok show ?thesis by (auto simp: runtimes_ok_def intro!: map_of_is_SomeI)
qed

lemma registered_generation: "register_checks a gw = None \<Longrightarrow> map_of (gw_runtimes gw) (rg_runtime_id a) = Some r \<Longrightarrow>
    rt_generation r \<le> rg_generation a"
  by (auto simp: register_checks_def split: if_splits)

lemma step_generation:
  assumes ok: "runtimes_ok gw" and r: "map_of (gw_runtimes gw) k = Some r" and op: "\<forall>toks. op \<noteq> Restart toks"
    "\<forall>sha a. op = Declare sha a \<longrightarrow> k \<noteq> ''native-'' @ take 16 (sha (dl_backend a))"
    and r': "map_of (gw_runtimes (gateway_step now op gw)) k = Some r'"
  shows "rt_generation r \<le> rt_generation r'"
proof (cases op)
  case (Register a)
  have "rt_generation (registered now a old) = rg_generation a" for old by (simp add: registered_def new_runtime_def)
  then show ?thesis using r r' registered_generation
    by (auto simp: Register register_runtimes split: if_splits)
next
  case (Declare sha a)
  show ?thesis
  proof (cases "find_declared a gw")
    case None
    then have "dl_runtime_id a = [] \<or> dl_runtime_id a \<noteq> k" using r by (auto simp: find_declared_def split: if_splits option.splits)
    then show ?thesis using r r' op(2) None
      by (auto simp: Declare runtime_declare_def declared_def new_runtime_def find_declared_def Let_def split: if_splits option.splits sum.splits)
  next
    case (Some x)
    then show ?thesis using r r' find_declared_member [OF ok Some]
      by (auto simp: Declare runtime_declare_def declared_def find_declared_def Let_def split: if_splits option.splits sum.splits)
  qed
next
  case Sweep
  then show ?thesis using r r' by (auto simp: sweep_runtimes(2) [OF ok] split: if_splits)
qed (use r r' runtimes_ok_get [OF ok] op in \<open>auto simp: runtime_heartbeat_def require_runtime_def runtime_context_set_def
    runtime_event_in_def runtime_lifecycle_def runtime_stop_def runtime_purge_stopped_def purge_stopped_for_key_def
    session_claim_def session_release_def write_merge_def merge_reset_def save_merges_def append_event_def Let_def map_of_filter_key
    split: option.splits sum.splits prod.splits if_splits\<close>)

text \<open>
  An older owner of a runtime is fenced off. On every reachable gateway that knows a runtime, a
  registration with an older generation, or with the same generation and another process or nonce,
  is refused; an event or a model context of another generation is refused; and all of them leave the
  gateway as it was. No method lowers the generation of a runtime while the gateway knows it (a
  declaration that derives the very id of the runtime from its backend session apart).
\<close>

theorem generation_fence:
  fixes gw0 :: gateway and ops :: "(instant \<times> gateway_op) list"
  defines "gw \<equiv> run_gateway ops gw0"
  assumes "gw_runtimes gw0 = []" and r: "map_of (gw_runtimes gw) k = Some r"
  shows "(rg_runtime_id a = k \<and> (rg_generation a < rt_generation r \<or> owner_differs a r) \<longrightarrow>
      (\<exists>e. runtime_register now a gw = (Inl (GwError e), gw))) \<and>
    (ed_runtime_id d = k \<and> ed_generation d \<noteq> rt_generation r \<longrightarrow>
      runtime_event_in now d gw = (Inl (GwError ''GENERATION_STALE''), gw)) \<and>
    (cx_runtime_id x = k \<and> cx_generation x = Some g \<and> g \<noteq> rt_generation r \<longrightarrow>
      (\<exists>e. runtime_context_set now x gw = (Inl (GwError e), gw))) \<and>
    ((\<forall>toks. op \<noteq> Restart toks) \<and> (\<forall>sha y. op = Declare sha y \<longrightarrow> k \<noteq> ''native-'' @ take 16 (sha (dl_backend y))) \<and>
      map_of (gw_runtimes (gateway_step now op gw)) k = Some r' \<longrightarrow> rt_generation r \<le> rt_generation r')"
proof (intro conjI impI)
  have ok: "runtimes_ok gw" unfolding gw_def by (rule runtimes_ok_run) (simp add: runtimes_ok_def assms(2))
  show "\<exists>e. runtime_register now a gw = (Inl (GwError e), gw)"
    if "rg_runtime_id a = k \<and> (rg_generation a < rt_generation r \<or> owner_differs a r)"
    using that r by (auto simp: runtime_register_def register_checks_def)
  show "runtime_event_in now d gw = (Inl (GwError ''GENERATION_STALE''), gw)"
    if "ed_runtime_id d = k \<and> ed_generation d \<noteq> rt_generation r"
    using that r by (simp add: runtime_event_in_def)
  show "\<exists>e. runtime_context_set now x gw = (Inl (GwError e), gw)"
    if "cx_runtime_id x = k \<and> cx_generation x = Some g \<and> g \<noteq> rt_generation r"
    using that r by (auto simp: runtime_context_set_def)
  show "rt_generation r \<le> rt_generation r'"
    if "(\<forall>toks. op \<noteq> Restart toks) \<and> (\<forall>sha y. op = Declare sha y \<longrightarrow> k \<noteq> ''native-'' @ take 16 (sha (dl_backend y))) \<and>
      map_of (gw_runtimes (gateway_step now op gw)) k = Some r'"
    using step_generation [OF ok r] that by blast
qed

section \<open>Presence\<close>

definition peers_down :: "runtime_record \<Rightarrow> gateway \<Rightarrow> bool" where
  "peers_down r gw \<longleftrightarrow> (\<forall>p \<in> snd ` set (gw_peers gw). hp_agent_id p = rt_agent_id r \<and> hp_session_id p = rt_session_id r \<longrightarrow>
     hp_status p = ''offline'')"

lemma mark_peers_down:
  "peers_down r (mark_peers (rt_session_id r) (rt_agent_id r) ''offline'' gw)"
  "peers_down r gw \<Longrightarrow> peers_down r (mark_peers s a ''offline'' gw)"
  by (auto simp: peers_down_def mark_peers_def) fastforce+

lemma fold_peers_down:
  "r \<in> snd ` set rows \<or> peers_down r gw \<Longrightarrow>
   peers_down r (fold (\<lambda>(_, r). mark_peers (rt_session_id r) (rt_agent_id r) ''offline'') rows gw)"
proof (induction rows arbitrary: gw)
  case (Cons kr rows)
  then show ?case using mark_peers_down by (cases kr) auto
qed simp

lemma sweep_peers: "\<exists>g. gw_peers (snd (sweep_once now gw)) = gw_peers (fold (\<lambda>(_, r).
    mark_peers (rt_session_id r) (rt_agent_id r) ''offline'') (filter (\<lambda>(_, r). goes_offline now r) (gw_runtimes gw)) g)"
proof -
  have "gw_peers (if c then x else save_peers x) = gw_peers x" for c x by (simp add: save_peers_def)
  then show ?thesis unfolding sweep_once_def Let_def snd_conv by (intro exI) (rule sym, simp)
qed

text \<open>
  The presence sweep is exact. It answers with the runtimes that were active and have been silent
  for longer than their timeout; afterwards these are offline and their peers with them, runtimes
  that stay offline beyond the second timeout are dead, stopped ones are forgotten, and every other
  runtime is unchanged; so a runtime heard of within the last 300 seconds is never taken offline.
\<close>

theorem sweep_once_exact:
  fixes gw0 :: gateway and ops :: "(instant \<times> gateway_op) list"
  defines "gw \<equiv> run_gateway ops gw0"
  assumes "gw_runtimes gw0 = []" and s: "sweep_once now gw = (ids, gw')"
  shows "(k \<in> set ids \<longleftrightarrow> (\<exists>r. map_of (gw_runtimes gw) k = Some r \<and> goes_offline now r)) \<and>
    map_of (gw_runtimes gw') k = (case map_of (gw_runtimes gw) k of
      Some r \<Rightarrow> if rt_status r = ''stopped'' then None else Some (aged now r) | None \<Rightarrow> None) \<and>
    (\<forall>r. map_of (gw_runtimes gw) k = Some r \<and> now - rt_last_activity r \<le> 300 \<longrightarrow> k \<notin> set ids) \<and>
    (\<forall>r p. map_of (gw_runtimes gw) k = Some r \<and> goes_offline now r \<and> p \<in> snd ` set (gw_peers gw') \<and>
      hp_agent_id p = rt_agent_id r \<and> hp_session_id p = rt_session_id r \<longrightarrow> hp_status p = ''offline'')"
proof -
  have ok: "runtimes_ok gw" unfolding gw_def by (rule runtimes_ok_run) (simp add: runtimes_ok_def assms(2))
  have "ids = map fst (filter (\<lambda>(_, r). goes_offline now r) (gw_runtimes gw))"
    using arg_cong [OF s, of fst] by (simp add: sweep_once_def Let_def)
  then have ids: "k \<in> set ids \<longleftrightarrow> (\<exists>r. map_of (gw_runtimes gw) k = Some r \<and> goes_offline now r)"
    using ok by (auto simp: runtimes_ok_def image_iff)
  have rows: "map_of (gw_runtimes gw') k = (case map_of (gw_runtimes gw) k of
      Some r \<Rightarrow> if rt_status r = ''stopped'' then None else Some (aged now r) | None \<Rightarrow> None)"
    using sweep_runtimes(2) [OF ok, of now] s by simp
  have fresh: "\<not> goes_offline now r" if "now - rt_last_activity r \<le> 300" for r
    using that by (auto simp: goes_offline_def timeout_of_def offline_timeout_def split: option.splits if_splits)
  have peers: "hp_status p = ''offline''" if "map_of (gw_runtimes gw) k = Some r" "goes_offline now r"
      "p \<in> snd ` set (gw_peers gw')" "hp_agent_id p = rt_agent_id r" "hp_session_id p = rt_session_id r" for r p
  proof -
    let ?m = "\<lambda>(_ :: string, r). mark_peers (rt_session_id r) (rt_agent_id r) ''offline''"
    have "r \<in> snd ` set (filter (\<lambda>(_, r). goes_offline now r) (gw_runtimes gw))"
      using that(1,2) by (force dest: map_of_SomeD)
    then have "peers_down r (fold ?m (filter (\<lambda>(_, r). goes_offline now r) (gw_runtimes gw)) g)" for g
      by (intro fold_peers_down) simp
    moreover obtain g where "gw_peers gw' = gw_peers (fold ?m (filter (\<lambda>(_, r). goes_offline now r) (gw_runtimes gw)) g)"
      using sweep_peers [of now gw] s by auto
    ultimately have "peers_down r gw'" by (simp add: peers_down_def)
    then show ?thesis using that by (auto simp: peers_down_def)
  qed
  show ?thesis
  proof (intro conjI allI impI)
    show "k \<notin> set ids" if "map_of (gw_runtimes gw) k = Some r \<and> now - rt_last_activity r \<le> 300" for r
      using that fresh by (simp add: ids)
  qed (use ids rows peers in \<open>simp_all\<close>)
qed

section \<open>One owner for a role\<close>

definition released :: "string \<Rightarrow> string \<Rightarrow> string \<Rightarrow> gateway_op \<Rightarrow> bool" where
  "released sid aid owner op \<longleftrightarrow>
     (\<exists>s a o'. op = Release s a o' \<and> claim_key s a = claim_key sid aid \<and> o' \<in> {[], owner}) \<or>
     (\<exists>s a ttl. op = Claim s a owner ttl \<and> claim_key s a = claim_key sid aid) \<or> (\<exists>toks. op = Restart toks)"

definition holds_role :: "string \<Rightarrow> string \<Rightarrow> string \<Rightarrow> instant \<Rightarrow> gateway \<Rightarrow> bool" where
  "holds_role sid aid owner until gw \<longleftrightarrow> distinct (map fst (gw_claims gw)) \<and>
     (\<exists>c. map_of (gw_claims gw) (claim_key sid aid) = Some c \<and> rc_owner c = owner \<and> rc_expires_at c = until)"

lemma sweep_claims: "gw_claims (snd (sweep_once now gw)) = filter (\<lambda>(_, c). now < rc_expires_at c) (gw_claims gw)"
proof -
  have "gw_claims (if c then x else save_peers x) = gw_claims x" for c x by (simp add: claims.steps)
  then show ?thesis by (simp add: sweep_once_def Let_def claims.steps)
qed

lemma map_of_filter_row: "distinct (map fst xs) \<Longrightarrow>
  map_of (filter (\<lambda>(_, v). Q v) xs) k = (case map_of xs k of Some v \<Rightarrow> if Q v then Some v else None | None \<Rightarrow> None)"
  by (induction xs) (auto split: option.splits simp: map_of_eq_None_iff)

lemma role_step:
  assumes "holds_role sid aid owner until gw" "\<not> released sid aid owner op" "now < until"
  shows "holds_role sid aid owner until (gateway_step now op gw)"
proof (cases op)
  case (Claim s a o' ttl)
  then show ?thesis using assms
    by (auto simp: holds_role_def released_def session_claim_def Let_def distinct_update
        simp del: map_of_eq_Some_iff split: option.splits if_splits)
next
  case (Release s a o')
  then show ?thesis using assms
    by (auto simp: holds_role_def released_def session_release_def map_of_filter_key distinct_keys_filter
        simp del: map_of_eq_Some_iff split: option.splits if_splits)
next
  case (Merge s t h)
  then show ?thesis using assms
    by (auto simp: holds_role_def write_merge_def save_merges_def split: option.splits)
next
  case (MergeReset s t)
  then show ?thesis using assms
    by (auto simp: holds_role_def merge_reset_def save_merges_def Let_def)
next
  case Sweep
  then show ?thesis using assms
    by (auto simp: holds_role_def sweep_claims map_of_filter_row distinct_keys_filter simp del: map_of_eq_Some_iff)
qed (use assms in \<open>simp_all add: holds_role_def released_def claims.register claims.declare_rt claims.heartbeat
    claims.set_context claims.event_in claims.life claims.stop claims.purge del: map_of_eq_Some_iff\<close>)

lemma role_run:
  assumes "holds_role sid aid owner until gw" "\<forall>(t, op) \<in> set ops. \<not> released sid aid owner op \<and> t < until"
  shows "holds_role sid aid owner until (run_gateway ops gw)"
  using assms
proof (induction ops arbitrary: gw)
  case (Cons x ops)
  obtain t op where x: "x = (t, op)" by (cases x)
  have "holds_role sid aid owner until (gateway_step t op gw)" using Cons.prems x by (intro role_step) auto
  then show ?case using Cons.IH Cons.prems(2) x by (simp add: run_gateway_def)
qed (simp add: run_gateway_def)

lemma claims_distinct_step: "distinct (map fst (gw_claims gw)) \<Longrightarrow> distinct (map fst (gw_claims (gateway_step now op gw)))"
proof (cases op)
  case (Restart toks)
  have "gw_claims (restore_manifests t ms g) = gw_claims g" for t ms g
    by (induction t ms g rule: restore_manifests.induct) (simp_all add: Let_def claims.steps)
  moreover have "gw_claims (restore_merges (restore_peers g)) = gw_claims g" for g
    by (simp add: restore_merges_def restore_peers_def split: option.splits json.splits)
  ultimately show ?thesis
    by (simp add: Restart gateway_start_def restore_runtimes_from_park_def Let_def split: sum.splits)
next
  case (Claim s a o' ttl)
  assume "distinct (map fst (gw_claims gw))"
  then show ?thesis by (simp add: Claim session_claim_def Let_def distinct_update split: option.splits)
qed (auto simp: session_release_def write_merge_def merge_reset_def save_merges_def Let_def sweep_claims distinct_keys_filter
    claims.register claims.declare_rt claims.heartbeat claims.set_context claims.event_in claims.life claims.stop claims.purge
    split: option.splits)

lemma claims_distinct_run: "distinct (map fst (gw_claims gw)) \<Longrightarrow> distinct (map fst (gw_claims (run_gateway ops gw)))"
  unfolding run_gateway_def by (induction ops arbitrary: gw) (auto simp: claims_distinct_step)

text \<open>
  A role has one owner at a time. After a claim was granted, and as long as it has not expired
  and was neither given up nor renewed by its owner, no sequence of operations of the gateway lets
  another owner claim the role: the second claim is refused and changes nothing, and the owner can
  still renew its own.
\<close>

theorem role_exclusive:
  fixes gw0 :: gateway and before after :: "(instant \<times> gateway_op) list"
  defines "gw \<equiv> run_gateway before gw0"
  assumes "gw_claims gw0 = []" and c: "session_claim now sid aid owner ttl gw = (Inr claim, gw1)"
    and ops: "\<forall>(t, op) \<in> set after. \<not> released sid aid owner op \<and> t < rc_expires_at claim"
    and later: "t < rc_expires_at claim" "other \<noteq> owner" "other \<noteq> []" "0 < ttl'" "ttl' \<le> 86400"
  shows "rc_expires_at claim = now + ttl \<and>
    session_claim t sid aid other ttl' (run_gateway after gw1) = (Inl (GwError ''PROTOCOL_CONFLICT''), run_gateway after gw1) \<and>
    (\<exists>c' gw2. session_claim t sid aid owner ttl' (run_gateway after gw1) = (Inr c', gw2))"
proof -
  have "distinct (map fst (gw_claims gw))" unfolding gw_def by (rule claims_distinct_run) (simp add: assms(2))
  then have "holds_role sid aid owner (rc_expires_at claim) gw1" and e: "rc_expires_at claim = now + ttl"
    and ne: "sid \<noteq> []" "aid \<noteq> []" "owner \<noteq> []"
    using c by (auto simp: session_claim_def holds_role_def Let_def distinct_update split: if_splits)
  then have "holds_role sid aid owner (rc_expires_at claim) (run_gateway after gw1)" using role_run ops by blast
  then obtain d where "map_of (gw_claims (run_gateway after gw1)) (claim_key sid aid) = Some d"
      "rc_owner d = owner" "rc_expires_at d = rc_expires_at claim"
    by (auto simp: holds_role_def)
  then show ?thesis using later e ne by (simp add: session_claim_def Let_def)
qed

section \<open>Conflicting writes\<close>

definition merges_saved :: "gateway \<Rightarrow> bool" where
  "merges_saved gw \<longleftrightarrow> distinct (map fst (gw_merges gw)) \<and>
     (\<forall>((s, t), h) \<in> set (gw_merges gw). s \<noteq> [] \<and> t \<noteq> [] \<and> h \<noteq> []) \<and>
     (case gw_merges_file gw of Some j \<Rightarrow> j = JArr (map merge_to_json (gw_merges gw)) | None \<Rightarrow> gw_merges gw = [])"

lemma merge_round_trip [simp]: "merge_of_json (merge_to_json m) = Some m"
  by (cases m) (auto simp: merge_of_json_def merge_to_json_def field_str_def dget_or_def)

lemma update_new: "k \<notin> fst ` set xs \<Longrightarrow> AList.update k v xs = xs @ [(k, v)]"
  by (induction xs) auto

lemma restore_merge_list_saved:
  assumes "distinct (map fst (acc @ ms))" "\<forall>((s, t), h) \<in> set ms. s \<noteq> [] \<and> t \<noteq> [] \<and> h \<noteq> []"
  shows "restore_merge_list (map merge_to_json ms) acc = acc @ ms"
  using assms
proof (induction ms arbitrary: acc)
  case (Cons m ms)
  obtain s t h where m: "m = ((s, t), h)" by (metis prod.exhaust)
  have "AList.update (s, t) h acc = acc @ [m]" using Cons.prems(1) by (simp add: update_new m)
  then show ?case using Cons.IH [of "acc @ [m]"] Cons.prems m by simp
qed simp

lemma start_merges:
  assumes "merges_saved gw"
  shows "gw_merges (gateway_start now toks gw) = gw_merges gw \<and> gw_merges_file (gateway_start now toks gw) = gw_merges_file gw"
proof -
  let ?v = "\<lambda>gw. (gw_merges gw, gw_merges_file gw)"
  let ?g = "gw\<lparr>gw_runtimes := [], gw_peers := [], gw_claims := [], gw_merges := []\<rparr>"
  have restore: "?v (restore_manifests t ms g) = ?v g" for t ms g
    by (induction t ms g rule: restore_manifests.induct) (simp_all add: Let_def merges.steps del: prod.inject)
  have "?v (gateway_start now toks gw) = ?v (restore_merges (restore_peers ?g))"
    using restore merges.park by (simp add: gateway_start_def restore_runtimes_from_park_def Let_def del: prod.inject split: sum.split)
  moreover have "?v (restore_peers ?g) = ([], gw_merges_file gw)"
    by (simp add: restore_peers_def split: option.split json.split)
  moreover have "restore_merge_list (map merge_to_json (gw_merges gw)) [] = gw_merges gw"
    using assms restore_merge_list_saved [of "[]" "gw_merges gw"] by (simp add: merges_saved_def)
  ultimately show ?thesis using assms
    by (auto simp: restore_merges_def merges_saved_def split: option.splits)
qed

lemma sweep_merges:
  "(gw_merges (snd (sweep_once now gw)), gw_merges_file (snd (sweep_once now gw))) = (gw_merges gw, gw_merges_file gw)"
proof -
  let ?v = "\<lambda>gw. (gw_merges gw, gw_merges_file gw)"
  have "?v (if c then x else save_peers x) = ?v x" for c x by (simp add: merges.steps del: prod.inject)
  moreover have "?v (g\<lparr>gw_claims := cs\<rparr>) = ?v g" for g cs by simp
  ultimately show ?thesis by (simp add: sweep_once_def Let_def merges.steps del: prod.inject)
qed

lemma merges_saved_view: "(gw_merges gw', gw_merges_file gw') = (gw_merges gw, gw_merges_file gw) \<Longrightarrow> merges_saved gw' = merges_saved gw"
  unfolding merges_saved_def by (simp only: prod.inject)

lemma merges_saved_step: "merges_saved gw \<Longrightarrow> merges_saved (gateway_step now op gw)"
proof (cases op)
  case (Merge s t h)
  assume ok: "merges_saved gw"
  have "\<forall>((s, t), h) \<in> set (AList.update (s, t) h (gw_merges gw)). s \<noteq> [] \<and> t \<noteq> [] \<and> h \<noteq> []"
    if "s \<noteq> []" "t \<noteq> []" "h \<noteq> []"
    using ok that by (auto simp: merges_saved_def dest!: set_update_cases)
  then show ?thesis using ok
    by (auto simp: Merge write_merge_def save_merges_def merges_saved_def distinct_update split: option.split)
next
  case (MergeReset s t)
  assume "merges_saved gw"
  then show ?thesis
    by (auto simp: MergeReset merge_reset_def save_merges_def merges_saved_def distinct_keys_filter filter_empty_conv
        filter_id_conv Let_def split: option.splits)
next
  case (Claim s a o' ttl)
  assume "merges_saved gw"
  then show ?thesis by (auto simp: Claim session_claim_def merges_saved_def Let_def split: option.splits)
next
  case (Release s a o')
  assume "merges_saved gw"
  then show ?thesis by (auto simp: Release session_release_def merges_saved_def split: option.splits)
next
  case (Restart toks)
  assume ok: "merges_saved gw"
  then show ?thesis using merges_saved_view [of "gateway_start now toks gw" gw] start_merges [OF ok, of now toks] by (simp add: Restart)
next
  case Sweep
  assume "merges_saved gw"
  then show ?thesis using merges_saved_view [OF sweep_merges] by (simp add: Sweep)
qed (simp_all add: merges_saved_view [OF merges.register] merges_saved_view [OF merges.declare_rt]
    merges_saved_view [OF merges.heartbeat] merges_saved_view [OF merges.set_context] merges_saved_view [OF merges.event_in]
    merges_saved_view [OF merges.life] merges_saved_view [OF merges.stop] merges_saved_view [OF merges.purge])

definition resets :: "string \<Rightarrow> string \<Rightarrow> gateway_op \<Rightarrow> bool" where
  "resets sid target op \<longleftrightarrow> op = MergeReset sid target \<or> op = MergeReset sid []"

lemma latched_step:
  assumes ok: "merges_saved gw" and m: "map_of (gw_merges gw) (sid, target) = Some h" and op: "\<not> resets sid target op" "target \<noteq> []"
  shows "map_of (gw_merges (gateway_step now op gw)) (sid, target) = Some h"
proof (cases op)
  case (Merge s t h')
  then show ?thesis using m by (auto simp: write_merge_def save_merges_def split: option.split)
next
  case (MergeReset s t)
  then have "\<not> (\<lambda>((s', t'), _). s' = s \<and> (t = [] \<or> t' = t)) ((sid, target), h)" using op by (auto simp: resets_def)
  then have "map_of (filter (\<lambda>m. \<not> (\<lambda>((s', t'), _). s' = s \<and> (t = [] \<or> t' = t)) m) (gw_merges gw)) (sid, target) = Some h"
    using m ok by (auto simp: merges_saved_def distinct_keys_filter)
  then show ?thesis using m by (auto simp: MergeReset merge_reset_def save_merges_def Let_def)
next
  case (Claim s a o' ttl)
  then show ?thesis using m by (simp add: session_claim_def Let_def)
next
  case (Release s a o')
  then show ?thesis using m by (simp add: session_release_def split: option.split)
next
  case (Restart toks)
  then show ?thesis using m start_merges [OF ok] by simp
next
  case Sweep
  then show ?thesis using m sweep_merges [of now gw] by simp
qed (use m merges.register merges.declare_rt merges.heartbeat merges.set_context merges.event_in merges.life merges.stop
    merges.purge in simp_all)

lemma latched_run:
  assumes "merges_saved gw" "map_of (gw_merges gw) (sid, target) = Some h" "target \<noteq> []"
    "\<forall>(t, op) \<in> set ops. \<not> resets sid target op"
  shows "map_of (gw_merges (run_gateway ops gw)) (sid, target) = Some h"
  using assms
proof (induction ops arbitrary: gw)
  case (Cons x ops)
  obtain t op where x: "x = (t, op)" by (cases x)
  have "map_of (gw_merges (gateway_step t op gw)) (sid, target) = Some h"
    using Cons.prems x by (intro latched_step) auto
  then show ?case using Cons.IH [OF merges_saved_step [OF Cons.prems(1)]] Cons.prems(3,4) x by (simp add: run_gateway_def)
qed (simp add: run_gateway_def)

lemma merges_saved_run: "merges_saved gw \<Longrightarrow> merges_saved (run_gateway ops gw)"
  unfolding run_gateway_def by (induction ops arbitrary: gw) (auto simp: merges_saved_step)

text \<open>
  A write that was merged is protected. Once a version of a target was merged in a session,
  whatever else the gateway does, restarts included, another version of the same target is refused
  as a conflict without effect until the session or the target is reset, and the merged version
  itself can be reported again.
\<close>

theorem merge_conflict_detected:
  fixes gw0 :: gateway and before after :: "(instant \<times> gateway_op) list"
  defines "gw \<equiv> run_gateway before gw0"
  assumes "gw_merges gw0 = []" "gw_merges_file gw0 = None" and m: "write_merge sid target sha gw = (Inr (), gw1)"
    and ops: "\<forall>(t, op) \<in> set after. \<not> resets sid target op" and other: "sha' \<noteq> sha" "sha' \<noteq> []"
  shows "write_merge sid target sha' (run_gateway after gw1) = (Inl (GwError ''PROTOCOL_CONFLICT''), run_gateway after gw1) \<and>
    fst (write_merge sid target sha (run_gateway after gw1)) = Inr ()"
proof -
  have ok: "merges_saved gw" unfolding gw_def by (rule merges_saved_run) (simp add: merges_saved_def assms(2,3))
  have args: "sid \<noteq> []" "target \<noteq> []" "sha \<noteq> []" using m by (auto simp: write_merge_def split: if_splits)
  have g1: "gw1 = gateway_step now (Merge sid target sha) gw" for now using m by simp
  have "merges_saved gw1" unfolding g1 [of 0] by (rule merges_saved_step [OF ok])
  moreover have "map_of (gw_merges gw1) (sid, target) = Some sha"
    using m args by (auto simp: write_merge_def save_merges_def split: option.splits if_splits)
  ultimately have "map_of (gw_merges (run_gateway after gw1)) (sid, target) = Some sha"
    using latched_run args(2) ops by blast
  then show ?thesis using args other by (simp add: write_merge_def)
qed

section \<open>An example\<close>

definition demo_gateway :: gateway where
  "demo_gateway = \<lparr>gw_tree = [([''s'', ''session.json''],
       File (Doc (JObj [(''manager'', JStr ''m''), (''agents'', JArr [JStr ''w''])])) 0)],
     gw_events = empty_events ''h'', gw_control = empty_control, gw_park = \<lparr>pk_rows = [], pk_data = []\<rparr>,
     gw_runtimes = [], gw_peers = [], gw_claims = [], gw_merges = [], gw_peers_file = None, gw_merges_file = None\<rparr>"

definition demo_register :: "int \<Rightarrow> string \<Rightarrow> register_args" where
  "demo_register gen nonce = \<lparr>rg_session_id = ''s'', rg_agent_id = ''w'', rg_runtime_id = ''r'', rg_generation = gen,
     rg_review_key = [], rg_backend = ''b'', rg_runtime = ''omp'', rg_owner_pid = 1, rg_nonce = nonce, rg_capabilities = []\<rparr>"

definition demo_runtime :: runtime_record where
  "demo_runtime = (registered 100 (demo_register 2 ''n'') None)\<lparr>rt_initial_task := []\<rparr>"

lemma demo_roster: "roster_checks (demo_register g n) demo_gateway = None"
proof -
  have "read_session ''s'' (gw_tree demo_gateway) = Inr (Some (JObj [(''manager'', JStr ''m''), (''agents'', JArr [JStr ''w''])]))"
    by code_simp
  moreover have "meta_roster (JObj [(''manager'', JStr ''m''), (''agents'', JArr [JStr ''w''])]) = Some [''m'', ''w'']" by code_simp
  ultimately show ?thesis by (simp add: roster_checks_def demo_register_def)
qed

lemma demo_run:
  "map_of (gw_runtimes (run_gateway [(100, Register (demo_register 2 ''n''))] demo_gateway)) ''r'' = Some demo_runtime"
proof -
  have "register_checks (demo_register 2 ''n'') demo_gateway = None"
    by (simp add: register_checks_def demo_register_def demo_gateway_def)
  moreover have "fst (initial_task ''s'' ''w'' (gw_tree demo_gateway)) = []" by code_simp
  moreover have "gw_runtimes demo_gateway = []" by (simp add: demo_gateway_def)
  ultimately show ?thesis
    by (simp add: run_gateway_def register_runtimes demo_roster demo_runtime_def) (simp add: demo_register_def)
qed

lemma demo_runtime_fields: "rt_generation demo_runtime = 2" "rt_nonce demo_runtime = ''n''" "rt_owner_pid demo_runtime = 1"
  "rt_status demo_runtime = ''active''" "rt_last_activity demo_runtime = 100" "rt_created_at demo_runtime = iso_format 100"
  by (simp_all add: demo_runtime_def registered_def new_runtime_def demo_register_def)

theorem generation_fence_witness:
  "\<exists>e f. runtime_register 200 (demo_register 1 ''n'') (run_gateway [(100, Register (demo_register 2 ''n''))] demo_gateway) =
     (Inl (GwError e), run_gateway [(100, Register (demo_register 2 ''n''))] demo_gateway) \<and>
   runtime_register 200 (demo_register 2 ''x'') (run_gateway [(100, Register (demo_register 2 ''n''))] demo_gateway) =
     (Inl (GwError f), run_gateway [(100, Register (demo_register 2 ''n''))] demo_gateway)"
proof -
  have z: "gw_runtimes demo_gateway = []" by (simp add: demo_gateway_def)
  note fence = conjunct1 [OF generation_fence [OF z demo_run]]
  have "rg_runtime_id (demo_register g n) = ''r''" "rg_generation (demo_register 1 n) < rt_generation demo_runtime"
    "owner_differs (demo_register 2 ''x'') demo_runtime" for g n
    by (simp_all add: owner_differs_def demo_runtime_fields) (simp_all add: demo_register_def)
  then show ?thesis using fence by blast
qed

theorem sweep_once_exact_witness:
  "\<exists>ids gw'. sweep_once 1000 (run_gateway [(100, Register (demo_register 2 ''n''))] demo_gateway) = (ids, gw') \<and> ''r'' \<in> set ids"
proof -
  have z: "gw_runtimes demo_gateway = []" by (simp add: demo_gateway_def)
  obtain ids gw' where s: "sweep_once 1000 (run_gateway [(100, Register (demo_register 2 ''n''))] demo_gateway) = (ids, gw')"
    by fastforce
  have "timeout_of 1000 demo_runtime \<le> 600"
    by (auto simp: timeout_of_def offline_timeout_def split: option.split)
  then have "goes_offline 1000 demo_runtime" by (simp add: goes_offline_def demo_runtime_fields)
  then show ?thesis using sweep_once_exact [OF z s, of "''r''"] demo_run s by blast
qed

theorem role_exclusive_witness:
  "\<exists>c gw1. session_claim 0 ''s'' ''w'' ''a'' 60 (run_gateway [] demo_gateway) = (Inr c, gw1) \<and>
     session_claim 30 ''s'' ''w'' ''b'' 60 (run_gateway [(10, Sweep), (20, Claim ''s'' ''w'' ''b'' 5)] gw1) =
       (Inl (GwError ''PROTOCOL_CONFLICT''), run_gateway [(10, Sweep), (20, Claim ''s'' ''w'' ''b'' 5)] gw1)"
proof -
  have z: "gw_claims demo_gateway = []" by (simp add: demo_gateway_def)
  obtain c gw1 where c: "session_claim 0 ''s'' ''w'' ''a'' 60 (run_gateway [] demo_gateway) = (Inr c, gw1)" "rc_expires_at c = 60"
    by (simp add: session_claim_def run_gateway_def z Let_def)
  show ?thesis
    using role_exclusive [OF z c(1), of "[(10, Sweep), (20, Claim ''s'' ''w'' ''b'' 5)]" 30 "''b''" 60] c
    by (auto simp: released_def)
qed

theorem merge_conflict_detected_witness:
  "\<exists>gw1. write_merge ''s'' ''f'' ''1'' (run_gateway [] demo_gateway) = (Inr (), gw1) \<and>
     write_merge ''s'' ''f'' ''2'' (run_gateway [(10, Restart []), (20, MergeReset ''t'' [])] gw1) =
       (Inl (GwError ''PROTOCOL_CONFLICT''), run_gateway [(10, Restart []), (20, MergeReset ''t'' [])] gw1)"
proof -
  have z: "gw_merges demo_gateway = []" "gw_merges_file demo_gateway = None" by (simp_all add: demo_gateway_def)
  obtain gw1 where c: "write_merge ''s'' ''f'' ''1'' (run_gateway [] demo_gateway) = (Inr (), gw1)"
    by (simp add: write_merge_def run_gateway_def z)
  show ?thesis
    using merge_conflict_detected [OF z c, of "[(10, Restart []), (20, MergeReset ''t'' [])]" "''2''"] c
    by (auto simp: resets_def)
qed

section \<open>A restart\<close>

text \<open>
  A restart fakes no life. Right after a start every runtime the gateway knows is a placeholder:
  its status is unknown, it has no sign of life, and it is not hot, whatever the tables of the former
  process were.
\<close>

theorem restart_not_hot:
  "list_all (\<lambda>(k, r). rt_status r = ''unknown'' \<and> rt_last_activity r = 0 \<and> \<not> gw_is_hot r) (gw_runtimes (gateway_start now toks gw))"
proof -
  define placeholder where "placeholder = (\<lambda>(k :: string, r). rt_status r = ''unknown'' \<and> rt_last_activity r = 0 \<and> \<not> gw_is_hot r)"
  have new: "placeholder (k, restored_runtime c rid m)" for k c rid m
    by (simp add: placeholder_def restored_runtime_def new_runtime_def gw_is_hot_def)
  have "list_all placeholder (gw_runtimes (restore_manifests t ms g))" if "list_all placeholder (gw_runtimes g)" for t ms g
    using that
  proof (induction t ms g rule: restore_manifests.induct)
    case (2 t m tok ms g)
    have "list_all placeholder (gw_runtimes (persist_control_state t (restored_runtime (gw_control g) i m)
        (put_runtime (restored_runtime (gw_control g) i m) g)))" for i
      using "2.prems" new by (auto simp: list_all_iff dest!: set_update_cases)
    then show ?case using "2.IH" "2.prems" by (auto simp: Let_def)
  qed simp
  then show ?thesis unfolding placeholder_def [symmetric]
    by (simp add: gateway_start_def restore_runtimes_from_park_def Let_def split: sum.split)
qed

text \<open>
  A heartbeat for such a placeholder sets its presence, and that alone makes it hot: no registration
  is needed.
\<close>

lemma heartbeat_makes_placeholder_hot:
  assumes "map_of (gw_runtimes gw) rid = Some (restored_runtime c rid m)" "pm_agent_type m \<in> {[], ''omp''}"
  shows "\<exists>r. map_of (gw_runtimes (snd (runtime_heartbeat now rid gw))) rid = Some r \<and> gw_is_hot r \<and> rt_status r = ''unknown''"
  using assms
  by (auto simp: runtime_heartbeat_def require_runtime_def restored_runtime_def new_runtime_def gw_is_hot_def or_else_def Let_def)

text \<open>A release that names no owner gives up the role of anyone.\<close>

lemma anonymous_release:
  "map_of (gw_claims gw) (claim_key sid aid) = Some c \<Longrightarrow> fst (session_release sid aid [] gw) = Inr True"
  by (simp add: session_release_def)

end
