(* ===== verification/Gateway_Send.thy ===== *)
theory Gateway_Send
  imports Gateway_Safety
begin

text \<open>
  \<open>runtime_send\<close> of \<open>gateway/service.py\<close>, in the stages of the source: the command is queued, its
  message goes to the mailbox of the agent, and the state of the runtime decides how far it gets.

  Between the stages other threads may run; a wait for the binding ends before the last stage, which
  reads the record of the runtime again. \<open>sha\<close> is \<open>sha256\<close>, \<open>cmd\<close> the fresh command id, \<open>suf\<close> the random
  suffix of the message id, and \<open>etext\<close> the text of an error.
\<close>

section \<open>Stages\<close>

record send_request =
  sq_runtime_id :: string
  sq_request_id :: string
  sq_body :: string
  sq_payload_hash :: string
  sq_from :: string
  sq_subject :: string
  sq_kind :: string
  sq_reply_to :: string
  sq_run_id :: string
  sq_require_ack :: bool

datatype stage = Answer "gateway_error + command_result" | Go runtime_record

definition set_command :: "instant \<Rightarrow> string \<Rightarrow> command_update \<Rightarrow> gateway \<Rightarrow> gateway" where
  "set_command now req u gw = gw\<lparr>gw_control := snd (update_command now req u (gw_control gw))\<rparr>"

definition answer_now :: "string \<Rightarrow> gateway \<Rightarrow> gateway_error + command_result" where
  "answer_now req gw = (case get_command req (gw_control gw) of
       Some row \<Rightarrow> Inr (command_result_of row)
     | None \<Rightarrow> Inl (GwError ''NOT_FOUND''))"

text \<open>Setting state and detail, and answering with the row.\<close>

definition settle :: "instant \<Rightarrow> string \<Rightarrow> string \<Rightarrow> dict \<Rightarrow> gateway \<Rightarrow> (gateway_error + command_result) \<times> gateway" where
  "settle now req st detail gw =
     (let gw1 = set_command now req (no_update\<lparr>cu_state := Some st, cu_detail := Some detail\<rparr>) gw in
      (answer_now req gw1, gw1))"

definition states_detail :: "runtime_record \<Rightarrow> dict" where
  "states_detail r = [(''presence'', JStr (rt_presence r)), (''binding'', JStr (rt_binding r)),
     (''agent_state'', JStr (rt_agent_state r))]"

definition send_enqueue ::
  "(string \<Rightarrow> string) \<Rightarrow> string \<Rightarrow> instant \<Rightarrow> send_request \<Rightarrow> gateway \<Rightarrow> stage \<times> gateway" where
  "send_enqueue sha cmd now a gw =
     (if sq_runtime_id a = [] \<or> sq_request_id a = [] then (Answer (Inl (GwError ''PROTOCOL'')), gw)
      else case require_runtime (sq_runtime_id a) gw of
        Inl e \<Rightarrow> (Answer (Inl e), gw)
      | Inr r \<Rightarrow>
          (let hash = (if sq_payload_hash a = [] then sha (sq_body a) else sq_payload_hash a) in
           if hash = [] then (Answer (Inl (GwError ''PROTOCOL'')), gw)
           else case get_command (sq_request_id a) (gw_control gw) of
             Some row \<Rightarrow>
               if cm_payload_hash row \<noteq> hash then (Answer (Inl (GwError ''IDEMPOTENCY_CONFLICT'')), gw)
               else (Answer (Inr (command_result_of row)), gw)
           | None \<Rightarrow>
               (case enqueue_command now (sq_request_id a) cmd (sq_runtime_id a) (rt_generation r) hash ''QUEUED''
                   (rt_binding_epoch r) (rt_backend r) [] (gw_control gw) of
                  (created, c1) \<Rightarrow>
                    (let gw1 = gw\<lparr>gw_control := c1\<rparr> in
                     if \<not> created then (Answer (answer_now (sq_request_id a) gw1), gw1)
                     else if rt_runtime r \<notin> {[], ''omp''}
                     then (Answer (Inl (GwError ''UNSUPPORTED_RUNTIME'')),
                       snd (settle now (sq_request_id a) ''FAILED_SAFE''
                         ([(''gate'', JStr ''no_plugin_consumer''), (''backend'', JStr (rt_runtime r))] @ states_detail r) gw1))
                     else (Go r, gw1)))))"

definition mail_args :: "send_request \<Rightarrow> runtime_record \<Rightarrow> send_args" where
  "mail_args a r = \<lparr>sn_from = sq_from a, sn_to = rt_agent_id r, sn_subject = sq_subject a, sn_body = sq_body a,
     sn_kind = sq_kind a, sn_reply_to = sq_reply_to a, sn_run_id = sq_run_id a, sn_request_id = sq_request_id a,
     sn_command_id = sq_request_id a, sn_trace_id = [], sn_causation_id = [], sn_attachments = [],
     sn_msg_id = None, sn_require_ack = sq_require_ack a, sn_receipt_type = []\<rparr>"

text \<open>The mailbox write. Every failure is answered with \<open>FAILED_SAFE\<close>.\<close>

definition send_mail ::
  "(store_error \<Rightarrow> string) \<Rightarrow> string \<Rightarrow> instant \<Rightarrow> send_request \<Rightarrow> runtime_record \<Rightarrow> gateway \<Rightarrow> stage \<times> gateway" where
  "send_mail etext suf now a r gw =
     (let fail = (\<lambda>t s'. case settle now (sq_request_id a) ''FAILED_SAFE'' [(''reason'', JStr t)] (gw\<lparr>gw_tree := s'\<rparr>) of
                    (res, gw1) \<Rightarrow> (Answer res, gw1)) in
      case service_send now suf (rt_session_id r) (mail_args a r) (gw_tree gw) of
        Some (Inr rcpt, s') \<Rightarrow>
          if sv_status rcpt = ''failed''
          then fail (case sv_error rcpt of Some e \<Rightarrow> etext e | None \<Rightarrow> ''runtime_send mailbox failed'') s'
          else (Go r, set_command now (sq_request_id a)
            (no_update\<lparr>cu_msg_id := Some (sv_msg_id rcpt), cu_state := Some ''QUEUED'',
              cu_detail := Some [(''mailbox'', JStr ''persisted''), (''msg_id'', JStr (sv_msg_id rcpt))]\<rparr>)
            (gw\<lparr>gw_tree := s'\<rparr>))
      | Some (Inl e, s') \<Rightarrow> fail (etext e) s'
      | None \<Rightarrow> fail [] (gw_tree gw))"

definition revive_step ::
  "(park_error \<Rightarrow> string) \<Rightarrow> instant \<Rightarrow> send_request \<Rightarrow> runtime_record \<Rightarrow> gateway \<Rightarrow> (gateway_error + command_result) \<times> gateway" where
  "revive_step ptext now a r gw =
     (let gw1 = set_command now (sq_request_id a)
            (no_update\<lparr>cu_state := Some ''REVIVING'', cu_epoch := Some (rt_binding_epoch r), cu_backend := Some (rt_backend r),
              cu_detail := Some [(''revive'', JStr ''starting''), (''agent_state'', JStr (rt_agent_state r))]\<rparr>) gw in
      case park_revive (rt_review_key r) (sq_body a) (gw_park gw1) of
        (Inl e, p) \<Rightarrow> settle now (sq_request_id a) ''FAILED_SAFE'' [(''revive_error'', JStr (ptext e))] (gw1\<lparr>gw_park := p\<rparr>)
      | (Inr rv, p) \<Rightarrow>
          if rv_success rv \<and> rv_method rv \<in> {''hot'', ''warm''}
          then settle now (sq_request_id a) ''REVIVING'' [(''revive'', JStr (rv_method rv))] (gw1\<lparr>gw_park := p\<rparr>)
          else if rv_success rv \<and> rv_method rv = ''cold''
          then settle now (sq_request_id a) ''QUEUED'' [(''gate'', JStr ''binding_pending''), (''revive'', JStr ''cold'')]
            (gw1\<lparr>gw_park := p\<rparr>)
          else settle now (sq_request_id a) ''FAILED_SAFE'' [(''revive_failed'', JStr (rv_method rv))] (gw1\<lparr>gw_park := p\<rparr>))"

definition send_gate ::
  "(park_error \<Rightarrow> string) \<Rightarrow> instant \<Rightarrow> send_request \<Rightarrow> runtime_record \<Rightarrow> gateway \<Rightarrow> (gateway_error + command_result) \<times> gateway" where
  "send_gate ptext now a r0 gw =
     (let r = (case map_of (gw_runtimes gw) (sq_runtime_id a) of Some cur \<Rightarrow> cur | None \<Rightarrow> r0) in
      if \<not> gw_is_hot r
      then settle now (sq_request_id a) ''QUEUED''
        ((''gate'', JStr (if rt_binding r \<noteq> ''bound'' then ''binding_pending'' else ''not_hot'')) # states_detail r) gw
      else if rt_agent_state r = ''ended'' then revive_step ptext now a r gw
      else (answer_now (sq_request_id a) gw, gw))"

definition runtime_send ::
  "(string \<Rightarrow> string) \<Rightarrow> (store_error \<Rightarrow> string) \<Rightarrow> (park_error \<Rightarrow> string) \<Rightarrow> string \<Rightarrow> string \<Rightarrow> instant \<Rightarrow> send_request \<Rightarrow>
   gateway \<Rightarrow> (gateway_error + command_result) \<times> gateway" where
  "runtime_send sha etext ptext cmd suf now a gw = (case send_enqueue sha cmd now a gw of
       (Answer res, gw1) \<Rightarrow> (res, gw1)
     | (Go r, gw1) \<Rightarrow> (case send_mail etext suf now a r gw1 of
           (Answer res, gw2) \<Rightarrow> (res, gw2)
         | (Go r1, gw2) \<Rightarrow> send_gate ptext now a r1 gw2))"

section \<open>A request is carried out once\<close>

datatype command_op =
    Method gateway_op
  | Ack ack_args
  | Send string string send_request

fun command_step ::
  "(string \<Rightarrow> string) \<Rightarrow> (store_error \<Rightarrow> string) \<Rightarrow> (park_error \<Rightarrow> string) \<Rightarrow> instant \<Rightarrow> command_op \<Rightarrow> gateway \<Rightarrow> gateway" where
  "command_step sha etext ptext now (Method op) gw = gateway_step now op gw"
| "command_step sha etext ptext now (Ack a) gw = gw\<lparr>gw_control := snd (runtime_command_ack now a (gw_control gw))\<rparr>"
| "command_step sha etext ptext now (Send cmd suf a) gw = snd (runtime_send sha etext ptext cmd suf now a gw)"

definition run_commands ::
  "(string \<Rightarrow> string) \<Rightarrow> (store_error \<Rightarrow> string) \<Rightarrow> (park_error \<Rightarrow> string) \<Rightarrow> (instant \<times> command_op) list \<Rightarrow> gateway \<Rightarrow> gateway" where
  "run_commands sha etext ptext ops gw = fold (\<lambda>(now, op). command_step sha etext ptext now op) ops gw"

text \<open>The table has a command with this request id, command id and payload.\<close>

definition knows :: "string \<Rightarrow> string \<Rightarrow> string \<Rightarrow> gateway \<Rightarrow> bool" where
  "knows req cid hash gw \<longleftrightarrow> (\<exists>row. get_command req (gw_control gw) = Some row \<and> cm_command_id row = cid \<and>
     cm_payload_hash row = hash)"

lemma method_commands: "ct_commands (gw_control (gateway_step now op gw)) = ct_commands (gw_control gw)"
proof (cases op)
  case Sweep
  have "ct_commands (gw_control (if c then x else save_peers x)) = ct_commands (gw_control x)" for c x
    by (simp add: commands.steps)
  then show ?thesis by (simp add: Sweep sweep_once_def Let_def commands.steps)
next
  case (Restart toks)
  have "ct_commands (gw_control (restore_manifests t ms g)) = ct_commands (gw_control g)" for t ms g
    by (induction t ms g rule: restore_manifests.induct) (simp_all add: Let_def commands.steps)
  moreover have "gw_control (restore_merges (restore_peers g)) = gw_control g" for g
    by (simp add: restore_merges_def restore_peers_def split: option.splits json.splits)
  ultimately show ?thesis
    by (simp add: Restart gateway_start_def restore_runtimes_from_park_def Let_def split: sum.splits)
qed (simp_all add: session_claim_def session_release_def write_merge_def merge_reset_def save_merges_def Let_def
    commands.register commands.declare_rt commands.heartbeat commands.set_context commands.event_in commands.life
    commands.stop commands.purge split: option.split)

lemma knows_cong: "ct_commands (gw_control gw') = ct_commands (gw_control gw) \<Longrightarrow> knows req cid hash gw' = knows req cid hash gw"
  by (simp add: knows_def get_command_def)

lemma knows_set [simp]: "knows req cid hash gw \<Longrightarrow> knows req cid hash (set_command now q u gw)"
  by (auto simp: knows_def set_command_def get_updated updated_row_def)

lemma knows_others [simp]:
  "knows req cid hash (gw\<lparr>gw_tree := s\<rparr>) = knows req cid hash gw" "knows req cid hash (gw\<lparr>gw_park := p\<rparr>) = knows req cid hash gw"
  by (simp_all add: knows_def)

lemma knows_settle: "knows req cid hash gw \<Longrightarrow> knows req cid hash (snd (settle now q st d gw))"
  by (simp add: settle_def Let_def)

lemma knows_ack: "knows req cid hash gw \<Longrightarrow> knows req cid hash (gw\<lparr>gw_control := snd (runtime_command_ack now a (gw_control gw))\<rparr>)"
  using ack_row by (fastforce simp: knows_def)

lemma knows_enqueue: "knows req cid hash gw \<Longrightarrow> knows req cid hash (snd (send_enqueue sha cmd now a gw))"
proof -
  assume k: "knows req cid hash gw"
  have "knows req cid hash (gw\<lparr>gw_control := c1\<rparr>)"
    if "enqueue_command t q c i g h st ep be m (gw_control gw) = (created, c1)" for t q c i g h st ep be m created c1
    using k that by (auto simp: knows_def enqueue_command_def get_command_def row_of_append split: if_splits)
  then show ?thesis using k
    by (auto simp: send_enqueue_def Let_def knows_settle split: sum.split option.split prod.split)
qed

lemma knows_mail: "knows req cid hash gw \<Longrightarrow> knows req cid hash (snd (send_mail etext suf now a r gw))"
  by (auto simp: send_mail_def Let_def split: option.split prod.split sum.split) (metis knows_others(1) knows_settle snd_conv)+

lemma knows_gate: "knows req cid hash gw \<Longrightarrow> knows req cid hash (snd (send_gate ptext now a r gw))"
  by (auto simp: send_gate_def revive_step_def Let_def intro!: knows_settle split: prod.split sum.split)

lemma knows_send: "knows req cid hash gw \<Longrightarrow> knows req cid hash (snd (runtime_send sha etext ptext cmd suf now a gw))"
proof -
  assume k: "knows req cid hash gw"
  obtain s1 g1 where e: "send_enqueue sha cmd now a gw = (s1, g1)" by fastforce
  with k have k1: "knows req cid hash g1" using knows_enqueue by (metis snd_conv)
  show ?thesis
  proof (cases s1)
    case (Go r)
    obtain s2 g2 where m: "send_mail etext suf now a r g1 = (s2, g2)" by fastforce
    with k1 have "knows req cid hash g2" using knows_mail by (metis snd_conv)
    then show ?thesis using knows_gate by (cases s2) (simp_all add: runtime_send_def e Go m)
  qed (simp add: runtime_send_def e k1)
qed

lemma knows_step: "knows req cid hash gw \<Longrightarrow> knows req cid hash (command_step sha etext ptext now op gw)"
  by (cases op) (simp_all add: knows_cong [OF method_commands] knows_ack knows_send)

lemma knows_run: "knows req cid hash gw \<Longrightarrow> knows req cid hash (run_commands sha etext ptext ops gw)"
  unfolding run_commands_def by (induction ops arbitrary: gw) (auto simp: knows_step)

definition request_hash :: "(string \<Rightarrow> string) \<Rightarrow> send_request \<Rightarrow> string" where
  "request_hash sha a = (if sq_payload_hash a = [] then sha (sq_body a) else sq_payload_hash a)"

lemma settle_answer: "fst (settle now req st d gw) = answer_now req (snd (settle now req st d gw))"
  by (simp add: settle_def Let_def)

lemma gate_answer: "fst (send_gate ptext now a r gw) = answer_now (sq_request_id a) (snd (send_gate ptext now a r gw))"
  by (auto simp: send_gate_def revive_step_def Let_def settle_answer split: prod.split sum.split)

lemma mail_answer: "send_mail etext suf now a r gw = (Answer res, gw1) \<Longrightarrow> res = answer_now (sq_request_id a) gw1"
  using settle_answer [of now "sq_request_id a"]
  by (auto simp: send_mail_def Let_def split: option.splits prod.splits sum.splits if_splits) (metis fst_conv snd_conv)+

lemma mail_runtime: "send_mail etext suf now a r gw = (Go r1, gw1) \<Longrightarrow> r1 = r"
  by (auto simp: send_mail_def Let_def split: option.splits prod.splits sum.splits if_splits)

text \<open>The first stage on a request that is new, and on one that is known.\<close>

lemma enqueue_new:
  assumes "send_enqueue sha cmd now a gw = (Go r, gw1)"
  shows "map_of (gw_runtimes gw) (sq_runtime_id a) = Some r \<and> get_command (sq_request_id a) (gw_control gw) = None \<and>
    knows (sq_request_id a) cmd (request_hash sha a) gw1 \<and> gw_tree gw1 = gw_tree gw \<and> gw_runtimes gw1 = gw_runtimes gw \<and>
    rt_runtime r \<in> {[], ''omp''} \<and> gw_park gw1 = gw_park gw"
  using assms
  by (auto simp: send_enqueue_def require_runtime_def Let_def enqueue_command_def knows_def get_command_def row_of_append
      row_of_Cons request_hash_def split: option.splits sum.splits prod.splits if_splits)

lemma enqueue_answer:
  assumes "send_enqueue sha cmd now a gw = (Answer (Inr res), gw1)"
  shows "gw1 = gw \<and> (\<exists>row. get_command (sq_request_id a) (gw_control gw) = Some row \<and>
    cm_payload_hash row = request_hash sha a \<and> res = command_result_of row)"
  using assms
  by (auto simp: send_enqueue_def require_runtime_def Let_def enqueue_command_def get_command_def
      request_hash_def split: option.splits sum.splits prod.splits if_splits)

lemma send_knows:
  assumes "runtime_send sha etext ptext cmd suf now a gw = (Inr res, gw1)"
  shows "knows (sq_request_id a) (cr_command_id res) (request_hash sha a) gw1"
proof -
  obtain s1 g1 where e: "send_enqueue sha cmd now a gw = (s1, g1)" by fastforce
  have known: "cid = cr_command_id res" if "knows (sq_request_id a) cid h gw1" "answer_now (sq_request_id a) gw1 = Inr res" for cid h
    using that by (auto simp: knows_def answer_now_def command_result_of_def)
  show ?thesis
  proof (cases s1)
    case (Answer x)
    then have "x = Inr res" "gw1 = g1" using assms e by (simp_all add: runtime_send_def)
    then show ?thesis using enqueue_answer [of sha cmd now a gw res g1] e Answer
      by (auto simp: knows_def command_result_of_def)
  next
    case (Go r)
    then have k: "knows (sq_request_id a) cmd (request_hash sha a) g1" using enqueue_new e by blast
    obtain s2 g2 where m: "send_mail etext suf now a r g1 = (s2, g2)" by fastforce
    have k2: "knows (sq_request_id a) cmd (request_hash sha a) g2" using knows_mail [OF k, of etext suf now a r] m by simp
    show ?thesis
    proof (cases s2)
      case (Answer x)
      then have "x = Inr res" "gw1 = g2" using assms e Go m by (simp_all add: runtime_send_def)
      moreover have "x = answer_now (sq_request_id a) g2" using mail_answer m Answer by blast
      ultimately show ?thesis using known k2 by metis
    next
      case g: (Go r1)
      have eq: "send_gate ptext now a r1 g2 = (Inr res, gw1)" using assms e Go m g by (simp add: runtime_send_def)
      then have "knows (sq_request_id a) cmd (request_hash sha a) gw1" using knows_gate [OF k2, of ptext now a r1] by simp
      moreover have "answer_now (sq_request_id a) gw1 = Inr res" using gate_answer [of ptext now a r1 g2] eq by simp
      ultimately show ?thesis using known by metis
    qed
  qed
qed

text \<open>
  C26. A request is carried out at most once. After \<open>runtime_send\<close> has answered a request, and
  whatever the gateway did since then (methods, acknowledgements, other requests, restarts), sending
  the same request id again to a runtime it knows writes nothing at all: with the same payload it
  answers with the command of the first call, with another payload it is refused as a conflict.
\<close>

theorem request_carried_out_once:
  fixes gw1 :: gateway and ops :: "(instant \<times> command_op) list"
    and sha :: "string \<Rightarrow> string" and etext :: "store_error \<Rightarrow> string" and ptext :: "park_error \<Rightarrow> string"
  defines "gw2 \<equiv> run_commands sha etext ptext ops gw1"
  assumes first: "runtime_send sha etext ptext cmd suf now a gw = (Inr res, gw1)"
    and again: "sq_request_id b = sq_request_id a" "sq_request_id a \<noteq> []" "sq_runtime_id b \<noteq> []" "request_hash sha b \<noteq> []"
      "map_of (gw_runtimes gw2) (sq_runtime_id b) = Some r"
  shows "if request_hash sha b = request_hash sha a
    then \<exists>res'. runtime_send sha etext ptext cmd' suf' later b gw2 = (Inr res', gw2) \<and> cr_command_id res' = cr_command_id res
    else runtime_send sha etext ptext cmd' suf' later b gw2 = (Inl (GwError ''IDEMPOTENCY_CONFLICT''), gw2)"
proof -
  have "knows (sq_request_id a) (cr_command_id res) (request_hash sha a) gw2"
    unfolding gw2_def by (rule knows_run [OF send_knows [OF first]])
  then obtain row where "get_command (sq_request_id b) (gw_control gw2) = Some row"
      "cm_command_id row = cr_command_id res" "cm_payload_hash row = request_hash sha a"
    using again(1) by (auto simp: knows_def)
  then show ?thesis using again
    by (auto simp: runtime_send_def send_enqueue_def require_runtime_def Let_def request_hash_def command_result_of_def split: if_splits)
qed

section \<open>How far a request gets\<close>

lemma command_set:
  assumes "get_command req (gw_control gw) = Some row" "u \<noteq> no_update"
  shows "get_command req (gw_control (set_command now req u gw)) = Some (updated_row now u row)"
  using assms by (simp add: set_command_def get_updated)

lemma tree_set [simp]: "gw_tree (set_command now req u gw) = gw_tree gw" "gw_runtimes (set_command now req u gw) = gw_runtimes gw"
  by (simp_all add: set_command_def)

lemma state_update: "no_update\<lparr>cu_state := Some st, cu_detail := Some d\<rparr> \<noteq> no_update"
  by (simp add: no_update_def)

lemma settled:
  assumes "get_command req (gw_control gw) = Some row"
  shows "\<exists>res gw1. settle now req st d gw = (Inr res, gw1) \<and> cr_command_id res = cm_command_id row \<and>
    cr_msg_id res = cm_msg_id row \<and> cr_state res = st \<and> gw_tree gw1 = gw_tree gw \<and> gw_runtimes gw1 = gw_runtimes gw \<and>
    cr_status res = (if st = ''QUEUED'' \<and> dget d ''gate'' = Some (JStr ''binding_pending'') then ''binding_pending''
      else CMD_STATUS_BY_STATE st)"
  using assms
  by (simp add: settle_def Let_def answer_now_def command_set [OF _ state_update] command_result_of_def)
     (simp add: updated_row_def keep_def no_update_def)

text \<open>The last stage answers; it leaves the mailbox alone.\<close>

definition open_status :: "string \<Rightarrow> bool" where
  "open_status st \<longleftrightarrow> st \<in> {''mailbox_persisted'', ''binding_pending'', ''session_live''}"

lemma settled_status:
  assumes "get_command req (gw_control gw) = Some row" "st \<in> {''QUEUED'', ''REVIVING'', ''FAILED_SAFE''}"
  shows "\<exists>res gw1. settle now req st d gw = (Inr res, gw1) \<and> cr_command_id res = cm_command_id row \<and>
    cr_msg_id res = cm_msg_id row \<and> (open_status (cr_status res) \<or> cr_status res = ''failed_safe'') \<and>
    gw_tree gw1 = gw_tree gw \<and> gw_runtimes gw1 = gw_runtimes gw"
  using settled [OF assms(1), of now st d] assms(2) by (auto simp: CMD_STATUS_BY_STATE_def open_status_def)

lemma revive_outcome:
  assumes "get_command (sq_request_id a) (gw_control gw) = Some row"
  shows "\<exists>res gw1. revive_step ptext now a r gw = (Inr res, gw1) \<and> cr_command_id res = cm_command_id row \<and>
    cr_msg_id res = cm_msg_id row \<and> (open_status (cr_status res) \<or> cr_status res = ''failed_safe'') \<and>
    gw_tree gw1 = gw_tree gw \<and> gw_runtimes gw1 = gw_runtimes gw"
proof -
  define u where "u = no_update\<lparr>cu_state := Some ''REVIVING'', cu_epoch := Some (rt_binding_epoch r), cu_backend := Some (rt_backend r),
    cu_detail := Some [(''revive'', JStr ''starting''), (''agent_state'', JStr (rt_agent_state r))]\<rparr>"
  let ?g = "set_command now (sq_request_id a) u gw"
  obtain x p where pr: "park_revive (rt_review_key r) (sq_body a) (gw_park ?g) = (x, p)" by fastforce
  have "u \<noteq> no_update" by (simp add: u_def no_update_def)
  then have row: "get_command (sq_request_id a) (gw_control (?g\<lparr>gw_park := p\<rparr>)) = Some (updated_row now u row)"
    using assms by (simp add: command_set)
  have "cm_command_id (updated_row now u row) = cm_command_id row" "cm_msg_id (updated_row now u row) = cm_msg_id row"
    by (simp_all add: updated_row_def u_def no_update_def keep_def)
  then have s: "\<exists>res gw1. settle now (sq_request_id a) st d (?g\<lparr>gw_park := p\<rparr>) = (Inr res, gw1) \<and> cr_command_id res = cm_command_id row \<and>
      cr_msg_id res = cm_msg_id row \<and> (open_status (cr_status res) \<or> cr_status res = ''failed_safe'') \<and>
      gw_tree gw1 = gw_tree gw \<and> gw_runtimes gw1 = gw_runtimes gw"
    if "st \<in> {''QUEUED'', ''REVIVING'', ''FAILED_SAFE''}" for st d
    using settled_status [OF row that, of now d] by simp
  show ?thesis unfolding revive_step_def Let_def u_def [symmetric] pr by (cases x) (auto simp: s)
qed

lemma gate_outcome:
  assumes row: "get_command (sq_request_id a) (gw_control gw) = Some row"
    and new: "cm_state row = ''QUEUED''"
  shows "\<exists>res gw1. send_gate ptext now a r gw = (Inr res, gw1) \<and> cr_command_id res = cm_command_id row \<and>
    cr_msg_id res = cm_msg_id row \<and> (open_status (cr_status res) \<or> cr_status res = ''failed_safe'') \<and>
    gw_tree gw1 = gw_tree gw \<and> gw_runtimes gw1 = gw_runtimes gw"
proof -
  let ?r = "case map_of (gw_runtimes gw) (sq_runtime_id a) of Some cur \<Rightarrow> cur | None \<Rightarrow> r"
  consider "\<not> gw_is_hot ?r" | "gw_is_hot ?r" "rt_agent_state ?r = ''ended''" | "gw_is_hot ?r" "rt_agent_state ?r \<noteq> ''ended''" by blast
  then show ?thesis
  proof cases
    case 1
    then show ?thesis unfolding send_gate_def Let_def using settled_status [OF row] by simp
  next
    case 2
    then show ?thesis unfolding send_gate_def Let_def using revive_outcome [OF row] by simp
  next
    case 3
    then show ?thesis unfolding send_gate_def Let_def answer_now_def
      by (simp add: row command_result_of_def new CMD_STATUS_BY_STATE_def open_status_def)
  qed
qed

lemma mail_outcome:
  assumes row: "get_command (sq_request_id a) (gw_control gw) = Some row"
  obtains (failed) res gw1 where "send_mail etext suf now a r gw = (Answer (Inr res), gw1)" "cr_status res = ''failed_safe''"
      "cr_command_id res = cm_command_id row" "gw_runtimes gw1 = gw_runtimes gw"
  | (stored) m gw1 row1 d where "send_mail etext suf now a r gw = (Go r, gw1)" "m = gen_msg_id now (sq_from a) suf"
      "send now [] (rt_session_id r) (mail_args a r\<lparr>sn_msg_id := Some m\<rparr>) (gw_tree gw) = Some (Inr d, gw_tree gw1)"
      "get_command (sq_request_id a) (gw_control gw1) = Some row1" "cm_command_id row1 = cm_command_id row"
      "cm_state row1 = ''QUEUED''" "cm_msg_id row1 = m" "gw_runtimes gw1 = gw_runtimes gw"
proof -
  define m where "m = gen_msg_id now (sq_from a) suf"
  have fail: thesis
    if eq: "send_mail etext suf now a r gw = (case settle now (sq_request_id a) ''FAILED_SAFE'' d (gw\<lparr>gw_tree := s'\<rparr>) of
      (res, gw1) \<Rightarrow> (Answer res, gw1))" for d s'
  proof -
    have "get_command (sq_request_id a) (gw_control (gw\<lparr>gw_tree := s'\<rparr>)) = Some row" using row by simp
    from settled [OF this, of now "''FAILED_SAFE''" d] obtain res gw1 where
      "settle now (sq_request_id a) ''FAILED_SAFE'' d (gw\<lparr>gw_tree := s'\<rparr>) = (Inr res, gw1)"
      "cr_command_id res = cm_command_id row" "gw_runtimes gw1 = gw_runtimes gw" "cr_status res = CMD_STATUS_BY_STATE ''FAILED_SAFE''"
      by auto
    then show thesis using eq by (intro failed [of res gw1]) (simp_all add: CMD_STATUS_BY_STATE_def)
  qed
  have id: "sn_msg_id (mail_args a r) = None" "sn_from (mail_args a r) = sq_from a" by (simp_all add: mail_args_def)
  show thesis
  proof (cases "send now [] (rt_session_id r) (mail_args a r\<lparr>sn_msg_id := Some m\<rparr>) (gw_tree gw)")
    case None
    then show thesis by (intro fail [of "[(''reason'', JStr [])]" "gw_tree gw"])
      (simp add: send_mail_def service_send_def Let_def id m_def)
  next
    case (Some x)
    obtain y s' where x: "x = (y, s')" by fastforce
    show thesis
    proof (cases y)
      case (Inl e)
      show thesis
        using Some x Inl by (intro fail [of "[(''reason'', JStr (etext e))]" s'])
          (simp add: send_mail_def service_send_def Let_def id m_def failed_receipt_def)
    next
      case (Inr d)
      define u where "u = no_update\<lparr>cu_msg_id := Some m, cu_state := Some ''QUEUED'',
        cu_detail := Some [(''mailbox'', JStr ''persisted''), (''msg_id'', JStr m)]\<rparr>"
      have "u \<noteq> no_update" by (simp add: u_def no_update_def)
      then have r1: "get_command (sq_request_id a) (gw_control (set_command now (sq_request_id a) u (gw\<lparr>gw_tree := s'\<rparr>))) =
          Some (updated_row now u row)"
        using row by (simp add: command_set)
      have eq: "send_mail etext suf now a r gw = (Go r, set_command now (sq_request_id a) u (gw\<lparr>gw_tree := s'\<rparr>))"
        using Some x Inr by (simp add: send_mail_def service_send_def Let_def id m_def delivered_receipt_def u_def)
      show thesis
        by (rule stored [OF eq m_def _ r1]) (use Some x Inr in \<open>simp_all add: updated_row_def u_def no_update_def keep_def\<close>)
    qed
  qed
qed

text \<open>A message under a new id reaches the inbox of its recipient with every field that was given.\<close>

lemma direct_new_record:
  assumes "send now [] sid (x\<lparr>sn_msg_id := Some m\<rparr>) s = Some (Inr d, s')" "sn_to x \<noteq> BROADCAST_TO"
    and "find_existing s [inbox_file sid (sn_to x) m, history_file sid m] = None"
  shows "\<exists>j refs. load_at s' (inbox_file sid (sn_to x) m) = Loaded (JObj j) \<and>
    message_from_dict j = Inr (send_message now sid x m refs)"
  using assms(1)
proof (cases rule: send_cases)
  case (new rs refs m')
  have rs: "rs = [sn_to x]" using send_checks_direct [OF new(1)] assms(2) by simp
  have m: "m' = m" using new(3) by simp
  have eq: "send_message now sid (x\<lparr>sn_msg_id := Some m\<rparr>) m refs = send_message now sid x m refs" by (simp add: send_message_def)
  obtain c where c: "load_at s' (inbox_file sid (sn_to x) m) =
      Loaded (JObj (dset (message_to_dict (send_message now sid x m refs)) ''_cursor'' (JStr c)))"
    by (rule send_new_record [OF new(2)]) (simp only: rs m eq list.set insert_iff simp_thms)
  moreover have "message_from_dict (dset (message_to_dict (send_message now sid x m refs)) ''_cursor'' (JStr c)) =
      Inr (send_message now sid x m refs)"
    by (simp only: message_from_dict_cursor message_from_to_dict message_typed_send)
  ultimately show ?thesis by blast
next
  case (replay rs refs m' d)
  have "rs = [sn_to x]" using send_checks_direct [OF replay(1)] assms(2) by simp
  then show ?thesis using assms(3) replay(2,4) by (simp del: find_existing.simps)
qed

lemma enqueue_refused:
  assumes "send_enqueue sha cmd now a gw = (Answer (Inl e), gw1)"
  shows "gw_tree gw1 = gw_tree gw \<and> gw_park gw1 = gw_park gw"
  using assms
  by (auto simp: send_enqueue_def require_runtime_def Let_def settle_def set_command_def
      split: option.splits sum.splits prod.splits if_splits)


text \<open>
  The gate writes \<open>QUEUED\<close> whatever the row says: an acknowledgement that came in after the mailbox
  write is lost, a final one too (\<open>gateway/service.py\<close>, the updates with \<open>binding_pending\<close> and \<open>not_hot\<close>).
\<close>

lemma gate_overwrites_ack:
  assumes "get_command (sq_request_id a) (gw_control gw) = Some row" "cm_state row = ''TURN_TRIGGERED''"
    and "map_of (gw_runtimes gw) (sq_runtime_id a) = Some r" "\<not> gw_is_hot r"
  shows "\<exists>res gw1. send_gate ptext now a r gw = (Inr res, gw1) \<and> cr_state res = ''QUEUED''"
  using settled [OF assms(1), of now "''QUEUED''"] assms(3,4) by (fastforce simp: send_gate_def Let_def)

section \<open>An example\<close>

definition demo_alive :: gateway where
  "demo_alive = demo_gateway\<lparr>gw_runtimes := [(''r'', demo_runtime)]\<rparr>"

definition demo_send :: send_request where
  "demo_send = \<lparr>sq_runtime_id = ''r'', sq_request_id = ''q'', sq_body = ''go'', sq_payload_hash = [], sq_from = ''m'',
     sq_subject = ''steer'', sq_kind = ''TASK'', sq_reply_to = [], sq_run_id = [], sq_require_ack = False\<rparr>"

lemma demo_send_fields: "sq_runtime_id demo_send = ''r''" "sq_request_id demo_send = ''q''" "sq_body demo_send = ''go''"
  "sq_from demo_send = ''m''" "sq_kind demo_send = ''TASK''"
  by (simp_all add: demo_send_def)

lemma demo_send_fresh: "get_command ''q'' (gw_control demo_alive) = None"
  by (simp add: get_command_def demo_alive_def demo_gateway_def empty_control_def)

lemma demo_send_agent: "rt_session_id demo_runtime = ''s''" "rt_agent_id demo_runtime = ''w''" "rt_runtime demo_runtime = ''omp''"
  by (simp_all add: demo_runtime_def registered_def new_runtime_def demo_register_def)

lemma demo_send_answers:
  "\<exists>res gw1. runtime_send (\<lambda>b. ''h'') etext ptext ''c'' ''0'' 100 demo_send demo_alive = (Inr res, gw1) \<and>
     map_of (gw_runtimes gw1) ''r'' = Some demo_runtime"
proof -
  have "require_runtime ''r'' demo_alive = Inr demo_runtime" by (simp add: require_runtime_def demo_alive_def)
  then obtain g1 where e: "send_enqueue (\<lambda>b. ''h'') ''c'' 100 demo_send demo_alive = (Go demo_runtime, g1)"
    using demo_send_fresh demo_send_agent
    by (simp add: send_enqueue_def demo_send_def enqueue_command_def Let_def get_command_def)
  then have g1: "gw_runtimes g1 = [(''r'', demo_runtime)]" "knows (sq_request_id demo_send) ''c'' (request_hash (\<lambda>b. ''h'') demo_send) g1"
    using enqueue_new by (fastforce simp: demo_alive_def)+
  then obtain row where row: "get_command (sq_request_id demo_send) (gw_control g1) = Some row" by (auto simp: knows_def)
  show ?thesis
    using row
  proof (cases rule: mail_outcome [where etext = etext and suf = "''0''" and now = 100 and r = demo_runtime])
    case (failed res g2)
    then show ?thesis using e g1 by (simp add: runtime_send_def)
  next
    case (stored m g2 row1 d)
    then show ?thesis
      using gate_outcome [OF stored(4) stored(6), of ptext 100 demo_runtime] e g1 by (auto simp: runtime_send_def)
  qed
qed


theorem request_carried_out_once_witness:
  "\<exists>res gw1 res'. runtime_send (\<lambda>b. ''h'') (\<lambda>e. []) (\<lambda>e. []) ''c'' ''0'' 100 demo_send demo_alive = (Inr res, gw1) \<and>
     runtime_send (\<lambda>b. ''h'') (\<lambda>e. []) (\<lambda>e. []) ''d'' ''1'' 200 demo_send gw1 = (Inr res', gw1) \<and> cr_command_id res' = cr_command_id res"
proof -
  obtain res gw1 where s: "runtime_send (\<lambda>b. ''h'') (\<lambda>e. []) (\<lambda>e. []) ''c'' ''0'' 100 demo_send demo_alive = (Inr res, gw1)"
    and r: "map_of (gw_runtimes gw1) ''r'' = Some demo_runtime"
    using demo_send_answers by blast
  show ?thesis
    using request_carried_out_once [OF s, of demo_send "[]" demo_runtime "''d''" "''1''" 200] s r
    by (auto simp: run_commands_def demo_send_def request_hash_def)
qed

end
