(* ===== verification/Oracle_Trim.thy ===== *)
theory Oracle_Trim
  imports Park_Registry
begin

text \<open>
  The housekeeping of \<open>oracle.py\<close>: the events of finished turns that \<open>_strip_running_session\<close> removes
  while an oracle is running, and the released reviews that \<open>cmd_oracle_gc\<close> removes for good.

  The table \<open>event\<close> of the OpenCode database is a list of rows. The purge of the files and of the
  database rows of a session goes through other programs' data; the model keeps the list of the
  sessions that were given to it.
\<close>

section \<open>Finished turns of a running session\<close>

definition TURN_START_EVENT_TYPES :: "string list" where
  "TURN_START_EVENT_TYPES = [''session.next.agent.switched.1'', ''session.next.model.switched.1'']"

definition TURN_MARKER_DEDUP_GAP :: int where "TURN_MARKER_DEDUP_GAP = 3"

record oc_event =
  oe_session :: string
  oe_seq :: int
  oe_type :: string

definition is_marker :: "oc_event \<Rightarrow> bool" where
  "is_marker e \<longleftrightarrow> oe_type e \<in> set TURN_START_EVENT_TYPES"

definition is_turn_completed :: "oc_event list \<Rightarrow> int \<Rightarrow> bool" where
  "is_turn_completed events idx =
     (if idx < 0 \<or> int (length events) \<le> idx then False else list_ex is_marker (drop (nat idx + 1) events))"

text \<open>The loop over the events from index \<open>i\<close>; \<open>prev\<close> is the number of the last marker.\<close>

fun later_turns :: "int \<Rightarrow> nat \<Rightarrow> oc_event list \<Rightarrow> nat list" where
  "later_turns prev i [] = []"
| "later_turns prev i (e # es) =
     (if is_marker e
      then (if TURN_MARKER_DEDUP_GAP < oe_seq e - prev then [i] else []) @ later_turns (oe_seq e) (i + 1) es
      else later_turns prev (i + 1) es)"

definition turn_starts :: "oc_event list \<Rightarrow> nat list" where
  "turn_starts events = (case events of [] \<Rightarrow> [] | e # es \<Rightarrow> 0 # later_turns (oe_seq e) 1 es)"

record trim_result =
  tr_trimmed :: nat
  tr_kept :: nat
  tr_error :: "string option"

definition session_events :: "string \<Rightarrow> oc_event list \<Rightarrow> oc_event list" where
  "session_events sid db = sort_key oe_seq (filter (\<lambda>e. oe_session e = sid) db)"

text \<open>\<open>_strip_running_session\<close>; \<^term>\<open>None\<close> for a database that is not there.\<close>

definition strip_running_session :: "string \<Rightarrow> int \<Rightarrow> oc_event list option \<Rightarrow> trim_result \<times> oc_event list option" where
  "strip_running_session sid keep_recent db0 = (case db0 of
       None \<Rightarrow> (\<lparr>tr_trimmed = 0, tr_kept = 0, tr_error = Some ''opencode.db not found''\<rparr>, None)
     | Some db \<Rightarrow>
         if sid = [] then (\<lparr>tr_trimmed = 0, tr_kept = 0, tr_error = Some ''empty backend_session_id''\<rparr>, db0)
         else
           (let events = session_events sid db; starts = turn_starts events;
                n = length starts; k = nat (max 1 keep_recent);
                kept_all = (\<lparr>tr_trimmed = 0, tr_kept = length events, tr_error = None\<rparr>, db0) in
            if events = [] \<or> n \<le> k then kept_all
            else if \<not> list_all (\<lambda>i. is_turn_completed events (int i)) (take (n - k) starts) then kept_all
            else
              (let cutoff = oe_seq (events ! (starts ! (n - k)));
                   gone = (\<lambda>e. oe_session e = sid \<and> oe_seq e < cutoff);
                   trimmed = length (filter gone db) in
               (\<lparr>tr_trimmed = trimmed, tr_kept = length events - trimmed, tr_error = None\<rparr>,
                Some (filter (\<lambda>e. \<not> gone e) db)))))"

lemma later_turns_shift: "later_turns prev (i + d) es = map (\<lambda>j. j + d) (later_turns prev i es)"
proof (induction es arbitrary: prev i)
  case (Cons e es)
  then show ?case using Cons.IH [of "oe_seq e" "i + 1"] Cons.IH [of prev "i + 1"] by simp
qed simp

lemma later_turns_bounds: "j \<in> set (later_turns prev i es) \<Longrightarrow> i \<le> j \<and> j < i + length es \<and> is_marker (es ! (j - i))"
  by (induction es arbitrary: prev i) (fastforce split: if_splits simp: nth_Cons')+

lemma later_turns_sorted: "sorted_wrt (<) (later_turns prev i es)"
  by (induction es arbitrary: prev i) (auto dest: later_turns_bounds)

text \<open>What follows a later turn is what the loop finds from there on.\<close>

lemma later_turns_drop:
  assumes "drop p (later_turns prev i es) = k # rest"
  shows "rest = later_turns (oe_seq (es ! (k - i))) (k + 1) (drop (k - i + 1) es)"
  using assms
proof (induction es arbitrary: prev i p)
  case (Cons e es)
  show ?case
  proof (cases "is_marker e \<and> TURN_MARKER_DEDUP_GAP < oe_seq e - prev")
    case True
    show ?thesis
    proof (cases p)
      case 0
      with Cons.prems True show ?thesis by auto
    next
      case (Suc q)
      then have d: "drop q (later_turns (oe_seq e) (i + 1) es) = k # rest" using Cons.prems True by simp
      then have "k \<in> set (later_turns (oe_seq e) (i + 1) es)" by (metis in_set_dropD list.set_intros(1))
      then have "i + 1 \<le> k" using later_turns_bounds by blast
      then have e: "k - i = Suc (k - (i + 1))" by simp
      show ?thesis unfolding e using Cons.IH [OF d] by simp
    qed
  next
    case False
    obtain l where d: "drop p (later_turns l (i + 1) es) = k # rest"
      using Cons.prems False by (auto split: if_splits)
    then have "k \<in> set (later_turns l (i + 1) es)" by (metis in_set_dropD list.set_intros(1))
    then have "i + 1 \<le> k" using later_turns_bounds by blast
    then have e: "k - i = Suc (k - (i + 1))" by simp
    show ?thesis unfolding e using Cons.IH [OF d] by simp
  qed
qed simp


lemma turn_starts_bounds: "j \<in> set (turn_starts events) \<Longrightarrow> j < length events"
  by (cases events) (auto simp: turn_starts_def dest: later_turns_bounds)

lemma turn_starts_sorted: "sorted_wrt (<) (turn_starts events)"
  by (cases events) (auto simp: turn_starts_def later_turns_sorted dest: later_turns_bounds)

text \<open>The events from a turn on have that turn and the later ones.\<close>

lemma turn_starts_drop:
  assumes "p < length (turn_starts events)"
  shows "turn_starts (drop (turn_starts events ! p) events) = map (\<lambda>j. j - turn_starts events ! p) (drop p (turn_starts events))"
proof (cases p)
  case 0
  then show ?thesis by (cases events) (simp_all add: turn_starts_def)
next
  case (Suc q)
  obtain e es where ev: "events = e # es" using assms by (cases events) (auto simp: turn_starts_def)
  let ?l = "later_turns (oe_seq e) 1 es"
  have q: "q < length ?l" using assms by (simp add: ev Suc turn_starts_def)
  define k where "k = ?l ! q"
  have k: "turn_starts events ! p = k" by (simp add: ev Suc turn_starts_def k_def)
  have dr: "drop q ?l = k # drop (Suc q) ?l" unfolding k_def by (rule Cons_nth_drop_Suc [OF q, symmetric])
  have b: "1 \<le> k" "k < 1 + length es" using later_turns_bounds [of k "oe_seq e" 1 es] q by (auto simp: k_def)
  let ?r = "later_turns (oe_seq (es ! (k - 1))) 1 (drop k es)"
  have "drop (Suc q) ?l = later_turns (oe_seq (es ! (k - 1))) (1 + k) (drop k es)"
    using later_turns_drop [OF dr] b by simp
  then have rest: "drop (Suc q) ?l = map (\<lambda>j. j + k) ?r" by (simp only: later_turns_shift)
  have dk: "drop k events = es ! (k - 1) # drop k es"
    using b by (cases k) (simp_all add: ev Cons_nth_drop_Suc)
  show ?thesis
    unfolding k dk turn_starts_def [of "_ # _"] list.case
    using rest dr by (simp add: ev Suc turn_starts_def o_def)
qed

lemma drop_sorted_seq:
  assumes "sorted_wrt (<) (map f xs)" "c < length xs"
  shows "filter (\<lambda>e. \<not> f e < (f (xs ! c) :: int)) xs = drop c xs"
proof -
  have lt: "f (xs ! i) < f (xs ! j)" if "i < j" "j < length xs" for i j
    using assms(1) that by (simp add: sorted_wrt_iff_nth_less)
  have lo: "filter (\<lambda>e. \<not> f e < f (xs ! c)) (take c xs) = []"
    using lt [OF _ assms(2)] by (auto simp: filter_empty_conv in_set_conv_nth)
  have hi: "filter (\<lambda>e. \<not> f e < f (xs ! c)) (drop c xs) = drop c xs"
    unfolding filter_id_conv
  proof
    fix x
    assume "x \<in> set (drop c xs)"
    then obtain i where i: "i < length (drop c xs)" "drop c xs ! i = x" by (metis in_set_conv_nth)
    show "\<not> f x < f (xs ! c)"
    proof (cases i)
      case 0
      with i assms(2) show ?thesis by simp
    next
      case (Suc n)
      moreover have "c + i < length xs" using i(1) by simp
      ultimately show ?thesis using i lt [of c "c + i"] by simp
    qed
  qed
  show ?thesis using lo hi by (metis append_self_conv2 append_take_drop_id filter_append)
qed

section \<open>What is kept\<close>

lemma session_events_filter:
  "session_events sid (filter P db) = filter P (session_events sid db)"
  by (simp add: session_events_def filter_sort [symmetric] conj_commute cong: filter_cong)

lemma set_session_events: "set (session_events sid db) = {e \<in> set db. oe_session e = sid}"
  by (auto simp: session_events_def)

lemma length_session_events: "length (session_events sid db) = length (filter (\<lambda>e. oe_session e = sid) db)"
  by (simp add: session_events_def)

lemma session_events_numbered:
  assumes "distinct (map oe_seq (filter (\<lambda>e. oe_session e = sid) db))"
  shows "sorted_wrt (<) (map oe_seq (session_events sid db))"
  using assms by (simp add: session_events_def strict_sorted_iff distinct_map)

text \<open>The gate never stops a trim: a turn before a later one is always complete.\<close>

lemma later_turn_marker:
  assumes "p < length (turn_starts events)" "0 < p"
  shows "is_marker (events ! (turn_starts events ! p))"
proof -
  obtain e es where ev: "events = e # es" using assms by (cases events) (auto simp: turn_starts_def)
  have "turn_starts events ! p \<in> set (later_turns (oe_seq e) 1 es)"
    using assms by (cases p) (auto simp: ev turn_starts_def)
  then show ?thesis using later_turns_bounds by (fastforce simp: ev nth_Cons')
qed

lemma gate_open:
  assumes "k < length (turn_starts events)"
  shows "list_all (\<lambda>i. is_turn_completed events (int i)) (take k (turn_starts events))"
proof (cases "k = 0")
  case False
  let ?c = "turn_starts events ! k"
  have c: "?c < length events" "is_marker (events ! ?c)"
    using assms False turn_starts_bounds later_turn_marker by auto
  have "is_turn_completed events (int i)" if i: "i \<in> set (take k (turn_starts events))" for i
  proof -
    obtain p where "p < length (take k (turn_starts events))" "take k (turn_starts events) ! p = i"
      using i by (metis in_set_conv_nth)
    then have p: "p < k" "i = turn_starts events ! p" by auto
    then have "i < ?c" using turn_starts_sorted assms by (auto simp: sorted_wrt_iff_nth_less)
    then have "events ! ?c = drop (i + 1) events ! (?c - (i + 1))" "?c - (i + 1) < length (drop (i + 1) events)" "i < length events"
      using c(1) by auto
    then have "events ! ?c \<in> set (drop (i + 1) events)" "i < length events" by (metis nth_mem, simp)
    then show ?thesis using c(2) by (auto simp: is_turn_completed_def list_ex_iff)
  qed
  then show ?thesis by (simp add: list_all_iff)
qed simp

text \<open>Where the events that are kept begin.\<close>

definition keep_from :: "int \<Rightarrow> oc_event list \<Rightarrow> nat" where
  "keep_from keep_recent events =
     (let starts = turn_starts events; k = nat (max 1 keep_recent) in
      if length starts \<le> k then 0 else starts ! (length starts - k))"

lemma strip_cases:
  fixes keep_recent :: int
  assumes "sid \<noteq> []" and num: "distinct (map oe_seq (filter (\<lambda>e. oe_session e = sid) db))"
  defines "events \<equiv> session_events sid db"
  defines "c \<equiv> keep_from keep_recent (session_events sid db)"
  obtains db' where
    "strip_running_session sid keep_recent (Some db) =
       (\<lparr>tr_trimmed = c, tr_kept = length events - c, tr_error = None\<rparr>, Some db')"
    "session_events sid db' = drop c events"
    "filter (\<lambda>e. oe_session e \<noteq> sid) db' = filter (\<lambda>e. oe_session e \<noteq> sid) db"
proof -
  let ?starts = "turn_starts events" and ?k = "nat (max 1 keep_recent)"
  show thesis
  proof (cases "length ?starts \<le> ?k")
    case True
    then show thesis
      using assms(1) by (intro that [of db])
        (simp_all add: strip_running_session_def Let_def c_def keep_from_def events_def)
  next
    case False
    let ?n = "length ?starts - ?k"
    have n: "?n < length ?starts" using False by (simp add: max_def split: if_splits)
    have ne: "events \<noteq> []" using n by (auto simp: turn_starts_def)
    have c: "c = ?starts ! ?n" using False by (simp add: c_def keep_from_def events_def [symmetric] Let_def)
    have cl: "c < length events" using n turn_starts_bounds by (auto simp: c)
    let ?gone = "\<lambda>e. oe_session e = sid \<and> oe_seq e < oe_seq (events ! c)"
    have sorted: "sorted_wrt (<) (map oe_seq events)" unfolding events_def by (rule session_events_numbered [OF num])
    have kept: "session_events sid (filter (\<lambda>e. \<not> ?gone e) db) = drop c events"
    proof -
      have "session_events sid (filter (\<lambda>e. \<not> ?gone e) db) = filter (\<lambda>e. \<not> ?gone e) events"
        by (simp add: session_events_filter events_def)
      also have "\<dots> = filter (\<lambda>e. \<not> oe_seq e < oe_seq (events ! c)) events"
        by (rule filter_cong) (auto simp: events_def set_session_events)
      finally show ?thesis using drop_sorted_seq [OF sorted cl] by simp
    qed
    have "length (filter ?gone db) = length (filter (\<lambda>e. oe_seq e < oe_seq (events ! c)) events)"
      by (simp add: events_def session_events_filter [symmetric] length_session_events conj_commute)
    also have "\<dots> = length events - length (filter (\<lambda>e. \<not> oe_seq e < oe_seq (events ! c)) events)"
      using sum_length_filter_compl [of "\<lambda>e. oe_seq e < oe_seq (events ! c)" events] by linarith
    also have "\<dots> = c" using cl by (simp add: drop_sorted_seq [OF sorted cl])
    finally have t: "length (filter ?gone db) = c" .
    have "strip_running_session sid keep_recent (Some db) =
        (\<lparr>tr_trimmed = c, tr_kept = length events - c, tr_error = None\<rparr>, Some (filter (\<lambda>e. \<not> ?gone e) db))"
      using assms(1) False ne gate_open [OF n] t
      by (simp add: strip_running_session_def Let_def events_def [symmetric] c [symmetric])
    then show thesis using kept by (intro that [of "filter (\<lambda>e. \<not> ?gone e) db"]) (auto intro: filter_cong)
  qed
qed

text \<open>
  A running session loses finished turns only. With the events of the session numbered by distinct
  sequence numbers, a strip that keeps k turns (at least one) leaves a suffix of its events, with the
  current turn and all but the oldest turns up to k of them, and nothing of another session changes.
  The counts it reports add up, and a second strip finds nothing to remove.
\<close>

theorem strip_keeps_recent_turns:
  assumes "sid \<noteq> []" "distinct (map oe_seq (filter (\<lambda>e. oe_session e = sid) db))"
    and strip: "strip_running_session sid k (Some db) = (res, Some db')"
  shows "tr_error res = None \<and> session_events sid db' = drop (tr_trimmed res) (session_events sid db) \<and>
    length (turn_starts (session_events sid db')) = min (nat (max 1 k)) (length (turn_starts (session_events sid db))) \<and>
    filter (\<lambda>e. oe_session e \<noteq> sid) db' = filter (\<lambda>e. oe_session e \<noteq> sid) db \<and>
    tr_trimmed res + tr_kept res = length (session_events sid db) \<and>
    (\<exists>n. strip_running_session sid k (Some db') = (\<lparr>tr_trimmed = 0, tr_kept = n, tr_error = None\<rparr>, Some db'))"
proof -
  let ?es = "session_events sid db"
  define c where "c = keep_from k ?es"
  obtain d where d: "strip_running_session sid k (Some db) =
      (\<lparr>tr_trimmed = c, tr_kept = length ?es - c, tr_error = None\<rparr>, Some d)"
    "session_events sid d = drop c ?es" "filter (\<lambda>e. oe_session e \<noteq> sid) d = filter (\<lambda>e. oe_session e \<noteq> sid) db"
    unfolding c_def by (rule strip_cases [OF assms(1,2)])
  then have r: "res = \<lparr>tr_trimmed = c, tr_kept = length ?es - c, tr_error = None\<rparr>" "db' = d" using strip by simp_all
  have len: "length (turn_starts (drop c ?es)) = min (nat (max 1 k)) (length (turn_starts ?es))" and le: "c \<le> length ?es"
  proof -
    let ?n = "length (turn_starts ?es) - nat (max 1 k)"
    have "length (turn_starts (drop c ?es)) = min (nat (max 1 k)) (length (turn_starts ?es)) \<and> c \<le> length ?es"
    proof (cases "length (turn_starts ?es) \<le> nat (max 1 k)")
      case False
      then have n: "?n < length (turn_starts ?es)" by (simp add: max_def split: if_splits)
      then have "c = turn_starts ?es ! ?n" using False by (simp add: c_def keep_from_def Let_def)
      then show ?thesis using turn_starts_drop [OF n] turn_starts_bounds [OF nth_mem [OF n]] n False by simp
    qed (simp add: c_def keep_from_def)
    then show "length (turn_starts (drop c ?es)) = min (nat (max 1 k)) (length (turn_starts ?es))" "c \<le> length ?es" by auto
  qed
  have "\<exists>n. strip_running_session sid k (Some d) = (\<lparr>tr_trimmed = 0, tr_kept = n, tr_error = None\<rparr>, Some d)"
    using assms(1) len d(2) by (simp add: strip_running_session_def Let_def)
  then show ?thesis using d r len le by simp
qed

definition demo_turn :: "int \<Rightarrow> string \<Rightarrow> oc_event" where
  "demo_turn n ty = \<lparr>oe_session = ''s'', oe_seq = n, oe_type = ty\<rparr>"

definition demo_turns :: "oc_event list" where
  "demo_turns = [demo_turn 1 ''session.created'', demo_turn 5 ''text'', demo_turn 6 ''session.next.agent.switched.1'',
     demo_turn 7 ''session.next.model.switched.1'', demo_turn 9 ''text'', demo_turn 20 ''session.next.agent.switched.1'']"

theorem strip_keeps_recent_turns_witness:
  "\<exists>res db'. strip_running_session ''s'' 2 (Some demo_turns) = (res, Some db') \<and> tr_trimmed res = 2 \<and>
     session_events ''s'' db' = drop 2 demo_turns"
proof -
  have es: "session_events ''s'' demo_turns = demo_turns"
    by (simp add: session_events_def demo_turns_def demo_turn_def)
  have starts: "turn_starts demo_turns = [0, 2, 5]"
    by (simp add: turn_starts_def demo_turns_def demo_turn_def is_marker_def TURN_START_EVENT_TYPES_def TURN_MARKER_DEDUP_GAP_def)
  have num: "distinct (map oe_seq (filter (\<lambda>e. oe_session e = ''s'') demo_turns))"
    by (simp add: demo_turns_def demo_turn_def)
  obtain db' where s: "strip_running_session ''s'' 2 (Some demo_turns) =
      (\<lparr>tr_trimmed = 2, tr_kept = length demo_turns - 2, tr_error = None\<rparr>, Some db')"
    by (rule strip_cases [OF _ num, of 2]) (simp_all add: es keep_from_def starts Let_def)
  then show ?thesis
    using strip_keeps_recent_turns [OF _ num s] by (simp add: es)
qed

section \<open>Collecting released reviews\<close>

text \<open>
  \<open>cmd_oracle_gc\<close> over the park registry. Rows hold manifests as the registry writes them (a row that
  does not decode stands for corrupt text); \<open>gc_purged\<close> are the OpenCode sessions whose data was given
  to the purge. A purge that fails adds to the list of errors and changes nothing else.
\<close>

record gc_report =
  gc_scanned :: nat
  gc_skipped :: nat
  gc_cleaned :: nat
  gc_failed :: nat
  gc_purged :: "string list"

definition OPENCODE_SID_PREFIX :: string where "OPENCODE_SID_PREFIX = ''ses_''"

definition is_opencode_session_id :: "string \<Rightarrow> bool" where
  "is_opencode_session_id sid \<longleftrightarrow> prefix OPENCODE_SID_PREFIX sid"

definition gc_throttle :: "instant \<Rightarrow> instant \<Rightarrow> bool" where
  "gc_throttle now prev = (if now - prev < 24 * 3600 then False else True)"

definition gc_expired :: "instant \<Rightarrow> string \<Rightarrow> park_manifest \<Rightarrow> bool" where
  "gc_expired now lc m =
     (if pm_hard_expires_at m \<noteq> 0 \<and> pm_hard_expires_at m \<le> now then True
      else if lc = ''released_hard'' \<and> pm_soft_expires_at m \<noteq> 0 \<and> pm_soft_expires_at m \<le> now then True
      else pm_last_activity_at m \<noteq> 0 \<and> pm_last_activity_at m < now - 2 * 24 * 3600)"

definition gc_row :: "bool \<Rightarrow> instant \<Rightarrow> string \<times> park_row \<Rightarrow> gc_report \<times> park \<Rightarrow> gc_report \<times> park" where
  "gc_row dry_run now kr st = (case (kr, st) of ((k, r), (g, p)) \<Rightarrow>
     (let g1 = g\<lparr>gc_scanned := gc_scanned g + 1\<rparr> in
      case dict_to_manifest (pr_manifest r) of
        Inl _ \<Rightarrow> (g1\<lparr>gc_failed := gc_failed g1 + 1\<rparr>, p)
      | Inr m \<Rightarrow>
          if \<not> gc_expired now (pr_lifecycle r) m then (g1\<lparr>gc_skipped := gc_skipped g1 + 1\<rparr>, p)
          else if dry_run then (g1\<lparr>gc_cleaned := gc_cleaned g1 + 1\<rparr>, p)
          else
            (g1\<lparr>gc_cleaned := gc_cleaned g1 + 1,
               gc_purged := gc_purged g1 @ (if is_opencode_session_id (pm_backend_session_id m) then [pm_backend_session_id m] else [])\<rparr>,
             delete (pm_review_key m) p)))"

definition gc_released :: "park_row \<Rightarrow> bool" where
  "gc_released r \<longleftrightarrow> pr_lifecycle r = ''released_soft'' \<or> pr_lifecycle r = ''released_hard''"

definition oracle_gc :: "bool \<Rightarrow> instant \<Rightarrow> park \<Rightarrow> gc_report \<times> park" where
  "oracle_gc dry_run now p0 =
     (let p = init_db p0 in
      fold (gc_row dry_run now) (select_rows gc_released p)
        (\<lparr>gc_scanned = 0, gc_skipped = 0, gc_cleaned = 0, gc_failed = 0, gc_purged = []\<rparr>, p))"

text \<open>A row the collection removes.\<close>

definition gc_old :: "instant \<Rightarrow> park_row \<Rightarrow> bool" where
  "gc_old now r \<longleftrightarrow> (case dict_to_manifest (pr_manifest r) of Inr m \<Rightarrow> gc_expired now (pr_lifecycle r) m | Inl _ \<Rightarrow> False)"

lemma gc_fold:
  assumes "\<And>k r. (k, r) \<in> set rows \<Longrightarrow> \<exists>m. pr_manifest r = manifest_to_dict m \<and> pm_review_key m = k"
  shows "\<exists>g'. fold (gc_row dry now) rows (g, p) =
      (g', if dry then p else p\<lparr>pk_rows := filter (\<lambda>(k, _). k \<notin> fst ` set (filter (\<lambda>(_, r). gc_old now r) rows)) (pk_rows p)\<rparr>) \<and>
    gc_scanned g' = gc_scanned g + length rows \<and> gc_failed g' = gc_failed g \<and>
    gc_cleaned g' = gc_cleaned g + length (filter (\<lambda>(_, r). gc_old now r) rows) \<and>
    gc_skipped g' = gc_skipped g + length (filter (\<lambda>(_, r). \<not> gc_old now r) rows)"
  using assms(1)
proof (induction rows arbitrary: g p)
  case (Cons kr rows)
  obtain k r where kr: "kr = (k, r)" by fastforce
  obtain m where m: "pr_manifest r = manifest_to_dict m" "pm_review_key m = k" using Cons.prems [of k r] by (auto simp: kr)
  have "gc_old now r = gc_expired now (pr_lifecycle r) m" by (simp add: gc_old_def m)
  obtain g1 where g1: "gc_row dry now kr (g, p) = (g1, if gc_old now r \<and> \<not> dry then delete k p else p)"
      "gc_scanned g1 = gc_scanned g + 1" "gc_failed g1 = gc_failed g"
      "gc_cleaned g1 = gc_cleaned g + (if gc_old now r then 1 else 0)" "gc_skipped g1 = gc_skipped g + (if gc_old now r then 0 else 1)"
  proof (cases "gc_expired now (pr_lifecycle r) m")
    case True
    with m show thesis by (cases dry) (auto simp: gc_row_def kr gc_old_def Let_def intro!: that)
  next
    case False
    with m show thesis by (auto simp: gc_row_def kr gc_old_def Let_def intro!: that)
  qed
  have pres: "\<exists>m. pr_manifest r' = manifest_to_dict m \<and> pm_review_key m = k'" if "(k', r') \<in> set rows" for k' r'
    using that by (intro Cons.prems) simp
  show ?case
    using Cons.IH [OF pres, of g1 "if gc_old now r \<and> \<not> dry then delete k p else p"] g1
    by (auto simp: kr delete_def intro!: arg_cong2 [where f = pk_rows_update] filter_cong)
qed simp

text \<open>Every row the registry holds is under the key of its manifest.\<close>

definition keys_agree :: "park \<Rightarrow> bool" where
  "keys_agree p \<longleftrightarrow> list_all (\<lambda>(k, r). case dict_to_manifest (pr_manifest r) of Inr m \<Rightarrow> pm_review_key m = k | Inl _ \<Rightarrow> True) (pk_rows p)"

lemma in_selected:
  assumes "park_ok p" "(k, r) \<in> set (pk_rows p)"
  shows "k \<in> fst ` set (select_rows P p) \<longleftrightarrow> P r"
proof
  assume "k \<in> fst ` set (select_rows P p)"
  then obtain r' where "(k, r') \<in> set (pk_rows p)" "P r'" by (auto simp: select_rows_def)
  then show "P r" using assms park_okD(1) [OF assms(1)] eq_key_imp_eq_value by metis
next
  assume "P r"
  then show "k \<in> fst ` set (select_rows P p)" using assms(2) by (intro image_eqI [of _ _ "(k, r)"]) (simp_all add: select_rows_def)
qed

text \<open>
  A collection removes exactly the released reviews that are over. On every reachable registry
  whose rows are under their own keys, the rows left are those that are not released, or neither past
  a limit of their manifest nor idle for two days, in their order; a hot or cold lease is never
  touched. Every released row is counted once, none fails, and a dry run counts the same and removes
  nothing.
\<close>

theorem gc_collects_exactly:
  fixes ops :: "(instant \<times> park_op) list"
  defines "p \<equiv> run_park ops"
  assumes agree: "keys_agree p" and gc: "oracle_gc dry now p = (g, p')"
  shows "pk_rows p' = (if dry then pk_rows p else filter (\<lambda>(k, r). \<not> (gc_released r \<and> gc_old now r)) (pk_rows p)) \<and>
    pk_data p' = pk_data p \<and> gc_failed g = 0 \<and> gc_scanned g = length (select_rows gc_released p) \<and>
    gc_cleaned g = length (select_rows (\<lambda>r. gc_released r \<and> gc_old now r) p) \<and>
    gc_cleaned g + gc_skipped g = gc_scanned g"
proof -
  have ok: "park_ok p" by (simp add: p_def)
  let ?rows = "select_rows gc_released p"
  have shape: "\<exists>m. pr_manifest r = manifest_to_dict m \<and> pm_review_key m = k" if "(k, r) \<in> set ?rows" for k r
  proof -
    have "(k, r) \<in> set (pk_rows p)" using that by (auto simp: select_rows_def)
    moreover from this ok have "row_ok r" by (auto simp: park_ok_def)
    moreover from this obtain m where "pr_manifest r = manifest_to_dict m" by (rule row_okE)
    moreover have "case dict_to_manifest (pr_manifest r) of Inr m \<Rightarrow> pm_review_key m = k | Inl _ \<Rightarrow> True"
      using agree \<open>(k, r) \<in> set (pk_rows p)\<close> by (auto simp: keys_agree_def list_all_iff)
    ultimately show ?thesis by (intro exI [of _ m]) simp
  qed
  define g0 where "g0 = \<lparr>gc_scanned = 0, gc_skipped = 0, gc_cleaned = 0, gc_failed = 0, gc_purged = []\<rparr>"
  have g: "fold (gc_row dry now) ?rows (g0, p) = (g, p')"
    using gc by (simp add: oracle_gc_def park_ok_init_db [OF ok] g0_def Let_def)
  let ?K = "fst ` set (filter (\<lambda>(_, r). gc_old now r) ?rows)"
  obtain g' where f: "fold (gc_row dry now) ?rows (g0, p) =
      (g', if dry then p else p\<lparr>pk_rows := filter (\<lambda>(k, _). k \<notin> ?K) (pk_rows p)\<rparr>)"
    "gc_scanned g' = gc_scanned g0 + length ?rows" "gc_failed g' = gc_failed g0"
    "gc_cleaned g' = gc_cleaned g0 + length (filter (\<lambda>(_, r). gc_old now r) ?rows)"
    "gc_skipped g' = gc_skipped g0 + length (filter (\<lambda>(_, r). \<not> gc_old now r) ?rows)"
    using gc_fold [of ?rows dry now g0 p, OF shape] by blast
  have sel: "filter (\<lambda>(_, r). gc_old now r) ?rows = select_rows (\<lambda>r. gc_released r \<and> gc_old now r) p"
    by (simp add: select_rows_def case_prod_unfold conj_commute)
  have "k \<in> ?K \<longleftrightarrow> gc_released r \<and> gc_old now r" if "(k, r) \<in> set (pk_rows p)" for k r
    unfolding sel using in_selected [OF ok that] .
  then have rows: "filter (\<lambda>(k, _). k \<notin> ?K) (pk_rows p) = filter (\<lambda>(k, r). \<not> (gc_released r \<and> gc_old now r)) (pk_rows p)"
    by (intro filter_cong) auto
  have "length (filter (\<lambda>(_, r). gc_old now r) ?rows) + length (filter (\<lambda>(_, r). \<not> gc_old now r) ?rows) = length ?rows"
    using sum_length_filter_compl [of "\<lambda>(_, r). gc_old now r" ?rows] by (simp add: case_prod_unfold)
  moreover have "g' = g" "p' = (if dry then p else p\<lparr>pk_rows := filter (\<lambda>(k, r). \<not> (gc_released r \<and> gc_old now r)) (pk_rows p)\<rparr>)"
    using f(1) unfolding g rows by simp_all
  ultimately show ?thesis using f(2-) by (simp add: sel g0_def)
qed

theorem gc_collects_exactly_witness:
  "\<exists>g p'. oracle_gc False 200000 (run_park [(10, Init), (11, Acquire ''k1'' (demo_manifest ''k1'' ''worker'')),
      (12, Release ''k1'' ''soft'')]) = (g, p') \<and> gc_scanned g = 1 \<and> gc_failed g = 0"
proof -
  let ?ops = "[(10, Init), (11, Acquire ''k1'' (demo_manifest ''k1'' ''worker'')), (12, Release ''k1'' ''soft'')]"
  obtain g p' where g: "oracle_gc False 200000 (run_park ?ops) = (g, p')" by fastforce
  have rows: "\<exists>r. pk_rows (run_park ?ops) = [(''k1'', r)] \<and> gc_released r \<and>
      pr_manifest r = manifest_to_dict ((demo_manifest ''k1'' ''worker'')\<lparr>pm_lifecycle := RELEASED_SOFT, pm_release_mode := ''soft''\<rparr>)"
    by (simp add: run_park_def init_db_def acquire_def release_lease_def update_row_def Let_def gc_released_def manifest_row_def)
  then have "keys_agree (run_park ?ops)" by (auto simp: keys_agree_def demo_manifest_def)
  then show ?thesis using gc_collects_exactly [OF _ g] g rows by (auto simp: select_rows_def)
qed

end
