(* ===== verification/Oracle_Answers.thy ===== *)
theory Oracle_Answers
  imports Json_Text Park_Registry Store_Send
begin

text \<open>
  How \<open>oracle.py\<close> finds the answer to the latest question: the anchor of the question in the meta file,
  the transcript of the session, the reports in the mailbox, and the truncation of what is printed
  (\<open>_write_oracle_meta\<close> to \<open>cmd_oracle_result\<close>).

  The meta files are a map from the directory name of a review. A transcript is the list of its lines;
  which file belongs to a session, which one the search of the file system settles on, and which
  history files the walk over the mailbox root meets (newest directory first, 200 files at most) are
  parameters. A line of another shape than the program writes, where it would raise, is not modelled.
\<close>

section \<open>Time stamps\<close>

text \<open>
  \<open>_parse_iso_ts\<close> on the two forms that occur: whole seconds (the gateway) and three or six decimals
  (the transcripts), in UTC.
\<close>

definition fraction :: "string \<Rightarrow> (instant \<times> string) option" where
  "fraction s =
     (if s \<noteq> [] \<and> hd s = CHR ''.''
      then (let d = takeWhile is_digit (tl s) in
        if length d = 3 \<or> length d = 6 then Some (of_nat (nat_of_digits d) / 10 ^ length d, dropWhile is_digit (tl s)) else None)
      else Some (0, s))"

definition parse_iso_ts :: "string \<Rightarrow> instant option" where
  "parse_iso_ts v = (case fromisoformat (take 19 v @ ''Z'') of
       None \<Rightarrow> None
     | Some t \<Rightarrow> (case fraction (drop 19 v) of
         Some (f, zone) \<Rightarrow> if zone = ''Z'' \<or> zone = ''+00:00'' then Some (t + f) else None
       | None \<Rightarrow> None))"

section \<open>The meta file of a review\<close>

type_synonym metas = "(string \<times> dict) list"

definition safe_key :: "string \<Rightarrow> string" where
  "safe_key = map (\<lambda>c. if c \<in> {CHR '':'', CHR ''/'', CHR 0x5C} then CHR ''-'' else c)"

definition read_oracle_meta :: "string \<Rightarrow> metas \<Rightarrow> dict" where
  "read_oracle_meta rk ms = (case map_of ms (safe_key rk) of Some d \<Rightarrow> d | None \<Rightarrow> [])"

definition LAST_ASK_FIELDS :: "string list" where
  "LAST_ASK_FIELDS = [''last_ask_at'', ''last_request_id'', ''last_command_state'', ''last_generation'']"

definition carried :: "dict \<Rightarrow> dict" where
  "carried previous = List.map_filter (\<lambda>f. map_option (Pair f) (dget previous f)) LAST_ASK_FIELDS"

definition write_oracle_meta ::
  "instant \<Rightarrow> string \<Rightarrow> string \<Rightarrow> string \<Rightarrow> string \<Rightarrow> dict \<Rightarrow> metas \<Rightarrow> metas" where
  "write_oracle_meta now rk backend status swarm extra ms =
     (let meta = [(''review_key'', JStr rk), (''swarm_session_id'', JStr swarm), (''backend_session_id'', JStr backend),
            (''bound_at'', JStr (iso_format now)), (''status'', JStr status)] @ carried (read_oracle_meta rk ms) in
      AList.update (safe_key rk) (fold (\<lambda>(k, v) d. dset d k v) extra meta) ms)"

definition record_last_ask :: "instant \<Rightarrow> string \<Rightarrow> string \<Rightarrow> string \<Rightarrow> int option \<Rightarrow> metas \<Rightarrow> metas" where
  "record_last_ask now rk req state gen ms =
     (let meta = read_oracle_meta rk ms in
      write_oracle_meta now rk (sget meta ''backend_session_id'') (sget meta ''status'') (sget meta ''swarm_session_id'')
        [(''last_ask_at'', JStr (iso_format now)), (''last_request_id'', JStr req), (''last_command_state'', JStr state),
         (''last_generation'', case gen of Some g \<Rightarrow> JInt g | None \<Rightarrow> JNull)] ms)"

record ask_anchor =
  aa_at :: instant
  aa_iso :: string
  aa_request_id :: string
  aa_state :: string
  aa_generation :: json

definition latest_ask_anchor :: "string \<Rightarrow> metas \<Rightarrow> ask_anchor option" where
  "latest_ask_anchor rk ms =
     (let meta = read_oracle_meta rk ms in
      map_option (\<lambda>t. \<lparr>aa_at = t, aa_iso = sget meta ''last_ask_at'', aa_request_id = sget meta ''last_request_id'',
          aa_state = sget meta ''last_command_state'', aa_generation = dget_or meta ''last_generation'' JNull\<rparr>)
        (parse_iso_ts (sget meta ''last_ask_at'')))"

section \<open>Transcripts\<close>

fun text_items :: "json list \<Rightarrow> string" where
  "text_items [] = []"
| "text_items (JObj c # cs) = (if dget c ''type'' = Some (JStr ''text'') then sget c ''text'' else []) @ text_items cs"
| "text_items (_ # cs) = text_items cs"

fun content_text :: "json \<Rightarrow> string" where
  "content_text (JArr cs) = text_items cs"
| "content_text _ = []"

text \<open>A line that is a message: its time stamp, its role and its text.\<close>

definition message_line :: "string \<Rightarrow> (string \<times> string \<times> string) option" where
  "message_line line = (case loads (strip line) of
       Some (JObj d) \<Rightarrow>
         if dget d ''type'' \<noteq> Some (JStr ''message'') then None
         else (case dget_or d ''message'' (JObj []) of
             JObj m \<Rightarrow> Some (sget d ''timestamp'', sget m ''role'', content_text (dget_or m ''content'' (JArr [])))
           | _ \<Rightarrow> None)
     | _ \<Rightarrow> None)"

definition fresh_assistant :: "instant \<Rightarrow> string \<Rightarrow> string option" where
  "fresh_assistant after line = (case message_line line of
       Some (ts, role, whole) \<Rightarrow>
         if role \<noteq> ''assistant'' then None
         else if 0 < after \<and> (case parse_iso_ts ts of None \<Rightarrow> True | Some t \<Rightarrow> t < after) then None
         else if strip whole = [] then None else Some whole
     | None \<Rightarrow> None)"

definition extract_assistant_messages :: "string list \<Rightarrow> nat \<Rightarrow> instant \<Rightarrow> string list" where
  "extract_assistant_messages lines max_messages after =
     (let msgs = List.map_filter (fresh_assistant after) lines in drop (length msgs - max_messages) msgs)"

section \<open>Reports in the mailbox\<close>

definition review_reply_to_candidates :: "(string \<Rightarrow> string) \<Rightarrow> string \<Rightarrow> string list" where
  "review_reply_to_candidates sha rk =
     (let dashed = map (\<lambda>c. if c = CHR '':'' then CHR ''-'' else c) rk in
      [rk, safe_key rk, drop (length dashed - 12) dashed, take 12 (sha rk)])"

definition report_request :: "dict \<Rightarrow> string" where
  "report_request msg = (if sget msg ''request_id'' \<noteq> [] then sget msg ''request_id'' else sget msg ''command_id'')"

text \<open>\<open>mtime\<close> is 0 for a message from the history of a known session.\<close>

definition report_fresh :: "instant \<Rightarrow> string \<Rightarrow> instant \<Rightarrow> dict \<Rightarrow> bool" where
  "report_fresh since req mtime msg =
     (if req \<noteq> [] \<and> report_request msg \<noteq> [] \<and> report_request msg \<noteq> req then False
      else if since \<le> 0 then True
      else case parse_iso_ts (sget msg ''created_at'') of
        Some t \<Rightarrow> since \<le> t
      | None \<Rightarrow> mtime \<noteq> 0 \<and> since \<le> mtime)"

definition report_match :: "string list \<Rightarrow> instant \<Rightarrow> string \<Rightarrow> instant \<Rightarrow> dict \<Rightarrow> bool" where
  "report_match keys since req mtime msg \<longleftrightarrow>
     dget msg ''kind'' = Some (JStr ''REPORT'') \<and> sget msg ''reply_to'' \<in> set keys \<and> report_fresh since req mtime msg"

definition reports_only :: history_filter where
  "reports_only = \<lparr>hf_since = None, hf_before = None, hf_limit = None, hf_from = None, hf_kind = Some ''REPORT''\<rparr>"

fun known_report :: "string list \<Rightarrow> instant \<Rightarrow> string \<Rightarrow> fs \<Rightarrow> string list \<Rightarrow> dict option" where
  "known_report keys since req s [] = None"
| "known_report keys since req s (sid # sids) = (case read_history sid reports_only s of
       Inl _ \<Rightarrow> known_report keys since req s sids
     | Inr ms \<Rightarrow> (case find (report_match keys since req 0) ms of
           Some msg \<Rightarrow> Some msg
         | None \<Rightarrow> known_report keys since req s sids))"

definition scan_mailbox_report ::
  "(string \<Rightarrow> string) \<Rightarrow> string \<Rightarrow> string list \<Rightarrow> instant \<Rightarrow> string \<Rightarrow> fs \<Rightarrow> (instant \<times> dict) list \<Rightarrow> string option" where
  "scan_mailbox_report sha rk swarm_ids since req s walk =
     (let keys = review_reply_to_candidates sha rk in
      case known_report keys since req s (rev (remdups (rev (filter (\<lambda>i. i \<noteq> []) swarm_ids)))) of
        Some msg \<Rightarrow> Some (sget msg ''body'')
      | None \<Rightarrow> (case sort_desc fst (filter (\<lambda>(mtime, msg). report_match keys since req mtime msg) walk) of
            [] \<Rightarrow> None
          | (_, msg) # _ \<Rightarrow> Some (sget msg ''body'')))"

section \<open>Truncation\<close>

definition utf8_char :: "char \<Rightarrow> nat list" where
  "utf8_char c = (if code c < 128 then [code c] else [192 + code c div 64, 128 + code c mod 64])"

definition utf8_encode :: "string \<Rightarrow> nat list" where
  "utf8_encode s = concat (map utf8_char s)"

text \<open>\<open>decode("utf-8", errors="ignore")\<close>: a byte that starts no character is left out.\<close>

fun utf8_decode_ignore :: "nat list \<Rightarrow> string" where
  "utf8_decode_ignore [] = []"
| "utf8_decode_ignore (b # bs) =
     (if b < 128 then char_of b # utf8_decode_ignore bs
      else if b = 194 \<or> b = 195
      then (case bs of
          [] \<Rightarrow> []
        | c # cs \<Rightarrow> if 128 \<le> c \<and> c < 192 then char_of ((b - 192) * 64 + (c - 128)) # utf8_decode_ignore cs
            else utf8_decode_ignore bs)
      else utf8_decode_ignore bs)"

text \<open>
  \<open>int(n * 0.7)\<close>: the constant is the double 6305039478318694 / 2^53, and the product is rounded to 53
  bits, to even on a tie.
\<close>

fun bit_count :: "nat \<Rightarrow> nat" where
  "bit_count n = (if n = 0 then 0 else Suc (bit_count (n div 2)))"

declare bit_count.simps [simp del]

definition round53 :: "nat \<Rightarrow> nat" where
  "round53 p =
     (let s = 2 ^ (bit_count p - 53); q = p div s; r = p mod s in
      if s < 2 * r \<or> (s = 2 * r \<and> odd q) then (q + 1) * s else q * s)"

definition seventy_percent :: "nat \<Rightarrow> nat" where
  "seventy_percent n = round53 (n * 6305039478318694) div 2 ^ 53"

text \<open>\<open>s.rfind(c, start)\<close>\<close>

definition rfind :: "char \<Rightarrow> nat \<Rightarrow> string \<Rightarrow> int" where
  "rfind c start s =
     (case filter (\<lambda>i. s ! i = c) [start..<length s] of [] \<Rightarrow> -1 | is \<Rightarrow> int (last is))"

text \<open>Where the text is cut: the last line break or else the last blank of the final 30 per cent.\<close>

definition break_at :: "string \<Rightarrow> nat" where
  "break_at part =
     (let start = seventy_percent (length part); nl = rfind newline start part; ws = rfind (CHR '' '') start part in
      if int start < nl then nat nl else if int start < ws then nat ws else length part)"

record truncation =
  tx_text :: string
  tx_truncated :: bool
  tx_bytes :: nat
  tx_total :: nat

definition truncate_result :: "string \<Rightarrow> int \<Rightarrow> truncation" where
  "truncate_result whole max_bytes =
     (let total = length (utf8_encode whole) in
      if max_bytes \<le> 0 then \<lparr>tx_text = whole, tx_truncated = False, tx_bytes = 0, tx_total = total\<rparr>
      else if int total \<le> max_bytes then \<lparr>tx_text = whole, tx_truncated = False, tx_bytes = 0, tx_total = total\<rparr>
      else
        (let part = utf8_decode_ignore (take (nat max_bytes) (utf8_encode whole)); shown = take (break_at part) part in
         \<lparr>tx_text = shown, tx_truncated = True, tx_bytes = length (utf8_encode shown), tx_total = total\<rparr>))"

section \<open>The result of a review\<close>

record result_args =
  ra_review_key :: string
  ra_strict :: bool
  ra_all :: bool
  ra_limit :: int

text \<open>What the command finds: files, registry and mailbox.\<close>

record result_world =
  rw_metas :: metas
  rw_manifest :: "park_manifest option"
  rw_gateway_session :: string
  rw_transcript :: "string \<Rightarrow> string list option"
  rw_fallback :: "instant option \<Rightarrow> string list option"
  rw_tree :: fs
  rw_walk :: "(instant \<times> dict) list"

definition review_start_ts :: "string \<Rightarrow> result_world \<Rightarrow> instant option" where
  "review_start_ts rk w = (case parse_iso_ts (sget (read_oracle_meta rk (rw_metas w)) ''bound_at'') of
       Some t \<Rightarrow> Some t
     | None \<Rightarrow> (case rw_manifest w of
         Some m \<Rightarrow> if pm_created_at m = 0 then None else Some (pm_created_at m)
       | None \<Rightarrow> None))"

definition resolve_bound_session_id :: "string \<Rightarrow> result_world \<Rightarrow> string" where
  "resolve_bound_session_id rk w =
     (let from_manifest = (case rw_manifest w of Some m \<Rightarrow> pm_backend_session_id m | None \<Rightarrow> []);
          from_meta = sget (read_oracle_meta rk (rw_metas w)) ''backend_session_id'' in
      if from_manifest \<noteq> [] then from_manifest else if from_meta \<noteq> [] then from_meta else rw_gateway_session w)"

datatype result_source = Session_Transcript | Mailbox_Report | Filesystem

datatype oracle_answer = Answer_From result_source truncation | No_Result

fun joined :: "string list \<Rightarrow> string" where
  "joined [] = []"
| "joined [m] = m"
| "joined (m # ms) = m @ [newline] @ joined ms"

text \<open>The text of a transcript that is shown, when it has a fresh message.\<close>

definition transcript_text :: "result_args \<Rightarrow> instant \<Rightarrow> string list option \<Rightarrow> string option" where
  "transcript_text a after f = (case f of
       None \<Rightarrow> None
     | Some lines \<Rightarrow> (case extract_assistant_messages lines (if ra_all a then 10 ^ 6 else 1) after of
           [] \<Rightarrow> None
         | msgs \<Rightarrow> Some (joined msgs)))"

definition oracle_result :: "(string \<Rightarrow> string) \<Rightarrow> result_args \<Rightarrow> result_world \<Rightarrow> oracle_answer" where
  "oracle_result sha a w =
     (let rk = ra_review_key a; anchor = latest_ask_anchor rk (rw_metas w);
          since = (case anchor of Some x \<Rightarrow> aa_at x | None \<Rightarrow> 0);
          req = (case anchor of Some x \<Rightarrow> aa_request_id x | None \<Rightarrow> []);
          limit = (if ra_all a then 0 else ra_limit a);
          bound = resolve_bound_session_id rk w;
          start = review_start_ts rk w;
          window = (if 0 < since \<and> (case start of None \<Rightarrow> True | Some t \<Rightarrow> t < since) then Some since else start);
          swarm = (case rw_manifest w of Some m \<Rightarrow> [pm_swarm_session_id m] | None \<Rightarrow> []) @
            [sget (read_oracle_meta rk (rw_metas w)) ''swarm_session_id''] in
      case transcript_text a since (if bound = [] then None else rw_transcript w bound) of
        Some whole \<Rightarrow> Answer_From Session_Transcript (truncate_result whole limit)
      | None \<Rightarrow>
          (let report = scan_mailbox_report sha rk swarm since req (rw_tree w) (rw_walk w) in
           if report \<noteq> None \<and> report \<noteq> Some [] then Answer_From Mailbox_Report (truncate_result (the report) limit)
           else if ra_strict a then No_Result
           else case transcript_text a since (rw_fallback w window) of
             Some whole \<Rightarrow> Answer_From Filesystem (truncate_result whole limit)
           | None \<Rightarrow> No_Result))"

section \<open>Truncation keeps a prefix within the limit\<close>

lemma length_utf8_char: "length (utf8_char c) = (if code c < 128 then 1 else 2)"
  by (simp add: utf8_char_def)

lemma length_utf8_encode: "length (utf8_encode s) = utf8_length s"
  by (simp add: utf8_encode_def utf8_length_def length_concat o_def length_utf8_char)

lemma utf8_length_Cons: "utf8_length (c # s) = (if code c < 128 then 1 else 2) + utf8_length s"
  by (simp add: utf8_length_def)

lemma utf8_length_Nil [simp]: "utf8_length [] = 0"
  by (simp add: utf8_length_def)

lemma utf8_length_append: "utf8_length (s @ t) = utf8_length s + utf8_length t"
  by (simp add: utf8_length_def)

lemma decode_one: "utf8_decode_ignore (utf8_char c @ bs) = c # utf8_decode_ignore bs"
proof (cases "code c < 128")
  case False
  then have "code c div 64 = 2 \<or> code c div 64 = 3" using code_less [of c] by linarith
  moreover have "64 * (code c div 64) + code c mod 64 = code c" by simp
  ultimately show ?thesis using False by (auto simp: utf8_char_def code_def)
qed (simp add: utf8_char_def code_def)

lemma decode_cut:
  "\<exists>k \<le> length s. utf8_decode_ignore (take n (utf8_encode s)) = take k s \<and> utf8_length (take k s) \<le> n \<and>
     (k < length s \<longrightarrow> n < utf8_length (take (Suc k) s))"
proof (induction s arbitrary: n)
  case (Cons c s)
  let ?w = "if code c < 128 then 1 else 2 :: nat"
  have enc: "utf8_encode (c # s) = utf8_char c @ utf8_encode s" by (simp add: utf8_encode_def)
  show ?case
  proof (cases "?w \<le> n")
    case True
    then obtain m where n: "n = ?w + m" using le_Suc_ex by blast
    obtain k where k: "k \<le> length s" "utf8_decode_ignore (take m (utf8_encode s)) = take k s" "utf8_length (take k s) \<le> m"
      "k < length s \<longrightarrow> m < utf8_length (take (Suc k) s)" using Cons.IH by blast
    have "take n (utf8_encode (c # s)) = utf8_char c @ take m (utf8_encode s)"
      by (simp add: enc n length_utf8_char)
    then show ?thesis using k by (intro exI [of _ "Suc k"]) (simp add: decode_one utf8_length_Cons n)
  next
    case False
    then have "take n (utf8_encode (c # s)) = [] \<or> take n (utf8_encode (c # s)) = [192 + code c div 64] \<and> 128 \<le> code c"
      by (cases n) (auto simp: enc utf8_char_def split: if_splits)
    moreover have "code c div 64 = 2 \<or> code c div 64 = 3" if "128 \<le> code c" using that code_less [of c] by linarith
    ultimately have "utf8_decode_ignore (take n (utf8_encode (c # s))) = []" by auto
    then show ?thesis using False by (intro exI [of _ 0]) (simp add: utf8_length_Cons)
  qed
qed (simp add: utf8_encode_def)

lemma rfind_hit:
  assumes "int start < rfind c start s"
  shows "nat (rfind c start s) < length s" "s ! nat (rfind c start s) = c"
proof -
  let ?is = "filter (\<lambda>i. s ! i = c) [start..<length s]"
  have ne: "?is \<noteq> []" using assms by (auto simp: rfind_def)
  then have "last ?is \<in> set ?is" by (rule last_in_set)
  moreover have "rfind c start s = int (last ?is)" using ne by (auto simp: rfind_def split: list.splits)
  ultimately show "nat (rfind c start s) < length s" "s ! nat (rfind c start s) = c" by auto
qed

lemma break_at: "break_at part \<le> length part \<and> (break_at part = length part \<or> part ! break_at part \<in> {newline, CHR '' ''})"
  using rfind_hit [of "seventy_percent (length part)" newline part] rfind_hit [of "seventy_percent (length part)" "CHR '' ''" part]
  by (simp add: break_at_def Let_def less_imp_le)

text \<open>
  Truncation is exact. Without a limit, or within it, the text is shown whole and not marked.
  Otherwise what is shown is a prefix of the text that takes at most the limit in UTF-8, the counts
  are the bytes shown and the bytes there are, and the cut is at a line break or a blank or where the
  next character does not fit any more.
\<close>

theorem truncate_result_exact:
  fixes whole :: string and max_bytes :: int
  defines "t \<equiv> truncate_result whole max_bytes"
  shows "tx_total t = utf8_length whole \<and> (tx_truncated t \<longleftrightarrow> 0 < max_bytes \<and> max_bytes < int (utf8_length whole)) \<and>
    (if tx_truncated t
     then int (tx_bytes t) \<le> max_bytes \<and> tx_bytes t = utf8_length (tx_text t) \<and>
       (\<exists>n. n < length whole \<and> tx_text t = take n whole \<and>
         (whole ! n \<in> {newline, CHR '' ''} \<or> max_bytes < int (utf8_length (take (Suc n) whole))))
     else tx_text t = whole)"
proof (cases "0 < max_bytes \<and> max_bytes < int (utf8_length whole)")
  case True
  let ?b = "nat max_bytes"
  obtain k where k: "k \<le> length whole" "utf8_decode_ignore (take ?b (utf8_encode whole)) = take k whole" "utf8_length (take k whole) \<le> ?b"
    "k < length whole \<longrightarrow> ?b < utf8_length (take (Suc k) whole)" using decode_cut [of whole ?b] by blast
  have "k \<noteq> length whole" using k(3) True by auto
  then have kl: "k < length whole" using k(1) by simp
  define n where "n = break_at (take k whole)"
  have n: "n \<le> k \<and> (n = k \<or> whole ! n \<in> {newline, CHR '' ''})"
    using break_at [of "take k whole"] k(1) by (auto simp: n_def min_def split: if_splits)
  have t: "t = \<lparr>tx_text = take n whole, tx_truncated = True, tx_bytes = utf8_length (take n whole), tx_total = utf8_length whole\<rparr>"
    using True n by (simp add: t_def truncate_result_def k(2) length_utf8_encode Let_def n_def min_def)
  have "take k whole = take n whole @ drop n (take k whole)" using n by (metis append_take_drop_id min.absorb1 take_take)
  then have "utf8_length (take n whole) \<le> ?b" using k(3) by (metis add_leD1 utf8_length_append)
  then show ?thesis using True n kl k(4) by (auto simp: t intro!: exI [of _ n])
qed (auto simp: t_def truncate_result_def length_utf8_encode Let_def)

section \<open>The anchor\<close>

lemma parse_iso_format:
  assumes "iso_range t"
  shows "parse_iso_ts (iso_format t) = Some (of_int \<lfloor>t\<rfloor>)"
proof -
  have f: "fromisoformat (iso_format t) = Some (of_int \<lfloor>t\<rfloor>)" by (rule fromisoformat_iso_format [OF assms])
  then have l: "length (iso_format t) = 20" "iso_format t ! 19 = CHR ''Z''"
    by (simp_all only: fromisoformat_def Let_def split: if_splits) simp_all
  then have d: "drop 19 (iso_format t) = ''Z''" by (simp add: list_eq_iff_nth_eq)
  then have "take 19 (iso_format t) @ ''Z'' = iso_format t" by (metis append_take_drop_id)
  then show ?thesis by (simp add: parse_iso_ts_def d fraction_def f)
qed

lemma read_write: "read_oracle_meta rk (AList.update (safe_key rk') m ms) = (if safe_key rk = safe_key rk' then m else read_oracle_meta rk ms)"
  by (simp add: read_oracle_meta_def update_conv')

text \<open>A binding without extra fields keeps what is read of the last question, also of a review that shares the file.\<close>

lemma map_of_gather: "map_of (List.map_filter (\<lambda>f. map_option (Pair f) (g f)) fs) f = (if f \<in> set fs then g f else None)"
  by (induction fs) (auto simp: map_filter_simps split: option.split)

lemma carried_get: "f \<in> set LAST_ASK_FIELDS \<Longrightarrow> map_of (carried d) f = dget d f"
  by (simp add: carried_def map_of_gather)

lemma rebind_keeps:
  assumes "f \<in> set LAST_ASK_FIELDS"
  shows "dget (read_oracle_meta rk (write_oracle_meta now rk' b st sw [] ms)) f = dget (read_oracle_meta rk ms) f"
proof -
  let ?base = "[(''review_key'', JStr rk'), (''swarm_session_id'', JStr sw), (''backend_session_id'', JStr b),
    (''bound_at'', JStr (iso_format now)), (''status'', JStr st)]"
  have "f \<notin> fst ` set ?base" using assms by (auto simp: LAST_ASK_FIELDS_def)
  then have "map_of ?base f = None" by (simp only: map_of_eq_None_iff not_False_eq_True)
  then have m: "map_of (?base @ carried d) f = dget d f" for d
    using carried_get [OF assms] by (simp only: map_of_append map_add_def option.case) (simp split: option.split)?
  have w: "write_oracle_meta now rk' b st sw [] ms = AList.update (safe_key rk') (?base @ carried (read_oracle_meta rk' ms)) ms"
    by (simp add: write_oracle_meta_def)
  show ?thesis
  proof (cases "safe_key rk = safe_key rk'")
    case True
    then have "read_oracle_meta rk' ms = read_oracle_meta rk ms" by (simp add: read_oracle_meta_def)
    then show ?thesis unfolding w read_write True using m [of "read_oracle_meta rk ms"] by (simp add: dget_def)
  qed (simp add: w read_write)
qed

lemma anchor_cong:
  assumes "\<And>f. f \<in> set LAST_ASK_FIELDS \<Longrightarrow> dget (read_oracle_meta rk ms) f = dget (read_oracle_meta rk ms') f"
  shows "latest_ask_anchor rk ms = latest_ask_anchor rk ms'"
proof -
  have "dget_or (read_oracle_meta rk ms) f v = dget_or (read_oracle_meta rk ms') f v" if "f \<in> set LAST_ASK_FIELDS" for f v
    using assms [OF that] by (simp add: dget_or_def dget_def)
  then show ?thesis by (simp add: latest_ask_anchor_def Let_def sget_def LAST_ASK_FIELDS_def)
qed

record binding =
  bi_at :: instant
  bi_review_key :: string
  bi_backend :: string
  bi_status :: string
  bi_swarm :: string

definition rebind :: "binding list \<Rightarrow> metas \<Rightarrow> metas" where
  "rebind bs ms = fold (\<lambda>b. write_oracle_meta (bi_at b) (bi_review_key b) (bi_backend b) (bi_status b) (bi_swarm b) []) bs ms"

lemma rebind_anchor: "latest_ask_anchor rk (rebind bs ms) = latest_ask_anchor rk ms"
  unfolding rebind_def by (induction bs arbitrary: ms) (simp_all add: anchor_cong [OF rebind_keeps])

lemma recorded_anchor:
  assumes "iso_range t"
  shows "latest_ask_anchor rk (record_last_ask t rk req st gen ms) = Some
    \<lparr>aa_at = of_int \<lfloor>t\<rfloor>, aa_iso = iso_format t, aa_request_id = req, aa_state = st,
     aa_generation = (case gen of Some g \<Rightarrow> JInt g | None \<Rightarrow> JNull)\<rparr>"
  by (simp add: latest_ask_anchor_def record_last_ask_def write_oracle_meta_def Let_def read_write sget_def parse_iso_format [OF assms])

section \<open>No old answer\<close>

text \<open>A message of a transcript that is not older than \<open>after\<close>, and a report that answers the question.\<close>

definition spoken_since :: "instant \<Rightarrow> string list \<Rightarrow> string \<Rightarrow> bool" where
  "spoken_since after lines m \<longleftrightarrow> (\<exists>line ts t. line \<in> set lines \<and> message_line line = Some (ts, ''assistant'', m) \<and>
     parse_iso_ts ts = Some t \<and> after \<le> t)"

definition reported_since :: "instant \<Rightarrow> string \<Rightarrow> dict \<Rightarrow> bool" where
  "reported_since after req msg \<longleftrightarrow> dget msg ''kind'' = Some (JStr ''REPORT'') \<and>
     (req = [] \<or> report_request msg \<in> {[], req}) \<and>
     (case parse_iso_ts (sget msg ''created_at'') of Some t \<Rightarrow> after \<le> t | None \<Rightarrow> True)"

lemma extract_fresh:
  assumes "0 < after" "m \<in> set (extract_assistant_messages lines k after)"
  shows "spoken_since after lines m"
proof -
  have "m \<in> set (List.map_filter (fresh_assistant after) lines)"
    using assms(2) by (auto simp: extract_assistant_messages_def Let_def dest: in_set_dropD)
  then obtain line where l: "line \<in> set lines" "fresh_assistant after line = Some m"
    by (auto simp: map_filter_def)
  obtain ts role whole where ml: "message_line line = Some (ts, role, whole)"
    using l(2) by (auto simp: fresh_assistant_def split: option.splits)
  then have "role = ''assistant''" "whole = m" "\<exists>t. parse_iso_ts ts = Some t \<and> after \<le> t"
    using l(2) assms(1) by (auto simp: fresh_assistant_def split: if_splits option.splits)
  then show ?thesis using l(1) ml by (auto simp: spoken_since_def)
qed

lemma transcript_fresh:
  assumes "0 < after" "transcript_text a after f = Some whole"
  shows "\<exists>lines msgs. f = Some lines \<and> msgs \<noteq> [] \<and> whole = joined msgs \<and> list_all (spoken_since after lines) msgs"
proof -
  obtain lines where l: "f = Some lines" using assms(2) by (auto simp: transcript_text_def split: option.splits)
  let ?ms = "extract_assistant_messages lines (if ra_all a then 10 ^ 6 else 1) after"
  have "?ms \<noteq> [] \<and> whole = joined ?ms" using assms(2) by (auto simp: transcript_text_def l split: list.splits)
  then show ?thesis using extract_fresh [OF assms(1)] l by (auto simp: list_all_iff)
qed

lemma report_fresh_since: "0 < since \<Longrightarrow> report_match keys since req mtime msg \<Longrightarrow> reported_since since req msg"
  by (auto simp: report_match_def report_fresh_def reported_since_def split: if_splits option.splits)

lemma known_report_match: "known_report keys since req s sids = Some msg \<Longrightarrow> report_match keys since req 0 msg"
  by (induction sids) (auto split: sum.splits option.splits dest: find_SomeD)

lemma scan_fresh:
  assumes "0 < since" "scan_mailbox_report sha rk ids since req s walk = Some whole"
  shows "\<exists>msg. whole = sget msg ''body'' \<and> reported_since since req msg"
proof -
  have "(mt, msg) \<in> set (sort_desc fst xs)" if "sort_desc fst xs = (mt, msg) # ys" for mt msg and xs :: "(instant \<times> dict) list" and ys
    using that by simp
  then have "\<exists>mt msg. whole = sget msg ''body'' \<and> report_match (review_reply_to_candidates sha rk) since req mt msg"
    using assms(2) by (fastforce simp: scan_mailbox_report_def Let_def split: option.splits list.splits dest: known_report_match)
  then show ?thesis using report_fresh_since [OF assms(1)] by blast
qed

lemma oracle_result_cases:
  assumes shown: "oracle_result sha a w = Answer_From src tx" and anchor: "latest_ask_anchor (ra_review_key a) (rw_metas w) = Some x"
  obtains (said) f whole where "src \<noteq> Mailbox_Report" "transcript_text a (aa_at x) f = Some whole"
      "tx = truncate_result whole (if ra_all a then 0 else ra_limit a)"
  | (reported) ids whole where "src = Mailbox_Report"
      "scan_mailbox_report sha (ra_review_key a) ids (aa_at x) (aa_request_id x) (rw_tree w) (rw_walk w) = Some whole"
      "tx = truncate_result whole (if ra_all a then 0 else ra_limit a)"
proof -
  let ?lim = "if ra_all a then 0 else ra_limit a"
  define bound where "bound = resolve_bound_session_id (ra_review_key a) w"
  define f1 where "f1 = (if bound = [] then None else rw_transcript w bound)"
  define ids where "ids = (case rw_manifest w of Some m \<Rightarrow> [pm_swarm_session_id m] | None \<Rightarrow> []) @
            [sget (read_oracle_meta (ra_review_key a) (rw_metas w)) ''swarm_session_id'']"
  define rep where "rep = scan_mailbox_report sha (ra_review_key a) ids (aa_at x) (aa_request_id x) (rw_tree w) (rw_walk w)"
  obtain win where eq: "oracle_result sha a w = (case transcript_text a (aa_at x) f1 of
      Some whole \<Rightarrow> Answer_From Session_Transcript (truncate_result whole ?lim)
    | None \<Rightarrow> if rep \<noteq> None \<and> rep \<noteq> Some [] then Answer_From Mailbox_Report (truncate_result (the rep) ?lim)
        else if ra_strict a then No_Result
        else case transcript_text a (aa_at x) (rw_fallback w win) of
          Some whole \<Rightarrow> Answer_From Filesystem (truncate_result whole ?lim) | None \<Rightarrow> No_Result)"
    unfolding oracle_result_def Let_def anchor option.case f1_def bound_def rep_def ids_def by blast
  show thesis
  proof (cases "transcript_text a (aa_at x) f1")
    case (Some whole)
    then show thesis using shown by (intro said [of f1 whole]) (simp_all add: eq)
  next
    case None
    show thesis
    proof (cases "rep \<noteq> None \<and> rep \<noteq> Some []")
      case True
      then show thesis using shown None by (intro reported [of ids "the rep"]) (auto simp: eq rep_def)
    next
      case False
      then obtain whole where "transcript_text a (aa_at x) (rw_fallback w win) = Some whole" "src = Filesystem" "tx = truncate_result whole ?lim"
        using shown None unfolding eq by (auto split: if_splits option.splits)
      then show thesis by (intro said) simp_all
    qed
  qed
qed


text \<open>The anchor is cut to whole seconds, so a text spoken up to a second before the question passes.\<close>

lemma same_second_passes:
  "latest_ask_anchor rk (record_last_ask (100000 + 9 / 10) rk req st gen ms) \<noteq> None \<and>
   aa_at (the (latest_ask_anchor rk (record_last_ask (100000 + 9 / 10) rk req st gen ms))) = 100000 \<and>
   parse_iso_ts ''1970-01-02T03:46:40.100Z'' = Some (100000 + 1 / 10)"
proof -
  have "iso_range (100000 + 9 / 10)" by code_simp
  from recorded_anchor [OF this] have "latest_ask_anchor rk (record_last_ask (100000 + 9 / 10) rk req st gen ms) = Some
      \<lparr>aa_at = of_int \<lfloor>100000 + 9 / 10 :: instant\<rfloor>, aa_iso = iso_format (100000 + 9 / 10), aa_request_id = req, aa_state = st,
       aa_generation = (case gen of Some g \<Rightarrow> JInt g | None \<Rightarrow> JNull)\<rparr>" .
  moreover have "\<lfloor>100000 + 9 / 10 :: instant\<rfloor> = 100000" by code_simp
  moreover have "parse_iso_ts ''1970-01-02T03:46:40.100Z'' = Some (100000 + 1 / 10)" by code_simp
  ultimately show ?thesis by simp
qed

lemma shared_meta_file: "safe_key ''p:oracle:a'' = safe_key ''p-oracle:a''"
  by (simp add: safe_key_def)

definition demo_line :: string where
  "demo_line = ''{\"type\": \"message\", \"timestamp\": \"1970-01-02T03:46:41.500Z\", \"message\": {\"role\": \"assistant\", \"content\": [{\"type\": \"text\", \"text\": \"yes\"}]}}''"

definition demo_args :: result_args where
  "demo_args = \<lparr>ra_review_key = ''p:oracle:a'', ra_strict = False, ra_all = False, ra_limit = 100\<rparr>"

definition demo_world :: result_world where
  "demo_world = \<lparr>rw_metas = rebind [\<lparr>bi_at = 100001, bi_review_key = ''p:oracle:a'', bi_backend = ''b'', bi_status = ''bound'', bi_swarm = []\<rparr>]
       (record_last_ask 100000 ''p:oracle:a'' ''q'' ''QUEUED'' (Some 1) []),
     rw_manifest = None, rw_gateway_session = [], rw_transcript = (\<lambda>_. Some [demo_line]), rw_fallback = (\<lambda>_. None),
     rw_tree = [], rw_walk = []\<rparr>"

lemma demo_line_message: "message_line demo_line = Some (''1970-01-02T03:46:41.500Z'', ''assistant'', ''yes'')"
  by code_simp

lemma demo_fresh: "fresh_assistant 100000 demo_line = Some ''yes''"
  unfolding fresh_assistant_def demo_line_message by code_simp

lemma demo_range: "iso_range 100000"
  by code_simp


end
