(* ===== verification/Oracle_Watch.thy ===== *)
theory Oracle_Watch
  imports Oracle_Answers
begin

text \<open>
  Waiting for an oracle and noticing that it is stuck (\<open>_detect_oracle_stuck\<close> and
  \<open>_wait_for_new_output\<close> of \<open>oracle.py\<close>). The tail of a transcript is the list of its last lines, and
  what the gateway answers at each poll is a list of observations, in the order the loop makes them.
  The recovery of a stuck oracle (\<open>--auto-recover\<close>) is not modelled.
\<close>

section \<open>Skipped tools\<close>

definition STUCK_SKIP_MIN :: nat where "STUCK_SKIP_MIN = 3"
definition STALL_IDLE_SECONDS :: instant where "STALL_IDLE_SECONDS = 900"

definition WORK_EVENT_KINDS :: "string list" where
  "WORK_EVENT_KINDS = [''TURN_STARTED'', ''ASSISTANT_PROGRESS'', ''TOOL_STARTED'', ''TOOL_FINISHED'']"

definition TERMINAL_TASK_STATES :: "string list" where
  "TERMINAL_TASK_STATES = [''agent_end'', ''agent_stop'', ''session_shutdown'', ''process_exit'']"

definition SKIP_TEXT_MARKER :: string where
  "SKIP_TEXT_MARKER = ''Skipped due to pending system advisory''"

definition is_interrupt_skip :: "string \<Rightarrow> bool" where
  "is_interrupt_skip s =
     (let t = strip s in
      if prefix SKIP_TEXT_MARKER t then True
      else if prefix ''{'' t \<and> contains ''\"source\": \"interrupt_skipped\"'' t
      then contains ''__synthetic'' t \<or> contains ''__interrupted'' t
      else False)"

datatype turn_mark = Skip | Tool_Ok | Output

definition stuck_event :: "instant \<Rightarrow> string \<Rightarrow> (turn_mark \<times> instant) option" where
  "stuck_event since line = (case message_line line of
       None \<Rightarrow> None
     | Some (ts, role, whole) \<Rightarrow> (case parse_iso_ts ts of
         None \<Rightarrow> None
       | Some t \<Rightarrow>
           if t < since then None
           else if role = ''toolResult'' then Some (if is_interrupt_skip whole then Skip else Tool_Ok, t)
           else if role = ''assistant'' \<and> strip whole \<noteq> [] then Some (Output, t)
           else None))"

definition scan_session_stuck_events :: "string list \<Rightarrow> instant \<Rightarrow> (turn_mark \<times> instant) list" where
  "scan_session_stuck_events lines since = sort_key snd (List.map_filter (stuck_event since) lines)"

fun skip_run :: "(turn_mark \<times> instant) list \<Rightarrow> nat" where
  "skip_run [] = 0"
| "skip_run ((k, _) # es) = (if k = Skip then Suc (skip_run es) else 0)"

section \<open>Stuck or stalled\<close>

record runtime_info =
  ri_runtime_id :: string
  ri_generation :: "int option"
  ri_status :: string
  ri_agent_state :: string
  ri_alive :: bool
  ri_backend :: string
  ri_last_kind :: string
  ri_last_state :: string
  ri_first_seen :: string

definition stuck_terminal :: "runtime_info \<Rightarrow> bool" where
  "stuck_terminal i \<longleftrightarrow> ri_status i = ''stopped'' \<or> ri_agent_state i \<noteq> ''agent_running'' \<or>
     (ri_last_kind i = ''TASK_STATE'' \<and> ri_last_state i \<in> set TERMINAL_TASK_STATES)"

text \<open>The number of skips at the end of the transcript; \<open>lines\<close> are its last 200 lines when it is found.\<close>

definition current_skips :: "runtime_info \<Rightarrow> string list option \<Rightarrow> nat" where
  "current_skips i tail =
     (if ri_backend i = [] then 0
      else case (tail, parse_iso_ts (ri_first_seen i)) of
        (Some lines, Some since) \<Rightarrow> skip_run (rev (scan_session_stuck_events lines since))
      | _ \<Rightarrow> 0)"

definition work_times :: "(string \<times> string) list \<Rightarrow> instant list" where
  "work_times newest = List.map_filter (\<lambda>(k, ts). if k \<in> set WORK_EVENT_KINDS then parse_iso_ts ts else None) newest"

datatype stuck_signal = Strong nat | Weak instant

definition detect_oracle_stuck ::
  "instant \<Rightarrow> runtime_info \<Rightarrow> string list option \<Rightarrow> (string \<times> string) list \<Rightarrow> stuck_signal option" where
  "detect_oracle_stuck now i tail newest =
     (if ri_runtime_id i = [] \<or> ri_generation i = None then None
      else
        (let run = current_skips i tail; strong = STUCK_SKIP_MIN \<le> run; ts = work_times newest in
         if strong then Some (Strong run)
         else if \<not> stuck_terminal i \<and> ri_alive i \<and> ts \<noteq> [] \<and> ri_last_kind i \<noteq> ''TOOL_STARTED'' \<and>
           STALL_IDLE_SECONDS \<le> now - Max (set ts)
         then Some (Weak (now - Max (set ts)))
         else None))"

lemma skip_run_iff: "n \<le> skip_run es \<longleftrightarrow> n \<le> length es \<and> list_all (\<lambda>e. fst e = Skip) (take n es)"
proof (induction es arbitrary: n)
  case (Cons e es)
  then show ?case by (cases n; cases e) auto
qed simp

text \<open>The events of the transcript that the alarm looks at, by time.\<close>

definition seen_events :: "runtime_info \<Rightarrow> string list option \<Rightarrow> (turn_mark \<times> instant) list" where
  "seen_events i tail = (case (tail, parse_iso_ts (ri_first_seen i)) of
      (Some lines, Some since) \<Rightarrow> if ri_backend i = [] then [] else scan_session_stuck_events lines since | _ \<Rightarrow> [])"

text \<open>
  The alarm is exact. It is strong just when the last events of the transcript by time, three or
  more, are skipped tools, whatever the state of the runtime; it is weak just when there is no strong
  one, the runtime is alive and running, its last event neither ends a task nor starts a tool, and the
  latest event of work is fifteen minutes old. A tool that ran or a text of the assistant after the
  skips silences the strong alarm.
\<close>

theorem stuck_alarm_exact:
  fixes i :: runtime_info and tail :: "string list option"
  defines "events \<equiv> seen_events i tail"
  shows "((\<exists>n. detect_oracle_stuck now i tail newest = Some (Strong n)) \<longleftrightarrow>
      ri_runtime_id i \<noteq> [] \<and> ri_generation i \<noteq> None \<and> 3 \<le> length events \<and>
      list_all (\<lambda>e. fst e = Skip) (take 3 (rev events))) \<and>
    ((\<exists>s. detect_oracle_stuck now i tail newest = Some (Weak s)) \<longleftrightarrow>
      ri_runtime_id i \<noteq> [] \<and> ri_generation i \<noteq> None \<and>
      \<not> (3 \<le> length events \<and> list_all (\<lambda>e. fst e = Skip) (take 3 (rev events))) \<and>
      ri_alive i \<and> ri_agent_state i = ''agent_running'' \<and> ri_status i \<noteq> ''stopped'' \<and>
      \<not> (ri_last_kind i = ''TASK_STATE'' \<and> ri_last_state i \<in> set TERMINAL_TASK_STATES) \<and>
      ri_last_kind i \<noteq> ''TOOL_STARTED'' \<and> work_times newest \<noteq> [] \<and> list_all (\<lambda>t. 900 \<le> now - t) (work_times newest)) \<and>
    sorted (map snd events)"
proof -
  have run: "current_skips i tail = skip_run (rev events)"
    by (auto simp: current_skips_def events_def seen_events_def split: option.split)
  have strong: "STUCK_SKIP_MIN \<le> current_skips i tail \<longleftrightarrow> 3 \<le> length events \<and> list_all (\<lambda>e. fst e = Skip) (take 3 (rev events))"
    by (simp add: run skip_run_iff STUCK_SKIP_MIN_def)
  have idle: "STALL_IDLE_SECONDS \<le> now - Max (set ts) \<longleftrightarrow> list_all (\<lambda>t. 900 \<le> now - t) ts" if "ts \<noteq> []" for ts
  proof -
    have "Max (set ts) \<le> now - 900 \<longleftrightarrow> (\<forall>t \<in> set ts. t \<le> now - 900)" using that by (intro Max_le_iff) auto
    then show ?thesis by (auto simp: STALL_IDLE_SECONDS_def list_all_iff algebra_simps)
  qed
  have "sorted (map snd events)"
    by (auto simp: events_def seen_events_def scan_session_stuck_events_def split: option.split)
  moreover have "(\<exists>n. detect_oracle_stuck now i tail newest = Some (Strong n)) \<longleftrightarrow>
      ri_runtime_id i \<noteq> [] \<and> ri_generation i \<noteq> None \<and> STUCK_SKIP_MIN \<le> current_skips i tail"
    by (auto simp: detect_oracle_stuck_def Let_def)
  moreover have "(\<exists>s. detect_oracle_stuck now i tail newest = Some (Weak s)) \<longleftrightarrow>
      ri_runtime_id i \<noteq> [] \<and> ri_generation i \<noteq> None \<and> \<not> STUCK_SKIP_MIN \<le> current_skips i tail \<and>
      ri_alive i \<and> \<not> stuck_terminal i \<and> ri_last_kind i \<noteq> ''TOOL_STARTED'' \<and> work_times newest \<noteq> [] \<and>
      STALL_IDLE_SECONDS \<le> now - Max (set (work_times newest))"
    by (auto simp: detect_oracle_stuck_def Let_def)
  ultimately show ?thesis unfolding strong stuck_terminal_def using idle [of "work_times newest"] by blast
qed

section \<open>Waiting\<close>

record watch_event =
  we_kind :: string
  we_state :: string
  we_created :: string
  we_generation :: "int option"
  we_request :: string

record ask_window =
  aw_epoch :: instant
  aw_generation :: "int option"
  aw_request :: string

definition event_outside_ask_window :: "bool \<Rightarrow> ask_window \<Rightarrow> watch_event \<Rightarrow> bool" where
  "event_outside_ask_window strict_ts a ev =
     (if aw_epoch a \<le> 0 \<and> aw_generation a = None \<and> aw_request a = [] then False
      else if 0 < aw_epoch a \<and> (case parse_iso_ts (we_created ev) of Some t \<Rightarrow> t < aw_epoch a | None \<Rightarrow> strict_ts) then True
      else if aw_generation a \<noteq> None \<and> we_generation ev \<noteq> None \<and> we_generation ev \<noteq> aw_generation a then True
      else aw_request a \<noteq> [] \<and> we_request ev \<noteq> [] \<and> we_request ev \<noteq> aw_request a)"

definition wait_window :: "ask_anchor option \<Rightarrow> ask_window" where
  "wait_window anchor = (case anchor of
       None \<Rightarrow> \<lparr>aw_epoch = 0, aw_generation = None, aw_request = []\<rparr>
     | Some x \<Rightarrow> \<lparr>aw_epoch = aa_at x, aw_generation = int_not_bool (aa_generation x), aw_request = aa_request_id x\<rparr>)"

text \<open>An event with the transcript as it is when the event is looked at.\<close>

type_synonym observation = "watch_event \<times> string list option"

datatype wait_outcome = Final truncation | No_Final_Text | Wait_Error | Wait_Stuck | Wait_Timeout

definition wait_final_text :: "ask_window \<Rightarrow> string list option \<Rightarrow> string option" where
  "wait_final_text a f = (case f of
       None \<Rightarrow> None
     | Some lines \<Rightarrow> (case extract_assistant_messages lines 1 (aw_epoch a) of [] \<Rightarrow> None | msgs \<Rightarrow> Some (last msgs)))"

definition is_agent_end :: "watch_event \<Rightarrow> bool" where
  "is_agent_end ev \<longleftrightarrow> we_kind ev = ''TASK_STATE'' \<and> we_state ev = ''agent_end''"

definition at_end :: "ask_window \<Rightarrow> int \<Rightarrow> string list option \<Rightarrow> wait_outcome" where
  "at_end a limit f = (case wait_final_text a f of None \<Rightarrow> No_Final_Text | Some m \<Rightarrow> Final (truncate_result m limit))"

text \<open>The first look at the whole history, and one page of new events.\<close>

fun wait_boot :: "ask_window \<Rightarrow> int \<Rightarrow> observation list \<Rightarrow> wait_outcome option" where
  "wait_boot a limit [] = None"
| "wait_boot a limit ((ev, f) # obs) =
     (if is_agent_end ev \<and> \<not> event_outside_ask_window True a ev then Some (at_end a limit f) else wait_boot a limit obs)"

fun wait_page :: "ask_window \<Rightarrow> int \<Rightarrow> observation list \<Rightarrow> wait_outcome option" where
  "wait_page a limit [] = None"
| "wait_page a limit ((ev, f) # obs) =
     (if event_outside_ask_window False a ev then wait_page a limit obs
      else if we_kind ev = ''ASSISTANT_PROGRESS''
      then (case wait_final_text a f of Some m \<Rightarrow> Some (Final (truncate_result m limit)) | None \<Rightarrow> wait_page a limit obs)
      else if is_agent_end ev then Some (at_end a limit f)
      else wait_page a limit obs)"

text \<open>One round: its page, whether the alarm is strong, and whether the deadline has passed.\<close>

datatype poll_round = Poll_Failed | Poll "observation list" bool bool

fun wait_loop :: "ask_window \<Rightarrow> int \<Rightarrow> nat \<Rightarrow> poll_round list \<Rightarrow> wait_outcome option" where
  "wait_loop a limit n [] = None"
| "wait_loop a limit n (Poll_Failed # ps) = Some Wait_Error"
| "wait_loop a limit n (Poll obs strong expired # ps) = (case wait_page a limit obs of
       Some out \<Rightarrow> Some out
     | None \<Rightarrow>
         if (n + 1) mod 3 = 0 \<and> strong then Some Wait_Stuck
         else if expired then Some Wait_Timeout
         else wait_loop a limit (n + 1) ps)"

definition wait_for_new_output :: "ask_window \<Rightarrow> int \<Rightarrow> observation list option \<Rightarrow> poll_round list \<Rightarrow> wait_outcome option" where
  "wait_for_new_output a limit boot ps =
     (case (case boot of None \<Rightarrow> None | Some obs \<Rightarrow> wait_boot a limit obs) of
        Some out \<Rightarrow> Some out
      | None \<Rightarrow> wait_loop a limit 0 ps)"

definition inside :: "bool \<Rightarrow> ask_window \<Rightarrow> observation list \<Rightarrow> observation list" where
  "inside strict a = filter (\<lambda>(ev, _). \<not> event_outside_ask_window strict a ev)"

fun poll_inside :: "ask_window \<Rightarrow> poll_round \<Rightarrow> poll_round" where
  "poll_inside a Poll_Failed = Poll_Failed"
| "poll_inside a (Poll obs strong expired) = Poll (inside False a obs) strong expired"

lemma wait_boot_inside: "wait_boot a limit (inside True a obs) = wait_boot a limit obs"
  by (induction obs) (auto simp: inside_def)

lemma wait_page_inside: "wait_page a limit (inside False a obs) = wait_page a limit obs"
  by (induction obs) (auto simp: inside_def split: option.split)

lemma wait_loop_inside: "wait_loop a limit n (map (poll_inside a) ps) = wait_loop a limit n ps"
  by (induction a limit n ps rule: wait_loop.induct) (simp_all add: wait_page_inside split: option.split)

lemma final_text_fresh:
  "0 < aw_epoch a \<Longrightarrow> wait_final_text a f = Some m \<Longrightarrow> \<exists>lines. f = Some lines \<and> spoken_since (aw_epoch a) lines m"
proof -
  assume pos: "0 < aw_epoch a" and f: "wait_final_text a f = Some m"
  obtain lines where l: "f = Some lines" using f by (auto simp: wait_final_text_def split: option.splits)
  let ?ms = "extract_assistant_messages lines 1 (aw_epoch a)"
  have "?ms \<noteq> [] \<and> m = last ?ms" using f by (auto simp: wait_final_text_def l split: list.splits)
  then show "\<exists>lines. f = Some lines \<and> spoken_since (aw_epoch a) lines m" using extract_fresh [OF pos] l last_in_set by blast
qed

definition fresh_final :: "ask_window \<Rightarrow> int \<Rightarrow> wait_outcome \<Rightarrow> bool" where
  "fresh_final a limit out \<longleftrightarrow> (case out of
       Final tx \<Rightarrow> (\<exists>lines m. tx = truncate_result m limit \<and> spoken_since (aw_epoch a) lines m) | _ \<Rightarrow> True)"

lemma fresh_at_end: "0 < aw_epoch a \<Longrightarrow> fresh_final a limit (at_end a limit f)"
  by (auto simp: fresh_final_def at_end_def split: option.split dest!: final_text_fresh)

lemma fresh_boot: "0 < aw_epoch a \<Longrightarrow> wait_boot a limit obs = Some out \<Longrightarrow> fresh_final a limit out"
  by (induction obs) (auto simp: fresh_at_end split: if_splits)

lemma fresh_page: "0 < aw_epoch a \<Longrightarrow> wait_page a limit obs = Some out \<Longrightarrow> fresh_final a limit out"
proof (induction obs)
  case (Cons ob obs)
  obtain ev f where ob: "ob = (ev, f)" by fastforce
  have "fresh_final a limit (Final (truncate_result m limit))" if "wait_final_text a f = Some m" for m
    using final_text_fresh [OF Cons.prems(1) that] by (auto simp: fresh_final_def)
  with Cons fresh_at_end show ?case by (auto simp: ob split: if_splits option.splits)
qed simp

lemma fresh_loop: "0 < aw_epoch a \<Longrightarrow> wait_loop a limit n ps = Some out \<Longrightarrow> fresh_final a limit out"
  by (induction a limit n ps rule: wait_loop.induct)
     (auto simp: fresh_final_def split: option.splits if_splits dest: fresh_page [unfolded fresh_final_def])


definition demo_end :: watch_event where
  "demo_end = \<lparr>we_kind = ''TASK_STATE'', we_state = ''agent_end'', we_created = ''1970-01-02T03:46:42Z'',
     we_generation = Some 1, we_request = []\<rparr>"


end
