(* ===== verification/Oracle_Config.thy ===== *)
theory Oracle_Config
  imports Json_Text Park_Registry
begin

text \<open>
  The configuration of an oracle: the section-wise reading and merging of the configuration file of
  OMP (\<open>oracle.py\<close>), and the model a run uses (\<open>ExecutionSpec\<close> of \<open>domain/__init__.py\<close>, the model chains
  and \<open>_runtime_context_model\<close> of \<open>oracle.py\<close>). A file is the list of its lines.
\<close>

section \<open>The flat configuration file\<close>

definition indented :: "string \<Rightarrow> bool" where
  "indented line \<longleftrightarrow> prefix ''  '' line \<or> prefix [CHR 0x09] line"

text \<open>Key and value of a line; \<^term>\<open>None\<close> for a blank line, a comment and a line without a colon.\<close>

definition yaml_entry :: "string \<Rightarrow> (string \<times> string) option" where
  "yaml_entry line =
     (let s = strip line in
      if s = [] \<or> prefix ''#'' s \<or> CHR '':'' \<notin> set s then None
      else Some (strip (takeWhile (\<lambda>c. c \<noteq> CHR '':'') s), strip (tl (dropWhile (\<lambda>c. c \<noteq> CHR '':'') s))))"

type_synonym sections = "(string \<times> (string \<times> string) list) list"

definition section_of :: "string \<Rightarrow> sections \<Rightarrow> (string \<times> string) list" where
  "section_of sec y = (case map_of y sec of Some kv \<Rightarrow> kv | None \<Rightarrow> [])"

definition yaml_value :: "string \<Rightarrow> string \<Rightarrow> sections \<Rightarrow> string" where
  "yaml_value sec k y = (case map_of (section_of sec y) k of Some v \<Rightarrow> v | None \<Rightarrow> [])"

fun parse_yaml_lines :: "string \<Rightarrow> sections \<Rightarrow> string list \<Rightarrow> sections" where
  "parse_yaml_lines current y [] = y"
| "parse_yaml_lines current y (line # lines) = (case yaml_entry line of
       None \<Rightarrow> parse_yaml_lines current y lines
     | Some (k, v) \<Rightarrow>
         if indented line
         then parse_yaml_lines current
           (if current = [] then y else AList.update current (AList.update k v (section_of current y)) y) lines
         else parse_yaml_lines k (if map_of y k = None then AList.update k [] y else y) lines)"

definition parse_flat_yaml :: "string list \<Rightarrow> sections" where
  "parse_flat_yaml = parse_yaml_lines [] []"

text \<open>The line behind the last line of each section; a later section of the same name wins.\<close>

fun section_ends :: "nat \<Rightarrow> string \<Rightarrow> (string \<times> nat) list \<Rightarrow> string list \<Rightarrow> (string \<times> nat) list" where
  "section_ends i current ends [] = (if current = [] then ends else AList.update current i ends)"
| "section_ends i current ends (line # lines) = (case yaml_entry line of
       Some (k, _) \<Rightarrow>
         if indented line then section_ends (i + 1) current ends lines
         else section_ends (i + 1) k (if current = [] then ends else AList.update current i ends) lines
     | None \<Rightarrow> section_ends (i + 1) current ends lines)"

fun joined_lines :: "string list \<Rightarrow> string" where
  "joined_lines [] = []"
| "joined_lines [l] = l"
| "joined_lines (l # ls) = l @ [newline] @ joined_lines ls"

definition missing_keys :: "string \<Rightarrow> (string \<times> string) list \<Rightarrow> (string \<times> string) list" where
  "missing_keys whole kv = filter (\<lambda>(k, _). \<not> contains (k @ '':'') whole) kv"

definition entry_line :: "string \<times> string \<Rightarrow> string" where
  "entry_line kv = ''  '' @ fst kv @ '': '' @ snd kv"

text \<open>The insertions into sections that are there, and the lines for those that are not.\<close>

fun merge_plan ::
  "string \<Rightarrow> (string \<times> nat) list \<Rightarrow> sections \<Rightarrow> (string \<times> string list) list \<times> string list \<Rightarrow> (string \<times> string list) list \<times> string list" where
  "merge_plan whole ends [] plan = plan"
| "merge_plan whole ends ((sec, kv) # rest) (inserts, fresh) =
     (let missing = missing_keys whole kv in
      if missing = [] then merge_plan whole ends rest (inserts, fresh)
      else if map_of ends sec \<noteq> None
      then merge_plan whole ends rest
        (AList.update sec ((case map_of inserts sec of Some ls \<Rightarrow> ls | None \<Rightarrow> []) @ map entry_line missing) inserts, fresh)
      else merge_plan whole ends rest
        (inserts, (if fresh = [] then [sec @ '':''] else fresh) @ map entry_line missing))"

definition insert_at :: "nat \<Rightarrow> 'a list \<Rightarrow> 'a list \<Rightarrow> 'a list" where
  "insert_at n new xs = take n xs @ new @ drop n xs"

text \<open>\<open>_merge_flat_yaml\<close>; \<^term>\<open>None\<close> when there is nothing to do and the file stays.\<close>

definition merge_flat_yaml :: "sections \<Rightarrow> string list \<Rightarrow> string list option" where
  "merge_flat_yaml ensure lines =
     (let whole = joined_lines lines; ends = section_ends 0 [] [] lines in
      if list_all (\<lambda>(_, kv). missing_keys whole kv = []) ensure then None
      else case merge_plan whole ends ensure ([], []) of
        (inserts, fresh) \<Rightarrow>
          Some (fold (\<lambda>(sec, new). insert_at (the (map_of ends sec)) new)
            (rev (sort_key (\<lambda>(sec, _). the (map_of ends sec)) (rev inserts))) lines @ fresh))"

text \<open>\<open>ensure_omp_memory_config\<close> on the lines of a file that is there.\<close>

definition lower_ascii :: "string \<Rightarrow> string" where
  "lower_ascii = map (\<lambda>c. if CHR ''A'' \<le> c \<and> c \<le> CHR ''Z'' then char_of (of_char c + 32 :: nat) else c)"

record memory_report =
  mr_backend :: string
  mr_auto_recall :: bool
  mr_handoff :: bool
  mr_merged :: bool
  mr_missing :: "string list"

definition memory_state :: "string list \<Rightarrow> memory_report" where
  "memory_state lines =
     (let y = parse_flat_yaml lines;
          recall = (if yaml_value ''memsearch'' ''autoRecall'' y \<noteq> [] then yaml_value ''memsearch'' ''autoRecall'' y
            else yaml_value ''memory'' ''autoRecall'' y);
          a = (lower_ascii recall = ''true''); h = (lower_ascii (yaml_value ''compaction'' ''handoffSaveToDisk'' y) = ''true'');
          b = yaml_value ''memory'' ''backend'' y in
      \<lparr>mr_backend = b, mr_auto_recall = a, mr_handoff = h, mr_merged = False,
       mr_missing = (if a then [] else [''memsearch.autoRecall=true'']) @ (if h then [] else [''compaction.handoffSaveToDisk=true'']) @
         (if b = [] then [''memory.backend=memsearch''] else [])\<rparr>)"

definition memory_ensure :: "memory_report \<Rightarrow> sections" where
  "memory_ensure r =
     (if mr_auto_recall r then [] else [(''memsearch'', [(''autoRecall'', ''true'')])]) @
     (if mr_handoff r then [] else [(''compaction'', [(''handoffSaveToDisk'', ''true'')])]) @
     (if mr_backend r \<noteq> [] then [] else [(''memory'', [(''backend'', ''memsearch'')])])"

definition ensure_omp_memory_config :: "bool \<Rightarrow> string list \<Rightarrow> memory_report \<times> string list" where
  "ensure_omp_memory_config apply_it lines =
     (let r = memory_state lines in
      if mr_missing r \<noteq> [] \<and> apply_it
      then (case merge_flat_yaml (memory_ensure r) lines of
          Some lines' \<Rightarrow> (r\<lparr>mr_merged := True\<rparr>, lines')
        | None \<Rightarrow> (r, lines))
      else (r, lines))"

section \<open>A merge only adds\<close>

lemma subseq_insert_at: "subseq xs (insert_at n new xs)"
proof -
  have "subseq (take n xs @ drop n xs) (take n xs @ new @ drop n xs)"
    by (intro list_emb_append_mono subseq_order.refl list_emb_append2)
  then show ?thesis by (simp add: insert_at_def)
qed

lemma subseq_inserts: "subseq xs (fold (\<lambda>(sec, new). insert_at (f sec) new) ins xs)"
proof (induction ins arbitrary: xs)
  case (Cons p ins)
  then show ?case by (cases p) (auto intro: subseq_order.trans [OF subseq_insert_at])
qed simp

lemma set_inserts: "set (fold (\<lambda>(sec, new). insert_at (f sec) new) ins xs) = set xs \<union> (\<Union>(sec, new) \<in> set ins. set new)"
proof (induction ins arbitrary: xs)
  case (Cons p ins)
  have "set (insert_at n new ys) = set ys \<union> set new" for n new and ys :: "'a list"
    unfolding insert_at_def by (metis append_take_drop_id set_append sup.commute sup.left_commute)
  with Cons show ?case by (cases p) auto
qed simp

text \<open>A text without a line break occurs in the joined lines just when it occurs in a line.\<close>

lemma contains_joined:
  assumes "newline \<notin> set k" "k \<noteq> []"
  shows "contains k (joined_lines lines) \<longleftrightarrow> (\<exists>l \<in> set lines. contains k l)"
proof (induction lines rule: joined_lines.induct)
  case (3 l m ls)
  have "contains k (l @ [newline] @ r) \<longleftrightarrow> contains k l \<or> contains k r" for r
  proof
    assume "contains k (l @ [newline] @ r)"
    then obtain a b where e: "l @ newline # r = a @ k @ b" by (auto simp: contains_def sublist_def)
    show "contains k l \<or> contains k r"
    proof (cases "length (a @ k) \<le> length l")
      case True
      then have "prefix (a @ k) l" using e by (metis append.assoc append_eq_append_conv_if append_take_drop_id prefixI)
      then show ?thesis by (auto simp: contains_def sublist_def prefix_def)
    next
      case False
      have "length l < length a"
      proof (rule ccontr)
        assume n: "\<not> length l < length a"
        have lt: "length l - length a < length k" using False n by simp
        then have "(a @ k) ! length l \<in> set k" using n by (simp add: nth_append)
        moreover have "(l @ newline # r) ! length l = newline" by simp
        then have "(a @ k) ! length l = newline" using lt n unfolding e by (simp add: nth_append)
        ultimately show False using assms(1) by simp
      qed
      then obtain d where "a = l @ newline # d" using e by (auto simp: append_eq_append_conv2 Cons_eq_append_conv)
      then have "r = d @ k @ b" using e by simp
      then show ?thesis by (auto simp: contains_def)
    qed
  next
    show "contains k l \<or> contains k r \<Longrightarrow> contains k (l @ [newline] @ r)"
      using sublist_append_leftI [of r "l @ [newline]"] sublist_append_rightI [of l "[newline] @ r"]
      by (auto simp: contains_def intro: sublist_order.order.trans)
  qed
  with 3 show ?case by simp
qed (use assms in \<open>auto simp: contains_def\<close>)

text \<open>What the plan holds: the missing entries, each in one line, and one header.\<close>

definition all_missing :: "string \<Rightarrow> sections \<Rightarrow> (string \<times> string) set" where
  "all_missing whole ensure = (\<Union>(_, kv) \<in> set ensure. set (missing_keys whole kv))"

definition plan_lines :: "(string \<times> string list) list \<times> string list \<Rightarrow> string set" where
  "plan_lines plan = (\<Union>(_, ls) \<in> set (fst plan). set ls) \<union> set (tl (snd plan))"

lemma set_add_inserts:
  "distinct (map fst xs) \<Longrightarrow>
    (\<Union>(_, ls) \<in> set (AList.update k ((case map_of xs k of Some ls \<Rightarrow> ls | None \<Rightarrow> []) @ new) xs). set ls) =
    (\<Union>(_, ls) \<in> set xs. set ls) \<union> set new"
proof (induction xs)
  case (Cons x xs)
  obtain k' ls where x: "x = (k', ls)" by fastforce
  show ?case
  proof (cases "k' = k")
    case False
    with Cons show ?thesis by (auto simp: x)
  qed (use Cons.prems in \<open>auto simp: x\<close>)
qed simp

lemma merge_plan_lines:
  assumes "distinct (map fst ins)"
  shows "plan_lines (merge_plan whole ends ensure (ins, fr)) = plan_lines (ins, fr) \<union> entry_line ` all_missing whole ensure \<and>
    (snd (merge_plan whole ends ensure (ins, fr)) \<noteq> [] \<longrightarrow>
       (if fr \<noteq> [] then hd (snd (merge_plan whole ends ensure (ins, fr))) = hd fr
        else \<exists>sec \<in> fst ` set ensure. hd (snd (merge_plan whole ends ensure (ins, fr))) = sec @ '':''))"
  using assms
proof (induction whole ends ensure "(ins, fr)" arbitrary: ins fr rule: merge_plan.induct)
  case (2 whole ends sec kv rest ins fr)
  let ?m = "missing_keys whole kv"
  have all: "all_missing whole ((sec, kv) # rest) = set ?m \<union> all_missing whole rest" by (auto simp: all_missing_def)
  consider "?m = []" | "?m \<noteq> []" "map_of ends sec \<noteq> None" | "?m \<noteq> []" "map_of ends sec = None" by blast
  then show ?case
  proof cases
    case 1
    then show ?thesis using "2.hyps"(1) [OF refl] "2.prems" by (auto simp: all)
  next
    case 2
    let ?ins = "AList.update sec ((case map_of ins sec of Some ls \<Rightarrow> ls | None \<Rightarrow> []) @ map entry_line ?m) ins"
    have "plan_lines (?ins, fr) = plan_lines (ins, fr) \<union> entry_line ` set ?m"
      using set_add_inserts [OF "2.prems"] by (auto simp: plan_lines_def)
    then show ?thesis using "2.hyps"(2) [OF refl _ _ ] 2 "2.prems" by (auto simp: all image_Un distinct_update)
  next
    case 3
    let ?fr = "(if fr = [] then [sec @ '':''] else fr) @ map entry_line ?m"
    have "plan_lines (ins, ?fr) = plan_lines (ins, fr) \<union> entry_line ` set ?m"
      by (cases fr) (auto simp: plan_lines_def)
    then show ?thesis using "2.hyps"(3) [OF refl] 3 "2.prems" by (cases fr) (auto simp: all image_Un)
  qed
qed (simp add: all_missing_def)

section \<open>Values that are there stay\<close>

text \<open>Reading with and without the lines that set one of the keys \<open>M\<close>.\<close>

definition sets_key :: "string set \<Rightarrow> string \<Rightarrow> bool" where
  "sets_key M line \<longleftrightarrow> indented line \<and> (case yaml_entry line of Some (k, _) \<Rightarrow> k \<in> M | None \<Rightarrow> False)"

definition same_besides :: "string set \<Rightarrow> sections \<Rightarrow> sections \<Rightarrow> bool" where
  "same_besides M y y' \<longleftrightarrow> (\<forall>sec k. k \<notin> M \<longrightarrow> map_of (section_of sec y) k = map_of (section_of sec y') k)"

lemma section_of_update: "section_of sec (AList.update cur kv y) = (if sec = cur then kv else section_of sec y)"
  by (simp add: section_of_def update_conv')

lemma section_of_fresh: "map_of y k = None \<Longrightarrow> section_of sec (AList.update k [] y) = section_of sec y"
  by (simp add: section_of_def update_conv')

lemma parse_same:
  "same_besides M y y' \<Longrightarrow> same_besides M (parse_yaml_lines cur y lines) (parse_yaml_lines cur y' lines)"
proof (induction lines arbitrary: cur y y')
  case (Cons line lines)
  have top: "section_of sec (if map_of y k = None then AList.update k [] y else y) = section_of sec y" for sec k and y :: sections
    by (simp add: section_of_fresh)
  show ?case
  proof (cases "yaml_entry line")
    case (Some e)
    obtain k v where e: "e = (k, v)" by fastforce
    show ?thesis
    proof (cases "indented line")
      case True
      have "same_besides M (AList.update cur (AList.update k v (section_of cur y)) y)
          (AList.update cur (AList.update k v (section_of cur y')) y')"
        using Cons.prems by (simp add: same_besides_def section_of_update update_conv')
      then show ?thesis using Cons Some True by (simp add: e)
    next
      case False
      have "same_besides M (if map_of y k = None then AList.update k [] y else y) (if map_of y' k = None then AList.update k [] y' else y')"
        using Cons.prems by (simp only: same_besides_def top)
      then show ?thesis using Cons.IH Some False by (simp add: e)
    qed
  qed (use Cons in simp)
qed simp

lemma same_refl [simp]: "same_besides M y y"
  by (simp add: same_besides_def)

lemma same_trans: "same_besides M a b \<Longrightarrow> same_besides M b c \<Longrightarrow> same_besides M a c"
  by (simp add: same_besides_def)

lemma same_sym: "same_besides M a b \<Longrightarrow> same_besides M b a"
  by (simp add: same_besides_def)

lemma parse_without:
  "same_besides M (parse_yaml_lines cur y (filter (\<lambda>l. \<not> sets_key M l) lines)) (parse_yaml_lines cur y lines)"
proof (induction lines arbitrary: cur y)
  case (Cons line lines)
  show ?case
  proof (cases "sets_key M line")
    case True
    then obtain k v where e: "yaml_entry line = Some (k, v)" "indented line" "k \<in> M"
      by (auto simp: sets_key_def split: option.splits)
    have "same_besides M y (if cur = [] then y else AList.update cur (AList.update k v (section_of cur y)) y)"
      using e(3) by (auto simp: same_besides_def section_of_update update_conv')
    then have "same_besides M (parse_yaml_lines cur y (filter (\<lambda>l. \<not> sets_key M l) lines))
        (parse_yaml_lines cur (if cur = [] then y else AList.update cur (AList.update k v (section_of cur y)) y) lines)"
      using Cons.IH same_trans parse_same by blast
    then show ?thesis using True e by simp
  next
    case False
    then show ?thesis using Cons.IH by (simp split: option.split)
  qed
qed simp

lemma parse_append: "\<exists>cur'. parse_yaml_lines cur y (xs @ ys) = parse_yaml_lines cur' (parse_yaml_lines cur y xs) ys"
proof (induction xs arbitrary: cur y)
  case (Cons x xs)
  then show ?case by (cases "yaml_entry x") (auto simp: case_prod_unfold)
qed auto

lemma parse_header:
  assumes "\<not> indented h"
  shows "same_besides M (parse_yaml_lines cur y [h]) y"
  using assms by (auto simp: same_besides_def section_of_fresh split: option.split)

lemma filter_inserts:
  assumes "\<And>sec new l. (sec, new) \<in> set ins \<Longrightarrow> l \<in> set new \<Longrightarrow> \<not> P l"
  shows "filter P (fold (\<lambda>(sec, new). insert_at (f sec) new) ins xs) = filter P xs"
  using assms
proof (induction ins arbitrary: xs)
  case (Cons p ins)
  obtain sec new where p: "p = (sec, new)" by fastforce
  have none: "filter P new = []" using Cons.prems by (auto simp: p filter_empty_conv)
  have "filter P (insert_at n new xs) = filter P xs" for n
    unfolding insert_at_def by (simp add: none) (metis append_take_drop_id filter_append)
  moreover have "filter P (fold (\<lambda>(sec, new). insert_at (f sec) new) ins xs') = filter P xs'" for xs'
    using Cons.prems by (intro Cons.IH) auto
  ultimately show ?case by (simp add: p)
qed simp

text \<open>A key or section name of one word, and a value without a line break.\<close>

definition plain_key :: "string \<Rightarrow> bool" where
  "plain_key k \<longleftrightarrow> k \<noteq> [] \<and> hd k \<noteq> CHR ''#'' \<and> list_all (\<lambda>c. \<not> is_space c \<and> c \<noteq> CHR '':'') k"

lemma strip_plain: "plain_key k \<Longrightarrow> strip k = k"
proof -
  assume "plain_key k"
  then have "dropWhile is_space k = k" "dropWhile is_space (rev k) = rev k"
    by (auto simp: plain_key_def list_all_iff dropWhile_eq_self_iff hd_rev intro!: hd_in_set last_in_set)
  then show "strip k = k" by (simp add: strip_def)
qed

lemma strip_blanks: "strip (CHR '' '' # s) = strip s"
  by (simp add: strip_def is_space_def code_def)

lemma entry_of_line:
  assumes "plain_key k"
  shows "\<exists>w. yaml_entry (entry_line (k, v)) = Some (k, w) \<and> indented (entry_line (k, v))"
proof -
  obtain c cs where k: "k = c # cs" "\<not> is_space c" "c \<noteq> CHR ''#''" using assms by (cases k) (auto simp: plain_key_def)
  have nc: "takeWhile (\<lambda>c. c \<noteq> CHR '':'') (k @ CHR '':'' # r) = k" for r
    using assms by (subst takeWhile_append2) (auto simp: plain_key_def list_all_iff)
  have "\<not> is_space (CHR '':'')" by (simp add: is_space_def code_def)
  then have "dropWhile is_space (xs @ CHR '':'' # rev k) = dropWhile is_space xs @ CHR '':'' # rev k" for xs
    by (induction xs) auto
  from this [of "rev ('' '' @ v)"]
  have "dropWhile is_space (rev (k @ '': '' @ v)) = dropWhile is_space (rev ('' '' @ v)) @ CHR '':'' # rev k" by simp
  moreover have "strip (k @ '': '' @ v) = rev (dropWhile is_space (rev (k @ '': '' @ v)))" using k(2) by (simp add: strip_def k(1))
  ultimately have "strip (k @ '': '' @ v) = k @ CHR '':'' # rev (dropWhile is_space (rev ('' '' @ v)))" by simp
  then obtain r where r: "strip (k @ '': '' @ v) = k @ CHR '':'' # r" by blast
  have "strip (entry_line (k, v)) = k @ CHR '':'' # r" using r by (simp add: entry_line_def strip_blanks)
  moreover have "\<not> prefix ''#'' (k @ CHR '':'' # r)" using k(3) by (simp add: k(1))
  ultimately have "yaml_entry (entry_line (k, v)) = Some (k, strip (tl (dropWhile (\<lambda>c. c \<noteq> CHR '':'') (k @ CHR '':'' # r))))"
    by (simp add: yaml_entry_def Let_def nc strip_plain [OF assms])
  then show ?thesis by (simp add: entry_line_def indented_def)
qed

lemma one_line_key:
  assumes "plain_key k"
  shows "newline \<notin> set (k @ '':'')"
proof -
  have "is_space newline" "newline \<noteq> CHR '':''" by (simp_all add: newline_def is_space_def code_def)
  then show ?thesis using assms by (auto simp: plain_key_def list_all_iff)
qed

lemma plain_header: "plain_key k \<Longrightarrow> \<not> indented (k @ '':'')"
proof
  assume p: "plain_key k" and i: "indented (k @ '':'')"
  obtain c cs where k: "k = c # cs" "\<not> is_space c" using p by (cases k) (simp_all add: plain_key_def)
  have "c = CHR '' '' \<or> c = CHR 0x09" using i by (simp add: indented_def k(1)) blast
  moreover have "is_space (CHR '' '')" "is_space (CHR 0x09)" by (simp_all add: is_space_def code_def)
  ultimately show False using k(2) by blast
qed



text \<open>
  Only the first of several new sections gets a header, so the keys of the others land in it: after the
  merge into an empty file the state is still reported as incomplete.
\<close>

lemma one_header:
  "snd (ensure_omp_memory_config True []) =
     [''memsearch:'', ''  autoRecall: true'', ''  handoffSaveToDisk: true'', ''  backend: memsearch''] \<and>
   mr_missing (memory_state (snd (ensure_omp_memory_config True []))) =
     [''compaction.handoffSaveToDisk=true'', ''memory.backend=memsearch'']"
  by code_simp

text \<open>A key of another section counts as the wanted one: nothing is merged, and the report stays incomplete.\<close>

lemma key_of_another_section:
  "merge_flat_yaml [(''memory'', [(''backend'', ''memsearch'')])] [''memory:'', ''  size: 3'', ''cache:'', ''  backend: disk''] = None \<and>
   yaml_value ''memory'' ''backend'' (parse_flat_yaml [''memory:'', ''  size: 3'', ''cache:'', ''  backend: disk'']) = []"
  by code_simp

end
