(* ===== verification/Oracle_Model.thy ===== *)
theory Oracle_Model
  imports Oracle_Config Gateway_Safety
begin

text \<open>
  The model an oracle runs with: \<open>ExecutionSpec.from_args\<close> of \<open>domain/__init__.py\<close> with its four sources,
  the inheritance from the caller's runtime over the gateway (\<open>_runtime_context_model\<close> of \<open>oracle.py\<close>),
  and the chains a later ask uses. The documents on disk are the contents of their files; the digest
  \<open>hashlib.sha256\<close> is an argument.
\<close>

section \<open>The execution specification\<close>

record spec_args =
  sa_model :: string
  sa_variant :: string
  sa_system :: string
  sa_prompt :: string
  sa_agent :: string

record execution_spec =
  sp_provider :: string
  sp_model :: string
  sp_variant :: string
  sp_system_prompt :: string
  sp_full_prompt :: string
  sp_model_source :: string

datatype spec_error = ModelContextUnavailable | AttributeError

text \<open>A file: not there, there and not readable, or its text.\<close>

datatype file_text = Absent | Unreadable | Text string

text \<open>Model, variant and provider.\<close>

type_synonym model_context = "string \<times> string \<times> string"

definition extract_provider :: "string \<Rightarrow> string" where
  "extract_provider m = (if CHR ''/'' \<in> set m then takeWhile (\<lambda>c. c \<noteq> CHR ''/'') m else [])"

definition EXECUTION_CONTEXT_MODEL_RE :: "string \<Rightarrow> bool" where
  "EXECUTION_CONTEXT_MODEL_RE s \<longleftrightarrow> 1 \<le> length s \<and> length s \<le> 128 \<and>
     list_all (\<lambda>c. is_alnum c \<or> c \<in> set ''_./-'') s"

text \<open>\<open>(data.get(k) or "").strip()\<close>; a true value that is no string has no \<open>strip\<close>.\<close>

definition stripped_field :: "dict \<Rightarrow> string \<Rightarrow> string option" where
  "stripped_field d k = (case dget_or d k (JStr []) of
       JStr s \<Rightarrow> Some (strip s)
     | v \<Rightarrow> if truthy v then None else Some [])"

text \<open>\<open>_read_omp_execution_context\<close>\<close>

definition read_omp_execution_context :: "file_text \<Rightarrow> spec_error + model_context option" where
  "read_omp_execution_context f = (case f of
       Text t \<Rightarrow> (case loads t of
           None \<Rightarrow> Inr None
         | Some (JObj d) \<Rightarrow> (case stripped_field d ''model'' of
               None \<Rightarrow> Inl AttributeError
             | Some m \<Rightarrow>
                 if m = [] \<or> \<not> match_dollar EXECUTION_CONTEXT_MODEL_RE m then Inr None
                 else (case (stripped_field d ''variant'', stripped_field d ''provider'') of
                     (Some v, Some p) \<Rightarrow> Inr (Some (m, v, p))
                   | _ \<Rightarrow> Inl AttributeError))
         | Some _ \<Rightarrow> Inl AttributeError)
     | _ \<Rightarrow> Inr None)"

text \<open>The second source: the caller's runtime, asked only when no model was given.\<close>

definition caller_context ::
  "spec_args \<Rightarrow> (string \<Rightarrow> spec_error + model_context option) option \<Rightarrow> bool \<Rightarrow> spec_error + model_context option" where
  "caller_context a resolve_runtime_context strict =
     (if sa_model a \<noteq> [] then Inr None
      else case resolve_runtime_context of
        None \<Rightarrow> Inr None
      | Some f \<Rightarrow> (case f (sa_agent a) of
            Inl ModelContextUnavailable \<Rightarrow> if strict then Inl ModelContextUnavailable else Inr None
          | r \<Rightarrow> r))"

definition full_prompt :: "string \<Rightarrow> string \<Rightarrow> string" where
  "full_prompt system prompt =
     (if system \<noteq> [] \<and> prompt \<noteq> [] then system @ [newline, newline] @ prompt
      else if system \<noteq> [] then system else prompt)"

text \<open>\<open>ExecutionSpec.from_args\<close>\<close>

definition from_args ::
  "spec_args \<Rightarrow> (string \<Rightarrow> string) option \<Rightarrow> (string \<Rightarrow> spec_error + model_context option) option \<Rightarrow> bool \<Rightarrow> file_text \<Rightarrow>
   spec_error + execution_spec" where
  "from_args a resolve_agent_model resolve_runtime_context strict context_file =
     (case caller_context a resolve_runtime_context strict of
        Inl e \<Rightarrow> Inl e
      | Inr ctx \<Rightarrow>
          (case (case ctx of
               Some (m, v, p) \<Rightarrow> (m, ''runtime_context'', if sa_variant a = [] then v else sa_variant a, p)
             | None \<Rightarrow> (sa_model a, if sa_model a \<noteq> [] then ''explicit'' else [], sa_variant a, [])) of
           (m1, src1, v1, p1) \<Rightarrow>
             (case (if m1 = [] then read_omp_execution_context context_file else Inr None) of
                Inl e \<Rightarrow> Inl e
              | Inr fc \<Rightarrow>
                  (case (case fc of
                       Some (m, v, p) \<Rightarrow> (m, ''execution_context'', if v1 = [] then v else v1, if p1 = [] then p else p1)
                     | None \<Rightarrow> (m1, src1, v1, p1)) of
                   (m2, src2, v2, p2) \<Rightarrow>
                     (case (if m2 \<noteq> [] then (m2, src2) else case resolve_agent_model of
                          None \<Rightarrow> (m2, src2)
                        | Some f \<Rightarrow> (f (sa_agent a), if f (sa_agent a) \<noteq> [] then ''agent_profile'' else src2)) of
                      (m3, src3) \<Rightarrow>
                        Inr \<lparr>sp_provider = (if p2 \<noteq> [] then p2 else extract_provider m3), sp_model = m3, sp_variant = v2,
                          sp_system_prompt = sa_system a, sp_full_prompt = full_prompt (sa_system a) (sa_prompt a),
                          sp_model_source = src3\<rparr>)))))"

section \<open>Inheritance over the gateway\<close>

text \<open>
  \<open>_runtime_context_model\<close>. The first argument is the variable \<open>AIMESHCHAT_RUNTIME_ID\<close>, the second the
  call of \<open>runtime.context_get\<close>: an error of any kind, or the record's ids and context.
\<close>

definition runtime_context_model ::
  "string \<Rightarrow> (string \<Rightarrow> 'e + string \<times> string \<times> dict) \<Rightarrow> string \<Rightarrow> spec_error + model_context option" where
  "runtime_context_model runtime_id context_get agent =
     (if runtime_id = [] then Inr None
      else case context_get runtime_id of
        Inl _ \<Rightarrow> Inl ModelContextUnavailable
      | Inr (_, _, ctx) \<Rightarrow>
          (if sget ctx ''model'' = [] then Inl ModelContextUnavailable
           else Inr (Some (sget ctx ''model'', sget ctx ''variant'', sget ctx ''provider''))))"

text \<open>The specification \<open>cmd_oracle_start\<close> goes on with: no profile is asked, and a model there must be.\<close>

datatype start_error = MODEL_CONTEXT_UNAVAILABLE | NO_MODEL | CRASH

definition start_spec ::
  "spec_args \<Rightarrow> (string \<Rightarrow> spec_error + model_context option) \<Rightarrow> bool \<Rightarrow> file_text \<Rightarrow> start_error + execution_spec" where
  "start_spec a resolve strict context_file = (case from_args a None (Some resolve) strict context_file of
       Inl ModelContextUnavailable \<Rightarrow> Inl MODEL_CONTEXT_UNAVAILABLE
     | Inl AttributeError \<Rightarrow> Inl CRASH
     | Inr s \<Rightarrow> if sp_model s = [] then Inl NO_MODEL else Inr s)"

section \<open>The chain of a later ask\<close>

definition ORACLE_AGENT :: string where "ORACLE_AGENT = ''oracle''"

definition normalize_oracle_agent :: "string \<Rightarrow> string" where
  "normalize_oracle_agent t = (if t = [] \<or> t = ''default'' then ORACLE_AGENT else t)"

text \<open>\<open>_read_agent_model\<close> on the lines of a profile: the first line that names a model.\<close>

fun read_agent_model :: "string list \<Rightarrow> string" where
  "read_agent_model [] = []"
| "read_agent_model (l # ls) =
     (let line = strip l in
      if prefix ''model:'' line \<or> prefix ''model='' line
      then strip (tl (dropWhile (\<lambda>c. c \<noteq> (if CHR '':'' \<in> set line then CHR '':'' else CHR ''='')) line))
      else read_agent_model ls)"

definition esc_ascii :: "char \<Rightarrow> string" where
  "esc_ascii c = (if code c < 127 then esc_char c
     else CHR 0x5C # ''u00'' @ [hex_digit (code c div 16), hex_digit (code c mod 16)])"

definition quoted :: "string \<Rightarrow> string" where
  "quoted s = CHR 0x22 # concat (map esc_ascii s) @ [CHR 0x22]"

fun separated :: "string list \<Rightarrow> string" where
  "separated [] = []"
| "separated [x] = x"
| "separated (x # xs) = x @ '', '' @ separated xs"

text \<open>\<open>json.dumps(\<dots>, sort_keys=True, ensure_ascii=True)\<close> of a dictionary of dictionaries.\<close>

definition sorted_object :: "(string \<times> string) list \<Rightarrow> string" where
  "sorted_object kv = ''{'' @ separated (map (\<lambda>(k, v). quoted k @ '': '' @ v) (sort_key fst kv)) @ ''}''"

definition dumps_sections :: "sections \<Rightarrow> string" where
  "dumps_sections y = sorted_object (map (\<lambda>(sec, kv). (sec, sorted_object (map (\<lambda>(k, v). (k, quoted v)) kv))) y)"

text \<open>\<open>_config_fingerprint\<close>; the arguments are the digest, the profile and the lines of \<open>config.yml\<close>.\<close>

definition config_fingerprint ::
  "(string \<Rightarrow> string) \<Rightarrow> (string \<Rightarrow> file_text) \<Rightarrow> string list option \<Rightarrow> string \<Rightarrow> string" where
  "config_fingerprint digest profile config agent =
     (case (if agent = [] then [] else case profile agent of Text t \<Rightarrow> strip t | _ \<Rightarrow> []) of
        [] \<Rightarrow> (case config of
            None \<Rightarrow> []
          | Some lines \<Rightarrow>
              (let y = parse_flat_yaml lines;
                   relevant = concat (map (\<lambda>sec. case map_of y sec of Some kv \<Rightarrow> [(sec, kv)] | None \<Rightarrow> [])
                     [''modelRoles'', ''fallbackChains'', ''retry'']) in
               if relevant = [] then [] else take 16 (digest (dumps_sections relevant))))
      | content \<Rightarrow> take 16 (digest content))"

text \<open>\<open>_resolve_oracle_model_chain\<close>, \<open>_model_chain_from_manifest\<close>, \<open>_ask_model_chain_realtime\<close>.\<close>

definition resolve_oracle_model_chain :: "(string \<Rightarrow> string) \<Rightarrow> string \<Rightarrow> string \<Rightarrow> string list" where
  "resolve_oracle_model_chain agent_model agent explicit =
     (if explicit \<noteq> [] then [explicit]
      else let m = agent_model (normalize_oracle_agent agent) in if m \<noteq> [] then [m] else [])"

definition explicit_model :: "park_manifest option \<Rightarrow> string \<Rightarrow> string" where
  "explicit_model manifest override =
     (let m = (case manifest of Some p \<Rightarrow> pm_model p | None \<Rightarrow> []) in if m \<noteq> [] then m else override)"

definition model_chain_from_manifest ::
  "(string \<Rightarrow> string) \<Rightarrow> string \<Rightarrow> park_manifest option \<Rightarrow> string \<Rightarrow> string list" where
  "model_chain_from_manifest agent_model agent manifest override =
     (let explicit = explicit_model manifest override in
      if explicit \<noteq> [] then [explicit]
      else case manifest of
        Some p \<Rightarrow> if pm_primary_model p \<noteq> [] then [pm_primary_model p] else resolve_oracle_model_chain agent_model agent []
      | None \<Rightarrow> resolve_oracle_model_chain agent_model agent [])"

definition ask_model_chain_realtime ::
  "(string \<Rightarrow> string) \<Rightarrow> (string \<Rightarrow> string) \<Rightarrow> (string \<Rightarrow> spec_error + model_context option) \<Rightarrow> string \<Rightarrow>
   park_manifest option \<Rightarrow> string \<Rightarrow> string list" where
  "ask_model_chain_realtime agent_model fingerprint resolve agent manifest override =
     (let explicit = explicit_model manifest override;
          current_model = (case resolve agent of Inr (Some (m, _, _)) \<Rightarrow> m | _ \<Rightarrow> []) in
      if explicit \<noteq> [] then [explicit]
      else if current_model \<noteq> [] then [current_model]
      else case manifest of
        Some q \<Rightarrow>
          (let current = fingerprint agent in
           if pm_config_fingerprint q \<noteq> [] \<and> current \<noteq> [] \<and> current \<noteq> pm_config_fingerprint q
           then resolve_oracle_model_chain agent_model agent []
           else model_chain_from_manifest agent_model agent manifest [])
      | None \<Rightarrow> model_chain_from_manifest agent_model agent manifest [])"

section \<open>Which model it is\<close>

lemma strip_last: "strip s \<noteq> [] \<Longrightarrow> \<not> is_space (last (strip s))"
  unfolding strip_def by (metis hd_dropWhile last_rev rev_is_Nil_conv)

lemma context_file_model:
  assumes "read_omp_execution_context f = Inr (Some (m, v, p))"
  shows "m \<noteq> [] \<and> EXECUTION_CONTEXT_MODEL_RE m"
proof -
  obtain d where m: "stripped_field d ''model'' = Some m" "m \<noteq> []" "match_dollar EXECUTION_CONTEXT_MODEL_RE m"
    using assms by (auto simp: read_omp_execution_context_def split: file_text.splits option.splits json.splits if_splits)
  then obtain s where "m = strip s" by (auto simp: stripped_field_def split: json.splits if_splits)
  then have "last m \<noteq> newline" using strip_last [of s] m(2) by (auto simp: newline_def is_space_def code_def)
  then show ?thesis using m by (simp add: match_dollar_def)
qed

text \<open>
  The model of a start comes from the first of three sources that has one, and from no other. What
  the user names is used as it is; else the model of the caller's runtime; else that of the context file,
  and then only a name of the fixed form, and never when a strict start found its runtime without a model.
  A variant the user names is kept in every case, and a start without a model is refused.
\<close>

theorem start_model_source:
  assumes s: "start_spec a resolve strict file = Inr s"
  shows "sp_model s \<noteq> [] \<and> (sa_variant a = [] \<or> sp_variant s = sa_variant a) \<and>
    (sp_model_source s = ''explicit'' \<and> sp_model s = sa_model a \<or>
     sp_model_source s = ''runtime_context'' \<and> sa_model a = [] \<and> (\<exists>v p. resolve (sa_agent a) = Inr (Some (sp_model s, v, p))) \<or>
     sp_model_source s = ''execution_context'' \<and> sa_model a = [] \<and> EXECUTION_CONTEXT_MODEL_RE (sp_model s) \<and>
       (\<exists>v p. read_omp_execution_context file = Inr (Some (sp_model s, v, p))) \<and>
       (resolve (sa_agent a) = Inl ModelContextUnavailable \<and> \<not> strict \<or> resolve (sa_agent a) = Inr None \<or>
        (\<exists>v p. resolve (sa_agent a) = Inr (Some ([], v, p)))))"
proof (cases "sa_model a = []")
  case False
  then show ?thesis using s by (auto simp: start_spec_def from_args_def caller_context_def)
next
  case True
  obtain ctx where ctx: "caller_context a (Some resolve) strict = Inr ctx"
    using s by (auto simp: start_spec_def from_args_def split: sum.splits spec_error.splits)
  have none: "resolve (sa_agent a) = Inl ModelContextUnavailable \<and> \<not> strict \<or> resolve (sa_agent a) = Inr None" if "ctx = None"
    using ctx that True by (auto simp: caller_context_def split: sum.splits spec_error.splits if_splits)
  have some: "resolve (sa_agent a) = Inr ctx" if "ctx \<noteq> None"
    using ctx that True by (auto simp: caller_context_def split: sum.splits spec_error.splits if_splits)
  show ?thesis
  proof (cases "\<exists>m v p. ctx = Some (m, v, p) \<and> m \<noteq> []")
    case True
    then show ?thesis using s some ctx \<open>sa_model a = []\<close> by (auto simp: start_spec_def from_args_def split: if_splits)
  next
    case False
    then have e: "ctx = None \<or> (\<exists>v p. ctx = Some ([], v, p))" by (cases ctx) auto
    obtain m v p where f: "read_omp_execution_context file = Inr (Some (m, v, p))"
      using s ctx e True by (auto simp: start_spec_def from_args_def split: sum.splits spec_error.splits option.splits if_splits)
    have "sp_model s = m" "sp_model_source s = ''execution_context''" "sa_variant a = [] \<or> sp_variant s = sa_variant a"
      using s ctx e True f context_file_model [OF f] by (auto simp: start_spec_def from_args_def split: if_splits)
    then show ?thesis using context_file_model [OF f] f none some e True by auto
  qed
qed

definition given_args :: spec_args where
  "given_args = \<lparr>sa_model = [], sa_variant = ''high'', sa_system = ''Review.'', sa_prompt = ''Go.'', sa_agent = ''oracle''\<rparr>"

lemma start_model_source_witness:
  "\<exists>s. start_spec given_args (\<lambda>_. Inr (Some (''openai/gpt'', ''low'', []))) False Absent = Inr s \<and>
     sp_model s = ''openai/gpt'' \<and> sp_variant s = ''high'' \<and> sp_provider s = ''openai'' \<and> sp_model s \<noteq> []"
proof -
  let ?s = "\<lparr>sp_provider = ''openai'', sp_model = ''openai/gpt'', sp_variant = ''high'', sp_system_prompt = ''Review.'',
    sp_full_prompt = ''Review.'' @ [newline, newline] @ ''Go.'', sp_model_source = ''runtime_context''\<rparr>"
  have "start_spec given_args (\<lambda>_. Inr (Some (''openai/gpt'', ''low'', []))) False Absent = Inr ?s"
    by (simp add: start_spec_def from_args_def caller_context_def given_args_def full_prompt_def extract_provider_def)
  with start_model_source [OF this] show ?thesis by auto
qed


text \<open>A runtime that reports a switch of its model.\<close>

definition model_switch :: context_args where
  "model_switch = \<lparr>cx_runtime_id = ''r'', cx_provider = [], cx_model = ''zai/glm'', cx_variant = ''max'', cx_epoch = 2,
     cx_generation = Some 1\<rparr>"


end
