(* ===== verification/Session_Registry.thy ===== *)
theory Session_Registry
  imports Domain_Hosts Py_Time
begin

text \<open>
  The registry of backend sessions (\<open>session/registry.py\<close>, \<open>session/key.py\<close>) and the turn of an agent that
  rests on it (\<open>_execute\<close> of \<open>cli.py\<close>). The table is the list of its rows under their keys, in insertion
  order. An absent optional field of a request is the empty string, which the code treats alike. What
  expands a working directory and what carries a run to its host are arguments.
\<close>

section \<open>Rows\<close>

record session_row =
  se_session_id :: string
  se_backend :: string
  se_host :: string
  se_workdir :: string
  se_agent :: string
  se_model :: string
  se_topic :: string
  se_status :: string
  se_created_at :: instant
  se_updated_at :: instant

type_synonym session_table = "(string \<times> session_row) list"

record turn_request =
  tq_workdir :: string
  tq_backend :: string
  tq_agent :: string
  tq_model :: string
  tq_topic :: string
  tq_session_key :: string
  tq_new_session :: bool
  tq_no_auto_resume :: bool

record turn_target =
  tt_is_local :: bool
  tt_ssh_alias :: string
  tt_fallback_ssh_alias :: string
  tt_workdir :: string

record turn_result =
  tu_returncode :: int
  tu_session_id :: string
  tu_backend :: string
  tu_workdir :: string

definition LOCAL_HOST_MARKER :: string where "LOCAL_HOST_MARKER = ''__local__''"

definition or_else :: "string \<Rightarrow> string \<Rightarrow> string" where
  "or_else a b = (if a \<noteq> [] then a else b)"

definition target_host :: "turn_target \<Rightarrow> string" where
  "target_host t = (if tt_is_local t then LOCAL_HOST_MARKER else tt_ssh_alias t)"

text \<open>\<open>compute_session_key\<close>\<close>

definition compute_session_key :: "(string \<Rightarrow> string) \<Rightarrow> turn_request \<Rightarrow> turn_target \<Rightarrow> string" where
  "compute_session_key normalize_workdir q t =
     target_host t @ '':'' @ normalize_workdir (or_else (tt_workdir t) (tq_workdir q)) @ '':'' @
     lower (or_else (tq_backend q) ''opencode'') @ '':'' @ tq_agent q"

section \<open>Operations of the registry\<close>

definition lookup_session :: "string \<Rightarrow> session_table \<Rightarrow> session_row option" where
  "lookup_session k g = map_of g k"

text \<open>\<open>INSERT ... ON CONFLICT(key) DO UPDATE\<close> and \<open>UPDATE ... WHERE key = ?\<close>.\<close>

definition update_session :: "string \<Rightarrow> (session_row \<Rightarrow> session_row) \<Rightarrow> session_table \<Rightarrow> session_table" where
  "update_session k f g = map (\<lambda>(k', r). (k', if k' = k then f r else r)) g"

definition insert_session :: "string \<Rightarrow> session_row \<Rightarrow> (session_row \<Rightarrow> session_row) \<Rightarrow> session_table \<Rightarrow> session_table" where
  "insert_session k new on_conflict g = (if map_of g k = None then g @ [(k, new)] else update_session k on_conflict g)"

definition mark_starting :: "instant \<Rightarrow> string \<Rightarrow> turn_request \<Rightarrow> turn_target \<Rightarrow> bool \<Rightarrow> session_table \<Rightarrow> session_table" where
  "mark_starting now k q t clear_session g =
     (let new = \<lparr>se_session_id = [], se_backend = lower (or_else (tq_backend q) ''opencode''), se_host = target_host t,
          se_workdir = or_else (tt_workdir t) (tq_workdir q), se_agent = tq_agent q, se_model = tq_model q,
          se_topic = tq_topic q, se_status = ''starting'', se_created_at = now, se_updated_at = now\<rparr> in
      insert_session k new (\<lambda>r. new\<lparr>se_created_at := se_created_at r,
        se_session_id := (if clear_session then [] else or_else (se_session_id new) (se_session_id r))\<rparr>) g)"

definition mark_observed :: "instant \<Rightarrow> string \<Rightarrow> string \<Rightarrow> session_table \<Rightarrow> session_table" where
  "mark_observed now k sid =
     update_session k (\<lambda>r. r\<lparr>se_session_id := sid, se_status := ''observed'', se_updated_at := now\<rparr>)"

definition mark_active :: "instant \<Rightarrow> string \<Rightarrow> session_table \<Rightarrow> session_table" where
  "mark_active now k = update_session k (\<lambda>r. r\<lparr>se_status := ''active'', se_updated_at := now\<rparr>)"

definition mark_failed :: "instant \<Rightarrow> string \<Rightarrow> session_table \<Rightarrow> session_table" where
  "mark_failed now k = update_session k (\<lambda>r. r\<lparr>se_status := ''failed'', se_updated_at := now\<rparr>)"

definition terminal_status :: "int \<Rightarrow> string" where
  "terminal_status rc = (if rc = 0 then ''active'' else if rc < 0 then ''interrupted'' else ''failed'')"

text \<open>\<open>upsert\<close>, with the record it returns.\<close>

definition upsert_session ::
  "instant \<Rightarrow> string \<Rightarrow> turn_result \<Rightarrow> turn_request \<Rightarrow> turn_target \<Rightarrow> session_table \<Rightarrow> session_row \<times> session_table" where
  "upsert_session now k u q t g =
     (let created = (case map_of g k of Some r \<Rightarrow> se_created_at r | None \<Rightarrow> now);
          new = \<lparr>se_session_id = tu_session_id u,
            se_backend = lower (or_else (tq_backend q) (or_else (tu_backend u) ''opencode'')), se_host = target_host t,
            se_workdir = or_else (tt_workdir t) (or_else (tq_workdir q) (tu_workdir u)), se_agent = tq_agent q,
            se_model = tq_model q, se_topic = tq_topic q, se_status = terminal_status (tu_returncode u),
            se_created_at = created, se_updated_at = now\<rparr> in
      (new, insert_session k new (\<lambda>r. new\<lparr>se_created_at := se_created_at r\<rparr>) g))"

definition delete_session :: "string \<Rightarrow> session_table \<Rightarrow> bool \<times> session_table" where
  "delete_session k g = (map_of g k \<noteq> None, filter (\<lambda>(k', _). k' \<noteq> k) g)"

definition bind_session :: "instant \<Rightarrow> string \<Rightarrow> string \<Rightarrow> session_table \<Rightarrow> session_table" where
  "bind_session now k sid =
     insert_session k \<lparr>se_session_id = sid, se_backend = [], se_host = [], se_workdir = [], se_agent = [], se_model = [],
         se_topic = [], se_status = ''active'', se_created_at = now, se_updated_at = now\<rparr>
       (\<lambda>r. r\<lparr>se_session_id := sid, se_status := ''active'', se_updated_at := now\<rparr>)"

text \<open>\<open>list_all\<close>: newest first; rows of one instant keep their order.\<close>

definition list_session_rows :: "string \<Rightarrow> string \<Rightarrow> session_table \<Rightarrow> (string \<times> session_row) list" where
  "list_session_rows host topic g = sort_key (\<lambda>(_, r). - se_updated_at r)
     (filter (\<lambda>(_, r). (host = [] \<or> se_host r = host) \<and> (topic = [] \<or> se_topic r = topic)) g)"

definition is_stale :: "instant \<Rightarrow> session_row \<Rightarrow> bool" where
  "is_stale cutoff r \<longleftrightarrow> (se_status r = ''starting'' \<or> se_status r = ''observed'') \<and> se_updated_at r < cutoff"

text \<open>One delete of \<open>cleanup_stale\<close> under its lock, and the whole call.\<close>

definition delete_stale :: "instant \<Rightarrow> string \<Rightarrow> nat \<times> session_table \<Rightarrow> nat \<times> session_table" where
  "delete_stale cutoff k ng = (case ng of (n, g) \<Rightarrow>
     (case map_of g k of
        Some r \<Rightarrow> if is_stale cutoff r then (n + 1, snd (delete_session k g)) else (n, g)
      | None \<Rightarrow> (n, g)))"

definition cleanup_stale :: "instant \<Rightarrow> instant \<Rightarrow> session_table \<Rightarrow> nat \<times> session_table" where
  "cleanup_stale now max_age g =
     fold (delete_stale (now - max_age)) (map fst (filter (\<lambda>(_, r). is_stale (now - max_age) r) g)) (0, g)"

section \<open>A turn\<close>

text \<open>What an attempt on a host gives; \<open>warm\<close> and \<open>execute\<close> of the transport are one attempt.\<close>

datatype attempt = Transport_Error | Other_Error | Ran turn_result

definition run_transport :: "(string \<Rightarrow> string option \<Rightarrow> attempt) \<Rightarrow> turn_target \<Rightarrow> string option \<Rightarrow> attempt" where
  "run_transport transport t sid =
     (if tt_is_local t then transport LOCAL_HOST_MARKER sid
      else case transport (tt_ssh_alias t) sid of
        Transport_Error \<Rightarrow> if tt_fallback_ssh_alias t = [] then Transport_Error else transport (tt_fallback_ssh_alias t) sid
      | out \<Rightarrow> out)"

definition resume_id :: "turn_request \<Rightarrow> string \<Rightarrow> session_table \<Rightarrow> string option" where
  "resume_id q k g =
     (if tq_new_session q \<or> tq_no_auto_resume q then None
      else case lookup_session k g of
        Some r \<Rightarrow> if se_status r = ''active'' \<and> se_session_id r \<noteq> [] then Some (se_session_id r) else None
      | None \<Rightarrow> None)"

text \<open>The registry after an attempt.\<close>

definition record_outcome :: "instant \<Rightarrow> string \<Rightarrow> turn_request \<Rightarrow> turn_target \<Rightarrow> attempt \<Rightarrow> session_table \<Rightarrow> session_table" where
  "record_outcome now k q t out g = (case out of
       Ran u \<Rightarrow>
         (if tu_session_id u \<noteq> [] then snd (upsert_session now k u q t (mark_observed now k (tu_session_id u) g))
          else if tu_returncode u = 0 then mark_active now k g
          else mark_failed now k g)
     | _ \<Rightarrow> mark_failed now k g)"

definition turn_key :: "(string \<Rightarrow> string) \<Rightarrow> turn_request \<Rightarrow> turn_target \<Rightarrow> string" where
  "turn_key normalize_workdir q t = or_else (tq_session_key q) (compute_session_key normalize_workdir q t)"

text \<open>\<open>_execute\<close>, under the lock of its key: begun at \<open>t0\<close>, recorded at \<open>t1\<close>.\<close>

definition execute_turn ::
  "(string \<Rightarrow> string) \<Rightarrow> (string \<Rightarrow> string option \<Rightarrow> attempt) \<Rightarrow> instant \<Rightarrow> instant \<Rightarrow> turn_request \<Rightarrow> turn_target \<Rightarrow> session_table \<Rightarrow>
   turn_result \<times> session_table" where
  "execute_turn normalize_workdir transport t0 t1 q t g =
     (let k = turn_key normalize_workdir q t;
          out = run_transport transport t (resume_id q k g);
          g1 = record_outcome t1 k q t out (mark_starting t0 k q t (tq_new_session q) g) in
      ((case out of Ran u \<Rightarrow> u | _ \<Rightarrow> \<lparr>tu_returncode = 1, tu_session_id = [], tu_backend = [], tu_workdir = []\<rparr>), g1))"

section \<open>What a later turn resumes\<close>

text \<open>
  Everything that changes the table: a turn, a turn whose process was killed (after its start, or after
  the session was observed), and the commands and the cleaning of the registry.
\<close>

datatype registry_op =
    Turn turn_request turn_target "string \<Rightarrow> string option \<Rightarrow> attempt" instant instant
  | Killed turn_request turn_target instant "(string \<times> instant) option"
  | Bind string string instant
  | Delete string
  | Cleanup instant instant

definition apply_op :: "(string \<Rightarrow> string) \<Rightarrow> registry_op \<Rightarrow> session_table \<Rightarrow> session_table" where
  "apply_op nw op g = (case op of
       Turn q t transport t0 t1 \<Rightarrow> snd (execute_turn nw transport t0 t1 q t g)
     | Killed q t t0 seen \<Rightarrow>
         (let g1 = mark_starting t0 (turn_key nw q t) q t (tq_new_session q) g in
          case seen of None \<Rightarrow> g1 | Some (sid, t1) \<Rightarrow> mark_observed t1 (turn_key nw q t) sid g1)
     | Bind k sid now \<Rightarrow> bind_session now k sid g
     | Delete k \<Rightarrow> snd (delete_session k g)
     | Cleanup now age \<Rightarrow> snd (cleanup_stale now age g))"

text \<open>
  The specification, of one key: the session last reported, whether the last turn succeeded, and since
  when a turn is unfinished.
\<close>

record conversation =
  cv_session :: string
  cv_ok :: bool
  cv_pending :: "instant option"

definition no_conversation :: conversation where
  "no_conversation = \<lparr>cv_session = [], cv_ok = False, cv_pending = None\<rparr>"

definition resumable :: "turn_request \<Rightarrow> conversation \<Rightarrow> string option" where
  "resumable q c = (if tq_new_session q \<or> tq_no_auto_resume q \<or> \<not> cv_ok c \<or> cv_session c = [] then None else Some (cv_session c))"

definition kept_session :: "turn_request \<Rightarrow> conversation \<Rightarrow> string" where
  "kept_session q c = (if tq_new_session q then [] else cv_session c)"

definition converse :: "(string \<Rightarrow> string) \<Rightarrow> string \<Rightarrow> registry_op \<Rightarrow> conversation \<Rightarrow> conversation" where
  "converse nw k op c = (case op of
       Turn q t transport t0 t1 \<Rightarrow>
         (if turn_key nw q t \<noteq> k then c
          else case run_transport transport t (resumable q c) of
            Ran u \<Rightarrow> \<lparr>cv_session = or_else (tu_session_id u) (kept_session q c), cv_ok = (tu_returncode u = 0), cv_pending = None\<rparr>
          | _ \<Rightarrow> \<lparr>cv_session = kept_session q c, cv_ok = False, cv_pending = None\<rparr>)
     | Killed q t t0 seen \<Rightarrow>
         (if turn_key nw q t \<noteq> k then c
          else case seen of
            None \<Rightarrow> \<lparr>cv_session = kept_session q c, cv_ok = False, cv_pending = Some t0\<rparr>
          | Some (sid, t1) \<Rightarrow> \<lparr>cv_session = sid, cv_ok = False, cv_pending = Some t1\<rparr>)
     | Bind k' sid now \<Rightarrow> (if k' \<noteq> k then c else \<lparr>cv_session = sid, cv_ok = True, cv_pending = None\<rparr>)
     | Delete k' \<Rightarrow> (if k' \<noteq> k then c else no_conversation)
     | Cleanup now age \<Rightarrow>
         (case cv_pending c of Some since \<Rightarrow> if since < now - age then no_conversation else c | None \<Rightarrow> c))"

text \<open>The abstraction of a table.\<close>

definition conversation_of :: "string \<Rightarrow> session_table \<Rightarrow> conversation" where
  "conversation_of k g = (case map_of g k of
       None \<Rightarrow> no_conversation
     | Some r \<Rightarrow> \<lparr>cv_session = se_session_id r, cv_ok = (se_status r = ''active''),
         cv_pending = (if se_status r = ''starting'' \<or> se_status r = ''observed'' then Some (se_updated_at r) else None)\<rparr>)"

lemma map_of_update_session [simp]:
  "map_of (update_session k f g) k' = (if k' = k then map_option f (map_of g k) else map_of g k')"
  by (induction g) (auto simp: update_session_def)

lemma map_of_insert_session [simp]:
  "map_of (insert_session k new f g) k' =
     (if k' = k then Some (case map_of g k of None \<Rightarrow> new | Some r \<Rightarrow> f r) else map_of g k')"
  by (auto simp: insert_session_def map_add_def split: option.splits)

lemma map_of_delete_session [simp]: "map_of (snd (delete_session k g)) k' = (if k' = k then None else map_of g k')"
  by (induction g) (auto simp: delete_session_def)

lemma map_of_delete_stale:
  "map_of (snd (fold (delete_stale c) ks ng)) k =
     (case map_of (snd ng) k of Some r \<Rightarrow> if k \<in> set ks \<and> is_stale c r then None else Some r | None \<Rightarrow> None)"
proof (induction ks arbitrary: ng)
  case (Cons x ks)
  obtain n g where ng: "ng = (n, g)" by fastforce
  have "map_of (snd (delete_stale c x ng)) k =
      (case map_of g k of Some r \<Rightarrow> if k = x \<and> is_stale c r then None else Some r | None \<Rightarrow> None)"
    by (auto simp: ng delete_stale_def split: option.splits)
  then show ?case using Cons by (auto simp: ng split: option.splits)
qed (simp split: option.split)

lemma map_of_cleanup:
  "map_of (snd (cleanup_stale now age g)) k =
     (case map_of g k of Some r \<Rightarrow> if is_stale (now - age) r then None else Some r | None \<Rightarrow> None)"
proof -
  have "k \<in> set (map fst (filter (\<lambda>(_, r). is_stale (now - age) r) g))" if "map_of g k = Some r" "is_stale (now - age) r" for r
    using map_of_SomeD [OF that(1)] that(2) by force
  then show ?thesis by (auto simp: cleanup_stale_def map_of_delete_stale split: option.splits)
qed

lemma resume_conversation: "resume_id q k g = resumable q (conversation_of k g)"
  by (auto simp: resume_id_def resumable_def conversation_of_def lookup_session_def no_conversation_def split: option.splits)

lemma or_else_simps [simp]: "or_else [] b = b" "a \<noteq> [] \<Longrightarrow> or_else a b = a"
  by (simp_all add: or_else_def)

lemma after_start:
  "\<exists>r. map_of (mark_starting t0 k q t (tq_new_session q) g) k = Some r \<and> se_status r = ''starting'' \<and>
     se_updated_at r = t0 \<and> se_session_id r = kept_session q (conversation_of k g)"
  by (auto simp: mark_starting_def Let_def kept_session_def conversation_of_def no_conversation_def or_else_def split: option.split)

lemma other_start [simp]: "k' \<noteq> k \<Longrightarrow> map_of (mark_starting t0 k q t cl g) k' = map_of g k'"
  by (simp add: mark_starting_def Let_def)

lemma other_outcome: "k' \<noteq> k \<Longrightarrow> map_of (record_outcome t1 k q t out g) k' = map_of g k'"
  by (auto simp: record_outcome_def upsert_session_def mark_observed_def mark_active_def mark_failed_def Let_def split: attempt.split)

lemma after_outcome:
  assumes r: "map_of g k = Some r"
  shows "conversation_of k (record_outcome t1 k q t out g) = (case out of
      Ran u \<Rightarrow> \<lparr>cv_session = or_else (tu_session_id u) (se_session_id r), cv_ok = (tu_returncode u = 0), cv_pending = None\<rparr>
    | _ \<Rightarrow> \<lparr>cv_session = se_session_id r, cv_ok = False, cv_pending = None\<rparr>)"
  using r by (auto simp: conversation_of_def record_outcome_def upsert_session_def mark_observed_def mark_active_def mark_failed_def
    terminal_status_def Let_def split: attempt.split)

lemma apply_converse: "conversation_of k (apply_op nw op g) = converse nw k op (conversation_of k g)"
proof (cases op)
  case (Turn q t transport t0 t1)
  let ?k = "turn_key nw q t"
  show ?thesis
  proof (cases "?k = k")
    case True
    obtain r where r: "map_of (mark_starting t0 k q t (tq_new_session q) g) k = Some r"
      "se_session_id r = kept_session q (conversation_of k g)" using after_start by blast
    show ?thesis
      by (simp add: Turn apply_op_def execute_turn_def Let_def True converse_def after_outcome [OF r(1)] r(2) resume_conversation
        split: attempt.split)
  next
    case False
    then show ?thesis
      by (simp add: Turn apply_op_def execute_turn_def Let_def converse_def conversation_of_def other_outcome)
  qed
next
  case (Killed q t t0 seen)
  let ?k = "turn_key nw q t"
  obtain r where r: "map_of (mark_starting t0 ?k q t (tq_new_session q) g) ?k = Some r" "se_status r = ''starting''"
    "se_updated_at r = t0" "se_session_id r = kept_session q (conversation_of ?k g)" using after_start by blast
  show ?thesis
  proof (cases "?k = k")
    case True
    then show ?thesis using r
      by (auto simp: Killed apply_op_def converse_def Let_def mark_observed_def conversation_of_def [of k] split: option.split)
  next
    case False
    then show ?thesis
      by (auto simp: Killed apply_op_def converse_def Let_def mark_observed_def conversation_of_def split: option.split)
  qed
qed (auto simp: apply_op_def converse_def conversation_of_def no_conversation_def bind_session_def map_of_cleanup is_stale_def
  split: option.splits)

text \<open>
  C36. The registry remembers exactly the conversation of each key. Whatever turns, killed turns, binds,
  deletes and cleanings ran, a turn resumes the session that was last reported or bound under its key
  since the last turn that asked for a new one, provided the last turn of the key succeeded, and no
  session otherwise; nothing that happened under other keys plays a part.
\<close>

theorem resumes_last_conversation:
  "conversation_of k (fold (apply_op nw) ops []) = fold (converse nw k) ops no_conversation \<and>
   resume_id q k (fold (apply_op nw) ops []) = resumable q (fold (converse nw k) ops no_conversation)"
proof -
  have "conversation_of k (fold (apply_op nw) ops g) = fold (converse nw k) ops (conversation_of k g)" for g
    by (induction ops arbitrary: g) (simp_all add: apply_converse)
  moreover have "conversation_of k [] = no_conversation" by (simp add: conversation_of_def)
  ultimately show ?thesis by (simp add: resume_conversation)
qed

text \<open>
  A turn that reports no session makes the row active with the session of an earlier turn: one that
  failed is not resumed by the next turn, but by the one after it.
\<close>

definition plain_turn :: "turn_result \<Rightarrow> instant \<Rightarrow> registry_op" where
  "plain_turn u now = Turn \<lparr>tq_workdir = ''/w'', tq_backend = [], tq_agent = [], tq_model = [], tq_topic = [], tq_session_key = ''k'',
     tq_new_session = False, tq_no_auto_resume = False\<rparr>
     \<lparr>tt_is_local = True, tt_ssh_alias = [], tt_fallback_ssh_alias = [], tt_workdir = []\<rparr> (\<lambda>_ _. Ran u) now now"

definition plain_result :: "int \<Rightarrow> string \<Rightarrow> turn_result" where
  "plain_result rc sid = \<lparr>tu_returncode = rc, tu_session_id = sid, tu_backend = [], tu_workdir = []\<rparr>"

lemma failed_session_revived:
  "cv_session (fold (converse id ''k'') [plain_turn (plain_result 1 ''s1'') 1] no_conversation) = ''s1'' \<and>
   \<not> cv_ok (fold (converse id ''k'') [plain_turn (plain_result 1 ''s1'') 1] no_conversation) \<and>
   fold (converse id ''k'') [plain_turn (plain_result 1 ''s1'') 1, plain_turn (plain_result 0 []) 2] no_conversation =
     \<lparr>cv_session = ''s1'', cv_ok = True, cv_pending = None\<rparr>"
  by (simp add: converse_def plain_turn_def plain_result_def no_conversation_def turn_key_def run_transport_def kept_session_def)

text \<open>The parts of a key are joined by colons, which the parts may hold: two agents share a session.\<close>

lemma session_key_collision:
  "compute_session_key id
     \<lparr>tq_workdir = ''/w'', tq_backend = ''omp'', tq_agent = ''a'', tq_model = [], tq_topic = [], tq_session_key = [],
      tq_new_session = False, tq_no_auto_resume = False\<rparr>
     \<lparr>tt_is_local = False, tt_ssh_alias = ''h:/v'', tt_fallback_ssh_alias = [], tt_workdir = []\<rparr> =
   compute_session_key id
     \<lparr>tq_workdir = ''/v:/w'', tq_backend = ''omp'', tq_agent = ''a'', tq_model = [], tq_topic = [], tq_session_key = [],
      tq_new_session = False, tq_no_auto_resume = False\<rparr>
     \<lparr>tt_is_local = False, tt_ssh_alias = ''h'', tt_fallback_ssh_alias = [], tt_workdir = []\<rparr>"
  by (simp add: compute_session_key_def target_host_def)

end
