(* ===== verification/Session_Lock.thy ===== *)
theory Session_Lock
  imports Session_Registry
begin

text \<open>
  The lock of a session key (\<open>session/lock.py\<close>) and the operations of the registry under it. A lock is an
  exclusive \<open>flock\<close> on the file of the hashed key, taken through a descriptor of its own; each thread
  keeps descriptor and depth of each key. The hash of a key is an argument and may collide. Steps of
  threads are interleaved in any order.
\<close>

section \<open>The lock\<close>

text \<open>A thread is numbered over all processes. Descriptors are numbered as they are opened.\<close>

type_synonym thread = nat

record lock_state =
  ls_fd :: int
  ls_depth :: nat

record flocks =
  fl_owner :: "(string \<times> int) list"
  fl_states :: "((thread \<times> string) \<times> lock_state) list"
  fl_next :: int

definition no_locks :: flocks where
  "no_locks = \<lparr>fl_owner = [], fl_states = [], fl_next = 0\<rparr>"

definition get_state :: "thread \<Rightarrow> string \<Rightarrow> flocks \<Rightarrow> lock_state" where
  "get_state t k s = (case map_of (fl_states s) (t, k) of Some x \<Rightarrow> x | None \<Rightarrow> \<lparr>ls_fd = -1, ls_depth = 0\<rparr>)"

definition set_state :: "thread \<Rightarrow> string \<Rightarrow> lock_state \<Rightarrow> flocks \<Rightarrow> flocks" where
  "set_state t k x s = s\<lparr>fl_states := AList.update (t, k) x (fl_states s)\<rparr>"

definition locked :: "thread \<Rightarrow> string \<Rightarrow> flocks \<Rightarrow> bool" where
  "locked t k s \<longleftrightarrow> 0 < ls_depth (get_state t k s)"

datatype acquired = Got | Refused | Waits

text \<open>\<open>SessionLock.acquire\<close>; a thread that waits keeps the descriptor it has opened.\<close>

definition acquire_lock :: "(string \<Rightarrow> string) \<Rightarrow> bool \<Rightarrow> thread \<Rightarrow> string \<Rightarrow> flocks \<Rightarrow> acquired \<times> flocks" where
  "acquire_lock path blocking t k s =
     (let x = get_state t k s; fd = fl_next s; s1 = s\<lparr>fl_next := fd + 1\<rparr> in
      if 0 < ls_depth x then (Got, set_state t k (x\<lparr>ls_depth := ls_depth x + 1\<rparr>) s)
      else if map_of (fl_owner s) (path k) \<noteq> None then (if blocking then Waits else Refused, s1)
      else (Got, set_state t k \<lparr>ls_fd = fd, ls_depth = 1\<rparr> (s1\<lparr>fl_owner := AList.update (path k) fd (fl_owner s)\<rparr>)))"

text \<open>\<open>SessionLock.release\<close>; the unlock of a descriptor frees the file when it is its owner.\<close>

definition release_lock :: "(string \<Rightarrow> string) \<Rightarrow> thread \<Rightarrow> string \<Rightarrow> flocks \<Rightarrow> flocks" where
  "release_lock path t k s =
     (let x = get_state t k s in
      if ls_depth x = 0 then s
      else if ls_depth x = 1
      then (set_state t k \<lparr>ls_fd = -1, ls_depth = 0\<rparr> s)\<lparr>fl_owner :=
        (if map_of (fl_owner s) (path k) = Some (ls_fd x) then AList.delete (path k) (fl_owner s) else fl_owner s)\<rparr>
      else set_state t k (x\<lparr>ls_depth := ls_depth x - 1\<rparr>) s)"

section \<open>Turns and writes\<close>

text \<open>The single writes of the registry, each on the row of its key.\<close>

datatype row_write =
    Starting turn_request turn_target bool instant
  | Observed string instant
  | Active instant
  | Failed instant
  | Upsert turn_result turn_request turn_target instant
  | Delete_Row
  | Bind_Row string instant
  | Delete_Stale instant

definition write_row :: "string \<Rightarrow> row_write \<Rightarrow> session_table \<Rightarrow> session_table" where
  "write_row k w g = (case w of
       Starting q t cl now \<Rightarrow> mark_starting now k q t cl g
     | Observed sid now \<Rightarrow> mark_observed now k sid g
     | Active now \<Rightarrow> mark_active now k g
     | Failed now \<Rightarrow> mark_failed now k g
     | Upsert u q t now \<Rightarrow> snd (upsert_session now k u q t g)
     | Delete_Row \<Rightarrow> snd (delete_session k g)
     | Bind_Row sid now \<Rightarrow> bind_session now k sid g
     | Delete_Stale cutoff \<Rightarrow> snd (delete_stale cutoff k (0, g)))"

datatype action = Enter thread string | Leave thread string | Write thread string row_write

record locked_registry =
  lr_locks :: flocks
  lr_table :: session_table

text \<open>\<open>"session:" + key\<close>. A write is enabled for a thread that holds the lock; an \<open>Enter\<close> that waits is not.\<close>

definition lock_key :: "string \<Rightarrow> string" where
  "lock_key k = ''session:'' @ k"

definition perform :: "(string \<Rightarrow> string) \<Rightarrow> action \<Rightarrow> locked_registry \<Rightarrow> locked_registry option" where
  "perform path a s = (case a of
       Enter t k \<Rightarrow> (case acquire_lock path True t (lock_key k) (lr_locks s) of
           (Got, l) \<Rightarrow> Some (s\<lparr>lr_locks := l\<rparr>)
         | _ \<Rightarrow> None)
     | Leave t k \<Rightarrow> Some (s\<lparr>lr_locks := release_lock path t (lock_key k) (lr_locks s)\<rparr>)
     | Write t k w \<Rightarrow>
         if locked t (lock_key k) (lr_locks s) then Some (s\<lparr>lr_table := write_row k w (lr_table s)\<rparr>) else None)"

fun run_actions :: "(string \<Rightarrow> string) \<Rightarrow> action list \<Rightarrow> locked_registry \<Rightarrow> locked_registry option" where
  "run_actions path [] s = Some s"
| "run_actions path (a # as) s = (case perform path a s of Some s' \<Rightarrow> run_actions path as s' | None \<Rightarrow> None)"

section \<open>Mutual exclusion\<close>

definition lock_ok :: "(string \<Rightarrow> string) \<Rightarrow> flocks \<Rightarrow> bool" where
  "lock_ok path s \<longleftrightarrow>
     (\<forall>t k. locked t k s \<longrightarrow> map_of (fl_owner s) (path k) = Some (ls_fd (get_state t k s)) \<and> ls_fd (get_state t k s) < fl_next s) \<and>
     (\<forall>t k t' k'. locked t k s \<longrightarrow> locked t' k' s \<longrightarrow> ls_fd (get_state t k s) = ls_fd (get_state t' k' s) \<longrightarrow> t = t' \<and> k = k')"

lemma get_set_state [simp]: "get_state t k (set_state t' k' x s) = (if t = t' \<and> k = k' then x else get_state t k s)"
  by (auto simp: get_state_def set_state_def update_conv')

lemma set_state_simps [simp]:
  "fl_owner (set_state t k x s) = fl_owner s" "fl_next (set_state t k x s) = fl_next s"
  "get_state t k (s\<lparr>fl_next := n\<rparr>) = get_state t k s" "get_state t k (s\<lparr>fl_owner := w\<rparr>) = get_state t k s"
  by (simp_all add: set_state_def get_state_def)

lemma lock_ok_start [simp]: "lock_ok path no_locks"
  by (simp add: lock_ok_def no_locks_def locked_def get_state_def)

lemma locked_exclusive:
  "lock_ok path s \<Longrightarrow> locked t k s \<Longrightarrow> locked t' k' s \<Longrightarrow> path k = path k' \<Longrightarrow> t = t' \<and> k = k'"
  unfolding lock_ok_def by (metis option.inject)

lemma lock_okI:
  assumes "\<And>t k. locked t k s \<Longrightarrow> map_of (fl_owner s) (path k) = Some (ls_fd (get_state t k s)) \<and> ls_fd (get_state t k s) < fl_next s"
    and "\<And>t k t' k'. locked t k s \<Longrightarrow> locked t' k' s \<Longrightarrow> ls_fd (get_state t k s) = ls_fd (get_state t' k' s) \<Longrightarrow> t = t' \<and> k = k'"
  shows "lock_ok path s"
  using assms unfolding lock_ok_def by blast

lemma lock_okD:
  assumes "lock_ok path s" "locked t k s"
  shows "map_of (fl_owner s) (path k) = Some (ls_fd (get_state t k s))" "ls_fd (get_state t k s) < fl_next s"
    "locked t' k' s \<Longrightarrow> ls_fd (get_state t k s) = ls_fd (get_state t' k' s) \<Longrightarrow> t = t' \<and> k = k'"
  using assms unfolding lock_ok_def by blast+

text \<open>A change of depths above zero, and of the next descriptor, keeps the invariant.\<close>

lemma lock_ok_same:
  assumes ok: "lock_ok path s" and same: "fl_owner s' = fl_owner s" "fl_next s \<le> fl_next s'"
    "\<And>t k. locked t k s' = locked t k s \<and> ls_fd (get_state t k s') = ls_fd (get_state t k s)"
  shows "lock_ok path s'"
proof (rule lock_okI)
  fix t k assume "locked t k s'"
  then have "locked t k s" by (simp add: same)
  from lock_okD(1,2) [OF ok this]
  show "map_of (fl_owner s') (path k) = Some (ls_fd (get_state t k s')) \<and> ls_fd (get_state t k s') < fl_next s'"
    using same by simp
next
  fix t k t' k' assume "locked t k s'" "locked t' k' s'" "ls_fd (get_state t k s') = ls_fd (get_state t' k' s')"
  then show "t = t' \<and> k = k'" using lock_okD(3) [OF ok] by (simp add: same)
qed

lemma lock_ok_acquire:
  assumes ok: "lock_ok path s"
  shows "lock_ok path (snd (acquire_lock path b t k s))"
proof -
  consider "locked t k s" | "\<not> locked t k s" "map_of (fl_owner s) (path k) \<noteq> None"
    | "\<not> locked t k s" "map_of (fl_owner s) (path k) = None" by blast
  then show ?thesis
  proof cases
    case 1
    then show ?thesis by (intro lock_ok_same [OF ok]) (auto simp: acquire_lock_def locked_def Let_def)
  next
    case 2
    then show ?thesis by (intro lock_ok_same [OF ok]) (auto simp: acquire_lock_def locked_def Let_def)
  next
    case 3
    let ?s = "snd (acquire_lock path b t k s)"
    have s: "fl_owner ?s = AList.update (path k) (fl_next s) (fl_owner s)" "fl_next ?s = fl_next s + 1"
      "\<And>t' k'. get_state t' k' ?s = (if t' = t \<and> k' = k then \<lparr>ls_fd = fl_next s, ls_depth = 1\<rparr> else get_state t' k' s)"
      using 3 by (auto simp: acquire_lock_def locked_def Let_def)
    have l: "locked t' k' ?s \<longleftrightarrow> locked t' k' s \<or> t' = t \<and> k' = k" for t' k' using 3(1) by (auto simp: locked_def s(3))
    show ?thesis
    proof (rule lock_okI)
      fix t' k' assume "locked t' k' ?s"
      then consider "t' = t \<and> k' = k" | "locked t' k' s" "\<not> (t' = t \<and> k' = k)" using l by blast
      then show "map_of (fl_owner ?s) (path k') = Some (ls_fd (get_state t' k' ?s)) \<and> ls_fd (get_state t' k' ?s) < fl_next ?s"
      proof cases
        case 1
        then show ?thesis by (simp add: s update_conv')
      next
        case 2
        then show ?thesis using lock_okD(1,2) [OF ok 2(1)] 3(2) by (auto simp: s update_conv')
      qed
    next
      fix t1 k1 t2 k2 assume a: "locked t1 k1 ?s" "locked t2 k2 ?s" "ls_fd (get_state t1 k1 ?s) = ls_fd (get_state t2 k2 ?s)"
      have old: "ls_fd (get_state t' k' s) \<noteq> fl_next s" if "locked t' k' s" for t' k' using lock_okD(2) [OF ok that] by simp
      show "t1 = t2 \<and> k1 = k2"
        using a old [of t1 k1] old [of t2 k2] lock_okD(3) [OF ok, of t1 k1 t2 k2] by (auto simp: s l split: if_splits)
    qed
  qed
qed

lemma lock_ok_release:
  assumes ok: "lock_ok path s"
  shows "lock_ok path (release_lock path t k s)"
proof -
  consider "ls_depth (get_state t k s) = 0" | "ls_depth (get_state t k s) > 1" | "ls_depth (get_state t k s) = 1" by linarith
  then show ?thesis
  proof cases
    case 1
    then show ?thesis using ok by (simp add: release_lock_def Let_def)
  next
    case 2
    then show ?thesis by (intro lock_ok_same [OF ok]) (auto simp: release_lock_def locked_def Let_def)
  next
    case 3
    then have held: "locked t k s" by (simp add: locked_def)
    let ?s = "release_lock path t k s"
    have s: "fl_owner ?s = AList.delete (path k) (fl_owner s)" "fl_next ?s = fl_next s"
      "\<And>t' k'. get_state t' k' ?s = (if t' = t \<and> k' = k then \<lparr>ls_fd = -1, ls_depth = 0\<rparr> else get_state t' k' s)"
      using 3 lock_okD(1) [OF ok held] by (auto simp: release_lock_def Let_def set_state_def get_state_def update_conv')
    have l: "locked t' k' ?s \<longleftrightarrow> locked t' k' s \<and> \<not> (t' = t \<and> k' = k)" for t' k' by (auto simp: locked_def s(3))
    have other: "path k' \<noteq> path k" if "locked t' k' ?s" for t' k'
      using locked_exclusive [OF ok held, of t' k'] that by (auto simp: l)
    show ?thesis
    proof (rule lock_okI)
      fix t' k' assume lk: "locked t' k' ?s"
      then show "map_of (fl_owner ?s) (path k') = Some (ls_fd (get_state t' k' ?s)) \<and> ls_fd (get_state t' k' ?s) < fl_next ?s"
        using lock_okD(1,2) [OF ok, of t' k'] other [OF lk] by (auto simp: s l delete_conv')
    next
      fix t1 k1 t2 k2 assume "locked t1 k1 ?s" "locked t2 k2 ?s" "ls_fd (get_state t1 k1 ?s) = ls_fd (get_state t2 k2 ?s)"
      then show "t1 = t2 \<and> k1 = k2" using lock_okD(3) [OF ok, of t1 k1 t2 k2] by (auto simp: s l split: if_splits)
    qed
  qed
qed

section \<open>A turn is isolated\<close>

lemma lock_key_eq [simp]: "lock_key k = lock_key k' \<longleftrightarrow> k = k'"
  by (simp add: lock_key_def)

lemma lock_ok_perform: "lock_ok path (lr_locks s) \<Longrightarrow> perform path a s = Some s' \<Longrightarrow> lock_ok path (lr_locks s')"
proof (cases a)
  case (Enter t k)
  assume ok: "lock_ok path (lr_locks s)" and p: "perform path a s = Some s'"
  then have "lr_locks s' = snd (acquire_lock path True t (lock_key k) (lr_locks s))"
    by (auto simp: perform_def Enter split: acquired.splits prod.splits)
  then show ?thesis using lock_ok_acquire [OF ok] by simp
qed (auto simp: perform_def lock_ok_release split: if_splits)

lemma lock_ok_run: "lock_ok path (lr_locks s) \<Longrightarrow> run_actions path as s = Some s' \<Longrightarrow> lock_ok path (lr_locks s')"
proof (induction as arbitrary: s)
  case (Cons a as)
  obtain s1 where s1: "perform path a s = Some s1" "run_actions path as s1 = Some s'"
    using Cons.prems(2) by (auto split: option.splits)
  show ?case by (rule Cons.IH [OF lock_ok_perform [OF Cons.prems(1) s1(1)] s1(2)])
qed simp

text \<open>The depth a thread has on a key, along a run.\<close>

definition turn_depth :: "thread \<Rightarrow> string \<Rightarrow> action \<Rightarrow> nat \<Rightarrow> nat" where
  "turn_depth t k a n = (case a of
       Enter t' k' \<Rightarrow> if t' = t \<and> k' = k then n + 1 else n
     | Leave t' k' \<Rightarrow> if t' = t \<and> k' = k then n - 1 else n
     | Write _ _ _ \<Rightarrow> n)"

fun keeps_turn :: "thread \<Rightarrow> string \<Rightarrow> nat \<Rightarrow> action list \<Rightarrow> bool" where
  "keeps_turn t k n [] \<longleftrightarrow> 0 < n"
| "keeps_turn t k n (a # as) \<longleftrightarrow> 0 < n \<and> keeps_turn t k (turn_depth t k a n) as"

lemma perform_depth:
  assumes "perform path a s = Some s'"
  shows "ls_depth (get_state t (lock_key k) (lr_locks s')) = turn_depth t k a (ls_depth (get_state t (lock_key k) (lr_locks s)))"
proof (cases a)
  case (Enter t' k')
  then show ?thesis using assms
    by (auto simp: perform_def turn_depth_def acquire_lock_def Let_def split: acquired.splits if_splits)
next
  case (Leave t' k')
  then show ?thesis using assms by (auto simp: perform_def turn_depth_def release_lock_def Let_def)
next
  case (Write t' k' w)
  then show ?thesis using assms by (auto simp: perform_def turn_depth_def split: if_splits)
qed

text \<open>A write looks at the row of its key only and leaves the others.\<close>

lemma write_other: "k' \<noteq> k \<Longrightarrow> map_of (write_row k' w g) k = map_of g k"
  by (auto simp: write_row_def mark_observed_def mark_active_def mark_failed_def upsert_session_def bind_session_def
    delete_stale_def Let_def split: row_write.split option.split)

lemma write_same: "map_of g k = map_of g' k \<Longrightarrow> map_of (write_row k w g) k = map_of (write_row k w g') k"
  by (auto simp: write_row_def mark_starting_def mark_observed_def mark_active_def mark_failed_def upsert_session_def
    bind_session_def delete_stale_def Let_def split: row_write.split option.split)

definition own_writes :: "thread \<Rightarrow> string \<Rightarrow> action list \<Rightarrow> row_write list" where
  "own_writes t k = List.map_filter (\<lambda>a. case a of Write t' k' w \<Rightarrow> if t' = t \<and> k' = k then Some w else None | _ \<Rightarrow> None)"

lemma fold_write_same:
  "map_of g k = map_of g' k \<Longrightarrow> map_of (fold (write_row k) ws g) k = map_of (fold (write_row k) ws g') k"
proof (induction ws arbitrary: g g')
  case (Cons w ws)
  show ?case using Cons.IH [OF write_same [OF Cons.prems]] by simp
qed simp

text \<open>
  C37. A turn is alone on its row. However the threads of all processes interleave, as long as one holds
  the lock of a key - and nested acquisitions and releases do not end that - the row of the key changes
  only by the thread's own writes, in their order: the outcome is that of the turn run alone. The lock
  is still held at the end, even where the files of several keys coincide.
\<close>

theorem turn_isolated:
  assumes before: "run_actions path earlier \<lparr>lr_locks = no_locks, lr_table = g\<rparr> = Some s"
    and turn: "run_actions path as s = Some s'"
    and holds: "keeps_turn t k (ls_depth (get_state t (lock_key k) (lr_locks s))) as"
  shows "map_of (lr_table s') k = map_of (fold (write_row k) (own_writes t k as) (lr_table s)) k \<and>
    locked t (lock_key k) (lr_locks s')"
proof -
  have "lock_ok path (lr_locks s)" by (rule lock_ok_run [OF _ before]) simp
  then show ?thesis using turn holds
  proof (induction as arbitrary: s)
    case Nil
    then show ?case by (simp add: own_writes_def map_filter_simps locked_def)
  next
    case (Cons a as)
    obtain s1 where s1: "perform path a s = Some s1" "run_actions path as s1 = Some s'"
      using Cons.prems(2) by (auto split: option.splits)
    have held: "locked t (lock_key k) (lr_locks s)" using Cons.prems(3) by (simp add: locked_def)
    note ih = Cons.IH [OF lock_ok_perform [OF Cons.prems(1) s1(1)] s1(2)]
    have k: "keeps_turn t k (ls_depth (get_state t (lock_key k) (lr_locks s1))) as"
      using Cons.prems(3) by (simp add: perform_depth [OF s1(1)])
    show ?case
    proof (cases "\<exists>w. a = Write t k w")
      case True
      then obtain w where a: "a = Write t k w" by blast
      then have "lr_table s1 = write_row k w (lr_table s)" using s1(1) by (auto simp: perform_def split: if_splits)
      then show ?thesis using ih [OF k] by (simp add: a own_writes_def map_filter_simps)
    next
      case False
      have "map_of (lr_table s1) k = map_of (lr_table s) k"
      proof (cases a)
        case (Write t' k' w)
        then have "locked t' (lock_key k') (lr_locks s)" "lr_table s1 = write_row k' w (lr_table s)"
          using s1(1) by (auto simp: perform_def split: if_splits)
        moreover have "k' \<noteq> k"
        proof
          assume "k' = k"
          then have "t' = t" using locked_exclusive [OF Cons.prems(1) \<open>locked t' (lock_key k') (lr_locks s)\<close> held] by simp
          then show False using False Write \<open>k' = k\<close> by simp
        qed
        ultimately show ?thesis by (simp add: write_other)
      qed (use s1(1) in \<open>auto simp: perform_def split: acquired.splits prod.splits\<close>)
      moreover have "own_writes t k (a # as) = own_writes t k as"
        using False by (auto simp: own_writes_def map_filter_simps split: action.split)
      ultimately show ?thesis using ih [OF k] fold_write_same [of "lr_table s1" k "lr_table s"] by simp
    qed
  qed
qed

definition first_entered :: locked_registry where
  "first_entered = \<lparr>lr_locks = \<lparr>fl_owner = [(''session:k'', 0)], fl_states = [((1, ''session:k''), \<lparr>ls_fd = 0, ls_depth = 1\<rparr>)], fl_next = 1\<rparr>,
     lr_table = []\<rparr>"

lemma turn_isolated_witness:
  "\<exists>s'. run_actions id [Enter 1 ''k'', Enter 2 ''j'', Write 1 ''k'' (Bind_Row ''s'' 5), Write 2 ''j'' (Bind_Row ''x'' 6), Leave 1 ''k'']
       first_entered = Some s' \<and>
     locked 1 (lock_key ''k'') (lr_locks s') \<and>
     map_option se_session_id (map_of (lr_table s') ''k'') = Some ''s''"
proof -
  let ?as = "[Enter 1 ''k'', Enter 2 ''j'', Write 1 ''k'' (Bind_Row ''s'' 5), Write 2 ''j'' (Bind_Row ''x'' 6), Leave 1 ''k'']"
  have b: "run_actions id [Enter 1 ''k''] \<lparr>lr_locks = no_locks, lr_table = []\<rparr> = Some first_entered"
    by (simp add: perform_def acquire_lock_def no_locks_def get_state_def set_state_def lock_key_def first_entered_def Let_def)
  obtain s' where a: "run_actions id ?as first_entered = Some s'"
    by (simp add: perform_def acquire_lock_def release_lock_def get_state_def set_state_def locked_def lock_key_def first_entered_def Let_def)
  have k: "keeps_turn 1 ''k'' (ls_depth (get_state 1 (lock_key ''k'') (lr_locks first_entered))) ?as"
    by (simp add: turn_depth_def get_state_def lock_key_def first_entered_def)
  have "map_of (fold (write_row ''k'') (own_writes 1 ''k'' ?as) (lr_table first_entered)) ''k'' = map_of (write_row ''k'' (Bind_Row ''s'' 5) []) ''k''"
    by (simp add: own_writes_def map_filter_simps first_entered_def)
  then show ?thesis using turn_isolated [OF b a k] a
    by (simp add: write_row_def bind_session_def)
qed

text \<open>The lock is reentrant for its thread only: a second thread waits, whatever process it is of.\<close>

lemma second_thread_waits:
  "lock_ok path s \<Longrightarrow> locked t k s \<Longrightarrow> t' \<noteq> t \<Longrightarrow> fst (acquire_lock path True t' k s) = Waits"
  using locked_exclusive [of path s t k t' k] lock_okD(1) [of path s t k] by (auto simp: acquire_lock_def locked_def Let_def)

end
