(* ===== verification/Artifact_Pull.thy ===== *)
theory Artifact_Pull
  imports Py_Values
begin

text \<open>
  Artifacts pulled from a worker (\<open>artifact.py\<close>): the descriptor a worker sends, the check of its path
  with \<open>os.path.normpath\<close>, the transfer and the check of what arrived. The transfer, the control socket
  and the digest are arguments.
\<close>

section \<open>Paths\<close>

record descriptor =
  ad_artifact_id :: string
  ad_relative_path :: string
  ad_size :: nat
  ad_sha256 :: string

text \<open>\<open>s.split("/")\<close>\<close>

fun split_slash :: "string \<Rightarrow> string list" where
  "split_slash [] = [[]]"
| "split_slash (c # s) = (case split_slash s of
       [] \<Rightarrow> []
     | p # ps \<Rightarrow> if c = CHR ''/'' then [] # p # ps else (c # p) # ps)"

fun join_slash :: "string list \<Rightarrow> string" where
  "join_slash [] = []"
| "join_slash [p] = p"
| "join_slash (p # ps) = p @ ''/'' @ join_slash ps"

definition isabs :: "string \<Rightarrow> bool" where
  "isabs p \<longleftrightarrow> prefix ''/'' p"

text \<open>The loop of \<open>posixpath.normpath\<close> over the components; the components kept so far are in reverse.\<close>

fun norm_comps :: "bool \<Rightarrow> string list \<Rightarrow> string list \<Rightarrow> string list" where
  "norm_comps slash kept [] = rev kept"
| "norm_comps slash kept (c # cs) =
     (if c = [] \<or> c = ''.'' then norm_comps slash kept cs
      else if c \<noteq> ''..'' \<or> (\<not> slash \<and> kept = []) \<or> (kept \<noteq> [] \<and> hd kept = ''..'') then norm_comps slash (c # kept) cs
      else norm_comps slash (tl kept) cs)"

definition leading :: "string \<Rightarrow> string" where
  "leading p = (if \<not> isabs p then [] else if prefix ''//'' p \<and> \<not> prefix ''///'' p then ''//'' else ''/'')"

definition normpath :: "string \<Rightarrow> string" where
  "normpath p = (if p = [] then ''.''
     else let q = leading p @ join_slash (norm_comps (isabs p) [] (split_slash p)) in if q = [] then ''.'' else q)"

datatype path_error = Empty_Path | Absolute_Path | Dotdot | Path_Root

text \<open>\<open>validate_descriptor\<close>; \<^term>\<open>None\<close> when it returns.\<close>

definition validate_descriptor :: "descriptor \<Rightarrow> path_error option" where
  "validate_descriptor d =
     (let path = ad_relative_path d; parts = split_slash (normpath path) in
      if path = [] \<or> strip path = [] then Some Empty_Path
      else if isabs path then Some Absolute_Path
      else if isabs (normpath path) then Some Absolute_Path
      else if ''..'' \<in> set parts then Some Dotdot
      else if filter (\<lambda>c. c \<noteq> []) parts = [] then Some Path_Root
      else None)"

section \<open>Transfer\<close>

datatype pull_error =
    Unsafe path_error | No_Socket | No_Scp | Scp_Failed string | Not_A_File | Size_Mismatch nat nat | Hash_Mismatch string string

text \<open>A file is its bytes. \<open>verify_artifact\<close>\<close>

definition verify_artifact :: "(nat list \<Rightarrow> string) \<Rightarrow> nat list option \<Rightarrow> string \<Rightarrow> nat \<Rightarrow> pull_error option" where
  "verify_artifact sha256 file expected_sha expected_size = (case file of
       None \<Rightarrow> Some Not_A_File
     | Some bytes \<Rightarrow>
         if length bytes \<noteq> expected_size then Some (Size_Mismatch expected_size (length bytes))
         else if sha256 bytes \<noteq> expected_sha then Some (Hash_Mismatch expected_sha (sha256 bytes))
         else None)"

definition rstrip_slash :: "string \<Rightarrow> string" where
  "rstrip_slash s = rev (dropWhile (\<lambda>c. c = CHR ''/'') (rev s))"

text \<open>
  What the pull meets: the control socket, the program \<open>scp\<close>, and what a copy of a remote path leaves at
  the destination beside its exit code and error text.
\<close>

record pull_world =
  pw_socket :: bool
  pw_scp :: bool
  pw_copy :: "string \<Rightarrow> int \<times> string \<times> nat list option"

definition remote_path :: "string \<Rightarrow> string \<Rightarrow> descriptor \<Rightarrow> string" where
  "remote_path alias base d = alias @ '':'' @ rstrip_slash base @ ''/'' @ ad_relative_path d"

text \<open>\<open>pull_artifact\<close>: the answer and the file at the destination; \<open>old\<close> is the file that was there.\<close>

definition pull_artifact ::
  "(nat list \<Rightarrow> string) \<Rightarrow> string \<Rightarrow> string \<Rightarrow> descriptor \<Rightarrow> pull_world \<Rightarrow> nat list option \<Rightarrow> (pull_error + unit) \<times> nat list option" where
  "pull_artifact sha256 alias base d w old = (case validate_descriptor d of
       Some e \<Rightarrow> (Inl (Unsafe e), old)
     | None \<Rightarrow>
         if \<not> pw_socket w then (Inl No_Socket, old)
         else if \<not> pw_scp w then (Inl No_Scp, old)
         else (case pw_copy w (remote_path alias base d) of
             (rc, err, file) \<Rightarrow>
               if rc \<noteq> 0 then (Inl (Scp_Failed err), file)
               else case verify_artifact sha256 file (ad_sha256 d) (ad_size d) of
                 Some e \<Rightarrow> (Inl e, file)
               | None \<Rightarrow> (Inr (), file)))"

section \<open>What an accepted path reaches\<close>

text \<open>How a path is walked from a directory, component by component, without symbolic links.\<close>

fun walk :: "string list \<Rightarrow> string list \<Rightarrow> string list" where
  "walk dir [] = dir"
| "walk dir (c # cs) = (if c = [] \<or> c = ''.'' then walk dir cs
     else if c = ''..'' then walk (butlast dir) cs else walk (dir @ [c]) cs)"

text \<open>The walk never leaves the directory it began in.\<close>

fun stays_below :: "nat \<Rightarrow> string list \<Rightarrow> bool" where
  "stays_below n [] = True"
| "stays_below n (c # cs) = (if c = [] \<or> c = ''.'' then stays_below n cs
     else if c = ''..'' then 0 < n \<and> stays_below (n - 1) cs else stays_below (n + 1) cs)"

lemma split_slash_parts: "p \<in> set (split_slash s) \<Longrightarrow> CHR ''/'' \<notin> set p"
proof (induction s arbitrary: p)
  case (Cons c s)
  then show ?case by (cases "split_slash s") (auto split: if_splits)
qed simp

lemma split_slash_ne [simp]: "split_slash s \<noteq> []"
  by (induction s) (auto split: list.split)

lemma split_slash_part: "CHR ''/'' \<notin> set p \<Longrightarrow> split_slash p = [p]"
  by (induction p) auto

lemma split_slash_app: "CHR ''/'' \<notin> set p \<Longrightarrow> split_slash (p @ ''/'' @ s) = p # split_slash s"
  by (induction p) (auto split: list.split)

lemma split_join: "ps \<noteq> [] \<Longrightarrow> \<forall>p \<in> set ps. CHR ''/'' \<notin> set p \<Longrightarrow> split_slash (join_slash ps) = ps"
proof (induction ps rule: join_slash.induct)
  case (3 p q ps)
  then show ?case using split_slash_app [of p "join_slash (q # ps)"] by simp
qed (simp_all add: split_slash_part)

lemma norm_keeps_dotdot: "''..'' \<in> set kept \<Longrightarrow> ''..'' \<in> set (norm_comps False kept cs)"
proof (induction cs arbitrary: kept)
  case (Cons c cs)
  show ?case
  proof (cases "c = [] \<or> c = ''.'' \<or> c \<noteq> ''..'' \<or> kept = [] \<or> hd kept = ''..''")
    case False
    then have "''..'' \<in> set (tl kept)" using Cons.prems by (cases kept) auto
    then show ?thesis using False Cons.IH by simp
  qed (use Cons in auto)
qed simp

lemma norm_walk:
  "''..'' \<notin> set kept \<Longrightarrow>
     (''..'' \<notin> set (norm_comps False kept cs) \<longleftrightarrow> stays_below (length kept) cs) \<and>
     (stays_below (length kept) cs \<longrightarrow> walk (dir @ rev kept) cs = dir @ norm_comps False kept cs)"
proof (induction cs arbitrary: kept)
  case (Cons c cs)
  consider "c = [] \<or> c = ''.''" | "c = ''..''" "kept = []" | "c = ''..''" "kept \<noteq> []" | "c \<noteq> []" "c \<noteq> ''.''" "c \<noteq> ''..''"
    by blast
  then show ?case
  proof cases
    case 1
    then show ?thesis using Cons by auto
  next
    case 2
    then show ?thesis using norm_keeps_dotdot [of "[''..'']" cs] by simp
  next
    case 3
    then obtain k ks where k: "kept = k # ks" by (cases kept) auto
    have "k \<noteq> ''..''" using Cons.prems by (auto simp: k)
    then show ?thesis using 3 Cons.IH [of ks] Cons.prems by (simp add: k butlast_append)
  next
    case 4
    then show ?thesis using Cons.IH [of "c # kept"] Cons.prems by simp
  qed
qed simp

lemma norm_comps_subset: "set (norm_comps b kept cs) \<subseteq> set kept \<union> {c \<in> set cs. c \<noteq> []}"
proof (induction cs arbitrary: kept)
  case (Cons c cs)
  have "set (tl kept) \<subseteq> set kept" by (cases kept) auto
  then show ?case using Cons.IH [of kept] Cons.IH [of "c # kept"] Cons.IH [of "tl kept"]
    by (simp only: norm_comps.simps split: if_split) (simp, blast)
qed simp

lemma norm_comps_parts:
  "p \<in> set (norm_comps b [] (split_slash s)) \<Longrightarrow> p \<noteq> [] \<and> CHR ''/'' \<notin> set p"
  using norm_comps_subset [of b "[]" "split_slash s"] split_slash_parts [of p s] by auto

lemma normpath_parts:
  assumes "p \<noteq> []" "\<not> isabs p"
  shows "split_slash (normpath p) = (let cs = norm_comps False [] (split_slash p) in if cs = [] then [''.''] else cs)"
    "\<not> isabs (normpath p)"
proof -
  let ?cs = "norm_comps False [] (split_slash p)"
  have ok: "\<forall>q \<in> set ?cs. q \<noteq> [] \<and> CHR ''/'' \<notin> set q" using norm_comps_parts by blast
  have n: "normpath p = (let q = join_slash ?cs in if q = [] then ''.'' else q)" using assms by (simp add: normpath_def leading_def)
  have "split_slash (normpath p) = (if ?cs = [] then [''.''] else ?cs) \<and> \<not> isabs (normpath p)"
  proof (cases ?cs)
    case Nil
    then show ?thesis by (simp add: n isabs_def)
  next
    case (Cons c cs)
    obtain x xs where c: "c = x # xs" "x \<noteq> CHR ''/''" using ok Cons by (cases c) auto
    have "\<exists>r. join_slash ?cs = c @ r" by (cases cs) (simp_all add: Cons)
    then have j: "join_slash ?cs \<noteq> []" "\<not> isabs (join_slash ?cs)" using c by (auto simp: isabs_def)
    have "split_slash (join_slash ?cs) = ?cs" using ok Cons by (intro split_join) auto
    then show ?thesis using j Cons by (simp add: n Let_def)
  qed
  then show "split_slash (normpath p) = (let cs = norm_comps False [] (split_slash p) in if cs = [] then [''.''] else cs)"
    "\<not> isabs (normpath p)" by (simp_all add: Let_def)
qed

text \<open>The check accepts exactly the relative paths whose walk never leaves its directory; its last test never fails.\<close>

lemma validate_exact:
  "validate_descriptor d = None \<longleftrightarrow>
     strip (ad_relative_path d) \<noteq> [] \<and> \<not> isabs (ad_relative_path d) \<and> stays_below 0 (split_slash (ad_relative_path d))"
proof (cases "strip (ad_relative_path d) = [] \<or> isabs (ad_relative_path d)")
  case True
  then show ?thesis by (auto simp: validate_descriptor_def Let_def)
next
  case False
  let ?p = "ad_relative_path d" and ?cs = "norm_comps False [] (split_slash (ad_relative_path d))"
  have p: "?p \<noteq> []" using False by (auto simp: strip_def)
  have ok: "\<forall>q \<in> set ?cs. q \<noteq> []" using norm_comps_parts by blast
  have parts: "split_slash (normpath ?p) = (if ?cs = [] then [''.''] else ?cs)" "\<not> isabs (normpath ?p)"
    using normpath_parts [OF p] False by (simp_all add: Let_def)
  have "filter (\<lambda>c. c \<noteq> []) (split_slash (normpath ?p)) \<noteq> []" using ok by (auto simp: parts filter_empty_conv)
  moreover have "''..'' \<in> set (split_slash (normpath ?p)) \<longleftrightarrow> ''..'' \<in> set ?cs" by (simp add: parts)
  ultimately show ?thesis using False p parts(2) norm_walk [of "[]" "split_slash ?p" "[]"]
    by (simp add: validate_descriptor_def Let_def) blast
qed


definition report_file :: descriptor where
  "report_file = \<lparr>ad_artifact_id = ''a1'', ad_relative_path = ''out/./report.txt'', ad_size = 2, ad_sha256 = ''h''\<rparr>"


text \<open>The root itself passes the check; a path that goes up and down again is sent as it was written.\<close>

lemma root_accepted:
  "validate_descriptor \<lparr>ad_artifact_id = [], ad_relative_path = ''.'', ad_size = 0, ad_sha256 = []\<rparr> = None"
  by code_simp

lemma dotdot_sent:
  "validate_descriptor \<lparr>ad_artifact_id = [], ad_relative_path = ''a/../b'', ad_size = 0, ad_sha256 = []\<rparr> = None \<and>
   remote_path ''dev'' ''/r'' \<lparr>ad_artifact_id = [], ad_relative_path = ''a/../b'', ad_size = 0, ad_sha256 = []\<rparr> = ''dev:/r/a/../b''"
  by code_simp

end
