(* ===== verification/Repo_Routing.thy ===== *)
theory Repo_Routing
  imports Domain_Hosts
begin

text \<open>
  The map of hosts and topics (\<open>config/repo_map.py\<close>), the resolution of a request to a target
  (\<open>routing/resolver.py\<close>) and the choice of a transport (\<open>transport/router.py\<close>). The map is read from JSON
  documents; a host name that is no string, which the source stores and fails on later, is a wrong shape
  here at once. The expansion of paths is an argument; descriptions and notes are left out.
\<close>

section \<open>The map\<close>

record repo_entry =
  re_host :: string
  re_path :: string

record topic_spec =
  tp_name :: string
  tp_repos :: "repo_entry list"

record repo_map =
  rm_midocs_root :: string
  rm_hosts :: "(string \<times> host_spec) list"
  rm_topics :: "(string \<times> topic_spec) list"
  rm_relay_zsh :: string

datatype map_error =
    Bad_Transport | Bad_Alias | Bad_Fallback | Same_Fallback | Fallback_Without_Ssh | Undefined_Host | Missing_Key | Wrong_Shape

definition VALID_TRANSPORTS :: "string list" where
  "VALID_TRANSPORTS = [''ssh'', ''relay-login'']"

text \<open>\<open>tuple(cfg.get("hostnames") or ())\<close>\<close>

definition name_tuple :: "json option \<Rightarrow> map_error + string list" where
  "name_tuple v = (case v of
       None \<Rightarrow> Inr []
     | Some (JArr xs) \<Rightarrow> if list_all is_str xs then Inr (map the_str xs) else Inl Wrong_Shape
     | Some (JStr s) \<Rightarrow> Inr (map (\<lambda>c. [c]) s)
     | Some (JObj d) \<Rightarrow> Inr (map fst d)
     | Some x \<Rightarrow> if truthy x then Inl Wrong_Shape else Inr [])"

definition fallback_alias :: "string \<Rightarrow> string \<Rightarrow> json option \<Rightarrow> map_error + string" where
  "fallback_alias transport alias v = (case v of
       None \<Rightarrow> Inr []
     | Some JNull \<Rightarrow> Inr []
     | Some (JStr s) \<Rightarrow>
         if s = [] then Inr []
         else if strip s = [] then Inl Bad_Fallback
         else if strip s = alias then Inl Same_Fallback
         else if transport \<noteq> ''ssh'' then Inl Fallback_Without_Ssh
         else Inr (strip s)
     | Some _ \<Rightarrow> Inl Bad_Fallback)"

text \<open>One entry of \<open>hosts\<close>.\<close>

definition parse_host :: "string \<Rightarrow> json \<Rightarrow> map_error + host_spec" where
  "parse_host name cfg = (case cfg of
       JObj d \<Rightarrow>
         (case dget_or d ''transport'' (JStr ''ssh'') of
           JStr transport \<Rightarrow>
             if transport \<notin> set VALID_TRANSPORTS then Inl Bad_Transport
             else (case dget_or d ''ssh_alias'' (JStr []) of
               JStr alias \<Rightarrow>
                 if strip alias = [] then Inl Bad_Alias
                 else (case fallback_alias transport alias (dget d ''fallback_ssh_alias'') of
                   Inl e \<Rightarrow> Inl e
                 | Inr fb \<Rightarrow> (case (name_tuple (dget d ''hostnames''), dget_or d ''shell_prefix'' (JStr [])) of
                     (Inr names, JStr sp) \<Rightarrow>
                       Inr \<lparr>hs_name = name, hs_ssh_alias = alias, hs_hostnames = names, hs_shell_prefix = strip sp,
                         hs_transport = transport, hs_fallback_ssh_alias = fb\<rparr>
                   | _ \<Rightarrow> Inl Wrong_Shape))
             | _ \<Rightarrow> Inl Bad_Alias)
         | x \<Rightarrow> if hashable x then Inl Bad_Transport else Inl Wrong_Shape)
     | _ \<Rightarrow> Inl Wrong_Shape)"

fun parse_hosts :: "dict \<Rightarrow> map_error + (string \<times> host_spec) list" where
  "parse_hosts [] = Inr []"
| "parse_hosts ((name, cfg) # rest) = (case parse_host name cfg of
       Inl e \<Rightarrow> Inl e
     | Inr h \<Rightarrow> map_sum id (\<lambda>hs. (name, h) # hs) (parse_hosts rest))"

text \<open>One entry of a topic, and the topic.\<close>

definition parse_repo :: "(string \<times> host_spec) list \<Rightarrow> json \<Rightarrow> map_error + repo_entry" where
  "parse_repo hosts entry = (case entry of
       JObj d \<Rightarrow>
         (case dget d ''host'' of
           None \<Rightarrow> Inl Missing_Key
         | Some (JStr h) \<Rightarrow>
             if map_of hosts h = None then Inl Undefined_Host
             else (case dget d ''path'' of
               None \<Rightarrow> Inl Missing_Key
             | Some (JStr p) \<Rightarrow> Inr \<lparr>re_host = h, re_path = strip p\<rparr>
             | Some _ \<Rightarrow> Inl Wrong_Shape)
         | Some x \<Rightarrow> if hashable x then Inl Undefined_Host else Inl Wrong_Shape)
     | _ \<Rightarrow> Inl Wrong_Shape)"

fun parse_repos :: "(string \<times> host_spec) list \<Rightarrow> json list \<Rightarrow> map_error + repo_entry list" where
  "parse_repos hosts [] = Inr []"
| "parse_repos hosts (x # xs) = (case parse_repo hosts x of
       Inl e \<Rightarrow> Inl e
     | Inr r \<Rightarrow> map_sum id (\<lambda>rs. r # rs) (parse_repos hosts xs))"

text \<open>\<open>topic_raw.get("repos") or []\<close>\<close>

definition topic_entries :: "dict \<Rightarrow> map_error + json list" where
  "topic_entries d = (case dget_or d ''repos'' JNull of
       JArr xs \<Rightarrow> Inr xs
     | x \<Rightarrow> if truthy x then Inl Wrong_Shape else Inr [])"

definition parse_topic :: "(string \<times> host_spec) list \<Rightarrow> string \<Rightarrow> json \<Rightarrow> map_error + topic_spec" where
  "parse_topic hosts name doc = (case doc of
       JObj d \<Rightarrow> (case topic_entries d of
           Inl e \<Rightarrow> Inl e
         | Inr xs \<Rightarrow> map_sum id (\<lambda>rs. \<lparr>tp_name = name, tp_repos = rs\<rparr>) (parse_repos hosts xs))
     | _ \<Rightarrow> Inl Wrong_Shape)"

fun parse_topics :: "(string \<times> host_spec) list \<Rightarrow> (string \<times> json) list \<Rightarrow> map_error + (string \<times> topic_spec) list" where
  "parse_topics hosts [] = Inr []"
| "parse_topics hosts ((name, doc) # rest) = (case parse_topic hosts name doc of
       Inl e \<Rightarrow> Inl e
     | Inr t \<Rightarrow> map_sum id (\<lambda>ts. (name, t) # ts) (parse_topics hosts rest))"

text \<open>
  \<open>load_repo_map\<close>: the document of the map, and the directories below the root of the topics with the
  document of each that has one.
\<close>

definition topic_documents :: "(string \<times> json option) list \<Rightarrow> (string \<times> json) list" where
  "topic_documents dirs = List.map_filter (\<lambda>(n, f). map_option (\<lambda>doc. (n, doc)) f)
     (filter (\<lambda>(n, _). \<not> prefix ''.'' n) (sort_key fst dirs))"

definition load_repo_map ::
  "(string \<Rightarrow> string) \<Rightarrow> json \<Rightarrow> (string \<Rightarrow> (string \<times> json option) list) \<Rightarrow> map_error + repo_map" where
  "load_repo_map expand_path raw dirs = (case raw of
       JObj d \<Rightarrow>
         (case (dget_or d ''midocs_root'' (JStr ''~/mi-docs''), dget_or d ''relay_zsh'' (JStr [])) of
           (JStr r, JStr z) \<Rightarrow>
             (case (case dget_or d ''hosts'' JNull of JObj hs \<Rightarrow> parse_hosts hs
                | x \<Rightarrow> if truthy x then Inl Wrong_Shape else Inr []) of
               Inl e \<Rightarrow> Inl e
             | Inr hosts \<Rightarrow> (case parse_topics hosts (topic_documents (dirs (expand_path r))) of
                 Inl e \<Rightarrow> Inl e
               | Inr topics \<Rightarrow> Inr \<lparr>rm_midocs_root = expand_path r, rm_hosts = hosts, rm_topics = topics,
                   rm_relay_zsh = expand_path z\<rparr>))
         | _ \<Rightarrow> Inl Wrong_Shape)
     | _ \<Rightarrow> Inl Wrong_Shape)"

section \<open>Targets\<close>

record route_request =
  rq_host :: string
  rq_topic :: string
  rq_repo_index :: int
  rq_workdir :: string

record target =
  tg_host :: host_spec
  tg_path :: string
  tg_topic :: "string option"
  tg_repo_index :: int
  tg_is_local :: bool

datatype route_error = Unknown_Topic | Index_Error

definition LOCAL_HOST :: host_spec where
  "LOCAL_HOST = \<lparr>hs_name = ''__local__'', hs_ssh_alias = ''__local__'', hs_hostnames = [''localhost''], hs_shell_prefix = [],
     hs_transport = ''local'', hs_fallback_ssh_alias = []\<rparr>"

text \<open>A configured host, or one made up from its name.\<close>

definition host_named :: "string \<Rightarrow> repo_map \<Rightarrow> host_spec" where
  "host_named n m = (case map_of (rm_hosts m) n of Some h \<Rightarrow> h | None \<Rightarrow> plain_host n [n])"

definition resolve_by_host :: "string \<Rightarrow> route_request \<Rightarrow> repo_map \<Rightarrow> target" where
  "resolve_by_host me q m =
     (let h = host_named (rq_host q) m in
      \<lparr>tg_host = h, tg_path = (if rq_workdir q = [] then ''.'' else rq_workdir q), tg_topic = None, tg_repo_index = 0,
       tg_is_local = resolve_is_local me h\<rparr>)"

definition topic_repo :: "topic_spec \<Rightarrow> int \<Rightarrow> repo_entry option" where
  "topic_repo t i = (if i < 0 \<or> int (length (tp_repos t)) \<le> i then None else Some (tp_repos t ! nat i))"

definition resolve_by_topic :: "string \<Rightarrow> route_request \<Rightarrow> repo_map \<Rightarrow> route_error + target" where
  "resolve_by_topic me q m = (case map_of (rm_topics m) (rq_topic q) of
       None \<Rightarrow> Inl Unknown_Topic
     | Some t \<Rightarrow> (case topic_repo t (rq_repo_index q) of
         None \<Rightarrow> Inl Index_Error
       | Some r \<Rightarrow>
           (let h = host_named (re_host r) m in
            Inr \<lparr>tg_host = h, tg_path = re_path r, tg_topic = Some (tp_name t), tg_repo_index = rq_repo_index q,
              tg_is_local = resolve_is_local me h\<rparr>)))"

definition resolve_local_fallback :: "route_request \<Rightarrow> target" where
  "resolve_local_fallback q = \<lparr>tg_host = LOCAL_HOST, tg_path = (if rq_workdir q = [] then ''.'' else rq_workdir q), tg_topic = None,
     tg_repo_index = 0, tg_is_local = True\<rparr>"

definition resolve_request :: "string \<Rightarrow> route_request \<Rightarrow> repo_map \<Rightarrow> route_error + target" where
  "resolve_request me q m =
     (if rq_host q \<noteq> [] then Inr (resolve_by_host me q m)
      else if rq_topic q \<noteq> [] then resolve_by_topic me q m
      else Inr (resolve_local_fallback q))"

section \<open>Transports\<close>

datatype chosen_transport = Local_Transport | Relay_Transport string | Ssh_Transport

text \<open>\<open>TransportRouter.get\<close>; \<^term>\<open>None\<close> when the relay is not configured and it raises.\<close>

definition router_get :: "string \<Rightarrow> host_spec \<Rightarrow> repo_map option \<Rightarrow> chosen_transport option" where
  "router_get me h m =
     (if resolve_is_local me h then Some Local_Transport
      else if hs_transport h = ''relay-login''
      then (case m of
          Some x \<Rightarrow> if rm_relay_zsh x = [] then None else Some (Relay_Transport (rm_relay_zsh x))
        | None \<Rightarrow> None)
      else Some Ssh_Transport)"

definition router_capabilities :: "host_spec \<Rightarrow> string list" where
  "router_capabilities h = (if hs_transport h = ''relay-login'' then [''mailbox''] else [''mailbox'', ''stream'', ''artifact''])"

definition supports_mailbox :: "host_spec \<Rightarrow> bool" where
  "supports_mailbox h \<longleftrightarrow> ''mailbox'' \<in> set (router_capabilities h)"

definition supports_stream :: "host_spec \<Rightarrow> bool" where
  "supports_stream h \<longleftrightarrow> ''stream'' \<in> set (router_capabilities h)"

section \<open>A loaded map routes\<close>

text \<open>What every configured host satisfies.\<close>

definition host_ok :: "string \<times> host_spec \<Rightarrow> bool" where
  "host_ok nh \<longleftrightarrow> (case nh of (n, h) \<Rightarrow>
     hs_name h = n \<and> strip (hs_ssh_alias h) \<noteq> [] \<and> hs_transport h \<in> set VALID_TRANSPORTS \<and>
     (hs_fallback_ssh_alias h = [] \<or>
        hs_transport h = ''ssh'' \<and> strip (hs_fallback_ssh_alias h) \<noteq> [] \<and> hs_fallback_ssh_alias h \<noteq> hs_ssh_alias h))"

lemma strip_strip [simp]: "strip (strip s) = strip s"
proof -
  let ?d = "dropWhile is_space"
  have r: "?d (rev (?d (rev xs))) = rev (?d (rev xs))" if "?d xs = xs" for xs
  proof (cases "?d (rev xs)")
    case (Cons y ys)
    then have "rev xs = takeWhile is_space (rev xs) @ y # ys" by (metis takeWhile_dropWhile_id)
    then have "xs = rev (y # ys) @ rev (takeWhile is_space (rev xs))" by (metis rev_append rev_rev_ident)
    then have "hd xs = hd (rev (y # ys))" by (metis hd_append2 Nil_is_rev_conv list.distinct(1))
    moreover have "xs \<noteq> []" using Cons by auto
    then have "\<not> is_space (hd xs)" using that by (metis hd_dropWhile)
    ultimately show ?thesis unfolding Cons by (cases "rev (y # ys)") auto
  next
    case Nil
    show ?thesis unfolding Nil by simp
  qed
  have "?d (?d s) = ?d s" by simp
  from r [OF this] show ?thesis by (simp add: strip_def)
qed

lemma fallback_alias_ok:
  "fallback_alias transport alias v = Inr fb \<Longrightarrow> fb = [] \<or> transport = ''ssh'' \<and> strip fb \<noteq> [] \<and> fb \<noteq> alias"
  by (auto simp: fallback_alias_def split: option.splits json.splits if_splits)

lemma parse_host_ok: "parse_host n cfg = Inr h \<Longrightarrow> host_ok (n, h)"
  by (auto simp: parse_host_def host_ok_def split: json.splits if_splits sum.splits dest!: fallback_alias_ok)

lemma parse_hosts_ok: "parse_hosts d = Inr hs \<Longrightarrow> list_all host_ok hs"
proof (induction d arbitrary: hs)
  case (Cons x d)
  obtain n c where x: "x = (n, c)" by fastforce
  obtain h hs' where "parse_host n c = Inr h" "parse_hosts d = Inr hs'" "hs = (n, h) # hs'"
    using Cons.prems by (cases "parse_hosts d") (auto simp: x split: sum.splits)
  then show ?case using Cons.IH parse_host_ok by simp
qed simp

lemma parse_repos_ok: "parse_repos hosts xs = Inr rs \<Longrightarrow> list_all (\<lambda>r. map_of hosts (re_host r) \<noteq> None) rs"
proof (induction xs arbitrary: rs)
  case (Cons x xs)
  obtain r rs' where r: "parse_repo hosts x = Inr r" "parse_repos hosts xs = Inr rs'" "rs = r # rs'"
    using Cons.prems by (cases "parse_repos hosts xs") (auto split: sum.splits)
  have "map_of hosts (re_host r) \<noteq> None"
    using r(1) by (auto simp: parse_repo_def split: json.splits option.splits if_splits)
  then show ?case using Cons.IH r by simp
qed simp

lemma parse_topics_ok:
  "parse_topics hosts ds = Inr ts \<Longrightarrow>
     list_all (\<lambda>(n, t). tp_name t = n \<and> list_all (\<lambda>r. map_of hosts (re_host r) \<noteq> None) (tp_repos t)) ts"
proof (induction ds arbitrary: ts)
  case (Cons x ds)
  obtain n c where x: "x = (n, c)" by fastforce
  obtain t ts' where t: "parse_topic hosts n c = Inr t" "parse_topics hosts ds = Inr ts'" "ts = (n, t) # ts'"
    using Cons.prems by (cases "parse_topics hosts ds") (auto simp: x split: sum.splits)
  obtain rs xs where "parse_repos hosts xs = Inr rs" "t = \<lparr>tp_name = n, tp_repos = rs\<rparr>"
    using t(1) by (auto simp: parse_topic_def map_sum_def split: json.splits sum.splits)
  then show ?case using Cons.IH t parse_repos_ok by auto
qed simp

text \<open>
  A map that loads routes every repository it names. Each host has a usable alias and a known
  transport, and a fallback only over ssh, to another alias; a request for a repository of a topic is
  resolved to the configured host and path of that entry, never to a host made up from a name; an
  unknown topic or an index out of range is an error, and nothing else is; and with a relay configured
  every resolved host has a transport.
\<close>

theorem loaded_map_routes:
  assumes load: "load_repo_map expand raw dirs = Inr m" and q: "rq_host q = []" "rq_topic q \<noteq> []"
  shows "list_all host_ok (rm_hosts m) \<and>
    (case map_of (rm_topics m) (rq_topic q) of
       None \<Rightarrow> resolve_request me q m = Inl Unknown_Topic
     | Some t \<Rightarrow>
         if 0 \<le> rq_repo_index q \<and> rq_repo_index q < int (length (tp_repos t))
         then \<exists>h. map_of (rm_hosts m) (re_host (tp_repos t ! nat (rq_repo_index q))) = Some h \<and> host_ok (re_host (tp_repos t ! nat (rq_repo_index q)), h) \<and>
           resolve_request me q m = Inr \<lparr>tg_host = h, tg_path = re_path (tp_repos t ! nat (rq_repo_index q)),
             tg_topic = Some (rq_topic q), tg_repo_index = rq_repo_index q, tg_is_local = resolve_is_local me h\<rparr> \<and>
           (router_get me h (Some m) = None \<longleftrightarrow> \<not> resolve_is_local me h \<and> hs_transport h = ''relay-login'' \<and> rm_relay_zsh m = [])
         else resolve_request me q m = Inl Index_Error)"
proof -
  obtain docs where t: "list_all host_ok (rm_hosts m)" "parse_topics (rm_hosts m) docs = Inr (rm_topics m)"
    using load by (auto simp: load_repo_map_def split: json.splits sum.splits if_splits dest: parse_hosts_ok)
  note ts = parse_topics_ok [OF t(2)]
  show ?thesis
  proof (cases "map_of (rm_topics m) (rq_topic q)")
    case None
    then show ?thesis using t(1) q by (simp add: resolve_request_def resolve_by_topic_def)
  next
    case (Some tp)
    let ?i = "nat (rq_repo_index q)" and ?r = "tp_repos tp ! nat (rq_repo_index q)"
    have tp: "tp_name tp = rq_topic q" "list_all (\<lambda>r. map_of (rm_hosts m) (re_host r) \<noteq> None) (tp_repos tp)"
      using ts map_of_SomeD [OF Some] by (auto simp: list_all_iff)
    show ?thesis
    proof (cases "0 \<le> rq_repo_index q \<and> rq_repo_index q < int (length (tp_repos tp))")
      case True
      then have "?r \<in> set (tp_repos tp)" by auto
      then obtain h where h: "map_of (rm_hosts m) (re_host ?r) = Some h" using tp(2) by (auto simp: list_all_iff)
      have "host_ok (re_host ?r, h)" using t(1) map_of_SomeD [OF h] by (auto simp: list_all_iff)
      then show ?thesis using True Some h t(1) q tp(1)
        by (auto simp: resolve_request_def resolve_by_topic_def topic_repo_def host_named_def router_get_def Let_def)
    next
      case False
      then show ?thesis using Some t(1) q by (auto simp: resolve_request_def resolve_by_topic_def topic_repo_def)
    qed
  qed
qed

definition small_map :: json where
  "small_map = JObj [(''hosts'', JObj [(''dev'', JObj [(''ssh_alias'', JStr ''dev1''), (''hostnames'', JArr [JStr ''box''])])])]"

definition small_topics :: "string \<Rightarrow> (string \<times> json option) list" where
  "small_topics _ = [(''wifi'', Some (JObj [(''repos'', JArr [JObj [(''host'', JStr ''dev''), (''path'', JStr '' /src/wifi '')]])])),
     (''.git'', Some JNull), (''notes'', None)]"

lemma loaded_map_routes_witness:
  "\<exists>m h. load_repo_map id small_map small_topics = Inr m \<and>
     resolve_request ''laptop'' \<lparr>rq_host = [], rq_topic = ''wifi'', rq_repo_index = 0, rq_workdir = []\<rparr> m =
       Inr \<lparr>tg_host = h, tg_path = ''/src/wifi'', tg_topic = Some ''wifi'', tg_repo_index = 0, tg_is_local = False\<rparr> \<and>
     hs_ssh_alias h = ''dev1''"
proof -
  let ?h = "\<lparr>hs_name = ''dev'', hs_ssh_alias = ''dev1'', hs_hostnames = [''box''], hs_shell_prefix = [], hs_transport = ''ssh'',
    hs_fallback_ssh_alias = []\<rparr>"
  let ?m = "\<lparr>rm_midocs_root = ''~/mi-docs'', rm_hosts = [(''dev'', ?h)],
    rm_topics = [(''wifi'', \<lparr>tp_name = ''wifi'', tp_repos = [\<lparr>re_host = ''dev'', re_path = ''/src/wifi''\<rparr>]\<rparr>)], rm_relay_zsh = []\<rparr>"
  let ?q = "\<lparr>rq_host = [], rq_topic = ''wifi'', rq_repo_index = 0, rq_workdir = []\<rparr>"
  have "topic_documents (small_topics r) = [(''wifi'', JObj [(''repos'', JArr [JObj [(''host'', JStr ''dev''), (''path'', JStr '' /src/wifi '')]])])]" for r
    unfolding small_topics_def by code_simp
  moreover have "parse_host ''dev'' (JObj [(''ssh_alias'', JStr ''dev1''), (''hostnames'', JArr [JStr ''box''])]) = Inr ?h" by code_simp
  moreover have "strip '' /src/wifi '' = ''/src/wifi''" by code_simp
  ultimately have load: "load_repo_map id small_map small_topics = Inr ?m"
    by (simp add: load_repo_map_def small_map_def dget_or_def dget_def parse_topic_def topic_entries_def parse_repo_def)
  have "\<not> resolve_is_local ''laptop'' ?h" by code_simp
  then show ?thesis using loaded_map_routes [OF load, of ?q "''laptop''"] load by auto
qed

text \<open>A host that is this machine gets the local transport, but the capabilities of its relay.\<close>

lemma local_relay_capabilities:
  "resolve_is_local me h \<Longrightarrow> hs_transport h = ''relay-login'' \<Longrightarrow>
     router_get me h m = Some Local_Transport \<and> \<not> supports_stream h"
  by (simp add: router_get_def supports_stream_def router_capabilities_def)

end
