(* ===== verification/Swarm_Receiver.thy ===== *)
theory Swarm_Receiver
  imports Store_Claims
begin

text \<open>
  The receiver of an agent (\<open>swarm/receiver.py\<close>): it turns pushed stream events and new files of the inbox
  into calls of the subscribed callbacks, writes pushed messages to the inbox, and never consumes one.
  A callback is its number; which calls raise is an argument. Stream events are checked frames, so their
  identifier is a string. The size of a file is an argument; a write does not fail.
\<close>

section \<open>State\<close>

record receiver =
  rv_session_id :: string
  rv_agent_id :: string
  rv_callbacks :: "(string list \<times> string list) list"
  rv_seen :: "string list"
  rv_stats :: "(string \<times> instant \<times> nat) list"
  rv_fired :: "(nat \<times> string \<times> dict) list"

definition new_receiver :: "string \<Rightarrow> string \<Rightarrow> receiver" where
  "new_receiver sid aid = \<lparr>rv_session_id = sid, rv_agent_id = aid, rv_callbacks = [], rv_seen = [], rv_stats = [], rv_fired = []\<rparr>"

definition subscribe_receiver :: "string list \<Rightarrow> string list \<Rightarrow> receiver \<Rightarrow> receiver" where
  "subscribe_receiver channels kinds r = r\<lparr>rv_callbacks := rv_callbacks r @ [(channels, kinds)]\<rparr>"

section \<open>Callbacks\<close>

definition callback_matches :: "string list \<times> string list \<Rightarrow> dict \<Rightarrow> bool" where
  "callback_matches f msg \<longleftrightarrow> (case f of (channels, kinds) \<Rightarrow>
     (channels = [] \<or> dget_or msg ''channel_id'' (JStr []) \<in> JStr ` set channels) \<and>
     (kinds = [] \<or> dget_or msg ''kind'' (JStr []) \<in> JStr ` set kinds))"

text \<open>The callbacks that are called, by number: all that match, up to the first that raises.\<close>

fun called :: "(nat \<Rightarrow> dict \<Rightarrow> bool) \<Rightarrow> nat \<Rightarrow> (string list \<times> string list) list \<Rightarrow> dict \<Rightarrow> nat list" where
  "called raises i [] msg = []"
| "called raises i (f # fs) msg =
     (if \<not> callback_matches f msg then called raises (i + 1) fs msg
      else if raises i msg then [i]
      else i # called raises (i + 1) fs msg)"

definition fire_callbacks :: "(nat \<Rightarrow> dict \<Rightarrow> bool) \<Rightarrow> string \<Rightarrow> dict \<Rightarrow> receiver \<Rightarrow> receiver" where
  "fire_callbacks raises mid msg r =
     r\<lparr>rv_fired := rv_fired r @ map (\<lambda>i. (i, mid, msg)) (called raises 0 (rv_callbacks r) msg)\<rparr>"

section \<open>Stream events\<close>

definition RE_MSG_ID :: "string \<Rightarrow> bool" where
  "RE_MSG_ID = match_dollar (\<lambda>s. s \<noteq> [] \<and> list_all (\<lambda>c. is_alnum c \<or> c = CHR ''_'' \<or> c = CHR ''-'') s)"

definition is_msg_on_disk :: "string \<Rightarrow> string \<Rightarrow> string \<Rightarrow> fs \<Rightarrow> bool" where
  "is_msg_on_disk sid aid m s \<longleftrightarrow>
     list_ex (\<lambda>sub. exists_at s (agent_subdir sid aid sub @ [json_name m])) [''inbox'', ''processing'', ''archive'']"

definition PASSED_FIELDS :: "string list" where
  "PASSED_FIELDS = [''reply_to'', ''run_id'', ''request_id'', ''trace_id'', ''causation_id'', ''attachments'']"

definition event_message :: "string \<Rightarrow> string \<Rightarrow> dict \<Rightarrow> dict" where
  "event_message sid aid ev =
     [(''session_id'', JStr sid), (''from'', dget_or ev ''from'' (JStr [])), (''to'', JStr aid),
      (''subject'', dget_or ev ''subject'' (JStr [])), (''body'', dget_or ev ''body'' (JStr [])),
      (''kind'', dget_or ev ''kind'' (JStr ''TASK'')), (''msg_id'', dget_or ev ''msg_id'' (JStr [])),
      (''created_at'', dget_or ev ''created_at'' (JStr []))] @
     List.map_filter (\<lambda>k. map_option (\<lambda>v. (k, v)) (dget ev k)) PASSED_FIELDS"

text \<open>\<open>_write_to_inbox\<close>, with the exception of \<open>Message.from_dict\<close> if it raises.\<close>

definition write_to_inbox :: "instant \<Rightarrow> string \<Rightarrow> string \<Rightarrow> dict \<Rightarrow> fs \<Rightarrow> py_error option \<times> fs" where
  "write_to_inbox now sid aid ev s =
     (let m = sget ev ''msg_id''; s1 = mkdirs (inbox_dir sid aid) s in
      if \<not> RE_MSG_ID m then (None, s)
      else if exists_at s1 (inbox_file sid aid m) then (None, s1)
      else case message_from_dict (event_message sid aid ev) of
        Inl e \<Rightarrow> (Some e, s1)
      | Inr msg \<Rightarrow> (None, write_doc now (inbox_file sid aid m) (JObj (message_to_dict msg)) s1))"

definition handle_stream_event ::
  "(nat \<Rightarrow> dict \<Rightarrow> bool) \<Rightarrow> instant \<Rightarrow> dict \<Rightarrow> receiver \<times> fs \<Rightarrow> py_error option \<times> receiver \<times> fs" where
  "handle_stream_event raises now ev rs = (case rs of (r, s) \<Rightarrow>
     (let m = sget ev ''msg_id''; r1 = r\<lparr>rv_seen := m # rv_seen r\<rparr> in
      if m = [] \<or> m \<in> set (rv_seen r) then (None, r, s)
      else if is_msg_on_disk (rv_session_id r) (rv_agent_id r) m s then (None, fire_callbacks raises m ev r1, s)
      else case write_to_inbox now (rv_session_id r) (rv_agent_id r) ev s of
        (Some e, s1) \<Rightarrow> (Some e, r1, s1)
      | (None, s1) \<Rightarrow> (None, fire_callbacks raises m ev r1, s1)))"

text \<open>The events of one poll of \<open>_stream_loop\<close>; an exception ends the thread.\<close>

fun stream_events ::
  "(nat \<Rightarrow> dict \<Rightarrow> bool) \<Rightarrow> instant \<Rightarrow> dict list \<Rightarrow> receiver \<times> fs \<Rightarrow> py_error option \<times> receiver \<times> fs" where
  "stream_events raises now [] rs = (None, rs)"
| "stream_events raises now (ev # evs) rs = (case handle_stream_event raises now ev rs of
       (None, rs') \<Rightarrow> stream_events raises now evs rs'
     | (Some e, rs') \<Rightarrow> (Some e, rs'))"

section \<open>Watching the inbox\<close>

definition iter_inbox_files :: "path \<Rightarrow> fs \<Rightarrow> string list" where
  "iter_inbox_files d s =
     filter (\<lambda>n. is_file_at s (d @ [n]) \<and> suffix dot_json n \<and> \<not> prefix ''.'' n) (children s d)"

definition file_stat :: "(content \<Rightarrow> nat) \<Rightarrow> path \<Rightarrow> fs \<Rightarrow> instant \<times> nat" where
  "file_stat bytes p s = (case node_at s p of Some (File c t) \<Rightarrow> (t, bytes c) | _ \<Rightarrow> (0, 0))"

definition build_initial_stat_cache :: "(content \<Rightarrow> nat) \<Rightarrow> fs \<Rightarrow> receiver \<Rightarrow> receiver" where
  "build_initial_stat_cache bytes s r =
     (let d = inbox_dir (rv_session_id r) (rv_agent_id r) in
      r\<lparr>rv_stats := fold (\<lambda>n. AList.update n (file_stat bytes (d @ [n]) s)) (iter_inbox_files d s) (rv_stats r)\<rparr>)"

text \<open>
  One pass over the names: the messages found, or \<^term>\<open>None\<close> when a document that is no object, or an
  identifier that is no string, raises; what was seen by then stays seen.
\<close>

fun scan_files ::
  "(content \<Rightarrow> nat) \<Rightarrow> path \<Rightarrow> fs \<Rightarrow> string list \<Rightarrow> (string \<times> dict) list \<Rightarrow> receiver \<Rightarrow> (string \<times> dict) list option \<times> receiver" where
  "scan_files bytes d s [] found r = (Some found, r)"
| "scan_files bytes d s (n # ns) found r =
     (let st = file_stat bytes (d @ [n]) s; r1 = r\<lparr>rv_stats := AList.update n st (rv_stats r)\<rparr> in
      if map_of (rv_stats r) n = Some st then scan_files bytes d s ns found r
      else case load_at s (d @ [n]) of
        Loaded (JObj msg) \<Rightarrow>
          (case dget_or msg ''msg_id'' (JStr (stem n)) of
             JStr m \<Rightarrow>
               if m \<in> set (rv_seen r) then scan_files bytes d s ns found r1
               else scan_files bytes d s ns (found @ [(m, msg)]) (r1\<lparr>rv_seen := m # rv_seen r\<rparr>)
           | _ \<Rightarrow> (None, r1))
      | Loaded _ \<Rightarrow> (None, r1)
      | _ \<Rightarrow> scan_files bytes d s ns found r1)"

definition watch_round :: "(content \<Rightarrow> nat) \<Rightarrow> (nat \<Rightarrow> dict \<Rightarrow> bool) \<Rightarrow> fs \<Rightarrow> receiver \<Rightarrow> receiver" where
  "watch_round bytes raises s r =
     (let d = inbox_dir (rv_session_id r) (rv_agent_id r) in
      case scan_files bytes d s (iter_inbox_files d s) [] r of
        (None, r1) \<Rightarrow> r1
      | (Some found, r1) \<Rightarrow> fold (\<lambda>(m, msg). fire_callbacks raises m msg) found r1)"

section \<open>Each message is announced once\<close>

datatype receiver_op =
    Subscribe "string list" "string list"
  | Events instant "dict list"
  | Start_Watch
  | Watch_Round
  | Tree_Becomes fs

definition receiver_step ::
  "(content \<Rightarrow> nat) \<Rightarrow> (nat \<Rightarrow> dict \<Rightarrow> bool) \<Rightarrow> receiver_op \<Rightarrow> receiver \<times> fs \<Rightarrow> receiver \<times> fs" where
  "receiver_step bytes raises op rs = (case rs of (r, s) \<Rightarrow> (case op of
       Subscribe channels kinds \<Rightarrow> (subscribe_receiver channels kinds r, s)
     | Events now evs \<Rightarrow> snd (stream_events raises now evs (r, s))
     | Start_Watch \<Rightarrow> (build_initial_stat_cache bytes s r, s)
     | Watch_Round \<Rightarrow> (watch_round bytes raises s r, s)
     | Tree_Becomes s' \<Rightarrow> (r, s')))"

text \<open>What is announced was seen, and nothing twice to one callback.\<close>

definition announced :: "receiver \<Rightarrow> (nat \<times> string) list" where
  "announced r = map (\<lambda>(i, m, _). (i, m)) (rv_fired r)"

definition once :: "receiver \<Rightarrow> bool" where
  "once r \<longleftrightarrow> distinct (announced r) \<and> snd ` set (announced r) \<subseteq> set (rv_seen r)"

lemma called_bounds: "j \<in> set (called raises i fs msg) \<Longrightarrow> i \<le> j"
  by (induction raises i fs msg rule: called.induct) (auto split: if_splits)

lemma called_distinct: "distinct (called raises i fs msg)"
proof (induction raises i fs msg rule: called.induct)
  case (2 raises i f fs msg)
  have "i \<notin> set (called raises (i + 1) fs msg)" using called_bounds [of i raises "i + 1"] by auto
  with 2 show ?case by simp
qed simp

lemma announced_fire: "announced (fire_callbacks raises m msg r) = announced r @ map (\<lambda>i. (i, m)) (called raises 0 (rv_callbacks r) msg)"
  by (simp add: announced_def fire_callbacks_def)

lemma seen_fire [simp]: "rv_seen (fire_callbacks raises m msg r) = rv_seen r"
  by (simp add: fire_callbacks_def)

lemma announced_updates [simp]:
  "announced (r\<lparr>rv_seen := x\<rparr>) = announced r" "announced (r\<lparr>rv_stats := y\<rparr>) = announced r" "announced (r\<lparr>rv_callbacks := z\<rparr>) = announced r"
  by (simp_all add: announced_def)

lemma once_fire:
  assumes "distinct (announced r)" "snd ` set (announced r) \<subseteq> set (rv_seen r)" "m \<notin> snd ` set (announced r)" "m \<in> set (rv_seen r)"
  shows "once (fire_callbacks raises m msg r)"
proof -
  have "distinct (map (\<lambda>i. (i, m)) (called raises 0 (rv_callbacks r) msg))"
    using called_distinct by (simp add: distinct_map inj_on_def)
  then show ?thesis using assms by (auto simp: once_def announced_fire image_iff)
qed

lemma once_see: "once r \<Longrightarrow> once (r\<lparr>rv_seen := m # rv_seen r\<rparr>)"
  by (auto simp: once_def)

lemma once_handle: "once r \<Longrightarrow> once (fst (snd (handle_stream_event raises now ev (r, s))))"
proof -
  assume r: "once r"
  let ?m = "sget ev ''msg_id''"
  have "once (fire_callbacks raises ?m ev (r\<lparr>rv_seen := ?m # rv_seen r\<rparr>))" if "?m \<notin> set (rv_seen r)"
    using r that by (intro once_fire) (auto simp: once_def)
  then show ?thesis using r once_see [OF r, of ?m]
    by (auto simp: handle_stream_event_def Let_def split: prod.split option.split)
qed

lemma once_events: "once r \<Longrightarrow> once (fst (snd (stream_events raises now evs (r, s))))"
proof (induction evs arbitrary: r s)
  case (Cons ev evs)
  obtain e r1 s1 where h: "handle_stream_event raises now ev (r, s) = (e, r1, s1)" by (metis prod_cases3)
  then have "once r1" using once_handle [OF Cons.prems, of raises now ev s] by simp
  then show ?case using Cons.IH h by (cases e) simp_all
qed simp

text \<open>A scan collects new identifiers, each once, and marks them as seen.\<close>

lemma scan_new:
  assumes "snd ` set (announced r) \<subseteq> set (rv_seen r)" "distinct (announced r)"
    and "distinct (map fst found)" "fst ` set found \<subseteq> set (rv_seen r)" "fst ` set found \<inter> snd ` set (announced r) = {}"
  shows "(case scan_files bytes d s ns found r of (out, r') \<Rightarrow>
      announced r' = announced r \<and> set (rv_seen r) \<subseteq> set (rv_seen r') \<and> rv_callbacks r' = rv_callbacks r \<and>
      (\<forall>fd. out = Some fd \<longrightarrow> distinct (map fst fd) \<and> fst ` set fd \<subseteq> set (rv_seen r') \<and> fst ` set fd \<inter> snd ` set (announced r) = {}))"
  using assms
proof (induction ns arbitrary: found r)
  case (Cons n ns)
  let ?st = "file_stat bytes (d @ [n]) s"
  let ?r1 = "r\<lparr>rv_stats := AList.update n ?st (rv_stats r)\<rparr>"
  show ?case
  proof (cases "map_of (rv_stats r) n = Some ?st")
    case True
    then show ?thesis using Cons.IH [OF Cons.prems] by simp
  next
    case new: False
    show ?thesis
    proof (cases "\<exists>msg m. load_at s (d @ [n]) = Loaded (JObj msg) \<and> dget_or msg ''msg_id'' (JStr (stem n)) = JStr m")
      case True
      then obtain msg m where m: "load_at s (d @ [n]) = Loaded (JObj msg)" "dget_or msg ''msg_id'' (JStr (stem n)) = JStr m" by blast
      show ?thesis
      proof (cases "m \<in> set (rv_seen r)")
        case True
        have "?thesis = (case scan_files bytes d s ns found ?r1 of (out, r') \<Rightarrow>
            announced r' = announced ?r1 \<and> set (rv_seen ?r1) \<subseteq> set (rv_seen r') \<and> rv_callbacks r' = rv_callbacks ?r1 \<and>
            (\<forall>fd. out = Some fd \<longrightarrow> distinct (map fst fd) \<and> fst ` set fd \<subseteq> set (rv_seen r') \<and> fst ` set fd \<inter> snd ` set (announced ?r1) = {}))"
          using new m True by (simp add: Let_def)
        then show ?thesis using Cons.IH [of ?r1 found] Cons.prems by simp
      next
        case False
        let ?r2 = "?r1\<lparr>rv_seen := m # rv_seen r\<rparr>" and ?found = "found @ [(m, msg)]"
        obtain out r' where o: "scan_files bytes d s ns ?found ?r2 = (out, r')" by fastforce
        have "(case scan_files bytes d s ns ?found ?r2 of (out, r') \<Rightarrow>
            announced r' = announced ?r2 \<and> set (rv_seen ?r2) \<subseteq> set (rv_seen r') \<and> rv_callbacks r' = rv_callbacks ?r2 \<and>
            (\<forall>fd. out = Some fd \<longrightarrow> distinct (map fst fd) \<and> fst ` set fd \<subseteq> set (rv_seen r') \<and> fst ` set fd \<inter> snd ` set (announced ?r2) = {}))"
          using Cons.prems False by (intro Cons.IH) auto
        moreover have "scan_files bytes d s (n # ns) found r = (out, r')" using new m False o by (simp add: Let_def)
        ultimately show ?thesis unfolding o by (simp del: scan_files.simps)
      qed
    next
      case False
      have dead: "scan_files bytes d s (n # ns) found r = (None, ?r1) \<or> scan_files bytes d s (n # ns) found r = scan_files bytes d s ns found ?r1"
        using new False by (auto simp: Let_def split: loaded.split json.split)
      then show ?thesis
      proof
        assume "scan_files bytes d s (n # ns) found r = (None, ?r1)"
        then show ?thesis by (simp only: prod.case announced_updates) simp
      next
        assume "scan_files bytes d s (n # ns) found r = scan_files bytes d s ns found ?r1"
        moreover have "snd ` set (announced ?r1) \<subseteq> set (rv_seen ?r1)" using Cons.prems(1) by simp
        ultimately show ?thesis using Cons.IH [of ?r1 found] Cons.prems by (simp del: scan_files.simps)
      qed
    qed
  qed
qed simp

lemma once_fires:
  assumes "once r" "distinct (map fst fd)" "fst ` set fd \<subseteq> set (rv_seen r)" "fst ` set fd \<inter> snd ` set (announced r) = {}"
  shows "once (fold (\<lambda>(m, msg). fire_callbacks raises m msg) fd r)"
  using assms
proof (induction fd arbitrary: r)
  case (Cons x fd)
  obtain m msg where x: "x = (m, msg)" by fastforce
  let ?r = "fire_callbacks raises m msg r"
  have "once ?r" using Cons.prems by (intro once_fire) (auto simp: x once_def)
  moreover have "snd ` set (announced ?r) \<subseteq> snd ` set (announced r) \<union> {m}" by (auto simp: announced_fire)
  moreover have "fst ` set fd \<inter> insert m (snd ` set (announced r)) = {}" using Cons.prems(2,4) by (simp add: x)
  ultimately have "once ?r \<and> fst ` set fd \<inter> snd ` set (announced ?r) = {}" by blast
  then show ?case using Cons.IH [of ?r] Cons.prems by (simp add: x)
qed simp

lemma once_watch: "once r \<Longrightarrow> once (watch_round bytes raises s r)"
proof -
  assume r: "once r"
  let ?d = "inbox_dir (rv_session_id r) (rv_agent_id r)"
  obtain out r' where o: "scan_files bytes ?d s (iter_inbox_files ?d s) [] r = (out, r')" by fastforce
  have n: "announced r' = announced r \<and> set (rv_seen r) \<subseteq> set (rv_seen r') \<and>
    (\<forall>fd. out = Some fd \<longrightarrow> distinct (map fst fd) \<and> fst ` set fd \<subseteq> set (rv_seen r') \<and> fst ` set fd \<inter> snd ` set (announced r) = {})"
    using scan_new [of r "[]" bytes ?d s "iter_inbox_files ?d s"] r unfolding o by (simp add: once_def)
  have once: "once r'" using r n by (auto simp: once_def)
  show ?thesis
  proof (cases out)
    case (Some fd)
    have "once (fold (\<lambda>(m, msg). fire_callbacks raises m msg) fd r')"
      using n Some by (intro once_fires [OF once]) simp_all
    then show ?thesis by (simp add: watch_round_def Let_def o Some)
  qed (simp add: watch_round_def Let_def o once)
qed

lemma once_other: "once r \<Longrightarrow> once (subscribe_receiver channels kinds r)" "once r \<Longrightarrow> once (build_initial_stat_cache bytes s r)"
  by (simp_all add: once_def subscribe_receiver_def build_initial_stat_cache_def Let_def)

lemma once_step: "once (fst rs) \<Longrightarrow> once (fst (receiver_step bytes raises op rs))"
proof (cases rs)
  case (Pair r s)
  assume "once (fst rs)"
  then show ?thesis
    by (cases op) (simp_all add: Pair receiver_step_def once_events once_watch once_other)
qed

section \<open>It only adds\<close>

lemma write_keeps: "node_at s p = Some n \<Longrightarrow> node_at (snd (write_to_inbox now sid aid ev s)) p = Some n"
  by (auto simp: write_to_inbox_def Let_def write_doc_def fs_simps node_at_mkdirs_keep exists_at_def split: sum.split)

lemma handle_keeps: "node_at s p = Some n \<Longrightarrow> node_at (snd (snd (handle_stream_event raises now ev (r, s)))) p = Some n"
  using write_keeps [of s p n now "rv_session_id r" "rv_agent_id r" ev]
  by (auto simp: handle_stream_event_def Let_def split: prod.split option.split)

lemma events_keep: "node_at s p = Some n \<Longrightarrow> node_at (snd (snd (stream_events raises now evs (r, s)))) p = Some n"
proof (induction evs arbitrary: r s)
  case (Cons ev evs)
  obtain e r1 s1 where h: "handle_stream_event raises now ev (r, s) = (e, r1, s1)" by (metis prod_cases3)
  then have "node_at s1 p = Some n" using handle_keeps [OF Cons.prems, of raises now ev r] by simp
  then show ?case using Cons.IH h by (cases e) simp_all
qed simp

text \<open>
  C40. A receiver announces each message once and consumes none. Whatever events are pushed, files appear,
  change or vanish, and callbacks are subscribed, no callback is called twice for one message identifier;
  no step of the receiver changes or removes anything that is in the tree; and a pushed event with a
  proper identifier that was not seen before is in a folder of the agent afterwards, unless its
  attachments are malformed.
\<close>

theorem receiver_announces_once:
  "distinct (announced (fst (fold (receiver_step bytes raises) ops (new_receiver sid aid, s0)))) \<and>
   (\<forall>r s op p n. (\<forall>s'. op \<noteq> Tree_Becomes s') \<and> node_at s p = Some n \<longrightarrow>
      node_at (snd (receiver_step bytes raises op (r, s))) p = Some n) \<and>
   (\<forall>r s now ev r' s'. handle_stream_event raises now ev (r, s) = (None, r', s') \<and> RE_MSG_ID (sget ev ''msg_id'') \<and>
      sget ev ''msg_id'' \<notin> set (rv_seen r) \<longrightarrow>
      is_msg_on_disk (rv_session_id r) (rv_agent_id r) (sget ev ''msg_id'') s')"
proof (intro conjI allI impI)
  have "once (fst (fold (receiver_step bytes raises) ops rs))" if "once (fst rs)" for rs
    using that by (induction ops arbitrary: rs) (simp_all add: once_step)
  moreover have "once (new_receiver sid aid)" by (simp add: once_def new_receiver_def announced_def)
  ultimately show "distinct (announced (fst (fold (receiver_step bytes raises) ops (new_receiver sid aid, s0))))"
    by (simp add: once_def)
next
  fix r s op p n
  assume a: "(\<forall>s'. op \<noteq> Tree_Becomes s') \<and> node_at s p = Some n"
  then show "node_at (snd (receiver_step bytes raises op (r, s))) p = Some n"
    using events_keep by (cases op) (auto simp: receiver_step_def)
next
  fix r s now ev r' s'
  assume h: "handle_stream_event raises now ev (r, s) = (None, r', s') \<and> RE_MSG_ID (sget ev ''msg_id'') \<and>
    sget ev ''msg_id'' \<notin> set (rv_seen r)"
  let ?m = "sget ev ''msg_id''"
  have m: "?m \<noteq> []" using h by (auto simp: RE_MSG_ID_def match_dollar_def)
  show "is_msg_on_disk (rv_session_id r) (rv_agent_id r) ?m s'"
  proof (cases "is_msg_on_disk (rv_session_id r) (rv_agent_id r) ?m s")
    case True
    then have "s' = s" using h m by (auto simp: handle_stream_event_def Let_def)
    then show ?thesis using True by simp
  next
    case False
    have "write_to_inbox now (rv_session_id r) (rv_agent_id r) ev s = (None, s')"
      using h m False by (auto simp: handle_stream_event_def Let_def split: prod.splits option.splits)
    then have "exists_at s' (inbox_file (rv_session_id r) (rv_agent_id r) ?m)"
      using h by (auto simp: write_to_inbox_def Let_def write_doc_def exists_at_def fs_simps split: sum.splits if_splits)
    then show ?thesis by (simp add: is_msg_on_disk_def inbox_file_def inbox_dir_def)
  qed
qed

lemma receiver_announces_once_witness:
  "\<exists>r' s'. handle_stream_event (\<lambda>_ _. False) 5 [(''msg_id'', JStr ''a'')] (subscribe_receiver [] [] (new_receiver ''s'' ''w''), []) = (None, r', s') \<and>
     announced r' = [(0, ''a'')] \<and> is_msg_on_disk ''s'' ''w'' ''a'' s' \<and>
     node_at (snd (receiver_step (\<lambda>_. 1) (\<lambda>_ _. False) (Events 6 [[(''msg_id'', JStr ''b'')]]) (r', [([''s''], Dir)]))) [''s''] = Some Dir"
proof -
  let ?ev = "[(''msg_id'', JStr ''a'')]" and ?r = "subscribe_receiver [] [] (new_receiver ''s'' ''w'')"
  have re: "RE_MSG_ID ''a''" by code_simp
  obtain m where m: "message_from_dict (event_message ''s'' ''w'' ?ev) = Inr m"
    by (simp add: message_from_dict_def event_message_def has_key_def PASSED_FIELDS_def map_filter_simps dget_def dget_or_def
      map_filter_def)
  have no: "\<not> is_msg_on_disk ''s'' ''w'' ''a'' []" by (simp add: is_msg_on_disk_def exists_at_def node_at_def)
  have sg: "sget ?ev ''msg_id'' = ''a''" by (simp add: sget_def dget_or_def)
  have "\<exists>s1. write_to_inbox 5 ''s'' ''w'' ?ev [] = (None, s1)" by (simp add: write_to_inbox_def Let_def m re sg)
  then obtain s1 where w: "write_to_inbox 5 ''s'' ''w'' ?ev [] = (None, s1)" ..
  have h: "handle_stream_event (\<lambda>_ _. False) 5 ?ev (?r, []) =
      (None, fire_callbacks (\<lambda>_ _. False) ''a'' ?ev (?r\<lparr>rv_seen := [''a'']\<rparr>), s1)"
    by (simp add: handle_stream_event_def Let_def sg no w subscribe_receiver_def new_receiver_def)
  have a: "announced (fire_callbacks (\<lambda>_ _. False) ''a'' ?ev (?r\<lparr>rv_seen := [''a'']\<rparr>)) = [(0, ''a'')]"
    unfolding announced_fire by (simp add: subscribe_receiver_def new_receiver_def callback_matches_def announced_def)
  note t = receiver_announces_once [of "\<lambda>_. 1" "\<lambda>_ _. False" "[]" "''s''" "''w''" "[]"]
  have d: "is_msg_on_disk ''s'' ''w'' ''a'' s1"
  proof -
    have "RE_MSG_ID (sget ?ev ''msg_id'')" "sget ?ev ''msg_id'' \<notin> set (rv_seen ?r)"
      by (simp_all only: sg re) (simp add: subscribe_receiver_def new_receiver_def)
    then have "is_msg_on_disk (rv_session_id ?r) (rv_agent_id ?r) (sget ?ev ''msg_id'') s1" using t h by blast
    then show ?thesis by (simp only: sg) (simp add: subscribe_receiver_def new_receiver_def)
  qed
  have "node_at (snd (receiver_step (\<lambda>_. 1) (\<lambda>_ _. False) (Events 6 [[(''msg_id'', JStr ''b'')]]) (r', [([''s''], Dir)]))) [''s''] = Some Dir" for r'
    using t by (auto simp: node_at_def)
  then show ?thesis using h a d by blast
qed

text \<open>An event whose identifier is refused is not stored, and announced all the same.\<close>

lemma refused_event_announced:
  "\<exists>r' . handle_stream_event (\<lambda>_ _. False) 5 [(''msg_id'', JStr ''../x'')] (subscribe_receiver [] [] (new_receiver ''s'' ''w''), []) =
      (None, r', []) \<and> announced r' = [(0, ''../x'')]"
proof -
  have "\<not> RE_MSG_ID ''../x''" by code_simp
  then show ?thesis
    by (simp add: handle_stream_event_def Let_def sget_def dget_or_def write_to_inbox_def subscribe_receiver_def new_receiver_def
      is_msg_on_disk_def exists_at_def node_at_def fire_callbacks_def callback_matches_def announced_def)
qed

text \<open>The request for an acknowledgement of a pushed message is lost.\<close>

lemma pushed_ack_lost:
  "message_from_dict (event_message sid aid ev) = Inr m \<Longrightarrow> require_ack m = JBool False"
proof -
  have "''require_ack'' \<notin> fst ` set (event_message sid aid ev)"
  proof -
    have "fst ` set (List.map_filter (\<lambda>k. map_option (\<lambda>v. (k, v)) (dget ev k)) ks) \<subseteq> set ks" for ks
      by (induction ks) (auto simp: map_filter_simps split: option.split)
    moreover have "''require_ack'' \<notin> set PASSED_FIELDS" by (simp add: PASSED_FIELDS_def)
    ultimately show ?thesis unfolding event_message_def by auto
  qed
  then have "dget_or (event_message sid aid ev) ''require_ack'' (JBool False) = JBool False"
    by (metis dget_or_def map_of_eq_None_iff option.simps(4))
  then show "message_from_dict (event_message sid aid ev) = Inr m \<Longrightarrow> require_ack m = JBool False"
    by (auto simp: message_from_dict_def split: option.splits sum.splits)
qed

text \<open>
  A document that is no object stops a scan after other messages were marked as seen: they are never
  announced.
\<close>

definition odd_inbox :: fs where
  "odd_inbox = [([''s'', ''w'', ''inbox''], Dir),
     ([''s'', ''w'', ''inbox'', ''a.json''], File (Doc (JObj [(''msg_id'', JStr ''a'')])) 1),
     ([''s'', ''w'', ''inbox'', ''b.json''], File (Doc (JArr [])) 1)]"

lemma scan_loses_message:
  "rv_seen (watch_round (\<lambda>_. 1) (\<lambda>_ _. False) odd_inbox (subscribe_receiver [] [] (new_receiver ''s'' ''w''))) = [''a''] \<and>
   rv_fired (watch_round (\<lambda>_. 1) (\<lambda>_ _. False) odd_inbox (subscribe_receiver [] [] (new_receiver ''s'' ''w''))) = []"
proof -
  have "iter_inbox_files [''s'', ''w'', ''inbox''] odd_inbox = [''a.json'', ''b.json'']" by code_simp
  then show ?thesis
    by (simp add: watch_round_def subscribe_receiver_def new_receiver_def inbox_dir_def agent_subdir_def agent_dir_def session_dir_def
      Let_def load_at_def file_stat_def node_at_def odd_inbox_def dget_or_def)
qed

end
