(* ===== verification/Oracle_Transcript.thy ===== *)
theory Oracle_Transcript
  imports Oracle_Watch
begin

text \<open>
  The files of a finished session are cut down after a release
  (\<open>scripts/oracle_transcript_strip.py\<close>): logs are deleted or cut to their head, and the transcript keeps
  the lines a later reader needs. The files below the session directory are their bytes under their
  paths; the transcript is the list of its lines. An exception that the script does not catch is \<^term>\<open>None\<close>.
\<close>

section \<open>The transcript\<close>

definition KEEP_ROLES :: "string list" where
  "KEEP_ROLES = [''user'', ''assistant'', ''toolResult'']"

definition KEEP_HEADER_TYPES :: "string list" where
  "KEEP_HEADER_TYPES = [''title'', ''session'']"

definition TERMINAL_CUSTOM_TYPES :: "string list" where
  "TERMINAL_CUSTOM_TYPES = [''session_exit'', ''agent_end'', ''agent_stop'', ''session_shutdown'', ''process_exit'']"

text \<open>\<open>v in frozenset(\<dots>)\<close>, which raises for a value that is not hashable.\<close>

definition member_of :: "string list \<Rightarrow> json \<Rightarrow> bool option" where
  "member_of xs v = (if hashable v then Some (case v of JStr s \<Rightarrow> s \<in> set xs | _ \<Rightarrow> False) else None)"

text \<open>The role of a message, and whether the line of a document stays.\<close>

definition keep_message :: "dict \<Rightarrow> bool option" where
  "keep_message d = (case dget_or d ''message'' (JObj []) of
       JObj m \<Rightarrow> member_of KEEP_ROLES (dget_or m ''role'' (JStr []))
     | _ \<Rightarrow> None)"

definition keep_document :: "dict \<Rightarrow> bool option" where
  "keep_document d =
     (let t = dget_or d ''type'' (JStr []) in
      case member_of KEEP_HEADER_TYPES t of
        None \<Rightarrow> None
      | Some True \<Rightarrow> Some True
      | Some False \<Rightarrow>
          (case (if t = JStr ''message'' then keep_message d else Some False) of
             None \<Rightarrow> None
           | Some True \<Rightarrow> Some True
           | Some False \<Rightarrow>
               Some (t = JStr ''custom'' \<and> dget_or d ''customType'' (JStr []) = JStr ''tool_execution_start'')))"

definition keep_line :: "string \<Rightarrow> bool option" where
  "keep_line raw = (case loads raw of
       None \<Rightarrow> Some False
     | Some (JObj d) \<Rightarrow> keep_document d
     | Some _ \<Rightarrow> None)"

record filter_report =
  fr_kept :: nat
  fr_dropped :: nat
  fr_rewritten :: bool
  fr_filtered_bytes :: nat

text \<open>The loop: kept lines in order, and the number of dropped ones; an empty line is passed over.\<close>

fun filter_lines :: "string list \<Rightarrow> (string list \<times> nat) option" where
  "filter_lines [] = Some ([], 0)"
| "filter_lines (raw # rest) =
     (if raw = [] then filter_lines rest
      else case keep_line raw of
        None \<Rightarrow> None
      | Some k \<Rightarrow> map_option (\<lambda>(kept, n). if k then (raw # kept, n) else (kept, n + 1)) (filter_lines rest))"

definition file_text_of :: "string list \<Rightarrow> string" where
  "file_text_of lines = concat (map (\<lambda>l. l @ [newline]) lines)"

text \<open>\<open>_filter_session_jsonl\<close> on a file that is there: the report, and the lines afterwards.\<close>

definition filter_session_jsonl :: "bool \<Rightarrow> string list \<Rightarrow> (filter_report \<times> string list) option" where
  "filter_session_jsonl dry_run lines = map_option (\<lambda>(kept, n).
     (\<lparr>fr_kept = length kept, fr_dropped = n, fr_rewritten = (0 < n \<and> \<not> dry_run),
       fr_filtered_bytes = length (utf8_encode (file_text_of kept))\<rparr>,
      if 0 < n \<and> \<not> dry_run then kept else lines)) (filter_lines lines)"

section \<open>The live guard\<close>

fun split_newlines :: "nat list \<Rightarrow> nat list list" where
  "split_newlines [] = [[]]"
| "split_newlines (b # bs) = (case split_newlines bs of
       [] \<Rightarrow> []
     | l # ls \<Rightarrow> if b = 10 then [] # l # ls else (b # l) # ls)"

text \<open>
  \<open>_is_session_terminal\<close>: the last line that is not blank, within the last 4096 bytes. (A line that begins
  inside of a character is decoded without it.)
\<close>

definition is_session_terminal :: "string list \<Rightarrow> bool option" where
  "is_session_terminal lines =
     (let bytes = utf8_encode (file_text_of lines); tail = drop (length bytes - 4096) bytes in
      if bytes = [] then Some True
      else case filter (\<lambda>l. l \<noteq> []) (map (strip \<circ> utf8_decode_ignore) (rev (split_newlines tail))) of
        [] \<Rightarrow> Some False
      | l # _ \<Rightarrow> (case loads l of
            None \<Rightarrow> Some False
          | Some (JObj d) \<Rightarrow> member_of TERMINAL_CUSTOM_TYPES (dget_or d ''customType'' (JStr []))
          | Some _ \<Rightarrow> None))"

section \<open>The other files\<close>

record session_files =
  sf_dirs :: "string list list"
  sf_files :: "(string list \<times> nat list) list"
  sf_transcript :: "string list option"

definition has_suffix :: "string \<Rightarrow> string \<Rightarrow> bool" where
  "has_suffix suf s \<longleftrightarrow> drop (length s - length suf) s = suf"

text \<open>A path directly in the session directory or in one of its directories \<open>*_<sid>\<close>.\<close>

definition in_targets :: "string \<Rightarrow> string list list \<Rightarrow> string list \<Rightarrow> bool" where
  "in_targets sid dirs p \<longleftrightarrow> length p = 1 \<or> (length p = 2 \<and> [hd p] \<in> set dirs \<and> has_suffix (''_'' @ sid) (hd p))"

definition is_bash_original :: "string \<Rightarrow> bool" where
  "is_bash_original = has_suffix ''.bash-original.log''"

definition is_sidecar :: "string \<Rightarrow> bool" where
  "is_sidecar n \<longleftrightarrow> has_suffix ''.bash.log'' n \<or> has_suffix ''.eval.log'' n \<or> contains ''.read.'' n"

definition is_advisor :: "string \<Rightarrow> bool" where
  "is_advisor = prefix ''__advisor''"

definition delete_bash_original :: "string \<Rightarrow> session_files \<Rightarrow> string list list \<times> session_files" where
  "delete_bash_original sid s =
     (let hit = (\<lambda>p. in_targets sid (sf_dirs s) p \<and> is_bash_original (last p)) in
      (map fst (filter (hit \<circ> fst) (sf_files s)), s\<lparr>sf_files := filter (\<lambda>f. \<not> hit (fst f)) (sf_files s)\<rparr>))"

definition truncate_sidecar_logs :: "string \<Rightarrow> nat \<Rightarrow> session_files \<Rightarrow> string list list \<times> session_files" where
  "truncate_sidecar_logs sid head_bytes s =
     (let hit = (\<lambda>(p, b). in_targets sid (sf_dirs s) p \<and> is_sidecar (last p) \<and> head_bytes < length b) in
      (map fst (filter hit (sf_files s)),
       s\<lparr>sf_files := map (\<lambda>(p, b). (p, if hit (p, b) then take head_bytes b else b)) (sf_files s)\<rparr>))"

text \<open>A directory \<open>__advisor*\<close> goes with everything below it.\<close>

definition delete_advisor_files :: "string \<Rightarrow> session_files \<Rightarrow> string list list \<times> session_files" where
  "delete_advisor_files sid s =
     (let hit = (\<lambda>p. in_targets sid (sf_dirs s) p \<and> is_advisor (last p));
          gone = (\<lambda>p. \<exists>q \<in> set (sf_dirs s) \<union> fst ` set (sf_files s). hit q \<and> prefix q p) in
      (filter hit (sf_dirs s) @ filter hit (map fst (sf_files s)),
       s\<lparr>sf_dirs := filter (\<lambda>p. \<not> gone p) (sf_dirs s), sf_files := filter (\<lambda>f. \<not> gone (fst f)) (sf_files s)\<rparr>))"

section \<open>The script\<close>

datatype strip_outcome =
    Empty_Sid | Session_Not_Found | Looks_Live
  | Stripped "string list list" "string list list" "filter_report option" "string list list"

text \<open>\<open>strip_oracle_session\<close>; the session directory is \<^term>\<open>None\<close> when it is not found.\<close>

definition strip_oracle_session ::
  "string \<Rightarrow> nat \<Rightarrow> bool \<Rightarrow> bool \<Rightarrow> session_files option \<Rightarrow> (strip_outcome \<times> session_files option) option" where
  "strip_oracle_session sid head_bytes force dry_run found =
     (if sid = [] then Some (Empty_Sid, found)
      else case found of
        None \<Rightarrow> Some (Session_Not_Found, found)
      | Some s \<Rightarrow>
          (case (case sf_transcript s of
               Some lines \<Rightarrow> if force then Some True else is_session_terminal lines
             | None \<Rightarrow> Some True) of
             None \<Rightarrow> None
           | Some False \<Rightarrow> Some (Looks_Live, found)
           | Some True \<Rightarrow>
               (case delete_bash_original sid s of (removed, s1) \<Rightarrow>
                case truncate_sidecar_logs sid head_bytes s1 of (cut_down, s2) \<Rightarrow>
                (case sf_transcript s2 of
                   None \<Rightarrow> (case delete_advisor_files sid s2 of (adv, s3) \<Rightarrow> Some (Stripped removed cut_down None adv, Some s3))
                 | Some lines \<Rightarrow> (case filter_session_jsonl dry_run lines of
                     None \<Rightarrow> None
                   | Some (rep, lines') \<Rightarrow>
                       (case delete_advisor_files sid (s2\<lparr>sf_transcript := Some lines'\<rparr>) of (adv, s3) \<Rightarrow>
                         Some (Stripped removed cut_down (Some rep) adv, Some s3)))))))"

text \<open>\<open>strip_for_manifest\<close>: after a release the guard is off.\<close>

definition strip_for_manifest :: "park_manifest \<Rightarrow> nat \<Rightarrow> bool \<Rightarrow> bool \<Rightarrow> session_files option \<Rightarrow> (strip_outcome \<times> session_files option) option" where
  "strip_for_manifest m head_bytes force dry_run found = strip_oracle_session (pm_backend_session_id m) head_bytes force dry_run found"

section \<open>What a strip keeps\<close>

lemma filter_lines_spec:
  "filter_lines lines = Some (kept, n) \<Longrightarrow>
     kept = filter (\<lambda>l. l \<noteq> [] \<and> keep_line l = Some True) lines \<and>
     n = length (filter (\<lambda>l. l \<noteq> [] \<and> keep_line l \<noteq> Some True) lines)"
proof (induction lines arbitrary: kept n)
  case (Cons raw rest)
  show ?case
  proof (cases "raw = []")
    case False
    then obtain k where k: "keep_line raw = Some k" using Cons.prems by (cases "keep_line raw") auto
    obtain kept' n' where r: "filter_lines rest = Some (kept', n')"
      using Cons.prems False k by (cases "filter_lines rest") auto
    have "kept = (if k then raw # kept' else kept')" "n = (if k then n' else n' + 1)"
      using Cons.prems False k r by (auto split: if_splits)
    then show ?thesis using Cons.IH [OF r] False k by (cases k) simp_all
  qed (use Cons in simp)
qed simp

lemma filter_lines_kept:
  "list_all (\<lambda>l. l \<noteq> [] \<and> keep_line l = Some True) lines \<Longrightarrow> filter_lines lines = Some (lines, 0)"
  by (induction lines) auto

text \<open>A message of the assistant or a tool is a line that stays.\<close>

lemma message_kept:
  assumes m: "message_line l = Some (ts, role, w)" and role: "role = ''assistant'' \<or> role = ''toolResult''" and l: "strip l = l"
  shows "l \<noteq> [] \<and> keep_line l = Some True"
proof -
  obtain d where d: "loads l = Some (JObj d)" "dget d ''type'' = Some (JStr ''message'')"
    using m l by (auto simp: message_line_def split: option.splits json.splits if_splits)
  obtain mm where mm: "dget_or d ''message'' (JObj []) = JObj mm" "sget mm ''role'' = role"
    using m l d by (auto simp: message_line_def split: json.splits)
  have "dget_or mm ''role'' (JStr []) = JStr role"
    using mm(2) role by (cases "dget_or mm ''role'' (JStr [])") (auto simp: sget_def)
  then have "keep_message d = Some True" using role mm(1) by (auto simp: keep_message_def member_of_def KEEP_ROLES_def)
  moreover have "dget_or d ''type'' (JStr []) = JStr ''message''" using d(2) by (simp add: dget_or_def dget_def)
  ultimately have "keep_line l = Some True" by (simp add: keep_line_def d(1) keep_document_def Let_def member_of_def KEEP_HEADER_TYPES_def)
  moreover have "loads [] = None" by code_simp
  then have "l \<noteq> []" using d(1) by auto
  ultimately show ?thesis by simp
qed

lemma map_filter_kept:
  "(\<And>x. x \<in> set xs \<Longrightarrow> f x \<noteq> None \<Longrightarrow> P x) \<Longrightarrow> List.map_filter f (filter P xs) = List.map_filter f xs"
  by (induction xs) (auto simp: map_filter_simps split: option.split)

lemma filter_keeps_answers:
  assumes f: "filter_session_jsonl dry_run lines = Some (rep, lines')" and clean: "list_all (\<lambda>l. strip l = l) lines"
  shows "subseq lines' lines \<and>
    extract_assistant_messages lines' n after = extract_assistant_messages lines n after \<and>
    scan_session_stuck_events lines' since = scan_session_stuck_events lines since \<and>
    (\<not> dry_run \<longrightarrow> (\<exists>rep'. filter_session_jsonl dry_run lines' = Some (rep', lines') \<and> fr_dropped rep' = 0))"
proof -
  let ?P = "\<lambda>l. l \<noteq> [] \<and> keep_line l = Some True"
  obtain kept k where k: "filter_lines lines = Some (kept, k)" "lines' = (if 0 < k \<and> \<not> dry_run then kept else lines)"
    using f by (auto simp: filter_session_jsonl_def)
  note spec = filter_lines_spec [OF k(1)]
  have fresh: "?P l" if "l \<in> set lines" "fresh_assistant after l \<noteq> None" for l
    using that clean message_kept [of l] by (auto simp: fresh_assistant_def list_all_iff split: option.splits if_splits)
  have stuck: "?P l" if "l \<in> set lines" "stuck_event since l \<noteq> None" for l
    using that clean message_kept [of l] by (auto simp: stuck_event_def list_all_iff split: option.splits if_splits)
  have kept: "kept = filter ?P lines" using spec by simp
  have "List.map_filter (fresh_assistant after) kept = List.map_filter (fresh_assistant after) lines"
    unfolding kept by (rule map_filter_kept) (rule fresh)
  moreover have "List.map_filter (stuck_event since) kept = List.map_filter (stuck_event since) lines"
    unfolding kept by (rule map_filter_kept) (rule stuck)
  moreover have "subseq kept lines" unfolding kept by (rule subseq_filter_left)
  moreover have "\<exists>rep'. filter_session_jsonl dry_run lines' = Some (rep', lines') \<and> fr_dropped rep' = 0" if "\<not> dry_run"
  proof (cases "0 < k")
    case True
    have "filter_lines kept = Some (kept, 0)" unfolding kept by (intro filter_lines_kept) (simp add: list_all_iff)
    then show ?thesis using k(2) True that by (simp add: filter_session_jsonl_def)
  next
    case False
    then show ?thesis using k by (simp add: filter_session_jsonl_def)
  qed
  ultimately show ?thesis using k(2) by (auto simp: extract_assistant_messages_def scan_session_stuck_events_def)
qed


definition developer_line :: string where
  "developer_line = ''{\"type\": \"message\", \"message\": {\"role\": \"developer\"}}''"

lemma developer_dropped: "keep_line developer_line = Some False"
  by code_simp

lemma demo_kept: "demo_line \<noteq> [] \<and> keep_line demo_line = Some True"
  by (rule message_kept [OF demo_line_message]) (simp, code_simp)


text \<open>A dry run deletes and cuts files all the same; only the transcript stays.\<close>

lemma dry_run_deletes:
  "strip_oracle_session ''b'' 2048 True True
     (Some \<lparr>sf_dirs = [], sf_files = [([''1.bash-original.log''], [0])], sf_transcript = None\<rparr>) =
   Some (Stripped [[''1.bash-original.log'']] [] None [], Some \<lparr>sf_dirs = [], sf_files = [], sf_transcript = None\<rparr>)"
  by (simp add: strip_oracle_session_def delete_bash_original_def truncate_sidecar_logs_def delete_advisor_files_def in_targets_def
    is_bash_original_def has_suffix_def Let_def)

end
