(* ===== verification/Spec2Isabelle.thy ===== *)
theory Spec2Isabelle
  imports Claim_Race Request_Ledger Store_Admin Kernel_Restart Kernel_Poll Delivery_Contract Park_Router Wire_Exchange Gateway_Send Oracle_Trim Oracle_Watch Oracle_Model Session_Lock Artifact_Pull Repo_Routing Swarm_Receiver Oracle_Transcript
begin

text \<open>
  A model of \<open>aimeshchat\<close>, a mesh of coding agents that talk through mailboxes on a shared file
  system and across hosts. Paths below are relative to \<open>src/src/codeagent/\<close>.

  \<^bold>\<open>The program and its parts\<close>

  Agents belong to sessions. The store (\<open>mailbox/store.py\<close>) keeps a directory per session with the
  session file, a canonical history and, for each agent, an inbox, a processing, an archive and a
  quarantine folder. \<open>send\<close> writes one envelope per recipient and a history record; \<open>read\<close> claims a
  message by an exclusive claim file and moves it to processing, and \<open>finalize\<close>, \<open>release\<close> and
  \<open>recover_stale\<close> end the claim. The service (\<open>mailbox/service.py\<close>) adds acknowledgement receipts and
  parks messages whose receipt would have no route. The kernel (\<open>swarm/kernel.py\<close>) keeps sessions,
  access lists, locations, channels and topics in memory, mirrors them on disk, and routes messages
  to a delivery sink. The delivery engine (\<open>swarm/delivery.py\<close>) is the sink that works across hosts:
  a durable outbox in front of a mailbox command line (\<open>mailbox/cli.py\<close>), run in the process for this
  host and over a transport for others, with retries and dead letters. The request ledger (in
  \<open>mailbox/store.py\<close>) keeps the life of each request. Reviewers that may be needed again are parked: a
  registry of leases (\<open>park/registry.py\<close>) bounds how many stay hot, and a router revives them from a
  live process, a backend session or a snapshot. Other hosts are reached through a helper
  (\<open>remote_exec.py\<close>) that answers frames of JSON, one a line (\<open>wire/protocol.py\<close>), to the loops of
  \<open>transport/local.py\<close> and \<open>transport/ssh.py\<close>. The gateway (\<open>gateway/service.py\<close>) is the service of one
  host over all of these: it knows which runtimes are alive, hands them commands through the mailbox
  and tracks each command through the acknowledgements of the plugin, over a control store
  (\<open>gateway/control_store.py\<close>) and a log of events (\<open>gateway/events.py\<close>). An oracle (\<open>oracle.py\<close>) is a reviewer
  that is started, asked, waited for and read through all of these: its answers come from the transcript
  of its session or from a report in the mailbox, and an anchor of the latest ask keeps older answers out.
  A turn of an agent (\<open>_execute\<close> of \<open>cli.py\<close>) runs on the host that the map of repositories names, under
  the lock of its session key, and resumes the session the registry (\<open>session/registry.py\<close>) remembers.

  \<^bold>\<open>Theories\<close>

  \<^item> \<open>Mesh_Prelude\<close>, \<open>Py_Values\<close>, \<open>Py_Time\<close>: shared lemmas and the collection \<open>fs_simps\<close>; the interface
    \<open>keyed_store\<close> of finite maps; Python strings, JSON documents, truth values and dictionaries (association
    lists); instants as rationals, and the ISO time stamps of \<open>constants.py\<close>.
  \<^item> \<open>File_System\<close>: the tree below the mailbox root and the calls the program makes on it. The tree
    interprets \<open>keyed_store\<close>.
  \<^item> \<open>Mailbox_Protocol\<close>: \<open>mailbox/protocol.py\<close>, records, identifier patterns, \<open>validate_message\<close>.
  \<^item> \<open>Store_Session\<close>, \<open>Store_Send\<close>, \<open>Store_Claims\<close>, \<open>Store_Leases\<close>, \<open>Store_Admin\<close>: \<open>MailboxStore\<close>; sessions, cursor
    and status; history and sending; the two-phase consumption; leases and recovery; retention and
    inspection. \<open>Store_Frame\<close> states what a send leaves alone, once for every relation the single writes
    keep (the locale \<open>store_frame\<close>).
  \<^item> \<open>Claim_Race\<close>: the system calls of \<open>read\<close> as interleaved steps of any number of readers, with a
    refinement from the sequential \<open>read_step\<close>.
  \<^item> \<open>Request_Ledger\<close>: \<open>RequestLedger\<close>.
  \<^item> \<open>Mailbox_Service\<close>: \<open>MailboxService\<close>. Sinks and \<open>uuid5\<close> are parameters.
  \<^item> \<open>Swarm_Model\<close>, \<open>Swarm_Kernel\<close>: \<open>swarm/model.py\<close> and \<open>SwarmKernel\<close>, one definition per method, with
    \<open>LocalDeliverySink\<close>. \<open>Kernel_Restart\<close> relates \<open>create_session\<close> and \<open>_load_persisted_sessions\<close>,
    \<open>Kernel_Poll\<close> treats the pages of \<open>poll\<close>.
  \<^item> \<open>Domain_Hosts\<close>, \<open>Mailbox_Cli\<close>, \<open>Delivery_Engine\<close>: hosts, the command line between engine and mailbox, and
    \<open>DeliveryEngine\<close> with \<open>EngineDeliverySink\<close>. \<open>Outbox_Durability\<close> and \<open>Outbox_Retries\<close> hold the theorems.
  \<^item> \<open>Delivery_Contract\<close>: the contract between the kernel and its sinks (the locale \<open>delivery_contract\<close>),
    interpreted on the local sink and on the delivery engine.
  \<^item> \<open>Py_Numbers\<close>, \<open>Park_Snapshot\<close>, \<open>Park_Registry\<close>, \<open>Park_Router\<close>: decimal numerals; the package \<open>park\<close>, with
    the rows of its table as a list in insertion order. The locale \<open>lease_registry\<close> states what the
    mailbox store relies on of the registry.
  \<^item> \<open>Json_Text\<close>, \<open>Wire_Protocol\<close>, \<open>Wire_Exchange\<close>: \<open>json.dumps\<close> and \<open>json.loads\<close> on text; frames and requests
    with their schemas; one exchange between a client loop and the helper.
  \<^item> \<open>Gateway_Events\<close>, \<open>Gateway_Control\<close>: \<open>EventStore\<close> and \<open>ControlStore\<close>, their tables as lists of rows.
  \<^item> \<open>Gateway_Commands\<close>, \<open>Gateway_Runtimes\<close>, \<open>Gateway_Send\<close>: \<open>AgentGateway\<close>; the command state machine and
    acknowledgements, the methods on runtimes, peers, roles, merges and the restart, and \<open>runtime_send\<close>
    in its stages. \<open>Gateway_Safety\<close> runs the methods in any order; the locale \<open>runtime_frame\<close> states once
    what the methods on runtimes leave alone, and is interpreted on claims, merges, tree and commands.

  \<^item> \<open>Oracle_Answers\<close>, \<open>Oracle_Watch\<close>: the meta document of a review with its anchor, the sources of a result
    and its truncation; the stuck alarm and the wait for new output, with what the gateway answers at
    each poll as a list of observations.
  \<^item> \<open>Oracle_Config\<close>, \<open>Oracle_Model\<close>: reading and merging the configuration file, a list of lines; the
    \<open>ExecutionSpec\<close> of \<open>domain/__init__.py\<close> and the chains of a later ask, over the gateway's model contexts.
  \<^item> \<open>Oracle_Trim\<close>, \<open>Oracle_Transcript\<close>: the trimming of a running session, on the event rows of its
    database, and the collection of released rows of the park registry; the strip of the files of a
    finished session (\<open>scripts/oracle_transcript_strip.py\<close>).
  \<^item> \<open>Session_Registry\<close>, \<open>Session_Lock\<close>: \<open>session/\<close>; the rows of the registry with the turn of an agent
    (\<open>_execute\<close> of \<open>cli.py\<close>), and the lock of a key with the steps of threads interleaved.
  \<^item> \<open>Repo_Routing\<close>, \<open>Artifact_Pull\<close>, \<open>Swarm_Receiver\<close>: \<open>config/repo_map.py\<close> with \<open>routing/resolver.py\<close> and
    \<open>transport/router.py\<close>; \<open>artifact.py\<close>; \<open>swarm/receiver.py\<close>.

  \<^bold>\<open>State, errors, time\<close>

  Every operation takes the tree and gives back the tree; what a process keeps in memory is a record
  (\<open>kernel\<close>, \<open>engine\<close>, \<open>ledger\<close>, \<open>gateway\<close>) passed along. A raised exception is the left value of a sum, by kind
  (\<open>store_error\<close>, \<open>kernel_error\<close>), and the tree beside it shows what had been written by then. Inside the
  delivery engine exceptions are texts, since their text decides between retry and dead letter. The
  clock, random suffixes, uuids, host names, configured hosts and transports are arguments. Sections
  of the source under one lock are one step; the lock-free protocol of \<open>read\<close> is interleaved in
  \<open>Claim_Race\<close>.

  \<^bold>\<open>Loops\<close>

  All definitions are total. \<open>read\<close> loops until it finds a message it can claim, and takes fuel;
  \<open>read_terminates\<close> shows that without a target a number of turns bounded by the inbox is enough, and
  \<open>targeted_read_spins\<close> that with a target there may be no such number. Every other loop of the
  source runs over a listing and is structural recursion. The JSON reader takes as fuel twice the
  length of its input, which \<open>scan_fuel\<close> shows to be enough.

  \<^bold>\<open>What is shown\<close>

  Messages: a send reaches every recipient and the history with one valid record, is refused without
  effect or replayed without effect; no sequence of store operations loses a message; \<open>read\<close> hands out
  a message once, in every interleaving; only the owner of a claim ends it; an expired lease comes
  back and a live one does not. Service: no acknowledgement is lost silently, receipts are written
  once and start no loop, parked messages block no other. Ledger: one terminal state. Kernel: the
  access lists are enforced before anything happens, fan-outs reach exactly their audience, sessions
  survive a restart, pages of \<open>poll\<close> fit together. Engine: what is accepted is never lost, sent once,
  tried fewer than five times before it is given up, and can be requeued; the command line carries an
  envelope unchanged or not at all; a broadcast over the engine is durable for every recipient. Park: rows
  stay well typed, a key has one owner, a sweep enforces the limits and reports exactly what it
  evicted, whatever it evicted can be revived, and a parked agent keeps its mailbox. Wire: frames
  survive the text codec, accepted frames are well typed, an exchange without a terminal frame is
  no success over ssh, and a remote mailbox call returns what the command answered. Gateway: a
  request is carried out once across replays and restarts, its answer promises no more than what was
  done, acknowledgements move a command forward only; an older generation is fenced off, silent
  runtimes and no others go offline, a role has one owner, a restart fakes no live runtime; the event
  log is ordered, read exactly once by cursor and replicated idempotently. Oracle: a result and a wait
  give text produced after the latest ask and never an older answer; a review inherits the model its
  runtime last reported; merging a configuration only adds to it; trimming keeps the latest turns, and a
  strip keeps every answer. Turns: the registry remembers the conversation of each key, and a turn is
  alone on its row. A receiver announces a message once; a pulled artifact comes from below its root and
  is what its descriptor says; a loaded map routes every repository it names.

  \<^bold>\<open>Not modelled\<close>

  Permission bits, \<open>fsync\<close>, partial writes and disk errors other than a refused outbox write; documents of
  other shapes than the program writes, where it would raise \<open>AttributeError\<close> or the like (each theory says
  which); a thread pool that delivers a large broadcast in another order; the agent cards and the ssh
  command lines of the kernel; the other subcommands of the mailbox command line. The ssh command
  lines, control sockets and relays, stream subscriptions, the sockets of the gateway, runtimes and
  runners, jobs and the command line are processes, sockets and third-party services; what
  the modelled parts ask of them is a parameter. Of the gateway, the hub and message methods, which
  pass their arguments to the modelled store and kernel, \<open>artifact_verify\<close>, \<open>runtime_probe\<close> and
  \<open>runtime_info\<close> are left out, and the wait of \<open>runtime_send\<close> for a binding, which ends before its last
  stage. Of the oracle, the commands that start, ask, revive and release a review are left out beyond
  the choice of the model: they chain the modelled operations of kernel, registry and gateway with
  processes and terminals. The search for a transcript in the directories of third-party agents and
  the purge of their databases are parameters or left out.
\<close>

end
